(* ===== verification/Prelude.thy ===== *)
theory Prelude
  imports Main "HOL-Library.AList" "HOL-Library.Word" "HOL-Library.Sublist"
begin

text \<open>
  Shared material of the development.

  \<^item> the model's view of Rust's machine integers: an unsigned 64-bit counter is a natural
    number whose additions are written out, wrapping (\<open>u64_succ\<close>, the release build's
    \<open>+= 1\<close>) or saturating (\<open>u64_sat_succ\<close>, \<open>saturating_add(1)\<close>);
  \<^item> the standard containers: a \<^verbatim>\<open>HashMap\<close> is an association list with distinct keys
    (its iteration order is the list's, one of the orders the language allows), a
    \<^verbatim>\<open>BTreeMap\<close> an association list sorted by key;
  \<^item> \<^verbatim>\<open>tokio::sync::watch\<close>'s sender, as the sources use it;
  \<^item> decimal printing, for the messages the sources format;
  \<^item> the two interfaces the components share: a queue that evicts from its front, and a
    transition system with an invariant.
\<close>

named_theorems container_simps

subsection \<open>Machine integers\<close>

type_synonym byte = "8 word"

definition u64_modulus :: nat where
  "u64_modulus = 18446744073709551616"

definition u64_max :: nat where
  "u64_max = u64_modulus - 1"

definition u64_succ :: "nat \<Rightarrow> nat" where
  "u64_succ n = (n + 1) mod u64_modulus"

definition u64_sat_succ :: "nat \<Rightarrow> nat" where
  "u64_sat_succ n = (if n < u64_max then n + 1 else u64_max)"

lemma u64_modulus_pow: "u64_modulus = 2 ^ 64"
  by (simp add: u64_modulus_def)

lemma u64_succ_no_wrap: "n < u64_max \<Longrightarrow> u64_succ n = Suc n"
  by (simp add: u64_succ_def u64_max_def)

lemma u64_sat_succ_small: "n < u64_max \<Longrightarrow> u64_sat_succ n = Suc n"
  by (simp add: u64_sat_succ_def)

lemma u64_sat_succ_max: "n = u64_max \<Longrightarrow> u64_sat_succ n = u64_max"
  by (simp add: u64_sat_succ_def)

lemma u64_sat_succ_le: "u64_sat_succ n \<le> u64_max"
  by (auto simp: u64_sat_succ_def)

subsection \<open>Decimal printing\<close>

definition digit_char :: "nat \<Rightarrow> char" where
  "digit_char d = char_of (48 + d)"

fun show_nat :: "nat \<Rightarrow> string" where
  "show_nat n = (if n < 10 then [digit_char n] else show_nat (n div 10) @ [digit_char (n mod 10)])"

declare show_nat.simps [simp del]

definition show_int :: "int \<Rightarrow> string" where
  "show_int i = (if i < 0 then ''-'' @ show_nat (nat (- i)) else show_nat (nat i))"

text \<open>Reading the digits back, which shows that printing loses nothing.\<close>

definition digit_value :: "char \<Rightarrow> nat" where
  "digit_value c = of_char c - 48"

definition read_nat :: "string \<Rightarrow> nat" where
  "read_nat s = foldl (\<lambda>acc c. 10 * acc + digit_value c) 0 s"

lemma digit_value_char: "d < 10 \<Longrightarrow> digit_value (digit_char d) = d"
proof -
  assume "d < 10"
  then have "(of_char (char_of (48 + d)) :: nat) = 48 + d" by (subst of_char_of) simp
  then show ?thesis by (simp add: digit_value_def digit_char_def)
qed

lemma read_show_nat: "read_nat (show_nat n) = n"
proof (induction n rule: show_nat.induct)
  case (1 n)
  show ?case
  proof (cases "n < 10")
    case True
    then show ?thesis
      by (simp add: show_nat.simps [of n] read_nat_def digit_value_char)
  next
    case False
    with "1.IH" have "read_nat (show_nat (n div 10)) = n div 10" by simp
    with False show ?thesis
      by (simp add: show_nat.simps [of n] read_nat_def digit_value_char)
  qed
qed

lemma show_nat_inj: "show_nat a = show_nat b \<longleftrightarrow> a = b"
  by (metis read_show_nat)

lemma show_nat_nonempty [simp]: "show_nat n \<noteq> []"
  by (subst show_nat.simps) simp

subsection \<open>HashMap and BTreeMap\<close>

type_synonym ('k, 'v) hash_map = "('k \<times> 'v) list"
type_synonym ('k, 'v) btree_map = "('k \<times> 'v) list"

abbreviation hm_get :: "('k, 'v) hash_map \<Rightarrow> 'k \<Rightarrow> 'v option" where
  "hm_get \<equiv> map_of"

definition hm_insert :: "'k \<Rightarrow> 'v \<Rightarrow> ('k, 'v) hash_map \<Rightarrow> ('k, 'v) hash_map" where
  "hm_insert k v m = AList.update k v m"

definition hm_remove :: "'k \<Rightarrow> ('k, 'v) hash_map \<Rightarrow> ('k, 'v) hash_map" where
  "hm_remove k m = AList.delete k m"

definition hm_contains :: "'k \<Rightarrow> ('k, 'v) hash_map \<Rightarrow> bool" where
  "hm_contains k m = (hm_get m k \<noteq> None)"

definition hm_wf :: "('k, 'v) hash_map \<Rightarrow> bool" where
  "hm_wf m = distinct (map fst m)"

lemma hm_get_insert [container_simps]: "hm_get (hm_insert k v m) = (hm_get m)(k \<mapsto> v)"
  by (simp add: hm_insert_def update_conv')

lemma hm_get_remove [container_simps]: "hm_get (hm_remove k m) = (hm_get m)(k := None)"
  by (simp add: hm_remove_def delete_conv')

lemma hm_wf_insert [simp]: "hm_wf m \<Longrightarrow> hm_wf (hm_insert k v m)"
  by (simp add: hm_wf_def hm_insert_def distinct_update)

lemma hm_wf_remove [simp]: "hm_wf m \<Longrightarrow> hm_wf (hm_remove k m)"
  by (simp add: hm_wf_def hm_remove_def distinct_delete)

lemma hm_wf_Nil [simp]: "hm_wf []"
  by (simp add: hm_wf_def)

lemma hm_get_in_set: "hm_wf m \<Longrightarrow> (k, v) \<in> set m \<longleftrightarrow> hm_get m k = Some v"
  by (simp add: hm_wf_def)

fun bt_insert :: "'k::linorder \<Rightarrow> 'v \<Rightarrow> ('k, 'v) btree_map \<Rightarrow> ('k, 'v) btree_map" where
  "bt_insert k v [] = [(k, v)]"
| "bt_insert k v (e # m) =
     (if k < fst e then (k, v) # e # m
      else if k = fst e then (k, v) # m
      else e # bt_insert k v m)"

definition bt_or_insert :: "'k::linorder \<Rightarrow> 'v \<Rightarrow> ('k, 'v) btree_map \<Rightarrow> ('k, 'v) btree_map" where
  "bt_or_insert k v m = (case map_of m k of Some _ \<Rightarrow> m | None \<Rightarrow> bt_insert k v m)"

definition bt_remove :: "'k::linorder \<Rightarrow> ('k, 'v) btree_map \<Rightarrow> ('k, 'v) btree_map" where
  "bt_remove k m = filter (\<lambda>e. fst e \<noteq> k) m"

definition bt_range :: "'k::linorder \<Rightarrow> 'k \<Rightarrow> ('k, 'v) btree_map \<Rightarrow> ('k, 'v) btree_map" where
  "bt_range lo hi m = filter (\<lambda>e. lo \<le> fst e \<and> fst e \<le> hi) m"

definition bt_wf :: "('k::linorder, 'v) btree_map \<Rightarrow> bool" where
  "bt_wf m = sorted_wrt (<) (map fst m)"

lemma bt_keys_insert [simp]: "fst ` set (bt_insert k v m) = insert k (fst ` set m)"
  by (induction m) auto

lemma bt_get_insert [container_simps]: "map_of (bt_insert k v m) = (map_of m)(k \<mapsto> v)"
  by (induction m) (auto simp: fun_eq_iff)

lemma bt_wf_insert [simp]: "bt_wf m \<Longrightarrow> bt_wf (bt_insert k v m)"
  by (induction m) (auto simp: bt_wf_def)

lemma bt_get_or_insert [container_simps]:
  "map_of (bt_or_insert k v m) = (case map_of m k of Some _ \<Rightarrow> map_of m | None \<Rightarrow> (map_of m)(k \<mapsto> v))"
  by (simp add: bt_or_insert_def container_simps split: option.split)

lemma bt_wf_or_insert [simp]: "bt_wf m \<Longrightarrow> bt_wf (bt_or_insert k v m)"
  by (simp add: bt_or_insert_def split: option.split)

lemma bt_get_remove [container_simps]: "map_of (bt_remove k m) = (map_of m)(k := None)"
  by (induction m) (auto simp: bt_remove_def fun_eq_iff)

lemma bt_wf_remove [simp]: "bt_wf m \<Longrightarrow> bt_wf (bt_remove k m)"
  by (induction m) (auto simp: bt_wf_def bt_remove_def)

lemma bt_wf_Nil [simp]: "bt_wf []"
  by (simp add: bt_wf_def)

lemma bt_wf_distinct: "bt_wf m \<Longrightarrow> distinct (map fst m)"
  by (induction m) (auto simp: bt_wf_def)

lemma bt_get_in_set: "bt_wf m \<Longrightarrow> (k, v) \<in> set m \<longleftrightarrow> map_of m k = Some v"
  by (simp add: bt_wf_distinct)

lemma bt_remove_shorter: "map_of m k = Some v \<Longrightarrow> length (bt_remove k m) < length m"
  unfolding bt_remove_def
  by (rule length_filter_less [of "(k, v)"]) (auto dest: map_of_SomeD)

text \<open>\<^verbatim>\<open>HashMap::extend\<close> (and \<^verbatim>\<open>collect\<close>, from the empty map): later pairs win.\<close>

definition hm_extend :: "('k, 'v) hash_map \<Rightarrow> ('k \<times> 'v) list \<Rightarrow> ('k, 'v) hash_map" where
  "hm_extend m kvs = fold (\<lambda>(k, v). hm_insert k v) kvs m"

lemma hm_get_extend [container_simps]: "hm_get (hm_extend m kvs) = hm_get m ++ map_of (rev kvs)"
proof (induction kvs arbitrary: m)
  case Nil
  then show ?case by (simp add: hm_extend_def)
next
  case (Cons kv kvs)
  then show ?case
    by (cases kv) (auto simp: hm_extend_def container_simps fun_eq_iff map_add_def split: option.split)
qed

lemma hm_wf_extend [simp]: "hm_wf m \<Longrightarrow> hm_wf (hm_extend m kvs)"
  by (induction kvs arbitrary: m) (auto simp: hm_extend_def)

lemma hm_get_rev: "hm_wf m \<Longrightarrow> hm_get (rev m) = hm_get m"
  unfolding hm_wf_def by (subst map_of_inject_set) (simp_all flip: rev_map)

text \<open>\<^verbatim>\<open>HashMap::retain\<close> on the keys.\<close>

definition hm_retain :: "('k \<Rightarrow> bool) \<Rightarrow> ('k, 'v) hash_map \<Rightarrow> ('k, 'v) hash_map" where
  "hm_retain P m = filter (\<lambda>e. P (fst e)) m"

lemma hm_get_retain [container_simps]:
  "hm_get (hm_retain P m) k = (if P k then hm_get m k else None)"
  by (induction m) (auto simp: hm_retain_def)

lemma hm_wf_retain [simp]: "hm_wf m \<Longrightarrow> hm_wf (hm_retain P m)"
  unfolding hm_wf_def hm_retain_def by (rule distinct_map_filter)

subsection \<open>The target platform and ASCII case\<close>

datatype target_os = Linux | MacOS | Windows

definition to_ascii_lowercase_char :: "char \<Rightarrow> char" where
  "to_ascii_lowercase_char c =
     (let n = (of_char c :: nat) in if 65 \<le> n \<and> n \<le> 90 then char_of (n + 32) else c)"

definition to_ascii_lowercase :: "string \<Rightarrow> string" where
  "to_ascii_lowercase = map to_ascii_lowercase_char"

definition eq_ignore_ascii_case :: "string \<Rightarrow> string \<Rightarrow> bool" where
  "eq_ignore_ascii_case a b = (to_ascii_lowercase a = to_ascii_lowercase b)"

lemma eq_ignore_ascii_case_refl [simp]: "eq_ignore_ascii_case a a"
  by (simp add: eq_ignore_ascii_case_def)

lemma to_ascii_lowercase_simps [simp]:
  "to_ascii_lowercase [] = []"
  "to_ascii_lowercase (c # s) = to_ascii_lowercase_char c # to_ascii_lowercase s"
  "to_ascii_lowercase (s @ t) = to_ascii_lowercase s @ to_ascii_lowercase t"
  by (simp_all add: to_ascii_lowercase_def)

text \<open>\<^verbatim>\<open>str::contains\<close>.\<close>

fun contains :: "string \<Rightarrow> string \<Rightarrow> bool" where
  "contains needle [] = (needle = [])"
| "contains needle (c # s) = (take (length needle) (c # s) = needle \<or> contains needle s)"

lemma contains_iff: "contains needle s \<longleftrightarrow> (\<exists>pre post. s = pre @ needle @ post)"
proof (induction s)
  case Nil
  then show ?case by simp
next
  case (Cons c s)
  have "take (length needle) (c # s) = needle \<longleftrightarrow> (\<exists>post. c # s = needle @ post)"
    by (metis append_eq_conv_conj append_take_drop_id)
  then show ?case using Cons by (auto simp: Cons_eq_append_conv)
qed

subsection \<open>The watch channel\<close>

text \<open>
  The value of a \<^verbatim>\<open>tokio::sync::watch\<close> channel and its number of receivers. \<open>send\<close>
  fails and leaves the value alone when there is no receiver; \<open>send_modify\<close> always
  updates it.
\<close>

record 'a watch =
  w_value :: 'a
  w_receivers :: nat

definition watch_send :: "'a \<Rightarrow> 'a watch \<Rightarrow> 'a watch" where
  "watch_send v w = (if w_receivers w = 0 then w else w\<lparr>w_value := v\<rparr>)"

definition watch_send_modify :: "('a \<Rightarrow> 'a) \<Rightarrow> 'a watch \<Rightarrow> 'a watch" where
  "watch_send_modify f w = w\<lparr>w_value := f (w_value w)\<rparr>"

definition watch_subscribe :: "'a watch \<Rightarrow> 'a watch" where
  "watch_subscribe w = w\<lparr>w_receivers := w_receivers w + 1\<rparr>"

definition watch_drop_receiver :: "'a watch \<Rightarrow> 'a watch" where
  "watch_drop_receiver w = w\<lparr>w_receivers := w_receivers w - 1\<rparr>"

subsection \<open>Queues that evict from the front\<close>

text \<open>
  Three loops of the executor have one shape: while a budget on the number of entries or on
  their total weight is exceeded, pop the oldest entry and take its weight off the running
  total. The interface is the loop's two equations; what such a loop guarantees is proved
  here once.
\<close>

definition weight_sum :: "('a \<Rightarrow> nat) \<Rightarrow> 'a list \<Rightarrow> nat" where
  "weight_sum w xs = sum_list (map w xs)"

lemma weight_sum_simps [simp]:
  "weight_sum w [] = 0"
  "weight_sum w (x # xs) = w x + weight_sum w xs"
  "weight_sum w (xs @ ys) = weight_sum w xs + weight_sum w ys"
  by (simp_all add: weight_sum_def)

locale front_eviction =
  fixes weight :: "'a \<Rightarrow> nat"
    and over :: "nat \<Rightarrow> nat \<Rightarrow> bool"
    and evict :: "'a list \<Rightarrow> nat \<Rightarrow> 'a list \<times> nat"
  assumes evict_Nil: "evict [] b = ([], b)"
    and evict_Cons: "evict (x # xs) b =
          (if over (length (x # xs)) b then evict xs (b - weight x) else (x # xs, b))"
begin

lemma evict_suffix: "suffix (fst (evict xs b)) xs"
  by (induction xs arbitrary: b) (auto simp: evict_Nil evict_Cons intro: suffix_ConsI)

lemma evict_total: "snd (evict xs (weight_sum weight xs)) = weight_sum weight (fst (evict xs (weight_sum weight xs)))"
  by (induction xs) (auto simp: evict_Nil evict_Cons)

lemma evict_within: "fst (evict xs b) \<noteq> [] \<Longrightarrow>
    \<not> over (length (fst (evict xs b))) (snd (evict xs b))"
  by (induction xs arbitrary: b) (auto simp: evict_Nil evict_Cons)

lemma evict_id: "\<not> over (length xs) b \<Longrightarrow> evict xs b = (xs, b)"
  by (cases xs) (auto simp: evict_Nil evict_Cons)

text \<open>Nothing more than needed is evicted: the result is the longest suffix in budget.\<close>

lemma evict_longest:
  assumes "suffix ys xs" and "\<not> over (length ys) (weight_sum weight ys)"
  shows "suffix ys (fst (evict xs (weight_sum weight xs)))"
  using assms
proof (induction xs)
  case Nil
  then show ?case by (simp add: evict_Nil)
next
  case (Cons x xs)
  show ?case
  proof (cases "ys = x # xs")
    case True
    with Cons.prems show ?thesis by (simp add: evict_Cons)
  next
    case False
    with Cons.prems(1) have "suffix ys xs" by (simp add: suffix_Cons)
    with Cons show ?thesis by (auto simp: evict_Cons suffix_Cons)
  qed
qed

end

subsection \<open>Transition systems with an invariant\<close>

definition reachable_from :: "('s \<Rightarrow> bool) \<Rightarrow> ('s \<Rightarrow> 's \<Rightarrow> bool) \<Rightarrow> 's \<Rightarrow> bool" where
  "reachable_from ini stp t \<longleftrightarrow> (\<exists>s. ini s \<and> stp\<^sup>*\<^sup>* s t)"

lemma reachable_step: "reachable_from ini stp s \<Longrightarrow> stp s t \<Longrightarrow> reachable_from ini stp t"
  unfolding reachable_from_def by (meson rtranclp.rtrancl_into_rtrancl)

lemma reachable_start: "ini s \<Longrightarrow> reachable_from ini stp s"
  unfolding reachable_from_def by blast

locale transition_invariant =
  fixes ini :: "'s \<Rightarrow> bool"
    and stp :: "'s \<Rightarrow> 's \<Rightarrow> bool"
    and inv :: "'s \<Rightarrow> bool"
  assumes inv_ini: "ini s \<Longrightarrow> inv s"
    and inv_stp: "stp s t \<Longrightarrow> inv s \<Longrightarrow> inv t"
begin

lemma inv_run: "stp\<^sup>*\<^sup>* s t \<Longrightarrow> inv s \<Longrightarrow> inv t"
  by (induction rule: rtranclp_induct) (auto intro: inv_stp)

lemma inv_reachable: "reachable_from ini stp t \<Longrightarrow> inv t"
  unfolding reachable_from_def by (auto intro: inv_run inv_ini)

end

end
