(* ===== verification/Wire.thy ===== *)
theory Wire
  imports Prelude
begin

text \<open>
  The data that crosses the executor's wire: the JSON-RPC envelope of
  \<^verbatim>\<open>crates/app-server-protocol/src/jsonrpc_lite.rs\<close>, the error constructors of
  \<^verbatim>\<open>crates/exec-server/src/rpc.rs\<close> and the process messages of
  \<^verbatim>\<open>crates/exec-server/src/protocol.rs\<close>. A \<^verbatim>\<open>ProcessId\<close> is its string; a JSON value is
  serde's \<^verbatim>\<open>Value\<close>, a number being its literal; the conversions between values and message types
  are serde's, and arguments where they are used.
\<close>

datatype json_value =
  JNull
| JBool bool
| JNumber string
| JString string
| JArray "json_value list"
| JObject "(string \<times> json_value) list"

type_synonym process_id = string

subsection \<open>The JSON-RPC envelope\<close>

datatype request_id = StringId string | IntegerId int

definition show_request_id :: "request_id \<Rightarrow> string" where
  "show_request_id r = (case r of StringId s \<Rightarrow> s | IntegerId i \<Rightarrow> show_int i)"

record jsonrpc_error_error =
  je_code :: int
  je_data :: "json_value option"
  je_message :: string

record jsonrpc_request =
  jr_id :: request_id
  jr_method :: string
  jr_params :: "json_value option"

record jsonrpc_notification =
  jn_method :: string
  jn_params :: "json_value option"

datatype jsonrpc_message =
  JsonRequest jsonrpc_request
| JsonNotification jsonrpc_notification
| JsonResponse request_id json_value
| JsonError request_id jsonrpc_error_error

definition session_already_attached_error_code :: int where
  "session_already_attached_error_code = -32010"

definition invalid_request :: "string \<Rightarrow> jsonrpc_error_error" where
  "invalid_request m = \<lparr>je_code = -32600, je_data = None, je_message = m\<rparr>"

definition session_already_attached :: "string \<Rightarrow> jsonrpc_error_error" where
  "session_already_attached m =
     \<lparr>je_code = session_already_attached_error_code, je_data = None, je_message = m\<rparr>"

definition method_not_found :: "string \<Rightarrow> jsonrpc_error_error" where
  "method_not_found m = \<lparr>je_code = -32601, je_data = None, je_message = m\<rparr>"

definition invalid_params :: "string \<Rightarrow> jsonrpc_error_error" where
  "invalid_params m = \<lparr>je_code = -32602, je_data = None, je_message = m\<rparr>"

definition not_found :: "string \<Rightarrow> jsonrpc_error_error" where
  "not_found m = \<lparr>je_code = -32004, je_data = None, je_message = m\<rparr>"

definition internal_error :: "string \<Rightarrow> jsonrpc_error_error" where
  "internal_error m = \<lparr>je_code = -32603, je_data = None, je_message = m\<rparr>"

lemmas rpc_error_defs =
  invalid_request_def session_already_attached_def session_already_attached_error_code_def
  method_not_found_def invalid_params_def not_found_def internal_error_def

text \<open>The six families of errors are told apart by their codes.\<close>

lemma rpc_error_codes_distinct:
  "distinct (map (\<lambda>f. je_code (f m))
     [invalid_request, session_already_attached, method_not_found, invalid_params,
      not_found, internal_error])"
  by (simp add: rpc_error_defs)

subsection \<open>Errors of the client\<close>

text \<open>
  \<^verbatim>\<open>ExecServerError\<close> of \<^verbatim>\<open>client.rs\<close>; a payload of a foreign type (an I/O error, a serde
  error, a duration, an HTTP status) is its rendered text.
\<close>

datatype exec_server_error =
  SpawnError string
| WebSocketConnectTimeout string string
| WebSocketConnect string string
| InitializeTimedOut string
| TransportClosed
| Disconnected string
| JsonFailure string
| HttpRequestError string
| ProtocolError string
| ServerError int string
| EnvironmentRegistryHttp string "string option" string
| EnvironmentRegistryConfig string
| EnvironmentRegistryAuth string
| EnvironmentRegistryRequest string
| ConnectionAttempt exec_server_error

fun show_exec_server_error :: "exec_server_error \<Rightarrow> string" where
  "show_exec_server_error (SpawnError m) = ''failed to spawn exec-server: '' @ m"
| "show_exec_server_error (WebSocketConnectTimeout url t) =
     ''timed out connecting to exec-server websocket `'' @ url @ ''` after '' @ t"
| "show_exec_server_error (WebSocketConnect url m) =
     ''failed to connect to exec-server websocket `'' @ url @ ''`: '' @ m"
| "show_exec_server_error (InitializeTimedOut t) =
     ''timed out waiting for exec-server initialize handshake after '' @ t"
| "show_exec_server_error TransportClosed = ''exec-server transport closed''"
| "show_exec_server_error (Disconnected m) = m"
| "show_exec_server_error (JsonFailure m) =
     ''failed to serialize or deserialize exec-server JSON: '' @ m"
| "show_exec_server_error (HttpRequestError m) = ''HTTP request failed: '' @ m"
| "show_exec_server_error (ProtocolError m) = ''exec-server protocol error: '' @ m"
| "show_exec_server_error (ServerError code m) =
     ''exec-server rejected request ('' @ show_int code @ ''): '' @ m"
| "show_exec_server_error (EnvironmentRegistryHttp status code m) =
     ''environment registry request failed ('' @ status
       @ (case code of None \<Rightarrow> [] | Some c \<Rightarrow> '', '' @ c) @ ''): '' @ m"
| "show_exec_server_error (EnvironmentRegistryConfig m) =
     ''environment registry configuration error: '' @ m"
| "show_exec_server_error (EnvironmentRegistryAuth m) =
     ''environment registry authentication error: '' @ m"
| "show_exec_server_error (EnvironmentRegistryRequest m) =
     ''environment registry request failed: '' @ m"
| "show_exec_server_error (ConnectionAttempt e) =
     ''exec-server connection attempt failed: '' @ show_exec_server_error e"

subsection \<open>Process messages\<close>

datatype exec_output_stream = Stdout | Stderr | Pty

record process_output_chunk =
  poc_seq :: nat
  poc_stream :: exec_output_stream
  poc_chunk :: "byte list"

record read_params =
  rd_process_id :: process_id
  rd_after_seq :: "nat option"
  rd_max_bytes :: "nat option"
  rd_wait_ms :: "nat option"

record read_response =
  rr_chunks :: "process_output_chunk list"
  rr_next_seq :: nat
  rr_exited :: bool
  rr_exit_code :: "int option"
  rr_closed :: bool
  rr_failure :: "string option"
  rr_sandbox_denied :: bool

record write_params =
  wp_process_id :: process_id
  wp_chunk :: "byte list"
  wp_write_id :: string

datatype write_status = Accepted | UnknownProcess | StdinClosed | Starting

datatype process_signal = Interrupt

datatype exec_notification =
  OutputDelta process_id nat exec_output_stream "byte list"
| ExitedNotification process_id nat int
| ClosedNotification process_id nat

fun notification_process :: "exec_notification \<Rightarrow> process_id" where
  "notification_process (OutputDelta p _ _ _) = p"
| "notification_process (ExitedNotification p _ _) = p"
| "notification_process (ClosedNotification p _) = p"

fun notification_seq :: "exec_notification \<Rightarrow> nat" where
  "notification_seq (OutputDelta _ n _ _) = n"
| "notification_seq (ExitedNotification _ n _) = n"
| "notification_seq (ClosedNotification _ n) = n"

end
