(* ===== verification/Event_Log.thy ===== *)
theory Event_Log
  imports Wire
begin

text \<open>
  The replay log of one process's events, \<^verbatim>\<open>crates/exec-server/src/process.rs\<close>: a bounded
  history of the latest events plus a live broadcast channel. The channel is tokio's; its
  sender is modelled by the sequence \<open>el_sent\<close> of the events handed to it, and its
  receiver by the arguments \<open>live_subscribe\<close> and \<open>live_recv\<close> of the definitions that use it.
\<close>

datatype exec_process_event =
  Output process_output_chunk
| Exited nat int
| Closed nat
| Failed string

fun event_seq :: "exec_process_event \<Rightarrow> nat option" where
  "event_seq (Output c) = Some (poc_seq c)"
| "event_seq (Exited n _) = Some n"
| "event_seq (Closed n) = Some n"
| "event_seq (Failed _) = None"

fun is_exited_event :: "exec_process_event \<Rightarrow> bool" where
  "is_exited_event (Exited _ _) = True"
| "is_exited_event _ = False"

fun is_closed_event :: "exec_process_event \<Rightarrow> bool" where
  "is_closed_event (Closed _) = True"
| "is_closed_event _ = False"

fun retained_len :: "exec_process_event \<Rightarrow> nat" where
  "retained_len (Output c) = length (poc_chunk c)"
| "retained_len (Failed m) = length m"
| "retained_len (Exited _ _) = 0"
| "retained_len (Closed _) = 0"

record exec_process_event_log =
  el_events :: "exec_process_event list"
  el_retained_bytes :: nat
  el_sent :: "exec_process_event list"
  el_event_capacity :: nat
  el_byte_capacity :: nat

definition event_log_new :: "nat \<Rightarrow> nat \<Rightarrow> exec_process_event_log" where
  "event_log_new ecap bcap =
     \<lparr>el_events = [], el_retained_bytes = 0, el_sent = [],
      el_event_capacity = ecap, el_byte_capacity = bcap\<rparr>"

text \<open>The eviction loop of \<open>publish\<close>: pop from the front while either bound is exceeded.\<close>

fun evict_history ::
  "nat \<Rightarrow> nat \<Rightarrow> exec_process_event list \<Rightarrow> nat \<Rightarrow> exec_process_event list \<times> nat" where
  "evict_history ecap bcap [] bytes = ([], bytes)"
| "evict_history ecap bcap (e # es) bytes =
     (if length (e # es) > ecap \<or> bytes > bcap
      then evict_history ecap bcap es (bytes - retained_len e)
      else (e # es, bytes))"

definition publish :: "exec_process_event \<Rightarrow> exec_process_event_log \<Rightarrow> exec_process_event_log" where
  "publish e l =
     (let (es, bytes) =
            evict_history (el_event_capacity l) (el_byte_capacity l)
              (el_events l @ [e]) (el_retained_bytes l + retained_len e)
      in l\<lparr>el_events := es, el_retained_bytes := bytes, el_sent := el_sent l @ [e]\<rparr>)"

datatype recv_error = Lagged nat | ChannelClosed

record 'l event_receiver =
  rv_replay :: "exec_process_event list"
  rv_live :: 'l

definition subscribe :: "(exec_process_event list \<Rightarrow> 'l) \<Rightarrow> exec_process_event_log \<Rightarrow> 'l event_receiver" where
  "subscribe live_subscribe l =
     \<lparr>rv_replay = el_events l, rv_live = live_subscribe (el_sent l)\<rparr>"

definition recv ::
  "('l \<Rightarrow> (recv_error + exec_process_event) \<times> 'l) \<Rightarrow> 'l event_receiver
     \<Rightarrow> (recv_error + exec_process_event) \<times> 'l event_receiver" where
  "recv live_recv rv =
     (case rv_replay rv of
        e # es \<Rightarrow> (Inr e, rv\<lparr>rv_replay := es\<rparr>)
      | [] \<Rightarrow> (case live_recv (rv_live rv) of (r, live) \<Rightarrow> (r, rv\<lparr>rv_live := live\<rparr>)))"

text \<open>Calling \<open>recv\<close> \<open>n\<close> times.\<close>

fun recv_many ::
  "('l \<Rightarrow> (recv_error + exec_process_event) \<times> 'l) \<Rightarrow> nat \<Rightarrow> 'l event_receiver
     \<Rightarrow> (recv_error + exec_process_event) list" where
  "recv_many live_recv 0 rv = []"
| "recv_many live_recv (Suc n) rv =
     (case recv live_recv rv of (r, rv') \<Rightarrow> r # recv_many live_recv n rv')"

subsection \<open>The eviction loop\<close>

interpretation history_eviction: front_eviction retained_len
  "\<lambda>n b. n > ecap \<or> b > bcap" "evict_history ecap bcap"
  for ecap bcap
  by unfold_locales simp_all

subsection \<open>The invariant of the log\<close>

definition event_log_inv :: "exec_process_event_log \<Rightarrow> bool" where
  "event_log_inv l \<longleftrightarrow>
     el_retained_bytes l = weight_sum retained_len (el_events l)
     \<and> length (el_events l) \<le> el_event_capacity l
     \<and> el_retained_bytes l \<le> el_byte_capacity l
     \<and> suffix (el_events l) (el_sent l)"

lemma event_log_inv_new [simp]: "event_log_inv (event_log_new ecap bcap)"
  by (simp add: event_log_inv_def event_log_new_def)

lemma event_log_new_fields [simp]:
  "el_events (event_log_new ecap bcap) = []"
  "el_sent (event_log_new ecap bcap) = []"
  "el_event_capacity (event_log_new ecap bcap) = ecap"
  "el_byte_capacity (event_log_new ecap bcap) = bcap"
  by (simp_all add: event_log_new_def)

lemma publish_fields [simp]:
  "el_sent (publish e l) = el_sent l @ [e]"
  "el_event_capacity (publish e l) = el_event_capacity l"
  "el_byte_capacity (publish e l) = el_byte_capacity l"
  by (simp_all add: publish_def split: prod.split)

text \<open>With an exact byte count, publishing keeps the longest suffix within both bounds.\<close>

lemma publish_events:
  assumes "event_log_inv l"
  shows "(el_events (publish e l), el_retained_bytes (publish e l)) =
     evict_history (el_event_capacity l) (el_byte_capacity l) (el_events l @ [e])
       (weight_sum retained_len (el_events l @ [e]))"
  using assms by (simp add: publish_def event_log_inv_def split: prod.split)

lemma publish_inv:
  assumes "event_log_inv l"
  shows "event_log_inv (publish e l)"
proof -
  let ?es = "el_events l @ [e]"
  let ?r = "evict_history (el_event_capacity l) (el_byte_capacity l) ?es (weight_sum retained_len ?es)"
  have ev: "el_events (publish e l) = fst ?r" and rb: "el_retained_bytes (publish e l) = snd ?r"
    using publish_events [OF assms, of e] by (metis fst_conv, metis snd_conv)
  have bytes: "snd ?r = weight_sum retained_len (fst ?r)"
    by (rule history_eviction.evict_total)
  have bounds: "length (fst ?r) \<le> el_event_capacity l \<and> snd ?r \<le> el_byte_capacity l"
  proof (cases "fst ?r = []")
    case True
    with bytes show ?thesis by simp
  next
    case False
    from history_eviction.evict_within [OF this] show ?thesis by auto
  qed
  have "suffix (fst ?r) ?es" by (rule history_eviction.evict_suffix)
  moreover have "suffix ?es (el_sent l @ [e])"
    using assms by (simp add: event_log_inv_def)
  ultimately have "suffix (fst ?r) (el_sent l @ [e])" by (rule suffix_order.trans)
  with bytes bounds show ?thesis by (simp add: event_log_inv_def ev rb)
qed

text \<open>An event that fits the bounds by itself is always in the history right after \<open>publish\<close>.\<close>

lemma publish_retains_last:
  assumes "event_log_inv l" and "1 \<le> el_event_capacity l" and "retained_len e \<le> el_byte_capacity l"
  shows "suffix [e] (el_events (publish e l))"
proof -
  let ?es = "el_events l @ [e]"
  have "suffix [e] (fst (evict_history (el_event_capacity l) (el_byte_capacity l) ?es
          (weight_sum retained_len ?es)))"
    by (rule history_eviction.evict_longest) (use assms(2,3) in auto)
  with publish_events [OF assms(1), of e] show ?thesis by (metis fst_conv)
qed

lemma fold_publish_sent: "el_sent (fold publish es l) = el_sent l @ es"
  by (induction es arbitrary: l) auto

lemma fold_publish_inv: "event_log_inv l \<Longrightarrow> event_log_inv (fold publish es l)"
  by (induction es arbitrary: l) (auto simp: publish_inv)

subsection \<open>Subscribers\<close>

text \<open>
  The documented behaviour of a broadcast receiver that does not fall behind: it yields, in
  order, the events sent after it subscribed.
\<close>

fun live_delivers ::
  "('l \<Rightarrow> (recv_error + exec_process_event) \<times> 'l) \<Rightarrow> 'l \<Rightarrow> exec_process_event list \<Rightarrow> bool" where
  "live_delivers live_recv l [] = True"
| "live_delivers live_recv l (e # es) =
     (case live_recv l of (r, l') \<Rightarrow> r = Inr e \<and> live_delivers live_recv l' es)"

lemma recv_many_replay:
  "recv_many live_recv (length es + n) \<lparr>rv_replay = es, rv_live = l\<rparr> =
     map Inr es @ recv_many live_recv n \<lparr>rv_replay = [], rv_live = l\<rparr>"
  by (induction es) (auto simp: recv_def)

lemma recv_many_live:
  "live_delivers live_recv l es \<Longrightarrow>
     recv_many live_recv (length es) \<lparr>rv_replay = [], rv_live = l\<rparr> = map Inr es"
  by (induction es arbitrary: l) (auto simp: recv_def split: prod.splits)

text \<open>
  A subscriber of an event log sees no gap and no duplicate at the hand-over from
  replay to live delivery: if \<open>es\<close> is published after the subscription and the live channel
  delivers it, the events received are the retained history followed by \<open>es\<close>, and
  together they are the tail of everything the log has ever published.
\<close>

theorem subscriber_sees_contiguous_tail:
  assumes "event_log_inv l"
    and "live_delivers live_recv (live_subscribe (el_sent l)) es"
  shows "recv_many live_recv (length (el_events l) + length es) (subscribe live_subscribe l) =
           map Inr (el_events l @ es)
         \<and> suffix (el_events l @ es) (el_sent (fold publish es l))"
proof
  show "recv_many live_recv (length (el_events l) + length es) (subscribe live_subscribe l) =
           map Inr (el_events l @ es)"
    unfolding subscribe_def recv_many_replay using recv_many_live [OF assms(2)] by simp
  show "suffix (el_events l @ es) (el_sent (fold publish es l))"
    using assms(1) by (simp add: fold_publish_sent event_log_inv_def)
qed

theorem subscriber_sees_contiguous_tail_witness:
  "recv_many (\<lambda>xs. (Inr (hd xs), tl xs)) 2
     (subscribe (\<lambda>_. [Closed 3])
        (publish (Exited 2 0) (publish (Output \<lparr>poc_seq = 1, poc_stream = Stdout, poc_chunk = [7, 7]\<rparr>)
           (event_log_new 8 1)))) =
     map Inr [Exited 2 0, Closed 3]"
proof -
  let ?l = "publish (Exited 2 0)
     (publish (Output \<lparr>poc_seq = 1, poc_stream = Stdout, poc_chunk = [7, 7]\<rparr>) (event_log_new 8 1))"
  have inv: "event_log_inv ?l" by (intro publish_inv event_log_inv_new)
  have live: "live_delivers (\<lambda>xs. (Inr (hd xs), tl xs)) ((\<lambda>_. [Closed 3]) (el_sent ?l)) [Closed 3]"
    by simp
  have "el_events ?l = [Exited 2 0]"
    by (simp add: publish_def event_log_new_def)
  with subscriber_sees_contiguous_tail [OF inv live] show ?thesis by (simp add: numeral_2_eq_2)
qed

text \<open>Every tail of the published events that fits both bounds is still retained.\<close>

definition fits :: "nat \<Rightarrow> nat \<Rightarrow> exec_process_event list \<Rightarrow> bool" where
  "fits ecap bcap ys \<longleftrightarrow> length ys \<le> ecap \<and> weight_sum retained_len ys \<le> bcap"

lemma publish_keeps_fitting:
  assumes inv: "event_log_inv l" and ys: "suffix ys (el_sent l @ [e])"
    and fit: "fits (el_event_capacity l) (el_byte_capacity l) ys"
    and prev: "\<And>zs. suffix zs (el_sent l) \<Longrightarrow>
          fits (el_event_capacity l) (el_byte_capacity l) zs \<Longrightarrow> suffix zs (el_events l)"
  shows "suffix ys (el_events (publish e l))"
proof -
  have "suffix ys (el_events l @ [e])"
  proof (cases ys rule: rev_exhaust)
    case Nil
    then show ?thesis by simp
  next
    case (snoc zs z)
    with ys have "z = e" and "suffix zs (el_sent l)" by simp_all
    moreover have "fits (el_event_capacity l) (el_byte_capacity l) zs"
      using fit snoc by (simp add: fits_def)
    ultimately show ?thesis using prev snoc by simp
  qed
  then have "suffix ys (fst (evict_history (el_event_capacity l) (el_byte_capacity l)
      (el_events l @ [e]) (weight_sum retained_len (el_events l @ [e]))))"
    by (rule history_eviction.evict_longest) (use fit in \<open>auto simp: fits_def\<close>)
  with publish_events [OF inv, of e] show ?thesis by (metis fst_conv)
qed

lemma fold_publish_capacity [simp]:
  "el_event_capacity (fold publish es l) = el_event_capacity l"
  "el_byte_capacity (fold publish es l) = el_byte_capacity l"
  by (induction es arbitrary: l) auto

lemma fold_publish_keeps_fitting:
  "suffix ys es \<Longrightarrow> fits ecap bcap ys \<Longrightarrow>
     suffix ys (el_events (fold publish es (event_log_new ecap bcap)))"
proof (induction es arbitrary: ys rule: rev_induct)
  case Nil
  then show ?case by simp
next
  case (snoc e es)
  let ?l = "fold publish es (event_log_new ecap bcap)"
  have "suffix ys (el_events (publish e ?l))"
    by (rule publish_keeps_fitting) (use snoc in \<open>auto simp: fold_publish_sent fold_publish_inv\<close>)
  then show ?case by simp
qed

text \<open>
  After any sequence of \<open>publish\<close> calls the history of an event log is the longest tail
  of the published events that respects both bounds: at most \<open>event_capacity\<close> events, at most
  \<open>byte_capacity\<close> retained bytes, and no tail within those bounds is longer.
\<close>

theorem event_log_is_longest_fitting_tail:
  "suffix (el_events (fold publish es (event_log_new ecap bcap))) es
   \<and> fits ecap bcap (el_events (fold publish es (event_log_new ecap bcap)))
   \<and> (\<forall>ys. suffix ys es \<longrightarrow> fits ecap bcap ys \<longrightarrow>
        suffix ys (el_events (fold publish es (event_log_new ecap bcap))))"
proof -
  let ?l = "fold publish es (event_log_new ecap bcap)"
  have "event_log_inv ?l" by (rule fold_publish_inv) simp
  moreover have "el_sent ?l = es" by (simp add: fold_publish_sent)
  ultimately have "suffix (el_events ?l) es" and "fits ecap bcap (el_events ?l)"
    by (auto simp: event_log_inv_def fits_def)
  then show ?thesis using fold_publish_keeps_fitting by blast
qed

theorem event_log_is_longest_fitting_tail_witness:
  "suffix [Closed 3] [Exited 2 0, Closed 3] \<and> fits 1 0 [Closed 3] \<and>
   suffix [Closed 3] (el_events (fold publish [Exited 2 0, Closed 3] (event_log_new 1 0)))"
proof -
  have s: "suffix [Closed 3] [Exited 2 0, Closed 3]" by (simp add: suffix_Cons)
  have f: "fits 1 0 [Closed 3]" by (simp add: fits_def)
  show ?thesis
    using event_log_is_longest_fitting_tail [of "[Exited 2 0, Closed 3]" 1 0] s f by blast
qed

end
