(* ===== verification/Shell_Environment.thy ===== *)
theory Shell_Environment
  imports Prelude
begin

text \<open>
  The environment a child process is given:
  \<^verbatim>\<open>crates/protocol/src/shell_environment.rs\<close> with the policy type of
  \<^verbatim>\<open>crates/protocol/src/config_types.rs\<close>. Environment variable patterns are the crate
  \<^verbatim>\<open>wildmatch\<close>'s; its \<open>matches\<close> is the argument \<open>wild\<close> of the definitions, and the process
  environment (\<^verbatim>\<open>std::env::vars\<close>) the argument \<open>vars\<close>.
\<close>

datatype shell_environment_policy_inherit = InheritCore | InheritAll | InheritNone

record environment_variable_pattern =
  evp_pattern :: string
  evp_case_insensitive :: bool

definition new_case_insensitive :: "string \<Rightarrow> environment_variable_pattern" where
  "new_case_insensitive p = \<lparr>evp_pattern = p, evp_case_insensitive = True\<rparr>"

type_synonym wild_matcher = "environment_variable_pattern \<Rightarrow> string \<Rightarrow> bool"

type_synonym env_map = "(string, string) hash_map"

record shell_environment_policy =
  sp_inherit :: shell_environment_policy_inherit
  sp_ignore_default_excludes :: bool
  sp_exclude :: "environment_variable_pattern list"
  sp_set :: env_map
  sp_include_only :: "environment_variable_pattern list"
  sp_use_profile :: bool

definition default_shell_environment_policy :: shell_environment_policy where
  "default_shell_environment_policy =
     \<lparr>sp_inherit = InheritAll, sp_ignore_default_excludes = True, sp_exclude = [],
      sp_set = [], sp_include_only = [], sp_use_profile = False\<rparr>"

definition codex_thread_id_env_var :: string where
  "codex_thread_id_env_var = ''AGENTX_THREAD_ID''"

definition unix_core_env_vars :: "string list" where
  "unix_core_env_vars =
     [''PATH'', ''SHELL'', ''TMPDIR'', ''TEMP'', ''TMP'', ''HOME'', ''LANG'', ''LC_ALL'',
      ''LC_CTYPE'', ''LOGNAME'', ''USER'']"

definition windows_core_env_vars :: "string list" where
  "windows_core_env_vars =
     [''PATH'', ''PATHEXT'', ''SHELL'', ''COMSPEC'', ''SYSTEMROOT'', ''SYSTEMDRIVE'',
      ''USERNAME'', ''USERDOMAIN'', ''USERPROFILE'', ''HOMEDRIVE'', ''HOMEPATH'',
      ''PROGRAMFILES'', ''PROGRAMFILES(X86)'', ''PROGRAMW6432'', ''PROGRAMDATA'',
      ''LOCALAPPDATA'', ''APPDATA'', ''TEMP'', ''TMP'', ''TMPDIR'', ''POWERSHELL'', ''PWSH'']"

definition core_env_vars :: "target_os \<Rightarrow> string list" where
  "core_env_vars os = (if os = Windows then windows_core_env_vars else unix_core_env_vars)"

definition is_core_var :: "target_os \<Rightarrow> string \<Rightarrow> bool" where
  "is_core_var os k = list_ex (\<lambda>allowed. eq_ignore_ascii_case allowed k) (core_env_vars os)"

definition matches_any :: "wild_matcher \<Rightarrow> string \<Rightarrow> environment_variable_pattern list \<Rightarrow> bool" where
  "matches_any wild name ps = list_ex (\<lambda>p. wild p name) ps"

definition default_excludes :: "environment_variable_pattern list" where
  "default_excludes = map new_case_insensitive [''*KEY*'', ''*SECRET*'', ''*TOKEN*'']"

definition initial_env :: "target_os \<Rightarrow> (string \<times> string) list \<Rightarrow> shell_environment_policy_inherit \<Rightarrow> env_map" where
  "initial_env os vars inh =
     (case inh of
        InheritAll \<Rightarrow> hm_extend [] vars
      | InheritNone \<Rightarrow> []
      | InheritCore \<Rightarrow> hm_extend [] (filter (\<lambda>(k, _). is_core_var os k) vars))"

definition populate_env ::
  "target_os \<Rightarrow> wild_matcher \<Rightarrow> (string \<times> string) list \<Rightarrow> shell_environment_policy
     \<Rightarrow> string option \<Rightarrow> env_map" where
  "populate_env os wild vars policy thread_id =
     (let env1 = initial_env os vars (sp_inherit policy);
          env2 = (if sp_ignore_default_excludes policy then env1
                  else hm_retain (\<lambda>k. \<not> matches_any wild k default_excludes) env1);
          env3 = (if sp_exclude policy = [] then env2
                  else hm_retain (\<lambda>k. \<not> matches_any wild k (sp_exclude policy)) env2);
          env4 = hm_extend env3 (sp_set policy);
          env5 = (if sp_include_only policy = [] then env4
                  else hm_retain (\<lambda>k. matches_any wild k (sp_include_only policy)) env4)
      in case thread_id of
           None \<Rightarrow> env5
         | Some t \<Rightarrow> hm_insert codex_thread_id_env_var t env5)"

definition create_env_from_vars ::
  "target_os \<Rightarrow> wild_matcher \<Rightarrow> (string \<times> string) list \<Rightarrow> shell_environment_policy
     \<Rightarrow> string option \<Rightarrow> env_map" where
  "create_env_from_vars os wild vars policy thread_id =
     (let env = populate_env os wild vars policy thread_id
      in if os = Windows \<and> \<not> list_ex (\<lambda>(k, _). eq_ignore_ascii_case k ''PATHEXT'') env
         then hm_insert ''PATHEXT'' ''.COM;.EXE;.BAT;.CMD'' env
         else env)"

subsection \<open>What the environment holds\<close>

text \<open>The value of one variable, read off the policy's documented steps.\<close>

definition excluded :: "wild_matcher \<Rightarrow> shell_environment_policy \<Rightarrow> string \<Rightarrow> bool" where
  "excluded wild policy k \<longleftrightarrow>
     (\<not> sp_ignore_default_excludes policy \<and> matches_any wild k default_excludes)
     \<or> matches_any wild k (sp_exclude policy)"

definition inherited ::
  "target_os \<Rightarrow> (string \<times> string) list \<Rightarrow> shell_environment_policy_inherit \<Rightarrow> string \<Rightarrow> string option" where
  "inherited os vars inh k =
     (case inh of
        InheritAll \<Rightarrow> map_of (rev vars) k
      | InheritNone \<Rightarrow> None
      | InheritCore \<Rightarrow> if is_core_var os k then map_of (rev vars) k else None)"

definition env_value ::
  "target_os \<Rightarrow> wild_matcher \<Rightarrow> (string \<times> string) list \<Rightarrow> shell_environment_policy
     \<Rightarrow> string option \<Rightarrow> string \<Rightarrow> string option" where
  "env_value os wild vars policy thread_id k =
     (if thread_id \<noteq> None \<and> k = codex_thread_id_env_var then thread_id
      else if sp_include_only policy \<noteq> [] \<and> \<not> matches_any wild k (sp_include_only policy) then None
      else case map_of (sp_set policy) k of
             Some v \<Rightarrow> Some v
           | None \<Rightarrow> if excluded wild policy k then None
                     else inherited os vars (sp_inherit policy) k)"

lemma matches_any_Nil [simp]: "\<not> matches_any wild k []"
  by (simp add: matches_any_def)

lemma map_of_filter_key:
  "map_of (filter (\<lambda>(k, _). P k) kvs) k = (if P k then map_of kvs k else None)"
  by (induction kvs) auto

lemma initial_env_get: "hm_get (initial_env os vars inh) k = inherited os vars inh k"
  by (cases inh) (simp_all add: initial_env_def inherited_def container_simps rev_filter map_of_filter_key)

lemma initial_env_wf: "hm_wf (initial_env os vars inh)"
  by (cases inh) (simp_all add: initial_env_def)

lemma populate_env_get:
  assumes "hm_wf (sp_set policy)"
  shows "hm_get (populate_env os wild vars policy thread_id) k =
           env_value os wild vars policy thread_id k"
  using assms
  by (auto simp: populate_env_def env_value_def excluded_def container_simps hm_get_rev
      initial_env_get map_add_def Let_def split: option.split)

lemma populate_env_wf: "hm_wf (populate_env os wild vars policy thread_id)"
  by (simp add: populate_env_def initial_env_wf Let_def split: option.split)

lemma list_ex_keys: "list_ex (\<lambda>(k, _). P k) m \<longleftrightarrow> (\<exists>k. P k \<and> hm_get m k \<noteq> None)"
proof -
  have "(\<exists>k. P k \<and> hm_get m k \<noteq> None) \<longleftrightarrow> (\<exists>k \<in> fst ` set m. P k)"
    by (auto simp: map_of_eq_None_iff simp del: not_None_eq)
  then show ?thesis by (force simp: list_ex_iff split: prod.splits)
qed

text \<open>
  The environment of a child process is exactly what the policy's documented steps
  prescribe, variable by variable: the thread id wins over everything, then a non-empty
  \<open>include_only\<close> filters, then \<open>set\<close> overrides, then the default and custom excludes
  filter what is inherited; on Windows a \<open>PATHEXT\<close> is added when the result has none under
  any ASCII casing.
\<close>

theorem create_env_value:
  assumes "hm_wf (sp_set policy)"
  shows "hm_get (create_env_from_vars os wild vars policy thread_id) k =
     (if os = Windows \<and> k = ''PATHEXT''
          \<and> (\<forall>k'. eq_ignore_ascii_case k' ''PATHEXT'' \<longrightarrow>
                env_value os wild vars policy thread_id k' = None)
      then Some ''.COM;.EXE;.BAT;.CMD''
      else env_value os wild vars policy thread_id k)"
proof -
  let ?env = "populate_env os wild vars policy thread_id"
  have "list_ex (\<lambda>(k, _). eq_ignore_ascii_case k ''PATHEXT'') ?env \<longleftrightarrow>
      (\<exists>k'. eq_ignore_ascii_case k' ''PATHEXT'' \<and> env_value os wild vars policy thread_id k' \<noteq> None)"
    by (simp only: list_ex_keys populate_env_get [OF assms])
  then show ?thesis
    by (auto simp: create_env_from_vars_def Let_def container_simps populate_env_get [OF assms])
qed

theorem create_env_value_witness:
  "hm_get (create_env_from_vars Windows (\<lambda>p k. contains (evp_pattern p) k)
      [(''Path'', ''C:'')] default_shell_environment_policy None) ''Path'' = Some ''C:''"
proof -
  have "hm_wf (sp_set default_shell_environment_policy)"
    by (simp add: default_shell_environment_policy_def)
  from create_env_value [OF this, of Windows "\<lambda>p k. contains (evp_pattern p) k" "[(''Path'', ''C:'')]" None "''Path''"]
  show ?thesis
    by (simp add: env_value_def default_shell_environment_policy_def inherited_def excluded_def)
qed

subsection \<open>Secrets are not inherited\<close>

definition looks_secret :: "string \<Rightarrow> bool" where
  "looks_secret k \<longleftrightarrow>
     list_ex (\<lambda>w. contains (to_ascii_lowercase w) (to_ascii_lowercase k)) [''KEY'', ''SECRET'', ''TOKEN'']"

text \<open>
  What the code relies on of the wildcard matcher: a case-insensitive pattern \<open>*w*\<close>
  matches every name that contains the literal text \<open>w\<close> up to ASCII case.
\<close>

definition star_matches :: "wild_matcher \<Rightarrow> bool" where
  "star_matches wild \<longleftrightarrow>
     (\<forall>w k. CHR ''*'' \<notin> set w \<longrightarrow> CHR ''?'' \<notin> set w \<longrightarrow>
        contains (to_ascii_lowercase w) (to_ascii_lowercase k) \<longrightarrow>
        wild (new_case_insensitive (''*'' @ w @ ''*'')) k)"

lemma looks_secret_excluded:
  assumes "star_matches wild" and "looks_secret k"
  shows "matches_any wild k default_excludes"
proof -
  from assms(2) obtain w where w: "w \<in> {''KEY'', ''SECRET'', ''TOKEN''}"
      and c: "contains (to_ascii_lowercase w) (to_ascii_lowercase k)"
    by (auto simp only: looks_secret_def list_ex_iff list.set)
  from w have "CHR ''*'' \<notin> set w" and "CHR ''?'' \<notin> set w" by auto
  with assms(1) c have "wild (new_case_insensitive (''*'' @ w @ ''*'')) k"
    unfolding star_matches_def by blast
  moreover have "new_case_insensitive (''*'' @ w @ ''*'') \<in> set default_excludes"
    using w by (auto simp: default_excludes_def)
  ultimately show ?thesis by (auto simp: matches_any_def list_ex_iff)
qed

lemma pathext_not_secret: "\<not> looks_secret ''PATHEXT''"
  by (simp add: looks_secret_def to_ascii_lowercase_char_def)

text \<open>
  With the default excludes in force, no variable whose name contains KEY, SECRET or
  TOKEN in any ASCII casing reaches a child process by inheritance, on any platform and
  under any \<open>inherit\<close> strategy: it is present only if the policy's own \<open>set\<close> defines it.
\<close>

theorem secrets_not_inherited:
  assumes "star_matches wild" and "hm_wf (sp_set policy)"
    and "\<not> sp_ignore_default_excludes policy"
    and "looks_secret k" and "k \<noteq> codex_thread_id_env_var" and "hm_get (sp_set policy) k = None"
  shows "hm_get (create_env_from_vars os wild vars policy thread_id) k = None"
proof -
  have "k \<noteq> ''PATHEXT''" using assms(4) pathext_not_secret by blast
  then show ?thesis
    using create_env_value [OF assms(2), of os wild vars thread_id k]
      looks_secret_excluded [OF assms(1,4)] assms(3,5,6)
    by (simp add: env_value_def excluded_def)
qed

text \<open>A wildcard matcher with that behaviour: \<open>*\<close> matches any text, \<open>?\<close> any character.\<close>

fun glob :: "string \<Rightarrow> string \<Rightarrow> bool" where
  "glob [] s = (s = [])"
| "glob (p # ps) [] = (p = CHR ''*'' \<and> glob ps [])"
| "glob (p # ps) (c # s) =
     (if p = CHR ''*'' then glob ps (c # s) \<or> glob (p # ps) s
      else (p = CHR ''?'' \<or> p = c) \<and> glob ps s)"

definition ascii_wild :: wild_matcher where
  "ascii_wild p k =
     (if evp_case_insensitive p then glob (to_ascii_lowercase (evp_pattern p)) (to_ascii_lowercase k)
      else glob (evp_pattern p) k)"

lemma glob_literal_star: "glob (w @ ''*'') (w @ post)"
proof (induction w)
  case Nil
  show ?case by (induction post) auto
next
  case (Cons c w)
  then show ?case by (cases "w @ post") auto
qed

lemma glob_star_skip: "glob ps s \<Longrightarrow> glob (CHR ''*'' # ps) (pre @ s)"
proof (induction pre)
  case Nil
  then show ?case by (cases s) auto
next
  case (Cons c pre)
  then show ?case by simp
qed

lemma ascii_wild_star_matches: "star_matches ascii_wild"
proof -
  have "ascii_wild (new_case_insensitive (''*'' @ w @ ''*'')) k"
    if c: "contains (to_ascii_lowercase w) (to_ascii_lowercase k)" for w k
  proof -
    from c obtain pre post where k: "to_ascii_lowercase k = pre @ to_ascii_lowercase w @ post"
      by (auto simp: contains_iff)
    have "to_ascii_lowercase_char (CHR ''*'') = CHR ''*''" by code_simp
    with glob_star_skip [OF glob_literal_star, of "to_ascii_lowercase w" pre post] k
    show ?thesis by (simp add: ascii_wild_def new_case_insensitive_def)
  qed
  then show ?thesis unfolding star_matches_def by blast
qed

theorem secrets_not_inherited_witness:
  "hm_get (create_env_from_vars Linux ascii_wild [(''Api_Key'', ''x'')]
      (default_shell_environment_policy\<lparr>sp_ignore_default_excludes := False\<rparr>) None) ''Api_Key'' = None"
proof (rule secrets_not_inherited)
  show "star_matches ascii_wild" by (rule ascii_wild_star_matches)
  show "looks_secret ''Api_Key''" by code_simp
qed (simp_all add: default_shell_environment_policy_def codex_thread_id_env_var_def)

end
