(* ===== verification/Sandbox_Denial.thy ===== *)
theory Sandbox_Denial
  imports Prelude
begin

text \<open>
  \<^verbatim>\<open>crates/sandboxing/src/denial.rs\<close>: whether a failed command was likely denied by its
  sandbox. Two functions of Rust's standard library that depend on Unicode tables
  (\<^verbatim>\<open>String::from_utf8_lossy\<close> and \<^verbatim>\<open>str::to_lowercase\<close>) and the constant \<^verbatim>\<open>libc::SIGSYS\<close> are
  fields of the record \<open>host_lib\<close>, an argument of the definitions.
\<close>

datatype sandbox_type = NoSandbox | MacosSeatbelt | LinuxSeccomp | WindowsRestrictedToken

record host_lib =
  hl_os :: target_os
  hl_from_utf8_lossy :: "byte list \<Rightarrow> string"
  hl_to_lowercase :: "string \<Rightarrow> string"
  hl_sigsys :: int

record exec_tool_call_output =
  eo_exit_code :: int
  eo_stdout :: string
  eo_stderr :: string
  eo_aggregated_output :: string

definition sandbox_denied_keywords :: "string list" where
  "sandbox_denied_keywords =
     [''operation not permitted'', ''permission denied'', ''read-only file system'',
      ''seccomp'', ''sandbox'', ''landlock'', ''failed to write file'']"

definition quick_reject_exit_codes :: "int list" where
  "quick_reject_exit_codes = [2, 126, 127]"

definition has_sandbox_keyword :: "host_lib \<Rightarrow> exec_tool_call_output \<Rightarrow> bool" where
  "has_sandbox_keyword h out =
     list_ex (\<lambda>section. list_ex (\<lambda>needle. contains needle (hl_to_lowercase h section)) sandbox_denied_keywords)
       [eo_stderr out, eo_stdout out, eo_aggregated_output out]"

definition is_likely_sandbox_denied :: "host_lib \<Rightarrow> sandbox_type \<Rightarrow> exec_tool_call_output \<Rightarrow> bool" where
  "is_likely_sandbox_denied h sb out =
     (if sb = NoSandbox \<or> eo_exit_code out = 0 then False
      else if has_sandbox_keyword h out then True
      else if eo_exit_code out \<in> set quick_reject_exit_codes then False
      else if hl_os h \<noteq> Windows \<and> sb = LinuxSeccomp \<and> eo_exit_code out = 128 + hl_sigsys h then True
      else False)"

lemma not_denied_unsandboxed [simp]: "\<not> is_likely_sandbox_denied h NoSandbox out"
  by (simp add: is_likely_sandbox_denied_def)

lemma not_denied_success: "eo_exit_code out = 0 \<Longrightarrow> \<not> is_likely_sandbox_denied h sb out"
  by (simp add: is_likely_sandbox_denied_def)

lemma denied_needs_evidence:
  "is_likely_sandbox_denied h sb out \<Longrightarrow>
     has_sandbox_keyword h out \<or> sb = LinuxSeccomp \<and> eo_exit_code out = 128 + hl_sigsys h"
  by (auto simp: is_likely_sandbox_denied_def split: if_splits)

end
