(* ===== verification/Local_Process.thy ===== *)
theory Local_Process
  imports Event_Log Shell_Environment Sandbox_Denial
begin

text \<open>
  The executor's process table, \<^verbatim>\<open>crates/exec-server/src/local_process.rs\<close>. Each section the
  code runs under the lock of the process map is one definition on the state
  \<open>local_process\<close>; an operation that releases the lock and awaits something is composed of
  its sections, with what the other tasks do in between as the argument \<open>others\<close>.

  Shared objects are addresses of the state: \<open>lp_next_addr\<close> allocates the identity of a
  \<^verbatim>\<open>ProcessStart\<close> (compared with \<^verbatim>\<open>Arc::ptr_eq\<close>) and of the shared table of accepted write
  ids, which lives in \<open>lp_write_ids\<close> and outlives the process entry that refers to it. The
  operating system is outside: a session is a handle, \<open>lp_effects\<close> the sequence of what was
  done to the sessions, \<open>lp_outbox\<close> the notifications handed to a connection, and spawning and
  signalling are arguments.
\<close>

definition retained_output_bytes_per_process :: nat where
  "retained_output_bytes_per_process = 1024 * 1024"

definition process_event_channel_capacity :: nat where
  "process_event_channel_capacity = 256"

definition retained_stdin_write_ids_per_process :: nat where
  "retained_stdin_write_ids_per_process = 4096"

type_synonym session = nat
type_synonym addr = nat
type_synonym conn = nat

record retained_output_chunk =
  rc_seq :: nat
  rc_stream :: exec_output_stream
  rc_chunk :: "byte list"

record accepted_stdin_write_ids =
  aw_ids :: "string set"
  aw_order :: "string list"

definition no_write_ids :: accepted_stdin_write_ids where
  "no_write_ids = \<lparr>aw_ids = {}, aw_order = []\<rparr>"

definition aw_contains :: "string \<Rightarrow> accepted_stdin_write_ids \<Rightarrow> bool" where
  "aw_contains i a = (i \<in> aw_ids a)"

fun evict_write_ids :: "string set \<Rightarrow> string list \<Rightarrow> string set \<times> string list" where
  "evict_write_ids ids [] = (ids, [])"
| "evict_write_ids ids (i # is) =
     (if length (i # is) > retained_stdin_write_ids_per_process
      then evict_write_ids (ids - {i}) is
      else (ids, i # is))"

definition aw_remember :: "string \<Rightarrow> accepted_stdin_write_ids \<Rightarrow> accepted_stdin_write_ids" where
  "aw_remember i a =
     (if i \<in> aw_ids a then a
      else case evict_write_ids (insert i (aw_ids a)) (aw_order a @ [i]) of
             (ids, ord) \<Rightarrow> \<lparr>aw_ids = ids, aw_order = ord\<rparr>)"

record running_process =
  rp_session :: session
  rp_tty :: bool
  rp_pipe_stdin :: bool
  rp_accepted :: addr
  rp_output :: "retained_output_chunk list"
  rp_retained_bytes :: nat
  rp_next_seq :: nat
  rp_exit_code :: "int option"
  rp_wake :: "nat watch"
  rp_events :: exec_process_event_log
  rp_open_streams :: nat
  rp_closed :: bool
  rp_sandbox :: sandbox_type
  rp_sandbox_denied :: bool

datatype process_entry = StartingEntry addr | RunningEntry running_process

datatype session_effect =
  StdinWrite session "byte list"
| SessionSignal session process_signal
| SessionTerminate session

record local_process =
  lp_notifications :: "conn option"
  lp_processes :: "(process_id, process_entry) hash_map"
  lp_write_ids :: "(addr, accepted_stdin_write_ids) hash_map"
  lp_next_addr :: addr
  lp_outbox :: "(conn \<times> exec_notification) list"
  lp_effects :: "session_effect list"

definition local_process_new :: "conn option \<Rightarrow> local_process" where
  "local_process_new notifications =
     \<lparr>lp_notifications = notifications, lp_processes = [], lp_write_ids = [],
      lp_next_addr = 0, lp_outbox = [], lp_effects = []\<rparr>"

definition lp_entry :: "process_id \<Rightarrow> local_process \<Rightarrow> process_entry option" where
  "lp_entry pid lp = hm_get (lp_processes lp) pid"

definition put_process :: "process_id \<Rightarrow> running_process \<Rightarrow> local_process \<Rightarrow> local_process" where
  "put_process pid p lp = lp\<lparr>lp_processes := hm_insert pid (RunningEntry p) (lp_processes lp)\<rparr>"

definition remove_entry :: "process_id \<Rightarrow> local_process \<Rightarrow> local_process" where
  "remove_entry pid lp = lp\<lparr>lp_processes := hm_remove pid (lp_processes lp)\<rparr>"

definition add_effects :: "session_effect list \<Rightarrow> local_process \<Rightarrow> local_process" where
  "add_effects es lp = lp\<lparr>lp_effects := lp_effects lp @ es\<rparr>"

subsection \<open>Shutdown and the notification sender\<close>

fun running_session :: "process_id \<times> process_entry \<Rightarrow> session option" where
  "running_session (_, StartingEntry _) = None"
| "running_session (_, RunningEntry p) = Some (rp_session p)"

definition lp_shutdown :: "local_process \<Rightarrow> local_process" where
  "lp_shutdown lp =
     add_effects (map SessionTerminate (List.map_filter running_session (lp_processes lp)))
       (lp\<lparr>lp_processes := []\<rparr>)"

definition lp_set_notification_sender :: "conn option \<Rightarrow> local_process \<Rightarrow> local_process" where
  "lp_set_notification_sender n lp = lp\<lparr>lp_notifications := n\<rparr>"

definition notify :: "exec_notification \<Rightarrow> local_process \<Rightarrow> local_process" where
  "notify n lp =
     (case lp_notifications lp of
        None \<Rightarrow> lp
      | Some c \<Rightarrow> lp\<lparr>lp_outbox := lp_outbox lp @ [(c, n)]\<rparr>)"

subsection \<open>Starting a process\<close>

record exec_env_policy =
  ee_inherit :: shell_environment_policy_inherit
  ee_ignore_default_excludes :: bool
  ee_exclude :: "string list"
  ee_set :: env_map
  ee_include_only :: "string list"

record 'sb exec_params =
  ep_process_id :: process_id
  ep_argv :: "string list"
  ep_cwd :: string
  ep_env_policy :: "exec_env_policy option"
  ep_env :: env_map
  ep_tty :: bool
  ep_pipe_stdin :: bool
  ep_arg0 :: "string option"
  ep_sandbox :: "'sb option"
  ep_enforce_managed_network :: bool

record prepared_exec_request =
  pr_command :: "string list"
  pr_cwd :: string
  pr_env :: env_map
  pr_arg0 :: "string option"
  pr_sandbox :: sandbox_type

datatype spawn_kind = SpawnPty | SpawnPipe | SpawnPipeNoStdin

definition to_shell_environment_policy :: "exec_env_policy \<Rightarrow> shell_environment_policy" where
  "to_shell_environment_policy p =
     \<lparr>sp_inherit = ee_inherit p,
      sp_ignore_default_excludes = ee_ignore_default_excludes p,
      sp_exclude = map new_case_insensitive (ee_exclude p),
      sp_set = ee_set p,
      sp_include_only = map new_case_insensitive (ee_include_only p),
      sp_use_profile = False\<rparr>"

definition child_env ::
  "target_os \<Rightarrow> wild_matcher \<Rightarrow> (string \<times> string) list \<Rightarrow> 'sb exec_params \<Rightarrow> env_map" where
  "child_env os wild vars params =
     (case ep_env_policy params of
        None \<Rightarrow> ep_env params
      | Some p \<Rightarrow>
          hm_extend (create_env_from_vars os wild vars (to_shell_environment_policy p) None)
            (ep_env params))"

text \<open>The first locked section: the id is reserved, or refused when it is in use.\<close>

definition start_reserve ::
  "process_id \<Rightarrow> local_process \<Rightarrow> (jsonrpc_error_error + addr) \<times> local_process" where
  "start_reserve pid lp =
     (if hm_contains pid (lp_processes lp)
      then (Inl (invalid_request (''process '' @ pid @ '' already exists'')), lp)
      else (Inr (lp_next_addr lp),
            lp\<lparr>lp_processes := hm_insert pid (StartingEntry (lp_next_addr lp)) (lp_processes lp),
               lp_next_addr := lp_next_addr lp + 1\<rparr>))"

definition still_starting :: "process_id \<Rightarrow> addr \<Rightarrow> local_process \<Rightarrow> bool" where
  "still_starting pid start lp = (lp_entry pid lp = Some (StartingEntry start))"

definition new_running_process ::
  "session \<Rightarrow> addr \<Rightarrow> bool \<Rightarrow> bool \<Rightarrow> sandbox_type \<Rightarrow> running_process" where
  "new_running_process sess a tty pipe sb =
     \<lparr>rp_session = sess, rp_tty = tty, rp_pipe_stdin = pipe, rp_accepted = a,
      rp_output = [], rp_retained_bytes = 0, rp_next_seq = 1, rp_exit_code = None,
      rp_wake = \<lparr>w_value = 0, w_receivers = 1\<rparr>,
      rp_events = event_log_new process_event_channel_capacity retained_output_bytes_per_process,
      rp_open_streams = 2, rp_closed = False, rp_sandbox = sb, rp_sandbox_denied = False\<rparr>"

text \<open>
  After the spawn: a failed spawn gives the reservation back, a reservation that is gone
  terminates the new session, otherwise the entry becomes running.
\<close>

definition start_finish ::
  "'sb exec_params \<Rightarrow> sandbox_type \<Rightarrow> addr \<Rightarrow> string + session \<Rightarrow> local_process
     \<Rightarrow> (jsonrpc_error_error + process_id) \<times> local_process" where
  "start_finish params sb start spawned lp =
     (let pid = ep_process_id params in
      case spawned of
        Inl err \<Rightarrow>
          (Inl (internal_error err), if still_starting pid start lp then remove_entry pid lp else lp)
      | Inr sess \<Rightarrow>
          if \<not> still_starting pid start lp
          then (Inl (invalid_request (''process '' @ pid @ '' start was cancelled'')),
                add_effects [SessionTerminate sess] lp)
          else
            (let a = lp_next_addr lp;
                 p = new_running_process sess a (ep_tty params) (ep_pipe_stdin params) sb
             in (Inr pid,
                 (put_process pid p lp)
                   \<lparr>lp_write_ids := hm_insert a no_write_ids (lp_write_ids lp),
                    lp_next_addr := a + 1\<rparr>)))"

text \<open>When \<open>start_process\<close> returns it drops the first receiver of the wake channel.\<close>

definition drop_start_receiver :: "process_id \<Rightarrow> local_process \<Rightarrow> local_process" where
  "drop_start_receiver pid lp =
     (case lp_entry pid lp of
        Some (RunningEntry p) \<Rightarrow> put_process pid (p\<lparr>rp_wake := watch_drop_receiver (rp_wake p)\<rparr>) lp
      | _ \<Rightarrow> lp)"

type_synonym spawner =
  "spawn_kind \<Rightarrow> string \<Rightarrow> string list \<Rightarrow> string \<Rightarrow> env_map \<Rightarrow> string option \<Rightarrow> string + session"

definition spawn_kind_of :: "'sb exec_params \<Rightarrow> spawn_kind" where
  "spawn_kind_of params =
     (if ep_tty params then SpawnPty else if ep_pipe_stdin params then SpawnPipe else SpawnPipeNoStdin)"

definition start_process ::
  "('sb exec_params \<Rightarrow> env_map \<Rightarrow> jsonrpc_error_error + prepared_exec_request) \<Rightarrow> spawner
     \<Rightarrow> (local_process \<Rightarrow> local_process) \<Rightarrow> env_map \<Rightarrow> 'sb exec_params \<Rightarrow> local_process
     \<Rightarrow> (jsonrpc_error_error + process_id) \<times> local_process" where
  "start_process prepare spawn others env params lp =
     (case prepare params env of
        Inl e \<Rightarrow> (Inl e, lp)
      | Inr prepared \<Rightarrow>
          (case pr_command prepared of
             [] \<Rightarrow> (Inl (invalid_params ''argv must not be empty''), lp)
           | program # args \<Rightarrow>
               (case start_reserve (ep_process_id params) lp of
                  (Inl e, lp1) \<Rightarrow> (Inl e, lp1)
                | (Inr start, lp1) \<Rightarrow>
                    (let spawned = spawn (spawn_kind_of params) program args (pr_cwd prepared)
                                     (pr_env prepared) (pr_arg0 prepared)
                     in case start_finish params (pr_sandbox prepared) start spawned (others lp1) of
                          (Inl e, lp2) \<Rightarrow> (Inl e, lp2)
                        | (Inr pid, lp2) \<Rightarrow> (Inr pid, drop_start_receiver pid lp2)))))"

subsection \<open>Reading retained output\<close>

definition to_output_chunk :: "retained_output_chunk \<Rightarrow> process_output_chunk" where
  "to_output_chunk r = \<lparr>poc_seq = rc_seq r, poc_stream = rc_stream r, poc_chunk = rc_chunk r\<rparr>"

text \<open>The loop over the retained chunks: \<open>acc\<close> is \<open>chunks\<close>, with its byte count and \<open>next_seq\<close>.\<close>

fun collect_chunks ::
  "nat \<Rightarrow> retained_output_chunk list \<Rightarrow> nat \<Rightarrow> process_output_chunk list \<Rightarrow> nat
     \<Rightarrow> process_output_chunk list \<times> nat" where
  "collect_chunks max_bytes [] tot acc next_seq = (acc, next_seq)"
| "collect_chunks max_bytes (r # rs) tot acc next_seq =
     (if acc \<noteq> [] \<and> tot + length (rc_chunk r) > max_bytes then (acc, next_seq)
      else
        (let tot' = tot + length (rc_chunk r);
             acc' = acc @ [to_output_chunk r];
             next' = u64_succ (rc_seq r)
         in if tot' \<ge> max_bytes then (acc', next') else collect_chunks max_bytes rs tot' acc' next'))"

definition read_process :: "read_params \<Rightarrow> running_process \<Rightarrow> read_response" where
  "read_process params p =
     (let after_seq = (case rd_after_seq params of None \<Rightarrow> 0 | Some n \<Rightarrow> n);
          max_bytes = (case rd_max_bytes params of None \<Rightarrow> u64_max | Some n \<Rightarrow> n);
          (chunks, next_seq) =
            collect_chunks max_bytes (filter (\<lambda>c. rc_seq c > after_seq) (rp_output p)) 0 [] (rp_next_seq p)
      in \<lparr>rr_chunks = chunks,
          rr_next_seq = (if rd_max_bytes params = None then rp_next_seq p else next_seq),
          rr_exited = (rp_exit_code p \<noteq> None),
          rr_exit_code = rp_exit_code p,
          rr_closed = rp_closed p,
          rr_failure = None,
          rr_sandbox_denied = rp_sandbox_denied p\<rparr>)"

definition read_once :: "read_params \<Rightarrow> local_process \<Rightarrow> jsonrpc_error_error + read_response" where
  "read_once params lp =
     (case lp_entry (rd_process_id params) lp of
        None \<Rightarrow> Inl (invalid_request (''unknown process id '' @ rd_process_id params))
      | Some (StartingEntry _) \<Rightarrow>
          Inl (invalid_request (''process id '' @ rd_process_id params @ '' is starting''))
      | Some (RunningEntry p) \<Rightarrow> Inr (read_process params p))"

definition read_is_final :: "read_params \<Rightarrow> read_response \<Rightarrow> bool" where
  "read_is_final params r =
     (let after_seq = (case rd_after_seq params of None \<Rightarrow> 0 | Some n \<Rightarrow> n)
      in rr_chunks r \<noteq> [] \<or> rr_closed r \<or> (rr_exited r \<and> after_seq < rr_next_seq r - 1))"

text \<open>
  The long-poll loop, over what its iterations observe: the process table and the two clock
  readings of each iteration. \<open>None\<close> means that the last observation left it waiting.
\<close>

fun exec_read_loop ::
  "read_params \<Rightarrow> nat \<Rightarrow> (local_process \<times> nat \<times> nat) list
     \<Rightarrow> (jsonrpc_error_error + read_response) option" where
  "exec_read_loop params deadline [] = None"
| "exec_read_loop params deadline ((lp, now1, now2) # obs) =
     (case read_once params lp of
        Inl e \<Rightarrow> Some (Inl e)
      | Inr r \<Rightarrow>
          if read_is_final params r \<or> now1 \<ge> deadline then Some (Inr r)
          else if deadline - now2 = 0 then Some (Inr r)
          else exec_read_loop params deadline obs)"

definition exec_read ::
  "read_params \<Rightarrow> nat \<Rightarrow> (local_process \<times> nat \<times> nat) list
     \<Rightarrow> (jsonrpc_error_error + read_response) option" where
  "exec_read params start_time obs =
     exec_read_loop params (start_time + (case rd_wait_ms params of None \<Rightarrow> 0 | Some w \<Rightarrow> w)) obs"

subsection \<open>Writing, signalling, terminating\<close>

datatype write_target = WriteDone write_status | WriteTo session addr

definition write_lookup :: "process_id \<Rightarrow> local_process \<Rightarrow> write_target" where
  "write_lookup pid lp =
     (case lp_entry pid lp of
        None \<Rightarrow> WriteDone UnknownProcess
      | Some (StartingEntry _) \<Rightarrow> WriteDone Starting
      | Some (RunningEntry p) \<Rightarrow>
          if \<not> rp_tty p \<and> \<not> rp_pipe_stdin p then WriteDone StdinClosed
          else WriteTo (rp_session p) (rp_accepted p))"

definition write_ids_at :: "addr \<Rightarrow> local_process \<Rightarrow> accepted_stdin_write_ids" where
  "write_ids_at a lp = (case hm_get (lp_write_ids lp) a of None \<Rightarrow> no_write_ids | Some ids \<Rightarrow> ids)"

text \<open>The last section, under the lock of the write ids: check again, send, remember.\<close>

definition write_commit ::
  "session \<Rightarrow> addr \<Rightarrow> byte list \<Rightarrow> string \<Rightarrow> local_process \<Rightarrow> local_process" where
  "write_commit sess a chunk i lp =
     (if aw_contains i (write_ids_at a lp) then lp
      else (add_effects [StdinWrite sess chunk] lp)
             \<lparr>lp_write_ids := hm_insert a (aw_remember i (write_ids_at a lp)) (lp_write_ids lp)\<rparr>)"

definition exec_write ::
  "(session \<Rightarrow> bool) \<Rightarrow> (local_process \<Rightarrow> local_process) \<Rightarrow> write_params \<Rightarrow> local_process
     \<Rightarrow> (jsonrpc_error_error + write_status) \<times> local_process" where
  "exec_write writer_open others params lp =
     (if wp_write_id params = [] then (Inl (invalid_params ''writeId must not be empty''), lp)
      else case write_lookup (wp_process_id params) lp of
             WriteDone st \<Rightarrow> (Inr st, lp)
           | WriteTo sess a \<Rightarrow>
               if aw_contains (wp_write_id params) (write_ids_at a lp) then (Inr Accepted, lp)
               else if \<not> writer_open sess
                 then (Inl (internal_error ''failed to write to process stdin''), others lp)
               else (Inr Accepted, write_commit sess a (wp_chunk params) (wp_write_id params) (others lp)))"

definition signal_process ::
  "(session \<Rightarrow> process_signal \<Rightarrow> string option) \<Rightarrow> process_id \<Rightarrow> process_signal \<Rightarrow> local_process
     \<Rightarrow> (jsonrpc_error_error + unit) \<times> local_process" where
  "signal_process os_signal pid sig lp =
     (case lp_entry pid lp of
        Some (RunningEntry p) \<Rightarrow>
          if rp_exit_code p \<noteq> None then (Inr (), lp)
          else (case os_signal (rp_session p) sig of
                  Some err \<Rightarrow> (Inl (internal_error (''failed to signal process: '' @ err)), lp)
                | None \<Rightarrow> (Inr (), add_effects [SessionSignal (rp_session p) sig] lp))
      | Some (StartingEntry _) \<Rightarrow> (Inr (), lp)
      | None \<Rightarrow> (Inr (), lp))"

definition terminate_process :: "process_id \<Rightarrow> local_process \<Rightarrow> bool \<times> local_process" where
  "terminate_process pid lp =
     (case lp_entry pid lp of
        Some (RunningEntry p) \<Rightarrow>
          if rp_exit_code p \<noteq> None then (False, lp)
          else (True, add_effects [SessionTerminate (rp_session p)] lp)
      | Some (StartingEntry _) \<Rightarrow> (True, remove_entry pid lp)
      | None \<Rightarrow> (False, lp))"

subsection \<open>Output, exit and close\<close>

fun evict_output :: "retained_output_chunk list \<Rightarrow> nat \<Rightarrow> retained_output_chunk list \<times> nat" where
  "evict_output [] bytes = ([], bytes)"
| "evict_output (c # cs) bytes =
     (if bytes > retained_output_bytes_per_process
      then evict_output cs (bytes - length (rc_chunk c))
      else (c # cs, bytes))"

definition push_output :: "exec_output_stream \<Rightarrow> byte list \<Rightarrow> running_process \<Rightarrow> running_process" where
  "push_output stream chunk p =
     (let s = rp_next_seq p;
          r = \<lparr>rc_seq = s, rc_stream = stream, rc_chunk = chunk\<rparr>;
          (outp, bytes) = evict_output (rp_output p @ [r]) (rp_retained_bytes p + length chunk)
      in p\<lparr>rp_next_seq := u64_succ s,
           rp_output := outp,
           rp_retained_bytes := bytes,
           rp_wake := watch_send s (rp_wake p),
           rp_events := publish (Output (to_output_chunk r)) (rp_events p)\<rparr>)"

definition stream_chunk ::
  "process_id \<Rightarrow> exec_output_stream \<Rightarrow> byte list \<Rightarrow> local_process
     \<Rightarrow> exec_notification option \<times> local_process" where
  "stream_chunk pid stream chunk lp =
     (case lp_entry pid lp of
        Some (RunningEntry p) \<Rightarrow>
          (Some (OutputDelta pid (rp_next_seq p) stream chunk),
           put_process pid (push_output stream chunk p) lp)
      | _ \<Rightarrow> (None, lp))"

definition concat_streams :: "exec_output_stream set \<Rightarrow> retained_output_chunk list \<Rightarrow> byte list" where
  "concat_streams sts cs = concat (map rc_chunk (filter (\<lambda>c. rc_stream c \<in> sts) cs))"

definition denied_by_sandbox :: "host_lib \<Rightarrow> int \<Rightarrow> running_process \<Rightarrow> bool" where
  "denied_by_sandbox h code p =
     is_likely_sandbox_denied h (rp_sandbox p)
       \<lparr>eo_exit_code = code,
        eo_stdout = hl_from_utf8_lossy h (concat_streams {Stdout, Pty} (rp_output p)),
        eo_stderr = hl_from_utf8_lossy h (concat_streams {Stderr} (rp_output p)),
        eo_aggregated_output = hl_from_utf8_lossy h (concat_streams {Stdout, Pty, Stderr} (rp_output p))\<rparr>"

definition set_exited :: "host_lib \<Rightarrow> int \<Rightarrow> running_process \<Rightarrow> running_process" where
  "set_exited h code p =
     (let s = rp_next_seq p
      in p\<lparr>rp_next_seq := u64_succ s,
           rp_exit_code := Some code,
           rp_sandbox_denied := (if rp_sandbox p \<noteq> NoSandbox then denied_by_sandbox h code p
                                 else rp_sandbox_denied p),
           rp_wake := watch_send s (rp_wake p),
           rp_events := publish (Exited s code) (rp_events p)\<rparr>)"

definition record_exit ::
  "host_lib \<Rightarrow> process_id \<Rightarrow> int \<Rightarrow> local_process \<Rightarrow> exec_notification option \<times> local_process" where
  "record_exit h pid code lp =
     (case lp_entry pid lp of
        Some (RunningEntry p) \<Rightarrow>
          (Some (ExitedNotification pid (rp_next_seq p) code), put_process pid (set_exited h code p) lp)
      | _ \<Rightarrow> (None, lp))"

definition dec_open_streams :: "process_id \<Rightarrow> local_process \<Rightarrow> local_process" where
  "dec_open_streams pid lp =
     (case lp_entry pid lp of
        Some (RunningEntry p) \<Rightarrow> put_process pid (p\<lparr>rp_open_streams := rp_open_streams p - 1\<rparr>) lp
      | _ \<Rightarrow> lp)"

definition ready_to_close :: "running_process \<Rightarrow> bool" where
  "ready_to_close p \<longleftrightarrow> \<not> rp_closed p \<and> rp_open_streams p = 0 \<and> rp_exit_code p \<noteq> None"

definition set_closed :: "running_process \<Rightarrow> running_process" where
  "set_closed p =
     (let s = rp_next_seq p
      in p\<lparr>rp_closed := True,
           rp_next_seq := u64_succ s,
           rp_wake := watch_send s (rp_wake p),
           rp_events := publish (Closed s) (rp_events p)\<rparr>)"

text \<open>The locked part of \<open>maybe_emit_closed\<close>; a notification is returned iff it closed the process.\<close>

definition close_if_ready ::
  "process_id \<Rightarrow> local_process \<Rightarrow> exec_notification option \<times> local_process" where
  "close_if_ready pid lp =
     (case lp_entry pid lp of
        Some (RunningEntry p) \<Rightarrow>
          if ready_to_close p
          then (Some (ClosedNotification pid (rp_next_seq p)), put_process pid (set_closed p) lp)
          else (None, lp)
      | _ \<Rightarrow> (None, lp))"

text \<open>What the timer that \<open>maybe_emit_closed\<close> spawns does after the retention period.\<close>

definition cleanup_closed :: "process_id \<Rightarrow> local_process \<Rightarrow> local_process" where
  "cleanup_closed pid lp =
     (case lp_entry pid lp of
        Some (RunningEntry p) \<Rightarrow> if rp_closed p then remove_entry pid lp else lp
      | _ \<Rightarrow> lp)"

definition notify_opt :: "exec_notification option \<Rightarrow> local_process \<Rightarrow> local_process" where
  "notify_opt n lp = (case n of None \<Rightarrow> lp | Some x \<Rightarrow> notify x lp)"

definition maybe_emit_closed :: "process_id \<Rightarrow> local_process \<Rightarrow> local_process" where
  "maybe_emit_closed pid lp = (case close_if_ready pid lp of (n, lp') \<Rightarrow> notify_opt n lp')"

definition finish_output_stream :: "process_id \<Rightarrow> local_process \<Rightarrow> local_process" where
  "finish_output_stream pid lp =
     (case lp_entry pid lp of
        Some (RunningEntry _) \<Rightarrow> maybe_emit_closed pid (dec_open_streams pid lp)
      | _ \<Rightarrow> lp)"

fun stream_output ::
  "process_id \<Rightarrow> exec_output_stream \<Rightarrow> byte list list \<Rightarrow> local_process \<Rightarrow> local_process" where
  "stream_output pid stream [] lp = finish_output_stream pid lp"
| "stream_output pid stream (c # cs) lp =
     (case stream_chunk pid stream c lp of
        (None, lp') \<Rightarrow> finish_output_stream pid lp'
      | (Some n, lp') \<Rightarrow> stream_output pid stream cs (notify n lp'))"

definition watch_exit ::
  "host_lib \<Rightarrow> (local_process \<Rightarrow> local_process) \<Rightarrow> process_id \<Rightarrow> int option \<Rightarrow> local_process \<Rightarrow> local_process" where
  "watch_exit h others pid exit_rx lp =
     (let code = (case exit_rx of None \<Rightarrow> -1 | Some c \<Rightarrow> c);
          sandboxed = (case lp_entry pid lp of
                         Some (RunningEntry p) \<Rightarrow> rp_sandbox p \<noteq> NoSandbox
                       | _ \<Rightarrow> False);
          lp1 = (if sandboxed then others lp else lp)
      in case record_exit h pid code lp1 of (n, lp2) \<Rightarrow> maybe_emit_closed pid (notify_opt n lp2))"

end
