(* ===== verification/Process_Stdin.thy ===== *)
theory Process_Stdin
  imports Local_Process
begin

text \<open>
  Standard input of a process: the bounded cache of accepted write ids and what it buys,
  that a retried \<open>process/write\<close> reaches the child at most once.
\<close>

subsection \<open>The cache of accepted write ids\<close>

definition aw_inv :: "accepted_stdin_write_ids \<Rightarrow> bool" where
  "aw_inv a \<longleftrightarrow>
     set (aw_order a) = aw_ids a \<and> distinct (aw_order a)
     \<and> length (aw_order a) \<le> retained_stdin_write_ids_per_process"

lemma write_ids_cap_pos: "0 < retained_stdin_write_ids_per_process"
  by (simp add: retained_stdin_write_ids_per_process_def)

lemma evict_write_ids_inv:
  assumes "set xs = ids" and "distinct xs" and "evict_write_ids ids xs = (ids', ys)"
  shows "set ys = ids' \<and> distinct ys \<and> length ys \<le> retained_stdin_write_ids_per_process \<and> suffix ys xs"
  using assms
proof (induction ids xs rule: evict_write_ids.induct)
  case (1 ids)
  then show ?case by simp
next
  case (2 ids i "is")
  show ?case
  proof (cases "length (i # is) > retained_stdin_write_ids_per_process")
    case True
    moreover have "set is = ids - {i}" and "distinct is" using "2.prems"(1,2) by auto
    ultimately show ?thesis using "2.IH" "2.prems"(3) by (auto intro: suffix_ConsI)
  next
    case False
    with "2.prems" show ?thesis by auto
  qed
qed

lemma evict_write_ids_last:
  "evict_write_ids ids (xs @ [i]) = (ids', ys) \<Longrightarrow> suffix [i] ys"
proof (induction xs arbitrary: ids)
  case Nil
  then show ?case using write_ids_cap_pos by (auto split: if_splits)
next
  case (Cons x xs)
  then show ?case by (auto split: if_splits intro: suffix_ConsI)
qed

lemma evict_write_ids_small:
  "length xs \<le> retained_stdin_write_ids_per_process \<Longrightarrow> evict_write_ids ids xs = (ids, xs)"
  by (cases xs) auto

lemma no_write_ids_inv [simp]: "aw_inv no_write_ids"
  by (simp add: aw_inv_def no_write_ids_def)

lemma aw_remember_inv:
  assumes "aw_inv a"
  shows "aw_inv (aw_remember i a)"
proof (cases "i \<in> aw_ids a")
  case True
  with assms show ?thesis by (simp add: aw_remember_def)
next
  case False
  obtain ids ys where e: "evict_write_ids (insert i (aw_ids a)) (aw_order a @ [i]) = (ids, ys)"
    by (cases "evict_write_ids (insert i (aw_ids a)) (aw_order a @ [i])")
  have "set ys = ids \<and> distinct ys \<and> length ys \<le> retained_stdin_write_ids_per_process"
    using evict_write_ids_inv [OF _ _ e] False assms by (auto simp: aw_inv_def)
  with False e show ?thesis by (simp add: aw_remember_def aw_inv_def)
qed

lemma aw_remember_contains:
  assumes "aw_inv a"
  shows "aw_contains i (aw_remember i a)"
proof (cases "i \<in> aw_ids a")
  case True
  then show ?thesis by (simp add: aw_remember_def aw_contains_def)
next
  case False
  obtain ids ys where e: "evict_write_ids (insert i (aw_ids a)) (aw_order a @ [i]) = (ids, ys)"
    by (cases "evict_write_ids (insert i (aw_ids a)) (aw_order a @ [i])")
  have "set ys = ids"
    using evict_write_ids_inv [OF _ _ e] False assms by (auto simp: aw_inv_def)
  moreover have "i \<in> set ys" using evict_write_ids_last [OF e] by (auto simp: suffix_def)
  ultimately show ?thesis using False e by (simp add: aw_remember_def aw_contains_def)
qed

lemma aw_remember_small:
  assumes "i \<notin> aw_ids a" and "length (aw_order a) < retained_stdin_write_ids_per_process"
  shows "aw_remember i a = \<lparr>aw_ids = insert i (aw_ids a), aw_order = aw_order a @ [i]\<rparr>"
  using assms by (simp add: aw_remember_def evict_write_ids_small)

subsection \<open>Exactly-once writes under retries\<close>

definition lp_write_inv :: "local_process \<Rightarrow> bool" where
  "lp_write_inv lp \<longleftrightarrow> (\<forall>a ids. hm_get (lp_write_ids lp) a = Some ids \<longrightarrow> aw_inv ids)"

lemma write_ids_at_inv: "lp_write_inv lp \<Longrightarrow> aw_inv (write_ids_at a lp)"
  by (auto simp: lp_write_inv_def write_ids_at_def split: option.split)

lemma write_ids_at_commit:
  "write_ids_at b (write_commit sess a chunk i lp) =
     (if b = a \<and> \<not> aw_contains i (write_ids_at a lp) then aw_remember i (write_ids_at a lp)
      else write_ids_at b lp)"
  by (simp add: write_commit_def write_ids_at_def container_simps add_effects_def)

lemma write_commit_effects:
  "lp_effects (write_commit sess a chunk i lp) =
     lp_effects lp @ (if aw_contains i (write_ids_at a lp) then [] else [StdinWrite sess chunk])"
  by (simp add: write_commit_def add_effects_def)

lemma write_commit_inv: "lp_write_inv lp \<Longrightarrow> lp_write_inv (write_commit sess a chunk i lp)"
  using write_ids_at_inv [of lp a] aw_remember_inv
  by (auto simp: lp_write_inv_def write_commit_def container_simps add_effects_def)

text \<open>
  A client's calls that reached the commit section, in the order the section ran: chunk and
  write id. Retries repeat an id.
\<close>

type_synonym write_attempts = "(byte list \<times> string) list"

fun commit_writes :: "session \<Rightarrow> addr \<Rightarrow> write_attempts \<Rightarrow> local_process \<Rightarrow> local_process" where
  "commit_writes sess a [] lp = lp"
| "commit_writes sess a ((chunk, i) # ws) lp = commit_writes sess a ws (write_commit sess a chunk i lp)"

fun first_attempts :: "string set \<Rightarrow> write_attempts \<Rightarrow> write_attempts" where
  "first_attempts seen [] = []"
| "first_attempts seen ((chunk, i) # ws) =
     (if i \<in> seen then first_attempts seen ws
      else (chunk, i) # first_attempts (insert i seen) ws)"

lemma commit_writes_effects:
  assumes "aw_inv (write_ids_at a lp)"
    and "length (aw_order (write_ids_at a lp)) + length (first_attempts (aw_ids (write_ids_at a lp)) ws)
           \<le> retained_stdin_write_ids_per_process"
  shows "lp_effects (commit_writes sess a ws lp) =
           lp_effects lp @ map (\<lambda>(c, _). StdinWrite sess c) (first_attempts (aw_ids (write_ids_at a lp)) ws)"
  using assms
proof (induction sess a ws lp rule: commit_writes.induct)
  case (1 sess a lp)
  then show ?case by simp
next
  case (2 sess a chunk i ws lp)
  let ?lp = "write_commit sess a chunk i lp"
  show ?case
  proof (cases "i \<in> aw_ids (write_ids_at a lp)")
    case True
    then have "?lp = lp" by (simp add: write_commit_def aw_contains_def)
    with 2 True show ?thesis by simp
  next
    case False
    with "2.prems"(2) have len: "length (aw_order (write_ids_at a lp)) < retained_stdin_write_ids_per_process"
      by simp
    have at: "write_ids_at a ?lp =
        \<lparr>aw_ids = insert i (aw_ids (write_ids_at a lp)), aw_order = aw_order (write_ids_at a lp) @ [i]\<rparr>"
      using False aw_remember_small [OF False len] by (simp add: write_ids_at_commit aw_contains_def)
    have "aw_inv (write_ids_at a ?lp)"
      using "2.prems"(1) False by (simp add: write_ids_at_commit aw_contains_def aw_remember_inv)
    then have "lp_effects (commit_writes sess a ws ?lp) = lp_effects ?lp @
        map (\<lambda>(c, _). StdinWrite sess c) (first_attempts (aw_ids (write_ids_at a ?lp)) ws)"
      using "2.IH" "2.prems"(2) False by (simp add: at)
    with False show ?thesis by (simp add: at write_commit_effects aw_contains_def)
  qed
qed

text \<open>
  C28. Standard input is written exactly once per write id. For a process whose cache of
  accepted ids is empty and any interleaving of first attempts and retries with at most
  4096 different ids, the child receives exactly the chunk of the first attempt of each id,
  in order; every other attempt writes nothing.
\<close>

theorem stdin_writes_exactly_once:
  assumes "write_ids_at a lp = no_write_ids"
    and "length (first_attempts {} ws) \<le> retained_stdin_write_ids_per_process"
  shows "lp_effects (commit_writes sess a ws lp) =
           lp_effects lp @ map (\<lambda>(c, _). StdinWrite sess c) (first_attempts {} ws)"
  using commit_writes_effects [of a lp ws sess] assms by (simp add: no_write_ids_def aw_inv_def)

theorem stdin_writes_exactly_once_witness:
  "lp_effects (commit_writes 7 0 [([1], ''a''), ([2], ''b''), ([1], ''a'')] (local_process_new None)) =
     [StdinWrite 7 [1], StdinWrite 7 [2]]"
  using stdin_writes_exactly_once [of 0 "local_process_new None" "[([1], ''a''), ([2], ''b''), ([1], ''a'')]" 7]
  by (simp add: local_process_new_def write_ids_at_def retained_stdin_write_ids_per_process_def)

lemma write_commit_remembers:
  "lp_write_inv lp \<Longrightarrow> aw_contains i (write_ids_at a (write_commit sess a chunk i lp))"
  using aw_remember_contains [OF write_ids_at_inv] by (simp add: write_ids_at_commit)

lemma write_lookup_commit [simp]:
  "write_lookup pid (write_commit sess a chunk i lp) = write_lookup pid lp"
  by (simp add: write_lookup_def write_commit_def lp_entry_def add_effects_def)

lemma write_commit_again:
  "lp_write_inv lp \<Longrightarrow> write_commit s' a c' i (write_commit sess a chunk i lp) = write_commit sess a chunk i lp"
  using write_commit_remembers [of lp i a sess chunk]
  by (simp add: write_commit_def [of s' a c' i "write_commit sess a chunk i lp"])

text \<open>
  Two concurrent deliveries of the same \<open>process/write\<close> race safely. When a retry runs
  completely while the first handler waits for room in the stdin channel, both are answered
  \<open>Accepted\<close>, the child receives the bytes once, and a third delivery changes nothing.
\<close>

theorem concurrent_retry_writes_once:
  assumes "lp_write_inv lp" and "wp_write_id params \<noteq> []"
    and "write_lookup (wp_process_id params) lp = WriteTo sess a" and "writer_open sess"
    and "\<not> aw_contains (wp_write_id params) (write_ids_at a lp)"
  shows "let retry = exec_write writer_open id params;
             (answer, lp') = exec_write writer_open (\<lambda>s. snd (retry s)) params lp
         in answer = Inr Accepted
            \<and> lp_effects lp' = lp_effects lp @ [StdinWrite sess (wp_chunk params)]
            \<and> retry lp' = (Inr Accepted, lp')"
proof -
  let ?c = "write_commit sess a (wp_chunk params) (wp_write_id params) lp"
  have first: "exec_write writer_open id params lp = (Inr Accepted, ?c)"
    using assms by (simp add: exec_write_def)
  have "exec_write writer_open (\<lambda>s. snd (exec_write writer_open id params s)) params lp = (Inr Accepted, ?c)"
    using assms first by (simp add: exec_write_def write_commit_again)
  moreover have "exec_write writer_open id params ?c = (Inr Accepted, ?c)"
    using assms write_commit_remembers [OF assms(1)] by (simp add: exec_write_def)
  ultimately show ?thesis
    using assms(5) by (simp add: write_commit_effects)
qed

theorem concurrent_retry_writes_once_witness:
  "let params = \<lparr>wp_process_id = ''p'', wp_chunk = [5], wp_write_id = ''1''\<rparr>;
       lp = put_process ''p'' (new_running_process 7 0 True False NoSandbox) (local_process_new None)
   in lp_effects (snd (exec_write (\<lambda>_. True) (\<lambda>s. snd (exec_write (\<lambda>_. True) id params s)) params lp)) =
        [StdinWrite 7 [5]]"
proof -
  let ?params = "\<lparr>wp_process_id = ''p'', wp_chunk = [5], wp_write_id = ''1''\<rparr>"
  let ?lp = "put_process ''p'' (new_running_process 7 0 True False NoSandbox) (local_process_new None)"
  have "lp_write_inv ?lp" by (simp add: lp_write_inv_def put_process_def local_process_new_def)
  moreover have "write_lookup (wp_process_id ?params) ?lp = WriteTo 7 0"
    by (simp add: write_lookup_def lp_entry_def put_process_def container_simps new_running_process_def)
  moreover have "\<not> aw_contains (wp_write_id ?params) (write_ids_at 0 ?lp)"
    by (simp add: aw_contains_def write_ids_at_def put_process_def local_process_new_def no_write_ids_def)
  ultimately show ?thesis
    using concurrent_retry_writes_once [of ?lp ?params 7 0 "\<lambda>_. True"]
    by (simp add: Let_def case_prod_beta put_process_def local_process_new_def)
qed

end
