(* ===== verification/Process_Output.thy ===== *)
theory Process_Output
  imports Local_Process
begin

text \<open>
  What the process table of \<open>Local_Process\<close> guarantees for one process: the invariant that
  ties the retained output, its byte count and the sequence numbers to the history of
  published events, that every locked section keeps it, and that reading pages through the
  retained output without losing or repeating a chunk.
\<close>

interpretation output_eviction: front_eviction
  "\<lambda>c. length (rc_chunk c)" "\<lambda>n b. b > retained_output_bytes_per_process" evict_output
  by unfold_locales simp_all

subsection \<open>The invariant of a running process\<close>

fun output_chunk_of :: "exec_process_event \<Rightarrow> process_output_chunk option" where
  "output_chunk_of (Output c) = Some c"
| "output_chunk_of _ = None"

definition output_chunks :: "exec_process_event list \<Rightarrow> process_output_chunk list" where
  "output_chunks es = List.map_filter output_chunk_of es"

lemma output_chunks_simps [simp]:
  "output_chunks [] = []"
  "output_chunks (es @ [Output c]) = output_chunks es @ [c]"
  "output_chunks (es @ [Exited s x]) = output_chunks es"
  "output_chunks (es @ [Closed s]) = output_chunks es"
  by (simp_all add: output_chunks_def List.map_filter_def)

definition rp_seq_inv :: "running_process \<Rightarrow> bool" where
  "rp_seq_inv p \<longleftrightarrow>
     event_log_inv (rp_events p)
     \<and> 1 \<le> rp_next_seq p \<and> rp_next_seq p \<le> u64_max
     \<and> map event_seq (el_sent (rp_events p)) = map Some [1..<rp_next_seq p]"

definition rp_output_inv :: "running_process \<Rightarrow> bool" where
  "rp_output_inv p \<longleftrightarrow>
     suffix (map to_output_chunk (rp_output p)) (output_chunks (el_sent (rp_events p)))
     \<and> rp_retained_bytes p = weight_sum (\<lambda>c. length (rc_chunk c)) (rp_output p)
     \<and> rp_retained_bytes p \<le> retained_output_bytes_per_process"

definition rp_life_inv :: "running_process \<Rightarrow> bool" where
  "rp_life_inv p \<longleftrightarrow>
     (rp_exit_code p \<noteq> None \<longleftrightarrow> (\<exists>s c. Exited s c \<in> set (el_sent (rp_events p))))
     \<and> (rp_closed p \<longleftrightarrow> (\<exists>s. Closed s \<in> set (el_sent (rp_events p))))
     \<and> (rp_closed p \<longrightarrow> rp_exit_code p \<noteq> None \<and> rp_open_streams p = 0)"

definition rp_inv :: "running_process \<Rightarrow> bool" where
  "rp_inv p \<longleftrightarrow> rp_seq_inv p \<and> rp_output_inv p \<and> rp_life_inv p"

lemmas rp_inv_defs = rp_inv_def rp_seq_inv_def rp_output_inv_def rp_life_inv_def

lemma u64_max_gt_1: "1 < u64_max"
  by (simp add: u64_max_def u64_modulus_def)

lemma rp_inv_new: "rp_inv (new_running_process sess a tty pipe sb)"
  using u64_max_gt_1 by (simp add: rp_inv_defs new_running_process_def)

lemma seqs_snoc: "1 \<le> n \<Longrightarrow> map Some [1..<Suc n] = map Some [1..<n] @ [Some n]"
  by simp

lemma push_output_parts:
  assumes "rp_retained_bytes p = weight_sum (\<lambda>c. length (rc_chunk c)) (rp_output p)"
  shows "(rp_output (push_output stream chunk p), rp_retained_bytes (push_output stream chunk p)) =
    evict_output (rp_output p @ [\<lparr>rc_seq = rp_next_seq p, rc_stream = stream, rc_chunk = chunk\<rparr>])
      (weight_sum (\<lambda>c. length (rc_chunk c))
        (rp_output p @ [\<lparr>rc_seq = rp_next_seq p, rc_stream = stream, rc_chunk = chunk\<rparr>]))"
  using assms by (simp add: push_output_def Let_def split: prod.split)

lemma push_output_fields [simp]:
  "rp_next_seq (push_output stream chunk p) = u64_succ (rp_next_seq p)"
  "rp_exit_code (push_output stream chunk p) = rp_exit_code p"
  "rp_closed (push_output stream chunk p) = rp_closed p"
  "rp_open_streams (push_output stream chunk p) = rp_open_streams p"
  "rp_session (push_output stream chunk p) = rp_session p"
  "rp_accepted (push_output stream chunk p) = rp_accepted p"
  "rp_events (push_output stream chunk p) =
     publish (Output \<lparr>poc_seq = rp_next_seq p, poc_stream = stream, poc_chunk = chunk\<rparr>) (rp_events p)"
  by (simp_all add: push_output_def Let_def to_output_chunk_def split: prod.split)

lemma push_output_output:
  fixes stream chunk
  assumes "rp_retained_bytes p = weight_sum (\<lambda>c. length (rc_chunk c)) (rp_output p)"
  defines "p' \<equiv> push_output stream chunk p"
  shows "suffix (rp_output p')
           (rp_output p @ [\<lparr>rc_seq = rp_next_seq p, rc_stream = stream, rc_chunk = chunk\<rparr>])"
    and "rp_retained_bytes p' = weight_sum (\<lambda>c. length (rc_chunk c)) (rp_output p')"
    and "rp_retained_bytes p' \<le> retained_output_bytes_per_process"
proof -
  let ?r = "\<lparr>rc_seq = rp_next_seq p, rc_stream = stream, rc_chunk = chunk\<rparr>"
  let ?e = "evict_output (rp_output p @ [?r]) (weight_sum (\<lambda>c. length (rc_chunk c)) (rp_output p @ [?r]))"
  have o: "rp_output p' = fst ?e" and b: "rp_retained_bytes p' = snd ?e"
    using push_output_parts [OF assms(1), of stream chunk] unfolding p'_def by (metis fst_conv, metis snd_conv)
  show "suffix (rp_output p') (rp_output p @ [?r])"
    unfolding o by (rule output_eviction.evict_suffix)
  show eq: "rp_retained_bytes p' = weight_sum (\<lambda>c. length (rc_chunk c)) (rp_output p')"
    unfolding o b by (rule output_eviction.evict_total)
  show "rp_retained_bytes p' \<le> retained_output_bytes_per_process"
  proof (cases "rp_output p' = []")
    case True
    with eq show ?thesis by simp
  next
    case False
    then have "fst ?e \<noteq> []" by (simp add: o)
    from output_eviction.evict_within [OF this] show ?thesis by (simp add: b)
  qed
qed

lemma push_output_seq_inv:
  "rp_seq_inv p \<Longrightarrow> rp_next_seq p < u64_max \<Longrightarrow> rp_seq_inv (push_output stream chunk p)"
  by (simp add: rp_seq_inv_def publish_inv u64_succ_no_wrap)

lemma push_output_output_inv:
  assumes inv: "rp_output_inv p"
  shows "rp_output_inv (push_output stream chunk p)"
proof -
  let ?r = "\<lparr>rc_seq = rp_next_seq p, rc_stream = stream, rc_chunk = chunk\<rparr>"
  from inv have bytes: "rp_retained_bytes p = weight_sum (\<lambda>c. length (rc_chunk c)) (rp_output p)"
    by (simp add: rp_output_inv_def)
  note out = push_output_output [OF bytes, of stream chunk]
  have "suffix (map to_output_chunk (rp_output (push_output stream chunk p)))
          (map to_output_chunk (rp_output p @ [?r]))"
    by (rule map_mono_suffix [OF out(1)])
  moreover have "suffix (map to_output_chunk (rp_output p @ [?r]))
      (output_chunks (el_sent (rp_events p)) @ [to_output_chunk ?r])"
    using inv by (simp add: rp_output_inv_def)
  ultimately have "suffix (map to_output_chunk (rp_output (push_output stream chunk p)))
      (output_chunks (el_sent (rp_events p)) @ [to_output_chunk ?r])"
    by (rule suffix_order.trans)
  with out(2,3) show ?thesis by (simp add: rp_output_inv_def to_output_chunk_def)
qed

lemma push_output_inv:
  "rp_inv p \<Longrightarrow> rp_next_seq p < u64_max \<Longrightarrow> rp_inv (push_output stream chunk p)"
  by (auto simp: rp_inv_def rp_life_inv_def push_output_seq_inv push_output_output_inv)

lemma set_exited_fields [simp]:
  "rp_next_seq (set_exited h code p) = u64_succ (rp_next_seq p)"
  "rp_exit_code (set_exited h code p) = Some code"
  "rp_closed (set_exited h code p) = rp_closed p"
  "rp_open_streams (set_exited h code p) = rp_open_streams p"
  "rp_session (set_exited h code p) = rp_session p"
  "rp_accepted (set_exited h code p) = rp_accepted p"
  "rp_output (set_exited h code p) = rp_output p"
  "rp_retained_bytes (set_exited h code p) = rp_retained_bytes p"
  "rp_events (set_exited h code p) = publish (Exited (rp_next_seq p) code) (rp_events p)"
  by (simp_all add: set_exited_def Let_def)

lemma set_closed_fields [simp]:
  "rp_next_seq (set_closed p) = u64_succ (rp_next_seq p)"
  "rp_exit_code (set_closed p) = rp_exit_code p"
  "rp_closed (set_closed p) = True"
  "rp_open_streams (set_closed p) = rp_open_streams p"
  "rp_session (set_closed p) = rp_session p"
  "rp_accepted (set_closed p) = rp_accepted p"
  "rp_output (set_closed p) = rp_output p"
  "rp_retained_bytes (set_closed p) = rp_retained_bytes p"
  "rp_events (set_closed p) = publish (Closed (rp_next_seq p)) (rp_events p)"
  by (simp_all add: set_closed_def Let_def)

lemma set_exited_inv:
  assumes "rp_inv p" and "rp_next_seq p < u64_max"
  shows "rp_inv (set_exited h code p)"
proof -
  from assms have "rp_seq_inv (set_exited h code p)"
    by (simp add: rp_inv_def rp_seq_inv_def publish_inv u64_succ_no_wrap)
  moreover from assms have "rp_output_inv (set_exited h code p)"
    by (simp add: rp_inv_def rp_output_inv_def)
  moreover from assms have "rp_life_inv (set_exited h code p)"
    by (auto simp: rp_inv_def rp_life_inv_def)
  ultimately show ?thesis by (simp add: rp_inv_def)
qed

lemma set_closed_inv:
  assumes "rp_inv p" and "rp_next_seq p < u64_max" and "ready_to_close p"
  shows "rp_inv (set_closed p)"
proof -
  from assms have "rp_seq_inv (set_closed p)"
    by (simp add: rp_inv_def rp_seq_inv_def publish_inv u64_succ_no_wrap)
  moreover from assms have "rp_output_inv (set_closed p)"
    by (simp add: rp_inv_def rp_output_inv_def)
  moreover from assms have "rp_life_inv (set_closed p)"
    by (auto simp: rp_inv_def rp_life_inv_def ready_to_close_def)
  ultimately show ?thesis by (simp add: rp_inv_def)
qed

lemma dec_streams_inv: "rp_inv p \<Longrightarrow> rp_inv (p\<lparr>rp_open_streams := rp_open_streams p - 1\<rparr>)"
  by (auto simp: rp_inv_defs)

lemma wake_inv: "rp_inv p \<Longrightarrow> rp_inv (p\<lparr>rp_wake := w\<rparr>)"
  by (auto simp: rp_inv_defs)

lemmas rp_inv_steps = rp_inv_new push_output_inv set_exited_inv set_closed_inv dec_streams_inv wake_inv

text \<open>The retained chunks carry strictly increasing sequence numbers below \<open>next_seq\<close>.\<close>

lemma output_chunks_seqs:
  assumes "map event_seq es = map Some ns" and "sorted_wrt (<) ns"
  shows "sorted_wrt (<) (map poc_seq (output_chunks es)) \<and> set (map poc_seq (output_chunks es)) \<subseteq> set ns"
  using assms
proof (induction es arbitrary: ns)
  case Nil
  then show ?case by simp
next
  case (Cons e es)
  then obtain n ns' where ns: "ns = n # ns'" and e: "event_seq e = Some n"
    and es: "map event_seq es = map Some ns'" by (cases ns) auto
  from Cons.IH [OF es] Cons.prems(2) ns
  have IH: "sorted_wrt (<) (map poc_seq (output_chunks es))" "set (map poc_seq (output_chunks es)) \<subseteq> set ns'"
    by auto
  have oc: "output_chunks (e # es) = (case e of Output c \<Rightarrow> c # output_chunks es | _ \<Rightarrow> output_chunks es)"
    by (simp add: output_chunks_def List.map_filter_def split: exec_process_event.split)
  show ?case
    using IH e Cons.prems(2) ns by (auto simp: oc split: exec_process_event.split)
qed

lemma rp_inv_output_seqs:
  assumes "rp_inv p"
  shows "sorted_wrt (<) (map rc_seq (rp_output p))"
    and "c \<in> set (rp_output p) \<Longrightarrow> 1 \<le> rc_seq c \<and> rc_seq c < rp_next_seq p"
proof -
  let ?all = "output_chunks (el_sent (rp_events p))"
  have seqs: "map event_seq (el_sent (rp_events p)) = map Some [1..<rp_next_seq p]"
    using assms by (simp add: rp_inv_def rp_seq_inv_def)
  note all = output_chunks_seqs [OF seqs sorted_wrt_upt]
  from assms obtain pre where pre: "?all = pre @ map to_output_chunk (rp_output p)"
    by (auto simp: rp_inv_def rp_output_inv_def suffix_def)
  have rc: "map rc_seq (rp_output p) = map poc_seq (map to_output_chunk (rp_output p))"
    by (simp add: to_output_chunk_def)
  show "sorted_wrt (<) (map rc_seq (rp_output p))"
    using all unfolding rc pre by (simp add: sorted_wrt_append)
  show "1 \<le> rc_seq c \<and> rc_seq c < rp_next_seq p" if "c \<in> set (rp_output p)"
  proof -
    have "poc_seq (to_output_chunk c) \<in> set (map poc_seq ?all)" unfolding pre using that by auto
    with all show ?thesis by (auto simp: to_output_chunk_def)
  qed
qed

subsection \<open>Reading pages through the output\<close>

abbreviation chunk_bytes :: "retained_output_chunk list \<Rightarrow> nat" where
  "chunk_bytes \<equiv> weight_sum (\<lambda>c. length (rc_chunk c))"

lemma collect_chunks_continue:
  "acc \<noteq> [] \<Longrightarrow> tot \<le> m \<Longrightarrow>
   \<exists>k \<le> length rs.
     collect_chunks m rs tot acc nxt =
       (acc @ map to_output_chunk (take k rs), if k = 0 then nxt else u64_succ (rc_seq (rs ! (k - 1))))
     \<and> tot + chunk_bytes (take k rs) \<le> m
     \<and> (tot + chunk_bytes rs < m \<longrightarrow> k = length rs)"
proof (induction rs arbitrary: tot acc nxt)
  case Nil
  then show ?case by simp
next
  case (Cons r rs)
  let ?tot = "tot + length (rc_chunk r)"
  let ?acc = "acc @ [to_output_chunk r]"
  let ?nxt = "u64_succ (rc_seq r)"
  consider (stop) "?tot > m" | (last) "?tot = m" | (go) "?tot < m" by linarith
  then show ?case
  proof cases
    case stop
    with Cons.prems show ?thesis by (intro exI [of _ 0]) auto
  next
    case last
    with Cons.prems show ?thesis by (intro exI [of _ 1]) (auto simp: Let_def)
  next
    case go
    then obtain k where k: "k \<le> length rs" and
      eq: "collect_chunks m rs ?tot ?acc ?nxt =
        (?acc @ map to_output_chunk (take k rs), if k = 0 then ?nxt else u64_succ (rc_seq (rs ! (k - 1))))"
      and b: "?tot + chunk_bytes (take k rs) \<le> m" "?tot + chunk_bytes rs < m \<longrightarrow> k = length rs"
      using Cons.IH [of ?acc ?tot ?nxt] by auto
    have "collect_chunks m (r # rs) tot acc nxt = collect_chunks m rs ?tot ?acc ?nxt"
      using Cons.prems go by (simp add: Let_def)
    with k eq b show ?thesis
      by (intro exI [of _ "Suc k"]) (auto simp: nth_Cons')
  qed
qed

lemma collect_chunks_start:
  assumes "rs \<noteq> []"
  obtains k where "0 < k" "k \<le> length rs"
    and "collect_chunks m rs 0 [] nxt = (map to_output_chunk (take k rs), u64_succ (rc_seq (rs ! (k - 1))))"
    and "chunk_bytes (take k rs) \<le> m \<or> k = 1"
    and "chunk_bytes rs < m \<Longrightarrow> k = length rs"
proof -
  obtain r rs' where rs: "rs = r # rs'" using assms by (cases rs) auto
  show thesis
  proof (cases "length (rc_chunk r) \<ge> m")
    case True
    then show thesis by (intro that [of 1]) (auto simp: rs Let_def)
  next
    case False
    then obtain k where k: "k \<le> length rs'" and
      eq: "collect_chunks m rs' (length (rc_chunk r)) [to_output_chunk r] (u64_succ (rc_seq r)) =
        ([to_output_chunk r] @ map to_output_chunk (take k rs'),
         if k = 0 then u64_succ (rc_seq r) else u64_succ (rc_seq (rs' ! (k - 1))))"
      and b: "length (rc_chunk r) + chunk_bytes (take k rs') \<le> m"
        "length (rc_chunk r) + chunk_bytes rs' < m \<longrightarrow> k = length rs'"
      using collect_chunks_continue [of "[to_output_chunk r]" "length (rc_chunk r)" m rs' "u64_succ (rc_seq r)"]
      by auto
    show thesis
      by (rule that [of "Suc k"]) (use k eq b False in \<open>auto simp: rs Let_def nth_Cons'\<close>)
  qed
qed

lemma sorted_filter_after_nth:
  fixes f :: "'a \<Rightarrow> nat"
  assumes "sorted_wrt (<) (map f xs)" and "0 < k" "k \<le> length xs"
  shows "filter (\<lambda>x. f x > f (xs ! (k - 1))) xs = drop k xs"
proof -
  have "xs = take k xs @ drop k xs" by simp
  moreover have "filter (\<lambda>x. f x > f (xs ! (k - 1))) (take k xs) = []"
  proof -
    have "f (xs ! i) \<le> f (xs ! (k - 1))" if "i < k" for i
      using that assms sorted_wrt_nth_less [OF assms(1), of i "k - 1"]
      by (cases "i = k - 1") (auto simp: less_imp_le)
    then show ?thesis by (auto simp: filter_empty_conv in_set_conv_nth not_less)
  qed
  moreover have "filter (\<lambda>x. f x > f (xs ! (k - 1))) (drop k xs) = drop k xs"
  proof -
    have "f (xs ! (k - 1)) < f (xs ! (k + j))" if "j < length xs - k" for j
      using that assms sorted_wrt_nth_less [OF assms(1), of "k - 1" "k + j"] by auto
    then show ?thesis by (auto simp: filter_id_conv in_set_conv_nth)
  qed
  ultimately show ?thesis by (metis append_Nil filter_append)
qed

definition read_after :: "read_params \<Rightarrow> nat" where
  "read_after params = (case rd_after_seq params of None \<Rightarrow> 0 | Some n \<Rightarrow> n)"

definition unread :: "nat \<Rightarrow> running_process \<Rightarrow> retained_output_chunk list" where
  "unread after_seq p = filter (\<lambda>c. rc_seq c > after_seq) (rp_output p)"

lemma unread_sorted: "rp_inv p \<Longrightarrow> sorted_wrt (<) (map rc_seq (unread a p))"
  unfolding unread_def
  by (metis (no_types, lifting) rp_inv_output_seqs(1) sorted_wrt_filter sorted_wrt_map)

lemma unread_unread: "a \<le> b \<Longrightarrow> unread b p = filter (\<lambda>c. rc_seq c > b) (unread a p)"
  unfolding unread_def filter_filter by (rule filter_cong) auto

lemma chunk_bytes_filter_le: "chunk_bytes (filter P cs) \<le> chunk_bytes cs"
  by (induction cs) auto

lemma unread_bytes: "rp_inv p \<Longrightarrow> chunk_bytes (unread a p) < u64_max"
proof -
  assume "rp_inv p"
  then have "chunk_bytes (rp_output p) \<le> retained_output_bytes_per_process"
    by (simp add: rp_inv_def rp_output_inv_def)
  moreover have "retained_output_bytes_per_process < u64_max"
    by (simp add: retained_output_bytes_per_process_def u64_max_def u64_modulus_def)
  ultimately show ?thesis
    using chunk_bytes_filter_le [of "\<lambda>c. rc_seq c > a" "rp_output p"] unfolding unread_def by linarith
qed

lemma unread_past_end: "rp_inv p \<Longrightarrow> rp_next_seq p - 1 \<le> a \<Longrightarrow> unread a p = []"
  using rp_inv_output_seqs(2) [of p] by (fastforce simp: unread_def filter_empty_conv)

lemma u64_succ_pred: "rp_inv p \<Longrightarrow> c \<in> set (rp_output p) \<Longrightarrow> u64_succ (rc_seq c) - 1 = rc_seq c"
proof -
  assume inv: "rp_inv p" and c: "c \<in> set (rp_output p)"
  then have "rc_seq c < u64_max"
    using rp_inv_output_seqs(2) [OF inv c] by (auto simp: rp_inv_def rp_seq_inv_def)
  then show ?thesis by (simp add: u64_succ_no_wrap)
qed

definition read_limit :: "read_params \<Rightarrow> nat" where
  "read_limit params = (case rd_max_bytes params of None \<Rightarrow> u64_max | Some n \<Rightarrow> n)"

lemma read_process_parts:
  "rr_chunks (read_process params p) =
     fst (collect_chunks (read_limit params) (unread (read_after params) p) 0 [] (rp_next_seq p))"
  "rr_next_seq (read_process params p) =
     (if rd_max_bytes params = None then rp_next_seq p
      else snd (collect_chunks (read_limit params) (unread (read_after params) p) 0 [] (rp_next_seq p)))"
  by (simp_all add: read_process_def read_limit_def read_after_def unread_def Let_def split: prod.split)

text \<open>One read: which chunks it returns and where the next read goes on.\<close>

lemma read_process_page:
  assumes inv: "rp_inv p"
  shows "\<exists>k. rr_chunks (read_process params p) = map to_output_chunk (take k (unread (read_after params) p))
     \<and> unread (rr_next_seq (read_process params p) - 1) p = drop k (unread (read_after params) p)
     \<and> (unread (read_after params) p \<noteq> [] \<longrightarrow> 0 < k)
     \<and> (chunk_bytes (take k (unread (read_after params) p)) \<le> read_limit params \<or> k = 1)"
proof (cases "unread (read_after params) p = []")
  case True
  then show ?thesis
    by (intro exI [of _ 0]) (auto simp: read_process_parts unread_past_end [OF inv])
next
  case False
  let ?rs = "unread (read_after params) p"
  obtain k where k: "0 < k" "k \<le> length ?rs"
    and eq: "collect_chunks (read_limit params) ?rs 0 [] (rp_next_seq p) =
          (map to_output_chunk (take k ?rs), u64_succ (rc_seq (?rs ! (k - 1))))"
    and bytes: "chunk_bytes (take k ?rs) \<le> read_limit params \<or> k = 1"
    and all: "chunk_bytes ?rs < read_limit params \<Longrightarrow> k = length ?rs"
    using collect_chunks_start [OF False] by metis
  let ?c = "?rs ! (k - 1)"
  have c_in: "?c \<in> set ?rs" using k by simp
  then have c: "?c \<in> set (rp_output p)" "rc_seq ?c > read_after params" by (auto simp: unread_def)
  have "unread (rr_next_seq (read_process params p) - 1) p = drop k ?rs"
  proof (cases "rd_max_bytes params")
    case None
    then have "k = length ?rs" using all unread_bytes [OF inv] by (simp add: read_limit_def)
    then show ?thesis using None unread_past_end [OF inv] by (simp add: read_process_parts)
  next
    case (Some m)
    then have "rr_next_seq (read_process params p) - 1 = rc_seq ?c"
      using u64_succ_pred [OF inv c(1)] by (simp add: read_process_parts eq)
    moreover have "unread (rc_seq ?c) p = drop k ?rs"
      unfolding unread_unread [OF less_imp_le [OF c(2)]]
      by (rule sorted_filter_after_nth [OF unread_sorted [OF inv] k])
    ultimately show ?thesis by simp
  qed
  with k bytes show ?thesis by (intro exI [of _ k]) (simp add: read_process_parts eq)
qed

text \<open>
  C26. One \<open>process/read\<close> of a running process loses and repeats nothing: the chunks it
  returns followed by the chunks still unread after its \<open>nextSeq\<close> are exactly the chunks
  that were unread before it; it makes progress whenever something was unread, and it
  respects \<open>maxBytes\<close> unless a single chunk is already larger.
\<close>

theorem read_is_lossless:
  assumes "rp_inv p"
  shows "map to_output_chunk (unread (read_after params) p) =
           rr_chunks (read_process params p)
           @ map to_output_chunk (unread (rr_next_seq (read_process params p) - 1) p)
         \<and> (unread (read_after params) p \<noteq> [] \<longrightarrow> rr_chunks (read_process params p) \<noteq> [])
         \<and> (sum_list (map (\<lambda>c. length (poc_chunk c)) (rr_chunks (read_process params p))) \<le> read_limit params
            \<or> length (rr_chunks (read_process params p)) = 1)"
proof -
  obtain k where c: "rr_chunks (read_process params p) = map to_output_chunk (take k (unread (read_after params) p))"
    and d: "unread (rr_next_seq (read_process params p) - 1) p = drop k (unread (read_after params) p)"
    and g: "unread (read_after params) p \<noteq> [] \<longrightarrow> 0 < k"
    and b: "chunk_bytes (take k (unread (read_after params) p)) \<le> read_limit params \<or> k = 1"
    using read_process_page [OF assms] by blast
  have "(\<lambda>c. length (poc_chunk c)) \<circ> to_output_chunk = (\<lambda>c. length (rc_chunk c))"
    by (auto simp: to_output_chunk_def)
  then have "sum_list (map (\<lambda>c. length (poc_chunk c)) (rr_chunks (read_process params p)))
      = chunk_bytes (take k (unread (read_after params) p))"
    by (simp add: c weight_sum_def)
  moreover have "length (rr_chunks (read_process params p)) = 1 \<or> rr_chunks (read_process params p) = []" if "k = 1"
    using that by (cases "unread (read_after params) p") (auto simp: c)
  ultimately have "sum_list (map (\<lambda>c. length (poc_chunk c)) (rr_chunks (read_process params p))) \<le> read_limit params
      \<or> length (rr_chunks (read_process params p)) = 1"
    using b by (auto simp: c)
  moreover have "map to_output_chunk (unread (read_after params) p) =
      rr_chunks (read_process params p) @ map to_output_chunk (unread (rr_next_seq (read_process params p) - 1) p)"
    unfolding c d by (metis append_take_drop_id map_append)
  ultimately show ?thesis using g c by simp
qed

text \<open>Successive reads, each continuing at the \<open>nextSeq\<close> of the one before.\<close>

fun read_pages :: "nat \<Rightarrow> read_params \<Rightarrow> running_process \<Rightarrow> read_response list" where
  "read_pages 0 params p = []"
| "read_pages (Suc n) params p =
     (let r = read_process params p
      in r # read_pages n (params\<lparr>rd_after_seq := Some (rr_next_seq r - 1)\<rparr>) p)"

lemma read_pages_all:
  "rp_inv p \<Longrightarrow> length (unread (read_after params) p) \<le> n \<Longrightarrow>
     concat (map rr_chunks (read_pages n params p)) =
       map to_output_chunk (unread (read_after params) p)"
proof (induction n arbitrary: params)
  case 0
  then show ?case by simp
next
  case (Suc n)
  let ?r = "read_process params p"
  let ?params = "params\<lparr>rd_after_seq := Some (rr_next_seq ?r - 1)\<rparr>"
  have after: "read_after ?params = rr_next_seq ?r - 1" by (simp add: read_after_def)
  obtain k where c: "rr_chunks ?r = map to_output_chunk (take k (unread (read_after params) p))"
    and d: "unread (rr_next_seq ?r - 1) p = drop k (unread (read_after params) p)"
    and g: "unread (read_after params) p \<noteq> [] \<longrightarrow> 0 < k"
    using read_process_page [OF Suc.prems(1)] by blast
  have u: "unread (read_after ?params) p = drop k (unread (read_after params) p)"
    by (simp only: after d)
  have "length (unread (read_after ?params) p) \<le> n"
    unfolding u using Suc.prems(2) g by (cases "unread (read_after params) p = []") auto
  from Suc.IH [OF Suc.prems(1) this]
  have "concat (map rr_chunks (read_pages (Suc n) params p)) =
      map to_output_chunk (take k (unread (read_after params) p))
      @ map to_output_chunk (drop k (unread (read_after params) p))"
    by (simp only: read_pages.simps Let_def list.map concat.simps c u)
  also have "\<dots> = map to_output_chunk (unread (read_after params) p)"
    by (metis append_take_drop_id map_append)
  finally show ?case .
qed

text \<open>
  C27. Paging terminates and is complete: whatever \<open>maxBytes\<close> is, as many reads as there are
  unread chunks return, concatenated, exactly the unread retained output in order.
\<close>

theorem read_pages_complete:
  assumes "rp_inv p" and "length (unread (read_after params) p) \<le> n"
  shows "concat (map rr_chunks (read_pages n params p)) =
           map to_output_chunk (unread (read_after params) p)"
  using assms by (rule read_pages_all)

theorem read_is_lossless_witness:
  "let p = push_output Stderr [4] (push_output Stdout [1, 2, 3] (new_running_process 0 0 False False NoSandbox));
       params = \<lparr>rd_process_id = ''p'', rd_after_seq = None, rd_max_bytes = Some 2, rd_wait_ms = None\<rparr>
   in map to_output_chunk (unread (read_after params) p) =
        rr_chunks (read_process params p)
        @ map to_output_chunk (unread (rr_next_seq (read_process params p) - 1) p)
      \<and> unread (read_after params) p \<noteq> []"
proof -
  let ?q = "new_running_process 0 0 False False NoSandbox"
  let ?r = "push_output Stdout [1, 2, 3] ?q"
  let ?p = "push_output Stderr [4] ?r"
  let ?params = "\<lparr>rd_process_id = ''p'', rd_after_seq = None, rd_max_bytes = Some 2, rd_wait_ms = None\<rparr>"
  have n: "rp_next_seq ?q = 1" by (simp add: new_running_process_def)
  have i0: "rp_inv ?q" by (rule rp_inv_new)
  have i1: "rp_inv ?r" by (rule push_output_inv [OF i0]) (simp add: n u64_max_def u64_modulus_def)
  have inv: "rp_inv ?p"
    by (rule push_output_inv [OF i1]) (simp add: n u64_succ_def u64_max_def u64_modulus_def)
  have "unread (read_after ?params) ?p \<noteq> []"
    by (simp add: unread_def read_after_def push_output_def new_running_process_def Let_def
        retained_output_bytes_per_process_def)
  with read_is_lossless [OF inv, of ?params] show ?thesis unfolding Let_def by blast
qed

theorem read_pages_complete_witness:
  "concat (map rr_chunks (read_pages 1
       \<lparr>rd_process_id = ''p'', rd_after_seq = None, rd_max_bytes = Some 0, rd_wait_ms = None\<rparr>
       (push_output Stdout [9] (new_running_process 0 0 False False NoSandbox)))) =
     [\<lparr>poc_seq = 1, poc_stream = Stdout, poc_chunk = [9]\<rparr>]"
proof -
  let ?q = "new_running_process 0 0 False False NoSandbox"
  let ?p = "push_output Stdout [9] ?q"
  let ?params = "\<lparr>rd_process_id = ''p'', rd_after_seq = None, rd_max_bytes = Some 0, rd_wait_ms = None\<rparr>"
  have n: "rp_next_seq ?q = 1" by (simp add: new_running_process_def)
  have inv: "rp_inv ?p"
    by (rule push_output_inv [OF rp_inv_new]) (simp add: n u64_max_def u64_modulus_def)
  have u: "unread (read_after ?params) ?p = [\<lparr>rc_seq = 1, rc_stream = Stdout, rc_chunk = [9]\<rparr>]"
    by (simp add: unread_def read_after_def push_output_def new_running_process_def Let_def
        retained_output_bytes_per_process_def)
  have "length (unread (read_after ?params) ?p) \<le> 1" by (simp add: u)
  from read_pages_complete [OF inv this] show ?thesis by (simp only: u) (simp add: to_output_chunk_def)
qed

end
