(* ===== verification/Process_Lifecycle.thy ===== *)
theory Process_Lifecycle
  imports Process_Output "HOL-Library.Multiset"
begin

text \<open>
  The life of the processes in the table, with all the tasks of
  \<^verbatim>\<open>crates/exec-server/src/local_process.rs\<close> interleaved: the tasks \<open>start_process\<close> spawns
  (two output streams and the exit watcher), the handlers that are between two of their
  locked sections, the notifications that were produced under the lock and are still to be
  sent, and the retention timers. A step runs one locked section of one task. Sending an
  in-flight notification may happen at any later time, in any order, which includes every
  order the runtime can produce.
\<close>

datatype 'sb task =
  StartTask "'sb exec_params" sandbox_type addr
| StreamTask process_id exec_output_stream
| ExitTask process_id
| CloseTask process_id
| SendTask exec_notification
| CleanupTask process_id

type_synonym 'sb lp_system = "local_process \<times> 'sb task multiset"

fun send_tasks :: "exec_notification option \<Rightarrow> 'sb task multiset" where
  "send_tasks None = {#}"
| "send_tasks (Some n) = {#SendTask n#}"

definition spawned_tasks :: "'sb exec_params \<Rightarrow> 'sb task multiset" where
  "spawned_tasks params =
     (let pid = ep_process_id params
      in {#StreamTask pid (if ep_tty params then Pty else Stdout),
           StreamTask pid (if ep_tty params then Pty else Stderr),
           ExitTask pid#})"

inductive lp_step :: "host_lib \<Rightarrow> 'sb lp_system \<Rightarrow> 'sb lp_system \<Rightarrow> bool" for h where
  begin_start: "start_reserve (ep_process_id params) lp = (Inr start, lp') \<Longrightarrow>
     lp_step h (lp, ts) (lp', ts + {#StartTask params sb start#})"
| finish_start: "start_finish params sb start spawned lp = (Inr pid, lp') \<Longrightarrow>
     lp_step h (lp, ts + {#StartTask params sb start#}) (lp', ts + spawned_tasks params)"
| abort_start: "start_finish params sb start spawned lp = (Inl e, lp') \<Longrightarrow>
     lp_step h (lp, ts + {#StartTask params sb start#}) (lp', ts)"
| drop_receiver: "lp_step h (lp, ts) (drop_start_receiver pid lp, ts)"
| stream_data: "stream_chunk pid st chunk lp = (n, lp') \<Longrightarrow>
     lp_step h (lp, ts + {#StreamTask pid st#}) (lp', ts + {#StreamTask pid st#} + send_tasks n)"
| stream_end: "lp_step h (lp, ts + {#StreamTask pid st#}) (dec_open_streams pid lp, ts + {#CloseTask pid#})"
| exited: "record_exit h pid code lp = (n, lp') \<Longrightarrow>
     lp_step h (lp, ts + {#ExitTask pid#}) (lp', ts + {#CloseTask pid#} + send_tasks n)"
| close: "close_if_ready pid lp = (n, lp') \<Longrightarrow>
     lp_step h (lp, ts + {#CloseTask pid#})
       (lp', ts + send_tasks n + (if n = None then {#} else {#CleanupTask pid#}))"
| cleanup: "lp_step h (lp, ts + {#CleanupTask pid#}) (cleanup_closed pid lp, ts)"
| send: "lp_step h (lp, ts + {#SendTask n#}) (notify n lp, ts)"
| write_stdin: "lp_step h (lp, ts) (write_commit sess a chunk i lp, ts)"
| send_signal: "lp_step h (lp, ts) (snd (signal_process os_signal pid sig lp), ts)"
| terminate_proc: "lp_step h (lp, ts) (snd (terminate_process pid lp), ts)"
| set_sender: "lp_step h (lp, ts) (lp_set_notification_sender c lp, ts)"

subsection \<open>Counting the tasks of a process\<close>

fun is_stream_task :: "process_id \<Rightarrow> 'sb task \<Rightarrow> bool" where
  "is_stream_task pid (StreamTask q _) = (q = pid)"
| "is_stream_task pid _ = False"

definition stream_tasks :: "process_id \<Rightarrow> 'sb task multiset \<Rightarrow> nat" where
  "stream_tasks pid ts = size (filter_mset (is_stream_task pid) ts)"

definition exit_tasks :: "process_id \<Rightarrow> 'sb task multiset \<Rightarrow> nat" where
  "exit_tasks pid ts = count ts (ExitTask pid)"

definition cleanup_tasks :: "process_id \<Rightarrow> 'sb task multiset \<Rightarrow> nat" where
  "cleanup_tasks pid ts = count ts (CleanupTask pid)"

lemmas task_count_defs = stream_tasks_def exit_tasks_def cleanup_tasks_def

lemma task_counts_union [simp]:
  "stream_tasks pid (ts + us) = stream_tasks pid ts + stream_tasks pid us"
  "exit_tasks pid (ts + us) = exit_tasks pid ts + exit_tasks pid us"
  "cleanup_tasks pid (ts + us) = cleanup_tasks pid ts + cleanup_tasks pid us"
  by (simp_all add: task_count_defs)

lemma task_counts_empty [simp]:
  "stream_tasks pid {#} = 0" "exit_tasks pid {#} = 0" "cleanup_tasks pid {#} = 0"
  by (simp_all add: task_count_defs)

lemma task_counts_add [simp]:
  "stream_tasks pid (add_mset t ts) = (if is_stream_task pid t then 1 else 0) + stream_tasks pid ts"
  "exit_tasks pid (add_mset t ts) = (if t = ExitTask pid then 1 else 0) + exit_tasks pid ts"
  "cleanup_tasks pid (add_mset t ts) = (if t = CleanupTask pid then 1 else 0) + cleanup_tasks pid ts"
  by (simp_all add: task_count_defs)

lemma task_counts_send [simp]:
  "stream_tasks pid (send_tasks n) = 0" "exit_tasks pid (send_tasks n) = 0"
  "cleanup_tasks pid (send_tasks n) = 0"
  by (cases n; simp)+

lemma task_counts_spawned [simp]:
  "stream_tasks pid (spawned_tasks params) = (if ep_process_id params = pid then 2 else 0)"
  "exit_tasks pid (spawned_tasks params) = (if ep_process_id params = pid then 1 else 0)"
  "cleanup_tasks pid (spawned_tasks params) = 0"
  by (simp_all add: spawned_tasks_def Let_def)

subsection \<open>The invariant\<close>

text \<open>The published events of a process: at most one exit, and a close only at the very end.\<close>

definition history_ok :: "running_process \<Rightarrow> bool" where
  "history_ok p \<longleftrightarrow>
     length (filter is_exited_event (el_sent (rp_events p))) = (if rp_exit_code p = None then 0 else 1)
     \<and> (if rp_closed p
        then (\<exists>pre s. el_sent (rp_events p) = pre @ [Closed s] \<and> filter is_closed_event pre = [])
        else filter is_closed_event (el_sent (rp_events p)) = [])
     \<and> (\<forall>s code. Exited s code \<in> set (el_sent (rp_events p)) \<longrightarrow> rp_exit_code p = Some code)"

fun entry_ok :: "process_id \<Rightarrow> process_entry option \<Rightarrow> 'sb task multiset \<Rightarrow> bool" where
  "entry_ok pid (Some (RunningEntry p)) ts \<longleftrightarrow>
     rp_inv p \<and> history_ok p
     \<and> stream_tasks pid ts = rp_open_streams p
     \<and> exit_tasks pid ts = (if rp_exit_code p = None then 1 else 0)
     \<and> cleanup_tasks pid ts = (if rp_closed p then 1 else 0)"
| "entry_ok pid _ ts \<longleftrightarrow>
     stream_tasks pid ts = 0 \<and> exit_tasks pid ts = 0 \<and> cleanup_tasks pid ts = 0"

definition lp_system_inv :: "'sb lp_system \<Rightarrow> bool" where
  "lp_system_inv s \<longleftrightarrow> (\<forall>pid. entry_ok pid (lp_entry pid (fst s)) (snd s))"

text \<open>The room every process has left before its sequence counter reaches its last value.\<close>

definition seq_room :: "nat \<Rightarrow> local_process \<Rightarrow> bool" where
  "seq_room k lp \<longleftrightarrow> (\<forall>pid p. lp_entry pid lp = Some (RunningEntry p) \<longrightarrow> rp_next_seq p + k \<le> u64_max)"

lemma seq_room_mono: "seq_room k lp \<Longrightarrow> j \<le> k \<Longrightarrow> seq_room j lp"
  unfolding seq_room_def by (meson add_left_mono order_trans)

lemma lp_entry_put [simp]:
  "lp_entry pid (put_process q p lp) = (if pid = q then Some (RunningEntry p) else lp_entry pid lp)"
  by (simp add: lp_entry_def put_process_def container_simps)

lemma lp_entry_remove [simp]:
  "lp_entry pid (remove_entry q lp) = (if pid = q then None else lp_entry pid lp)"
  by (simp add: lp_entry_def remove_entry_def container_simps)

lemma lp_entry_frame [simp]:
  "lp_entry pid (add_effects es lp) = lp_entry pid lp"
  "lp_entry pid (notify n lp) = lp_entry pid lp"
  "lp_entry pid (write_commit sess a chunk i lp) = lp_entry pid lp"
  "lp_entry pid (lp_set_notification_sender c lp) = lp_entry pid lp"
  "lp_entry pid (lp\<lparr>lp_write_ids := w\<rparr>) = lp_entry pid lp"
  "lp_entry pid (lp\<lparr>lp_next_addr := m\<rparr>) = lp_entry pid lp"
  by (simp_all add: lp_entry_def add_effects_def notify_def write_commit_def
      lp_set_notification_sender_def split: option.split)

lemma lp_entry_signal [simp]: "lp_entry pid (snd (signal_process os q sig lp)) = lp_entry pid lp"
  by (simp add: signal_process_def split: option.split process_entry.split)

subsection \<open>What each section does to the history\<close>

lemma history_new: "history_ok (new_running_process sess a tty pipe sb)"
  by (simp add: history_ok_def new_running_process_def)

lemma history_push: "history_ok p \<Longrightarrow> \<not> rp_closed p \<Longrightarrow> history_ok (push_output st chunk p)"
  by (auto simp: history_ok_def)

lemma history_exit:
  "history_ok p \<Longrightarrow> rp_exit_code p = None \<Longrightarrow> \<not> rp_closed p \<Longrightarrow> history_ok (set_exited h code p)"
  by (auto simp: history_ok_def)

lemma history_close: "history_ok p \<Longrightarrow> \<not> rp_closed p \<Longrightarrow> history_ok (set_closed p)"
  by (auto simp: history_ok_def)

lemma history_other:
  "history_ok p \<Longrightarrow> history_ok (p\<lparr>rp_open_streams := n\<rparr>)"
  "history_ok p \<Longrightarrow> history_ok (p\<lparr>rp_wake := w\<rparr>)"
  by (auto simp: history_ok_def)

lemmas history_steps = history_new history_push history_exit history_close history_other

lemma rp_inv_closed: "rp_inv p \<Longrightarrow> rp_closed p \<Longrightarrow> rp_exit_code p \<noteq> None \<and> rp_open_streams p = 0"
  by (auto simp: rp_inv_def rp_life_inv_def)

subsection \<open>Every step keeps the invariant\<close>

lemma entry_ok_cong:
  "stream_tasks pid ts = stream_tasks pid us \<Longrightarrow> exit_tasks pid ts = exit_tasks pid us \<Longrightarrow>
   cleanup_tasks pid ts = cleanup_tasks pid us \<Longrightarrow> entry_ok pid e ts = entry_ok pid e us"
  by (cases "(pid, e, ts)" rule: entry_ok.cases) auto

text \<open>A step concerns one process: the others keep their entry and their tasks.\<close>

definition same_elsewhere :: "process_id \<Rightarrow> 'sb lp_system \<Rightarrow> 'sb lp_system \<Rightarrow> bool" where
  "same_elsewhere q s t \<longleftrightarrow>
     (\<forall>pid. pid \<noteq> q \<longrightarrow>
        lp_entry pid (fst t) = lp_entry pid (fst s)
        \<and> stream_tasks pid (snd t) = stream_tasks pid (snd s)
        \<and> exit_tasks pid (snd t) = exit_tasks pid (snd s)
        \<and> cleanup_tasks pid (snd t) = cleanup_tasks pid (snd s))"

lemma system_inv_local:
  assumes "lp_system_inv s" and "same_elsewhere q s t" and "entry_ok q (lp_entry q (fst t)) (snd t)"
  shows "lp_system_inv t"
  unfolding lp_system_inv_def
proof
  fix pid
  show "entry_ok pid (lp_entry pid (fst t)) (snd t)"
  proof (cases "pid = q")
    case True
    with assms(3) show ?thesis by simp
  next
    case False
    then have "entry_ok pid (lp_entry pid (fst t)) (snd t) = entry_ok pid (lp_entry pid (fst s)) (snd s)"
      using assms(2) entry_ok_cong [of pid "snd t" "snd s"] by (simp add: same_elsewhere_def)
    with assms(1) show ?thesis by (simp add: lp_system_inv_def)
  qed
qed

lemma entry_ok_at: "lp_system_inv (lp, ts) \<Longrightarrow> entry_ok q (lp_entry q lp) ts"
  by (simp add: lp_system_inv_def)

lemma seq_roomD: "seq_room (Suc k) lp \<Longrightarrow> lp_entry q lp = Some (RunningEntry p) \<Longrightarrow> rp_next_seq p < u64_max"
  unfolding seq_room_def by fastforce

lemma step_begin_start:
  assumes "start_reserve q lp = (Inr start, lp')" and inv: "lp_system_inv (lp, ts)" and "ep_process_id params = q"
  shows "lp_system_inv (lp', ts + {#StartTask params sb start#})"
proof -
  from assms(1) have lp': "lp_entry pid lp' = (if pid = q then Some (StartingEntry start) else lp_entry pid lp)" for pid
    by (auto simp: start_reserve_def lp_entry_def container_simps split: if_splits)
  from assms(1) have "lp_entry q lp = None"
    by (auto simp: start_reserve_def hm_contains_def lp_entry_def split: if_splits)
  with entry_ok_at [OF inv, of q] have "entry_ok q (Some (StartingEntry start)) ts" by simp
  then show ?thesis
    by (intro system_inv_local [OF inv, of q]) (auto simp: same_elsewhere_def lp')
qed

lemma step_finish_start:
  assumes "start_finish params sb start spawned lp = (Inr pid, lp')"
    and inv: "lp_system_inv (lp, ts + {#StartTask params sb start#})"
  shows "lp_system_inv (lp', ts + spawned_tasks params)"
proof -
  let ?q = "ep_process_id params"
  from assms(1) obtain sess where st: "still_starting ?q start lp"
    and lp': "lp_entry r lp' = (if r = ?q then Some (RunningEntry (new_running_process sess (lp_next_addr lp)
         (ep_tty params) (ep_pipe_stdin params) sb)) else lp_entry r lp)" for r
    by (auto simp: start_finish_def Let_def split: sum.splits if_splits)
  from st have e: "lp_entry ?q lp = Some (StartingEntry start)" by (simp add: still_starting_def)
  let ?p = "new_running_process sess (lp_next_addr lp) (ep_tty params) (ep_pipe_stdin params) sb"
  have f: "rp_open_streams ?p = 2" "rp_exit_code ?p = None" "\<not> rp_closed ?p"
    by (simp_all add: new_running_process_def)
  have "entry_ok ?q (Some (RunningEntry ?p)) (ts + spawned_tasks params)"
    using entry_ok_at [OF inv, of ?q] by (simp add: e f rp_inv_new history_new)
  then show ?thesis
    by (intro system_inv_local [OF inv, of ?q]) (auto simp: same_elsewhere_def lp')
qed

lemma step_abort_start:
  assumes "start_finish params sb start spawned lp = (Inl e, lp')"
    and inv: "lp_system_inv (lp, ts + {#StartTask params sb start#})"
  shows "lp_system_inv (lp', ts)"
proof -
  let ?q = "ep_process_id params"
  from assms(1) have lp': "lp_entry r lp' = lp_entry r lp \<or>
      r = ?q \<and> lp_entry r lp = Some (StartingEntry start) \<and> lp_entry r lp' = None" for r
    by (auto simp: start_finish_def Let_def still_starting_def split: sum.splits if_splits)
  have "entry_ok ?q (lp_entry ?q lp') ts"
    using entry_ok_at [OF inv, of ?q] lp' [of ?q]
      entry_ok_cong [of ?q ts "ts + {#StartTask params sb start#}" "lp_entry ?q lp"]
    by auto
  then show ?thesis
    using lp' by (intro system_inv_local [OF inv, of ?q]) (auto simp: same_elsewhere_def)
qed

lemma step_drop_receiver:
  assumes inv: "lp_system_inv (lp, ts)"
  shows "lp_system_inv (drop_start_receiver q lp, ts)"
proof (rule system_inv_local [OF inv, of q])
  show "same_elsewhere q (lp, ts) (drop_start_receiver q lp, ts)"
    by (simp add: same_elsewhere_def drop_start_receiver_def split: option.split process_entry.split)
  show "entry_ok q (lp_entry q (fst (drop_start_receiver q lp, ts))) (snd (drop_start_receiver q lp, ts))"
    using entry_ok_at [OF inv, of q]
    by (auto simp: drop_start_receiver_def wake_inv history_other split: option.split process_entry.split)
qed

lemma step_stream_data:
  assumes "stream_chunk q st chunk lp = (n, lp')" and room: "seq_room (Suc k) lp"
    and inv: "lp_system_inv (lp, ts + {#StreamTask q st#})"
  shows "lp_system_inv (lp', ts + {#StreamTask q st#} + send_tasks n)"
proof (rule system_inv_local [OF inv, of q])
  show "same_elsewhere q (lp, ts + {#StreamTask q st#}) (lp', ts + {#StreamTask q st#} + send_tasks n)"
    using assms(1) by (auto simp: same_elsewhere_def stream_chunk_def split: option.splits process_entry.splits)
  have ok: "entry_ok q (lp_entry q lp) (ts + {#StreamTask q st#})" by (rule entry_ok_at [OF inv])
  have "entry_ok q (lp_entry q lp') (ts + {#StreamTask q st#} + send_tasks n)"
  proof (cases "lp_entry q lp")
    case (Some e)
    show ?thesis
    proof (cases e)
      case (RunningEntry p)
      with ok Some have p: "rp_inv p" "history_ok p" "0 < rp_open_streams p" by auto
      then have "\<not> rp_closed p" using rp_inv_closed by fastforce
      moreover have "rp_next_seq p < u64_max" using seq_roomD [OF room] Some RunningEntry by simp
      ultimately show ?thesis
        using ok assms(1) Some RunningEntry p
        by (auto simp: stream_chunk_def push_output_inv history_push)
    next
      case (StartingEntry a)
      with ok Some show ?thesis by simp
    qed
  next
    case None
    with ok show ?thesis by simp
  qed
  then show "entry_ok q (lp_entry q (fst (lp', ts + {#StreamTask q st#} + send_tasks n)))
      (snd (lp', ts + {#StreamTask q st#} + send_tasks n))" by simp
qed

lemma step_stream_end:
  assumes inv: "lp_system_inv (lp, ts + {#StreamTask q st#})"
  shows "lp_system_inv (dec_open_streams q lp, ts + {#CloseTask q#})"
proof (rule system_inv_local [OF inv, of q])
  show "same_elsewhere q (lp, ts + {#StreamTask q st#}) (dec_open_streams q lp, ts + {#CloseTask q#})"
    by (simp add: same_elsewhere_def dec_open_streams_def split: option.split process_entry.split)
  show "entry_ok q (lp_entry q (fst (dec_open_streams q lp, ts + {#CloseTask q#})))
      (snd (dec_open_streams q lp, ts + {#CloseTask q#}))"
    using entry_ok_at [OF inv, of q] dec_streams_inv
    by (fastforce simp: dec_open_streams_def history_other split: option.split process_entry.split)
qed

lemma step_exited:
  assumes "record_exit h q code lp = (n, lp')" and room: "seq_room (Suc k) lp"
    and inv: "lp_system_inv (lp, ts + {#ExitTask q#})"
  shows "lp_system_inv (lp', ts + {#CloseTask q#} + send_tasks n)"
proof (rule system_inv_local [OF inv, of q])
  show "same_elsewhere q (lp, ts + {#ExitTask q#}) (lp', ts + {#CloseTask q#} + send_tasks n)"
    using assms(1) by (auto simp: same_elsewhere_def record_exit_def split: option.splits process_entry.splits)
  have ok: "entry_ok q (lp_entry q lp) (ts + {#ExitTask q#})" by (rule entry_ok_at [OF inv])
  then obtain p where p: "lp_entry q lp = Some (RunningEntry p)"
    by (cases "(q, lp_entry q lp, ts)" rule: entry_ok.cases) auto
  with ok have i: "rp_inv p" "history_ok p" "rp_exit_code p = None" by (auto split: if_splits)
  then have "\<not> rp_closed p" using rp_inv_closed by blast
  moreover have "rp_next_seq p < u64_max" using seq_roomD [OF room p] .
  ultimately show "entry_ok q (lp_entry q (fst (lp', ts + {#CloseTask q#} + send_tasks n)))
      (snd (lp', ts + {#CloseTask q#} + send_tasks n))"
    using ok assms(1) p i by (auto simp: record_exit_def set_exited_inv history_exit)
qed

lemma step_close:
  assumes "close_if_ready q lp = (n, lp')" and room: "seq_room (Suc k) lp"
    and inv: "lp_system_inv (lp, ts + {#CloseTask q#})"
  shows "lp_system_inv (lp', ts + send_tasks n + (if n = None then {#} else {#CleanupTask q#}))"
proof (rule system_inv_local [OF inv, of q])
  let ?t = "(lp', ts + send_tasks n + (if n = None then {#} else {#CleanupTask q#}))"
  show "same_elsewhere q (lp, ts + {#CloseTask q#}) ?t"
    using assms(1) by (auto simp: same_elsewhere_def close_if_ready_def split: option.splits process_entry.splits if_splits)
  have ok: "entry_ok q (lp_entry q lp) (ts + {#CloseTask q#})" by (rule entry_ok_at [OF inv])
  show "entry_ok q (lp_entry q (fst ?t)) (snd ?t)"
  proof (cases "\<exists>p. lp_entry q lp = Some (RunningEntry p) \<and> ready_to_close p")
    case True
    then obtain p where p: "lp_entry q lp = Some (RunningEntry p)" "ready_to_close p" by blast
    then have "rp_next_seq p < u64_max" using seq_roomD [OF room] by blast
    moreover have "\<not> rp_closed p" using p by (simp add: ready_to_close_def)
    ultimately show ?thesis
      using ok assms(1) p by (auto simp: close_if_ready_def set_closed_inv history_close)
  next
    case False
    then have "n = None" "lp' = lp"
      using assms(1) by (auto simp: close_if_ready_def split: option.splits process_entry.splits if_splits)
    with ok entry_ok_cong [of q ts "ts + {#CloseTask q#}" "lp_entry q lp"] show ?thesis by simp
  qed
qed

lemma step_cleanup:
  assumes inv: "lp_system_inv (lp, ts + {#CleanupTask q#})"
  shows "lp_system_inv (cleanup_closed q lp, ts)"
proof (rule system_inv_local [OF inv, of q])
  show "same_elsewhere q (lp, ts + {#CleanupTask q#}) (cleanup_closed q lp, ts)"
    by (auto simp: same_elsewhere_def cleanup_closed_def split: option.split process_entry.split)
  have ok: "entry_ok q (lp_entry q lp) (ts + {#CleanupTask q#})" by (rule entry_ok_at [OF inv])
  then obtain p where p: "lp_entry q lp = Some (RunningEntry p)"
    by (cases "(q, lp_entry q lp, ts)" rule: entry_ok.cases) auto
  with ok have c: "rp_closed p" "rp_inv p" by (auto split: if_splits)
  with ok p rp_inv_closed [OF c(2,1)]
  show "entry_ok q (lp_entry q (fst (cleanup_closed q lp, ts))) (snd (cleanup_closed q lp, ts))"
    by (auto simp: cleanup_closed_def)
qed

lemma step_terminate:
  assumes inv: "lp_system_inv (lp, ts)"
  shows "lp_system_inv (snd (terminate_process q lp), ts)"
proof (rule system_inv_local [OF inv, of q])
  show "same_elsewhere q (lp, ts) (snd (terminate_process q lp), ts)"
    by (auto simp: same_elsewhere_def terminate_process_def split: option.split process_entry.split)
  show "entry_ok q (lp_entry q (fst (snd (terminate_process q lp), ts))) (snd (snd (terminate_process q lp), ts))"
    using entry_ok_at [OF inv, of q] by (auto simp: terminate_process_def split: option.split process_entry.split)
qed

lemma system_inv_same_entries:
  assumes inv: "lp_system_inv (lp, ts)" and "\<And>pid. lp_entry pid lp' = lp_entry pid lp"
    and "\<And>pid. stream_tasks pid us = stream_tasks pid ts" "\<And>pid. exit_tasks pid us = exit_tasks pid ts"
      "\<And>pid. cleanup_tasks pid us = cleanup_tasks pid ts"
  shows "lp_system_inv (lp', us)"
  using inv assms(2) entry_ok_cong [OF assms(3,4,5)] by (simp add: lp_system_inv_def)

lemma lp_step_inv:
  assumes "lp_step h s t" and "lp_system_inv s" and "seq_room (Suc k) (fst s)"
  shows "lp_system_inv t"
  using assms
proof (induction rule: lp_step.induct)
  case (begin_start params lp start lp' ts sb)
  then show ?case using step_begin_start [OF begin_start(1) _ refl] by simp
next
  case (finish_start params sb start spawned lp pid lp' ts)
  then show ?case using step_finish_start by blast
next
  case (abort_start params sb start spawned lp e lp' ts)
  then show ?case using step_abort_start by blast
next
  case (drop_receiver lp ts pid)
  then show ?case using step_drop_receiver by blast
next
  case (stream_data pid st chunk lp n lp' ts)
  then show ?case using step_stream_data by simp
next
  case (stream_end lp ts pid st)
  then show ?case using step_stream_end by blast
next
  case (exited pid code lp n lp' ts)
  then show ?case using step_exited by simp
next
  case (close pid lp n lp' ts)
  from close(3) have "seq_room (Suc k) lp" by simp
  from step_close [OF close(1) this close(2)] show ?case .
next
  case (cleanup lp ts pid)
  then show ?case using step_cleanup by blast
next
  case (send lp ts n)
  from send(1) show ?case by (rule system_inv_same_entries) simp_all
next
  case (write_stdin lp ts sess a chunk i)
  from write_stdin(1) show ?case by (rule system_inv_same_entries) simp_all
next
  case (send_signal lp ts os_signal pid sig)
  from send_signal(1) show ?case by (rule system_inv_same_entries) simp_all
next
  case (terminate_proc lp ts pid)
  then show ?case using step_terminate by blast
next
  case (set_sender lp ts c)
  from set_sender(1) show ?case by (rule system_inv_same_entries) simp_all
qed

text \<open>Each step uses up at most one sequence number of a process.\<close>

lemma u64_succ_room: "n + Suc k \<le> u64_max \<Longrightarrow> u64_succ n + k \<le> u64_max"
  by (simp add: u64_succ_no_wrap)

lemma seq_roomI: "seq_room k lp \<Longrightarrow> lp_entry q lp = Some (RunningEntry p) \<Longrightarrow> rp_next_seq p + k \<le> u64_max"
  by (simp add: seq_room_def)

lemma seq_room_same:
  assumes "seq_room (Suc k) lp"
    and "\<And>pid p. lp_entry pid lp' = Some (RunningEntry p) \<Longrightarrow>
          lp_entry pid lp = Some (RunningEntry p) \<or> rp_next_seq p + k \<le> u64_max"
  shows "seq_room k lp'"
  unfolding seq_room_def
proof (intro allI impI)
  fix pid p
  assume "lp_entry pid lp' = Some (RunningEntry p)"
  from assms(2) [OF this] show "rp_next_seq p + k \<le> u64_max"
    using seq_roomI [OF assms(1), of pid p] by auto
qed

lemma seq_room_put:
  assumes "seq_room (Suc k) lp" and "rp_next_seq p + k \<le> u64_max"
  shows "seq_room k (put_process q p lp)"
  by (rule seq_room_same [OF assms(1)]) (use assms(2) in \<open>auto split: if_splits\<close>)

lemma lp_step_room:
  assumes "lp_step h s t" and "seq_room (Suc k) (fst s)" and "Suc k < u64_max"
  shows "seq_room k (fst t)"
  using assms(1,2)
proof (induction rule: lp_step.induct)
  case (begin_start params lp start lp' ts sb)
  then show ?case
    by (auto simp: start_reserve_def lp_entry_def container_simps split: if_splits intro!: seq_room_same [of k lp])
next
  case (finish_start params sb start spawned lp pid lp' ts)
  then show ?case using assms(3)
    by (auto simp: start_finish_def new_running_process_def Let_def split: sum.splits if_splits intro!: seq_room_same [of k lp])
next
  case (abort_start params sb start spawned lp e lp' ts)
  then show ?case
    by (auto simp: start_finish_def Let_def split: sum.splits if_splits intro!: seq_room_same [of k lp])
next
  case (drop_receiver lp ts pid)
  then show ?case using seq_roomI [of "Suc k" lp pid]
    by (fastforce simp: drop_start_receiver_def split: option.splits process_entry.splits if_splits intro!: seq_room_same [of k lp])
next
  case (stream_data pid st chunk lp n lp' ts)
  then show ?case
    by (auto simp: stream_chunk_def split: option.splits process_entry.splits
        intro!: seq_room_same [of k lp] seq_room_put u64_succ_room dest: seq_roomI)
next
  case (stream_end lp ts pid st)
  then show ?case using seq_roomI [of "Suc k" lp pid]
    by (fastforce simp: dec_open_streams_def split: option.splits process_entry.splits if_splits intro!: seq_room_same [of k lp])
next
  case (exited pid code lp n lp' ts)
  then show ?case
    by (auto simp: record_exit_def split: option.splits process_entry.splits
        intro!: seq_room_same [of k lp] seq_room_put u64_succ_room dest: seq_roomI)
next
  case (close pid lp n lp' ts)
  then show ?case
    by (auto simp: close_if_ready_def split: option.splits process_entry.splits if_splits
        intro!: seq_room_same [of k lp] seq_room_put u64_succ_room dest: seq_roomI)
next
  case (cleanup lp ts pid)
  then show ?case
    by (auto simp: cleanup_closed_def split: option.splits process_entry.splits if_splits intro!: seq_room_same [of k lp])
next
  case (terminate_proc lp ts pid)
  then show ?case
    by (auto simp: terminate_process_def split: option.splits process_entry.splits if_splits intro!: seq_room_same [of k lp])
qed (auto intro!: seq_room_same [of k])

subsection \<open>Reachable tables\<close>

text \<open>
  Runs with a budget of steps: the sequence counters are 64-bit, so the invariant is shown
  for every run of fewer than \<open>u64_max\<close> steps.
\<close>

inductive budget_step :: "host_lib \<Rightarrow> nat \<times> 'sb lp_system \<Rightarrow> nat \<times> 'sb lp_system \<Rightarrow> bool" for h where
  "lp_step h s t \<Longrightarrow> budget_step h (Suc k, s) (k, t)"

inductive_simps budget_step_iff: "budget_step h (m, s) (k, t)"

definition lp_initial :: "nat \<times> 'sb lp_system \<Rightarrow> bool" where
  "lp_initial ks \<longleftrightarrow> fst ks < u64_max \<and> (\<exists>c. snd ks = (local_process_new c, {#}))"

definition budget_inv :: "nat \<times> 'sb lp_system \<Rightarrow> bool" where
  "budget_inv ks \<longleftrightarrow> lp_system_inv (snd ks) \<and> seq_room (fst ks) (fst (snd ks)) \<and> fst ks < u64_max"

lemma lp_entry_new [simp]: "lp_entry pid (local_process_new c) = None"
  by (simp add: lp_entry_def local_process_new_def)

interpretation process_table: transition_invariant lp_initial "budget_step h" budget_inv for h
proof
  fix s :: "nat \<times> 'sb lp_system"
  assume "lp_initial s"
  then show "budget_inv s"
    by (auto simp: lp_initial_def budget_inv_def lp_system_inv_def seq_room_def)
next
  fix s t :: "nat \<times> 'sb lp_system"
  assume "budget_step h s t" and "budget_inv s"
  then show "budget_inv t"
    by (cases rule: budget_step.cases) (auto simp: budget_inv_def intro: lp_step_inv lp_step_room)
qed

lemma budget_run: "(lp_step h ^^ n) s t \<Longrightarrow> (budget_step h)\<^sup>*\<^sup>* (n + k, s) (k, t)"
proof (induction n arbitrary: t k)
  case 0
  then show ?case by simp
next
  case (Suc n)
  then obtain u where "(lp_step h ^^ n) s u" and u: "lp_step h u t" by auto
  with Suc.IH [of u "Suc k"] have "(budget_step h)\<^sup>*\<^sup>* (Suc n + k, s) (Suc k, u)" by simp
  moreover have "budget_step h (Suc k, u) (k, t)" using u by (rule budget_step.intros)
  ultimately show ?case by (rule rtranclp.rtrancl_into_rtrancl)
qed

lemma reachable_system_inv:
  assumes "(lp_step h ^^ n) (local_process_new c, {#}) s" and "n < u64_max"
  shows "lp_system_inv s"
proof -
  have "(budget_step h)\<^sup>*\<^sup>* (n + 0, (local_process_new c, {#})) (0, s)"
    using assms(1) by (rule budget_run)
  moreover have "lp_initial (n + 0, (local_process_new c, {#}))"
    using assms(2) by (auto simp: lp_initial_def)
  ultimately have "reachable_from lp_initial (budget_step h) (0, s)"
    unfolding reachable_from_def by blast
  then have "budget_inv (0, s)" by (rule process_table.inv_reachable)
  then show ?thesis by (simp add: budget_inv_def)
qed

lemma history_closed:
  assumes "history_ok p" and "rp_inv p" and "rp_closed p"
  shows "\<exists>pre s. el_sent (rp_events p) = pre @ [Closed s] \<and> filter is_closed_event pre = []
           \<and> length (filter is_exited_event pre) = 1"
proof -
  obtain pre s where e: "el_sent (rp_events p) = pre @ [Closed s]" and "filter is_closed_event pre = []"
    using assms by (auto simp: history_ok_def)
  moreover have "length (filter is_exited_event pre) = 1"
    using assms(1) rp_inv_closed [OF assms(2,3)] by (simp add: history_ok_def e)
  ultimately show ?thesis by blast
qed

text \<open>
  C4. In every interleaving of the executor's tasks (of fewer than \<open>u64_max\<close> steps) a
  process's published events are numbered 1, 2, 3, ... without a gap, at most one of them is
  an exit, and once the process is closed the last event is its only \<open>Closed\<close>, exactly one
  \<open>Exited\<close> came before, and no task is left that could publish another. Its retained output
  is the tail of what it has written, within the byte budget.
\<close>

theorem reachable_process_history:
  assumes "(lp_step h ^^ n) (local_process_new c, {#}) (lp, ts)" and "n < u64_max"
    and "lp_entry pid lp = Some (RunningEntry p)"
  shows "map event_seq (el_sent (rp_events p)) = map Some [1..<rp_next_seq p]
    \<and> length (filter is_exited_event (el_sent (rp_events p))) \<le> 1
    \<and> (rp_closed p \<longrightarrow>
         (\<exists>pre s. el_sent (rp_events p) = pre @ [Closed s] \<and> filter is_closed_event pre = []
            \<and> length (filter is_exited_event pre) = 1)
         \<and> stream_tasks pid ts = 0 \<and> exit_tasks pid ts = 0)
    \<and> suffix (map to_output_chunk (rp_output p)) (output_chunks (el_sent (rp_events p)))
    \<and> weight_sum (\<lambda>c. length (rc_chunk c)) (rp_output p) \<le> retained_output_bytes_per_process"
proof -
  have "entry_ok pid (Some (RunningEntry p)) ts"
    using entry_ok_at [OF reachable_system_inv [OF assms(1,2)], of pid] assms(3) by simp
  then have inv: "rp_inv p" and hist: "history_ok p"
    and tasks: "stream_tasks pid ts = rp_open_streams p" "exit_tasks pid ts = (if rp_exit_code p = None then 1 else 0)"
    by simp_all
  have "rp_closed p \<longrightarrow> stream_tasks pid ts = 0 \<and> exit_tasks pid ts = 0"
    using tasks rp_inv_closed [OF inv] by auto
  moreover have "length (filter is_exited_event (el_sent (rp_events p))) \<le> 1"
    using hist by (simp add: history_ok_def)
  moreover have "map event_seq (el_sent (rp_events p)) = map Some [1..<rp_next_seq p]"
    using inv by (simp add: rp_inv_def rp_seq_inv_def)
  moreover have "suffix (map to_output_chunk (rp_output p)) (output_chunks (el_sent (rp_events p)))"
    and "weight_sum (\<lambda>c. length (rc_chunk c)) (rp_output p) \<le> retained_output_bytes_per_process"
    using inv by (simp_all add: rp_inv_def rp_output_inv_def)
  ultimately show ?thesis using history_closed [OF hist inv] by blast
qed

definition example_params :: "unit exec_params" where
  "example_params =
     \<lparr>ep_process_id = ''p'', ep_argv = [''true''], ep_cwd = ''/'', ep_env_policy = None, ep_env = [],
      ep_tty = False, ep_pipe_stdin = False, ep_arg0 = None, ep_sandbox = None,
      ep_enforce_managed_network = False\<rparr>"

definition example_host :: host_lib where
  "example_host = \<lparr>hl_os = Linux, hl_from_utf8_lossy = (\<lambda>_. []), hl_to_lowercase = id, hl_sigsys = 31\<rparr>"

definition example_started :: local_process where
  "example_started = snd (start_reserve ''p'' (local_process_new None))"

definition example_running :: local_process where
  "example_running = snd (start_finish example_params NoSandbox 0 (Inr 5) example_started)"

lemma example_still_starting: "still_starting ''p'' 0 example_started"
  by (simp add: example_started_def start_reserve_def still_starting_def lp_entry_def local_process_new_def
      container_simps hm_contains_def)

lemma example_entry:
  "lp_entry ''p'' example_running =
     Some (RunningEntry (new_running_process 5 (lp_next_addr example_started) False False NoSandbox))"
  using example_still_starting
  by (simp add: example_running_def start_finish_def Let_def example_params_def)

lemma example_run:
  "(lp_step example_host ^^ 2) (local_process_new None, {#}) (example_running, spawned_tasks example_params)"
proof -
  have 1: "start_reserve (ep_process_id example_params) (local_process_new None) = (Inr 0, example_started)"
    by (simp add: example_started_def start_reserve_def hm_contains_def local_process_new_def example_params_def)
  have 2: "start_finish example_params NoSandbox 0 (Inr 5) example_started = (Inr ''p'', example_running)"
    using example_still_starting
    by (simp add: example_running_def start_finish_def Let_def example_params_def)
  have "lp_step example_host (local_process_new None, {#})
      (example_started, {#} + {#StartTask example_params NoSandbox 0#})"
    using 1 by (rule lp_step.begin_start)
  moreover have "lp_step example_host (example_started, {#} + {#StartTask example_params NoSandbox 0#})
      (example_running, {#} + spawned_tasks example_params)"
    using 2 by (rule lp_step.finish_start)
  ultimately show ?thesis by (auto simp: numeral_2_eq_2)
qed

theorem reachable_process_history_witness:
  "\<exists>lp ts p. (lp_step example_host ^^ 2) (local_process_new None, {#} :: unit task multiset) (lp, ts)
     \<and> lp_entry ''p'' lp = Some (RunningEntry p)
     \<and> map event_seq (el_sent (rp_events p)) = map Some [1..<rp_next_seq p]"
proof -
  have "(2::nat) < u64_max" by (simp add: u64_max_def u64_modulus_def)
  from reachable_process_history [OF example_run this example_entry] example_run example_entry
  show ?thesis by blast
qed

subsection \<open>Starting, reading, shutting down\<close>

text \<open>
  A spawned session is never lost. Whatever the other tasks do to the table while the
  process is being spawned (they may terminate the reservation, or even reuse the id), once
  the spawn has succeeded \<open>start_process\<close> either registers exactly that session under the
  requested id, or answers with an error and terminates the session.
\<close>

theorem start_process_owns_session:
  assumes "prepare params env = Inr prepared" and "pr_command prepared = program # args"
    and "lp_entry (ep_process_id params) lp = None"
    and "spawn (spawn_kind_of params) program args (pr_cwd prepared) (pr_env prepared) (pr_arg0 prepared) = Inr sess"
    and "start_process prepare spawn others env params lp = (answer, lp')"
  shows "answer = Inr (ep_process_id params)
           \<and> (\<exists>p. lp_entry (ep_process_id params) lp' = Some (RunningEntry p) \<and> rp_session p = sess)
         \<or> (\<exists>e. answer = Inl e) \<and> last (lp_effects lp') = SessionTerminate sess"
proof -
  let ?pid = "ep_process_id params"
  have free: "\<not> hm_contains ?pid (lp_processes lp)"
    using assms(3) by (simp add: hm_contains_def lp_entry_def)
  obtain lp1 where r: "start_reserve ?pid lp = (Inr (lp_next_addr lp), lp1)"
    using free by (simp add: start_reserve_def)
  show ?thesis
  proof (cases "still_starting ?pid (lp_next_addr lp) (others lp1)")
    case True
    then show ?thesis
      using assms r
      by (auto simp: start_process_def start_finish_def drop_start_receiver_def new_running_process_def Let_def)
  next
    case False
    then show ?thesis
      using assms r by (auto simp: start_process_def start_finish_def Let_def add_effects_def)
  qed
qed

definition example_prepared :: prepared_exec_request where
  "example_prepared =
     \<lparr>pr_command = [''true''], pr_cwd = ''/'', pr_env = [], pr_arg0 = None, pr_sandbox = NoSandbox\<rparr>"

theorem start_process_owns_session_witness:
  "last (lp_effects (snd (start_process (\<lambda>_ _. Inr example_prepared) (\<lambda>_ _ _ _ _ _. Inr 5)
      (remove_entry ''p'') [] example_params (local_process_new None)))) = SessionTerminate 5"
proof -
  let ?r = "start_process (\<lambda>_ _. Inr example_prepared) (\<lambda>_ _ _ _ _ _. Inr 5)
      (remove_entry ''p'') [] example_params (local_process_new None)"
  have none: "lp_entry (ep_process_id example_params) (snd ?r) = None"
    by (simp add: start_process_def start_reserve_def start_finish_def still_starting_def hm_contains_def
        example_prepared_def example_params_def local_process_new_def Let_def)
  have "?r = (fst ?r, snd ?r)" by simp
  from start_process_owns_session [OF _ _ _ _ this, of example_prepared "''true''" "[]" 5] none
  show ?thesis by (auto simp: example_prepared_def example_params_def)
qed

text \<open>
  The long poll of \<open>process/read\<close> always answers: as soon as one of the observations its
  loop makes is at or after the deadline (both clock readings), it has returned, and what it
  returned is the answer for one of the tables it observed.
\<close>

theorem exec_read_answers:
  assumes "(lp, t1, t2) \<in> set obs"
    and "t1 \<ge> start_time + (case rd_wait_ms params of None \<Rightarrow> 0 | Some w \<Rightarrow> w)"
  shows "\<exists>r. exec_read params start_time obs = Some r
           \<and> (\<exists>lp' now1 now2. (lp', now1, now2) \<in> set obs \<and> r = read_once params lp')"
proof -
  define deadline where "deadline = start_time + (case rd_wait_ms params of None \<Rightarrow> 0 | Some w \<Rightarrow> w)"
  have "\<exists>r. exec_read_loop params deadline obs = Some r
      \<and> (\<exists>lp' now1 now2. (lp', now1, now2) \<in> set obs \<and> r = read_once params lp')"
    using assms unfolding deadline_def [symmetric]
  proof (induction obs)
    case Nil
    then show ?case by simp
  next
    case (Cons ob obs)
    obtain lp0 now1 now2 where ob: "ob = (lp0, now1, now2)" by (cases ob) auto
    show ?case
    proof (cases "\<exists>r. exec_read_loop params deadline (ob # obs) = Some r \<and> r = read_once params lp0")
      case True
      then show ?thesis by (auto simp: ob)
    next
      case False
      then have go: "exec_read_loop params deadline (ob # obs) = exec_read_loop params deadline obs" and "now1 < deadline"
        by (auto simp: ob split: sum.splits if_splits)
      then have "(lp, t1, t2) \<in> set obs" using Cons.prems ob by auto
      from Cons.IH [OF this Cons.prems(2)] go show ?thesis by auto
    qed
  qed
  then show ?thesis by (simp add: exec_read_def deadline_def)
qed

theorem exec_read_answers_witness:
  "\<exists>r. exec_read \<lparr>rd_process_id = ''p'', rd_after_seq = None, rd_max_bytes = None, rd_wait_ms = Some 5\<rparr> 10
         [(put_process ''p'' (new_running_process 5 0 False False NoSandbox) (local_process_new None), 11, 12),
          (put_process ''p'' (new_running_process 5 0 False False NoSandbox) (local_process_new None), 15, 15)]
       = Some r"
  using exec_read_answers [of "put_process ''p'' (new_running_process 5 0 False False NoSandbox) (local_process_new None)"
      15 15 "[(put_process ''p'' (new_running_process 5 0 False False NoSandbox) (local_process_new None), 11, 12),
          (put_process ''p'' (new_running_process 5 0 False False NoSandbox) (local_process_new None), 15, 15)]"
      10 "\<lparr>rd_process_id = ''p'', rd_after_seq = None, rd_max_bytes = None, rd_wait_ms = Some 5\<rparr>"]
  by auto

lemma lp_shutdown_entries [simp]: "lp_entry pid (lp_shutdown lp) = None"
  by (simp add: lp_shutdown_def lp_entry_def add_effects_def)

lemma lp_shutdown_effects:
  "lp_effects (lp_shutdown lp) =
     lp_effects lp @ map SessionTerminate (List.map_filter running_session (lp_processes lp))"
  by (simp add: lp_shutdown_def add_effects_def)

lemma lp_shutdown_terminates:
  assumes "lp_entry pid lp = Some (RunningEntry p)"
  shows "SessionTerminate (rp_session p) \<in> set (lp_effects (lp_shutdown lp))"
proof -
  have "(pid, RunningEntry p) \<in> set (lp_processes lp)"
    using assms by (auto simp: lp_entry_def dest: map_of_SomeD)
  then show ?thesis by (force simp: lp_shutdown_effects List.map_filter_def)
qed

end
