(* ===== verification/Client_Session.thy ===== *)
theory Client_Session
  imports Event_Log
begin

text \<open>
  The client's view of one remote process: \<^verbatim>\<open>SessionState\<close> of
  \<^verbatim>\<open>crates/exec-server/src/client.rs\<close>, which puts the events of the process back into the order
  of their sequence numbers, and \<^verbatim>\<open>recover_events\<close> of
  \<^verbatim>\<open>crates/exec-server/src/client_recovery.rs\<close>, which fills the gaps of a lost connection from
  a read of the retained output.
\<close>

definition client_event_channel_capacity :: nat where
  "client_event_channel_capacity = 256"

definition client_event_retained_bytes :: nat where
  "client_event_retained_bytes = 1024 * 1024"

record ordered_session_events =
  oe_last_published_seq :: nat
  oe_exit_published :: bool
  oe_closed_published :: bool
  oe_pending :: "(nat, exec_process_event) btree_map"
  oe_failure :: "string option"

definition ordered_events_default :: ordered_session_events where
  "ordered_events_default =
     \<lparr>oe_last_published_seq = 0, oe_exit_published = False, oe_closed_published = False,
      oe_pending = [], oe_failure = None\<rparr>"

record session_state =
  ss_wake :: "nat watch"
  ss_events :: exec_process_event_log
  ss_ordered :: ordered_session_events
  ss_recoverable :: bool
  ss_next_write_id :: nat

definition session_state_new :: "bool \<Rightarrow> session_state" where
  "session_state_new recoverable =
     \<lparr>ss_wake = \<lparr>w_value = 0, w_receivers = 0\<rparr>,
      ss_events = event_log_new client_event_channel_capacity client_event_retained_bytes,
      ss_ordered = ordered_events_default, ss_recoverable = recoverable, ss_next_write_id = 1\<rparr>"

definition note_change :: "nat \<Rightarrow> session_state \<Rightarrow> session_state" where
  "note_change n st = st\<lparr>ss_wake := watch_send_modify (\<lambda>current. max current n) (ss_wake st)\<rparr>"

definition next_write_id :: "session_state \<Rightarrow> string \<times> session_state" where
  "next_write_id st = (show_nat (ss_next_write_id st), st\<lparr>ss_next_write_id := u64_succ (ss_next_write_id st)\<rparr>)"

subsection \<open>Publishing in order\<close>

text \<open>One turn of the loop of \<open>publish_ready\<close>.\<close>

definition publish_next :: "exec_process_event \<Rightarrow> session_state \<Rightarrow> session_state" where
  "publish_next e st =
     (let oe = ss_ordered st;
          next_seq = u64_sat_succ (oe_last_published_seq oe)
      in st\<lparr>ss_ordered := oe\<lparr>oe_pending := bt_remove next_seq (oe_pending oe),
                             oe_last_published_seq := next_seq,
                             oe_exit_published := oe_exit_published oe \<or> is_exited_event e,
                             oe_closed_published := oe_closed_published oe \<or> is_closed_event e\<rparr>,
            ss_events := publish e (ss_events st)\<rparr>)"

function publish_ready :: "bool \<Rightarrow> session_state \<Rightarrow> bool \<times> session_state" where
  "publish_ready published_closed st =
     (case map_of (oe_pending (ss_ordered st)) (u64_sat_succ (oe_last_published_seq (ss_ordered st))) of
        None \<Rightarrow> (published_closed, st)
      | Some e \<Rightarrow> publish_ready (published_closed \<or> is_closed_event e) (publish_next e st))"
  by pat_completeness auto

termination
  by (relation "measure (\<lambda>(_, st). length (oe_pending (ss_ordered st)))")
    (auto simp: publish_next_def Let_def intro: bt_remove_shorter)

declare publish_ready.simps [simp del]

definition publish_ordered_event :: "exec_process_event \<Rightarrow> session_state \<Rightarrow> bool \<times> session_state" where
  "publish_ordered_event e st =
     (case event_seq e of
        None \<Rightarrow> (False, st\<lparr>ss_events := publish e (ss_events st)\<rparr>)
      | Some s \<Rightarrow>
          (let oe = ss_ordered st in
           if oe_failure oe \<noteq> None \<or> oe_closed_published oe \<or> s \<le> oe_last_published_seq oe
           then (False, st)
           else publish_ready False (st\<lparr>ss_ordered := oe\<lparr>oe_pending := bt_or_insert s e (oe_pending oe)\<rparr>\<rparr>)))"

definition set_failure :: "string \<Rightarrow> session_state \<Rightarrow> session_state" where
  "set_failure m st =
     (let oe = ss_ordered st in
      if oe_failure oe \<noteq> None \<or> oe_closed_published oe then st
      else st\<lparr>ss_ordered := oe\<lparr>oe_failure := Some m, oe_pending := []\<rparr>,
              ss_events := publish (Failed m) (ss_events st),
              ss_wake := watch_send_modify u64_sat_succ (ss_wake st)\<rparr>)"

definition synthesized_failure :: "string \<Rightarrow> session_state \<Rightarrow> read_response" where
  "synthesized_failure m st =
     \<lparr>rr_chunks = [], rr_next_seq = u64_sat_succ (w_value (ss_wake st)), rr_exited = True,
      rr_exit_code = None, rr_closed = True, rr_failure = Some m, rr_sandbox_denied = False\<rparr>"

definition failed_response :: "session_state \<Rightarrow> read_response option" where
  "failed_response st = map_option (\<lambda>m. synthesized_failure m st) (oe_failure (ss_ordered st))"

subsection \<open>Recovering from a read\<close>

definition recovery_gap_error :: "nat \<Rightarrow> exec_server_error" where
  "recovery_gap_error target =
     ProtocolError (''process events are no longer retained while recovering through sequence '' @ show_nat target)"

fun first_gap :: "nat \<Rightarrow> nat list \<Rightarrow> nat" where
  "first_gap expected [] = expected"
| "first_gap expected (s # ss) = (if s \<noteq> expected then expected else first_gap (u64_sat_succ expected) ss)"

definition first_missing_seq :: "ordered_session_events \<Rightarrow> nat \<Rightarrow> nat" where
  "first_missing_seq oe target =
     (let expected = u64_sat_succ (oe_last_published_seq oe)
      in first_gap expected (map fst (bt_range expected target (oe_pending oe))))"

fun queue_chunks ::
  "nat \<Rightarrow> process_output_chunk list \<Rightarrow> (nat, exec_process_event) btree_map \<Rightarrow> (nat, exec_process_event) btree_map" where
  "queue_chunks lastseq [] m = m"
| "queue_chunks lastseq (c # cs) m =
     queue_chunks lastseq cs (if poc_seq c > lastseq then bt_or_insert (poc_seq c) (Output c) m else m)"

text \<open>The close of the response, at the target: already pending, in conflict, or inserted.\<close>

definition queue_closed ::
  "nat \<Rightarrow> (nat, exec_process_event) btree_map \<Rightarrow> exec_server_error + (nat, exec_process_event) btree_map" where
  "queue_closed target m =
     (case map_of m target of
        Some (Closed _) \<Rightarrow> Inr m
      | Some _ \<Rightarrow> Inl (ProtocolError (''process close sequence '' @ show_nat target
                        @ '' conflicts with recovered output''))
      | None \<Rightarrow> Inr (bt_insert target (Closed target) m))"

text \<open>The exit of the response takes the one sequence number that is still missing.\<close>

definition queue_exit ::
  "nat \<Rightarrow> read_response \<Rightarrow> ordered_session_events \<Rightarrow> exec_server_error + (nat, exec_process_event) btree_map" where
  "queue_exit target r oe =
     (let lastseq = oe_last_published_seq oe;
          exit_known = (oe_exit_published oe
             \<or> (\<exists>kv \<in> set (oe_pending oe). fst kv \<le> target \<and> is_exited_event (snd kv)));
          event_count = target - lastseq;
          retained_count = length (bt_range (u64_sat_succ lastseq) target (oe_pending oe));
          missing_count = event_count - retained_count
      in if rr_exited r \<and> \<not> exit_known
         then if missing_count \<noteq> 1 then Inl (recovery_gap_error target)
              else (case rr_exit_code r of
                      None \<Rightarrow> Inl (ProtocolError ''recovering exited process did not include its exit code'')
                    | Some code \<Rightarrow>
                        (let s = first_missing_seq oe target
                         in Inr (bt_insert s (Exited s code) (oe_pending oe))))
         else if missing_count \<noteq> 0 then Inl (recovery_gap_error target)
         else Inr (oe_pending oe))"

definition put_pending :: "(nat, exec_process_event) btree_map \<Rightarrow> session_state \<Rightarrow> session_state" where
  "put_pending m st = st\<lparr>ss_ordered := (ss_ordered st)\<lparr>oe_pending := m\<rparr>\<rparr>"

definition recover_events :: "read_response \<Rightarrow> session_state \<Rightarrow> (exec_server_error + bool) \<times> session_state" where
  "recover_events r st =
     (case rr_failure r of
        Some m \<Rightarrow> (Inl (ProtocolError (''process failed while recovering: '' @ m)), st)
      | None \<Rightarrow>
          (let target = rr_next_seq r - 1;
               oe = ss_ordered st in
           if oe_failure oe \<noteq> None \<or> oe_closed_published oe \<or> target \<le> oe_last_published_seq oe
           then (Inr False, st)
           else
             (let m1 = queue_chunks (oe_last_published_seq oe) (rr_chunks r) (oe_pending oe) in
              case (if rr_closed r then queue_closed target m1 else Inr m1) of
                Inl e \<Rightarrow> (Inl e, put_pending m1 st)
              | Inr m2 \<Rightarrow>
                  (case queue_exit target r (oe\<lparr>oe_pending := m2\<rparr>) of
                     Inl e \<Rightarrow> (Inl e, put_pending m2 st)
                   | Inr m3 \<Rightarrow>
                       (case publish_ready False (put_pending m3 st) of
                          (closed, st') \<Rightarrow> (Inr closed, note_change target st'))))))"

subsection \<open>The sequence a session follows\<close>

text \<open>
  The events of one process as the executor numbers them: 1, 2, 3, ..., at most one exit, a close
  only at the end.
\<close>

definition server_events :: "exec_process_event list \<Rightarrow> bool" where
  "server_events E \<longleftrightarrow>
     length E < u64_max
     \<and> map event_seq E = map Some [1..<Suc (length E)]
     \<and> length (filter is_exited_event E) \<le> 1
     \<and> (\<forall>i. Suc i < length E \<longrightarrow> \<not> is_closed_event (E ! i))"

definition event_at :: "exec_process_event list \<Rightarrow> nat \<Rightarrow> exec_process_event" where
  "event_at E s = E ! (s - 1)"

lemma server_events_seq:
  assumes "server_events E" and "1 \<le> s" and "s \<le> length E"
  shows "event_seq (event_at E s) = Some s"
proof -
  have "s - 1 < length E" using assms by simp
  then have "map event_seq E ! (s - 1) = event_seq (event_at E s)" by (simp add: event_at_def)
  moreover have "map event_seq E ! (s - 1) = Some s"
    using assms unfolding server_events_def by (simp del: upt_Suc)
  ultimately show ?thesis by simp
qed

lemma closed_is_last:
  assumes "server_events E" and "1 \<le> s" and "s \<le> length E" and "is_closed_event (event_at E s)"
  shows "s = length E"
proof (rule ccontr)
  assume "s \<noteq> length E"
  then have "Suc (s - 1) < length E" using assms(2,3) by simp
  then show False using assms(1,4) unfolding server_events_def event_at_def by blast
qed

text \<open>The session has published the first \<open>k\<close> events and holds back some later ones.\<close>

definition session_follows :: "exec_process_event list \<Rightarrow> session_state \<Rightarrow> bool" where
  "session_follows E st \<longleftrightarrow>
     (let oe = ss_ordered st; k = oe_last_published_seq oe in
      k \<le> length E \<and> bt_wf (oe_pending oe)
      \<and> (\<forall>s e. map_of (oe_pending oe) s = Some e \<longrightarrow> k < s \<and> s \<le> length E \<and> e = event_at E s)
      \<and> oe_exit_published oe = (\<exists>e \<in> set (take k E). is_exited_event e)
      \<and> oe_closed_published oe = (\<exists>e \<in> set (take k E). is_closed_event e)
      \<and> el_sent (ss_events st) = take k E @ (case oe_failure oe of None \<Rightarrow> [] | Some m \<Rightarrow> [Failed m]))"

abbreviation last_seq :: "session_state \<Rightarrow> nat" where
  "last_seq st \<equiv> oe_last_published_seq (ss_ordered st)"

definition known :: "session_state \<Rightarrow> nat set" where
  "known st = {s. 1 \<le> s \<and> (s \<le> last_seq st \<or> map_of (oe_pending (ss_ordered st)) s \<noteq> None)}"

definition drained :: "session_state \<Rightarrow> bool" where
  "drained st \<longleftrightarrow> map_of (oe_pending (ss_ordered st)) (Suc (last_seq st)) = None"

lemma session_followsD:
  assumes "session_follows E st"
  shows "last_seq st \<le> length E" and "bt_wf (oe_pending (ss_ordered st))"
    and "map_of (oe_pending (ss_ordered st)) s = Some e \<Longrightarrow>
           last_seq st < s \<and> s \<le> length E \<and> e = event_at E s"
    and "oe_exit_published (ss_ordered st) = (\<exists>e \<in> set (take (last_seq st) E). is_exited_event e)"
    and "oe_closed_published (ss_ordered st) = (\<exists>e \<in> set (take (last_seq st) E). is_closed_event e)"
    and "el_sent (ss_events st) = take (last_seq st) E
           @ (case oe_failure (ss_ordered st) of None \<Rightarrow> [] | Some m \<Rightarrow> [Failed m])"
  using assms unfolding session_follows_def Let_def by blast+

lemma known_le_length: "session_follows E st \<Longrightarrow> known st \<subseteq> {1..length E}"
  using session_followsD(1,3) unfolding known_def by fastforce

text \<open>With nothing publishable left, the published prefix is the longest known one.\<close>

lemma drained_longest:
  assumes "session_follows E st" and "drained st"
  shows "{1..n} \<subseteq> known st \<longleftrightarrow> n \<le> last_seq st"
proof
  assume sub: "{1..n} \<subseteq> known st"
  show "n \<le> last_seq st"
  proof (rule ccontr)
    assume "\<not> n \<le> last_seq st"
    then have "Suc (last_seq st) \<in> known st" using sub by auto
    then show False using assms(2) by (simp add: known_def drained_def)
  qed
qed (auto simp: known_def)

lemma closed_published_all:
  assumes "server_events E" and "session_follows E st" and "oe_closed_published (ss_ordered st)"
  shows "last_seq st = length E"
proof -
  obtain e where "e \<in> set (take (last_seq st) E)" "is_closed_event e"
    using assms(3) session_followsD(5) [OF assms(2)] by blast
  then obtain i where i: "i < last_seq st" "i < length E" "is_closed_event (E ! i)"
    by (auto simp: in_set_conv_nth)
  then have "Suc i = length E" using closed_is_last [OF assms(1), of "Suc i"] by (simp add: event_at_def)
  then show ?thesis using i(1) session_followsD(1) [OF assms(2)] by simp
qed

lemma take_Suc_event: "s < length E \<Longrightarrow> take (Suc s) E = take s E @ [event_at E (Suc s)]"
  by (simp add: event_at_def take_Suc_conv_app_nth)

lemma publish_next_follows:
  assumes E: "server_events E" and st: "session_follows E st" "oe_failure (ss_ordered st) = None"
    and e: "map_of (oe_pending (ss_ordered st)) (u64_sat_succ (last_seq st)) = Some e"
  shows "session_follows E (publish_next e st) \<and> last_seq (publish_next e st) = Suc (last_seq st)
    \<and> known (publish_next e st) = known st \<and> e = event_at E (Suc (last_seq st))
    \<and> oe_failure (ss_ordered (publish_next e st)) = None"
proof -
  let ?k = "last_seq st"
  have "?k < u64_max" using E session_followsD(1) [OF st(1)] by (simp add: server_events_def)
  then have nx: "u64_sat_succ ?k = Suc ?k" by (rule u64_sat_succ_small)
  then have e': "Suc ?k \<le> length E" "e = event_at E (Suc ?k)"
    using session_followsD(3) [OF st(1)] e by auto
  then have tk: "take (Suc ?k) E = take ?k E @ [e]" using take_Suc_event by simp
  have pend: "map_of (oe_pending (ss_ordered (publish_next e st))) =
      (map_of (oe_pending (ss_ordered st)))(Suc ?k := None)"
    using nx by (simp add: publish_next_def Let_def container_simps)
  have more: "Suc ?k < s \<and> s \<le> length E \<and> x = event_at E s"
    if "map_of (oe_pending (ss_ordered st)) s = Some x" "s \<noteq> Suc ?k" for s x
    using session_followsD(3) [OF st(1) that(1)] that(2) by auto
  have "session_follows E (publish_next e st)"
    using e' tk more nx session_followsD [OF st(1)] st(2) pend
    by (auto simp: session_follows_def publish_next_def Let_def split: if_splits)
  moreover have "known (publish_next e st) = known st"
    using e nx pend by (auto simp: known_def publish_next_def Let_def le_Suc_eq)
  ultimately show ?thesis using e' nx st(2) by (simp add: publish_next_def Let_def)
qed

lemma ex_from_Suc:
  assumes "Suc k \<le> m"
  shows "(\<exists>s. k < s \<and> s \<le> m \<and> P s) \<longleftrightarrow> P (Suc k) \<or> (\<exists>s. Suc k < s \<and> s \<le> m \<and> P s)"
proof -
  have "k < s \<longleftrightarrow> s = Suc k \<or> Suc k < s" for s by auto
  then show ?thesis using assms by auto
qed

lemma publish_ready_follows:
  assumes "server_events E" and "session_follows E st" and "oe_failure (ss_ordered st) = None"
    and "publish_ready b st = (c, st')"
  shows "session_follows E st' \<and> oe_failure (ss_ordered st') = None \<and> drained st' \<and> known st' = known st
    \<and> last_seq st \<le> last_seq st'
    \<and> (c \<longleftrightarrow> b \<or> (\<exists>s. last_seq st < s \<and> s \<le> last_seq st' \<and> is_closed_event (event_at E s)))"
  using assms(2-4)
proof (induction b st arbitrary: c st' rule: publish_ready.induct)
  case (1 b st)
  have small: "last_seq st < u64_max"
    using assms(1) session_followsD(1) [OF 1(2)] by (simp add: server_events_def)
  show ?case
  proof (cases "map_of (oe_pending (ss_ordered st)) (u64_sat_succ (last_seq st))")
    case None
    then have "st' = st" "c = b" using 1(4) by (auto simp: publish_ready.simps)
    then show ?thesis using 1(2,3) None small by (auto simp: drained_def u64_sat_succ_small)
  next
    case (Some e)
    note step = publish_next_follows [OF assms(1) 1(2,3) Some]
    have run: "publish_ready (b \<or> is_closed_event e) (publish_next e st) = (c, st')"
      using 1(4) Some publish_ready.simps [of b st] by simp
    note ih = 1(1) [OF Some conjunct1 [OF step] _ run]
    let ?n = "Suc (last_seq st)"
    have n: "last_seq (publish_next e st) = ?n" "event_at E ?n = e"
      "oe_failure (ss_ordered (publish_next e st)) = None" "known (publish_next e st) = known st"
      using step by auto
    have ih': "session_follows E st' \<and> oe_failure (ss_ordered st') = None \<and> drained st'
        \<and> known st' = known st \<and> ?n \<le> last_seq st'
        \<and> (c \<longleftrightarrow> (b \<or> is_closed_event (event_at E ?n))
             \<or> (\<exists>s. ?n < s \<and> s \<le> last_seq st' \<and> is_closed_event (event_at E s)))"
      using ih [OF n(3)] unfolding n .
    have "(\<exists>s. last_seq st < s \<and> s \<le> last_seq st' \<and> is_closed_event (event_at E s)) \<longleftrightarrow>
        is_closed_event (event_at E ?n) \<or> (\<exists>s. ?n < s \<and> s \<le> last_seq st' \<and> is_closed_event (event_at E s))"
      by (rule ex_from_Suc) (use ih' in blast)
    then show ?thesis using ih' by (simp add: disj_assoc)
  qed
qed

text \<open>Delivering one event.\<close>

lemma put_pending_follows:
  assumes "session_follows E st" and "bt_wf m"
    and "\<And>t e. map_of m t = Some e \<Longrightarrow> last_seq st < t \<and> t \<le> length E \<and> e = event_at E t"
  shows "session_follows E (put_pending m st)"
  using assms unfolding session_follows_def Let_def put_pending_def by simp

lemma put_event_follows:
  assumes "session_follows E st" and "last_seq st < s" and "s \<le> length E"
  shows "session_follows E (put_pending (bt_or_insert s (event_at E s) (oe_pending (ss_ordered st))) st)
    \<and> known (put_pending (bt_or_insert s (event_at E s) (oe_pending (ss_ordered st))) st) = insert s (known st)"
    (is "session_follows E (put_pending ?m st) \<and> _")
proof -
  have get: "map_of ?m t = (if t = s then Some (event_at E s) else map_of (oe_pending (ss_ordered st)) t)" for t
  proof (cases "map_of (oe_pending (ss_ordered st)) s")
    case (Some x)
    then have "x = event_at E s" using session_followsD(3) [OF assms(1)] by blast
    then show ?thesis using Some by (simp add: container_simps)
  qed (simp add: container_simps)
  have ok: "last_seq st < t \<and> t \<le> length E \<and> e = event_at E t" if "map_of ?m t = Some e" for t e
    using that session_followsD(3) [OF assms(1), of t e] assms(2,3) unfolding get by (cases "t = s") simp_all
  have "bt_wf ?m" using session_followsD(2) [OF assms(1)] by simp
  then have "session_follows E (put_pending ?m st)"
    by (rule put_pending_follows [OF assms(1)]) (erule ok)
  moreover have "known (put_pending ?m st) = insert s (known st)"
    using assms(2) by (auto simp: known_def put_pending_def get)
  ultimately show ?thesis by blast
qed

definition session_ready :: "exec_process_event list \<Rightarrow> session_state \<Rightarrow> bool" where
  "session_ready E st \<longleftrightarrow> session_follows E st \<and> oe_failure (ss_ordered st) = None \<and> drained st"

lemma deliver_event:
  assumes E: "server_events E" and st: "session_ready E st" and s: "1 \<le> s" "s \<le> length E"
    and run: "publish_ordered_event (event_at E s) st = (c, st')"
  shows "session_ready E st' \<and> known st' = insert s (known st)
    \<and> (c \<longleftrightarrow> \<not> oe_closed_published (ss_ordered st) \<and> oe_closed_published (ss_ordered st'))"
proof -
  note f = st [unfolded session_ready_def]
  have seq: "event_seq (event_at E s) = Some s" by (rule server_events_seq [OF E s])
  show ?thesis
  proof (cases "oe_closed_published (ss_ordered st) \<or> s \<le> last_seq st")
    case True
    then have "s \<le> last_seq st" using closed_published_all [OF E] f s by auto
    then have "st' = st" "c = False" "s \<in> known st"
      using run seq s by (auto simp: publish_ordered_event_def known_def)
    then show ?thesis using st by auto
  next
    case False
    let ?st = "put_pending (bt_or_insert s (event_at E s) (oe_pending (ss_ordered st))) st"
    have put: "session_follows E ?st" "known ?st = insert s (known st)"
      "last_seq ?st = last_seq st" "oe_failure (ss_ordered ?st) = None"
      using put_event_follows [of E st s] False f s by (auto simp: put_pending_def)
    have "publish_ready False ?st = (c, st')"
      using run seq f False by (simp add: publish_ordered_event_def put_pending_def Let_def)
    note pr = publish_ready_follows [OF E put(1,4) this]
    have "oe_closed_published (ss_ordered st') \<longleftrightarrow>
        (\<exists>i. last_seq st < i \<and> i \<le> last_seq st' \<and> is_closed_event (event_at E i))"
    proof
      assume "oe_closed_published (ss_ordered st')"
      then have all: "last_seq st' = length E" using closed_published_all [OF E] pr by blast
      obtain x where "x \<in> set (take (last_seq st') E)" "is_closed_event x"
        using \<open>oe_closed_published (ss_ordered st')\<close> session_followsD(5) pr by blast
      then obtain i where i: "i < length E" "is_closed_event (E ! i)" using all by (auto simp: in_set_conv_nth)
      then have ev: "is_closed_event (event_at E (Suc i))" by (simp add: event_at_def)
      then have "Suc i = length E" using closed_is_last [OF E, of "Suc i"] i(1) by simp
      moreover have "last_seq st < length E" using False s f by simp
      ultimately show "\<exists>i. last_seq st < i \<and> i \<le> last_seq st' \<and> is_closed_event (event_at E i)"
        using ev all by (intro exI [of _ "Suc i"]) simp
    next
      assume "\<exists>i. last_seq st < i \<and> i \<le> last_seq st' \<and> is_closed_event (event_at E i)"
      then obtain i where i: "last_seq st < i" "i \<le> last_seq st'" "is_closed_event (event_at E i)" by blast
      have "last_seq st' \<le> length E" using pr session_followsD(1) by blast
      then have "event_at E i \<in> set (take (last_seq st') E)"
        using i(1,2) unfolding event_at_def by (auto simp: in_set_conv_nth intro!: exI [of _ "i - 1"])
      then show "oe_closed_published (ss_ordered st')" using session_followsD(5) pr i(3) by blast
    qed
    then show ?thesis using pr put(2,3) False by (auto simp: session_ready_def)
  qed
qed

lemma session_ready_new: "session_ready E (session_state_new r)"
  by (simp add: session_ready_def session_follows_def session_state_new_def ordered_events_default_def drained_def)

lemma known_new: "known (session_state_new r) = {}"
  by (auto simp: known_def session_state_new_def ordered_events_default_def)

lemma deliver_fold:
  assumes "server_events E"
  shows "session_ready E st \<Longrightarrow> (\<And>s. s \<in> set ds \<Longrightarrow> 1 \<le> s \<and> s \<le> length E) \<Longrightarrow>
    session_ready E (fold (\<lambda>s st. snd (publish_ordered_event (event_at E s) st)) ds st)
    \<and> known (fold (\<lambda>s st. snd (publish_ordered_event (event_at E s) st)) ds st) = set ds \<union> known st"
proof (induction ds arbitrary: st)
  case (Cons d ds)
  have "session_ready E (snd (publish_ordered_event (event_at E d) st))
      \<and> known (snd (publish_ordered_event (event_at E d) st)) = insert d (known st)"
    using deliver_event [OF assms Cons.prems(1)] Cons.prems(2) [of d] by (metis list.set_intros(1) prod.collapse)
  then show ?case using Cons.IH Cons.prems(2) by auto
qed simp

text \<open>
  C3. The client publishes the events of a process in the executor's order, whatever order the
  notifications arrive in and however often each arrives: what it has published is a prefix of the
  executor's sequence, every published event did arrive, and the next event is held back only
  because it has not arrived yet.
\<close>

theorem client_publishes_in_order:
  fixes r :: bool and ds :: "nat list"
  assumes "server_events E" and "\<And>s. s \<in> set ds \<Longrightarrow> 1 \<le> s \<and> s \<le> length E"
  defines "st \<equiv> fold (\<lambda>s st. snd (publish_ordered_event (event_at E s) st)) ds (session_state_new r)"
  shows "\<exists>n \<le> length E. el_sent (ss_events st) = take n E \<and> {1..n} \<subseteq> set ds \<and> Suc n \<notin> set ds"
proof -
  have st: "session_ready E st" "known st = set ds"
    using deliver_fold [OF assms(1) session_ready_new, of ds r] assms(2) unfolding st_def
    by (auto simp: known_new)
  then have "el_sent (ss_events st) = take (last_seq st) E" "last_seq st \<le> length E"
    using session_followsD(1,6) by (auto simp: session_ready_def)
  moreover have "{1..last_seq st} \<subseteq> known st" "Suc (last_seq st) \<notin> known st"
    using st(1) by (simp_all add: known_def session_ready_def drained_def subset_iff)
  ultimately show ?thesis unfolding st(2) by blast
qed

theorem client_publishes_in_order_witness:
  "\<exists>n \<le> 3. el_sent (ss_events (fold (\<lambda>s st. snd (publish_ordered_event
       (event_at [Output \<lparr>poc_seq = 1, poc_stream = Stdout, poc_chunk = [7]\<rparr>, Exited 2 0, Closed 3] s) st))
       [3, 2, 3] (session_state_new True)))
     = take n [Output \<lparr>poc_seq = 1, poc_stream = Stdout, poc_chunk = [7]\<rparr>, Exited 2 0, Closed 3]
     \<and> {1..n} \<subseteq> set [3, 2, 3]"
proof -
  let ?E = "[Output \<lparr>poc_seq = 1, poc_stream = Stdout, poc_chunk = [7 :: byte]\<rparr>, Exited 2 0, Closed 3]"
  have "\<not> is_closed_event (?E ! i)" if "Suc i < length ?E" for i
    using that by (auto simp: less_Suc_eq)
  then have "server_events ?E"
    by (simp add: server_events_def u64_max_def u64_modulus_def upt_rec)
  then obtain n where "n \<le> length ?E"
    "el_sent (ss_events (fold (\<lambda>s st. snd (publish_ordered_event (event_at ?E s) st)) [3, 2, 3]
       (session_state_new True))) = take n ?E" "{1..n} \<subseteq> set [3, 2, 3 :: nat]"
    using client_publishes_in_order [of ?E "[3, 2, 3]" True] by fastforce
  then show ?thesis by (intro exI [of _ n]) (simp del: fold.simps)
qed

subsection \<open>Recovery from a read\<close>

text \<open>
  What a read answers when the executor has published the first \<open>p\<close> events: some of the outputs
  among them, and whether the exit and the close are among them.
\<close>

definition response_matches :: "exec_process_event list \<Rightarrow> nat \<Rightarrow> read_response \<Rightarrow> bool" where
  "response_matches E p r \<longleftrightarrow>
     p \<le> length E \<and> rr_failure r = None \<and> rr_next_seq r = Suc p
     \<and> (\<forall>c \<in> set (rr_chunks r). 1 \<le> poc_seq c \<and> poc_seq c \<le> p \<and> event_at E (poc_seq c) = Output c)
     \<and> (rr_exited r \<longleftrightarrow> (\<exists>e \<in> set (take p E). is_exited_event e))
     \<and> (\<forall>s code. Exited s code \<in> set (take p E) \<longrightarrow> rr_exit_code r = Some code)
     \<and> (rr_closed r \<longleftrightarrow> (\<exists>e \<in> set (take p E). is_closed_event e))"

definition missing :: "nat \<Rightarrow> session_state \<Rightarrow> nat set" where
  "missing p st = {last_seq st<..p} - known st"

lemma put_pending_simps [simp]:
  "oe_pending (ss_ordered (put_pending m st)) = m"
  "last_seq (put_pending m st) = last_seq st"
  "oe_failure (ss_ordered (put_pending m st)) = oe_failure (ss_ordered st)"
  "oe_exit_published (ss_ordered (put_pending m st)) = oe_exit_published (ss_ordered st)"
  "put_pending m (put_pending m' st) = put_pending m st"
  "put_pending (oe_pending (ss_ordered st)) st = st"
  "ss_events (put_pending m st) = ss_events st"
  by (simp_all add: put_pending_def)

lemma queue_chunks_follows:
  assumes "session_follows E (put_pending m st)"
    and "\<And>c. c \<in> set cs \<Longrightarrow> poc_seq c \<le> length E \<and> event_at E (poc_seq c) = Output c"
  shows "session_follows E (put_pending (queue_chunks (last_seq st) cs m) st)
    \<and> known (put_pending (queue_chunks (last_seq st) cs m) st)
        = known (put_pending m st) \<union> {s \<in> poc_seq ` set cs. last_seq st < s}"
  using assms
proof (induction cs arbitrary: m)
  case (Cons c cs)
  show ?case
  proof (cases "poc_seq c > last_seq st")
    case True
    have c: "poc_seq c \<le> length E" "event_at E (poc_seq c) = Output c" using Cons.prems(2) [of c] by auto
    have "session_follows E (put_pending (bt_or_insert (poc_seq c) (Output c) m) st)
        \<and> known (put_pending (bt_or_insert (poc_seq c) (Output c) m) st) = insert (poc_seq c) (known (put_pending m st))"
      using put_event_follows [OF Cons.prems(1), of "poc_seq c"] True c by simp
    then show ?thesis using Cons.IH [of "bt_or_insert (poc_seq c) (Output c) m"] Cons.prems(2) True by auto
  next
    case False
    then show ?thesis using Cons.IH [OF Cons.prems(1)] Cons.prems(2) by auto
  qed
qed simp

lemma in_take_event: "1 \<le> s \<Longrightarrow> s \<le> p \<Longrightarrow> p \<le> length E \<Longrightarrow> event_at E s \<in> set (take p E)"
  unfolding event_at_def by (auto simp: in_set_conv_nth intro!: exI [of _ "s - 1"])

lemma take_eventE:
  assumes "e \<in> set (take p E)"
  obtains s where "1 \<le> s" "s \<le> p" "s \<le> length E" "e = event_at E s"
proof -
  obtain i where "i < p" "i < length E" "e = E ! i" using assms by (auto simp: in_set_conv_nth)
  then show ?thesis using that [of "Suc i"] by (simp add: event_at_def)
qed

lemma exited_unique:
  assumes "server_events E" and "1 \<le> s" "s \<le> length E" "is_exited_event (event_at E s)"
    and "1 \<le> t" "t \<le> length E" "is_exited_event (event_at E t)"
  shows "s = t"
proof (rule ccontr)
  assume "s \<noteq> t"
  then have "card {s - 1, t - 1} = 2" using assms(2,5) by (auto simp: card_insert_if)
  moreover have "{s - 1, t - 1} \<subseteq> {i. i < length E \<and> is_exited_event (E ! i)}"
    using assms by (auto simp: event_at_def)
  moreover have "finite {i. i < length E \<and> is_exited_event (E ! i)}" by simp
  ultimately have "2 \<le> card {i. i < length E \<and> is_exited_event (E ! i)}" by (metis card_mono)
  then show False using assms(1) by (simp add: server_events_def length_filter_conv_card)
qed

lemma queue_closed_follows:
  assumes E: "server_events E" and m: "session_follows E (put_pending m st)"
    and p: "last_seq st < p" "p \<le> length E" and closed: "\<exists>e \<in> set (take p E). is_closed_event e"
  shows "\<exists>m'. queue_closed p m = Inr m' \<and> session_follows E (put_pending m' st)
    \<and> known (put_pending m' st) = insert p (known (put_pending m st))"
proof -
  obtain s where s: "1 \<le> s" "s \<le> p" "s \<le> length E" "is_closed_event (event_at E s)"
    using closed by (auto elim!: take_eventE)
  then have "s = length E" by (intro closed_is_last [OF E])
  then have ev: "is_closed_event (event_at E p)" using s p by simp
  moreover have "event_seq (event_at E p) = Some p" using server_events_seq [OF E] p by simp
  ultimately have at: "event_at E p = Closed p" by (cases "event_at E p") auto
  show ?thesis
  proof (cases "map_of m p")
    case None
    then have "bt_insert p (Closed p) m = bt_or_insert p (event_at E p) m" by (simp add: bt_or_insert_def at)
    then show ?thesis
      using None put_event_follows [OF m, of p] p by (simp add: queue_closed_def)
  next
    case (Some e)
    then have "e = Closed p" using session_followsD(3) [OF m] at by simp
    moreover have "p \<in> known (put_pending m st)" using Some p by (simp add: known_def)
    ultimately show ?thesis using Some m by (auto simp: queue_closed_def)
  qed
qed

lemma bt_range_keys:
  assumes "bt_wf m"
  shows "sorted_wrt (<) (map fst (bt_range lo hi m))"
    and "set (map fst (bt_range lo hi m)) = {s. lo \<le> s \<and> s \<le> hi \<and> map_of m s \<noteq> None}"
proof -
  show "sorted_wrt (<) (map fst (bt_range lo hi m))"
    using assms by (simp add: bt_wf_def bt_range_def sorted_wrt_map sorted_wrt_filter)
  show "set (map fst (bt_range lo hi m)) = {s. lo \<le> s \<and> s \<le> hi \<and> map_of m s \<noteq> None}"
    by (auto simp: bt_range_def map_of_eq_None_iff image_iff)
qed

lemma first_gap_finds:
  assumes "sorted_wrt (<) ks" and "set ks = {a..p} - {g}" and "a \<le> g" and "g \<le> p" and "p < u64_max"
  shows "first_gap a ks = g"
  using assms
proof (induction ks arbitrary: a)
  case Nil
  then have "a \<in> {g}" using atLeastAtMost_iff [of a a p] by (metis Diff_iff empty_iff empty_set insertI1 le_trans order_refl)
  then show ?case by simp
next
  case (Cons s ss)
  show ?case
  proof (cases "a = g")
    case True
    then have "s \<noteq> a" using Cons.prems(2) by (metis DiffE insertI1 list.set_intros(1))
    then show ?thesis using True by simp
  next
    case False
    have "s \<in> {a..p} - {g}" using Cons.prems(2) by (metis list.set_intros(1))
    moreover have "a \<in> set (s # ss)" unfolding Cons.prems(2) using False Cons.prems(3,4) by auto
    ultimately have "a \<in> set (s # ss)" "s \<in> {a..p}" by auto
    then have s: "s = a" using Cons.prems(1) by auto
    then have "a \<notin> set ss" using Cons.prems(1) by auto
    then have "set ss = {a..p} - {g} - {a}" using Cons.prems(2) s by (metis Diff_insert_absorb list.simps(15))
    also have "\<dots> = {Suc a..p} - {g}" by auto
    finally have "set ss = {Suc a..p} - {g}" .
    moreover have "u64_sat_succ a = Suc a" using Cons.prems(3-5) by (intro u64_sat_succ_small) simp
    ultimately show ?thesis using Cons False s by simp
  qed
qed

lemma missing_count:
  assumes "session_follows E st" and "last_seq st < u64_max"
  shows "(p - last_seq st) - length (bt_range (u64_sat_succ (last_seq st)) p (oe_pending (ss_ordered st)))
    = card (missing p st)"
proof -
  let ?m = "oe_pending (ss_ordered st)"
  let ?R = "map fst (bt_range (Suc (last_seq st)) p ?m)"
  have wf: "bt_wf ?m" using session_followsD(2) [OF assms(1)] .
  have "distinct ?R" using bt_range_keys(1) [OF wf] by (rule strict_sorted_iff [THEN iffD1, THEN conjunct2])
  then have "length (bt_range (Suc (last_seq st)) p ?m) = card (set ?R)"
    by (metis distinct_card length_map)
  moreover have "set ?R = {last_seq st<..p} \<inter> known st"
    unfolding bt_range_keys(2) [OF wf] known_def by auto
  moreover have "card (missing p st) = card {last_seq st<..p} - card ({last_seq st<..p} \<inter> known st)"
    unfolding missing_def by (simp add: card_Diff_subset_Int)
  ultimately show ?thesis using assms(2) by (simp add: u64_sat_succ_small)
qed

text \<open>The first missing number, when only one is missing.\<close>

lemma first_missing_finds:
  assumes "session_follows E st" and "missing p st = {g}" and "p < u64_max"
  shows "first_missing_seq (ss_ordered st) p = g"
proof -
  have g: "last_seq st < g" "g \<le> p" using assms(2) by (auto simp: missing_def)
  then have sat: "u64_sat_succ (last_seq st) = Suc (last_seq st)" using assms(3) by (intro u64_sat_succ_small) simp
  have wf: "bt_wf (oe_pending (ss_ordered st))" using session_followsD(2) [OF assms(1)] .
  have "{Suc (last_seq st)..p} - {g} = {s. Suc (last_seq st) \<le> s \<and> s \<le> p \<and> s \<in> known st}"
  proof -
    have "s \<in> known st \<longleftrightarrow> s \<noteq> g" if "Suc (last_seq st) \<le> s" "s \<le> p" for s
    proof -
      have "s \<in> missing p st \<longleftrightarrow> s \<notin> known st" using that by (simp add: missing_def)
      then show ?thesis using assms(2) by simp
    qed
    then show ?thesis by (simp only: set_eq_iff Diff_iff atLeastAtMost_iff singleton_iff mem_Collect_eq) blast
  qed
  also have "\<dots> = {s. Suc (last_seq st) \<le> s \<and> s \<le> p \<and> map_of (oe_pending (ss_ordered st)) s \<noteq> None}"
    by (auto simp: known_def)
  finally have "set (map fst (bt_range (Suc (last_seq st)) p (oe_pending (ss_ordered st))))
      = {Suc (last_seq st)..p} - {g}" using bt_range_keys(2) [OF wf] by simp
  then show ?thesis
    unfolding first_missing_seq_def Let_def sat
    by (intro first_gap_finds [OF bt_range_keys(1) [OF wf]]) (use g assms(3) in simp_all)
qed

definition exit_known_upto :: "exec_process_event list \<Rightarrow> nat \<Rightarrow> session_state \<Rightarrow> bool" where
  "exit_known_upto E p st \<longleftrightarrow> (\<exists>s \<in> known st. s \<le> p \<and> is_exited_event (event_at E s))"

lemma exit_known_upto:
  assumes st: "session_follows E st" and p: "last_seq st < p"
  shows "(oe_exit_published (ss_ordered st)
      \<or> (\<exists>kv \<in> set (oe_pending (ss_ordered st)). fst kv \<le> p \<and> is_exited_event (snd kv)))
    \<longleftrightarrow> exit_known_upto E p st"
proof -
  have k: "last_seq st \<le> length E" using session_followsD(1) [OF st] .
  have "oe_exit_published (ss_ordered st) \<longleftrightarrow> (\<exists>s. 1 \<le> s \<and> s \<le> last_seq st \<and> is_exited_event (event_at E s))"
    unfolding session_followsD(4) [OF st] using in_take_event [OF _ _ k] by (auto elim!: take_eventE)
  moreover have "(\<exists>kv \<in> set (oe_pending (ss_ordered st)). fst kv \<le> p \<and> is_exited_event (snd kv)) \<longleftrightarrow>
      (\<exists>s. map_of (oe_pending (ss_ordered st)) s \<noteq> None \<and> s \<le> p \<and> is_exited_event (event_at E s))"
    (is "?l = ?r")
  proof
    assume ?l
    then obtain s e where "(s, e) \<in> set (oe_pending (ss_ordered st))" "s \<le> p" "is_exited_event e" by auto
    moreover from this have "map_of (oe_pending (ss_ordered st)) s = Some e"
      using bt_get_in_set [OF session_followsD(2) [OF st]] by blast
    ultimately show ?r using session_followsD(3) [OF st] by blast
  next
    assume ?r
    then obtain s e where "map_of (oe_pending (ss_ordered st)) s = Some e" "s \<le> p" "is_exited_event (event_at E s)"
      by blast
    moreover from this have "(s, e) \<in> set (oe_pending (ss_ordered st))" "e = event_at E s"
      using map_of_SomeD session_followsD(3) [OF st] by (fast, blast)
    ultimately show ?l by (intro bexI [of _ "(s, e)"]) simp_all
  qed
  moreover have "1 \<le> s" if "map_of (oe_pending (ss_ordered st)) s \<noteq> None" for s
    using that session_followsD(3) [OF st, of s] by auto
  moreover have "s \<le> p" if "s \<le> last_seq st" for s using that p by simp
  ultimately show ?thesis unfolding exit_known_upto_def known_def by blast
qed

lemma queue_exit_spec:
  assumes E: "server_events E" and st: "session_follows E st" and p: "last_seq st < p" "p \<le> length E"
    and r: "response_matches E p r"
  shows "if \<forall>s \<in> missing p st. is_exited_event (event_at E s)
    then (\<exists>m. queue_exit p r (ss_ordered st) = Inr m \<and> session_follows E (put_pending m st)
            \<and> {last_seq st<..p} \<subseteq> known (put_pending m st))
    else queue_exit p r (ss_ordered st) = Inl (recovery_gap_error p)"
proof -
  have max: "p < u64_max" "last_seq st < u64_max" using E p by (auto simp: server_events_def)
  have fin: "finite (missing p st)" by (simp add: missing_def)
  have exited: "rr_exited r \<longleftrightarrow> (\<exists>s. 1 \<le> s \<and> s \<le> p \<and> is_exited_event (event_at E s))"
    using r in_take_event [OF _ _ p(2)] by (auto simp: response_matches_def elim!: take_eventE)
  note q = queue_exit_def [of p r "ss_ordered st", unfolded Let_def exit_known_upto [OF st p(1)]
      missing_count [OF st max(2)]]
  show ?thesis
  proof (cases "rr_exited r \<and> \<not> exit_known_upto E p st")
    case True
    then obtain g where g: "1 \<le> g" "g \<le> p" "is_exited_event (event_at E g)" using exited by blast
    with True have "g \<notin> known st" by (auto simp: exit_known_upto_def)
    then have gm: "g \<in> missing p st" "last_seq st < g" using g by (auto simp: missing_def known_def)
    have only: "s = g" if "s \<in> missing p st" "is_exited_event (event_at E s)" for s
    proof (rule exited_unique [OF E])
      show "1 \<le> s" "s \<le> length E" using that(1) p by (auto simp: missing_def)
    qed (use that g p in simp_all)
    have all: "(\<forall>s \<in> missing p st. is_exited_event (event_at E s)) \<longleftrightarrow> missing p st = {g}"
    proof
      assume "\<forall>s \<in> missing p st. is_exited_event (event_at E s)"
      then have "missing p st \<subseteq> {g}" using only by (simp add: subset_iff)
      then show "missing p st = {g}" using gm(1) by auto
    qed (use g(3) in simp)
    have one: "missing p st = {g} \<longleftrightarrow> card (missing p st) = 1"
    proof
      assume "card (missing p st) = 1"
      then obtain x where "missing p st = {x}" by (rule card_1_singletonE)
      then show "missing p st = {g}" using gm(1) by simp
    qed simp
    have "event_seq (event_at E g) = Some g" using server_events_seq [OF E g(1)] g p by simp
    with g(3) obtain code where at: "event_at E g = Exited g code" by (cases "event_at E g") auto
    then have code: "rr_exit_code r = Some code"
      using r in_take_event [OF g(1,2) p(2)] unfolding response_matches_def by fastforce
    show ?thesis
    proof (cases "missing p st = {g}")
      case True
      have "map_of (oe_pending (ss_ordered st)) g = None" using \<open>g \<notin> known st\<close> g by (simp add: known_def)
      then have ins: "bt_insert g (Exited g code) (oe_pending (ss_ordered st))
          = bt_or_insert g (event_at E g) (oe_pending (ss_ordered st))" by (simp add: bt_or_insert_def at)
      have put: "session_follows E (put_pending (bt_or_insert g (event_at E g) (oe_pending (ss_ordered st))) st)
          \<and> known (put_pending (bt_or_insert g (event_at E g) (oe_pending (ss_ordered st))) st) = insert g (known st)"
        using put_event_follows [OF st gm(2)] g p by simp
      moreover have "{last_seq st<..p} \<subseteq> insert g (known st)" using True by (auto simp: missing_def)
      moreover have "queue_exit p r (ss_ordered st) = Inr (bt_or_insert g (event_at E g) (oe_pending (ss_ordered st)))"
        unfolding q using \<open>rr_exited r \<and> \<not> exit_known_upto E p st\<close> True code
          first_missing_finds [OF st True max(1)] ins by simp
      ultimately show ?thesis using all True by auto
    next
      case False
      then show ?thesis unfolding q using \<open>rr_exited r \<and> \<not> exit_known_upto E p st\<close> all one by simp
    qed
  next
    case False
    have "\<not> is_exited_event (event_at E s)" if s: "s \<in> missing p st" for s
    proof
      assume ex: "is_exited_event (event_at E s)"
      have "1 \<le> s" "s \<le> p" "s \<notin> known st" using s by (auto simp: missing_def)
      then have "exit_known_upto E p st" using False exited ex by blast
      then obtain t where t: "t \<in> known st" "t \<le> p" "is_exited_event (event_at E t)" by (auto simp: exit_known_upto_def)
      then have "s = t" using exited_unique [OF E] ex \<open>1 \<le> s\<close> \<open>s \<le> p\<close> p known_le_length [OF st] by auto
      then show False using t(1) \<open>s \<notin> known st\<close> by simp
    qed
    then have all: "(\<forall>s \<in> missing p st. is_exited_event (event_at E s)) \<longleftrightarrow> missing p st = {}" by blast
    have q': "queue_exit p r (ss_ordered st) =
        (if card (missing p st) \<noteq> 0 then Inl (recovery_gap_error p) else Inr (oe_pending (ss_ordered st)))"
      unfolding q by (simp only: if_not_P [OF False])
    have "missing p st = {} \<Longrightarrow> {last_seq st<..p} \<subseteq> known st" by (auto simp: missing_def)
    then show ?thesis unfolding all q' using fin st by simp
  qed
qed

lemma note_change_simps [simp]:
  "ss_ordered (note_change n st) = ss_ordered st"
  "ss_events (note_change n st) = ss_events st"
  by (simp_all add: note_change_def)

lemma note_change_ready [simp]:
  "session_ready E (note_change n st) = session_ready E st"
  "known (note_change n st) = known st"
  by (simp_all add: session_ready_def session_follows_def drained_def known_def)

fun is_output_event :: "exec_process_event \<Rightarrow> bool" where
  "is_output_event (Output _) = True"
| "is_output_event _ = False"

lemma sequenced_event_kinds:
  "event_seq e = Some s \<Longrightarrow> \<not> is_exited_event e \<Longrightarrow> \<not> is_closed_event e \<Longrightarrow> is_output_event e"
  by (cases e) auto

text \<open>The outputs that neither the client nor the response has.\<close>

definition lost_outputs :: "exec_process_event list \<Rightarrow> nat \<Rightarrow> read_response \<Rightarrow> session_state \<Rightarrow> nat set" where
  "lost_outputs E p r st =
     {s. last_seq st < s \<and> s \<le> p \<and> is_output_event (event_at E s)
         \<and> s \<notin> known st \<and> s \<notin> poc_seq ` set (rr_chunks r)}"

lemma recover_missing:
  assumes E: "server_events E" and p: "p \<le> length E" and r: "response_matches E p r"
    and kn: "known st2 = known st \<union> {s \<in> poc_seq ` set (rr_chunks r). last_seq st < s}
               \<union> (if rr_closed r then {p} else {})"
    and last: "last_seq st2 = last_seq st"
  shows "(\<forall>s \<in> missing p st2. is_exited_event (event_at E s)) \<longleftrightarrow> lost_outputs E p r st = {}"
proof -
  have "s \<in> missing p st2 \<and> \<not> is_exited_event (event_at E s) \<longleftrightarrow> s \<in> lost_outputs E p r st" for s
  proof (cases "last_seq st < s \<and> s \<le> p")
    case True
    then have s: "1 \<le> s" "s \<le> length E" using p by auto
    have seq: "event_seq (event_at E s) = Some s" by (rule server_events_seq [OF E s])
    have closed: "rr_closed r \<and> s = p" if "is_closed_event (event_at E s)"
    proof -
      have "s = length E" by (rule closed_is_last [OF E s that])
      then have "s = p" using True p by simp
      then show ?thesis using r that in_take_event [of s p E] s True p by (auto simp: response_matches_def)
    qed
    have miss: "s \<in> missing p st2 \<longleftrightarrow> s \<notin> known st \<and> s \<notin> poc_seq ` set (rr_chunks r) \<and> \<not> (rr_closed r \<and> s = p)"
      using True last by (auto simp: missing_def kn)
    have kinds: "\<not> is_exited_event (event_at E s) \<and> \<not> is_closed_event (event_at E s) \<longleftrightarrow> is_output_event (event_at E s)"
      by (cases "event_at E s") (use seq in auto)
    have "rr_closed r \<and> s = p \<longrightarrow> is_closed_event (event_at E s)"
    proof
      assume c: "rr_closed r \<and> s = p"
      then obtain t where t: "1 \<le> t" "t \<le> p" "t \<le> length E" "is_closed_event (event_at E t)"
        using r by (auto simp: response_matches_def elim!: take_eventE)
      then have "t = length E" by (intro closed_is_last [OF E])
      then show "is_closed_event (event_at E s)" using t c p by simp
    qed
    then show ?thesis using True miss kinds closed unfolding lost_outputs_def by blast
  qed (auto simp: missing_def lost_outputs_def last)
  then show ?thesis by blast
qed

text \<open>
  C2. Recovery after a lost connection is exact. When the executor has published the first \<open>p\<close>
  events of a process and a read answers with what it has retained, then recovery succeeds exactly
  when every output the client still misses is in the answer. If it succeeds, the client has
  published at least those \<open>p\<close> events, all in the executor's order and none twice (the exit code
  and the close are put back at their own positions); if it fails, nothing has been published.
\<close>

theorem recovery_is_exact:
  assumes E: "server_events E" and st: "session_ready E st" and r: "response_matches E p r"
    and new: "last_seq st < p" "\<not> oe_closed_published (ss_ordered st)"
    and run: "recover_events r st = (res, st')"
  shows "if lost_outputs E p r st = {}
    then \<not> isl res \<and> session_ready E st' \<and> p \<le> last_seq st'
         \<and> el_sent (ss_events st') = take (last_seq st') E
    else res = Inl (recovery_gap_error p) \<and> el_sent (ss_events st') = el_sent (ss_events st)"
proof -
  note f = st [unfolded session_ready_def]
  have p: "p \<le> length E" "rr_next_seq r - 1 = p" "rr_failure r = None"
    using r by (auto simp: response_matches_def)
  define m1 where "m1 = queue_chunks (last_seq st) (rr_chunks r) (oe_pending (ss_ordered st))"
  have m1: "session_follows E (put_pending m1 st)"
    "known (put_pending m1 st) = known st \<union> {s \<in> poc_seq ` set (rr_chunks r). last_seq st < s}"
    using queue_chunks_follows [of E "oe_pending (ss_ordered st)" st "rr_chunks r"] f r
    unfolding m1_def by (force simp: response_matches_def)+
  obtain m2 where m2: "(if rr_closed r then queue_closed p m1 else Inr m1) = Inr m2"
    "session_follows E (put_pending m2 st)"
    "known (put_pending m2 st) = known st \<union> {s \<in> poc_seq ` set (rr_chunks r). last_seq st < s}
       \<union> (if rr_closed r then {p} else {})"
  proof (cases "rr_closed r")
    case True
    then have "\<exists>e \<in> set (take p E). is_closed_event e" using r by (simp add: response_matches_def)
    then show ?thesis using queue_closed_follows [OF E m1(1) new(1) p(1)] that True m1(2) by auto
  qed (use that m1 in simp)
  let ?st2 = "put_pending m2 st"
  have rec: "recover_events r st =
      (case queue_exit p r (ss_ordered ?st2) of
         Inl e \<Rightarrow> (Inl e, ?st2)
       | Inr m3 \<Rightarrow> (case publish_ready False (put_pending m3 st) of
                     (closed, st') \<Rightarrow> (Inr closed, note_change p st')))"
    using p f new m2(1) unfolding recover_events_def m1_def put_pending_def
    by simp (simp add: Let_def)
  note ex = queue_exit_spec [OF E m2(2) _ p(1) r, unfolded recover_missing [OF E p(1) r m2(3) put_pending_simps(2)]]
  show ?thesis
  proof (cases "lost_outputs E p r st = {}")
    case True
    then obtain m3 where m3: "queue_exit p r (ss_ordered ?st2) = Inr m3" "session_follows E (put_pending m3 st)"
      "{last_seq st<..p} \<subseteq> known (put_pending m3 st)"
      using ex new(1) by auto
    obtain c st3 where pr: "publish_ready False (put_pending m3 st) = (c, st3)" by (rule prod.exhaust)
    have fin: "session_follows E st3 \<and> oe_failure (ss_ordered st3) = None \<and> drained st3
        \<and> known st3 = known (put_pending m3 st)"
      using publish_ready_follows [OF E m3(2) _ pr] f by auto
    have out: "res = Inr c" "st' = note_change p st3" using run rec m3(1) pr by auto
    have "{1..p} \<subseteq> known (put_pending m3 st)"
    proof
      fix s assume "s \<in> {1..p}"
      then show "s \<in> known (put_pending m3 st)"
        by (cases "s \<le> last_seq st") (use m3(3) in \<open>auto simp: known_def subset_iff\<close>)
    qed
    then have "p \<le> last_seq st3" using drained_longest [of E st3 p] fin by auto
    moreover have "el_sent (ss_events st3) = take (last_seq st3) E"
      using session_followsD(6) [of E st3] fin by simp
    moreover have "session_ready E st3" using fin by (simp add: session_ready_def)
    ultimately show ?thesis using True out by simp
  next
    case False
    then have "queue_exit p r (ss_ordered ?st2) = Inl (recovery_gap_error p)" using ex new(1) by simp
    then show ?thesis using False run rec by auto
  qed
qed

definition example_events :: "exec_process_event list" where
  "example_events = [Output \<lparr>poc_seq = 1, poc_stream = Stdout, poc_chunk = [7]\<rparr>, Exited 2 0, Closed 3]"

lemma server_events_example: "server_events example_events"
proof -
  have "\<not> is_closed_event (example_events ! i)" if "Suc i < length example_events" for i
    using that by (auto simp: less_Suc_eq example_events_def)
  then show ?thesis
    unfolding server_events_def example_events_def by (simp add: u64_max_def u64_modulus_def upt_rec)
qed

theorem recovery_is_exact_witness:
  "let r = \<lparr>rr_chunks = [\<lparr>poc_seq = 1, poc_stream = Stdout, poc_chunk = [7]\<rparr>], rr_next_seq = 4,
            rr_exited = True, rr_exit_code = Some 0, rr_closed = True, rr_failure = None,
            rr_sandbox_denied = False\<rparr>;
       st' = snd (recover_events r (session_state_new True))
   in 3 \<le> last_seq st' \<and> el_sent (ss_events st') = take (last_seq st') example_events"
proof -
  let ?c = "\<lparr>poc_seq = 1, poc_stream = Stdout, poc_chunk = [7 :: byte]\<rparr>"
  let ?r = "\<lparr>rr_chunks = [?c], rr_next_seq = 4, rr_exited = True, rr_exit_code = Some 0,
     rr_closed = True, rr_failure = None, rr_sandbox_denied = False\<rparr>"
  let ?st = "session_state_new True"
  have "response_matches example_events 3 ?r"
    by (simp add: response_matches_def example_events_def event_at_def)
  moreover have "s = 1" if "s \<le> 3" "is_output_event (event_at example_events s)" "0 < s" for s
    using that by (auto simp: example_events_def event_at_def le_Suc_eq numeral_3_eq_3)
  then have "lost_outputs example_events 3 ?r ?st = {}"
    by (auto simp: lost_outputs_def)
  ultimately show ?thesis
    using recovery_is_exact [OF server_events_example session_ready_new, of 3 ?r True
        "fst (recover_events ?r ?st)" "snd (recover_events ?r ?st)"]
    by (simp add: session_state_new_def ordered_events_default_def Let_def)
qed

end
