(* ===== verification/Reconnect.thy ===== *)
theory Reconnect
  imports Process_Lifecycle Client_Session
begin

text \<open>
  The executor and the client together: what a process publishes in the executor, in every
  interleaving of its tasks, is what the client's session publishes, through reordered, repeated
  and lost notifications and a recovery by \<^verbatim>\<open>process/read\<close>. This joins the invariants of
  \<open>Process_Lifecycle\<close> with the recovery of \<open>Client_Session\<close>.
\<close>

subsection \<open>What the executor publishes is a sequence the client can follow\<close>

lemma rp_inv_length:
  assumes "rp_inv p"
  shows "rp_next_seq p = Suc (length (el_sent (rp_events p)))"
proof -
  have "length (map event_seq (el_sent (rp_events p))) = length (map Some [1..<rp_next_seq p])"
    using assms unfolding rp_inv_def rp_seq_inv_def by metis
  moreover have "1 \<le> rp_next_seq p" using assms by (simp add: rp_inv_def rp_seq_inv_def)
  ultimately show ?thesis by simp
qed

lemma process_server_events:
  assumes "rp_inv p" and "history_ok p"
  shows "server_events (el_sent (rp_events p))"
proof -
  let ?E = "el_sent (rp_events p)"
  have "length ?E < u64_max"
    using rp_inv_length [OF assms(1)] assms(1) by (simp add: rp_inv_def rp_seq_inv_def)
  moreover have "map event_seq ?E = map Some [1..<Suc (length ?E)]"
    using assms(1) rp_inv_length [OF assms(1)] by (simp add: rp_inv_def rp_seq_inv_def)
  moreover have "length (filter is_exited_event ?E) \<le> 1" using assms(2) by (simp add: history_ok_def)
  moreover have "\<not> is_closed_event (?E ! i)" if "Suc i < length ?E" for i
  proof (cases "rp_closed p")
    case True
    then obtain pre s where e: "?E = pre @ [Closed s]" "filter is_closed_event pre = []"
      using assms(2) by (auto simp: history_ok_def)
    then have "?E ! i \<in> set pre" using that by (simp add: nth_append)
    then show ?thesis using e(2) by (simp add: filter_empty_conv)
  next
    case False
    then show ?thesis using assms(2) that by (auto simp: history_ok_def filter_empty_conv)
  qed
  ultimately show ?thesis by (simp add: server_events_def del: upt_Suc)
qed

lemma output_chunks_mem: "c \<in> set (output_chunks E) \<Longrightarrow> Output c \<in> set E"
proof (induction E rule: rev_induct)
  case (snoc e E)
  then show ?case by (cases e) (auto simp: output_chunks_def List.map_filter_def)
qed simp

lemma output_chunks_events:
  assumes "server_events E" and "c \<in> set (output_chunks E)"
  shows "1 \<le> poc_seq c \<and> poc_seq c \<le> length E \<and> event_at E (poc_seq c) = Output c"
proof -
  have "Output c \<in> set E" using assms(2) by (rule output_chunks_mem)
  then obtain s where s: "1 \<le> s" "s \<le> length E" "Output c = event_at E s"
    using take_eventE [of "Output c" "length E" E] by auto
  then have "event_seq (Output c) = Some s" using server_events_seq [OF assms(1)] by metis
  then have "poc_seq c = s" by simp
  then show ?thesis using s by metis
qed

subsection \<open>What an unbounded read answers\<close>

definition recovery_params :: "process_id \<Rightarrow> session_state \<Rightarrow> read_params" where
  "recovery_params pid st =
     \<lparr>rd_process_id = pid, rd_after_seq = Some (oe_last_published_seq (ss_ordered st)),
      rd_max_bytes = None, rd_wait_ms = Some 0\<rparr>"

lemma unbounded_read_chunks:
  assumes "rp_inv p" and "rd_max_bytes params = None"
  shows "rr_chunks (read_process params p) = map to_output_chunk (unread (read_after params) p)"
proof (cases "unread (read_after params) p = []")
  case False
  have lim: "read_limit params = u64_max" using assms(2) by (simp add: read_limit_def)
  obtain k where "k \<le> length (unread (read_after params) p)"
    "collect_chunks u64_max (unread (read_after params) p) 0 [] (rp_next_seq p)
       = (map to_output_chunk (take k (unread (read_after params) p)),
          u64_succ (rc_seq (unread (read_after params) p ! (k - 1))))"
    "k = length (unread (read_after params) p)"
    using collect_chunks_start [OF False] unread_bytes [OF assms(1)] by metis
  then show ?thesis by (simp add: read_process_parts lim)
qed (simp add: read_process_parts)

lemma retained_are_outputs:
  "rp_inv p \<Longrightarrow> c \<in> set (rp_output p) \<Longrightarrow> to_output_chunk c \<in> set (output_chunks (el_sent (rp_events p)))"
  unfolding rp_inv_def rp_output_inv_def by (metis image_eqI list.set_map set_mono_suffix subsetD)

lemma read_matches:
  assumes inv: "rp_inv p" "history_ok p" and params: "rd_max_bytes params = None"
  shows "response_matches (el_sent (rp_events p)) (length (el_sent (rp_events p))) (read_process params p)"
proof -
  let ?E = "el_sent (rp_events p)" and ?r = "read_process params p"
  note E = process_server_events [OF inv]
  have fields: "rr_failure ?r = None" "rr_next_seq ?r = Suc (length ?E)" "rr_exited ?r = (rp_exit_code p \<noteq> None)"
    "rr_exit_code ?r = rp_exit_code p" "rr_closed ?r = rp_closed p"
    using params rp_inv_length [OF inv(1)] by (simp_all add: read_process_def Let_def split: prod.split)
  have "1 \<le> poc_seq c \<and> poc_seq c \<le> length ?E \<and> event_at ?E (poc_seq c) = Output c"
    if "c \<in> set (rr_chunks ?r)" for c
  proof (rule output_chunks_events [OF E])
    show "c \<in> set (output_chunks ?E)"
      using that retained_are_outputs [OF inv(1)] unfolding unbounded_read_chunks [OF inv(1) params]
      by (auto simp: unread_def)
  qed
  moreover have "(rp_exit_code p \<noteq> None) = (\<exists>e \<in> set ?E. is_exited_event e)"
    using inv(1) unfolding rp_inv_def rp_life_inv_def by (metis is_exited_event.elims(2) is_exited_event.simps(1))
  moreover have "rp_closed p = (\<exists>e \<in> set ?E. is_closed_event e)"
    using inv(1) unfolding rp_inv_def rp_life_inv_def by (metis is_closed_event.elims(2) is_closed_event.simps(1))
  moreover have "\<forall>s code. Exited s code \<in> set ?E \<longrightarrow> rp_exit_code p = Some code"
    using inv(2) by (simp add: history_ok_def)
  ultimately show ?thesis unfolding response_matches_def fields by simp
qed

subsection \<open>From the process to the subscriber, across a lost connection\<close>

definition deliver_all :: "exec_process_event list \<Rightarrow> nat list \<Rightarrow> session_state \<Rightarrow> session_state" where
  "deliver_all E ds st = fold (\<lambda>s st. snd (publish_ordered_event (event_at E s) st)) ds st"

text \<open>
  C1. A lost connection loses nothing that is still retained. In any interleaving of the executor's
  tasks let a process have published the events \<open>E\<close>; let any of their notifications have reached
  the client before the connection broke, in any order and any number of times. The read that the
  client sends on resuming then brings it up to date: if every output it missed is still retained,
  its subscribers have been sent exactly \<open>E\<close>; if some is not, the recovery reports the gap and
  publishes nothing.
\<close>

theorem reconnect_loses_nothing:
  assumes run: "(lp_step h ^^ n) (local_process_new c, {#}) (lp, ts)" "n < u64_max"
    and entry: "lp_entry pid lp = Some (RunningEntry p)"
    and E: "E = el_sent (rp_events p)"
    and ds: "set ds \<subseteq> {1..length E}"
    and st: "st = deliver_all E ds (session_state_new True)"
    and gap: "last_seq st < length E"
    and rec: "recover_events (read_process (recovery_params pid st) p) st = (res, st')"
  shows "if \<forall>s \<in> {last_seq st<..length E} - set ds.
              is_output_event (event_at E s) \<longrightarrow> s \<in> rc_seq ` set (rp_output p)
    then \<not> isl res \<and> el_sent (ss_events st') = E
    else res = Inl (recovery_gap_error (length E)) \<and> el_sent (ss_events st') = el_sent (ss_events st)"
proof -
  have inv: "rp_inv p" "history_ok p"
    using entry_ok_at [OF reachable_system_inv [OF run], of pid] entry by simp_all
  have SE: "server_events E" unfolding E by (rule process_server_events [OF inv])
  have ready: "session_ready E st" and kn: "known st = set ds"
  proof -
    have "\<And>s. s \<in> set ds \<Longrightarrow> 1 \<le> s \<and> s \<le> length E" using ds by auto
    from deliver_fold [OF SE session_ready_new this, of ds True] show "session_ready E st" "known st = set ds"
      unfolding st deliver_all_def by (simp_all add: known_new)
  qed
  have params: "rd_max_bytes (recovery_params pid st) = None" "read_after (recovery_params pid st) = last_seq st"
    by (simp_all add: recovery_params_def read_after_def)
  have "response_matches E (length E) (read_process (recovery_params pid st) p)"
    unfolding E by (rule read_matches [OF inv params(1)])
  moreover have "\<not> oe_closed_published (ss_ordered st)"
    using closed_published_all [OF SE, of st] ready gap by (auto simp: session_ready_def)
  moreover have "lost_outputs E (length E) (read_process (recovery_params pid st) p) st = {} \<longleftrightarrow>
      (\<forall>s \<in> {last_seq st<..length E} - set ds.
         is_output_event (event_at E s) \<longrightarrow> s \<in> rc_seq ` set (rp_output p))"
  proof -
    have "poc_seq ` set (rr_chunks (read_process (recovery_params pid st) p))
        = {s \<in> rc_seq ` set (rp_output p). last_seq st < s}"
      unfolding unbounded_read_chunks [OF inv(1) params(1)] params(2)
      by (force simp: unread_def to_output_chunk_def image_iff)
    then show ?thesis unfolding lost_outputs_def kn by auto
  qed
  moreover have "session_ready E st' \<Longrightarrow> last_seq st' \<le> length E"
    using session_followsD(1) by (auto simp: session_ready_def)
  ultimately show ?thesis
    using recovery_is_exact [OF SE ready _ gap _ rec] by (auto split: if_splits)
qed

theorem reconnect_loses_nothing_witness:
  "\<exists>p. (\<exists>ts. (lp_step example_host ^^ 3) (local_process_new None, {#})
             (put_process ''p'' p example_running, ts :: unit task multiset))
     \<and> el_sent (rp_events p) = [Output \<lparr>poc_seq = 1, poc_stream = Stdout, poc_chunk = [7]\<rparr>]
     \<and> el_sent (ss_events (snd (recover_events
           (read_process (recovery_params ''p'' (session_state_new True)) p) (session_state_new True))))
         = el_sent (rp_events p)"
proof -
  let ?q = "new_running_process 5 (lp_next_addr example_started) False False NoSandbox"
  define p where "p = push_output Stdout [7] ?q"
  let ?lp = "put_process ''p'' p example_running" and ?st = "session_state_new True"
  let ?r = "recover_events (read_process (recovery_params ''p'' ?st) p) ?st"
  have chunk: "stream_chunk ''p'' Stdout [7] example_running = (Some (OutputDelta ''p'' 1 Stdout [7]), ?lp)"
    by (simp add: stream_chunk_def example_entry p_def) (simp add: new_running_process_def)
  have tasks: "spawned_tasks example_params
      = {#StreamTask ''p'' Stderr, ExitTask ''p''#} + {#StreamTask ''p'' Stdout#}"
    by (simp add: spawned_tasks_def example_params_def Let_def)
  obtain ts where "lp_step example_host (example_running, spawned_tasks example_params) (?lp, ts)"
    unfolding tasks using lp_step.stream_data [OF chunk] by blast
  then have run: "(lp_step example_host ^^ 3) (local_process_new None, {#}) (?lp, ts)"
    using example_run by (auto simp: numeral_3_eq_3 numeral_2_eq_2)
  have events: "el_sent (rp_events p) = [Output \<lparr>poc_seq = 1, poc_stream = Stdout, poc_chunk = [7]\<rparr>]"
    and out: "rc_seq ` set (rp_output p) = {1}"
    by (simp_all add: p_def push_output_def new_running_process_def to_output_chunk_def
        retained_output_bytes_per_process_def Let_def)
  have "(3 :: nat) < u64_max" by (simp add: u64_max_def u64_modulus_def)
  moreover have "last_seq ?st = 0" by (simp add: session_state_new_def ordered_events_default_def)
  moreover have "?st = deliver_all (el_sent (rp_events p)) [] ?st" by (simp add: deliver_all_def)
  ultimately have "el_sent (ss_events (snd ?r)) = el_sent (rp_events p)"
    using reconnect_loses_nothing [OF run, of "''p''" p "el_sent (rp_events p)" "[]" ?st "fst ?r" "snd ?r"]
      out events by (auto split: if_splits)
  then show ?thesis using run events by blast
qed

end
