(* ===== verification/File_Read.thy ===== *)
theory File_Read
  imports Wire
begin

text \<open>
  Reading files in blocks: the handle table of \<^verbatim>\<open>crates/exec-server/src/file_read.rs\<close> and the
  operations of \<^verbatim>\<open>crates/exec-server/src/server/file_system_handler.rs\<close> that use it. A file
  is a handle; the system call \<^verbatim>\<open>read_at\<close> is the argument \<open>read_at\<close>, indexed by the number of
  the call, since the same read may be interrupted once and succeed the next time. Opening a
  file (\<^verbatim>\<open>LocalFileSystem::open_file_for_read\<close>) and the failure of a blocking task are
  arguments too.
\<close>

datatype io_error_kind = NotFound | InvalidInput | PermissionDenied | Interrupted | InvalidData | BrokenPipe
  | UnexpectedEof | ConnectionAborted | TimedOut | OtherKind

record io_error =
  ioe_kind :: io_error_kind
  ioe_message :: string

definition max_open_file_reads :: nat where
  "max_open_file_reads = 128"

definition file_read_chunk_size :: nat where
  "file_read_chunk_size = 1024 * 1024"

definition max_file_read_handle_id_bytes :: nat where
  "max_file_read_handle_id_bytes = 32"

type_synonym file_handle = nat

record file_read_block =
  fb_bytes :: "byte list"
  fb_eof :: bool

type_synonym file_read_handles = "(string, file_handle) hash_map"

definition handles_open ::
  "string \<Rightarrow> file_handle \<Rightarrow> file_read_handles \<Rightarrow> (io_error + string) \<times> file_read_handles" where
  "handles_open hid f hs =
     (if hm_contains hid hs
      then (Inl \<lparr>ioe_kind = InvalidInput,
                 ioe_message = ''file read handle `'' @ hid @ ''` already exists''\<rparr>, hs)
      else if length hs \<ge> max_open_file_reads
      then (Inl \<lparr>ioe_kind = InvalidInput,
                 ioe_message = ''at most '' @ show_nat max_open_file_reads
                   @ '' file reads may be open per connection''\<rparr>, hs)
      else (Inr hid, hm_insert hid f hs))"

definition handles_close :: "string \<Rightarrow> file_read_handles \<Rightarrow> file_read_handles" where
  "handles_close hid hs = hm_remove hid hs"

definition handles_close_all :: "file_read_handles \<Rightarrow> file_read_handles" where
  "handles_close_all hs = []"

definition validate_read_block_len :: "nat \<Rightarrow> io_error + unit" where
  "validate_read_block_len len =
     (if \<not> (1 \<le> len \<and> len \<le> file_read_chunk_size)
      then Inl \<lparr>ioe_kind = InvalidInput,
                ioe_message = ''file read block length must be between 1 and '' @ show_nat file_read_chunk_size\<rparr>
      else Inr ())"

definition unknown_handle_error :: "string \<Rightarrow> io_error" where
  "unknown_handle_error hid =
     \<lparr>ioe_kind = NotFound, ioe_message = ''unknown file read handle `'' @ hid @ ''`''\<rparr>"

type_synonym reader = "nat \<Rightarrow> nat \<Rightarrow> nat \<Rightarrow> io_error + byte list"

text \<open>
  The loop of \<open>read_block_at\<close>: \<open>t\<close> numbers the calls of \<open>read_at\<close>, \<open>acc\<close> is the part of the
  buffer already filled. The loop retries interrupted calls for ever, hence the fuel.
\<close>

fun read_block_loop ::
  "reader \<Rightarrow> nat \<Rightarrow> nat \<Rightarrow> nat \<Rightarrow> nat \<Rightarrow> byte list \<Rightarrow> (io_error + file_read_block) option" where
  "read_block_loop read_at 0 t offset len acc = None"
| "read_block_loop read_at (Suc fuel) t offset len acc =
     (if length acc < len then
        (if offset + length acc > u64_max
         then Some (Inl \<lparr>ioe_kind = InvalidInput, ioe_message = ''file read offset overflowed''\<rparr>)
         else case read_at t (offset + length acc) (len - length acc) of
                Inr [] \<Rightarrow> Some (Inr \<lparr>fb_bytes = acc, fb_eof = length acc < len\<rparr>)
              | Inr bs \<Rightarrow> read_block_loop read_at fuel (Suc t) offset len (acc @ bs)
              | Inl e \<Rightarrow> if ioe_kind e = Interrupted
                         then read_block_loop read_at fuel (Suc t) offset len acc
                         else Some (Inl e))
      else Some (Inr \<lparr>fb_bytes = acc, fb_eof = length acc < len\<rparr>))"

definition read_block_at :: "reader \<Rightarrow> nat \<Rightarrow> nat \<Rightarrow> nat \<Rightarrow> (io_error + file_read_block) option" where
  "read_block_at read_at fuel offset len = read_block_loop read_at fuel 0 offset len []"

text \<open>
  \<open>read_block\<close>: \<open>run f offset len\<close> is the result of the blocking task, or the message of the
  error that stopped it. A failed read closes its handle.
\<close>

definition handles_read_block ::
  "(file_handle \<Rightarrow> nat \<Rightarrow> nat \<Rightarrow> string + (io_error + file_read_block)) \<Rightarrow> string \<Rightarrow> nat \<Rightarrow> nat \<Rightarrow> file_read_handles
     \<Rightarrow> (io_error + file_read_block) \<times> file_read_handles" where
  "handles_read_block run hid offset len hs =
     (case validate_read_block_len len of
        Inl e \<Rightarrow> (Inl e, hs)
      | Inr _ \<Rightarrow>
          (case hm_get hs hid of
             None \<Rightarrow> (Inl (unknown_handle_error hid), hs)
           | Some f \<Rightarrow>
               (let result =
                  (case run f offset len of
                     Inl err \<Rightarrow> Inl \<lparr>ioe_kind = OtherKind,
                                     ioe_message = ''file read task stopped unexpectedly: '' @ err\<rparr>
                   | Inr r \<Rightarrow> r)
                in (result, case result of Inl _ \<Rightarrow> handles_close hid hs | Inr _ \<Rightarrow> hs))))"

subsection \<open>The file operations of the request handler\<close>

definition validate_file_read_handle_id :: "string \<Rightarrow> jsonrpc_error_error + unit" where
  "validate_file_read_handle_id hid =
     (if length hid > max_file_read_handle_id_bytes
      then Inl (invalid_request (''file read handle ID must not exceed ''
                  @ show_nat max_file_read_handle_id_bytes @ '' bytes''))
      else Inr ())"

definition map_fs_error :: "io_error \<Rightarrow> jsonrpc_error_error" where
  "map_fs_error e =
     (case ioe_kind e of
        NotFound \<Rightarrow> not_found (ioe_message e)
      | InvalidInput \<Rightarrow> invalid_request (ioe_message e)
      | PermissionDenied \<Rightarrow> invalid_request (ioe_message e)
      | _ \<Rightarrow> internal_error (ioe_message e))"

definition fs_open ::
  "(string \<Rightarrow> io_error + file_handle) \<Rightarrow> string \<Rightarrow> string \<Rightarrow> file_read_handles
     \<Rightarrow> (jsonrpc_error_error + string) \<times> file_read_handles" where
  "fs_open open_file hid path hs =
     (case validate_file_read_handle_id hid of
        Inl e \<Rightarrow> (Inl e, hs)
      | Inr _ \<Rightarrow>
          (case open_file path of
             Inl e \<Rightarrow> (Inl (map_fs_error e), hs)
           | Inr f \<Rightarrow>
               (case handles_open hid f hs of
                  (Inl e, hs') \<Rightarrow> (Inl (map_fs_error e), hs')
                | (Inr h, hs') \<Rightarrow> (Inr h, hs'))))"

definition fs_read_block ::
  "(file_handle \<Rightarrow> nat \<Rightarrow> nat \<Rightarrow> string + (io_error + file_read_block)) \<Rightarrow> string \<Rightarrow> nat \<Rightarrow> nat \<Rightarrow> file_read_handles
     \<Rightarrow> (jsonrpc_error_error + file_read_block) \<times> file_read_handles" where
  "fs_read_block run hid offset len hs =
     (case validate_file_read_handle_id hid of
        Inl e \<Rightarrow> (Inl e, hs)
      | Inr _ \<Rightarrow>
          (case handles_read_block run hid offset len hs of
             (Inl e, hs') \<Rightarrow> (Inl (map_fs_error e), hs')
           | (Inr b, hs') \<Rightarrow> (Inr b, hs')))"

definition fs_close ::
  "string \<Rightarrow> file_read_handles \<Rightarrow> (jsonrpc_error_error + unit) \<times> file_read_handles" where
  "fs_close hid hs =
     (case validate_file_read_handle_id hid of
        Inl e \<Rightarrow> (Inl e, hs)
      | Inr _ \<Rightarrow> (Inr (), handles_close hid hs))"

subsection \<open>The handle table\<close>

definition handles_inv :: "file_read_handles \<Rightarrow> bool" where
  "handles_inv hs \<longleftrightarrow> hm_wf hs \<and> length hs \<le> max_open_file_reads"

lemma hm_insert_fresh_length: "\<not> hm_contains k m \<Longrightarrow> length (hm_insert k v m) = Suc (length m)"
  unfolding hm_contains_def hm_insert_def by (induction m) (auto split: if_splits)

lemma handles_remove_length: "length (hm_remove k m) \<le> length m"
  by (simp add: hm_remove_def length_delete_le)

lemma handles_open_inv: "handles_inv hs \<Longrightarrow> handles_inv (snd (handles_open hid f hs))"
  by (auto simp: handles_inv_def handles_open_def hm_insert_fresh_length)

lemma handles_close_inv: "handles_inv hs \<Longrightarrow> handles_inv (handles_close hid hs)"
  using handles_remove_length [of hid hs] by (simp add: handles_inv_def handles_close_def)

lemma handles_read_block_inv: "handles_inv hs \<Longrightarrow> handles_inv (snd (handles_read_block run hid offset len hs))"
  by (simp add: handles_read_block_def handles_close_inv Let_def split: sum.split option.split)

datatype fs_request = FsOpen string string | FsReadBlock string nat nat | FsClose string

fun fs_step ::
  "(string \<Rightarrow> io_error + file_handle) \<Rightarrow> (file_handle \<Rightarrow> nat \<Rightarrow> nat \<Rightarrow> string + (io_error + file_read_block))
     \<Rightarrow> fs_request \<Rightarrow> file_read_handles \<Rightarrow> file_read_handles" where
  "fs_step open_file run (FsOpen hid path) hs = snd (fs_open open_file hid path hs)"
| "fs_step open_file run (FsReadBlock hid offset len) hs = snd (fs_read_block run hid offset len hs)"
| "fs_step open_file run (FsClose hid) hs = snd (fs_close hid hs)"

lemma fs_step_inv: "handles_inv hs \<Longrightarrow> handles_inv (fs_step open_file run r hs)"
proof (cases r)
  case (FsOpen hid path)
  assume "handles_inv hs"
  then show ?thesis
    using FsOpen handles_open_inv [of hs hid]
    by (auto simp: fs_open_def split: sum.split prod.split) (metis snd_conv)+
next
  case (FsReadBlock hid offset len)
  assume "handles_inv hs"
  then show ?thesis
    using FsReadBlock handles_read_block_inv [of hs run hid offset len]
    by (auto simp: fs_read_block_def split: sum.split prod.split)
next
  case (FsClose hid)
  assume "handles_inv hs"
  then show ?thesis using FsClose by (simp add: fs_close_def handles_close_inv split: sum.split)
qed

subsection \<open>What one block contains\<close>

text \<open>
  The documented behaviour of a positioned read of a file with contents \<open>content\<close>: an interrupted
  call, or some of the bytes at the offset, and none only for an empty buffer or past the end.
\<close>

definition honest_reader :: "byte list \<Rightarrow> reader \<Rightarrow> bool" where
  "honest_reader content rd \<longleftrightarrow>
     (\<forall>t off n. case rd t off n of
        Inl e \<Rightarrow> ioe_kind e = Interrupted
      | Inr bs \<Rightarrow> bs = take (length bs) (drop off content) \<and> length bs \<le> n
                  \<and> (bs = [] \<longrightarrow> n = 0 \<or> length content \<le> off))"

definition interrupts_end :: "nat \<Rightarrow> reader \<Rightarrow> bool" where
  "interrupts_end T rd \<longleftrightarrow> (\<forall>t off n. T \<le> t \<longrightarrow> \<not> isl (rd t off n))"

lemma honest_reader_Inr:
  "honest_reader content rd \<Longrightarrow> rd t off n = Inr bs \<Longrightarrow>
     bs = take (length bs) (drop off content) \<and> length bs \<le> n
     \<and> (bs = [] \<longrightarrow> n = 0 \<or> length content \<le> off)"
  unfolding honest_reader_def by (drule spec [of _ t], drule spec [of _ off], drule spec [of _ n]) simp

lemma honest_reader_Inl:
  "honest_reader content rd \<Longrightarrow> rd t off n = Inl e \<Longrightarrow> ioe_kind e = Interrupted"
  unfolding honest_reader_def by (drule spec [of _ t], drule spec [of _ off], drule spec [of _ n]) simp

lemma take_drop_append:
  "a = take (length a) (drop off xs) \<Longrightarrow> b = take (length b) (drop (off + length a) xs) \<Longrightarrow>
     a @ b = take (length (a @ b)) (drop off xs)"
  by (metis add.commute drop_drop length_append take_add)

lemma read_block_loop_exact:
  assumes honest: "honest_reader content rd" and ends: "interrupts_end T rd"
    and size: "length content \<le> u64_max" and off: "off \<le> u64_max"
  shows "acc = take (length acc) (drop off content) \<Longrightarrow> length acc \<le> n \<Longrightarrow>
    fuel > (T - t) + (n - length acc) \<Longrightarrow>
    read_block_loop rd fuel t off n acc =
      Some (Inr \<lparr>fb_bytes = take n (drop off content),
                 fb_eof = length (take n (drop off content)) < n\<rparr>)"
proof (induction fuel arbitrary: t acc)
  case 0
  then show ?case by simp
next
  case (Suc fuel)
  note acc = Suc.prems(1)
  have accle: "length acc \<le> length content - off"
    using acc by (metis length_drop length_take min.cobounded1)
  show ?case
  proof (cases "length acc < n")
    case False
    then have "acc = take n (drop off content)" using acc Suc.prems(2) by (simp add: le_antisym)
    then show ?thesis using False Suc.prems(2) by simp
  next
    case True
    have fits: "\<not> off + length acc > u64_max" using accle size off by linarith
    show ?thesis
    proof (cases "rd t (off + length acc) (n - length acc)")
      case (Inl e)
      then have "ioe_kind e = Interrupted" by (rule honest_reader_Inl [OF honest])
      moreover have "t < T" using ends Inl unfolding interrupts_end_def by (metis isl_def not_le)
      ultimately show ?thesis
        using True fits Inl Suc.IH [of acc "Suc t"] Suc.prems by simp
    next
      case (Inr bs)
      note rd = honest_reader_Inr [OF honest Inr]
      show ?thesis
      proof (cases bs)
        case Nil
        then have "length content \<le> off + length acc" using rd True by auto
        then have "drop off content = acc" using acc by simp
        moreover have "take n acc = acc" using True by simp
        ultimately show ?thesis using True fits Inr Nil by simp
      next
        case (Cons b bs')
        have "acc @ bs = take (length (acc @ bs)) (drop off content)"
          using take_drop_append [OF acc] rd by blast
        moreover have "length (acc @ bs) \<le> n"
          using conjunct1 [OF conjunct2 [OF rd]] True by simp
        moreover have "fuel > (T - Suc t) + (n - length (acc @ bs))"
          using Suc.prems(3) True Cons by simp
        ultimately have "read_block_loop rd fuel (Suc t) off n (acc @ bs) =
            Some (Inr \<lparr>fb_bytes = take n (drop off content),
                       fb_eof = length (take n (drop off content)) < n\<rparr>)"
          by (rule Suc.IH)
        then show ?thesis using True fits Inr Cons by simp
      qed
    qed
  qed
qed

text \<open>
  A block read of a file that honours the contract of a positioned read, with any short reads
  and at most \<open>T\<close> interruptions, returns (with fuel for the \<open>T\<close> interruptions, one call per byte
  and one more) exactly the bytes of the file at that range, and reports the end of the file
  exactly when fewer bytes than asked for are left.
\<close>

theorem read_block_at_exact:
  assumes "honest_reader content rd" and "interrupts_end T rd"
    and "length content \<le> u64_max" and "off \<le> u64_max" and "fuel > T + n"
  shows "read_block_at rd fuel off n =
    Some (Inr \<lparr>fb_bytes = take n (drop off content), fb_eof = (length content < off + n \<and> 0 < n)\<rparr>)"
proof -
  have "read_block_at rd fuel off n =
    Some (Inr \<lparr>fb_bytes = take n (drop off content), fb_eof = length (take n (drop off content)) < n\<rparr>)"
    unfolding read_block_at_def
    by (rule read_block_loop_exact [OF assms(1-4)]) (use assms(5) in auto)
  moreover have "length (take n (drop off content)) < n \<longleftrightarrow> length content < off + n \<and> 0 < n" by auto
  ultimately show ?thesis by simp
qed

theorem read_block_at_exact_witness:
  "let rd = (\<lambda>t off n. if t = 0 then Inl \<lparr>ioe_kind = Interrupted, ioe_message = ''EINTR''\<rparr>
                       else Inr (take (min 1 n) (drop off [7, 8, 9])))
   in read_block_at rd 12 1 5 = Some (Inr \<lparr>fb_bytes = [8, 9], fb_eof = True\<rparr>)"
proof -
  let ?rd = "\<lambda>t off n. if t = 0 then Inl \<lparr>ioe_kind = Interrupted, ioe_message = ''EINTR''\<rparr>
                       else Inr (take (min 1 n) (drop off [7, 8, 9 :: byte]))"
  have "honest_reader [7, 8, 9] ?rd"
    by (auto simp: honest_reader_def min_def)
  moreover have "interrupts_end 1 ?rd"
    by (simp add: interrupts_end_def)
  ultimately show ?thesis
    using read_block_at_exact [of "[7, 8, 9]" ?rd 1 1 5 12] by (simp add: u64_max_def u64_modulus_def)
qed

text \<open>
  No sequence of file requests on one connection holds more than 128 files open or two
  files under one handle id, whatever the file system answers.
\<close>

theorem open_files_bounded:
  "handles_inv (fold (fs_step open_file run) rs [])"
proof -
  have "handles_inv hs \<Longrightarrow> handles_inv (fold (fs_step open_file run) rs hs)" for hs
    by (induction rs arbitrary: hs) (auto simp: fs_step_inv)
  then show ?thesis by (simp add: handles_inv_def)
qed

end
