(* ===== verification/Remote_File_Stream.thy ===== *)
theory Remote_File_Stream
  imports File_Read
begin

text \<open>
  The client's side of a streamed file read, \<^verbatim>\<open>crates/exec-server/src/remote_file_stream.rs\<close>:
  the stream that \<open>try_unfold\<close> builds, with its registration and offset as the state, and the
  remote calls as arguments on the server's state \<open>'s\<close>. A registration that is dropped while it is
  active spawns a last close; the ids of those closes are the fourth component of a step.
\<close>

definition map_remote_error :: "exec_server_error \<Rightarrow> io_error" where
  "map_remote_error e =
     (case e of
        ServerError code m \<Rightarrow>
          if code = -32004 then \<lparr>ioe_kind = NotFound, ioe_message = m\<rparr>
          else if code = -32600 then \<lparr>ioe_kind = InvalidInput, ioe_message = m\<rparr>
          else \<lparr>ioe_kind = OtherKind, ioe_message = m\<rparr>
      | TransportClosed \<Rightarrow> \<lparr>ioe_kind = BrokenPipe, ioe_message = ''exec-server transport closed''\<rparr>
      | Disconnected _ \<Rightarrow> \<lparr>ioe_kind = BrokenPipe, ioe_message = ''exec-server transport closed''\<rparr>
      | _ \<Rightarrow> \<lparr>ioe_kind = OtherKind, ioe_message = show_exec_server_error e\<rparr>)"

type_synonym 's read_block_call =
  "string \<Rightarrow> nat \<Rightarrow> nat \<Rightarrow> 's \<Rightarrow> (exec_server_error + file_read_block) \<times> 's"

type_synonym 's close_call = "string \<Rightarrow> 's \<Rightarrow> (exec_server_error + unit) \<times> 's"

type_synonym stream_state = "(string \<times> nat) option"

datatype stream_item = StreamChunk "byte list" | StreamEnd | StreamError io_error

definition remote_stream_open ::
  "(string \<Rightarrow> string \<Rightarrow> 's \<Rightarrow> (exec_server_error + string) \<times> 's) \<Rightarrow> string \<Rightarrow> string \<Rightarrow> 's
     \<Rightarrow> (io_error + stream_state) \<times> 's \<times> string list" where
  "remote_stream_open call_open uuid path s =
     (case call_open uuid path s of
        (Inl e, s') \<Rightarrow> (Inl (map_remote_error e), s', [uuid])
      | (Inr _, s') \<Rightarrow> (Inr (Some (uuid, 0)), s', []))"

definition invalid_data :: "string \<Rightarrow> stream_item" where
  "invalid_data m = StreamError \<lparr>ioe_kind = InvalidData, ioe_message = m\<rparr>"

definition remote_stream_next ::
  "'s read_block_call \<Rightarrow> 's close_call \<Rightarrow> stream_state \<Rightarrow> 's
     \<Rightarrow> stream_item \<times> stream_state \<times> 's \<times> string list" where
  "remote_stream_next call_read call_close st s =
     (case st of
        None \<Rightarrow> (StreamEnd, None, s, [])
      | Some (hid, offset) \<Rightarrow>
          (case call_read hid offset file_read_chunk_size s of
             (Inl e, s1) \<Rightarrow> (StreamError (map_remote_error e), None, s1, [hid])
           | (Inr b, s1) \<Rightarrow>
               (let chunk = fb_bytes b in
                if length chunk > file_read_chunk_size
                then (invalid_data (''fs/readBlock returned '' @ show_nat (length chunk)
                        @ '' bytes, maximum is '' @ show_nat file_read_chunk_size), None, s1, [hid])
                else if fb_eof b
                then (case call_close hid s1 of
                        (r, s2) \<Rightarrow>
                          (if chunk = [] then StreamEnd else StreamChunk chunk, None, s2,
                           if isl r then [hid] else []))
                else if chunk = []
                then (invalid_data ''fs/readBlock returned an empty non-terminal block'', None, s1, [hid])
                else if offset + length chunk > u64_max
                then (invalid_data (''fs/readBlock offset overflowed after '' @ show_nat offset @ '' bytes''),
                      None, s1, [hid])
                else (StreamChunk chunk, Some (hid, offset + length chunk), s1, []))))"

text \<open>A consumer that polls the stream to its end; the number of polls is bounded by the fuel.\<close>

fun drain_stream ::
  "'s read_block_call \<Rightarrow> 's close_call \<Rightarrow> nat \<Rightarrow> stream_state \<Rightarrow> 's
     \<Rightarrow> (byte list list \<times> io_error option \<times> 's \<times> string list) option" where
  "drain_stream call_read call_close 0 st s = None"
| "drain_stream call_read call_close (Suc fuel) st s =
     (case remote_stream_next call_read call_close st s of
        (StreamEnd, _, s', sp) \<Rightarrow> Some ([], None, s', sp)
      | (StreamError e, _, s', sp) \<Rightarrow> Some ([], Some e, s', sp)
      | (StreamChunk c, st', s', sp) \<Rightarrow>
          (case drain_stream call_read call_close fuel st' s' of
             None \<Rightarrow> None
           | Some (cs, r, s'', sp') \<Rightarrow> Some (c # cs, r, s'', sp @ sp')))"

subsection \<open>The stream on the executor's own file table\<close>

definition to_server_error :: "jsonrpc_error_error \<Rightarrow> exec_server_error" where
  "to_server_error e = ServerError (je_code e) (je_message e)"

definition server_read_block ::
  "(file_handle \<Rightarrow> nat \<Rightarrow> nat \<Rightarrow> string + (io_error + file_read_block))
     \<Rightarrow> file_read_handles read_block_call" where
  "server_read_block run hid off n hs =
     (case fs_read_block run hid off n hs of
        (Inl e, hs') \<Rightarrow> (Inl (to_server_error e), hs')
      | (Inr b, hs') \<Rightarrow> (Inr b, hs'))"

definition server_close :: "file_read_handles close_call" where
  "server_close hid hs =
     (case fs_close hid hs of
        (Inl e, hs') \<Rightarrow> (Inl (to_server_error e), hs')
      | (Inr _, hs') \<Rightarrow> (Inr (), hs'))"

text \<open>The blocking task on file \<open>f\<close> runs \<open>read_block_at\<close> on an honest reader of \<open>content\<close>.\<close>

definition runs_read_block ::
  "byte list \<Rightarrow> (file_handle \<Rightarrow> nat \<Rightarrow> nat \<Rightarrow> string + (io_error + file_read_block)) \<Rightarrow> file_handle \<Rightarrow> bool" where
  "runs_read_block content run f \<longleftrightarrow>
     (\<forall>off n. off \<le> u64_max \<longrightarrow> (\<exists>rd T r. honest_reader content rd \<and> interrupts_end T rd
        \<and> read_block_at rd (Suc (T + n)) off n = Some r \<and> run f off n = Inr r))"

lemma runs_read_block_value:
  assumes "runs_read_block content run f" and "length content \<le> u64_max" and "off \<le> u64_max"
  shows "run f off n = Inr (Inr \<lparr>fb_bytes = take n (drop off content),
                                 fb_eof = length (take n (drop off content)) < n\<rparr>)"
proof -
  obtain rd T r where r: "honest_reader content rd" "interrupts_end T rd"
    "read_block_at rd (Suc (T + n)) off n = Some r" "run f off n = Inr r"
    using assms(1,3) unfolding runs_read_block_def by blast
  have "read_block_at rd (Suc (T + n)) off n = Some (Inr \<lparr>fb_bytes = take n (drop off content),
      fb_eof = length (take n (drop off content)) < n\<rparr>)"
    unfolding read_block_at_def
    by (rule read_block_loop_exact [OF r(1,2) assms(2,3)]) auto
  then show ?thesis using r(3,4) by simp
qed

lemma chunk_size_pos: "0 < file_read_chunk_size"
  by (simp add: file_read_chunk_size_def)

lemma server_read_block_value:
  assumes run: "runs_read_block content run f" "length content \<le> u64_max" "off \<le> u64_max"
    and hid: "length hid \<le> max_file_read_handle_id_bytes" "hm_get hs hid = Some f"
  shows "server_read_block run hid off file_read_chunk_size hs =
    (Inr \<lparr>fb_bytes = take file_read_chunk_size (drop off content),
          fb_eof = length (take file_read_chunk_size (drop off content)) < file_read_chunk_size\<rparr>, hs)"
  using runs_read_block_value [OF run] hid chunk_size_pos
  by (simp add: server_read_block_def fs_read_block_def validate_file_read_handle_id_def
      handles_read_block_def validate_read_block_len_def)

lemma server_close_value:
  "length hid \<le> max_file_read_handle_id_bytes \<Longrightarrow> server_close hid hs = (Inr (), hm_remove hid hs)"
  by (simp add: server_close_def fs_close_def validate_file_read_handle_id_def handles_close_def)

definition good_chunks :: "byte list list \<Rightarrow> bool" where
  "good_chunks cs \<longleftrightarrow> (\<forall>c \<in> set cs. c \<noteq> [] \<and> length c \<le> file_read_chunk_size)"

lemma drain_stream_exact:
  assumes run: "runs_read_block content run f" "length content \<le> u64_max"
    and hid: "length hid \<le> max_file_read_handle_id_bytes" "hm_get hs hid = Some f"
  shows "off \<le> length content \<Longrightarrow> fuel > Suc (length content - off) \<Longrightarrow>
    \<exists>cs. drain_stream (server_read_block run) server_close fuel (Some (hid, off)) hs
           = Some (cs, None, hm_remove hid hs, [])
       \<and> concat cs = drop off content \<and> good_chunks cs"
proof (induction "length content - off" arbitrary: off fuel rule: less_induct)
  case less
  have off: "off \<le> u64_max" using less.prems(1) run(2) by simp
  let ?c = "take file_read_chunk_size (drop off content)"
  note rd = server_read_block_value [OF run off hid]
  note next_defs = remote_stream_next_def rd server_close_value [OF hid(1)]
  obtain fu where fu: "fuel = Suc fu" "0 < fu" using less.prems(2) by (cases fuel) auto
  then obtain fv where fv: "fu = Suc fv" by (cases fu) auto
  show ?case
  proof (cases "length ?c < file_read_chunk_size")
    case True
    then have all: "?c = drop off content" by auto
    show ?thesis
    proof (cases "?c = []")
      case True
      then have "remote_stream_next (server_read_block run) server_close (Some (hid, off)) hs
          = (StreamEnd, None, hm_remove hid hs, [])"
        using chunk_size_pos by (simp add: next_defs)
      moreover have "drop off content = []" using True all by argo
      ultimately show ?thesis using fu by (simp add: good_chunks_def)
    next
      case False
      then have "remote_stream_next (server_read_block run) server_close (Some (hid, off)) hs
          = (StreamChunk (drop off content), None, hm_remove hid hs, [])"
        using True all by (simp add: next_defs)
      moreover have "good_chunks [drop off content]"
        using False all by (simp add: good_chunks_def)
      ultimately show ?thesis
        using fu fv by (auto simp: remote_stream_next_def)
    qed
  next
    case False
    then have len: "length ?c = file_read_chunk_size" by simp
    then have le: "off + file_read_chunk_size \<le> length content"
      using chunk_size_pos by (simp add: min_def split: if_splits)
    then have ne: "?c \<noteq> []" using chunk_size_pos by auto
    have "remote_stream_next (server_read_block run) server_close (Some (hid, off)) hs
        = (StreamChunk ?c, Some (hid, off + file_read_chunk_size), hs, [])"
      using False len ne le run(2) by (simp add: next_defs Let_def)
    moreover have "length content - (off + file_read_chunk_size) < length content - off"
      using le chunk_size_pos by linarith
    moreover have "fu > Suc (length content - (off + file_read_chunk_size))"
      using le chunk_size_pos less.prems(2) fu by linarith
    moreover from calculation(2-) obtain cs where cs:
      "drain_stream (server_read_block run) server_close fu (Some (hid, off + file_read_chunk_size)) hs
         = Some (cs, None, hm_remove hid hs, [])"
      "concat cs = drop (off + file_read_chunk_size) content" "good_chunks cs"
      using less.hyps [of "off + file_read_chunk_size" fu] le by blast
    moreover have "concat (?c # cs) = drop off content"
      using cs(2) by (simp add: add.commute drop_drop [symmetric] del: drop_drop)
    moreover have "good_chunks (?c # cs)" using cs(3) ne len by (simp add: good_chunks_def)
    ultimately show ?thesis using fu by auto
  qed
qed

text \<open>A task that reads whole blocks satisfies the hypothesis.\<close>

lemma exact_reader_honest: "honest_reader content (\<lambda>t off n. Inr (take n (drop off content)))"
  by (auto simp: honest_reader_def min_def)

lemma exact_run_reads_blocks:
  assumes "length content \<le> u64_max"
  shows "runs_read_block content (\<lambda>f off n. Inr (Inr \<lparr>fb_bytes = take n (drop off content),
           fb_eof = length (take n (drop off content)) < n\<rparr>)) f"
proof -
  let ?rd = "\<lambda>(t :: nat) off n. Inr (take n (drop off content)) :: io_error + byte list"
  have fin: "interrupts_end 0 ?rd" by (simp add: interrupts_end_def)
  have "read_block_at ?rd (Suc (0 + n)) off n = Some (Inr \<lparr>fb_bytes = take n (drop off content),
      fb_eof = length (take n (drop off content)) < n\<rparr>)" if "off \<le> u64_max" for off n
    unfolding read_block_at_def
    by (rule read_block_loop_exact [OF exact_reader_honest fin assms that]) auto
  then show ?thesis
    unfolding runs_read_block_def using exact_reader_honest fin by blast
qed

text \<open>
  C30. A client that streams a file from the executor receives its bytes exactly: polled to the
  end, the stream ends without an error, the concatenation of its chunks is the content of the
  file, no chunk is empty or longer than 1 MiB, and the executor has closed the handle and no
  other. (Each poll but the last delivers at least one byte, so the fuel is enough.)
\<close>

theorem remote_stream_delivers_file:
  assumes "runs_read_block content run f" and "length content \<le> u64_max"
    and "length hid \<le> max_file_read_handle_id_bytes" and "hm_get hs hid = Some f"
    and "fuel > Suc (length content)"
  shows "\<exists>cs. drain_stream (server_read_block run) server_close fuel (Some (hid, 0)) hs
                = Some (cs, None, hm_remove hid hs, [])
            \<and> concat cs = content \<and> good_chunks cs"
  using drain_stream_exact [OF assms(1-4), of 0 fuel] assms(5) by simp

theorem remote_stream_delivers_file_witness:
  "\<exists>cs. drain_stream
     (server_read_block (\<lambda>f off n. Inr (Inr \<lparr>fb_bytes = take n (drop off [7, 8, 9]),
        fb_eof = length (take n (drop off [7, 8, 9 :: byte])) < n\<rparr>)))
     server_close 5 (Some (''h'', 0)) [(''g'', 1), (''h'', 2)]
       = Some (cs, None, hm_remove ''h'' [(''g'', 1), (''h'', 2)], [])
     \<and> concat cs = [7, 8, 9] \<and> good_chunks cs"
  by (rule remote_stream_delivers_file [where f = 2, OF exact_run_reads_blocks])
    (simp_all add: u64_max_def u64_modulus_def max_file_read_handle_id_bytes_def)

end
