(* ===== verification/Session_Registry.thy ===== *)
theory Session_Registry
  imports Process_Lifecycle
begin

text \<open>
  The executor's sessions, \<^verbatim>\<open>crates/exec-server/src/server/session_registry.rs\<close>: a session is a
  process table that outlives its connection for a while. An \<^verbatim>\<open>Arc<SessionEntry>\<close> is an address
  into \<open>sr_entries\<close>; time is in milliseconds; the values of \<^verbatim>\<open>Uuid::new_v4\<close> and
  \<^verbatim>\<open>Instant::now\<close> are arguments. What runs under the lock of the session map is one
  definition; the shutdown of an expired session runs after the lock is released.
\<close>

definition detached_session_ttl :: nat where
  "detached_session_ttl = 30 * 1000"

type_synonym connection_id = string

record attachment_state =
  as_current :: "connection_id option"
  as_detached :: "connection_id option"
  as_expires_at :: "nat option"

record session_entry =
  se_session_id :: string
  se_process :: local_process
  se_attachment :: attachment_state

record session_registry =
  sr_sessions :: "(string, addr) hash_map"
  sr_entries :: "addr \<Rightarrow> session_entry option"
  sr_next :: addr

record session_handle =
  sh_entry :: addr
  sh_connection_id :: connection_id

definition session_registry_new :: session_registry where
  "session_registry_new = \<lparr>sr_sessions = [], sr_entries = (\<lambda>_. None), sr_next = 0\<rparr>"

subsection \<open>One session\<close>

definition session_entry_new :: "string \<Rightarrow> local_process \<Rightarrow> connection_id \<Rightarrow> session_entry" where
  "session_entry_new sid p cid =
     \<lparr>se_session_id = sid, se_process = p,
      se_attachment = \<lparr>as_current = Some cid, as_detached = None, as_expires_at = None\<rparr>\<rparr>"

definition entry_attach :: "connection_id \<Rightarrow> session_entry \<Rightarrow> session_entry" where
  "entry_attach cid e =
     e\<lparr>se_attachment := \<lparr>as_current = Some cid, as_detached = None, as_expires_at = None\<rparr>\<rparr>"

definition entry_detach :: "connection_id \<Rightarrow> nat \<Rightarrow> session_entry \<Rightarrow> bool \<times> session_entry" where
  "entry_detach cid now e =
     (if as_current (se_attachment e) \<noteq> Some cid then (False, e)
      else (True, e\<lparr>se_process := lp_set_notification_sender None (se_process e),
                    se_attachment := \<lparr>as_current = None, as_detached = Some cid,
                                      as_expires_at = Some (now + detached_session_ttl)\<rparr>\<rparr>))"

definition has_active_connection :: "session_entry \<Rightarrow> bool" where
  "has_active_connection e = (as_current (se_attachment e) \<noteq> None)"

definition is_attached_to :: "connection_id \<Rightarrow> session_entry \<Rightarrow> bool" where
  "is_attached_to cid e = (as_current (se_attachment e) = Some cid)"

definition is_expired :: "nat \<Rightarrow> session_entry \<Rightarrow> bool" where
  "is_expired now e =
     (case as_expires_at (se_attachment e) of None \<Rightarrow> False | Some deadline \<Rightarrow> now \<ge> deadline)"

definition is_detached_connection_expired :: "connection_id \<Rightarrow> nat \<Rightarrow> session_entry \<Rightarrow> bool" where
  "is_detached_connection_expired cid now e \<longleftrightarrow>
     as_current (se_attachment e) = None \<and> as_detached (se_attachment e) = Some cid
     \<and> (case as_expires_at (se_attachment e) of None \<Rightarrow> False | Some deadline \<Rightarrow> now \<ge> deadline)"

subsection \<open>The registry\<close>

definition put_entry :: "addr \<Rightarrow> session_entry \<Rightarrow> session_registry \<Rightarrow> session_registry" where
  "put_entry a e reg = reg\<lparr>sr_entries := (sr_entries reg)(a \<mapsto> e)\<rparr>"

definition registered :: "string \<Rightarrow> session_registry \<Rightarrow> (addr \<times> session_entry) option" where
  "registered sid reg =
     (case hm_get (sr_sessions reg) sid of
        None \<Rightarrow> None
      | Some a \<Rightarrow> map_option (\<lambda>e. (a, e)) (sr_entries reg a))"

datatype attach_outcome = Attached addr | Expired string addr

definition unknown_session :: "string \<Rightarrow> jsonrpc_error_error" where
  "unknown_session sid = invalid_request (''unknown session id '' @ sid)"

definition attach_locked ::
  "string option \<Rightarrow> conn \<Rightarrow> connection_id \<Rightarrow> string \<Rightarrow> nat \<Rightarrow> session_registry
     \<Rightarrow> (jsonrpc_error_error + attach_outcome) \<times> session_registry" where
  "attach_locked resume c cid uuid now reg =
     (case resume of
        Some sid \<Rightarrow>
          (case registered sid reg of
             None \<Rightarrow> (Inl (unknown_session sid), reg)
           | Some (a, e) \<Rightarrow>
               if is_expired now e
               then (Inr (Expired sid a), reg\<lparr>sr_sessions := hm_remove sid (sr_sessions reg)\<rparr>)
               else if has_active_connection e
               then (Inl (session_already_attached
                       (''session '' @ sid @ '' is already attached to another connection'')), reg)
               else (Inr (Attached a),
                     put_entry a
                       (entry_attach cid
                         (e\<lparr>se_process := lp_set_notification_sender (Some c) (se_process e)\<rparr>)) reg))
      | None \<Rightarrow>
          (let a = sr_next reg
           in (Inr (Attached a),
               put_entry a (session_entry_new uuid (local_process_new (Some c)) cid)
                 (reg\<lparr>sr_sessions := hm_insert uuid a (sr_sessions reg), sr_next := a + 1\<rparr>))))"

definition shutdown_entry :: "addr \<Rightarrow> session_registry \<Rightarrow> session_registry" where
  "shutdown_entry a reg =
     (case sr_entries reg a of
        None \<Rightarrow> reg
      | Some e \<Rightarrow> put_entry a (e\<lparr>se_process := lp_shutdown (se_process e)\<rparr>) reg)"

definition sr_attach ::
  "(session_registry \<Rightarrow> session_registry) \<Rightarrow> string option \<Rightarrow> conn \<Rightarrow> connection_id \<Rightarrow> string \<Rightarrow> nat
     \<Rightarrow> session_registry \<Rightarrow> (jsonrpc_error_error + session_handle) \<times> session_registry" where
  "sr_attach others resume c cid uuid now reg =
     (case attach_locked resume c cid uuid now reg of
        (Inl err, reg1) \<Rightarrow> (Inl err, reg1)
      | (Inr (Attached a), reg1) \<Rightarrow> (Inr \<lparr>sh_entry = a, sh_connection_id = cid\<rparr>, reg1)
      | (Inr (Expired sid a), reg1) \<Rightarrow> (Inl (unknown_session sid), shutdown_entry a (others reg1)))"

definition expire_locked ::
  "string \<Rightarrow> connection_id \<Rightarrow> nat \<Rightarrow> session_registry \<Rightarrow> addr option \<times> session_registry" where
  "expire_locked sid cid now reg =
     (case registered sid reg of
        None \<Rightarrow> (None, reg)
      | Some (a, e) \<Rightarrow>
          if \<not> is_detached_connection_expired cid now e then (None, reg)
          else (Some a, reg\<lparr>sr_sessions := hm_remove sid (sr_sessions reg)\<rparr>))"

definition expire_if_detached ::
  "(session_registry \<Rightarrow> session_registry) \<Rightarrow> string \<Rightarrow> connection_id \<Rightarrow> nat \<Rightarrow> session_registry
     \<Rightarrow> session_registry" where
  "expire_if_detached others sid cid now reg =
     (case expire_locked sid cid now reg of
        (None, reg1) \<Rightarrow> reg1
      | (Some a, reg1) \<Rightarrow> shutdown_entry a (others reg1))"

text \<open>Handles; \<open>detach\<close> says whether it spawned the expiry timer, and for which session.\<close>

definition handle_is_attached :: "session_handle \<Rightarrow> session_registry \<Rightarrow> bool" where
  "handle_is_attached h reg =
     (case sr_entries reg (sh_entry h) of
        None \<Rightarrow> False | Some e \<Rightarrow> is_attached_to (sh_connection_id h) e)"

definition handle_detach ::
  "session_handle \<Rightarrow> nat \<Rightarrow> session_registry \<Rightarrow> (string \<times> connection_id) option \<times> session_registry" where
  "handle_detach h now reg =
     (case sr_entries reg (sh_entry h) of
        None \<Rightarrow> (None, reg)
      | Some e \<Rightarrow>
          (case entry_detach (sh_connection_id h) now e of
             (False, _) \<Rightarrow> (None, reg)
           | (True, e') \<Rightarrow> (Some (se_session_id e, sh_connection_id h), put_entry (sh_entry h) e' reg)))"

subsection \<open>The registry under its tasks\<close>

text \<open>
  All that happens to a registry: connections attach and detach, the expiry timers fire, expired
  sessions are shut down, processes work (which never changes where notifications go), and time
  passes. A fresh uuid differs from all those generated before, which \<open>rs_used\<close> records.
\<close>

record registry_system =
  rs_reg :: session_registry
  rs_handles :: "session_handle list"
  rs_timers :: "(string \<times> connection_id \<times> nat) list"
  rs_shutdowns :: "addr list"
  rs_now :: nat
  rs_used :: "string list"

inductive registry_step :: "registry_system \<Rightarrow> registry_system \<Rightarrow> bool" where
  step_attach: "attach_locked resume c cid uuid (rs_now s) (rs_reg s) = (Inr (Attached a), reg') \<Longrightarrow>
     cid \<notin> set (rs_used s) \<Longrightarrow> uuid \<notin> set (rs_used s) \<Longrightarrow>
     registry_step s (s\<lparr>rs_reg := reg',
       rs_handles := \<lparr>sh_entry = a, sh_connection_id = cid\<rparr> # rs_handles s,
       rs_used := cid # uuid # rs_used s\<rparr>)"
| step_expired: "attach_locked resume c cid uuid (rs_now s) (rs_reg s) = (Inr (Expired sid a), reg') \<Longrightarrow>
     registry_step s (s\<lparr>rs_reg := reg', rs_shutdowns := a # rs_shutdowns s\<rparr>)"
| step_detach: "h \<in> set (rs_handles s) \<Longrightarrow>
     handle_detach h (rs_now s) (rs_reg s) = (Some (sid, cid), reg') \<Longrightarrow> rs_now s \<le> later \<Longrightarrow>
     registry_step s (s\<lparr>rs_reg := reg',
       rs_timers := (sid, cid, later + detached_session_ttl) # rs_timers s, rs_now := later\<rparr>)"
| step_timer: "(sid, cid, wake) \<in> set (rs_timers s) \<Longrightarrow> wake \<le> rs_now s \<Longrightarrow>
     expire_locked sid cid (rs_now s) (rs_reg s) = (r, reg') \<Longrightarrow>
     registry_step s (s\<lparr>rs_reg := reg', rs_timers := remove1 (sid, cid, wake) (rs_timers s),
       rs_shutdowns := (case r of None \<Rightarrow> rs_shutdowns s | Some a \<Rightarrow> a # rs_shutdowns s)\<rparr>)"
| step_shutdown: "a \<in> set (rs_shutdowns s) \<Longrightarrow>
     registry_step s (s\<lparr>rs_reg := shutdown_entry a (rs_reg s), rs_shutdowns := remove1 a (rs_shutdowns s)\<rparr>)"
| step_work: "sr_entries (rs_reg s) a = Some e \<Longrightarrow> lp_notifications p = lp_notifications (se_process e) \<Longrightarrow>
     registry_step s (s\<lparr>rs_reg := put_entry a (e\<lparr>se_process := p\<rparr>) (rs_reg s)\<rparr>)"
| step_tick: "registry_step s (s\<lparr>rs_now := rs_now s + d\<rparr>)"

definition registry_start :: "registry_system \<Rightarrow> bool" where
  "registry_start s \<longleftrightarrow> rs_reg s = session_registry_new \<and> rs_handles s = [] \<and> rs_timers s = []
     \<and> rs_shutdowns s = [] \<and> rs_used s = []"

text \<open>
  The invariant. An entry is attached (and then notifies its connection and has no deadline) or
  detached (and then notifies nobody and has a deadline); the map is keyed by the entries' own
  ids; a detached registered session has a timer that will find it expired; every attached entry
  belongs to a handle, and no two handles share a connection id; a session that is being shut down
  is no longer registered.
\<close>

definition entry_inv :: "session_entry \<Rightarrow> bool" where
  "entry_inv e \<longleftrightarrow>
     (case as_current (se_attachment e) of
        Some cid \<Rightarrow> as_detached (se_attachment e) = None \<and> as_expires_at (se_attachment e) = None
          \<and> lp_notifications (se_process e) \<noteq> None
      | None \<Rightarrow> as_detached (se_attachment e) \<noteq> None \<and> as_expires_at (se_attachment e) \<noteq> None
          \<and> lp_notifications (se_process e) = None)"

definition map_inv :: "session_registry \<Rightarrow> bool" where
  "map_inv reg \<longleftrightarrow> hm_wf (sr_sessions reg)
     \<and> (\<forall>sid a. hm_get (sr_sessions reg) sid = Some a \<longrightarrow>
          map_option se_session_id (sr_entries reg a) = Some sid)
     \<and> (\<forall>a e. sr_entries reg a = Some e \<longrightarrow> a < sr_next reg \<and> entry_inv e)"

definition timer_covers :: "(string \<times> connection_id \<times> nat) list \<Rightarrow> session_entry \<Rightarrow> bool" where
  "timer_covers ts e \<longleftrightarrow>
     (\<forall>cid d. as_detached (se_attachment e) = Some cid \<longrightarrow> as_expires_at (se_attachment e) = Some d \<longrightarrow>
        (\<exists>wake. (se_session_id e, cid, wake) \<in> set ts \<and> d \<le> wake))"

definition timers_inv :: "registry_system \<Rightarrow> bool" where
  "timers_inv s \<longleftrightarrow>
     (\<forall>sid a e. registered sid (rs_reg s) = Some (a, e) \<longrightarrow> timer_covers (rs_timers s) e)"

definition handles_owned :: "registry_system \<Rightarrow> bool" where
  "handles_owned s \<longleftrightarrow>
     (\<forall>h \<in> set (rs_handles s). sh_connection_id h \<in> set (rs_used s))
     \<and> distinct (map sh_connection_id (rs_handles s))
     \<and> (\<forall>sid a. hm_get (sr_sessions (rs_reg s)) sid = Some a \<longrightarrow> sid \<in> set (rs_used s))
     \<and> (\<forall>a e cid. sr_entries (rs_reg s) a = Some e \<longrightarrow> is_attached_to cid e \<longrightarrow>
          \<lparr>sh_entry = a, sh_connection_id = cid\<rparr> \<in> set (rs_handles s))"

definition shutdowns_inv :: "registry_system \<Rightarrow> bool" where
  "shutdowns_inv s \<longleftrightarrow>
     (\<forall>a \<in> set (rs_shutdowns s). a < sr_next (rs_reg s)
        \<and> (\<forall>sid. hm_get (sr_sessions (rs_reg s)) sid \<noteq> Some a))"

definition registry_inv :: "registry_system \<Rightarrow> bool" where
  "registry_inv s \<longleftrightarrow> map_inv (rs_reg s) \<and> timers_inv s \<and> handles_owned s \<and> shutdowns_inv s"

lemmas registry_defs =
  registered_def put_entry_def entry_attach_def entry_detach_def session_entry_new_def
  has_active_connection_def is_attached_to_def is_expired_def is_detached_connection_expired_def
  handle_detach_def handle_is_attached_def

lemma lp_notifications_simps [simp]:
  "lp_notifications (lp_set_notification_sender c lp) = c"
  "lp_notifications (local_process_new c) = c"
  "lp_notifications (lp_shutdown lp) = lp_notifications lp"
  by (simp_all add: lp_set_notification_sender_def local_process_new_def lp_shutdown_def add_effects_def)

lemma registeredD:
  "registered sid reg = Some (a, e) \<Longrightarrow> hm_get (sr_sessions reg) sid = Some a \<and> sr_entries reg a = Some e"
  by (auto simp: registered_def split: option.splits)

lemma map_invD:
  assumes "map_inv reg"
  shows "hm_wf (sr_sessions reg)"
    and "hm_get (sr_sessions reg) sid = Some a \<Longrightarrow> map_option se_session_id (sr_entries reg a) = Some sid"
    and "sr_entries reg a = Some e \<Longrightarrow> a < sr_next reg"
    and "sr_entries reg a = Some e \<Longrightarrow> entry_inv e"
  using assms unfolding map_inv_def by blast+

lemma map_invI:
  assumes "hm_wf (sr_sessions reg)"
    and "\<And>sid a. hm_get (sr_sessions reg) sid = Some a \<Longrightarrow>
           map_option se_session_id (sr_entries reg a) = Some sid"
    and "\<And>a e. sr_entries reg a = Some e \<Longrightarrow> a < sr_next reg \<and> entry_inv e"
  shows "map_inv reg"
  using assms unfolding map_inv_def by blast

lemma registered_session_id: "map_inv reg \<Longrightarrow> registered sid reg = Some (a, e) \<Longrightarrow> se_session_id e = sid"
  using map_invD(2) [of reg sid a] by (auto dest: registeredD)

lemma map_inv_put:
  assumes "map_inv reg" and "sr_entries reg a = Some e" and "se_session_id e' = se_session_id e"
    and "entry_inv e'"
  shows "map_inv (put_entry a e' reg)"
proof (rule map_invI)
  fix sid b
  assume "hm_get (sr_sessions (put_entry a e' reg)) sid = Some b"
  then have "map_option se_session_id (sr_entries reg b) = Some sid"
    using map_invD(2) [OF assms(1), of sid b] by (simp add: put_entry_def)
  then show "map_option se_session_id (sr_entries (put_entry a e' reg) b) = Some sid"
    using assms(2,3) by (auto simp: put_entry_def)
qed (use map_invD [OF assms(1)] assms(2,4) in \<open>auto simp: put_entry_def split: if_splits\<close>)

lemma map_inv_remove: "map_inv reg \<Longrightarrow> map_inv (reg\<lparr>sr_sessions := hm_remove sid (sr_sessions reg)\<rparr>)"
  by (rule map_invI) (auto dest: map_invD simp: container_simps split: if_splits)

lemma map_inv_create:
  assumes "map_inv reg"
  shows "map_inv (put_entry (sr_next reg) (session_entry_new uuid (local_process_new (Some c)) cid)
    (reg\<lparr>sr_sessions := hm_insert uuid (sr_next reg) (sr_sessions reg), sr_next := sr_next reg + 1\<rparr>))"
    (is "map_inv ?r")
proof (rule map_invI)
  fix sid b
  assume "hm_get (sr_sessions ?r) sid = Some b"
  then consider "sid = uuid" "b = sr_next reg" | "sid \<noteq> uuid" "hm_get (sr_sessions reg) sid = Some b"
    by (auto simp: put_entry_def container_simps split: if_splits)
  then show "map_option se_session_id (sr_entries ?r b) = Some sid"
  proof cases
    case 2
    then have s: "map_option se_session_id (sr_entries reg b) = Some sid" using map_invD(2) [OF assms] by blast
    then have "b < sr_next reg" using map_invD(3) [OF assms, of b] by auto
    then show ?thesis using s by (simp add: put_entry_def)
  qed (simp add: put_entry_def session_entry_new_def)
qed (use map_invD [OF assms] in
     \<open>auto simp: put_entry_def session_entry_new_def entry_inv_def less_Suc_eq split: if_splits\<close>)

text \<open>What the operations on the registry do, case by case.\<close>

lemma attach_lockedE:
  assumes "attach_locked resume c cid uuid now reg = (Inr (Attached a), reg')"
  obtains (resumed) sid e where "resume = Some sid" "registered sid reg = Some (a, e)"
    "\<not> is_expired now e" "\<not> has_active_connection e"
    "reg' = put_entry a (entry_attach cid
       (e\<lparr>se_process := lp_set_notification_sender (Some c) (se_process e)\<rparr>)) reg"
  | (created) "resume = None" "a = sr_next reg"
    "reg' = put_entry a (session_entry_new uuid (local_process_new (Some c)) cid)
       (reg\<lparr>sr_sessions := hm_insert uuid a (sr_sessions reg), sr_next := a + 1\<rparr>)"
  using assms unfolding attach_locked_def
  by (auto simp: Let_def split: option.splits if_splits)

lemma attach_expiredE:
  assumes "attach_locked resume c cid uuid now reg = (Inr (Expired sid a), reg')"
  obtains e where "resume = Some sid" "registered sid reg = Some (a, e)" "is_expired now e"
    "reg' = reg\<lparr>sr_sessions := hm_remove sid (sr_sessions reg)\<rparr>"
  using assms unfolding attach_locked_def
  by (auto simp: Let_def split: option.splits if_splits)

lemma handle_detachE:
  assumes "handle_detach h now reg = (Some (sid, cid), reg')"
  obtains e where "sr_entries reg (sh_entry h) = Some e" "se_session_id e = sid"
    "cid = sh_connection_id h" "is_attached_to cid e"
    "reg' = put_entry (sh_entry h) (snd (entry_detach cid now e)) reg"
  using assms unfolding handle_detach_def
  by (auto simp: entry_detach_def is_attached_to_def split: option.splits if_splits)

lemma expire_lockedE:
  assumes "expire_locked sid cid now reg = (r, reg')"
  obtains (kept) "r = None" "reg' = reg"
      "\<forall>a e. registered sid reg = Some (a, e) \<longrightarrow> \<not> is_detached_connection_expired cid now e"
  | (removed) a e where "r = Some a" "registered sid reg = Some (a, e)"
      "is_detached_connection_expired cid now e"
      "reg' = reg\<lparr>sr_sessions := hm_remove sid (sr_sessions reg)\<rparr>"
  using assms unfolding expire_locked_def by (auto split: option.splits if_splits)

lemma registered_put:
  "registered sid (put_entry a e reg) =
     (if hm_get (sr_sessions reg) sid = Some a then Some (a, e) else registered sid reg)"
  by (auto simp: registered_def put_entry_def split: option.split)

lemma registered_remove:
  "registered sid (reg\<lparr>sr_sessions := hm_remove sid' (sr_sessions reg)\<rparr>) =
     (if sid = sid' then None else registered sid reg)"
  by (simp add: registered_def container_simps split: option.split)

lemma registered_create:
  assumes "map_inv reg" and "uuid \<notin> dom (hm_get (sr_sessions reg))"
  shows "registered sid (put_entry (sr_next reg) e
      (reg\<lparr>sr_sessions := hm_insert uuid (sr_next reg) (sr_sessions reg), sr_next := sr_next reg + 1\<rparr>)) =
    (if sid = uuid then Some (sr_next reg, e) else registered sid reg)"
  using map_invD(2,3) [OF assms(1)]
  by (fastforce simp: registered_def put_entry_def container_simps split: option.split)

lemma registry_entry_simps [simp]:
  "sr_entries (put_entry a e reg) = (sr_entries reg)(a \<mapsto> e)"
  "sr_sessions (put_entry a e reg) = sr_sessions reg"
  "sr_next (put_entry a e reg) = sr_next reg"
  by (simp_all add: put_entry_def)

lemma shutdown_entry_put:
  "sr_entries reg a = Some e \<Longrightarrow>
     shutdown_entry a reg = put_entry a (e\<lparr>se_process := lp_shutdown (se_process e)\<rparr>) reg"
  "sr_entries reg a = None \<Longrightarrow> shutdown_entry a reg = reg"
  by (simp_all add: shutdown_entry_def)

lemma entry_inv_detach: "is_attached_to cid e \<Longrightarrow> entry_inv (snd (entry_detach cid now e))"
  by (simp add: entry_inv_def entry_detach_def is_attached_to_def)

lemma entry_inv_attach:
  "entry_inv (entry_attach cid (e\<lparr>se_process := lp_set_notification_sender (Some c) p\<rparr>))"
  by (simp add: entry_inv_def entry_attach_def)

lemma entry_inv_process:
  "entry_inv e \<Longrightarrow> lp_notifications p = lp_notifications (se_process e) \<Longrightarrow> entry_inv (e\<lparr>se_process := p\<rparr>)"
  by (simp add: entry_inv_def split: option.splits)

lemma entry_session_id_simps [simp]:
  "se_session_id (entry_attach cid e) = se_session_id e"
  "se_session_id (snd (entry_detach cid now e)) = se_session_id e"
  "se_session_id (session_entry_new uuid p cid) = uuid"
  by (simp_all add: entry_attach_def entry_detach_def session_entry_new_def)

lemma map_inv_step: "registry_step s t \<Longrightarrow> map_inv (rs_reg s) \<Longrightarrow> map_inv (rs_reg t)"
proof (induction rule: registry_step.induct)
  case (step_attach resume c cid uuid s a reg')
  from step_attach.hyps(1) show ?case
  proof (cases rule: attach_lockedE)
    case (resumed sid e)
    then show ?thesis
      using step_attach.prems map_inv_put [OF step_attach.prems, of a e] registeredD [OF resumed(2)]
      by (simp add: entry_inv_attach)
  next
    case created
    then show ?thesis using map_inv_create [OF step_attach.prems] by simp
  qed
next
  case (step_expired resume c cid uuid s sid a reg')
  then show ?case by (auto elim!: attach_expiredE intro: map_inv_remove)
next
  case (step_detach h s sid cid reg' later)
  then show ?case by (auto elim!: handle_detachE intro!: map_inv_put entry_inv_detach)
next
  case (step_timer sid cid wake s r reg')
  from step_timer.hyps(3) show ?case
    by (cases rule: expire_lockedE) (use step_timer.prems in \<open>auto intro: map_inv_remove\<close>)
next
  case (step_shutdown a s)
  show ?case
  proof (cases "sr_entries (rs_reg s) a")
    case (Some e)
    then show ?thesis
      using step_shutdown.prems map_invD(4) [OF step_shutdown.prems Some]
      by (auto simp: shutdown_entry_put intro!: map_inv_put entry_inv_process)
  qed (use step_shutdown in \<open>simp add: shutdown_entry_put\<close>)
next
  case (step_work s a e p)
  then show ?case using map_invD(4) by (auto intro!: map_inv_put entry_inv_process)
qed simp

lemma timer_covers_attached: "as_current (se_attachment e) \<noteq> None \<Longrightarrow> entry_inv e \<Longrightarrow> timer_covers ts e"
  by (auto simp: timer_covers_def entry_inv_def)

lemma timer_covers_process [simp]: "timer_covers ts (e\<lparr>se_process := p\<rparr>) = timer_covers ts e"
  by (simp add: timer_covers_def)

lemma timer_covers_Cons: "timer_covers ts e \<Longrightarrow> timer_covers (t # ts) e"
  by (auto simp: timer_covers_def)

lemma timer_covers_detach:
  "is_attached_to cid e \<Longrightarrow> now \<le> later \<Longrightarrow>
     timer_covers ((se_session_id e, cid, later + detached_session_ttl) # ts) (snd (entry_detach cid now e))"
  by (auto simp: timer_covers_def entry_detach_def is_attached_to_def)

text \<open>A timer that does not remove the session it was started for does not cover it either.\<close>

lemma timer_covers_remove1:
  assumes "timer_covers ts e" and "entry_inv e" and "wake \<le> now"
    and "sid = se_session_id e \<Longrightarrow> \<not> is_detached_connection_expired cid now e"
  shows "timer_covers (remove1 (sid, cid, wake) ts) e"
proof -
  have "(se_session_id e, c', w) \<in> set (remove1 (sid, cid, wake) ts)"
    if "as_detached (se_attachment e) = Some c'" "as_expires_at (se_attachment e) = Some d"
      "(se_session_id e, c', w) \<in> set ts" "d \<le> w" for c' d w
  proof (cases "(se_session_id e, c', w) = (sid, cid, wake)")
    case True
    then have "is_detached_connection_expired cid now e"
      using that assms(2,3) by (auto simp: is_detached_connection_expired_def entry_inv_def split: option.splits)
    with True assms(4) show ?thesis by simp
  qed (use that in simp)
  then show ?thesis using assms(1) unfolding timer_covers_def by blast
qed

lemma timers_invD: "timers_inv s \<Longrightarrow> registered sid (rs_reg s) = Some (a, e) \<Longrightarrow> timer_covers (rs_timers s) e"
  unfolding timers_inv_def by blast

lemma timer_covers_put_process:
  assumes "\<And>sid b x. registered sid reg = Some (b, x) \<Longrightarrow> timer_covers ts x"
    and "sr_entries reg a = Some e"
    and "registered sid (put_entry a (e\<lparr>se_process := p\<rparr>) reg) = Some (b, x)"
  shows "timer_covers ts x"
proof (cases "hm_get (sr_sessions reg) sid = Some a")
  case True
  then have "registered sid reg = Some (a, e)" using assms(2) by (simp add: registered_def)
  then show ?thesis using assms(1,3) True by (auto simp: registered_put)
qed (use assms(1,3) in \<open>auto simp: registered_put\<close>)

lemma timers_inv_step:
  assumes "registry_step s t" and "map_inv (rs_reg s)" and "timers_inv s" and "handles_owned s"
  shows "timers_inv t"
  using assms
proof (induction rule: registry_step.induct)
  case (step_attach resume c cid uuid s a reg')
  note cover = timers_invD [OF step_attach.prems(2)]
  from step_attach.hyps(1) show ?case
  proof (cases rule: attach_lockedE)
    case (resumed sid e)
    then show ?thesis using cover
      by (auto simp: timers_inv_def registered_put intro!: timer_covers_attached entry_inv_attach split: if_splits)
        (simp add: entry_attach_def)
  next
    case created
    have "uuid \<notin> dom (hm_get (sr_sessions (rs_reg s)))"
      using step_attach.hyps(3) step_attach.prems(3) unfolding handles_owned_def by blast
    then show ?thesis using cover created registered_create [OF step_attach.prems(1)]
      by (auto simp: timers_inv_def session_entry_new_def timer_covers_def split: if_splits)
  qed
next
  case (step_expired resume c cid uuid s sid a reg')
  then show ?case
    using timers_invD [OF step_expired.prems(2)]
    by (auto elim!: attach_expiredE simp: timers_inv_def registered_remove split: if_splits)
next
  case (step_detach h s sid cid reg' later)
  from step_detach.hyps(2) obtain e where e: "sr_entries (rs_reg s) (sh_entry h) = Some e"
    "se_session_id e = sid" "is_attached_to cid e"
    "reg' = put_entry (sh_entry h) (snd (entry_detach cid (rs_now s) e)) (rs_reg s)"
    by (auto elim: handle_detachE)
  show ?case
    using timers_invD [OF step_detach.prems(2)] timer_covers_detach [OF e(3) step_detach.hyps(3)] e
    by (auto simp: timers_inv_def registered_put intro!: timer_covers_Cons split: if_splits)
next
  case (step_timer sid cid wake s r reg')
  note cover = timers_invD [OF step_timer.prems(2)]
  have keep: "timer_covers (remove1 (sid, cid, wake) (rs_timers s)) e"
    if "registered sid' (rs_reg s) = Some (a, e)"
      "sid = sid' \<Longrightarrow> \<not> is_detached_connection_expired cid (rs_now s) e" for sid' a e
  proof (rule timer_covers_remove1)
    show "entry_inv e" using map_invD(4) [OF step_timer.prems(1)] registeredD [OF that(1)] by blast
    show "sid = se_session_id e \<Longrightarrow> \<not> is_detached_connection_expired cid (rs_now s) e"
      using that registered_session_id [OF step_timer.prems(1) that(1)] by blast
  qed (use cover that step_timer.hyps(2) in auto)
  from step_timer.hyps(3) show ?case
    by (cases rule: expire_lockedE)
      (auto simp: timers_inv_def registered_remove intro!: keep split: if_splits)
next
  case (step_shutdown a s)
  show ?case
  proof (cases "sr_entries (rs_reg s) a")
    case (Some e)
    show ?thesis
      using timer_covers_put_process [OF timers_invD [OF step_shutdown.prems(2)] Some]
      by (auto simp: timers_inv_def shutdown_entry_put(1) [OF Some])
  qed (use step_shutdown.prems(2) in \<open>simp add: shutdown_entry_put timers_inv_def\<close>)
next
  case (step_work s a e p)
  show ?case
    using timer_covers_put_process [OF timers_invD [OF step_work.prems(2)] step_work.hyps(1)]
    by (auto simp: timers_inv_def)
qed (auto simp: timers_inv_def)

lemma handles_owned_step:
  assumes "registry_step s t" and "map_inv (rs_reg s)" and "handles_owned s"
  shows "handles_owned t"
  using assms
proof (induction rule: registry_step.induct)
  case (step_attach resume c cid uuid s a reg')
  then show ?case
    by (auto elim!: attach_lockedE simp: handles_owned_def entry_attach_def session_entry_new_def
        is_attached_to_def container_simps split: if_splits)
next
  case (step_expired resume c cid uuid s sid a reg')
  then show ?case
    by (auto elim!: attach_expiredE simp: handles_owned_def container_simps split: if_splits)
next
  case (step_detach h s sid cid reg' later)
  then show ?case
    by (auto elim!: handle_detachE simp: handles_owned_def entry_detach_def is_attached_to_def split: if_splits)
next
  case (step_timer sid cid wake s r reg')
  then show ?case
    by (auto elim!: expire_lockedE simp: handles_owned_def container_simps split: if_splits)
next
  case (step_shutdown a s)
  then show ?case
    by (cases "sr_entries (rs_reg s) a")
      (auto simp: shutdown_entry_put handles_owned_def is_attached_to_def split: if_splits)
next
  case (step_work s a e p)
  then show ?case
    by (auto simp: handles_owned_def is_attached_to_def split: if_splits)
qed (auto simp: handles_owned_def)

lemma session_addr_unique:
  assumes "map_inv reg" and "hm_get (sr_sessions reg) sid = Some a" and "hm_get (sr_sessions reg) sid' = Some a"
  shows "sid = sid'"
  using map_invD(2) [OF assms(1,2)] map_invD(2) [OF assms(1,3)] by simp

lemma shutdowns_inv_remove:
  assumes "map_inv (rs_reg s)" and "shutdowns_inv s" and "registered sid (rs_reg s) = Some (a, e)"
  shows "shutdowns_inv (s\<lparr>rs_reg := (rs_reg s)\<lparr>sr_sessions := hm_remove sid (sr_sessions (rs_reg s))\<rparr>,
    rs_shutdowns := a # rs_shutdowns s\<rparr>)"
  using assms registeredD [OF assms(3)] session_addr_unique [OF assms(1)] map_invD(3) [OF assms(1)]
  by (auto simp: shutdowns_inv_def container_simps)

lemma shutdowns_inv_step:
  assumes "registry_step s t" and "map_inv (rs_reg s)" and "shutdowns_inv s"
  shows "shutdowns_inv t"
  using assms
proof (induction rule: registry_step.induct)
  case (step_attach resume c cid uuid s a reg')
  from step_attach.hyps(1) show ?case
    by (cases rule: attach_lockedE)
      (use step_attach.prems in \<open>auto simp: shutdowns_inv_def container_simps split: if_splits\<close>)
next
  case (step_expired resume c cid uuid s sid a reg')
  then show ?case by (auto elim!: attach_expiredE intro: shutdowns_inv_remove)
next
  case (step_detach h s sid cid reg' later)
  then show ?case by (auto elim!: handle_detachE simp: shutdowns_inv_def)
next
  case (step_timer sid cid wake s r reg')
  from step_timer.hyps(3) show ?case
  proof (cases rule: expire_lockedE)
    case (removed a e)
    then show ?thesis using shutdowns_inv_remove [OF step_timer.prems removed(2)]
      by (simp add: shutdowns_inv_def)
  qed (use step_timer.prems in \<open>simp add: shutdowns_inv_def\<close>)
next
  case (step_shutdown a s)
  then show ?case
    by (cases "sr_entries (rs_reg s) a") (auto simp: shutdown_entry_put shutdowns_inv_def dest: notin_set_remove1)
qed (auto simp: shutdowns_inv_def)

lemma registry_inv_start: "registry_start s \<Longrightarrow> registry_inv s"
  by (simp add: registry_start_def registry_inv_def session_registry_new_def map_inv_def timers_inv_def
      handles_owned_def registered_def shutdowns_inv_def)

lemma registry_inv_step: "registry_step s t \<Longrightarrow> registry_inv s \<Longrightarrow> registry_inv t"
  unfolding registry_inv_def
  by (auto intro: map_inv_step timers_inv_step handles_owned_step shutdowns_inv_step)

interpretation registry_run: transition_invariant registry_start registry_step registry_inv
  by unfold_locales (rule registry_inv_start, assumption, rule registry_inv_step)

lemma rs_now_mono: "registry_step s t \<Longrightarrow> rs_now s \<le> rs_now t"
  by (induction rule: registry_step.induct) auto

subsection \<open>A session outlives its connection until the deadline, and no longer\<close>

text \<open>The session is registered at \<open>a\<close>, and attached or with a deadline not before \<open>d\<close>.\<close>

definition alive_until :: "string \<Rightarrow> addr \<Rightarrow> nat \<Rightarrow> session_registry \<Rightarrow> bool" where
  "alive_until sid a d reg \<longleftrightarrow>
     (\<exists>e. registered sid reg = Some (a, e)
        \<and> (as_current (se_attachment e) \<noteq> None
           \<or> (\<exists>d'. as_expires_at (se_attachment e) = Some d' \<and> d \<le> d')))"

lemma alive_not_expired:
  assumes "alive_until sid a d reg" and "map_inv reg" and "now < d" and "registered sid reg = Some (b, e)"
  shows "\<not> is_expired now e"
proof -
  have "entry_inv e" using map_invD(4) [OF assms(2)] registeredD [OF assms(4)] by blast
  then show ?thesis
    using assms(1,3,4) by (auto simp: alive_until_def is_expired_def entry_inv_def split: option.splits)
qed

lemma alive_remove_other:
  "alive_until sid a d reg \<Longrightarrow> sid' \<noteq> sid \<Longrightarrow>
     alive_until sid a d (reg\<lparr>sr_sessions := hm_remove sid' (sr_sessions reg)\<rparr>)"
  by (auto simp: alive_until_def registered_remove)

lemma alive_put:
  assumes "alive_until sid a d reg" and "sr_entries reg b = Some e"
    and "as_current (se_attachment e') \<noteq> None
         \<or> se_attachment e' = se_attachment e
         \<or> (\<exists>d'. as_expires_at (se_attachment e') = Some d' \<and> d \<le> d')"
  shows "alive_until sid a d (put_entry b e' reg)"
proof -
  obtain x where x: "registered sid reg = Some (a, x)" using assms(1) by (auto simp: alive_until_def)
  then have a: "hm_get (sr_sessions reg) sid = Some a" "sr_entries reg a = Some x"
    using registeredD by blast+
  show ?thesis
  proof (cases "b = a")
    case True
    then show ?thesis using assms x a by (auto simp: alive_until_def registered_put)
  qed (use assms x a in \<open>auto simp: alive_until_def registered_put\<close>)
qed

lemma alive_step:
  assumes "registry_step s t" and "registry_inv s" and "alive_until sid a d (rs_reg s)"
    and "rs_now s < d" and "d \<le> rs_now s + detached_session_ttl"
  shows "alive_until sid a d (rs_reg t)"
  using assms
proof (induction rule: registry_step.induct)
  case (step_attach resume c cid uuid s b reg')
  have mi: "map_inv (rs_reg s)" and ho: "handles_owned s"
    using step_attach.prems(1) by (auto simp: registry_inv_def)
  from step_attach.hyps(1) show ?case
  proof (cases rule: attach_lockedE)
    case (resumed sid' e)
    then show ?thesis
      using alive_put [OF step_attach.prems(2), of b e] registeredD [OF resumed(2)]
      by (simp add: entry_attach_def)
  next
    case created
    have fresh: "uuid \<notin> dom (hm_get (sr_sessions (rs_reg s)))"
      using step_attach.hyps(3) ho unfolding handles_owned_def by blast
    then have "sid \<noteq> uuid"
      using step_attach.prems(2) by (auto simp: alive_until_def dest: registeredD)
    then show ?thesis
      using step_attach.prems(2) created registered_create [OF mi fresh] by (simp add: alive_until_def)
  qed
next
  case (step_expired resume c cid uuid s sid' b reg')
  then have mi: "map_inv (rs_reg s)" by (simp add: registry_inv_def)
  from step_expired.hyps obtain e where e: "registered sid' (rs_reg s) = Some (b, e)" "is_expired (rs_now s) e"
    "reg' = (rs_reg s)\<lparr>sr_sessions := hm_remove sid' (sr_sessions (rs_reg s))\<rparr>"
    by (auto elim: attach_expiredE)
  then have "sid' \<noteq> sid"
    using alive_not_expired [OF step_expired.prems(2) mi step_expired.prems(3)] by blast
  then show ?case using e(3) alive_remove_other [OF step_expired.prems(2)] by simp
next
  case (step_detach h s sid' cid reg' later)
  from step_detach.hyps(2) obtain e where e: "sr_entries (rs_reg s) (sh_entry h) = Some e"
    "is_attached_to cid e" "reg' = put_entry (sh_entry h) (snd (entry_detach cid (rs_now s) e)) (rs_reg s)"
    by (auto elim: handle_detachE)
  then show ?case
    using alive_put [OF step_detach.prems(2) e(1)] step_detach.prems(4)
    by (simp add: entry_detach_def is_attached_to_def)
next
  case (step_timer sid' cid wake s r reg')
  then have mi: "map_inv (rs_reg s)" by (simp add: registry_inv_def)
  from step_timer.hyps(3) show ?case
  proof (cases rule: expire_lockedE)
    case (removed b e)
    then have "is_expired (rs_now s) e" by (simp add: is_detached_connection_expired_def is_expired_def)
    then have "sid' \<noteq> sid"
      using removed(2) alive_not_expired [OF step_timer.prems(2) mi step_timer.prems(3)] by blast
    then show ?thesis using removed alive_remove_other [OF step_timer.prems(2)] by simp
  qed (use step_timer.prems in simp)
next
  case (step_shutdown b s)
  then show ?case
    by (cases "sr_entries (rs_reg s) b") (auto simp: shutdown_entry_put intro: alive_put)
next
  case (step_work s b e p)
  then show ?case by (auto intro: alive_put)
qed simp

lemma alive_run:
  assumes "registry_step\<^sup>*\<^sup>* s t" and "registry_inv s" and "alive_until sid a d (rs_reg s)"
    and "d \<le> rs_now s + detached_session_ttl" and "rs_now t < d"
  shows "alive_until sid a d (rs_reg t)"
  using assms(1,5)
proof (induction rule: rtranclp_induct)
  case (step t u)
  have run: "registry_inv t" "rs_now s \<le> rs_now t"
    using step.hyps(1) assms(2) registry_run.inv_run
    by (blast, induction rule: rtranclp_induct) (auto dest: rs_now_mono)
  have now: "rs_now t \<le> rs_now u" using rs_now_mono [OF step.hyps(2)] .
  show ?case
    by (rule alive_step [OF step.hyps(2) run(1) step.IH]) (use now run step.prems assms(4) in simp_all)
qed (use assms(3) in simp)

lemma alive_resumes:
  assumes "registry_inv s" and "alive_until sid a d (rs_reg s)" and "rs_now s < d"
  shows "\<exists>e. registered sid (rs_reg s) = Some (a, e)
    \<and> (if has_active_connection e
       then attach_locked (Some sid) c cid uuid (rs_now s) (rs_reg s)
              = (Inl (session_already_attached
                       (''session '' @ sid @ '' is already attached to another connection'')), rs_reg s)
       else fst (attach_locked (Some sid) c cid uuid (rs_now s) (rs_reg s)) = Inr (Attached a))"
proof -
  obtain e where e: "registered sid (rs_reg s) = Some (a, e)" using assms(2) by (auto simp: alive_until_def)
  have "\<not> is_expired (rs_now s) e"
    using alive_not_expired [OF assms(2) _ assms(3) e] assms(1) by (simp add: registry_inv_def)
  then show ?thesis using e by (simp add: attach_locked_def)
qed

text \<open>
  C24. A session whose connection is lost can be resumed for the whole grace period. From the
  moment a handle detaches at time \<open>t\<close>, through any interleaving of other attaches, detaches,
  timers (also of earlier connections of the same session), shutdowns and process activity, as
  long as the clock is below \<open>t\<close> plus 30 seconds the session id still names the same entry, the
  entry is not being shut down, and a resume succeeds on it unless a connection holds it already.
\<close>

theorem detached_session_is_resumable:
  assumes "reachable_from registry_start registry_step s"
    and "h \<in> set (rs_handles s)"
    and "registered sid (rs_reg s) = Some (sh_entry h, e)"
    and "handle_detach h (rs_now s) (rs_reg s) = (Some (sid, sh_connection_id h), reg')"
    and "s' = s\<lparr>rs_reg := reg',
           rs_timers := (sid, sh_connection_id h, rs_now s + detached_session_ttl) # rs_timers s\<rparr>"
    and "registry_step\<^sup>*\<^sup>* s' t" and "rs_now t < rs_now s + detached_session_ttl"
  shows "sh_entry h \<notin> set (rs_shutdowns t)
    \<and> (\<exists>e'. registered sid (rs_reg t) = Some (sh_entry h, e')
        \<and> (if has_active_connection e'
           then attach_locked (Some sid) c cid uuid (rs_now t) (rs_reg t)
                  = (Inl (session_already_attached
                       (''session '' @ sid @ '' is already attached to another connection'')), rs_reg t)
           else fst (attach_locked (Some sid) c cid uuid (rs_now t) (rs_reg t)) = Inr (Attached (sh_entry h))))"
proof -
  have inv: "registry_inv s" using assms(1) by (rule registry_run.inv_reachable)
  have "registry_step s (s\<lparr>rs_reg := reg', rs_timers :=
      (sid, sh_connection_id h, rs_now s + detached_session_ttl) # rs_timers s, rs_now := rs_now s\<rparr>)"
    by (rule step_detach [OF assms(2,4)]) simp
  then have inv': "registry_inv s'"
    using registry_inv_step inv unfolding assms(5) by fastforce
  have alive: "alive_until sid (sh_entry h) (rs_now s + detached_session_ttl) (rs_reg s')"
  proof -
    obtain x where "is_attached_to (sh_connection_id h) x"
      "reg' = put_entry (sh_entry h) (snd (entry_detach (sh_connection_id h) (rs_now s) x)) (rs_reg s)"
      using assms(4) by (auto elim: handle_detachE)
    then show ?thesis using registeredD [OF assms(3)]
      by (simp add: assms(5) alive_until_def registered_put entry_detach_def is_attached_to_def)
  qed
  have now': "rs_now s' = rs_now s" by (simp add: assms(5))
  have alive_t: "alive_until sid (sh_entry h) (rs_now s + detached_session_ttl) (rs_reg t)"
    using alive_run [OF assms(6) inv' alive] assms(7) now' by simp
  have inv_t: "registry_inv t" using registry_run.inv_run [OF assms(6) inv'] .
  obtain e' where "registered sid (rs_reg t) = Some (sh_entry h, e')"
    using alive_t by (auto simp: alive_until_def)
  then have "sh_entry h \<notin> set (rs_shutdowns t)"
    using inv_t registeredD [of sid "rs_reg t"] unfolding registry_inv_def shutdowns_inv_def by blast
  then show ?thesis using alive_resumes [OF inv_t alive_t assms(7)] by blast
qed

theorem detached_session_is_resumable_witness:
  "let h = \<lparr>sh_entry = 0, sh_connection_id = ''c1''\<rparr>;
       reg0 = snd (attach_locked None 1 ''c1'' ''s1'' 0 session_registry_new);
       reg1 = snd (handle_detach h 0 reg0);
       t = \<lparr>rs_reg = reg1, rs_handles = [h], rs_timers = [(''s1'', ''c1'', 30000)], rs_shutdowns = [],
            rs_now = 29999, rs_used = [''c1'', ''s1'']\<rparr>
   in fst (attach_locked (Some ''s1'') 2 ''c2'' ''s2'' 29999 (rs_reg t)) = Inr (Attached 0)"
proof -
  define h where "h = \<lparr>sh_entry = 0, sh_connection_id = ''c1''\<rparr>"
  define i where "i = \<lparr>rs_reg = session_registry_new, rs_handles = [], rs_timers = [],
    rs_shutdowns = [], rs_now = 0, rs_used = []\<rparr>"
  define reg0 where "reg0 = snd (attach_locked None 1 ''c1'' ''s1'' 0 session_registry_new)"
  define s where "s = i\<lparr>rs_reg := reg0, rs_handles := [h], rs_used := [''c1'', ''s1'']\<rparr>"
  define reg1 where "reg1 = snd (handle_detach h 0 reg0)"
  define s' where "s' = s\<lparr>rs_reg := reg1,
    rs_timers := (''s1'', ''c1'', rs_now s + detached_session_ttl) # rs_timers s\<rparr>"
  define t where "t = s'\<lparr>rs_now := rs_now s' + 29999\<rparr>"
  note defs = attach_locked_def session_registry_new_def registry_defs hm_insert_def Let_def
  have "attach_locked None 1 ''c1'' ''s1'' (rs_now i) (rs_reg i) = (Inr (Attached 0), reg0)"
    by (simp add: i_def reg0_def defs)
  from step_attach [OF this] have "registry_step i s" by (simp add: i_def s_def h_def)
  then have reach: "reachable_from registry_start registry_step s"
    unfolding reachable_from_def by (intro exI [of _ i]) (simp add: registry_start_def i_def r_into_rtranclp)
  have run: "registry_step\<^sup>*\<^sup>* s' t" unfolding t_def by (rule r_into_rtranclp) (rule step_tick)
  have det: "handle_detach h (rs_now s) (rs_reg s) = (Some (''s1'', sh_connection_id h), reg1)"
    by (simp add: s_def i_def reg1_def reg0_def h_def defs)
  have reg: "registered ''s1'' (rs_reg s) = Some (sh_entry h,
      session_entry_new ''s1'' (local_process_new (Some 1)) ''c1'')"
    by (simp add: s_def reg0_def h_def defs)
  have now: "rs_now t < rs_now s + detached_session_ttl"
    by (simp add: t_def s'_def s_def i_def detached_session_ttl_def)
  have idle: "has_active_connection e' \<Longrightarrow> registered ''s1'' (rs_reg t) \<noteq> Some (sh_entry h, e')" for e'
    by (auto simp: t_def s'_def reg1_def reg0_def h_def defs)
  have mem: "h \<in> set (rs_handles s)" by (simp add: s_def)
  have s': "s' = s\<lparr>rs_reg := reg1,
      rs_timers := (''s1'', sh_connection_id h, rs_now s + detached_session_ttl) # rs_timers s\<rparr>"
    by (simp add: s'_def h_def)
  obtain e' where e': "registered ''s1'' (rs_reg t) = Some (sh_entry h, e')"
    "if has_active_connection e'
     then attach_locked (Some ''s1'') 2 ''c2'' ''s2'' (rs_now t) (rs_reg t)
            = (Inl (session_already_attached
                 (''session '' @ ''s1'' @ '' is already attached to another connection'')), rs_reg t)
     else fst (attach_locked (Some ''s1'') 2 ''c2'' ''s2'' (rs_now t) (rs_reg t)) = Inr (Attached (sh_entry h))"
    using detached_session_is_resumable [OF reach mem reg det s' run now, of 2 "''c2''" "''s2''"] by blast
  then have "\<not> has_active_connection e'" using idle by blast
  then have "fst (attach_locked (Some ''s1'') 2 ''c2'' ''s2'' (rs_now t) (rs_reg t)) = Inr (Attached (sh_entry h))"
    using e'(2) by (simp only: if_False)
  then show ?thesis
    by (simp add: t_def s'_def s_def i_def reg1_def reg0_def h_def)
qed

lemma expired_shutdown_effects:
  assumes "sr_entries reg a = Some e"
  shows "\<exists>e'. sr_entries (shutdown_entry a reg) a = Some e'
    \<and> (\<forall>pid. lp_entry pid (se_process e') = None)
    \<and> (\<forall>pid p. lp_entry pid (se_process e) = Some (RunningEntry p) \<longrightarrow>
          SessionTerminate (rp_session p) \<in> set (lp_effects (se_process e')))"
  using assms lp_shutdown_terminates by (auto simp: shutdown_entry_put)

text \<open>
  A session past its deadline is gone and its processes are killed, whichever notices first:
  the client that tries to resume it (which is told that the session is unknown) or the expiry
  timer of the connection that left it. In both cases the id is removed from the map, no other
  session is touched, and the shutdown that follows empties the process table of the entry and
  terminates every process that is running in it by then.
\<close>

theorem expired_session_is_shut_down:
  assumes "registered sid reg = Some (a, e)" and "entry_inv e"
    and "as_detached (se_attachment e) = Some left" and "is_expired now e"
    and "sr_entries (others (reg\<lparr>sr_sessions := hm_remove sid (sr_sessions reg)\<rparr>)) a = Some e1"
  shows "fst (sr_attach others (Some sid) c cid uuid now reg) = Inl (unknown_session sid)
    \<and> snd (sr_attach others (Some sid) c cid uuid now reg) = expire_if_detached others sid left now reg
    \<and> (\<forall>sid'. registered sid' (snd (expire_locked sid left now reg))
               = (if sid' = sid then None else registered sid' reg))
    \<and> (\<exists>e'. sr_entries (expire_if_detached others sid left now reg) a = Some e'
         \<and> (\<forall>pid. lp_entry pid (se_process e') = None)
         \<and> (\<forall>pid p. lp_entry pid (se_process e1) = Some (RunningEntry p) \<longrightarrow>
               SessionTerminate (rp_session p) \<in> set (lp_effects (se_process e'))))"
proof -
  let ?reg = "reg\<lparr>sr_sessions := hm_remove sid (sr_sessions reg)\<rparr>"
  have "as_current (se_attachment e) = None"
    using assms(2,3) by (auto simp: entry_inv_def split: option.splits)
  then have "is_detached_connection_expired left now e"
    using assms(3,4) by (simp add: is_detached_connection_expired_def is_expired_def)
  then have timer: "expire_locked sid left now reg = (Some a, ?reg)"
    using assms(1) by (simp add: expire_locked_def)
  have "attach_locked (Some sid) c cid uuid now reg = (Inr (Expired sid a), ?reg)"
    using assms(1,4) by (simp add: attach_locked_def)
  then have "sr_attach others (Some sid) c cid uuid now reg = (Inl (unknown_session sid), shutdown_entry a (others ?reg))"
    by (simp add: sr_attach_def)
  moreover have "expire_if_detached others sid left now reg = shutdown_entry a (others ?reg)"
    using timer by (simp add: expire_if_detached_def)
  ultimately show ?thesis
    using timer expired_shutdown_effects [OF assms(5)] by (simp add: registered_remove)
qed

theorem expired_session_is_shut_down_witness:
  "\<exists>e'. sr_entries (expire_if_detached id ''s'' ''c'' 31000
       \<lparr>sr_sessions = [(''s'', 0)],
        sr_entries = [0 \<mapsto> \<lparr>se_session_id = ''s'',
          se_process = put_process ''p'' (new_running_process 5 0 False False NoSandbox) (local_process_new None),
          se_attachment = \<lparr>as_current = None, as_detached = Some ''c'', as_expires_at = Some 30500\<rparr>\<rparr>],
        sr_next = 1\<rparr>) 0 = Some e'
     \<and> SessionTerminate 5 \<in> set (lp_effects (se_process e'))"
proof -
  define p where "p = new_running_process 5 0 False False NoSandbox"
  define lp where "lp = put_process ''p'' p (local_process_new None)"
  define e where "e = \<lparr>se_session_id = ''s'', se_process = lp,
    se_attachment = \<lparr>as_current = None, as_detached = Some ''c'', as_expires_at = Some 30500\<rparr>\<rparr>"
  define reg where "reg = \<lparr>sr_sessions = [(''s'', 0)], sr_entries = [0 \<mapsto> e], sr_next = 1\<rparr>"
  have "registered ''s'' reg = Some (0, e)" by (simp add: reg_def registered_def)
  moreover have "entry_inv e" by (simp add: e_def lp_def entry_inv_def put_process_def local_process_new_def)
  moreover have "as_detached (se_attachment e) = Some ''c''" by (simp add: e_def)
  moreover have "is_expired 31000 e" by (simp add: e_def is_expired_def)
  moreover have "sr_entries (id (reg\<lparr>sr_sessions := hm_remove ''s'' (sr_sessions reg)\<rparr>)) 0 = Some e"
    by (simp add: reg_def)
  ultimately obtain e' where "sr_entries (expire_if_detached id ''s'' ''c'' 31000 reg) 0 = Some e'"
    "\<forall>pid p. lp_entry pid (se_process e) = Some (RunningEntry p) \<longrightarrow>
       SessionTerminate (rp_session p) \<in> set (lp_effects (se_process e'))"
    using expired_session_is_shut_down [of "''s''" reg 0 e "''c''" 31000 id e 0 "''d''" "''u''"] by blast
  moreover have "lp_entry ''p'' (se_process e) = Some (RunningEntry p)"
    by (simp add: e_def lp_def lp_entry_def put_process_def container_simps)
  moreover have "rp_session p = 5" by (simp add: p_def new_running_process_def)
  ultimately show ?thesis unfolding reg_def e_def lp_def p_def by metis
qed



end
