(* ===== verification/Request_Handler.thy ===== *)
theory Request_Handler
  imports Session_Registry File_Read
begin

text \<open>
  The state of one connection of the executor and its requests,
  \<^verbatim>\<open>crates/exec-server/src/server/handler.rs\<close>. Every operation works on the handler of the
  connection and on the registry that all connections share; what it needs from outside (clock,
  uuids, the file system, the HTTP client, the other tasks) is in the record \<open>request_env\<close>.
\<close>

record exec_server_handler =
  eh_notifications :: conn
  eh_session :: "session_handle option"
  eh_active_body_stream_ids :: "string set"
  eh_background_tasks :: "string list"
  eh_shutdown :: bool
  eh_file_reads :: file_read_handles
  eh_initialize_requested :: bool
  eh_initialized :: bool

definition exec_server_handler_new :: "conn \<Rightarrow> exec_server_handler" where
  "exec_server_handler_new c =
     \<lparr>eh_notifications = c, eh_session = None, eh_active_body_stream_ids = {}, eh_background_tasks = [],
      eh_shutdown = False, eh_file_reads = [], eh_initialize_requested = False, eh_initialized = False\<rparr>"

type_synonym server = "exec_server_handler \<times> session_registry"

subsection \<open>The guards\<close>

definition is_session_attached :: "server \<Rightarrow> bool" where
  "is_session_attached s =
     (case eh_session (fst s) of None \<Rightarrow> True | Some h \<Rightarrow> handle_is_attached h (snd s))"

definition require_session_attached :: "server \<Rightarrow> jsonrpc_error_error + session_handle" where
  "require_session_attached s =
     (case eh_session (fst s) of
        None \<Rightarrow> Inl (invalid_request ''client must call initialize before using methods'')
      | Some h \<Rightarrow>
          if handle_is_attached h (snd s) then Inr h
          else Inl (invalid_request ''session has been resumed by another connection''))"

definition require_initialized_for :: "string \<Rightarrow> server \<Rightarrow> jsonrpc_error_error + session_handle" where
  "require_initialized_for family s =
     (if \<not> eh_initialize_requested (fst s)
      then Inl (invalid_request (''client must call initialize before using '' @ family @ '' methods''))
      else case require_session_attached s of
             Inl e \<Rightarrow> Inl e
           | Inr h \<Rightarrow>
               if \<not> eh_initialized (fst s)
               then Inl (invalid_request (''client must send initialized before using '' @ family @ '' methods''))
               else Inr h)"

subsection \<open>The handshake\<close>

record ('sb, 'fs) request_env =
  rq_connection_uuid :: string
  rq_session_uuid :: string
  rq_now :: nat
  rq_registry_others :: "session_registry \<Rightarrow> session_registry"
  rq_prepare :: "'sb exec_params \<Rightarrow> env_map \<Rightarrow> jsonrpc_error_error + prepared_exec_request"
  rq_spawn :: spawner
  rq_process_others :: "local_process \<Rightarrow> local_process"
  rq_child_env :: "'sb exec_params \<Rightarrow> env_map"
  rq_writer_open :: "session \<Rightarrow> bool"
  rq_os_signal :: "session \<Rightarrow> process_signal \<Rightarrow> string option"
  rq_read_obs :: "(session_registry \<times> nat \<times> nat) list"
  rq_read_after :: session_registry
  rq_http_new :: "jsonrpc_error_error option"
  rq_http_run :: "jsonrpc_error_error + (string + json_value) \<times> string option"
  rq_http_finished :: "string list"
  rq_response_sent :: bool
  rq_open_file :: "string \<Rightarrow> io_error + file_handle"
  rq_run_read :: "file_handle \<Rightarrow> nat \<Rightarrow> nat \<Rightarrow> string + (io_error + file_read_block)"
  rq_fs_call :: "'fs \<Rightarrow> jsonrpc_error_error + json_value"
  rq_environment_info :: json_value

definition handle_session_id :: "session_handle \<Rightarrow> session_registry \<Rightarrow> string" where
  "handle_session_id h reg = (case sr_entries reg (sh_entry h) of None \<Rightarrow> [] | Some e \<Rightarrow> se_session_id e)"

definition initialize ::
  "('sb, 'fs) request_env \<Rightarrow> string option \<Rightarrow> server \<Rightarrow> (jsonrpc_error_error + string) \<times> server" where
  "initialize rq resume s =
     (let eh = fst s in
      if eh_initialize_requested eh
      then (Inl (invalid_request ''initialize may only be sent once per connection''), s)
      else
        (case sr_attach (rq_registry_others rq) resume (eh_notifications eh) (rq_connection_uuid rq)
                (rq_session_uuid rq) (rq_now rq) (snd s) of
           (Inl e, reg) \<Rightarrow> (Inl e, (eh\<lparr>eh_initialize_requested := False\<rparr>, reg))
         | (Inr h, reg) \<Rightarrow>
             (Inr (handle_session_id h reg),
              (eh\<lparr>eh_initialize_requested := True, eh_session := Some h\<rparr>, reg))))"

definition initialized :: "server \<Rightarrow> (string + unit) \<times> server" where
  "initialized s =
     (if \<not> eh_initialize_requested (fst s)
      then (Inl ''received `initialized` notification before `initialize`'', s)
      else case require_session_attached s of
             Inl e \<Rightarrow> (Inl (je_message e), s)
           | Inr _ \<Rightarrow> (Inr (), ((fst s)\<lparr>eh_initialized := True\<rparr>, snd s)))"

subsection \<open>Process requests\<close>

definition on_process ::
  "session_handle \<Rightarrow> (local_process \<Rightarrow> 'r \<times> local_process) \<Rightarrow> session_registry \<Rightarrow> 'r option \<times> session_registry" where
  "on_process h f reg =
     (case sr_entries reg (sh_entry h) of
        None \<Rightarrow> (None, reg)
      | Some e \<Rightarrow>
          (case f (se_process e) of
             (r, p) \<Rightarrow> (Some r, put_entry (sh_entry h) (e\<lparr>se_process := p\<rparr>) reg)))"

definition process_request ::
  "(local_process \<Rightarrow> (jsonrpc_error_error + 'r) \<times> local_process) \<Rightarrow> server
     \<Rightarrow> (jsonrpc_error_error + 'r) option \<times> server" where
  "process_request f s =
     (case require_initialized_for ''exec'' s of
        Inl e \<Rightarrow> (Some (Inl e), s)
      | Inr h \<Rightarrow> (case on_process h f (snd s) of (r, reg) \<Rightarrow> (r, (fst s, reg))))"

definition handler_exec ::
  "('sb, 'fs) request_env \<Rightarrow> 'sb exec_params \<Rightarrow> server \<Rightarrow> (jsonrpc_error_error + process_id) option \<times> server" where
  "handler_exec rq params =
     process_request
       (start_process (rq_prepare rq) (rq_spawn rq) (rq_process_others rq) (rq_child_env rq params) params)"

definition handler_exec_write ::
  "('sb, 'fs) request_env \<Rightarrow> write_params \<Rightarrow> server \<Rightarrow> (jsonrpc_error_error + write_status) option \<times> server" where
  "handler_exec_write rq params =
     process_request (exec_write (rq_writer_open rq) (rq_process_others rq) params)"

definition handler_signal ::
  "('sb, 'fs) request_env \<Rightarrow> process_id \<Rightarrow> process_signal \<Rightarrow> server \<Rightarrow> (jsonrpc_error_error + unit) option \<times> server" where
  "handler_signal rq pid sig = process_request (signal_process (rq_os_signal rq) pid sig)"

definition handler_terminate ::
  "process_id \<Rightarrow> server \<Rightarrow> (jsonrpc_error_error + bool) option \<times> server" where
  "handler_terminate pid =
     process_request (\<lambda>lp. case terminate_process pid lp of (running, lp') \<Rightarrow> (Inr running, lp'))"

text \<open>A long poll observes the table at several moments; its answer needs the session once more.\<close>

definition observed_process :: "session_handle \<Rightarrow> session_registry \<Rightarrow> local_process" where
  "observed_process h reg =
     (case sr_entries reg (sh_entry h) of None \<Rightarrow> local_process_new None | Some e \<Rightarrow> se_process e)"

definition handler_exec_read ::
  "('sb, 'fs) request_env \<Rightarrow> read_params \<Rightarrow> server \<Rightarrow> (jsonrpc_error_error + read_response) option" where
  "handler_exec_read rq params s =
     (case require_initialized_for ''exec'' s of
        Inl e \<Rightarrow> Some (Inl e)
      | Inr h \<Rightarrow>
          (case exec_read params (rq_now rq)
                  (map (\<lambda>(reg, t1, t2). (observed_process h reg, t1, t2)) (rq_read_obs rq)) of
             None \<Rightarrow> None
           | Some (Inl e) \<Rightarrow> Some (Inl e)
           | Some (Inr r) \<Rightarrow>
               (case require_session_attached (fst s, rq_read_after rq) of
                  Inl e \<Rightarrow> Some (Inl e)
                | Inr _ \<Rightarrow> Some (Inr r))))"

definition environment_info ::
  "('sb, 'fs) request_env \<Rightarrow> server \<Rightarrow> jsonrpc_error_error + json_value" where
  "environment_info rq s =
     (case require_initialized_for ''environment info'' s of
        Inl e \<Rightarrow> Inl e
      | Inr _ \<Rightarrow> Inr (rq_environment_info rq))"

subsection \<open>HTTP requests\<close>

definition release_http_body_stream :: "string \<Rightarrow> exec_server_handler \<Rightarrow> exec_server_handler" where
  "release_http_body_stream i eh =
     eh\<lparr>eh_active_body_stream_ids := eh_active_body_stream_ids eh - {i}\<rparr>"

definition reserve_http_body_stream ::
  "string \<Rightarrow> exec_server_handler \<Rightarrow> (jsonrpc_error_error + unit) \<times> exec_server_handler" where
  "reserve_http_body_stream i eh =
     (if i \<in> eh_active_body_stream_ids eh
      then (Inl (invalid_params (''http/request streamResponse requestId `'' @ i @ ''` is already active'')), eh)
      else (Inr (), eh\<lparr>eh_active_body_stream_ids := insert i (eh_active_body_stream_ids eh)\<rparr>))"

definition start_http_body_stream :: "string \<Rightarrow> exec_server_handler \<Rightarrow> exec_server_handler" where
  "start_http_body_stream i eh =
     (if eh_shutdown eh then release_http_body_stream i eh
      else eh\<lparr>eh_background_tasks := i # eh_background_tasks eh\<rparr>)"

text \<open>A streaming task ends, or sees the shutdown: it releases its id.\<close>

definition finish_http_body_stream :: "string \<Rightarrow> exec_server_handler \<Rightarrow> exec_server_handler" where
  "finish_http_body_stream i eh =
     release_http_body_stream i (eh\<lparr>eh_background_tasks := remove1 i (eh_background_tasks eh)\<rparr>)"

definition release_pending :: "string option \<Rightarrow> exec_server_handler \<Rightarrow> exec_server_handler" where
  "release_pending p eh = (case p of None \<Rightarrow> eh | Some i \<Rightarrow> release_http_body_stream i eh)"

definition http_request ::
  "('sb, 'fs) request_env \<Rightarrow> string \<Rightarrow> bool \<Rightarrow> server \<Rightarrow> (jsonrpc_error_error + unit) \<times> server" where
  "http_request rq i stream s =
     (case require_initialized_for ''http'' s of
        Inl e \<Rightarrow> (Inl e, s)
      | Inr _ \<Rightarrow>
          (case (if stream then reserve_http_body_stream i (fst s) else (Inr (), fst s)) of
             (Inl e, eh1) \<Rightarrow> (Inl e, (eh1, snd s))
           | (Inr _, eh1) \<Rightarrow>
               (case rq_http_new rq of
                  Some e \<Rightarrow> (Inl e, (eh1, snd s))
                | None \<Rightarrow>
                    (let eh2 = fold finish_http_body_stream (rq_http_finished rq) eh1 in
                     case rq_http_run rq of
                       Inl e \<Rightarrow> (Inl e, (if stream then release_http_body_stream i eh2 else eh2, snd s))
                     | Inr (Inl m, pending) \<Rightarrow> (Inl (internal_error m), (release_pending pending eh2, snd s))
                     | Inr (Inr _, pending) \<Rightarrow>
                         if \<not> rq_response_sent rq
                         then (Inl (internal_error ''RPC connection closed while sending response''),
                               (release_pending pending eh2, snd s))
                         else (Inr (),
                               (case pending of None \<Rightarrow> eh2 | Some p \<Rightarrow> start_http_body_stream p eh2, snd s))))))"

subsection \<open>File requests and the end of the connection\<close>

definition file_request ::
  "(file_read_handles \<Rightarrow> (jsonrpc_error_error + 'r) \<times> file_read_handles) \<Rightarrow> server
     \<Rightarrow> (jsonrpc_error_error + 'r) \<times> server" where
  "file_request f s =
     (case require_initialized_for ''filesystem'' s of
        Inl e \<Rightarrow> (Inl e, s)
      | Inr _ \<Rightarrow> (case f (eh_file_reads (fst s)) of (r, hs) \<Rightarrow> (r, ((fst s)\<lparr>eh_file_reads := hs\<rparr>, snd s))))"

definition handler_shutdown :: "nat \<Rightarrow> server \<Rightarrow> (string \<times> connection_id) option \<times> server" where
  "handler_shutdown now s =
     (let eh = (fst s)\<lparr>eh_shutdown := True\<rparr>;
          eh1 = fold finish_http_body_stream (eh_background_tasks eh) eh;
          eh2 = eh1\<lparr>eh_file_reads := handles_close_all (eh_file_reads eh1)\<rparr>
      in case eh_session eh2 of
           None \<Rightarrow> (None, (eh2, snd s))
         | Some h \<Rightarrow> (case handle_detach h now (snd s) of (t, reg) \<Rightarrow> (t, (eh2, reg))))"

subsection \<open>All requests of a connection\<close>

datatype ('sb, 'fs) server_request =
  InitializeRequest "string option"
| HttpRequest string bool
| ExecRequest "'sb exec_params"
| EnvironmentInfoRequest
| ExecReadRequest read_params
| ExecWriteRequest write_params
| SignalRequest process_id process_signal
| TerminateRequest process_id
| FsOpenRequest string string
| FsReadBlockRequest string nat nat
| FsCloseRequest string
| FsRequest 'fs

datatype server_response =
  InitializeResponse string
| HttpAnswered
| ExecResponse process_id
| EnvironmentInfoResponse json_value
| ExecReadResponse read_response
| ExecWriteResponse write_status
| SignalResponse
| TerminateResponse bool
| FsOpenResponse string
| FsReadBlockResponse file_read_block
| FsCloseResponse
| FsResponse json_value

definition respond :: "('r \<Rightarrow> server_response) \<Rightarrow> jsonrpc_error_error + 'r \<Rightarrow> jsonrpc_error_error + server_response" where
  "respond f r = map_sum id f r"

fun handle_request ::
  "('sb, 'fs) request_env \<Rightarrow> ('sb, 'fs) server_request \<Rightarrow> server
     \<Rightarrow> (jsonrpc_error_error + server_response) option \<times> server" where
  "handle_request rq (InitializeRequest resume) s =
     (case initialize rq resume s of (r, s') \<Rightarrow> (Some (respond InitializeResponse r), s'))"
| "handle_request rq (HttpRequest i stream) s =
     (case http_request rq i stream s of (r, s') \<Rightarrow> (Some (respond (\<lambda>_. HttpAnswered) r), s'))"
| "handle_request rq (ExecRequest params) s =
     (case handler_exec rq params s of (r, s') \<Rightarrow> (map_option (respond ExecResponse) r, s'))"
| "handle_request rq EnvironmentInfoRequest s =
     (Some (respond EnvironmentInfoResponse (environment_info rq s)), s)"
| "handle_request rq (ExecReadRequest params) s =
     (map_option (respond ExecReadResponse) (handler_exec_read rq params s), s)"
| "handle_request rq (ExecWriteRequest params) s =
     (case handler_exec_write rq params s of (r, s') \<Rightarrow> (map_option (respond ExecWriteResponse) r, s'))"
| "handle_request rq (SignalRequest pid sig) s =
     (case handler_signal rq pid sig s of (r, s') \<Rightarrow> (map_option (respond (\<lambda>_. SignalResponse)) r, s'))"
| "handle_request rq (TerminateRequest pid) s =
     (case handler_terminate pid s of (r, s') \<Rightarrow> (map_option (respond TerminateResponse) r, s'))"
| "handle_request rq (FsOpenRequest hid path) s =
     (case file_request (fs_open (rq_open_file rq) hid path) s of
        (r, s') \<Rightarrow> (Some (respond FsOpenResponse r), s'))"
| "handle_request rq (FsReadBlockRequest hid off n) s =
     (case file_request (fs_read_block (rq_run_read rq) hid off n) s of
        (r, s') \<Rightarrow> (Some (respond FsReadBlockResponse r), s'))"
| "handle_request rq (FsCloseRequest hid) s =
     (case file_request (fs_close hid) s of (r, s') \<Rightarrow> (Some (respond (\<lambda>_. FsCloseResponse) r), s'))"
| "handle_request rq (FsRequest op) s =
     (case file_request (\<lambda>hs. (rq_fs_call rq op, hs)) s of (r, s') \<Rightarrow> (Some (respond FsResponse r), s'))"

subsection \<open>No request before the handshake\<close>

fun method_family :: "('sb, 'fs) server_request \<Rightarrow> string option" where
  "method_family (InitializeRequest _) = None"
| "method_family (HttpRequest _ _) = Some ''http''"
| "method_family EnvironmentInfoRequest = Some ''environment info''"
| "method_family (FsOpenRequest _ _) = Some ''filesystem''"
| "method_family (FsReadBlockRequest _ _ _) = Some ''filesystem''"
| "method_family (FsCloseRequest _) = Some ''filesystem''"
| "method_family (FsRequest _) = Some ''filesystem''"
| "method_family _ = Some ''exec''"

lemma require_initialized_for_Inr:
  "require_initialized_for fam s = Inr h \<longleftrightarrow>
     eh_initialize_requested (fst s) \<and> eh_initialized (fst s)
     \<and> eh_session (fst s) = Some h \<and> handle_is_attached h (snd s)"
  by (auto simp: require_initialized_for_def require_session_attached_def split: option.splits)

lemma require_initialized_for_Inl: "require_initialized_for fam s = Inl e \<Longrightarrow> je_code e = -32600"
  by (auto simp: require_initialized_for_def require_session_attached_def invalid_request_def
      split: option.splits if_splits)

lemma handle_request_refused:
  "method_family r = Some fam \<Longrightarrow> require_initialized_for fam s = Inl e \<Longrightarrow>
     handle_request rq r s = (Some (Inl e), s)"
  by (cases r)
    (auto simp: http_request_def handler_exec_def environment_info_def handler_exec_read_def
      handler_exec_write_def handler_signal_def handler_terminate_def process_request_def file_request_def
      respond_def)

lemma finish_http_fold [simp]:
  "eh_initialize_requested (fold finish_http_body_stream is eh) = eh_initialize_requested eh"
  "eh_initialized (fold finish_http_body_stream is eh) = eh_initialized eh"
  "eh_session (fold finish_http_body_stream is eh) = eh_session eh"
  "eh_shutdown (fold finish_http_body_stream is eh) = eh_shutdown eh"
  by (induction "is" arbitrary: eh)
    (simp_all add: finish_http_body_stream_def release_http_body_stream_def)

definition conn_flags :: "server \<Rightarrow> bool \<times> bool" where
  "conn_flags s = (eh_initialize_requested (fst s), eh_initialized (fst s))"

lemma http_request_flags [simp]: "conn_flags (snd (http_request rq i stream s)) = conn_flags s"
  by (auto simp: conn_flags_def http_request_def reserve_http_body_stream_def release_http_body_stream_def
      release_pending_def start_http_body_stream_def Let_def split: sum.split option.split prod.split)

lemma process_request_flags [simp]: "conn_flags (snd (process_request f s)) = conn_flags s"
  by (simp add: conn_flags_def process_request_def split: sum.split prod.split)

lemma file_request_flags [simp]: "conn_flags (snd (file_request f s)) = conn_flags s"
  by (simp add: conn_flags_def file_request_def split: sum.split prod.split)

lemma handle_request_flags:
  "method_family r \<noteq> None \<Longrightarrow> conn_flags (snd (handle_request rq r s)) = conn_flags s"
  by (cases r) (simp_all add: handler_exec_def handler_exec_write_def handler_signal_def
      handler_terminate_def case_prod_unfold)

text \<open>
  What reaches one connection, in order: requests (each with its environment), the
  \<open>initialized\<close> notification, and the registry changed by other connections in between.
\<close>

datatype ('sb, 'fs) conn_input =
  RequestIn "('sb, 'fs) request_env" "('sb, 'fs) server_request"
| InitializedIn
| RegistryChange session_registry

datatype conn_output =
  ResponseOut "(jsonrpc_error_error + server_response) option"
| InitializedOut "string + unit"
| NoOutput

fun conn_input_step :: "('sb, 'fs) conn_input \<Rightarrow> server \<Rightarrow> conn_output \<times> server" where
  "conn_input_step (RequestIn rq r) s = (case handle_request rq r s of (out, s') \<Rightarrow> (ResponseOut out, s'))"
| "conn_input_step InitializedIn s = (case initialized s of (out, s') \<Rightarrow> (InitializedOut out, s'))"
| "conn_input_step (RegistryChange reg) s = (NoOutput, (fst s, reg))"

fun conn_run :: "('sb, 'fs) conn_input list \<Rightarrow> server \<Rightarrow> (('sb, 'fs) conn_input \<times> conn_output) list \<times> server" where
  "conn_run [] s = ([], s)"
| "conn_run (i # is) s =
     (case conn_input_step i s of
        (out, s1) \<Rightarrow> (case conn_run is s1 of (tr, s2) \<Rightarrow> ((i, out) # tr, s2)))"

fun opened :: "('sb, 'fs) conn_input \<times> conn_output \<Rightarrow> bool" where
  "opened (RequestIn _ (InitializeRequest _), ResponseOut (Some (Inr _))) = True"
| "opened _ = False"

fun confirmed :: "('sb, 'fs) conn_input \<times> conn_output \<Rightarrow> bool" where
  "confirmed (InitializedIn, InitializedOut (Inr _)) = True"
| "confirmed _ = False"

fun served :: "('sb, 'fs) conn_input \<times> conn_output \<Rightarrow> bool" where
  "served (RequestIn _ r, ResponseOut (Some (Inr _))) = (method_family r \<noteq> None)"
| "served _ = False"

text \<open>The same as a check of the trace, with the two flags as its state.\<close>

fun handshake_ok :: "bool \<Rightarrow> bool \<Rightarrow> (('sb, 'fs) conn_input \<times> conn_output) list \<Rightarrow> bool" where
  "handshake_ok op con [] = True"
| "handshake_ok op con (x # xs) =
     ((opened x \<longrightarrow> \<not> op) \<and> (confirmed x \<longrightarrow> op) \<and> (served x \<longrightarrow> op \<and> con)
      \<and> handshake_ok (op \<or> opened x) (con \<or> confirmed x) xs)"

lemma initialize_flags:
  assumes "initialize rq resume s = (r, s')"
  shows "conn_flags s' = (eh_initialize_requested (fst s) \<or> \<not> isl r, eh_initialized (fst s))
    \<and> (\<not> isl r \<longrightarrow> \<not> eh_initialize_requested (fst s))"
  using assms by (auto simp: conn_flags_def initialize_def Let_def split: if_splits prod.splits sum.splits)

lemma initialized_flags:
  assumes "initialized s = (r, s')"
  shows "conn_flags s' = (eh_initialize_requested (fst s), eh_initialized (fst s) \<or> \<not> isl r)
    \<and> (\<not> isl r \<longrightarrow> eh_initialize_requested (fst s))"
  using assms by (auto simp: conn_flags_def initialized_def split: if_splits sum.splits)

lemma served_ready:
  assumes "method_family r = Some fam" and "handle_request rq r s = (Some (Inr x), s')"
  shows "conn_flags s = (True, True)"
proof (cases "require_initialized_for fam s")
  case (Inl e)
  then show ?thesis using handle_request_refused [OF assms(1) Inl, of rq] assms(2) by simp
next
  case (Inr h)
  then show ?thesis by (simp add: require_initialized_for_Inr conn_flags_def)
qed

lemma served_iff: "served (RequestIn rq r, ResponseOut out) \<longleftrightarrow> method_family r \<noteq> None \<and> (\<exists>x. out = Some (Inr x))"
  by (cases out; cases "the out") auto

lemma conn_input_step_flags:
  assumes "conn_input_step i s = (out, s')" and "conn_flags s = (op, con)"
  shows "conn_flags s' = (op \<or> opened (i, out), con \<or> confirmed (i, out))
    \<and> (opened (i, out) \<longrightarrow> \<not> op) \<and> (confirmed (i, out) \<longrightarrow> op) \<and> (served (i, out) \<longrightarrow> op \<and> con)"
proof (cases i)
  case (RequestIn rq r)
  obtain res where res: "handle_request rq r s = (res, s')" "out = ResponseOut res"
    using assms(1) RequestIn by (auto split: prod.splits)
  show ?thesis
  proof (cases "method_family r")
    case None
    then obtain resume where r: "r = InitializeRequest resume" by (cases r) auto
    then obtain q where q: "initialize rq resume s = (q, s')" "res = Some (respond InitializeResponse q)"
      using res(1) by (auto split: prod.splits)
    show ?thesis
      using initialize_flags [OF q(1)] q(2) r RequestIn res(2) assms(2)
      by (cases q) (auto simp: conn_flags_def respond_def)
  next
    case (Some fam)
    then have "\<not> opened (i, out)" using RequestIn res(2) by (cases r; cases res) auto
    moreover have "op \<and> con" if srv: "served (i, out)"
    proof -
      obtain x where "res = Some (Inr x)" using srv res(2) RequestIn by (auto simp: served_iff)
      then have "conn_flags s = (True, True)" using served_ready [OF Some] res(1) by blast
      then show ?thesis using assms(2) by simp
    qed
    ultimately show ?thesis
      using handle_request_flags [of r rq s] Some res(1) assms(2) RequestIn by auto
  qed
next
  case InitializedIn
  then obtain q where q: "initialized s = (q, s')" "out = InitializedOut q"
    using assms(1) by (auto split: prod.splits)
  then show ?thesis
    using initialized_flags [OF q(1)] InitializedIn assms(2) by (cases q) (auto simp: conn_flags_def)
qed (use assms in \<open>auto simp: conn_flags_def\<close>)

lemma conn_run_handshake:
  "conn_flags s = (op, con) \<Longrightarrow> handshake_ok op con (fst (conn_run is s))"
proof (induction "is" arbitrary: s op con)
  case (Cons i "is")
  obtain out s1 where st: "conn_input_step i s = (out, s1)" by (rule prod.exhaust)
  have step: "conn_flags s1 = (op \<or> opened (i, out), con \<or> confirmed (i, out))
    \<and> (opened (i, out) \<longrightarrow> \<not> op) \<and> (confirmed (i, out) \<longrightarrow> op) \<and> (served (i, out) \<longrightarrow> op \<and> con)"
    by (rule conn_input_step_flags [OF st Cons.prems])
  then show ?case using Cons.IH [of s1] st by (simp add: case_prod_unfold)
qed simp

lemma handshake_ok_split:
  "handshake_ok op con (xs @ ys) \<longleftrightarrow>
     handshake_ok op con xs
     \<and> handshake_ok (op \<or> (\<exists>x \<in> set xs. opened x)) (con \<or> (\<exists>x \<in> set xs. confirmed x)) ys"
  by (induction xs arbitrary: op con) (auto simp: disj_assoc)

lemma handshake_ok_opened: "handshake_ok True con xs \<Longrightarrow> x \<in> set xs \<Longrightarrow> \<not> opened x"
  by (induction xs arbitrary: con) auto

text \<open>
  On every connection, whatever requests it receives in whatever order and whatever other
  connections do to the registry meanwhile: at most one \<open>initialize\<close> succeeds, an \<open>initialized\<close>
  notification is accepted only after it, and any other request succeeds only after both.
\<close>

theorem handshake_precedes_requests:
  assumes "fst (conn_run is (exec_server_handler_new c, reg)) = before @ x # after"
  shows "(opened x \<longrightarrow> (\<forall>y \<in> set before \<union> set after. \<not> opened y))
    \<and> (confirmed x \<longrightarrow> (\<exists>y \<in> set before. opened y))
    \<and> (served x \<longrightarrow> (\<exists>y \<in> set before. opened y) \<and> (\<exists>y \<in> set before. confirmed y))"
proof -
  have "handshake_ok False False (before @ x # after)"
    using conn_run_handshake [of "(exec_server_handler_new c, reg)" False False "is"] assms
    by (simp add: conn_flags_def exec_server_handler_new_def)
  then have split: "handshake_ok (\<exists>y \<in> set before. opened y) (\<exists>y \<in> set before. confirmed y) (x # after)"
    by (simp add: handshake_ok_split)
  have "\<not> opened y" if "opened x" "y \<in> set after" for y
  proof (rule handshake_ok_opened [OF _ that(2)])
    show "handshake_ok True ((\<exists>y \<in> set before. confirmed y) \<or> confirmed x) after"
      using split that(1) by simp
  qed
  then show ?thesis using split by (simp only: handshake_ok.simps Un_iff) blast
qed

text \<open>An environment in which everything succeeds, for examples.\<close>

definition calm_env :: "(unit, unit) request_env" where
  "calm_env =
     \<lparr>rq_connection_uuid = ''c'', rq_session_uuid = ''s'', rq_now = 0, rq_registry_others = id,
      rq_prepare = (\<lambda>_ _. Inl (internal_error ''none'')), rq_spawn = (\<lambda>_ _ _ _ _ _. Inl ''none''),
      rq_process_others = id, rq_child_env = (\<lambda>_. []), rq_writer_open = (\<lambda>_. True),
      rq_os_signal = (\<lambda>_ _. None), rq_read_obs = [], rq_read_after = session_registry_new,
      rq_http_new = None, rq_http_run = Inr (Inr JNull, Some ''r''), rq_http_finished = [],
      rq_response_sent = True, rq_open_file = (\<lambda>_. Inr 0),
      rq_run_read = (\<lambda>_ _ _. Inr (Inr \<lparr>fb_bytes = [], fb_eof = True\<rparr>)),
      rq_fs_call = (\<lambda>_. Inr JNull), rq_environment_info = JNull\<rparr>"

theorem handshake_precedes_requests_witness:
  "let is = [RequestIn calm_env (InitializeRequest None), InitializedIn,
             RequestIn calm_env EnvironmentInfoRequest];
       tr = fst (conn_run is (exec_server_handler_new 0, session_registry_new))
   in served (tr ! 2) \<and> (\<exists>y \<in> set (take 2 tr). opened y) \<and> (\<exists>y \<in> set (take 2 tr). confirmed y)"
proof -
  let ?is = "[RequestIn calm_env (InitializeRequest None), InitializedIn,
             RequestIn calm_env EnvironmentInfoRequest]"
  let ?tr = "fst (conn_run ?is (exec_server_handler_new 0, session_registry_new))"
  have tr: "?tr = [(RequestIn calm_env (InitializeRequest None), ResponseOut (Some (Inr (InitializeResponse ''s'')))),
      (InitializedIn, InitializedOut (Inr ())),
      (RequestIn calm_env EnvironmentInfoRequest, ResponseOut (Some (Inr (EnvironmentInfoResponse JNull))))]"
    by (simp add: calm_env_def exec_server_handler_new_def session_registry_new_def initialize_def
        initialized_def environment_info_def require_initialized_for_def require_session_attached_def
        sr_attach_def attach_locked_def handle_session_id_def registry_defs respond_def Let_def)
  have "?tr = take 2 ?tr @ (?tr ! 2) # []" using tr by simp
  from handshake_precedes_requests [OF this] have
    "served (?tr ! 2) \<longrightarrow> (\<exists>y \<in> set (take 2 ?tr). opened y) \<and> (\<exists>y \<in> set (take 2 ?tr). confirmed y)"
    by blast
  moreover have "served (?tr ! 2)" using tr by simp
  ultimately show ?thesis unfolding Let_def by blast
qed

subsection \<open>The ids of streamed HTTP bodies\<close>

definition streams_balanced :: "exec_server_handler \<Rightarrow> bool" where
  "streams_balanced eh \<longleftrightarrow>
     distinct (eh_background_tasks eh) \<and> eh_active_body_stream_ids eh = set (eh_background_tasks eh)"

text \<open>While a request is under way it may hold one more id, \<open>X\<close>, that no task owns yet.\<close>

definition streams_balanced_but :: "string set \<Rightarrow> exec_server_handler \<Rightarrow> bool" where
  "streams_balanced_but X eh \<longleftrightarrow>
     distinct (eh_background_tasks eh) \<and> X \<inter> set (eh_background_tasks eh) = {}
     \<and> eh_active_body_stream_ids eh = set (eh_background_tasks eh) \<union> X"

lemma streams_balanced_but_empty: "streams_balanced_but {} eh = streams_balanced eh"
  by (simp add: streams_balanced_but_def streams_balanced_def)

lemma finish_balanced:
  "streams_balanced_but X eh \<Longrightarrow> i \<in> set (eh_background_tasks eh) \<Longrightarrow>
     streams_balanced_but X (finish_http_body_stream i eh)
     \<and> set (eh_background_tasks (finish_http_body_stream i eh)) = set (eh_background_tasks eh) - {i}"
  by (auto simp: streams_balanced_but_def finish_http_body_stream_def release_http_body_stream_def)

lemma finish_fold_balanced:
  "streams_balanced_but X eh \<Longrightarrow> distinct is \<Longrightarrow> set is \<subseteq> set (eh_background_tasks eh) \<Longrightarrow>
     streams_balanced_but X (fold finish_http_body_stream is eh)
     \<and> set (eh_background_tasks (fold finish_http_body_stream is eh)) = set (eh_background_tasks eh) - set is"
proof (induction "is" arbitrary: eh)
  case (Cons i "is")
  then have "streams_balanced_but X (finish_http_body_stream i eh)
     \<and> set (eh_background_tasks (finish_http_body_stream i eh)) = set (eh_background_tasks eh) - {i}"
    by (intro finish_balanced) simp_all
  then show ?case using Cons.IH [of "finish_http_body_stream i eh"] Cons.prems by auto
qed simp

lemma release_balanced: "streams_balanced_but {i} eh \<Longrightarrow> streams_balanced (release_http_body_stream i eh)"
  by (auto simp: streams_balanced_but_def streams_balanced_def release_http_body_stream_def)

lemma start_balanced: "streams_balanced_but {i} eh \<Longrightarrow> streams_balanced (start_http_body_stream i eh)"
  using release_balanced by (auto simp: start_http_body_stream_def streams_balanced_but_def streams_balanced_def)

text \<open>What the HTTP client's \<open>run\<close> promises of its pending stream.\<close>

definition pending_matches :: "('sb, 'fs) request_env \<Rightarrow> string \<Rightarrow> bool \<Rightarrow> bool" where
  "pending_matches rq i stream \<longleftrightarrow>
     (case rq_http_run rq of Inl _ \<Rightarrow> True | Inr (_, pending) \<Rightarrow> pending = (if stream then Some i else None))"

text \<open>
  The executor never loses or double-books the id of a streamed HTTP body once the HTTP
  client could be built: if before a request the active ids are exactly the ids of the running
  streaming tasks, they are so again after it, whether it fails at any stage, succeeds, or finds
  the connection shutting down, and whichever streams finish while it waits.
\<close>

theorem http_stream_ids_balanced:
  assumes "streams_balanced (fst s)" and "rq_http_new rq = None" and "pending_matches rq i stream"
    and "distinct (rq_http_finished rq)"
    and "set (rq_http_finished rq) \<subseteq> set (eh_background_tasks (fst s))"
  shows "streams_balanced (fst (snd (http_request rq i stream s)))"
proof (cases "require_initialized_for ''http'' s")
  case (Inl e)
  then show ?thesis using assms(1) by (simp add: http_request_def)
next
  case ready: (Inr h)
  let ?X = "if stream then {i} else {}"
  show ?thesis
  proof (cases "stream \<and> i \<in> eh_active_body_stream_ids (fst s)")
    case True
    then show ?thesis using ready assms(1) by (simp add: http_request_def reserve_http_body_stream_def)
  next
    case False
    define eh1 where "eh1 = (if stream then (fst s)\<lparr>eh_active_body_stream_ids :=
        insert i (eh_active_body_stream_ids (fst s))\<rparr> else fst s)"
    define eh2 where "eh2 = fold finish_http_body_stream (rq_http_finished rq) eh1"
    have "streams_balanced_but ?X eh1" "eh_background_tasks eh1 = eh_background_tasks (fst s)"
      using assms(1) False by (auto simp: eh1_def streams_balanced_but_def streams_balanced_def)
    then have "streams_balanced_but ?X eh2"
      unfolding eh2_def using finish_fold_balanced [OF _ assms(4)] assms(5) by simp
    moreover have "http_request rq i stream s =
      (case rq_http_run rq of
         Inl e \<Rightarrow> (Inl e, (if stream then release_http_body_stream i eh2 else eh2, snd s))
       | Inr (Inl m, pending) \<Rightarrow> (Inl (internal_error m), (release_pending pending eh2, snd s))
       | Inr (Inr _, pending) \<Rightarrow>
           if \<not> rq_response_sent rq
           then (Inl (internal_error ''RPC connection closed while sending response''),
                 (release_pending pending eh2, snd s))
           else (Inr (), (case pending of None \<Rightarrow> eh2 | Some p \<Rightarrow> start_http_body_stream p eh2, snd s)))"
      using ready False assms(2) unfolding eh2_def eh1_def
      by (auto simp: http_request_def reserve_http_body_stream_def Let_def)
    ultimately show ?thesis
      using assms(3) release_balanced [of i eh2] start_balanced [of i eh2]
      by (auto simp: pending_matches_def release_pending_def streams_balanced_but_empty
          split: sum.split prod.split if_splits)
  qed
qed

text \<open>A connection that has completed its handshake, for examples.\<close>

definition ready_server :: server where
  "ready_server =
     (let reg = snd (attach_locked None 0 ''c'' ''s'' 0 session_registry_new)
      in ((exec_server_handler_new 0)\<lparr>eh_session := Some \<lparr>sh_entry = 0, sh_connection_id = ''c''\<rparr>,
            eh_initialize_requested := True, eh_initialized := True\<rparr>, reg))"

lemma ready_server_ready:
  "require_initialized_for fam ready_server = Inr \<lparr>sh_entry = 0, sh_connection_id = ''c''\<rparr>"
  by (simp add: require_initialized_for_Inr ready_server_def exec_server_handler_new_def
      attach_locked_def session_registry_new_def registry_defs Let_def)

theorem http_stream_ids_balanced_witness:
  "streams_balanced (fst (snd (http_request calm_env ''r'' True ready_server)))
   \<and> eh_active_body_stream_ids (fst (snd (http_request calm_env ''r'' True ready_server))) = {''r''}"
proof
  show "streams_balanced (fst (snd (http_request calm_env ''r'' True ready_server)))"
    by (rule http_stream_ids_balanced)
      (simp_all add: streams_balanced_def pending_matches_def calm_env_def ready_server_def
        exec_server_handler_new_def Let_def)
  show "eh_active_body_stream_ids (fst (snd (http_request calm_env ''r'' True ready_server))) = {''r''}"
    by (simp add: http_request_def ready_server_ready)
      (simp add: reserve_http_body_stream_def start_http_body_stream_def calm_env_def ready_server_def
        exec_server_handler_new_def Let_def)
qed



subsection \<open>The end of a connection\<close>

lemma finish_fold_file_reads [simp]:
  "eh_file_reads (fold finish_http_body_stream is eh) = eh_file_reads eh"
  by (induction "is" arbitrary: eh) (simp_all add: finish_http_body_stream_def release_http_body_stream_def)

text \<open>
  When a connection ends, nothing of it stays behind: its files are closed, its streaming
  tasks are over and their ids free, and its session (if it had one and still held it) is
  detached, with the grace period running from now and a timer spawned for exactly that session;
  the processes of the session and every other session are untouched.
\<close>

theorem shutdown_releases_connection:
  assumes "streams_balanced (fst s)" and "require_session_attached s = Inr h"
    and "sr_entries (snd s) (sh_entry h) = Some e" and "handler_shutdown now s = (timer, s')"
  shows "eh_file_reads (fst s') = [] \<and> eh_background_tasks (fst s') = []
    \<and> eh_active_body_stream_ids (fst s') = {}
    \<and> timer = Some (se_session_id e, sh_connection_id h)
    \<and> \<not> is_session_attached s'
    \<and> (\<exists>e'. sr_entries (snd s') = (sr_entries (snd s))(sh_entry h \<mapsto> e')
         \<and> as_expires_at (se_attachment e') = Some (now + detached_session_ttl)
         \<and> lp_processes (se_process e') = lp_processes (se_process e))"
proof -
  define eh where "eh = fold finish_http_body_stream (eh_background_tasks (fst s)) ((fst s)\<lparr>eh_shutdown := True\<rparr>)"
  have "streams_balanced_but {} ((fst s)\<lparr>eh_shutdown := True\<rparr>)"
    using assms(1) by (simp add: streams_balanced_but_empty streams_balanced_def)
  then have "streams_balanced_but {} eh \<and> set (eh_background_tasks eh) = {}"
    unfolding eh_def using finish_fold_balanced assms(1) by (simp add: streams_balanced_def)
  then have quiet: "eh_background_tasks eh = []" "eh_active_body_stream_ids eh = {}"
    by (auto simp: streams_balanced_but_def)
  have sess: "eh_session (fst s) = Some h" and att: "is_attached_to (sh_connection_id h) e"
    using assms(2,3) by (auto simp: require_session_attached_def handle_is_attached_def split: option.splits if_splits)
  then have "eh_session eh = Some h" by (simp add: eh_def)
  moreover have "handle_detach h now (snd s) = (Some (se_session_id e, sh_connection_id h),
      put_entry (sh_entry h) (snd (entry_detach (sh_connection_id h) now e)) (snd s))"
    using assms(3) att by (simp add: handle_detach_def entry_detach_def is_attached_to_def)
  ultimately have st: "timer = Some (se_session_id e, sh_connection_id h)"
    "s' = (eh\<lparr>eh_file_reads := []\<rparr>,
       put_entry (sh_entry h) (snd (entry_detach (sh_connection_id h) now e)) (snd s))"
    using assms(4) by (auto simp: handler_shutdown_def Let_def eh_def handles_close_all_def)
  have "\<not> is_session_attached s'"
    using st(2) \<open>eh_session eh = Some h\<close> att
    by (simp add: is_session_attached_def handle_is_attached_def entry_detach_def is_attached_to_def)
  moreover have "\<exists>e'. sr_entries (snd s') = (sr_entries (snd s))(sh_entry h \<mapsto> e')
      \<and> as_expires_at (se_attachment e') = Some (now + detached_session_ttl)
      \<and> lp_processes (se_process e') = lp_processes (se_process e)"
    using st(2) att
    by (intro exI [of _ "snd (entry_detach (sh_connection_id h) now e)"])
      (simp add: entry_detach_def is_attached_to_def lp_set_notification_sender_def)
  ultimately show ?thesis using st quiet by simp
qed

theorem shutdown_releases_connection_witness:
  "\<not> is_session_attached (snd (handler_shutdown 7 ready_server))"
proof -
  let ?h = "\<lparr>sh_entry = 0, sh_connection_id = ''c''\<rparr>"
  have "streams_balanced (fst ready_server)" "sr_entries (snd ready_server) (sh_entry ?h) =
      Some (session_entry_new ''s'' (local_process_new (Some 0)) ''c'')"
    by (simp_all add: ready_server_def exec_server_handler_new_def streams_balanced_def attach_locked_def
        session_registry_new_def registry_defs Let_def)
  moreover have "require_session_attached ready_server = Inr ?h"
    using ready_server_ready [of "[]"] by (auto simp: require_initialized_for_def split: if_splits sum.splits)
  ultimately show ?thesis
    using shutdown_releases_connection [of ready_server ?h _ 7 "fst (handler_shutdown 7 ready_server)"
        "snd (handler_shutdown 7 ready_server)"] by simp
qed

end
