(* ===== verification/Remote_Segment.thy ===== *)
theory Remote_Segment
  imports File_Read "HOL-Library.Sublist"
begin

text \<open>
  Large messages of the remote-control connection, cut into segments and put together again:
  \<^verbatim>\<open>crates/app-server-transport/src/transport/remote_control/segment.rs\<close>, with the envelopes of
  \<^verbatim>\<open>remote_control/protocol.rs\<close>. The base64 and JSON codecs are arguments, in the records
  \<open>base64_codec\<close> and \<open>wire_format\<close>.
\<close>

definition segment_target_bytes :: nat where
  "segment_target_bytes = 100 * 1024"

definition segment_max_bytes :: nat where
  "segment_max_bytes = 150 * 1024"

definition reassembled_max_bytes :: nat where
  "reassembled_max_bytes = 100 * 1024 * 1024"

definition segment_count_max :: nat where
  "segment_count_max = 1024"

definition segment_assembly_max_count :: nat where
  "segment_assembly_max_count = 128"

subsection \<open>Envelopes and codecs\<close>

type_synonym client_id = string
type_synonym stream_id = string

record message_chunk =
  mc_segment_id :: nat
  mc_segment_count :: nat
  mc_message_size_bytes :: nat
  mc_chunk_base64 :: string

datatype 'm client_event =
  ClientMessage 'm
| ClientMessageChunk message_chunk
| ClientAck "nat option"
| ClientPing
| ClientClosed

record 'm client_envelope =
  ce_event :: "'m client_event"
  ce_client_id :: client_id
  ce_stream_id :: "stream_id option"
  ce_seq_id :: "nat option"
  ce_cursor :: "string option"

datatype pong_status = PongActive | PongUnknown

datatype 'o server_event =
  ServerMessage 'o
| ServerMessageChunk message_chunk
| ServerAck
| ServerPong pong_status

record 'o server_envelope =
  sv_event :: "'o server_event"
  sv_client_id :: client_id
  sv_stream_id :: stream_id
  sv_seq_id :: nat

fun event_segment_id :: "'o server_event \<Rightarrow> nat option" where
  "event_segment_id (ServerMessageChunk c) = Some (mc_segment_id c)"
| "event_segment_id _ = None"

datatype decode_error = OutputSliceTooSmall | InvalidBase64

record base64_codec =
  b64_encode :: "byte list \<Rightarrow> string"
  b64_decode_slice :: "string \<Rightarrow> nat \<Rightarrow> decode_error + byte list"
  b64_decoded_len_estimate :: "nat \<Rightarrow> nat"

record ('m, 'o) wire_format =
  wf_from_slice :: "byte list \<Rightarrow> string + 'm"
  wf_to_vec :: "'o \<Rightarrow> io_error + byte list"
  wf_serialized_len :: "'o server_envelope \<Rightarrow> io_error + nat"

subsection \<open>Reassembly\<close>

record segment_metadata =
  sm_seq_id :: nat
  sm_segment_count :: nat
  sm_message_size_bytes :: nat

record segment_assembly =
  sa_stream_id :: stream_id
  sa_metadata :: segment_metadata
  sa_raw :: "byte list"
  sa_next_segment_id :: nat
  sa_last_chunk_seen_at :: nat

type_synonym reassembler = "(client_id, segment_assembly) hash_map"

datatype 'm segment_observation = ForwardEnvelope "'m client_envelope" | ObservePending | ObserveDropped

datatype 'm assembly_update = UpdatePending | UpdateIgnore | UpdateDrop | UpdateComplete 'm

definition metadata_from_envelope :: "'m client_envelope \<Rightarrow> segment_metadata option" where
  "metadata_from_envelope env =
     (case ce_event env of
        ClientMessageChunk c \<Rightarrow>
          map_option (\<lambda>s. \<lparr>sm_seq_id = s, sm_segment_count = mc_segment_count c,
                           sm_message_size_bytes = mc_message_size_bytes c\<rparr>) (ce_seq_id env)
      | _ \<Rightarrow> None)"

definition should_ignore_chunk :: "reassembler \<Rightarrow> client_id \<Rightarrow> stream_id \<Rightarrow> nat \<Rightarrow> nat \<Rightarrow> bool" where
  "should_ignore_chunk asm cid sid seq_id seg =
     (case hm_get asm cid of
        None \<Rightarrow> False
      | Some a \<Rightarrow>
          sa_stream_id a = sid
          \<and> (seq_id < sm_seq_id (sa_metadata a)
             \<or> (seq_id = sm_seq_id (sa_metadata a) \<and> seg < sa_next_segment_id a)))"

definition remove_assembly :: "client_id \<Rightarrow> stream_id \<Rightarrow> reassembler \<Rightarrow> reassembler" where
  "remove_assembly cid sid asm =
     (case hm_get asm cid of
        Some a \<Rightarrow> if sa_stream_id a = sid then hm_remove cid asm else asm
      | None \<Rightarrow> asm)"

definition invalidate_stream :: "client_id \<Rightarrow> stream_id \<Rightarrow> reassembler \<Rightarrow> reassembler" where
  "invalidate_stream cid sid asm = remove_assembly cid sid asm"

definition invalidate_client :: "client_id \<Rightarrow> reassembler \<Rightarrow> reassembler" where
  "invalidate_client cid asm = hm_remove cid asm"

text \<open>\<^verbatim>\<open>min_by_key\<close>: the first of the oldest assemblies in iteration order.\<close>

fun oldest_assembly :: "reassembler \<Rightarrow> (client_id \<times> segment_assembly) option" where
  "oldest_assembly [] = None"
| "oldest_assembly (e # es) =
     (case oldest_assembly es of
        None \<Rightarrow> Some e
      | Some f \<Rightarrow>
          if sa_last_chunk_seen_at (snd e) \<le> sa_last_chunk_seen_at (snd f) then Some e else Some f)"

lemma oldest_assembly_mem: "oldest_assembly asm = Some e \<Longrightarrow> e \<in> set asm"
  by (induction asm arbitrary: e) (auto split: option.splits if_splits)

lemma hm_remove_length_less: "(k, v) \<in> set m \<Longrightarrow> length (hm_remove k m) < length m"
  unfolding hm_remove_def AList.delete_eq
  by (rule length_filter_less [of "(k, v)"]) auto

function evict_assemblies_if_full :: "reassembler \<Rightarrow> reassembler" where
  "evict_assemblies_if_full asm =
     (if length asm \<ge> segment_assembly_max_count
      then (case oldest_assembly asm of
              None \<Rightarrow> asm
            | Some (cid, _) \<Rightarrow> evict_assemblies_if_full (hm_remove cid asm))
      else asm)"
  by pat_completeness auto

termination
  by (relation "measure length") (auto dest!: oldest_assembly_mem intro: hm_remove_length_less)

declare evict_assemblies_if_full.simps [simp del]

definition new_assembly :: "stream_id \<Rightarrow> segment_metadata \<Rightarrow> nat \<Rightarrow> segment_assembly" where
  "new_assembly sid md now =
     \<lparr>sa_stream_id = sid, sa_metadata = md, sa_raw = [], sa_next_segment_id = 0,
      sa_last_chunk_seen_at = now\<rparr>"

definition chunk_invalid :: "message_chunk \<Rightarrow> bool" where
  "chunk_invalid c \<longleftrightarrow>
     mc_segment_count c = 0 \<or> mc_segment_count c > segment_count_max
     \<or> mc_segment_id c \<ge> mc_segment_count c
     \<or> mc_message_size_bytes c = 0 \<or> mc_message_size_bytes c > reassembled_max_bytes
     \<or> mc_chunk_base64 c = []"

text \<open>The assembly the chunk goes to: the client's, or a new one after a change of stream.\<close>

definition ensure_assembly ::
  "client_id \<Rightarrow> stream_id \<Rightarrow> segment_metadata \<Rightarrow> nat \<Rightarrow> reassembler \<Rightarrow> reassembler" where
  "ensure_assembly cid sid md now asm =
     (case hm_get asm cid of
        Some a \<Rightarrow>
          if sa_stream_id a \<noteq> sid then hm_insert cid (new_assembly sid md now) asm else asm
      | None \<Rightarrow> hm_insert cid (new_assembly sid md now) (evict_assemblies_if_full asm))"

definition append_chunk ::
  "base64_codec \<Rightarrow> ('m, 'o) wire_format \<Rightarrow> message_chunk \<Rightarrow> nat \<Rightarrow> segment_assembly
     \<Rightarrow> 'm assembly_update \<times> segment_assembly" where
  "append_chunk b64 fmt c now a =
     (let chunk_start = length (sa_raw a);
          estimate = b64_decoded_len_estimate b64 (length (mc_chunk_base64 c));
          chunk_end = min (mc_message_size_bytes c) (chunk_start + estimate)
      in case b64_decode_slice b64 (mc_chunk_base64 c) (chunk_end - chunk_start) of
           Inl _ \<Rightarrow> (UpdateDrop, a\<lparr>sa_last_chunk_seen_at := now\<rparr>)
         | Inr bs \<Rightarrow>
             (let a' = a\<lparr>sa_raw := sa_raw a @ bs, sa_next_segment_id := sa_next_segment_id a + 1,
                         sa_last_chunk_seen_at := now\<rparr>
              in if sa_next_segment_id a' < mc_segment_count c then (UpdatePending, a')
                 else if length (sa_raw a') \<noteq> mc_message_size_bytes c then (UpdateDrop, a')
                 else case wf_from_slice fmt (sa_raw a') of
                        Inr m \<Rightarrow> (UpdateComplete m, a')
                      | Inl _ \<Rightarrow> (UpdateDrop, a')))"

definition update_assembly ::
  "base64_codec \<Rightarrow> ('m, 'o) wire_format \<Rightarrow> segment_metadata \<Rightarrow> message_chunk \<Rightarrow> nat \<Rightarrow> segment_assembly
     \<Rightarrow> 'm assembly_update \<times> segment_assembly" where
  "update_assembly b64 fmt md c now a =
     (if sm_seq_id md < sm_seq_id (sa_metadata a) then (UpdateIgnore, a)
      else if sa_metadata a \<noteq> md then (UpdateDrop, a)
      else if mc_segment_id c < sa_next_segment_id a then (UpdatePending, a)
      else if mc_segment_id c \<noteq> sa_next_segment_id a then (UpdateDrop, a)
      else append_chunk b64 fmt c now a)"

definition observe ::
  "base64_codec \<Rightarrow> ('m, 'o) wire_format \<Rightarrow> nat \<Rightarrow> 'm client_envelope \<Rightarrow> reassembler
     \<Rightarrow> 'm segment_observation \<times> reassembler" where
  "observe b64 fmt now env asm =
     (case ce_event env of
        ClientMessageChunk c \<Rightarrow>
          (case metadata_from_envelope env of
             None \<Rightarrow> (ObserveDropped, asm)
           | Some md \<Rightarrow>
               (case ce_stream_id env of
                  None \<Rightarrow> (ObserveDropped, asm)
                | Some sid \<Rightarrow>
                    (let cid = ce_client_id env in
                     if should_ignore_chunk asm cid sid (sm_seq_id md) (mc_segment_id c)
                     then (ObserveDropped, asm)
                     else if chunk_invalid c then (ObserveDropped, remove_assembly cid sid asm)
                     else
                       (let asm1 = ensure_assembly cid sid md now asm in
                        case hm_get asm1 cid of
                          None \<Rightarrow> (ObserveDropped, asm1)
                        | Some a \<Rightarrow>
                            (case update_assembly b64 fmt md c now a of
                               (u, a') \<Rightarrow>
                                 (let asm2 = hm_insert cid a' asm1 in
                                  case u of
                                    UpdatePending \<Rightarrow> (ObservePending, asm2)
                                  | UpdateIgnore \<Rightarrow> (ObserveDropped, asm2)
                                  | UpdateDrop \<Rightarrow> (ObserveDropped, remove_assembly cid sid asm2)
                                  | UpdateComplete m \<Rightarrow>
                                      (ForwardEnvelope (env\<lparr>ce_event := ClientMessage m\<rparr>),
                                       remove_assembly cid sid asm2)))))))
      | _ \<Rightarrow> (ForwardEnvelope env, asm))"

subsection \<open>Splitting\<close>

definition div_ceil :: "nat \<Rightarrow> nat \<Rightarrow> nat" where
  "div_ceil a b = (if a mod b = 0 then a div b else a div b + 1)"

function chunks :: "nat \<Rightarrow> 'a list \<Rightarrow> 'a list list" where
  "chunks n [] = []"
| "chunks n (x # xs) = take (max 1 n) (x # xs) # chunks n (drop (max 1 n) (x # xs))"
  by pat_completeness auto

termination
  by (relation "measure (\<lambda>(n, xs). length xs)") auto

definition build_chunk_envelope ::
  "base64_codec \<Rightarrow> 'o server_envelope \<Rightarrow> nat \<Rightarrow> nat \<Rightarrow> nat \<Rightarrow> byte list \<Rightarrow> io_error + 'o server_envelope" where
  "build_chunk_envelope b64 env seg count msize chunk =
     (if count > segment_count_max
      then Inl \<lparr>ioe_kind = InvalidData, ioe_message = ''remote-control segment count exceeds maximum''\<rparr>
      else Inr \<lparr>sv_event = ServerMessageChunk \<lparr>mc_segment_id = seg, mc_segment_count = count,
                  mc_message_size_bytes = msize, mc_chunk_base64 = b64_encode b64 chunk\<rparr>,
                sv_client_id = sv_client_id env, sv_stream_id = sv_stream_id env,
                sv_seq_id = sv_seq_id env\<rparr>)"

definition serialized_chunk_len ::
  "base64_codec \<Rightarrow> ('m, 'o) wire_format \<Rightarrow> 'o server_envelope \<Rightarrow> nat \<Rightarrow> nat \<Rightarrow> nat \<Rightarrow> byte list
     \<Rightarrow> io_error + nat" where
  "serialized_chunk_len b64 fmt env seg count msize chunk =
     (case build_chunk_envelope b64 env seg count msize chunk of
        Inl e \<Rightarrow> Inl e
      | Inr env' \<Rightarrow> wf_serialized_len fmt env')"

definition chunk_fits ::
  "base64_codec \<Rightarrow> ('m, 'o) wire_format \<Rightarrow> 'o server_envelope \<Rightarrow> nat \<Rightarrow> nat \<Rightarrow> nat \<times> byte list \<Rightarrow> bool" where
  "chunk_fits b64 fmt env count msize ic =
     (case serialized_chunk_len b64 fmt env (fst ic) count msize (snd ic) of
        Inl _ \<Rightarrow> False | Inr n \<Rightarrow> n \<le> segment_max_bytes)"

fun collect_results :: "('e + 'a) list \<Rightarrow> 'e + 'a list" where
  "collect_results [] = Inr []"
| "collect_results (r # rs) =
     (case r of
        Inl e \<Rightarrow> Inl e
      | Inr x \<Rightarrow> (case collect_results rs of Inl e \<Rightarrow> Inl e | Inr xs \<Rightarrow> Inr (x # xs)))"

definition next_segment_count :: "nat \<Rightarrow> nat \<Rightarrow> nat \<Rightarrow> nat" where
  "next_segment_count msize chunk_size count =
     (let next = count + 1 in
      if max 1 (div_ceil msize next) = chunk_size then msize else next)"

text \<open>The size of the chunks shrinks with every turn of the loop.\<close>

lemma div_ceil_le: "0 < b \<Longrightarrow> (div_ceil a b \<le> n) = (a \<le> n * b)"
proof -
  assume b: "0 < b"
  have a: "a = b * (a div b) + a mod b" by simp
  show ?thesis
  proof (cases "a mod b = 0")
    case True
    then have "a = b * (a div b)" using a by simp
    then show ?thesis using True b by (metis div_ceil_def mult.commute mult_le_cancel2)
  next
    case False
    have "a div b < n \<longleftrightarrow> a \<le> n * b"
    proof
      assume "a div b < n"
      then have "(a div b + 1) * b \<le> n * b" by (intro mult_le_mono1) simp
      then have "b * (a div b) + b \<le> n * b" by (simp add: mult.commute)
      moreover have "a mod b < b" using b by simp
      ultimately show "a \<le> n * b" using a by linarith
    next
      assume le: "a \<le> n * b"
      show "a div b < n"
      proof (rule ccontr)
        assume "\<not> a div b < n"
        then have "n * b \<le> (a div b) * b" by simp
        then have "a mod b = 0" using le a by (metis add_le_same_cancel1 le_antisym le_trans le_zero_eq mult.commute)
        then show False using False by simp
      qed
    qed
    then show ?thesis using False by (simp add: div_ceil_def Suc_le_eq)
  qed
qed

lemma div_ceil_pos: "0 < a \<Longrightarrow> 0 < b \<Longrightarrow> 0 < div_ceil a b"
  using div_ceil_le [of b a 0] by simp

lemma div_ceil_self: "0 < a \<Longrightarrow> div_ceil a a = 1"
  by (simp add: div_ceil_def)

lemma chunk_size_shrinks:
  assumes "1 < cs" and "cs = max 1 (div_ceil m count)"
  shows "max 1 (div_ceil m (next_segment_count m cs (div_ceil m cs))) < cs"
proof (cases "max 1 (div_ceil m (div_ceil m cs + 1)) = cs")
  case True
  have "0 < m" using assms by (cases "m = 0") (auto simp: div_ceil_def)
  then show ?thesis using True assms(1) by (simp add: next_segment_count_def div_ceil_self)
next
  case False
  have "m \<le> div_ceil m cs * cs" using div_ceil_le [of cs m "div_ceil m cs"] assms(1) by simp
  also have "\<dots> \<le> cs * (div_ceil m cs + 1)" by (simp add: algebra_simps)
  finally have "div_ceil m (div_ceil m cs + 1) \<le> cs" by (simp add: div_ceil_le)
  then show ?thesis using False assms(1) by (auto simp: next_segment_count_def)
qed

function split_loop ::
  "base64_codec \<Rightarrow> ('m, 'o) wire_format \<Rightarrow> 'o server_envelope \<Rightarrow> byte list \<Rightarrow> nat
     \<Rightarrow> io_error + 'o server_envelope list" where
  "split_loop b64 fmt env raw count =
     (let msize = length raw;
          chunk_size = max 1 (div_ceil msize count);
          segment_count = div_ceil msize chunk_size;
          segments = enumerate 0 (chunks chunk_size raw)
      in if list_all (chunk_fits b64 fmt env segment_count msize) segments
         then collect_results
                (map (\<lambda>(i, c). build_chunk_envelope b64 env i segment_count msize c) segments)
         else if chunk_size = 1 then Inr []
         else split_loop b64 fmt env raw (next_segment_count msize chunk_size segment_count))"
  by pat_completeness auto

termination
proof (relation "measure (\<lambda>(b64, fmt, env, raw, count). max 1 (div_ceil (length raw) count))", simp)
  fix b64 and fmt :: "('m, 'o) wire_format" and env raw count msize cs sc segs
  assume "msize = length raw" "cs = max 1 (div_ceil msize count)" "sc = div_ceil msize cs" "cs \<noteq> 1"
  then show "((b64, fmt, env, raw, next_segment_count msize cs sc), (b64, fmt, env, raw, count))
      \<in> measure (\<lambda>(b64, fmt, env, raw, count). max 1 (div_ceil (length raw) count))"
    using chunk_size_shrinks [of cs msize count] by auto
qed

declare split_loop.simps [simp del]

definition split_server_envelope_for_transport ::
  "base64_codec \<Rightarrow> ('m, 'o) wire_format \<Rightarrow> 'o server_envelope \<Rightarrow> io_error + 'o server_envelope list" where
  "split_server_envelope_for_transport b64 fmt env =
     (case sv_event env of
        ServerMessage m \<Rightarrow>
          (case wf_serialized_len fmt env of
             Inl e \<Rightarrow> Inl e
           | Inr n \<Rightarrow>
               if n \<le> segment_max_bytes then Inr [env]
               else
                 (case wf_to_vec fmt m of
                    Inl e \<Rightarrow> Inl e
                  | Inr raw \<Rightarrow>
                      (let msize = length raw in
                       if msize > reassembled_max_bytes then Inr []
                       else
                         (case serialized_chunk_len b64 fmt env 0 (min (max msize 1) segment_count_max) msize
                                 (take (min (length raw) 1) raw) of
                            Inl e \<Rightarrow> Inl e
                          | Inr k \<Rightarrow>
                              if k > segment_max_bytes then Inr []
                              else split_loop b64 fmt env raw
                                     (max 2 (div_ceil msize segment_target_bytes))))))
      | _ \<Rightarrow> Inr [env])"

subsection \<open>What the splitter produces\<close>

lemma concat_chunks: "concat (chunks n xs) = xs"
proof (induction n xs rule: chunks.induct)
  case (2 n x xs)
  then show ?case by (simp only: chunks.simps concat.simps append_take_drop_id)
qed simp

lemma chunks_nonempty: "c \<in> set (chunks n xs) \<Longrightarrow> c \<noteq> []"
  by (induction n xs rule: chunks.induct) auto

lemma length_chunks: "0 < n \<Longrightarrow> length (chunks n xs) = div_ceil (length xs) n"
proof (induction n xs rule: chunks.induct)
  case (1 n)
  then show ?case by (simp add: div_ceil_def)
next
  case (2 n x xs)
  let ?l = "length (x # xs)"
  have ih: "length (chunks n (drop n (x # xs))) = div_ceil (?l - n) n"
    using 2 by (simp add: max_def split: if_splits)
  have "div_ceil ?l n = Suc (div_ceil (?l - n) n)"
  proof (cases "n \<le> ?l")
    case True
    then show ?thesis using 2(2) by (simp only: div_ceil_def le_div_geq le_mod_geq) simp
  next
    case False
    then show ?thesis by (simp add: div_ceil_def)
  qed
  then show ?case using ih 2(2) by (simp add: max_def split: if_splits)
qed

definition chunk_envelope ::
  "base64_codec \<Rightarrow> 'o server_envelope \<Rightarrow> nat \<Rightarrow> nat \<Rightarrow> nat \<Rightarrow> byte list \<Rightarrow> 'o server_envelope" where
  "chunk_envelope b64 env seg count msize chunk =
     \<lparr>sv_event = ServerMessageChunk \<lparr>mc_segment_id = seg, mc_segment_count = count,
        mc_message_size_bytes = msize, mc_chunk_base64 = b64_encode b64 chunk\<rparr>,
      sv_client_id = sv_client_id env, sv_stream_id = sv_stream_id env, sv_seq_id = sv_seq_id env\<rparr>"

lemma collect_results_build:
  "count \<le> segment_count_max \<Longrightarrow>
     collect_results (map (\<lambda>(i, c). build_chunk_envelope b64 env i count msize c) ics)
       = Inr (map (\<lambda>(i, c). chunk_envelope b64 env i count msize c) ics)"
  by (induction ics) (auto simp: build_chunk_envelope_def chunk_envelope_def)

lemma chunk_fits_count: "chunk_fits b64 fmt env count msize ic \<Longrightarrow> count \<le> segment_count_max"
  by (auto simp: chunk_fits_def serialized_chunk_len_def build_chunk_envelope_def split: if_splits)

lemma chunk_fits_len:
  "chunk_fits b64 fmt env count msize (i, c) \<Longrightarrow>
     \<exists>n \<le> segment_max_bytes. wf_serialized_len fmt (chunk_envelope b64 env i count msize c) = Inr n"
  by (auto simp: chunk_fits_def serialized_chunk_len_def build_chunk_envelope_def chunk_envelope_def
      split: if_splits sum.splits)

text \<open>A segmentation of \<open>raw\<close>: numbered chunks, all announcing their number and the whole length.\<close>

definition segmentation ::
  "base64_codec \<Rightarrow> ('m, 'o) wire_format \<Rightarrow> 'o server_envelope \<Rightarrow> byte list \<Rightarrow> 'o server_envelope list \<Rightarrow> bool" where
  "segmentation b64 fmt env raw segs \<longleftrightarrow>
     (\<exists>cs. concat cs = raw \<and> [] \<notin> set cs \<and> length cs \<le> segment_count_max
        \<and> segs = map (\<lambda>(i, c). chunk_envelope b64 env i (length cs) (length raw) c) (enumerate 0 cs)
        \<and> (\<forall>seg \<in> set segs. \<exists>n \<le> segment_max_bytes. wf_serialized_len fmt seg = Inr n))"

lemma split_loop_segmentation:
  assumes "raw \<noteq> []"
  shows "\<exists>segs. split_loop b64 fmt env raw count = Inr segs \<and> (segs = [] \<or> segmentation b64 fmt env raw segs)"
  using assms
proof (induction b64 fmt env raw count rule: split_loop.induct)
  case (1 b64 fmt env raw count)
  define cs where "cs = max 1 (div_ceil (length raw) count)"
  define sc where "sc = div_ceil (length raw) cs"
  define segs where "segs = enumerate 0 (chunks cs raw)"
  have cs: "0 < cs" by (simp add: cs_def)
  have eq: "split_loop b64 fmt env raw count =
      (if list_all (chunk_fits b64 fmt env sc (length raw)) segs
       then collect_results (map (\<lambda>(i, c). build_chunk_envelope b64 env i sc (length raw) c) segs)
       else if cs = 1 then Inr []
       else split_loop b64 fmt env raw (next_segment_count (length raw) cs sc))"
    by (subst split_loop.simps) (simp add: Let_def cs_def sc_def segs_def)
  have len: "length (chunks cs raw) = sc" using length_chunks [OF cs] by (simp add: sc_def)
  show ?case
  proof (cases "list_all (chunk_fits b64 fmt env sc (length raw)) segs")
    case True
    have "segs \<noteq> []"
    proof
      assume "segs = []"
      then have "chunks cs raw = []" by (metis segs_def length_0_conv length_enumerate)
      then show False using concat_chunks [of cs raw] 1(2) by simp
    qed
    then have max: "sc \<le> segment_count_max"
      using True chunk_fits_count by (metis list.set_sel(1) list_all_iff)
    let ?out = "map (\<lambda>(i, c). chunk_envelope b64 env i sc (length raw) c) segs"
    have "\<exists>n \<le> segment_max_bytes. wf_serialized_len fmt seg = Inr n" if "seg \<in> set ?out" for seg
      using that True by (auto simp: list_all_iff dest!: chunk_fits_len)
    then have "segmentation b64 fmt env raw ?out"
      unfolding segmentation_def using concat_chunks [of cs raw] chunks_nonempty [of _ cs raw] max
      by (intro exI [of _ "chunks cs raw"]) (auto simp: len segs_def)
    moreover have "split_loop b64 fmt env raw count = Inr ?out"
      unfolding eq if_P [OF True] by (rule collect_results_build [OF max])
    ultimately show ?thesis by blast
  next
    case False
    show ?thesis
    proof (cases "cs = 1")
      case False
      then show ?thesis
        using 1(1) [OF refl cs_def sc_def segs_def _ False 1(2)]
          \<open>\<not> list_all (chunk_fits b64 fmt env sc (length raw)) segs\<close> eq by simp
    qed (use False eq in simp)
  qed
qed

subsection \<open>The reassembler inverts the splitter\<close>

text \<open>What is documented of the base64 engine.\<close>

definition base64_laws :: "base64_codec \<Rightarrow> bool" where
  "base64_laws b64 \<longleftrightarrow>
     (\<forall>bs cap. b64_decode_slice b64 (b64_encode b64 bs) cap
        = (if length bs \<le> cap then Inr bs else Inl OutputSliceTooSmall))
     \<and> (\<forall>bs. length bs \<le> b64_decoded_len_estimate b64 (length (b64_encode b64 bs)))
     \<and> (\<forall>bs. bs \<noteq> [] \<longrightarrow> b64_encode b64 bs \<noteq> [])
     \<and> (\<forall>s cap bs. b64_decode_slice b64 s cap = Inr bs \<longrightarrow> length bs \<le> cap)"

lemma base64_lawsD:
  assumes "base64_laws b64"
  shows "b64_decode_slice b64 (b64_encode b64 bs) cap = (if length bs \<le> cap then Inr bs else Inl OutputSliceTooSmall)"
    and "length bs \<le> b64_decoded_len_estimate b64 (length (b64_encode b64 bs))"
    and "bs \<noteq> [] \<Longrightarrow> b64_encode b64 bs \<noteq> []"
    and "b64_decode_slice b64 s cap = Inr bs \<Longrightarrow> length bs \<le> cap"
  using assms unfolding base64_laws_def by blast+

text \<open>The same chunk on its way into the other side's reassembler.\<close>

fun client_chunk :: "'o server_envelope \<Rightarrow> 'm client_envelope" where
  "client_chunk sv =
     \<lparr>ce_event = (case sv_event sv of ServerMessageChunk c \<Rightarrow> ClientMessageChunk c | _ \<Rightarrow> ClientPing),
      ce_client_id = sv_client_id sv, ce_stream_id = Some (sv_stream_id sv),
      ce_seq_id = Some (sv_seq_id sv), ce_cursor = None\<rparr>"

fun observe_all ::
  "base64_codec \<Rightarrow> ('m, 'o) wire_format \<Rightarrow> (nat \<times> 'm client_envelope) list \<Rightarrow> reassembler
     \<Rightarrow> 'm segment_observation list \<times> reassembler" where
  "observe_all b64 fmt [] asm = ([], asm)"
| "observe_all b64 fmt ((now, env) # envs) asm =
     (case observe b64 fmt now env asm of
        (ob, asm1) \<Rightarrow> (case observe_all b64 fmt envs asm1 of (obs, asm2) \<Rightarrow> (ob # obs, asm2)))"

definition holds_assembly :: "client_id \<Rightarrow> stream_id \<Rightarrow> segment_metadata \<Rightarrow> byte list list \<Rightarrow> reassembler \<Rightarrow> bool" where
  "holds_assembly cid sid md done asm \<longleftrightarrow>
     (\<exists>a. hm_get asm cid = Some a \<and> sa_stream_id a = sid \<and> sa_metadata a = md
        \<and> sa_raw a = concat done \<and> sa_next_segment_id a = length done)"

lemma remove_assembly_get:
  "hm_get (remove_assembly cid sid asm) cid' =
     (case hm_get asm cid of
        Some a \<Rightarrow> if sa_stream_id a = sid \<and> cid' = cid then None else hm_get asm cid'
      | None \<Rightarrow> hm_get asm cid')"
  by (auto simp: remove_assembly_def container_simps split: option.splits)

text \<open>One valid chunk, arriving in its turn.\<close>

lemma observe_next_chunk:
  assumes laws: "base64_laws b64"
    and cs: "concat cs = raw" "[] \<notin> set cs" "length cs \<le> segment_count_max" "raw \<noteq> []"
      "length raw \<le> reassembled_max_bytes"
    and i: "i < length cs"
    and md: "md = \<lparr>sm_seq_id = sv_seq_id env, sm_segment_count = length cs, sm_message_size_bytes = length raw\<rparr>"
    and asm: "if i = 0 then hm_get asm (sv_client_id env) = None
              else holds_assembly (sv_client_id env) (sv_stream_id env) md (take i cs) asm"
    and ob: "observe b64 fmt now (client_chunk (chunk_envelope b64 env i (length cs) (length raw) (cs ! i))) asm = (ob, asm')"
  shows "if Suc i < length cs
    then ob = ObservePending \<and> holds_assembly (sv_client_id env) (sv_stream_id env) md (take (Suc i) cs) asm'
    else hm_get asm' (sv_client_id env) = None
      \<and> (case wf_from_slice fmt raw of
           Inr m \<Rightarrow> ob = ForwardEnvelope \<lparr>ce_event = ClientMessage m, ce_client_id = sv_client_id env,
                         ce_stream_id = Some (sv_stream_id env), ce_seq_id = Some (sv_seq_id env), ce_cursor = None\<rparr>
         | Inl _ \<Rightarrow> ob = ObserveDropped)"
proof -
  let ?cid = "sv_client_id env" and ?sid = "sv_stream_id env"
  define c where "c = \<lparr>mc_segment_id = i, mc_segment_count = length cs,
    mc_message_size_bytes = length raw, mc_chunk_base64 = b64_encode b64 (cs ! i)\<rparr>"
  define cenv :: "'b client_envelope" where "cenv = client_chunk (chunk_envelope b64 env i (length cs) (length raw) (cs ! i))"
  have cenv: "ce_event cenv = ClientMessageChunk c" "ce_client_id cenv = ?cid" "ce_stream_id cenv = Some ?sid"
    "ce_seq_id cenv = Some (sv_seq_id env)" "ce_cursor cenv = None"
    by (simp_all add: cenv_def c_def chunk_envelope_def)
  have meta: "metadata_from_envelope cenv = Some md" using cenv by (simp add: metadata_from_envelope_def c_def md)
  have ne: "cs ! i \<noteq> []" using cs(2) i nth_mem by metis
  have valid: "\<not> chunk_invalid c"
    using cs i base64_lawsD(3) [OF laws ne] by (auto simp: chunk_invalid_def c_def)
  have fresh: "\<not> should_ignore_chunk asm ?cid ?sid (sm_seq_id md) i"
    using asm by (cases "i = 0") (auto simp: should_ignore_chunk_def holds_assembly_def md split: option.splits)
  define asm1 where "asm1 = ensure_assembly ?cid ?sid md now asm"
  have "holds_assembly ?cid ?sid md (take i cs) asm1"
    using asm by (cases "i = 0")
      (auto simp: asm1_def ensure_assembly_def holds_assembly_def new_assembly_def container_simps)
  then obtain a where a: "hm_get asm1 ?cid = Some a" "sa_stream_id a = ?sid" "sa_metadata a = md"
    "sa_raw a = concat (take i cs)" "sa_next_segment_id a = i"
    using i by (auto simp: holds_assembly_def)
  define a' where "a' = a\<lparr>sa_raw := concat (take (Suc i) cs), sa_next_segment_id := Suc i, sa_last_chunk_seen_at := now\<rparr>"
  have split: "raw = concat (take i cs) @ cs ! i @ concat (drop (Suc i) cs)"
    using cs(1) i by (metis append_take_drop_id concat_append concat.simps(2) Cons_nth_drop_Suc)
  have "length (cs ! i) \<le> min (length raw) (length (sa_raw a) + b64_decoded_len_estimate b64 (length (b64_encode b64 (cs ! i)))) - length (sa_raw a)"
    using base64_lawsD(2) [OF laws, of "cs ! i"] a(4) split by auto
  then have dec: "b64_decode_slice b64 (mc_chunk_base64 c)
      (min (mc_message_size_bytes c) (length (sa_raw a) + b64_decoded_len_estimate b64 (length (mc_chunk_base64 c))) - length (sa_raw a))
      = Inr (cs ! i)"
    using base64_lawsD(1) [OF laws] by (simp add: c_def)
  have upd_a: "a\<lparr>sa_raw := sa_raw a @ cs ! i, sa_next_segment_id := sa_next_segment_id a + 1, sa_last_chunk_seen_at := now\<rparr> = a'"
    using a(4,5) i by (simp add: a'_def take_Suc_conv_app_nth)
  have app: "append_chunk b64 fmt c now a =
      (if Suc i < length cs then (UpdatePending, a')
       else if length (sa_raw a') \<noteq> length raw then (UpdateDrop, a')
       else case wf_from_slice fmt (sa_raw a') of Inr m \<Rightarrow> (UpdateComplete m, a') | Inl _ \<Rightarrow> (UpdateDrop, a'))"
    unfolding append_chunk_def Let_def dec sum.case upd_a by (simp add: c_def) (simp add: a'_def)
  have upd: "update_assembly b64 fmt md c now a = append_chunk b64 fmt c now a"
    using a(3,5) by (simp add: update_assembly_def c_def)
  have obs: "observe b64 fmt now cenv asm =
      (case append_chunk b64 fmt c now a of
         (u, a'') \<Rightarrow>
           (let asm2 = hm_insert ?cid a'' asm1 in
            case u of
              UpdatePending \<Rightarrow> (ObservePending, asm2)
            | UpdateIgnore \<Rightarrow> (ObserveDropped, asm2)
            | UpdateDrop \<Rightarrow> (ObserveDropped, remove_assembly ?cid ?sid asm2)
            | UpdateComplete m \<Rightarrow>
                (ForwardEnvelope (cenv\<lparr>ce_event := ClientMessage m\<rparr>), remove_assembly ?cid ?sid asm2)))"
    using cenv(1-3) meta fresh valid a(1) upd
    by (simp add: observe_def Let_def asm1_def [symmetric] c_def [symmetric]) (simp add: c_def)
  have a'_sid: "sa_stream_id a' = ?sid" "sa_metadata a' = md" using a(2,3) by (simp_all add: a'_def)
  show ?thesis
  proof (cases "Suc i < length cs")
    case True
    then have "ob = ObservePending" "asm' = hm_insert ?cid a' asm1"
      using ob obs app unfolding cenv_def [symmetric] by (auto simp: Let_def)
    moreover have "holds_assembly ?cid ?sid md (take (Suc i) cs) (hm_insert ?cid a' asm1)"
      using a'_sid True by (auto simp: holds_assembly_def container_simps a'_def)
    ultimately show ?thesis using True by simp
  next
    case False
    then have all: "take (Suc i) cs = cs" using i by simp
    then have raw: "sa_raw a' = raw" using cs(1) by (simp add: a'_def)
    have gone: "hm_get (remove_assembly ?cid ?sid (hm_insert ?cid a' asm1)) ?cid = None"
      using a'_sid by (simp add: remove_assembly_get container_simps)
    show ?thesis
    proof (cases "wf_from_slice fmt raw")
      case (Inr m)
      moreover have "cenv\<lparr>ce_event := ClientMessage m\<rparr> = \<lparr>ce_event = ClientMessage m, ce_client_id = ?cid,
          ce_stream_id = Some ?sid, ce_seq_id = Some (sv_seq_id env), ce_cursor = None\<rparr>"
        using cenv by simp
      ultimately show ?thesis using ob obs app False raw gone unfolding cenv_def [symmetric] by (auto simp: Let_def)
    next
      case (Inl e)
      then show ?thesis using ob obs app False raw gone unfolding cenv_def [symmetric] by (auto simp: Let_def)
    qed
  qed
qed

lemma observe_remaining_chunks:
  assumes laws: "base64_laws b64"
    and cs: "concat cs = raw" "[] \<notin> set cs" "length cs \<le> segment_count_max" "raw \<noteq> []"
      "length raw \<le> reassembled_max_bytes"
    and md: "md = \<lparr>sm_seq_id = sv_seq_id env, sm_segment_count = length cs, sm_message_size_bytes = length raw\<rparr>"
    and parse: "wf_from_slice fmt raw = Inr m"
  shows "i < length cs \<Longrightarrow> length ts = length cs - i \<Longrightarrow>
    (if i = 0 then hm_get asm (sv_client_id env) = None
     else holds_assembly (sv_client_id env) (sv_stream_id env) md (take i cs) asm) \<Longrightarrow>
    \<exists>asm'. observe_all b64 fmt
        (zip ts (map (\<lambda>(j, c). client_chunk (chunk_envelope b64 env j (length cs) (length raw) c))
                     (drop i (enumerate 0 cs)))) asm
      = (replicate (length cs - i - 1) ObservePending
           @ [ForwardEnvelope \<lparr>ce_event = ClientMessage m, ce_client_id = sv_client_id env,
                ce_stream_id = Some (sv_stream_id env), ce_seq_id = Some (sv_seq_id env), ce_cursor = None\<rparr>], asm')
      \<and> hm_get asm' (sv_client_id env) = None"
proof (induction "length cs - i" arbitrary: i ts asm)
  case 0
  then show ?case by simp
next
  case (Suc k)
  obtain now ts' where ts: "ts = now # ts'" using Suc(2,4) by (cases ts) auto
  have drop: "drop i (enumerate 0 cs) = (i, cs ! i) # drop (Suc i) (enumerate 0 cs)"
    using Suc(3) by (simp add: Cons_nth_drop_Suc [symmetric] nth_enumerate_eq)
  obtain ob asm1 where ob: "observe b64 fmt now
      (client_chunk (chunk_envelope b64 env i (length cs) (length raw) (cs ! i))) asm = (ob, asm1)"
    by (rule prod.exhaust)
  note step = observe_next_chunk [OF laws cs Suc(3) md Suc(5) ob]
  show ?case
  proof (cases "Suc i < length cs")
    case True
    then have one: "ob = ObservePending"
      "if Suc i = 0 then hm_get asm1 (sv_client_id env) = None
       else holds_assembly (sv_client_id env) (sv_stream_id env) md (take (Suc i) cs) asm1"
      using step by auto
    have k: "k = length cs - Suc i" and tl: "length ts' = length cs - Suc i" using Suc(2,4) ts by auto
    have "replicate (length cs - i - 1) ob = ob # replicate (length cs - Suc i - 1) ob"
      using True by (cases "length cs - i - 1") auto
    then show ?thesis
      using Suc(1) [OF k True tl one(2)] ob one(1) unfolding ts drop by auto
  next
    case False
    then have end_: "length cs - i - 1 = 0" "drop (Suc i) (enumerate 0 cs) = []" by auto
    show ?thesis using step ob False parse unfolding ts drop end_ by simp
  qed
qed

lemma split_segmentation:
  assumes "sv_event env = ServerMessage out" and "wf_to_vec fmt out = Inr raw"
    and "split_server_envelope_for_transport b64 fmt env = Inr segs" and "segs \<noteq> []" and "segs \<noteq> [env]"
  shows "segmentation b64 fmt env raw segs \<and> raw \<noteq> [] \<and> length raw \<le> reassembled_max_bytes"
proof -
  obtain count where loop: "split_loop b64 fmt env raw count = Inr segs" and le: "length raw \<le> reassembled_max_bytes"
    using assms by (auto simp: split_server_envelope_for_transport_def Let_def split: sum.splits if_splits)
  have ne: "raw \<noteq> []"
  proof
    assume "raw = []"
    then show False using loop assms(4) by (subst (asm) split_loop.simps) (simp add: Let_def)
  qed
  then show ?thesis using split_loop_segmentation [OF ne, of b64 fmt env count] loop assms(4) le by force
qed

lemma segmentation_observed:
  assumes "base64_laws b64" and "segmentation b64 fmt env raw segs" and "raw \<noteq> []"
    and "length raw \<le> reassembled_max_bytes" and "wf_from_slice fmt raw = Inr m"
    and "hm_get asm (sv_client_id env) = None" and "length ts = length segs"
  shows "\<exists>asm'. observe_all b64 fmt (zip ts (map client_chunk segs)) asm
         = (replicate (length segs - 1) ObservePending
              @ [ForwardEnvelope \<lparr>ce_event = ClientMessage m, ce_client_id = sv_client_id env,
                   ce_stream_id = Some (sv_stream_id env), ce_seq_id = Some (sv_seq_id env), ce_cursor = None\<rparr>], asm')
         \<and> hm_get asm' (sv_client_id env) = None"
proof -
  obtain cs where cs: "concat cs = raw" "[] \<notin> set cs" "length cs \<le> segment_count_max"
    and segs: "segs = map (\<lambda>(i, c). chunk_envelope b64 env i (length cs) (length raw) c) (enumerate 0 cs)"
    using assms(2) unfolding segmentation_def by blast
  have pos: "0 < length cs" using assms(3) cs(1) by auto
  have len: "length segs = length cs" by (simp add: segs)
  have map: "map client_chunk segs =
      map (\<lambda>(j, c). client_chunk (chunk_envelope b64 env j (length cs) (length raw) c)) (drop 0 (enumerate 0 cs))"
    unfolding segs by (simp add: comp_def split_def)
  have "if (0::nat) = 0 then hm_get asm (sv_client_id env) = None
        else holds_assembly (sv_client_id env) (sv_stream_id env)
          \<lparr>sm_seq_id = sv_seq_id env, sm_segment_count = length cs, sm_message_size_bytes = length raw\<rparr> (take 0 cs) asm"
    using assms(6) by simp
  from observe_remaining_chunks [OF assms(1) cs assms(3,4) refl assms(5) pos _ this, of ts]
  show ?thesis using assms(7) len unfolding map by simp
qed

text \<open>
  C21. What the splitter cuts, the reassembler puts together: if a message too large for one envelope
  is split, every piece fits the transport's limit, and feeding the pieces in order, at whatever
  times, to a reassembler with no unfinished message of that client yields one pending observation
  per piece but the last, then exactly the message, and leaves nothing of it behind.
\<close>

theorem segmented_message_round_trip:
  assumes "base64_laws b64"
    and "sv_event env = ServerMessage out" and "wf_to_vec fmt out = Inr raw" and "wf_from_slice fmt raw = Inr m"
    and "split_server_envelope_for_transport b64 fmt env = Inr segs" and "segs \<noteq> []" and "segs \<noteq> [env]"
    and "hm_get asm (sv_client_id env) = None" and "length ts = length segs"
  shows "(\<forall>seg \<in> set segs. \<exists>n \<le> segment_max_bytes. wf_serialized_len fmt seg = Inr n)
    \<and> (\<exists>asm'. observe_all b64 fmt (zip ts (map client_chunk segs)) asm
         = (replicate (length segs - 1) ObservePending
              @ [ForwardEnvelope \<lparr>ce_event = ClientMessage m, ce_client_id = sv_client_id env,
                   ce_stream_id = Some (sv_stream_id env), ce_seq_id = Some (sv_seq_id env), ce_cursor = None\<rparr>], asm')
         \<and> hm_get asm' (sv_client_id env) = None)"
proof -
  have seg: "segmentation b64 fmt env raw segs" "raw \<noteq> []" "length raw \<le> reassembled_max_bytes"
    using split_segmentation [OF assms(2,3,5-7)] by blast+
  have "\<forall>seg \<in> set segs. \<exists>n \<le> segment_max_bytes. wf_serialized_len fmt seg = Inr n"
    using seg(1) unfolding segmentation_def by blast
  then show ?thesis using segmentation_observed [OF assms(1) seg assms(4,8,9)] by blast
qed

subsection \<open>What a reassembler can hold, and where it comes from\<close>

text \<open>
  The runs of a reassembler, with the envelopes it was given as a ghost component. An envelope
  carries segment \<open>k\<close> of a message if it is a chunk of the same client, stream and metadata.
\<close>

definition carries ::
  "base64_codec \<Rightarrow> client_id \<Rightarrow> stream_id \<Rightarrow> segment_metadata \<Rightarrow> nat \<Rightarrow> 'm client_envelope \<Rightarrow> byte list \<Rightarrow> bool" where
  "carries b64 cid sid md k env bs \<longleftrightarrow>
     ce_client_id env = cid \<and> ce_stream_id env = Some sid \<and> metadata_from_envelope env = Some md
     \<and> (\<exists>c cap. ce_event env = ClientMessageChunk c \<and> mc_segment_id c = k
          \<and> b64_decode_slice b64 (mc_chunk_base64 c) cap = Inr bs)"

definition assembled_from ::
  "base64_codec \<Rightarrow> 'm client_envelope list \<Rightarrow> client_id \<Rightarrow> stream_id \<Rightarrow> segment_metadata \<Rightarrow> nat \<Rightarrow> byte list \<Rightarrow> bool" where
  "assembled_from b64 past cid sid md n raw \<longleftrightarrow>
     (\<exists>sel bss. subseq sel past \<and> length sel = n \<and> length bss = n \<and> concat bss = raw
        \<and> (\<forall>k < n. carries b64 cid sid md k (sel ! k) (bss ! k)))"

lemma assembled_from_Nil: "assembled_from b64 past cid sid md 0 []"
  by (auto simp: assembled_from_def)

lemma assembled_from_later: "assembled_from b64 past cid sid md n raw \<Longrightarrow> assembled_from b64 (past @ later) cid sid md n raw"
  unfolding assembled_from_def by (blast intro: list_emb_append2)

lemma assembled_from_snoc:
  assumes "assembled_from b64 past cid sid md n raw" and "carries b64 cid sid md n env bs"
  shows "assembled_from b64 (past @ [env]) cid sid md (Suc n) (raw @ bs)"
proof -
  obtain sel bss where s: "subseq sel past" "length sel = n" "length bss = n" "concat bss = raw"
    "\<forall>k < n. carries b64 cid sid md k (sel ! k) (bss ! k)"
    using assms(1) unfolding assembled_from_def by blast
  have "subseq (sel @ [env]) (past @ [env])" using s(1) by simp
  moreover have "\<forall>k < Suc n. carries b64 cid sid md k ((sel @ [env]) ! k) ((bss @ [bs]) ! k)"
    using s(2,3,5) assms(2) by (auto simp: less_Suc_eq nth_append)
  ultimately show ?thesis
    unfolding assembled_from_def using s(2-4)
    by (intro exI [of _ "sel @ [env]"] exI [of _ "bss @ [bs]"]) simp
qed

definition metadata_ok :: "segment_metadata \<Rightarrow> bool" where
  "metadata_ok md \<longleftrightarrow> sm_segment_count md \<le> segment_count_max \<and> sm_message_size_bytes md \<le> reassembled_max_bytes"

definition assembly_ok :: "base64_codec \<Rightarrow> 'm client_envelope list \<Rightarrow> client_id \<Rightarrow> segment_assembly \<Rightarrow> bool" where
  "assembly_ok b64 past cid a \<longleftrightarrow>
     metadata_ok (sa_metadata a) \<and> sa_next_segment_id a < sm_segment_count (sa_metadata a)
     \<and> (base64_laws b64 \<longrightarrow> length (sa_raw a) \<le> sm_message_size_bytes (sa_metadata a))
     \<and> assembled_from b64 past cid (sa_stream_id a) (sa_metadata a) (sa_next_segment_id a) (sa_raw a)"

definition assemblies_ok :: "base64_codec \<Rightarrow> 'm client_envelope list \<Rightarrow> reassembler \<Rightarrow> bool" where
  "assemblies_ok b64 past asm \<longleftrightarrow> (\<forall>cid a. hm_get asm cid = Some a \<longrightarrow> assembly_ok b64 past cid a)"

lemma assembly_ok_later: "assembly_ok b64 past cid a \<Longrightarrow> assembly_ok b64 (past @ later) cid a"
  unfolding assembly_ok_def by (blast intro: assembled_from_later)

lemma assemblies_ok_insert:
  "assemblies_ok b64 past asm \<Longrightarrow> assembly_ok b64 past cid a \<Longrightarrow> assemblies_ok b64 past (hm_insert cid a asm)"
  by (auto simp: assemblies_ok_def container_simps)

lemma assemblies_ok_remove: "assemblies_ok b64 past asm \<Longrightarrow> assemblies_ok b64 past (hm_remove cid asm)"
  by (auto simp: assemblies_ok_def container_simps)

lemma evict_assemblies_ok: "assemblies_ok b64 past asm \<Longrightarrow> assemblies_ok b64 past (evict_assemblies_if_full asm)"
proof (induction asm rule: evict_assemblies_if_full.induct)
  case (1 asm)
  then show ?case
    by (subst evict_assemblies_if_full.simps) (auto split: option.splits simp: assemblies_ok_remove)
qed

lemma evict_shape:
  "hm_wf asm \<Longrightarrow> hm_wf (evict_assemblies_if_full asm) \<and> length (evict_assemblies_if_full asm) < segment_assembly_max_count"
proof (induction asm rule: evict_assemblies_if_full.induct)
  case (1 asm)
  have "oldest_assembly asm \<noteq> None" if "segment_assembly_max_count \<le> length asm"
    using that by (cases asm) (auto simp: segment_assembly_max_count_def split: option.splits)
  then show ?case using 1
    by (subst (1 2) evict_assemblies_if_full.simps) (auto split: option.splits)
qed

definition table_ok :: "reassembler \<Rightarrow> bool" where
  "table_ok asm \<longleftrightarrow> hm_wf asm \<and> length asm \<le> segment_assembly_max_count"

lemma length_hm_insert: "length (hm_insert k v m) = (if hm_get m k = None then Suc (length m) else length m)"
  by (induction m) (auto simp: hm_insert_def)

lemma length_hm_remove: "length (hm_remove k m) \<le> length m"
  by (simp add: hm_remove_def length_delete_le)

lemma table_ok_remove: "table_ok asm \<Longrightarrow> table_ok (remove_assembly cid sid asm)"
  using length_hm_remove [of cid asm] by (auto simp: table_ok_def remove_assembly_def split: option.splits)

lemma table_ok_ensure: "table_ok asm \<Longrightarrow> table_ok (ensure_assembly cid sid md now asm)"
  using evict_shape [of asm]
  by (auto simp: table_ok_def ensure_assembly_def length_hm_insert split: option.splits)

lemma table_ok_replace: "table_ok asm \<Longrightarrow> hm_get asm cid = Some a \<Longrightarrow> table_ok (hm_insert cid a' asm)"
  by (auto simp: table_ok_def length_hm_insert)
lemma assemblies_ok_remove_assembly:
  "assemblies_ok b64 past asm \<Longrightarrow> assemblies_ok b64 past (remove_assembly cid sid asm)"
  by (auto simp: remove_assembly_def assemblies_ok_remove split: option.splits)

lemma new_assembly_ok:
  "metadata_ok md \<Longrightarrow> 0 < sm_segment_count md \<Longrightarrow> assembly_ok b64 past cid (new_assembly sid md now)"
  by (simp add: assembly_ok_def new_assembly_def assembled_from_Nil)

lemma ensure_assembly_ok:
  assumes "assemblies_ok b64 past asm" and "metadata_ok md" and "0 < sm_segment_count md"
  shows "assemblies_ok b64 past (ensure_assembly cid sid md now asm)"
  using assms
  by (auto simp: ensure_assembly_def evict_assemblies_ok assemblies_ok_insert new_assembly_ok split: option.splits)

lemma ensure_assembly_get:
  "\<exists>a. hm_get (ensure_assembly cid sid md now asm) cid = Some a \<and> sa_stream_id a = sid"
  by (auto simp: ensure_assembly_def new_assembly_def container_simps split: option.splits)

definition appended :: "nat \<Rightarrow> byte list \<Rightarrow> segment_assembly \<Rightarrow> segment_assembly" where
  "appended now bs a = a\<lparr>sa_raw := sa_raw a @ bs, sa_next_segment_id := sa_next_segment_id a + 1, sa_last_chunk_seen_at := now\<rparr>"

definition chunk_room :: "base64_codec \<Rightarrow> message_chunk \<Rightarrow> segment_assembly \<Rightarrow> nat" where
  "chunk_room b64 c a =
     min (mc_message_size_bytes c) (length (sa_raw a) + b64_decoded_len_estimate b64 (length (mc_chunk_base64 c)))
       - length (sa_raw a)"

lemma append_chunk_eq:
  "append_chunk b64 fmt c now a =
     (case b64_decode_slice b64 (mc_chunk_base64 c) (chunk_room b64 c a) of
        Inl _ \<Rightarrow> (UpdateDrop, a\<lparr>sa_last_chunk_seen_at := now\<rparr>)
      | Inr bs \<Rightarrow>
          (if Suc (sa_next_segment_id a) < mc_segment_count c then UpdatePending
           else if length (sa_raw a @ bs) \<noteq> mc_message_size_bytes c then UpdateDrop
           else case wf_from_slice fmt (sa_raw a @ bs) of Inr m \<Rightarrow> UpdateComplete m | Inl _ \<Rightarrow> UpdateDrop,
           appended now bs a))"
  unfolding append_chunk_def Let_def chunk_room_def appended_def
  by (rule sum.case_cong [OF refl refl]) (simp split: sum.split)

lemma append_chunk_cases:
  assumes "append_chunk b64 fmt c now a = (u, a')"
  shows "u = UpdateDrop \<or>
    (\<exists>bs. b64_decode_slice b64 (mc_chunk_base64 c) (chunk_room b64 c a) = Inr bs \<and> a' = appended now bs a
      \<and> (u = UpdatePending \<and> Suc (sa_next_segment_id a) < mc_segment_count c
         \<or> (\<exists>m. u = UpdateComplete m \<and> mc_segment_count c \<le> Suc (sa_next_segment_id a)
              \<and> length (sa_raw a @ bs) = mc_message_size_bytes c \<and> wf_from_slice fmt (sa_raw a @ bs) = Inr m)))"
  using assms unfolding append_chunk_eq by (simp add: not_less split: sum.splits if_splits)

lemma update_assembly_stream:
  "update_assembly b64 fmt md c now a = (u, a') \<Longrightarrow> sa_stream_id a' = sa_stream_id a"
  by (auto simp: update_assembly_def append_chunk_eq appended_def split: if_splits sum.splits)

lemma update_assembly_cases:
  assumes "update_assembly b64 fmt md c now a = (u, a')"
  shows "u = UpdateDrop \<or> (u = UpdatePending \<or> u = UpdateIgnore) \<and> a' = a
    \<or> md = sa_metadata a \<and> mc_segment_id c = sa_next_segment_id a \<and> append_chunk b64 fmt c now a = (u, a')"
  using assms by (auto simp: update_assembly_def split: if_splits)

definition reassembled_from ::
  "base64_codec \<Rightarrow> ('m, 'o) wire_format \<Rightarrow> 'm client_envelope list \<Rightarrow> 'm client_envelope \<Rightarrow> 'm \<Rightarrow> bool" where
  "reassembled_from b64 fmt given env m \<longleftrightarrow>
     (\<exists>sid md raw. ce_stream_id env = Some sid \<and> metadata_from_envelope env = Some md
        \<and> assembled_from b64 given (ce_client_id env) sid md (sm_segment_count md) raw
        \<and> length raw = sm_message_size_bytes md \<and> wf_from_slice fmt raw = Inr m)"

lemma append_chunk_sound:
  assumes c: "ce_event env = ClientMessageChunk c" "metadata_from_envelope env = Some md" "ce_stream_id env = Some sid"
    and aok: "assembly_ok b64 past (ce_client_id env) a" and a: "sa_stream_id a = sid" "sa_metadata a = md"
      "mc_segment_id c = sa_next_segment_id a"
    and app: "append_chunk b64 fmt c now a = (u, a')"
  shows "u = UpdateDrop \<or> u = UpdatePending \<and> assembly_ok b64 (past @ [env]) (ce_client_id env) a'
    \<or> (\<exists>m. u = UpdateComplete m \<and> reassembled_from b64 fmt (past @ [env]) env m)"
proof -
  have md: "sm_segment_count md = mc_segment_count c" "sm_message_size_bytes md = mc_message_size_bytes c"
    using c(1,2) by (auto simp: metadata_from_envelope_def)
  have pending: "assembly_ok b64 (past @ [env]) (ce_client_id env) (appended now bs a)"
    if "Suc (sa_next_segment_id a) < mc_segment_count c"
      "assembled_from b64 (past @ [env]) (ce_client_id env) sid md (Suc (sa_next_segment_id a)) (sa_raw a @ bs)"
      "base64_laws b64 \<Longrightarrow> length (sa_raw a @ bs) \<le> sm_message_size_bytes md" for bs
    using that aok a(1,2) md by (simp add: assembly_ok_def appended_def)
  have complete: "reassembled_from b64 fmt (past @ [env]) env m"
    if "mc_segment_count c \<le> Suc (sa_next_segment_id a)" "length (sa_raw a @ bs) = mc_message_size_bytes c"
      "wf_from_slice fmt (sa_raw a @ bs) = Inr m"
      "assembled_from b64 (past @ [env]) (ce_client_id env) sid md (Suc (sa_next_segment_id a)) (sa_raw a @ bs)" for bs m
  proof -
    have "Suc (sa_next_segment_id a) = sm_segment_count md" using that(1) aok a(2) md by (simp add: assembly_ok_def)
    then show ?thesis using c(2,3) that(2-4) md unfolding reassembled_from_def by metis
  qed
  show ?thesis
  proof (cases "u = UpdateDrop")
    case False
    then obtain bs where dec: "b64_decode_slice b64 (mc_chunk_base64 c) (chunk_room b64 c a) = Inr bs" and a': "a' = appended now bs a"
      and out: "u = UpdatePending \<and> Suc (sa_next_segment_id a) < mc_segment_count c
       \<or> (\<exists>m. u = UpdateComplete m \<and> mc_segment_count c \<le> Suc (sa_next_segment_id a)
            \<and> length (sa_raw a @ bs) = mc_message_size_bytes c \<and> wf_from_slice fmt (sa_raw a @ bs) = Inr m)"
      using append_chunk_cases [OF app] by blast
    have "carries b64 (ce_client_id env) sid md (sa_next_segment_id a) env bs"
      using c(1-3) a(3) dec unfolding carries_def by blast
    then have built: "assembled_from b64 (past @ [env]) (ce_client_id env) sid md (Suc (sa_next_segment_id a)) (sa_raw a @ bs)"
      using assembled_from_snoc aok a(1,2) unfolding assembly_ok_def by blast
    have "base64_laws b64 \<Longrightarrow> length (sa_raw a @ bs) \<le> sm_message_size_bytes md"
      using base64_lawsD(4) [OF _ dec] aok a(2) md by (auto simp: chunk_room_def assembly_ok_def)
    then show ?thesis using out pending [OF _ built] complete [OF _ _ _ built] a' by blast
  qed simp
qed

lemma observe_sound:
  assumes ok: "assemblies_ok b64 past asm" and tab: "table_ok asm"
    and ob: "observe b64 fmt now env asm = (ob, asm')"
  shows "assemblies_ok b64 (past @ [env]) asm' \<and> table_ok asm'
    \<and> (ob = ForwardEnvelope env' \<longrightarrow>
         (case ce_event env of
            ClientMessageChunk _ \<Rightarrow>
              \<exists>m. env' = env\<lparr>ce_event := ClientMessage m\<rparr> \<and> reassembled_from b64 fmt (past @ [env]) env m
          | _ \<Rightarrow> env' = env))"
proof -
  have ok': "assemblies_ok b64 (past @ [env]) asm"
    using ok assembly_ok_later unfolding assemblies_ok_def by blast
  show ?thesis
  proof (cases "\<exists>c md sid. ce_event env = ClientMessageChunk c \<and> metadata_from_envelope env = Some md
      \<and> ce_stream_id env = Some sid \<and> \<not> should_ignore_chunk asm (ce_client_id env) sid (sm_seq_id md) (mc_segment_id c)
      \<and> \<not> chunk_invalid c")
    case False
    then show ?thesis
      using ob ok' tab by (auto simp: observe_def Let_def assemblies_ok_remove_assembly table_ok_remove
          split: client_event.splits option.splits if_splits)
  next
    case True
    then obtain c md sid where c: "ce_event env = ClientMessageChunk c" "metadata_from_envelope env = Some md"
      "ce_stream_id env = Some sid" "\<not> should_ignore_chunk asm (ce_client_id env) sid (sm_seq_id md) (mc_segment_id c)"
      "\<not> chunk_invalid c" by blast
    let ?cid = "ce_client_id env"
    define asm1 where "asm1 = ensure_assembly ?cid sid md now asm"
    obtain a where a: "hm_get asm1 ?cid = Some a" "sa_stream_id a = sid"
      using ensure_assembly_get unfolding asm1_def by blast
    obtain u a' where u: "update_assembly b64 fmt md c now a = (u, a')" by (rule prod.exhaust)
    have md: "sm_segment_count md = mc_segment_count c" "sm_message_size_bytes md = mc_message_size_bytes c"
      using c(1,2) by (auto simp: metadata_from_envelope_def)
    have valid: "metadata_ok md" "0 < sm_segment_count md"
      using c(5) md by (auto simp: chunk_invalid_def metadata_ok_def)
    have ok1: "assemblies_ok b64 (past @ [env]) asm1" and old: "assemblies_ok b64 past asm1" and tab1: "table_ok asm1"
      using ensure_assembly_ok [OF _ valid] ok ok' table_ok_ensure [OF tab] unfolding asm1_def by auto
    have aok: "assembly_ok b64 past ?cid a" "assembly_ok b64 (past @ [env]) ?cid a"
      using a(1) ok1 old unfolding assemblies_ok_def by auto
    have res: "(ob, asm') = (let asm2 = hm_insert ?cid a' asm1 in
         case u of
           UpdatePending \<Rightarrow> (ObservePending, asm2)
         | UpdateIgnore \<Rightarrow> (ObserveDropped, asm2)
         | UpdateDrop \<Rightarrow> (ObserveDropped, remove_assembly ?cid sid asm2)
         | UpdateComplete m \<Rightarrow> (ForwardEnvelope (env\<lparr>ce_event := ClientMessage m\<rparr>), remove_assembly ?cid sid asm2))"
      using ob c a u by (simp add: observe_def Let_def asm1_def [symmetric])
    have sid: "sa_stream_id a' = sid" using update_assembly_stream [OF u] a(2) by simp
    have gone: "assemblies_ok b64 (past @ [env]) (remove_assembly ?cid sid (hm_insert ?cid a' asm1))"
      using ok1 sid by (auto simp: assemblies_ok_def remove_assembly_get container_simps)
    note tabs = table_ok_replace [OF tab1 a(1), of a'] table_ok_remove [OF table_ok_replace [OF tab1 a(1), of a']]
    consider "u = UpdateDrop" | "u = UpdatePending \<or> u = UpdateIgnore" "a' = a"
      | "md = sa_metadata a" "mc_segment_id c = sa_next_segment_id a" "append_chunk b64 fmt c now a = (u, a')" "u \<noteq> UpdateDrop"
      using update_assembly_cases [OF u] by blast
    then show ?thesis
    proof cases
      case 1
      then show ?thesis using res gone tabs by (simp add: Let_def)
    next
      case 2
      then show ?thesis using res assemblies_ok_insert [OF ok1 aok(2)] tabs by (auto simp: Let_def)
    next
      case 3
      have "u = UpdatePending \<and> assembly_ok b64 (past @ [env]) ?cid a'
          \<or> (\<exists>m. u = UpdateComplete m \<and> reassembled_from b64 fmt (past @ [env]) env m)"
        using append_chunk_sound [OF c(1-3) aok(1) a(2) 3(1) [symmetric] 3(2,3)] 3(4) by blast
      then show ?thesis using res gone tabs c(1) assemblies_ok_insert [OF ok1] by (auto simp: Let_def)
    qed
  qed
qed
inductive reassembler_step ::
  "base64_codec \<Rightarrow> ('m, 'o) wire_format \<Rightarrow> 'm client_envelope list \<times> reassembler
     \<Rightarrow> 'm client_envelope list \<times> reassembler \<Rightarrow> bool" for b64 fmt where
  step_observe: "observe b64 fmt now env asm = (ob, asm') \<Longrightarrow> reassembler_step b64 fmt (past, asm) (past @ [env], asm')"
| step_invalidate_stream: "reassembler_step b64 fmt (past, asm) (past, invalidate_stream cid sid asm)"
| step_invalidate_client: "reassembler_step b64 fmt (past, asm) (past, invalidate_client cid asm)"

definition reassembler_start :: "'m client_envelope list \<times> reassembler \<Rightarrow> bool" where
  "reassembler_start s \<longleftrightarrow> s = ([], [])"

definition reassembler_inv :: "base64_codec \<Rightarrow> 'm client_envelope list \<times> reassembler \<Rightarrow> bool" where
  "reassembler_inv b64 s \<longleftrightarrow> assemblies_ok b64 (fst s) (snd s) \<and> table_ok (snd s)"

lemma reassembler_inv_start: "reassembler_start s \<Longrightarrow> reassembler_inv b64 s"
  by (simp add: reassembler_start_def reassembler_inv_def assemblies_ok_def table_ok_def)

lemma reassembler_inv_step: "reassembler_step b64 fmt s t \<Longrightarrow> reassembler_inv b64 s \<Longrightarrow> reassembler_inv b64 t"
proof (induction rule: reassembler_step.induct)
  case (step_observe now env asm ob asm' past)
  then show ?case using observe_sound [of b64 past asm fmt now env ob asm'] by (simp add: reassembler_inv_def)
next
  case (step_invalidate_stream past asm cid sid)
  then show ?case
    by (simp add: reassembler_inv_def invalidate_stream_def assemblies_ok_remove_assembly table_ok_remove)
next
  case (step_invalidate_client past asm cid)
  then show ?case using length_hm_remove [of cid asm]
    by (simp add: reassembler_inv_def invalidate_client_def assemblies_ok_remove table_ok_def)
qed

interpretation reassembler_run: transition_invariant reassembler_start "reassembler_step b64 fmt" "reassembler_inv b64"
  for b64 fmt
  by unfold_locales (rule reassembler_inv_start, assumption, rule reassembler_inv_step)

text \<open>
  C22. Whatever envelopes a reassembler is given, from however many clients, and whatever is
  invalidated in between: it never holds more than 128 unfinished messages, one per client; each
  announces at most 1024 segments and 100 MiB, waits for a segment it announced, and holds no more
  bytes than announced.
\<close>

theorem reassembler_memory_bounded:
  assumes "base64_laws b64" and "reachable_from reassembler_start (reassembler_step b64 fmt) (given, asm)"
  shows "hm_wf asm \<and> length asm \<le> segment_assembly_max_count
    \<and> (\<forall>cid a. hm_get asm cid = Some a \<longrightarrow>
         sa_next_segment_id a < sm_segment_count (sa_metadata a)
         \<and> sm_segment_count (sa_metadata a) \<le> segment_count_max
         \<and> length (sa_raw a) \<le> sm_message_size_bytes (sa_metadata a)
         \<and> sm_message_size_bytes (sa_metadata a) \<le> reassembled_max_bytes)"
  using reassembler_run.inv_reachable [OF assms(2)] assms(1)
  by (simp add: reassembler_inv_def table_ok_def assemblies_ok_def assembly_ok_def metadata_ok_def)

text \<open>
  A reassembled message is never made up or mixed: when a reassembler forwards an envelope after
  a chunk, the message is the parse of the concatenation of segments 0, 1, ..., n - 1, decoded from
  envelopes it was given in this order for the same client, stream, sequence number, count \<open>n\<close> and
  size, and its length is the announced one. Everything else is forwarded as it came.
\<close>

theorem forwarded_message_was_sent:
  assumes "reachable_from reassembler_start (reassembler_step b64 fmt) (given, asm)"
    and "observe b64 fmt now env asm = (ForwardEnvelope env', asm')"
  shows "case ce_event env of
      ClientMessageChunk _ \<Rightarrow>
        \<exists>m. env' = env\<lparr>ce_event := ClientMessage m\<rparr> \<and> reassembled_from b64 fmt (given @ [env]) env m
    | _ \<Rightarrow> env' = env"
  using observe_sound [of b64 given asm fmt now env "ForwardEnvelope env'" asm' env']
    reassembler_run.inv_reachable [OF assms(1)] assms(2)
  by (simp add: reassembler_inv_def)

subsection \<open>Examples\<close>

text \<open>A codec with the documented laws, and a format for one-byte-per-number messages.\<close>

definition example_codec :: base64_codec where
  "example_codec =
     \<lparr>b64_encode = map (\<lambda>b. char_of (unat b)),
      b64_decode_slice = (\<lambda>s cap. if length s \<le> cap then Inr (map (\<lambda>c. of_nat (of_char c)) s) else Inl OutputSliceTooSmall),
      b64_decoded_len_estimate = (\<lambda>n. n)\<rparr>"

lemma example_codec_laws: "base64_laws example_codec"
proof -
  have "(of_nat (of_char (char_of (unat b) :: char)) :: byte) = b" for b :: byte
    using unsigned_less [of b, where 'a = nat] by (simp add: of_char_of)
  then have "map ((\<lambda>c. of_nat (of_char c)) \<circ> (\<lambda>b. char_of (unat b) :: char)) bs = (bs :: byte list)" for bs
    by (simp add: comp_def)
  then show ?thesis by (auto simp: base64_laws_def example_codec_def split: if_splits)
qed

definition example_format_with :: "(byte list \<Rightarrow> string + 'm) \<Rightarrow> ('m, byte list) wire_format" where
  "example_format_with parse =
     \<lparr>wf_from_slice = parse, wf_to_vec = Inr,
      wf_serialized_len = (\<lambda>env. case sv_event env of ServerMessage _ \<Rightarrow> Inr 200000 | _ \<Rightarrow> Inr 100)\<rparr>"

abbreviation example_format :: "(byte list, byte list) wire_format" where
  "example_format \<equiv> example_format_with Inr"

definition example_envelope :: "byte list server_envelope" where
  "example_envelope =
     \<lparr>sv_event = ServerMessage [1, 2, 3], sv_client_id = ''phone'', sv_stream_id = ''s1'', sv_seq_id = 7\<rparr>"

definition example_segment :: "nat \<Rightarrow> byte list \<Rightarrow> byte list server_envelope" where
  "example_segment i bs = chunk_envelope example_codec example_envelope i 2 3 bs"

lemma example_split:
  "split_server_envelope_for_transport example_codec (example_format_with parse) example_envelope
     = Inr [example_segment 0 [1, 2], example_segment 1 [3]]"
proof -
  have num: "div_ceil 3 2 = 2" "div_ceil 3 102400 = 1" "Suc (Suc 0) = 2" by (simp_all add: div_ceil_def)
  have "split_loop example_codec (example_format_with parse) example_envelope [1, 2, 3] 2
      = Inr [example_segment 0 [1, 2], example_segment 1 [3]]"
    by (subst split_loop.simps)
      (simp add: Let_def num chunk_fits_def serialized_chunk_len_def build_chunk_envelope_def
        example_format_with_def segment_max_bytes_def segment_count_max_def example_segment_def chunk_envelope_def)
  then show ?thesis
    by (simp add: split_server_envelope_for_transport_def example_format_with_def example_envelope_def
        serialized_chunk_len_def build_chunk_envelope_def Let_def segment_max_bytes_def
        reassembled_max_bytes_def segment_count_max_def segment_target_bytes_def num)
qed

theorem segmented_message_round_trip_witness:
  "\<exists>asm'. observe_all example_codec example_format
       (zip [10, 20] (map client_chunk [example_segment 0 [1, 2], example_segment 1 [3]])) []
     = ([ObservePending, ForwardEnvelope \<lparr>ce_event = ClientMessage [1, 2, 3], ce_client_id = ''phone'',
           ce_stream_id = Some ''s1'', ce_seq_id = Some 7, ce_cursor = None\<rparr>], asm')
     \<and> hm_get asm' ''phone'' = None"
  using segmented_message_round_trip [OF example_codec_laws, of example_envelope "[1, 2, 3]" example_format
      "[1, 2, 3]" "[1, 2, 3]" _ "[]" "[10, 20]", OF _ _ _ example_split]
  by (simp add: example_envelope_def example_format_with_def example_segment_def chunk_envelope_def)
definition example_asm :: reassembler where
  "example_asm = snd (observe example_codec example_format 10 (client_chunk (example_segment 0 [1, 2])) [])"

definition example_forwarded :: "byte list client_envelope" where
  "example_forwarded = \<lparr>ce_event = ClientMessage [1, 2, 3], ce_client_id = ''phone'', ce_stream_id = Some ''s1'',
     ce_seq_id = Some 7, ce_cursor = None\<rparr>"

lemma example_observed:
  "fst (observe example_codec example_format 20 (client_chunk (example_segment 1 [3])) example_asm)
     = ForwardEnvelope example_forwarded"
  using segmented_message_round_trip [OF example_codec_laws, of example_envelope "[1, 2, 3]" example_format
      "[1, 2, 3]" "[1, 2, 3]" _ "[]" "[10, 20]", OF _ _ _ example_split]
  by (auto simp: example_envelope_def example_format_with_def example_segment_def chunk_envelope_def
      example_asm_def example_forwarded_def split: prod.splits)

lemma example_reachable:
  "reachable_from reassembler_start (reassembler_step example_codec example_format)
     ([client_chunk (example_segment 0 [1, 2])], example_asm)"
proof -
  have "reassembler_step example_codec example_format ([], []) ([] @ [client_chunk (example_segment 0 [1, 2])], example_asm)"
    by (rule step_observe [of _ _ 10 _ _ "fst (observe example_codec example_format 10 (client_chunk (example_segment 0 [1, 2])) [])"])
      (simp add: example_asm_def)
  then show ?thesis unfolding reachable_from_def reassembler_start_def by auto
qed

theorem reassembler_memory_bounded_witness:
  "length example_asm \<le> segment_assembly_max_count"
  using reassembler_memory_bounded [OF example_codec_laws example_reachable] by blast

theorem forwarded_message_was_sent_witness:
  "reassembled_from example_codec example_format
     ([client_chunk (example_segment 0 [1, 2])] @ [client_chunk (example_segment 1 [3])])
     (client_chunk (example_segment 1 [3])) [1, 2, 3]"
proof -
  have "observe example_codec example_format 20 (client_chunk (example_segment 1 [3])) example_asm
      = (ForwardEnvelope example_forwarded,
         snd (observe example_codec example_format 20 (client_chunk (example_segment 1 [3])) example_asm))"
    by (metis example_observed prod.collapse)
  from forwarded_message_was_sent [OF example_reachable this]
  show ?thesis by (auto simp: example_segment_def chunk_envelope_def example_forwarded_def)
qed
end
