(* ===== verification/Client_Tracker.thy ===== *)
theory Client_Tracker
  imports Remote_Segment Wire
begin

text \<open>
  The remote-control clients of one app server, and the connection each of them has to it:
  \<^verbatim>\<open>crates/app-server-transport/src/transport/remote_control/client_tracker.rs\<close>.

  The tracker is used under its mutex, so an operation is one atomic step. The receiving end of the
  transport channel is the argument \<open>out\<close>: the outcome of the n-th attempt to send. What reached it is
  the field \<open>ct_transport\<close>, in order. A close is sent by a task of its own with no timeout, so only a
  dropped receiver makes it fail. The tasks that write to the clients are \<open>ct_join_set\<close>; the random
  stream id a call may draw is its argument \<open>rnd\<close>. The process-wide connection counter is
  \<open>ct_drawn\<close>, read modulo \<open>2 ^ 64\<close>.
\<close>

subsection \<open>State\<close>

datatype connection_origin = OriginStdio | OriginInProcess | OriginWebSocket | OriginRemoteControl

datatype transport_event =
  ConnectionOpened nat connection_origin
| ConnectionClosed nat
| IncomingMessage nat jsonrpc_message

datatype send_outcome = SendOk | SendDropped | SendTimedOut

datatype stopped = Stopped

type_synonym client_key = "client_id \<times> stream_id"
type_synonym rc_envelope = "jsonrpc_message client_envelope"

definition client_idle_timeout :: nat where
  "client_idle_timeout = 10 * 60 * 1000"

record client_state =
  cst_connection_id :: nat
  cst_last_activity_at :: nat
  cst_last_inbound_seq_id :: "nat option"
  cst_status :: pong_status

record client_tracker =
  ct_clients :: "(client_key, client_state) hash_map"
  ct_legacy_stream_ids :: "(client_id, stream_id) hash_map"
  ct_join_set :: "(client_key \<times> nat) list"
  ct_shutdown :: bool
  ct_cancelled :: "nat list"
  ct_attempts :: nat
  ct_transport :: "transport_event list"
  ct_detached :: "nat list"
  ct_pongs :: "client_key list"
  ct_drawn :: nat

definition client_tracker_new :: "nat \<Rightarrow> client_tracker" where
  "client_tracker_new drawn =
     \<lparr>ct_clients = [], ct_legacy_stream_ids = [], ct_join_set = [], ct_shutdown = False, ct_cancelled = [],
      ct_attempts = 0, ct_transport = [], ct_detached = [], ct_pongs = [], ct_drawn = drawn\<rparr>"

subsection \<open>Operations\<close>

fun message_starts_connection :: "jsonrpc_message \<Rightarrow> bool" where
  "message_starts_connection (JsonRequest r) = (jr_method r = ''initialize'')"
| "message_starts_connection _ = False"

definition client_is_alive :: "client_state \<Rightarrow> nat \<Rightarrow> bool" where
  "client_is_alive c now = (now - cst_last_activity_at c < client_idle_timeout)"

definition next_connection_id :: "client_tracker \<Rightarrow> nat \<times> client_tracker" where
  "next_connection_id ct = (ct_drawn ct mod u64_modulus, ct\<lparr>ct_drawn := ct_drawn ct + 1\<rparr>)"

definition cancel_connection :: "nat \<Rightarrow> client_tracker \<Rightarrow> client_tracker" where
  "cancel_connection c ct = ct\<lparr>ct_cancelled := c # ct_cancelled ct\<rparr>"

definition spawn_connection_closed :: "nat \<Rightarrow> client_tracker \<Rightarrow> client_tracker" where
  "spawn_connection_closed c ct = ct\<lparr>ct_detached := ct_detached ct @ [c]\<rparr>"

definition send_connection_closed ::
  "(nat \<Rightarrow> send_outcome) \<Rightarrow> nat \<Rightarrow> client_tracker \<Rightarrow> (stopped + unit) \<times> client_tracker" where
  "send_connection_closed out c ct =
     (let ct1 = ct\<lparr>ct_attempts := ct_attempts ct + 1\<rparr> in
      if out (ct_attempts ct) = SendDropped then (Inl Stopped, ct1)
      else (Inr (), ct1\<lparr>ct_transport := ct_transport ct @ [ConnectionClosed c]\<rparr>))"

definition send_transport_event ::
  "(nat \<Rightarrow> send_outcome) \<Rightarrow> transport_event \<Rightarrow> client_tracker \<Rightarrow> (stopped + unit) \<times> client_tracker" where
  "send_transport_event out ev ct =
     (case ev of
        ConnectionClosed c \<Rightarrow> send_connection_closed out c ct
      | _ \<Rightarrow>
          (let ct1 = ct\<lparr>ct_attempts := ct_attempts ct + 1\<rparr> in
           case out (ct_attempts ct) of
             SendOk \<Rightarrow> (Inr (), ct1\<lparr>ct_transport := ct_transport ct @ [ev]\<rparr>)
           | SendDropped \<Rightarrow> (Inl Stopped, ct1)
           | SendTimedOut \<Rightarrow> (Inl Stopped, ct1)))"

definition remove_client :: "client_key \<Rightarrow> client_tracker \<Rightarrow> client_state option \<times> client_tracker" where
  "remove_client key ct =
     (case hm_get (ct_clients ct) key of
        None \<Rightarrow> (None, ct)
      | Some c \<Rightarrow>
          (Some c,
           ct\<lparr>ct_clients := hm_remove key (ct_clients ct),
              ct_legacy_stream_ids :=
                (if hm_get (ct_legacy_stream_ids ct) (fst key) = Some (snd key)
                 then hm_remove (fst key) (ct_legacy_stream_ids ct) else ct_legacy_stream_ids ct)\<rparr>))"

definition close_client ::
  "(nat \<Rightarrow> send_outcome) \<Rightarrow> client_key \<Rightarrow> client_tracker \<Rightarrow> (stopped + unit) \<times> client_tracker" where
  "close_client out key ct =
     (case remove_client key ct of
        (None, ct1) \<Rightarrow> (Inr (), ct1)
      | (Some c, ct1) \<Rightarrow>
          send_transport_event out (ConnectionClosed (cst_connection_id c))
            (cancel_connection (cst_connection_id c) ct1))"

definition record_inbound_message_delivery :: "client_key \<Rightarrow> nat option \<Rightarrow> client_tracker \<Rightarrow> client_tracker" where
  "record_inbound_message_delivery key seq ct =
     (case (seq, hm_get (ct_clients ct) key) of
        (Some s, Some c) \<Rightarrow>
          ct\<lparr>ct_clients := hm_insert key (c\<lparr>cst_last_inbound_seq_id := Some s\<rparr>) (ct_clients ct)\<rparr>
      | _ \<Rightarrow> ct)"

fun close_clients ::
  "(nat \<Rightarrow> send_outcome) \<Rightarrow> client_key list \<Rightarrow> client_tracker \<Rightarrow> (stopped + unit) \<times> client_tracker" where
  "close_clients out [] ct = (Inr (), ct)"
| "close_clients out (k # ks) ct =
     (case close_client out k ct of
        (Inl e, ct1) \<Rightarrow> (Inl e, ct1)
      | (Inr _, ct1) \<Rightarrow> close_clients out ks ct1)"

definition close_expired_clients ::
  "(nat \<Rightarrow> send_outcome) \<Rightarrow> nat \<Rightarrow> client_tracker \<Rightarrow> (stopped + client_key list) \<times> client_tracker" where
  "close_expired_clients out now ct =
     (let expired = map fst (filter (\<lambda>(k, c). \<not> client_is_alive c now) (ct_clients ct)) in
      case close_clients out expired ct of
        (Inl e, ct1) \<Rightarrow> (Inl e, ct1)
      | (Inr _, ct1) \<Rightarrow> (Inr expired, ct1))"

text \<open>The stream a message belongs to; clients that send none get one of their own.\<close>

definition resolve_stream_id ::
  "stream_id \<Rightarrow> rc_envelope \<Rightarrow> client_tracker \<Rightarrow> stream_id \<times> client_tracker" where
  "resolve_stream_id rnd env ct =
     (let cid = ce_client_id env;
          legacy = hm_get (ct_legacy_stream_ids ct) cid;
          is_initialize = (case ce_event env of ClientMessage m \<Rightarrow> message_starts_connection m | _ \<Rightarrow> False)
      in case ce_stream_id env of
           Some sid \<Rightarrow> (sid, ct)
         | None \<Rightarrow>
             if is_initialize
             then (case legacy of Some sid \<Rightarrow> sid | None \<Rightarrow> rnd,
                   ct\<lparr>ct_legacy_stream_ids := hm_remove cid (ct_legacy_stream_ids ct)\<rparr>)
             else (case legacy of
                     Some sid \<Rightarrow> sid
                   | None \<Rightarrow> (if ce_event env = ClientPing then rnd else []), ct))"

definition already_delivered :: "client_key \<Rightarrow> nat option \<Rightarrow> client_tracker \<Rightarrow> bool" where
  "already_delivered key seq ct =
     (case (seq, hm_get (ct_clients ct) key) of
        (Some s, Some c) \<Rightarrow> (case cst_last_inbound_seq_id c of Some l \<Rightarrow> s \<le> l | None \<Rightarrow> False)
      | _ \<Rightarrow> False)"

definition forward_to_client ::
  "(nat \<Rightarrow> send_outcome) \<Rightarrow> nat \<Rightarrow> client_key \<Rightarrow> client_state \<Rightarrow> nat option \<Rightarrow> jsonrpc_message
     \<Rightarrow> client_tracker \<Rightarrow> (stopped + unit) \<times> client_tracker" where
  "forward_to_client out now key c seq m ct =
     (let ct1 = ct\<lparr>ct_clients := hm_insert key (c\<lparr>cst_last_activity_at := now\<rparr>) (ct_clients ct)\<rparr> in
      case send_transport_event out (IncomingMessage (cst_connection_id c) m) ct1 of
        (Inl e, ct2) \<Rightarrow> (Inl e, ct2)
      | (Inr _, ct2) \<Rightarrow> (Inr (), record_inbound_message_delivery key seq ct2))"

definition register_client :: "bool \<Rightarrow> nat \<Rightarrow> client_key \<Rightarrow> nat \<Rightarrow> client_tracker \<Rightarrow> client_tracker" where
  "register_client legacy now key c ct =
     ct\<lparr>ct_join_set := ct_join_set ct @ [(key, c)],
        ct_clients := hm_insert key
          \<lparr>cst_connection_id = c, cst_last_activity_at = now, cst_last_inbound_seq_id = None,
           cst_status = PongActive\<rparr> (ct_clients ct),
        ct_legacy_stream_ids :=
          (if legacy then hm_insert (fst key) (snd key) (ct_legacy_stream_ids ct) else ct_legacy_stream_ids ct)\<rparr>"

definition open_client ::
  "(nat \<Rightarrow> send_outcome) \<Rightarrow> bool \<Rightarrow> nat \<Rightarrow> client_key \<Rightarrow> nat option \<Rightarrow> jsonrpc_message
     \<Rightarrow> client_tracker \<Rightarrow> (stopped + unit) \<times> client_tracker" where
  "open_client out legacy now key seq m ct =
     (case next_connection_id ct of
        (c, ct1) \<Rightarrow>
          (case send_transport_event out (ConnectionOpened c OriginRemoteControl) ct1 of
             (Inl e, ct2) \<Rightarrow> (Inl e, ct2)
           | (Inr _, ct2) \<Rightarrow>
               (let ct3 = register_client legacy now key c ct2 in
                case send_transport_event out (IncomingMessage c m) ct3 of
                  (Inl e, ct4) \<Rightarrow>
                    (Inl e,
                     case remove_client key ct4 of
                       (None, ct5) \<Rightarrow> ct5
                     | (Some cl, ct5) \<Rightarrow>
                         spawn_connection_closed (cst_connection_id cl)
                           (cancel_connection (cst_connection_id cl) ct5))
                | (Inr _, ct4) \<Rightarrow>
                    (Inr (), if legacy then ct4 else record_inbound_message_delivery key seq ct4))))"

definition handle_client_message ::
  "(nat \<Rightarrow> send_outcome) \<Rightarrow> bool \<Rightarrow> nat \<Rightarrow> client_key \<Rightarrow> nat option \<Rightarrow> jsonrpc_message
     \<Rightarrow> client_tracker \<Rightarrow> (stopped + unit) \<times> client_tracker" where
  "handle_client_message out legacy now key seq m ct =
     (let is_initialize = message_starts_connection m in
      if already_delivered key seq ct \<and> \<not> is_initialize then (Inr (), ct)
      else
        (case (if is_initialize \<and> hm_contains key (ct_clients ct) then close_client out key ct else (Inr (), ct)) of
           (Inl e, ct1) \<Rightarrow> (Inl e, ct1)
         | (Inr _, ct1) \<Rightarrow>
             (case hm_get (ct_clients ct1) key of
                Some c \<Rightarrow> forward_to_client out now key c seq m ct1
              | None \<Rightarrow>
                  if \<not> is_initialize then (Inr (), ct1)
                  else open_client out legacy now key seq m ct1)))"

definition handle_ping :: "nat \<Rightarrow> client_key \<Rightarrow> client_tracker \<Rightarrow> client_tracker" where
  "handle_ping now key ct =
     (case hm_get (ct_clients ct) key of
        Some c \<Rightarrow>
          ct\<lparr>ct_clients :=
               hm_insert key (c\<lparr>cst_last_activity_at := now, cst_status := PongActive\<rparr>) (ct_clients ct)\<rparr>
      | None \<Rightarrow> ct\<lparr>ct_pongs := ct_pongs ct @ [key]\<rparr>)"

definition handle_message ::
  "(nat \<Rightarrow> send_outcome) \<Rightarrow> stream_id \<Rightarrow> nat \<Rightarrow> rc_envelope \<Rightarrow> client_tracker
     \<Rightarrow> (stopped + unit) \<times> client_tracker" where
  "handle_message out rnd now env ct =
     (case resolve_stream_id rnd env ct of
        (sid, ct1) \<Rightarrow>
          if sid = [] then (Inr (), ct1)
          else
            (let key = (ce_client_id env, sid) in
             case ce_event env of
               ClientMessage m \<Rightarrow>
                 handle_client_message out (ce_stream_id env = None) now key (ce_seq_id env) m ct1
             | ClientMessageChunk _ \<Rightarrow> (Inr (), ct1)
             | ClientAck _ \<Rightarrow> (Inr (), ct1)
             | ClientPing \<Rightarrow> (Inr (), handle_ping now key ct1)
             | ClientClosed \<Rightarrow> close_client out key ct1))"

text \<open>The writing task of a client ends; the reader then closes what it finds under the client's key.\<close>

definition bookkeep_join_set :: "client_key \<times> nat \<Rightarrow> client_tracker \<Rightarrow> client_key \<times> client_tracker" where
  "bookkeep_join_set task ct = (fst task, ct\<lparr>ct_join_set := remove1 task (ct_join_set ct)\<rparr>)"

lemma close_client_clients: "ct_clients (snd (close_client out key ct)) = hm_remove key (ct_clients ct)"
proof (cases "hm_get (ct_clients ct) key")
  case None
  then have "hm_remove key (ct_clients ct) = ct_clients ct"
    by (simp add: hm_remove_def delete_id map_of_eq_None_iff)
  then show ?thesis using None by (simp add: close_client_def remove_client_def)
qed (simp add: close_client_def remove_client_def send_transport_event_def send_connection_closed_def
    cancel_connection_def Let_def)

function close_all_clients :: "(nat \<Rightarrow> send_outcome) \<Rightarrow> client_tracker \<Rightarrow> client_tracker" where
  "close_all_clients out ct =
     (case ct_clients ct of
        [] \<Rightarrow> ct
      | (key, _) # _ \<Rightarrow> close_all_clients out (snd (close_client out key ct)))"
  by pat_completeness auto

termination
proof (relation "measure (\<lambda>(out, ct). length (ct_clients ct))", simp)
  fix out :: "nat \<Rightarrow> send_outcome" and ct :: client_tracker and e es and key :: client_key and c
  assume "ct_clients ct = e # es" "(key, c) = e"
  then show "((out, snd (close_client out key ct)), out, ct) \<in> measure (\<lambda>(out, ct). length (ct_clients ct))"
    using hm_remove_length_less [of key c "ct_clients ct"] by (simp add: close_client_clients)
qed

declare close_all_clients.simps [simp del]

definition tracker_shutdown :: "(nat \<Rightarrow> send_outcome) \<Rightarrow> client_tracker \<Rightarrow> client_tracker" where
  "tracker_shutdown out ct =
     (close_all_clients out (ct\<lparr>ct_shutdown := True\<rparr>))\<lparr>ct_join_set := []\<rparr>"

subsection \<open>The life of a connection, as the app server sees it\<close>

fun event_connection :: "transport_event \<Rightarrow> nat" where
  "event_connection (ConnectionOpened c _) = c"
| "event_connection (ConnectionClosed c) = c"
| "event_connection (IncomingMessage c _) = c"

datatype life_phase = NotOpened | Opened | Ended | Broken

fun life_next :: "life_phase \<Rightarrow> transport_event \<Rightarrow> life_phase" where
  "life_next NotOpened (ConnectionOpened _ _) = Opened"
| "life_next Opened (IncomingMessage _ _) = Opened"
| "life_next Opened (ConnectionClosed _) = Ended"
| "life_next _ _ = Broken"

definition connection_events :: "nat \<Rightarrow> transport_event list \<Rightarrow> transport_event list" where
  "connection_events c evs = filter (\<lambda>ev. event_connection ev = c) evs"

definition phase_of :: "transport_event list \<Rightarrow> nat \<Rightarrow> life_phase" where
  "phase_of evs c = foldl life_next NotOpened (connection_events c evs)"

lemma phase_of_Nil [simp]: "phase_of [] c = NotOpened"
  by (simp add: phase_of_def connection_events_def)

lemma phase_of_snoc [simp]:
  "phase_of (evs @ [ev]) = (phase_of evs)(event_connection ev := life_next (phase_of evs (event_connection ev)) ev)"
  by (auto simp: phase_of_def connection_events_def)

text \<open>Opened first, then messages, then closed at most once, and nothing after that.\<close>

definition orderly :: "nat \<Rightarrow> transport_event list \<Rightarrow> bool" where
  "orderly c es \<longleftrightarrow>
     es = [] \<or> (\<exists>orig ms fin. es = ConnectionOpened c orig # map (IncomingMessage c) ms @ fin \<and> (fin = [] \<or> fin = [ConnectionClosed c]))"

lemma orderly_phase:
  "(\<forall>ev \<in> set es. event_connection ev = c) \<Longrightarrow> foldl life_next NotOpened es \<noteq> Broken \<Longrightarrow>
     orderly c es \<and> (foldl life_next NotOpened es = Opened \<longrightarrow> es \<noteq> [] \<and> ConnectionClosed c \<notin> set es)
     \<and> (foldl life_next NotOpened es = NotOpened \<longrightarrow> es = [])"
proof (induction es rule: rev_induct)
  case (snoc ev es)
  let ?p = "foldl life_next NotOpened es"
  have ev: "event_connection ev = c" and nb: "life_next ?p ev \<noteq> Broken" using snoc(2,3) by auto
  have "?p \<noteq> Broken" using nb by auto
  then have ih: "orderly c es" "?p = Opened \<longrightarrow> es \<noteq> [] \<and> ConnectionClosed c \<notin> set es" "?p = NotOpened \<longrightarrow> es = []"
    using snoc(1,2) by auto
  show ?case
  proof (cases "?p")
    case NotOpened
    then show ?thesis using ih(3) ev nb by (cases ev) (auto simp: orderly_def)
  next
    case Opened
    then obtain orig ms where es: "es = ConnectionOpened c orig # map (IncomingMessage c) ms"
      using ih unfolding orderly_def by auto
    show ?thesis
    proof (cases ev)
      case (IncomingMessage c' m)
      then have "es @ [ev] = ConnectionOpened c orig # map (IncomingMessage c) (ms @ [m]) @ []" using es ev by simp
      then have "orderly c (es @ [ev])" unfolding orderly_def by blast
      then show ?thesis using Opened IncomingMessage ih(2) by auto
    next
      case (ConnectionClosed c')
      then show ?thesis using Opened es ev unfolding orderly_def by auto
    qed (use nb Opened in simp)
  qed (use nb in \<open>cases ev; simp\<close>)+
qed (simp add: orderly_def)

lemma orderly_of_phase:
  assumes "phase_of evs c \<noteq> Broken"
  shows "orderly c (connection_events c evs)"
    and "phase_of evs c = Opened \<longleftrightarrow> connection_events c evs \<noteq> [] \<and> ConnectionClosed c \<notin> set (connection_events c evs)"
proof -
  have all: "\<forall>ev \<in> set (connection_events c evs). event_connection ev = c" by (simp add: connection_events_def)
  note p = orderly_phase [OF all assms [unfolded phase_of_def]]
  show o: "orderly c (connection_events c evs)" using p by blast
  show "phase_of evs c = Opened \<longleftrightarrow> connection_events c evs \<noteq> [] \<and> ConnectionClosed c \<notin> set (connection_events c evs)"
  proof
    assume "phase_of evs c = Opened"
    then show "connection_events c evs \<noteq> [] \<and> ConnectionClosed c \<notin> set (connection_events c evs)"
      using p unfolding phase_of_def by blast
  next
    assume n: "connection_events c evs \<noteq> [] \<and> ConnectionClosed c \<notin> set (connection_events c evs)"
    then obtain orig ms where "connection_events c evs = ConnectionOpened c orig # map (IncomingMessage c) ms"
      using o unfolding orderly_def by auto
    moreover have "foldl life_next Opened (map (IncomingMessage c) ms) = Opened" by (induction ms) auto
    ultimately show "phase_of evs c = Opened" by (simp add: phase_of_def)
  qed
qed

subsection \<open>Every open connection has one client, and every client an open connection\<close>

text \<open>
  What matters of a tracker here: the connection of each client, the events the app server got, the
  closes still to be delivered, and how many connection ids were drawn.
\<close>

definition tracked :: "client_tracker \<Rightarrow> client_key \<Rightarrow> nat option" where
  "tracked ct key = map_option cst_connection_id (hm_get (ct_clients ct) key)"

definition tracking_ok :: "('k \<Rightarrow> nat option) \<Rightarrow> transport_event list \<Rightarrow> nat list \<Rightarrow> nat \<Rightarrow> bool" where
  "tracking_ok T E D n \<longleftrightarrow>
     (\<forall>key c. T key = Some c \<longrightarrow> phase_of E c = Opened \<and> c \<notin> set D \<and> c < n)
     \<and> (\<forall>key key' c. T key = Some c \<longrightarrow> T key' = Some c \<longrightarrow> key = key')"

definition detached_ok :: "transport_event list \<Rightarrow> nat list \<Rightarrow> nat \<Rightarrow> bool" where
  "detached_ok E D n \<longleftrightarrow> distinct D \<and> (\<forall>c \<in> set D. phase_of E c = Opened \<and> c < n)"

definition phases_ok :: "transport_event list \<Rightarrow> nat \<Rightarrow> bool" where
  "phases_ok E n \<longleftrightarrow> (\<forall>c. phase_of E c \<noteq> Broken \<and> (n \<le> c \<longrightarrow> phase_of E c = NotOpened))"

definition no_orphans :: "('k \<Rightarrow> nat option) \<Rightarrow> transport_event list \<Rightarrow> nat list \<Rightarrow> bool" where
  "no_orphans T E D \<longleftrightarrow> (\<forall>c. phase_of E c = Opened \<longrightarrow> (\<exists>key. T key = Some c) \<or> c \<in> set D)"

definition view_ok :: "bool \<Rightarrow> ('k \<Rightarrow> nat option) \<Rightarrow> transport_event list \<Rightarrow> nat list \<Rightarrow> nat \<Rightarrow> bool" where
  "view_ok stays T E D n \<longleftrightarrow>
     (n \<le> u64_modulus \<longrightarrow>
       tracking_ok T E D n \<and> detached_ok E D n \<and> phases_ok E n \<and> (stays \<longrightarrow> no_orphans T E D))"

lemmas view_ok_defs = view_ok_def tracking_ok_def detached_ok_def phases_ok_def no_orphans_def

lemma view_ok_start: "view_ok stays (\<lambda>_. None) [] [] n"
  by (auto simp: view_ok_defs)

lemma view_ok_close:
  "view_ok stays T E D n \<Longrightarrow> T key = Some c \<Longrightarrow> view_ok stays (T(key := None)) (E @ [ConnectionClosed c]) D n"
  by (auto simp: view_ok_defs) (metis option.inject)

lemma view_ok_untrack: "view_ok False T E D n \<Longrightarrow> view_ok False (T(key := None)) E D n"
  by (auto simp: view_ok_defs)

lemma view_ok_incoming:
  "view_ok stays T E D n \<Longrightarrow> T key = Some c \<Longrightarrow> view_ok stays T (E @ [IncomingMessage c m]) D n"
  by (auto simp: view_ok_defs)

lemma view_ok_draw: "view_ok stays T E D n \<Longrightarrow> view_ok stays T E D (n + k)"
  by (fastforce simp: view_ok_defs)

lemma view_ok_open:
  assumes "view_ok stays T E D n" and "T key = None" and "n < u64_modulus"
  shows "view_ok stays (T(key := Some n)) (E @ [ConnectionOpened n orig]) D (Suc n)"
  using assms by (auto simp: view_ok_defs) (metis less_Suc_eq option.distinct(1))+

lemma view_ok_detach:
  "view_ok stays T E D n \<Longrightarrow> T key = Some c \<Longrightarrow> view_ok stays (T(key := None)) E (D @ [c]) n"
  by (auto simp: view_ok_defs) (metis option.inject)

lemma view_ok_flush:
  "view_ok stays T E D n \<Longrightarrow> c \<in> set D \<Longrightarrow> view_ok stays T (E @ [ConnectionClosed c]) (remove1 c D) n"
  by (auto simp: view_ok_defs)

lemma view_ok_flush_lost: "view_ok False T E D n \<Longrightarrow> view_ok False T E (remove1 c D) n"
  by (auto simp: view_ok_defs)

definition receiver_stays :: "(nat \<Rightarrow> send_outcome) \<Rightarrow> bool" where
  "receiver_stays out \<longleftrightarrow> (\<forall>n. out n \<noteq> SendDropped)"

lemma tracked_update [simp]:
  "tracked (ct\<lparr>ct_attempts := x1\<rparr>) = tracked ct"
  "tracked (ct\<lparr>ct_transport := x2\<rparr>) = tracked ct"
  "tracked (ct\<lparr>ct_detached := x3\<rparr>) = tracked ct"
  "tracked (ct\<lparr>ct_drawn := x4\<rparr>) = tracked ct"
  "tracked (ct\<lparr>ct_join_set := x5\<rparr>) = tracked ct"
  "tracked (ct\<lparr>ct_shutdown := x6\<rparr>) = tracked ct"
  "tracked (ct\<lparr>ct_cancelled := x7\<rparr>) = tracked ct"
  "tracked (ct\<lparr>ct_pongs := x8\<rparr>) = tracked ct"
  "tracked (ct\<lparr>ct_legacy_stream_ids := x9\<rparr>) = tracked ct"
  by (simp_all add: tracked_def fun_eq_iff)

definition tracker_inv :: "(nat \<Rightarrow> send_outcome) \<Rightarrow> client_tracker \<Rightarrow> bool" where
  "tracker_inv out ct \<longleftrightarrow>
     view_ok (receiver_stays out) (tracked ct) (ct_transport ct) (ct_detached ct) (ct_drawn ct)"

lemma tracked_insert:
  "hm_get (ct_clients ct) key = Some c \<Longrightarrow> cst_connection_id c' = cst_connection_id c \<Longrightarrow>
     tracked (ct\<lparr>ct_clients := hm_insert key c' (ct_clients ct)\<rparr>) = tracked ct"
  by (auto simp: tracked_def fun_eq_iff container_simps)

lemma inv_close_client:
  assumes inv: "tracker_inv out ct"
  shows "tracker_inv out (snd (close_client out key ct))"
proof (cases "hm_get (ct_clients ct) key")
  case (Some c)
  let ?ct = "snd (close_client out key ct)" and ?c = "cst_connection_id c"
  have t: "tracked ?ct = (tracked ct)(key := None)" "tracked ct key = Some ?c"
    using Some by (auto simp: tracked_def fun_eq_iff close_client_clients container_simps)
  have f: "ct_detached ?ct = ct_detached ct" "ct_drawn ?ct = ct_drawn ct"
    "ct_transport ?ct = ct_transport ct @ (if out (ct_attempts ct) = SendDropped then [] else [ConnectionClosed ?c])"
    using Some by (simp_all add: close_client_def remove_client_def send_transport_event_def
        send_connection_closed_def cancel_connection_def Let_def)
  show ?thesis
  proof (cases "out (ct_attempts ct) = SendDropped")
    case True
    then have "receiver_stays out = False" unfolding receiver_stays_def by blast
    then show ?thesis using inv view_ok_untrack True unfolding tracker_inv_def t(1) f by simp
  next
    case False
    then show ?thesis using view_ok_close [OF inv [unfolded tracker_inv_def] t(2)]
      unfolding tracker_inv_def t(1) f by simp
  qed
qed (use inv in \<open>simp add: close_client_def remove_client_def\<close>)

lemma inv_close_clients: "tracker_inv out ct \<Longrightarrow> tracker_inv out (snd (close_clients out ks ct))"
proof (induction ks arbitrary: ct)
  case (Cons k ks)
  then show ?case using inv_close_client [OF Cons(2), of k] by (auto split: prod.split sum.split)
qed simp

lemma inv_close_all_clients: "tracker_inv out ct \<Longrightarrow> tracker_inv out (close_all_clients out ct)"
proof (induction out ct rule: close_all_clients.induct)
  case (1 out ct)
  then show ?case
    by (subst close_all_clients.simps) (auto split: list.split simp: inv_close_client)
qed

lemma record_delivery_view [simp]:
  "tracked (record_inbound_message_delivery key seq ct) = tracked ct"
  "ct_transport (record_inbound_message_delivery key seq ct) = ct_transport ct"
  "ct_detached (record_inbound_message_delivery key seq ct) = ct_detached ct"
  "ct_drawn (record_inbound_message_delivery key seq ct) = ct_drawn ct"
  by (auto simp: record_inbound_message_delivery_def tracked_def fun_eq_iff container_simps split: option.splits)

lemma inv_record_delivery [simp]:
  "tracker_inv out (record_inbound_message_delivery key seq ct) = tracker_inv out ct"
  by (simp add: tracker_inv_def)

lemma send_incoming:
  "send_transport_event out (IncomingMessage c m) ct =
     (if out (ct_attempts ct) = SendOk
      then (Inr (), ct\<lparr>ct_attempts := ct_attempts ct + 1, ct_transport := ct_transport ct @ [IncomingMessage c m]\<rparr>)
      else (Inl Stopped, ct\<lparr>ct_attempts := ct_attempts ct + 1\<rparr>))"
  by (cases "out (ct_attempts ct)") (simp_all add: send_transport_event_def)

lemma send_opened:
  "send_transport_event out (ConnectionOpened c orig) ct =
     (if out (ct_attempts ct) = SendOk
      then (Inr (), ct\<lparr>ct_attempts := ct_attempts ct + 1, ct_transport := ct_transport ct @ [ConnectionOpened c orig]\<rparr>)
      else (Inl Stopped, ct\<lparr>ct_attempts := ct_attempts ct + 1\<rparr>))"
  by (cases "out (ct_attempts ct)") (simp_all add: send_transport_event_def)

lemma inv_forward:
  assumes inv: "tracker_inv out ct" and c: "hm_get (ct_clients ct) key = Some c"
  shows "tracker_inv out (snd (forward_to_client out now key c seq m ct))"
proof -
  define ct1 where "ct1 = ct\<lparr>ct_clients := hm_insert key (c\<lparr>cst_last_activity_at := now\<rparr>) (ct_clients ct)\<rparr>"
  have t: "tracked ct1 = tracked ct" unfolding ct1_def by (rule tracked_insert [OF c]) simp
  have inv1: "tracker_inv out ct1" using inv unfolding tracker_inv_def t by (simp add: ct1_def)
  have tr: "tracked ct1 key = Some (cst_connection_id c)" using c unfolding t by (simp add: tracked_def)
  have "tracker_inv out (ct1\<lparr>ct_attempts := k, ct_transport := ct_transport ct1 @ [IncomingMessage (cst_connection_id c) m]\<rparr>)" for k
    using view_ok_incoming [OF inv1 [unfolded tracker_inv_def] tr, of m] by (simp add: tracker_inv_def)
  moreover have "tracker_inv out (ct1\<lparr>ct_attempts := k\<rparr>)" for k
    using inv1 by (simp add: tracker_inv_def)
  ultimately show ?thesis
    unfolding forward_to_client_def Let_def ct1_def [symmetric] by (simp add: send_incoming)
qed
lemma open_client_drawn: "ct_drawn (snd (open_client out legacy now key seq m ct)) = ct_drawn ct + 1"
  by (auto simp: open_client_def next_connection_id_def send_opened send_incoming register_client_def
      remove_client_def spawn_connection_closed_def cancel_connection_def Let_def split: option.splits)

lemma inv_open_client:
  assumes inv: "tracker_inv out ct" and key: "hm_get (ct_clients ct) key = None"
  shows "tracker_inv out (snd (open_client out legacy now key seq m ct))"
proof (cases "ct_drawn ct < u64_modulus")
  case False
  then show ?thesis by (simp add: tracker_inv_def view_ok_def open_client_drawn)
next
  case True
  let ?c = "ct_drawn ct"
  define ct1 where "ct1 = ct\<lparr>ct_drawn := ct_drawn ct + 1\<rparr>"
  have next_id: "next_connection_id ct = (?c, ct1)" using True by (simp add: next_connection_id_def ct1_def)
  define ct3 where "ct3 = register_client legacy now key ?c
    (ct1\<lparr>ct_attempts := ct_attempts ct1 + 1, ct_transport := ct_transport ct1 @ [ConnectionOpened ?c OriginRemoteControl]\<rparr>)"
  have t3: "tracked ct3 = (tracked ct)(key := Some ?c)" and g3: "\<exists>cl. hm_get (ct_clients ct3) key = Some cl \<and> cst_connection_id cl = ?c"
    by (auto simp: ct3_def ct1_def register_client_def tracked_def fun_eq_iff container_simps)
  have f3: "ct_transport ct3 = ct_transport ct @ [ConnectionOpened ?c OriginRemoteControl]"
    "ct_detached ct3 = ct_detached ct" "ct_drawn ct3 = Suc ?c"
    by (simp_all add: ct3_def ct1_def register_client_def)
  have inv3: "view_ok (receiver_stays out) (tracked ct3) (ct_transport ct3) (ct_detached ct3) (ct_drawn ct3)"
    unfolding t3 f3 by (rule view_ok_open [OF inv [unfolded tracker_inv_def] _ True]) (simp add: tracked_def key)
  have tr: "tracked ct3 key = Some ?c" by (simp add: t3)
  have failed: "tracker_inv out (ct1\<lparr>ct_attempts := k\<rparr>)" for k
    using view_ok_draw [OF inv [unfolded tracker_inv_def], of 1] by (simp add: tracker_inv_def ct1_def)
  have ok: "tracker_inv out (ct3\<lparr>ct_attempts := k, ct_transport := ct_transport ct3 @ [IncomingMessage ?c m]\<rparr>)" for k
    using view_ok_incoming [OF inv3 tr, of m] by (simp add: tracker_inv_def)
  have det: "tracker_inv out (case remove_client key (ct3\<lparr>ct_attempts := k\<rparr>) of
      (None, ct5) \<Rightarrow> ct5
    | (Some cl, ct5) \<Rightarrow> spawn_connection_closed (cst_connection_id cl) (cancel_connection (cst_connection_id cl) ct5))" for k
  proof -
    obtain cl where cl: "hm_get (ct_clients ct3) key = Some cl" "cst_connection_id cl = ?c" using g3 by blast
    have "tracked (ct3\<lparr>ct_attempts := k, ct_clients := hm_remove key (ct_clients ct3)\<rparr>) = (tracked ct3)(key := None)"
      by (auto simp: tracked_def fun_eq_iff container_simps)
    then show ?thesis
      using view_ok_detach [OF inv3 tr] cl
      by (simp add: tracker_inv_def remove_client_def spawn_connection_closed_def cancel_connection_def)
  qed
  have "snd (open_client out legacy now key seq m ct) =
      (if out (ct_attempts ct1) \<noteq> SendOk then ct1\<lparr>ct_attempts := ct_attempts ct1 + 1\<rparr>
       else case send_transport_event out (IncomingMessage ?c m) ct3 of
           (Inl e, ct4) \<Rightarrow>
             (case remove_client key ct4 of
                (None, ct5) \<Rightarrow> ct5
              | (Some cl, ct5) \<Rightarrow> spawn_connection_closed (cst_connection_id cl) (cancel_connection (cst_connection_id cl) ct5))
         | (Inr _, ct4) \<Rightarrow> (if legacy then ct4 else record_inbound_message_delivery key seq ct4))"
    by (simp add: open_client_def next_id send_opened ct3_def Let_def split: prod.split sum.split)
  then show ?thesis using failed ok det by (simp add: send_incoming)
qed

lemma inv_handle_client_message:
  assumes inv: "tracker_inv out ct"
  shows "tracker_inv out (snd (handle_client_message out legacy now key seq m ct))"
proof -
  obtain r ct1 where r: "(if message_starts_connection m \<and> hm_contains key (ct_clients ct)
      then close_client out key ct else (Inr (), ct)) = (r, ct1)"
    by (rule prod.exhaust)
  have "tracker_inv out ct1" using r inv inv_close_client [OF inv, of key] by (auto split: if_splits)
  then show ?thesis
    unfolding handle_client_message_def Let_def r prod.case
    using inv inv_forward [of out ct1 key] inv_open_client [of out ct1 key]
    by (auto split: sum.split option.split)
qed

lemma inv_handle_message:
  assumes inv: "tracker_inv out ct"
  shows "tracker_inv out (snd (handle_message out rnd now env ct))"
proof -
  obtain sid ct1 where r: "resolve_stream_id rnd env ct = (sid, ct1)" by (rule prod.exhaust)
  have inv1: "tracker_inv out ct1"
    using r inv by (auto simp: resolve_stream_id_def tracker_inv_def Let_def split: option.splits if_splits)
  have "tracker_inv out (handle_ping now key ct1)" for key
    using inv1 tracked_insert [of ct1 key]
    by (auto simp: handle_ping_def tracker_inv_def split: option.splits)
  then show ?thesis
    using inv1 inv_handle_client_message [OF inv1] inv_close_client [OF inv1]
    by (auto simp: handle_message_def r Let_def split: client_event.split)
qed

subsection \<open>Runs\<close>

inductive tracker_step :: "(nat \<Rightarrow> send_outcome) \<Rightarrow> client_tracker \<Rightarrow> client_tracker \<Rightarrow> bool" for out where
  step_message: "tracker_step out ct (snd (handle_message out rnd now env ct))"
| step_expire: "tracker_step out ct (snd (close_expired_clients out now ct))"
| step_task_ended: "task \<in> set (ct_join_set ct) \<Longrightarrow> bookkeep_join_set task ct = (key, ct1) \<Longrightarrow>
    tracker_step out ct (snd (close_client out key ct1))"
| step_detached: "c \<in> set (ct_detached ct) \<Longrightarrow> out (ct_attempts ct) \<noteq> SendDropped \<Longrightarrow>
    tracker_step out ct (ct\<lparr>ct_attempts := ct_attempts ct + 1, ct_detached := remove1 c (ct_detached ct),
      ct_transport := ct_transport ct @ [ConnectionClosed c]\<rparr>)"
| step_detached_lost: "c \<in> set (ct_detached ct) \<Longrightarrow> out (ct_attempts ct) = SendDropped \<Longrightarrow>
    tracker_step out ct (ct\<lparr>ct_attempts := ct_attempts ct + 1, ct_detached := remove1 c (ct_detached ct)\<rparr>)"
| step_other_transport: "tracker_step out ct (ct\<lparr>ct_drawn := ct_drawn ct + 1\<rparr>)"
| step_shutdown: "tracker_step out ct (tracker_shutdown out ct)"

definition tracker_start :: "client_tracker \<Rightarrow> bool" where
  "tracker_start ct \<longleftrightarrow> (\<exists>drawn. ct = client_tracker_new drawn)"

lemma tracker_inv_start: "tracker_start ct \<Longrightarrow> tracker_inv out ct"
proof -
  assume "tracker_start ct"
  then obtain drawn where "ct = client_tracker_new drawn" unfolding tracker_start_def ..
  moreover have "tracked (client_tracker_new drawn) = (\<lambda>_. None)"
    by (simp add: client_tracker_new_def tracked_def fun_eq_iff)
  ultimately show ?thesis by (simp add: tracker_inv_def client_tracker_new_def view_ok_start)
qed

lemma close_expired_state:
  "snd (close_expired_clients out now ct) =
     snd (close_clients out (map fst (filter (\<lambda>(k, c). \<not> client_is_alive c now) (ct_clients ct))) ct)"
  by (simp add: close_expired_clients_def Let_def split: prod.split sum.split)

lemma tracker_inv_step: "tracker_step out s t \<Longrightarrow> tracker_inv out s \<Longrightarrow> tracker_inv out t"
proof (induction rule: tracker_step.induct)
  case (step_expire ct now)
  then show ?case unfolding close_expired_state by (rule inv_close_clients)
next
  case (step_task_ended task ct key ct1)
  then have "tracker_inv out ct1" by (auto simp: bookkeep_join_set_def tracker_inv_def)
  then show ?case by (rule inv_close_client)
next
  case (step_detached c ct)
  then show ?case using view_ok_flush [of _ "tracked ct"] by (simp add: tracker_inv_def)
next
  case (step_detached_lost c ct)
  then have "receiver_stays out = False" unfolding receiver_stays_def by blast
  then show ?case using step_detached_lost view_ok_flush_lost [of "tracked ct"] by (simp add: tracker_inv_def)
next
  case (step_other_transport ct)
  then show ?case using view_ok_draw [of _ "tracked ct" _ _ "ct_drawn ct" 1] by (simp add: tracker_inv_def)
next
  case (step_shutdown ct)
  then have "tracker_inv out (ct\<lparr>ct_shutdown := True\<rparr>)" by (simp add: tracker_inv_def)
  from inv_close_all_clients [OF this] show ?case by (simp add: tracker_shutdown_def tracker_inv_def)
qed (rule inv_handle_message)

interpretation tracker_run: transition_invariant tracker_start "tracker_step out" "tracker_inv out" for out
  by unfold_locales (rule tracker_inv_start, assumption, rule tracker_inv_step)
text \<open>
  C23. What the app server sees of remote-control connections is orderly in every run, whichever sends
  time out: a connection is opened once, then gets messages, and is closed at most once with nothing
  after that. A client that is tracked has an open connection, of its own. And no connection is
  forgotten: as long as the app server listens, one that is open has a client, or its close is on
  its way.
\<close>

theorem connection_lifecycle:
  assumes "reachable_from tracker_start (tracker_step out) ct" and "ct_drawn ct \<le> u64_modulus"
  shows "(\<forall>c. orderly c (connection_events c (ct_transport ct)))
    \<and> (\<forall>key c. tracked ct key = Some c \<longrightarrow>
         connection_events c (ct_transport ct) \<noteq> [] \<and> ConnectionClosed c \<notin> set (ct_transport ct)
         \<and> (\<forall>key'. tracked ct key' = Some c \<longrightarrow> key' = key))
    \<and> (receiver_stays out \<longrightarrow>
         (\<forall>c. connection_events c (ct_transport ct) \<noteq> [] \<and> ConnectionClosed c \<notin> set (ct_transport ct) \<longrightarrow>
            (\<exists>key. tracked ct key = Some c) \<or> c \<in> set (ct_detached ct)))"
proof -
  have closed: "ConnectionClosed c \<in> set (connection_events c evs) \<longleftrightarrow> ConnectionClosed c \<in> set evs" for c evs
    by (auto simp: connection_events_def)
  have inv: "tracking_ok (tracked ct) (ct_transport ct) (ct_detached ct) (ct_drawn ct)"
    "phases_ok (ct_transport ct) (ct_drawn ct)"
    "receiver_stays out \<longrightarrow> no_orphans (tracked ct) (ct_transport ct) (ct_detached ct)"
    using tracker_run.inv_reachable [OF assms(1)] assms(2) unfolding tracker_inv_def view_ok_def by blast+
  have nb: "phase_of (ct_transport ct) c \<noteq> Broken" for c using inv(2) unfolding phases_ok_def by blast
  show ?thesis
    using inv(1,3) orderly_of_phase(1) [OF nb] orderly_of_phase(2) [OF nb]
    unfolding tracking_ok_def no_orphans_def closed by blast
qed

subsection \<open>Retries are recognised\<close>

definition inbound_seq :: "client_tracker \<Rightarrow> client_key \<Rightarrow> nat option" where
  "inbound_seq ct key = Option.bind (hm_get (ct_clients ct) key) cst_last_inbound_seq_id"

definition seq_le :: "nat option \<Rightarrow> nat option \<Rightarrow> bool" where
  "seq_le a b = (case (a, b) of (None, _) \<Rightarrow> True | (Some x, Some y) \<Rightarrow> x \<le> y | _ \<Rightarrow> False)"

text \<open>A connection that is still there was there before, and remembers at least as much.\<close>

definition keeps :: "client_tracker \<Rightarrow> client_tracker \<Rightarrow> bool" where
  "keeps s t \<longleftrightarrow> ct_drawn s \<le> ct_drawn t
     \<and> (ct_drawn t \<le> u64_modulus \<longrightarrow>
         (\<forall>key c. tracked t key = Some c \<longrightarrow> c < ct_drawn s \<longrightarrow>
            tracked s key = Some c \<and> seq_le (inbound_seq s key) (inbound_seq t key)))"

lemma seq_le_refl [simp]: "seq_le a a"
  by (simp add: seq_le_def split: option.split)

lemma seq_le_trans: "seq_le a b \<Longrightarrow> seq_le b c \<Longrightarrow> seq_le a c"
  by (auto simp: seq_le_def split: option.splits)

lemma keeps_refl [simp]: "keeps s s"
  by (simp add: keeps_def)

lemma keeps_trans: "keeps s t \<Longrightarrow> keeps t u \<Longrightarrow> keeps s u"
  unfolding keeps_def by (meson le_trans less_le_trans seq_le_trans)

lemma keepsI:
  "ct_drawn s \<le> ct_drawn t \<Longrightarrow>
     (\<And>key. hm_get (ct_clients t) key = None \<or>
        (\<exists>c c'. hm_get (ct_clients s) key = Some c \<and> hm_get (ct_clients t) key = Some c'
           \<and> cst_connection_id c' = cst_connection_id c
           \<and> seq_le (cst_last_inbound_seq_id c) (cst_last_inbound_seq_id c'))) \<Longrightarrow> keeps s t"
proof -
  assume le: "ct_drawn s \<le> ct_drawn t"
    and same: "\<And>key. hm_get (ct_clients t) key = None \<or>
        (\<exists>c c'. hm_get (ct_clients s) key = Some c \<and> hm_get (ct_clients t) key = Some c'
           \<and> cst_connection_id c' = cst_connection_id c
           \<and> seq_le (cst_last_inbound_seq_id c) (cst_last_inbound_seq_id c'))"
  have "tracked s key = Some c \<and> seq_le (inbound_seq s key) (inbound_seq t key)" if "tracked t key = Some c" for key c
    using that same [of key] by (auto simp: tracked_def inbound_seq_def)
  then show ?thesis using le unfolding keeps_def by blast
qed

lemma keeps_same_clients: "ct_clients t = ct_clients s \<Longrightarrow> ct_drawn s \<le> ct_drawn t \<Longrightarrow> keeps s t"
  by (auto simp: keeps_def tracked_def inbound_seq_def)

lemma close_client_drawn: "ct_drawn (snd (close_client out key ct)) = ct_drawn ct"
  by (simp add: close_client_def remove_client_def send_transport_event_def send_connection_closed_def
      cancel_connection_def Let_def split: option.split)

lemma keeps_close_client: "keeps ct (snd (close_client out key ct))"
proof (rule keepsI)
  fix k
  show "hm_get (ct_clients (snd (close_client out key ct))) k = None \<or>
        (\<exists>c c'. hm_get (ct_clients ct) k = Some c \<and> hm_get (ct_clients (snd (close_client out key ct))) k = Some c'
           \<and> cst_connection_id c' = cst_connection_id c
           \<and> seq_le (cst_last_inbound_seq_id c) (cst_last_inbound_seq_id c'))"
    by (cases "hm_get (ct_clients ct) k") (auto simp: close_client_clients container_simps)
qed (simp add: close_client_drawn)

lemma keeps_close_clients: "keeps ct (snd (close_clients out ks ct))"
proof (induction ks arbitrary: ct)
  case (Cons k ks)
  obtain r ct1 where r: "close_client out k ct = (r, ct1)" by (rule prod.exhaust)
  then have "keeps ct ct1" using keeps_close_client [of ct out k] by simp
  then show ?case using Cons [of ct1] keeps_trans by (auto simp: r split: sum.split)
qed simp

lemma keeps_close_all_clients: "keeps ct (close_all_clients out ct)"
proof (induction out ct rule: close_all_clients.induct)
  case (1 out ct)
  show ?case
  proof (cases "ct_clients ct")
    case Nil
    then show ?thesis by (subst close_all_clients.simps) simp
  next
    case (Cons e es)
    obtain key c where e: "e = (key, c)" by (rule prod.exhaust)
    have "keeps (snd (close_client out key ct)) (close_all_clients out (snd (close_client out key ct)))"
      by (rule 1 [OF Cons]) (simp add: e)
    then have "keeps ct (close_all_clients out (snd (close_client out key ct)))"
      by (rule keeps_trans [OF keeps_close_client])
    then show ?thesis by (subst close_all_clients.simps) (simp add: Cons e)
  qed
qed

lemma hm_get_record:
  "hm_get (ct_clients (record_inbound_message_delivery key seq ct)) k =
     (if k = key \<and> seq \<noteq> None
      then map_option (\<lambda>c. c\<lparr>cst_last_inbound_seq_id := seq\<rparr>) (hm_get (ct_clients ct) key)
      else hm_get (ct_clients ct) k)"
  by (auto simp: record_inbound_message_delivery_def container_simps split: option.splits)

lemma keeps_forward:
  assumes c: "hm_get (ct_clients ct) key = Some c" and new: "\<not> already_delivered key seq ct"
  shows "keeps ct (snd (forward_to_client out now key c seq m ct))"
proof (rule keepsI)
  fix k
  have le: "seq \<noteq> None \<Longrightarrow> seq_le (cst_last_inbound_seq_id c) seq"
    using new c by (auto simp: already_delivered_def seq_le_def split: option.splits)
  show "hm_get (ct_clients (snd (forward_to_client out now key c seq m ct))) k = None \<or>
        (\<exists>c1 c2. hm_get (ct_clients ct) k = Some c1
           \<and> hm_get (ct_clients (snd (forward_to_client out now key c seq m ct))) k = Some c2
           \<and> cst_connection_id c2 = cst_connection_id c1
           \<and> seq_le (cst_last_inbound_seq_id c1) (cst_last_inbound_seq_id c2))"
    using c le by (cases "hm_get (ct_clients ct) k")
      (auto simp: forward_to_client_def Let_def send_incoming hm_get_record container_simps)
qed (simp add: forward_to_client_def Let_def send_incoming)

lemma hm_get_open_client:
  assumes "hm_get (ct_clients ct) key = None" and "k \<noteq> key"
  shows "hm_get (ct_clients (snd (open_client out legacy now key seq m ct))) k = hm_get (ct_clients ct) k"
  using assms
  by (auto simp: open_client_def next_connection_id_def send_opened send_incoming register_client_def
      remove_client_def spawn_connection_closed_def cancel_connection_def Let_def hm_get_record container_simps
      split: option.splits)

lemma tracked_open_client:
  assumes "hm_get (ct_clients ct) key = None"
    and "tracked (snd (open_client out legacy now key seq m ct)) key = Some c"
  shows "c = ct_drawn ct mod u64_modulus"
  using assms
  by (auto simp: open_client_def next_connection_id_def send_opened send_incoming register_client_def tracked_def
      remove_client_def spawn_connection_closed_def cancel_connection_def Let_def hm_get_record container_simps
      split: option.splits if_splits)

lemma keeps_open_client:
  assumes "hm_get (ct_clients ct) key = None"
  shows "keeps ct (snd (open_client out legacy now key seq m ct))"
proof -
  let ?t = "snd (open_client out legacy now key seq m ct)"
  have "tracked ct k = Some c \<and> seq_le (inbound_seq ct k) (inbound_seq ?t k)"
    if "tracked ?t k = Some c" "c < ct_drawn ct" "ct_drawn ?t \<le> u64_modulus" for k c
  proof (cases "k = key")
    case True
    then show ?thesis using tracked_open_client [OF assms, of out legacy now seq m c] that
      by (simp add: open_client_drawn)
  next
    case False
    then show ?thesis using hm_get_open_client [OF assms False] that(1) by (simp add: tracked_def inbound_seq_def)
  qed
  then show ?thesis unfolding keeps_def open_client_drawn by simp
qed

lemma keeps_handle_client_message: "keeps ct (snd (handle_client_message out legacy now key seq m ct))"
proof -
  obtain r ct1 where r: "(if message_starts_connection m \<and> hm_contains key (ct_clients ct)
      then close_client out key ct else (Inr (), ct)) = (r, ct1)"
    by (rule prod.exhaust)
  have k1: "keeps ct ct1" using r keeps_close_client [of ct out key] by (auto split: if_splits)
  have gone: "hm_get (ct_clients ct1) key = None" if "message_starts_connection m"
  proof (cases "hm_contains key (ct_clients ct)")
    case True
    then show ?thesis using r that close_client_clients [of out key ct] by (simp add: container_simps)
  qed (use r that in \<open>auto simp: hm_contains_def\<close>)
  have same: "ct1 = ct" if "\<not> message_starts_connection m" using r that by simp
  have fwd: "keeps ct (snd (forward_to_client out now key c seq m ct1))"
    if "hm_get (ct_clients ct1) key = Some c" "\<not> (already_delivered key seq ct \<and> \<not> message_starts_connection m)" for c
    using that gone same keeps_forward [of ct key c seq] by (cases "message_starts_connection m") auto
  have opn: "keeps ct (snd (open_client out legacy now key seq m ct1))" if "hm_get (ct_clients ct1) key = None"
    using keeps_trans [OF k1 keeps_open_client [OF that]] .
  show ?thesis
    unfolding handle_client_message_def Let_def r prod.case
    using k1 fwd opn by (auto split: sum.split option.split)
qed

lemma resolve_stream_clients:
  "resolve_stream_id rnd env ct = (sid, ct1) \<Longrightarrow> ct_clients ct1 = ct_clients ct \<and> ct_drawn ct1 = ct_drawn ct"
  by (auto simp: resolve_stream_id_def Let_def split: option.splits if_splits)

lemma keeps_handle_ping: "keeps ct (handle_ping now key ct)"
proof (rule keepsI)
  fix k
  show "hm_get (ct_clients (handle_ping now key ct)) k = None \<or>
        (\<exists>c c'. hm_get (ct_clients ct) k = Some c \<and> hm_get (ct_clients (handle_ping now key ct)) k = Some c'
           \<and> cst_connection_id c' = cst_connection_id c
           \<and> seq_le (cst_last_inbound_seq_id c) (cst_last_inbound_seq_id c'))"
    by (cases "hm_get (ct_clients ct) k") (auto simp: handle_ping_def container_simps split: option.split)
qed (simp add: handle_ping_def split: option.split)

lemma keeps_handle_message: "keeps ct (snd (handle_message out rnd now env ct))"
proof -
  obtain sid ct1 where r: "resolve_stream_id rnd env ct = (sid, ct1)" by (rule prod.exhaust)
  then have k1: "keeps ct ct1" using keeps_same_clients [of ct1 ct] resolve_stream_clients [OF r] by simp
  have "keeps ct1 (snd (handle_message out rnd now env ct))"
    using keeps_handle_client_message [of ct1] keeps_close_client [of ct1] keeps_handle_ping [of ct1]
    by (auto simp: handle_message_def r Let_def split: client_event.split)
  then show ?thesis by (rule keeps_trans [OF k1])
qed

lemma keeps_step: "tracker_step out s t \<Longrightarrow> keeps s t"
proof (induction rule: tracker_step.induct)
  case (step_expire ct now)
  then show ?case unfolding close_expired_state by (rule keeps_close_clients)
next
  case (step_task_ended task ct key ct1)
  then have "keeps ct ct1" by (intro keeps_same_clients) (auto simp: bookkeep_join_set_def)
  then show ?case using keeps_close_client keeps_trans by blast
next
  case (step_shutdown ct)
  have "keeps ct (ct\<lparr>ct_shutdown := True\<rparr>)" by (rule keeps_same_clients) simp_all
  moreover have "keeps (close_all_clients out (ct\<lparr>ct_shutdown := True\<rparr>)) (tracker_shutdown out ct)"
    unfolding tracker_shutdown_def by (rule keeps_same_clients) simp_all
  ultimately show ?case using keeps_close_all_clients keeps_trans by blast
qed (auto intro: keeps_handle_message keeps_same_clients)

lemma keeps_run: "(tracker_step out)\<^sup>*\<^sup>* s t \<Longrightarrow> keeps s t"
  by (induction rule: rtranclp_induct) (auto intro: keeps_trans keeps_step)
text \<open>A message of a known stream that opens no connection.\<close>

definition plain_message :: "client_key \<Rightarrow> nat \<Rightarrow> jsonrpc_message \<Rightarrow> rc_envelope \<Rightarrow> bool" where
  "plain_message key seq m env \<longleftrightarrow>
     ce_event env = ClientMessage m \<and> \<not> message_starts_connection m \<and> ce_client_id env = fst key
     \<and> ce_stream_id env = Some (snd key) \<and> ce_seq_id env = Some seq \<and> snd key \<noteq> []"

lemma handle_plain_message:
  "plain_message key seq m env \<Longrightarrow>
     handle_message out rnd now env ct = handle_client_message out False now key (Some seq) m ct"
  by (simp add: plain_message_def handle_message_def resolve_stream_id_def)

lemma handle_client_message_recorded:
  assumes "tracked ct key = Some c" and "\<not> message_starts_connection m"
    and "handle_client_message out False now key (Some seq) m ct = (Inr (), ct1)"
  shows "tracked ct1 key = Some c \<and> seq_le (Some seq) (inbound_seq ct1 key) \<and> ct_drawn ct1 = ct_drawn ct"
proof -
  obtain cl where cl: "hm_get (ct_clients ct) key = Some cl" "cst_connection_id cl = c"
    using assms(1) by (auto simp: tracked_def)
  show ?thesis
  proof (cases "already_delivered key (Some seq) ct")
    case True
    then show ?thesis using assms cl
      by (auto simp: handle_client_message_def already_delivered_def inbound_seq_def seq_le_def split: option.splits)
  next
    case False
    then have "forward_to_client out now key cl (Some seq) m ct = (Inr (), ct1)"
      using assms(2,3) cl by (simp add: handle_client_message_def)
    then show ?thesis using cl
      by (auto simp: forward_to_client_def Let_def send_incoming tracked_def inbound_seq_def seq_le_def
          hm_get_record container_simps record_inbound_message_delivery_def split: if_splits option.splits)
  qed
qed

text \<open>
  A message the app server got is not given to it again: once a message numbered \<open>n\<close> was handled for
  a client, then for as long as the client keeps that connection, through any other traffic, a message
  of the same stream with number \<open>n\<close> or less changes nothing and reaches nobody.
\<close>

theorem retry_not_delivered_again:
  assumes "plain_message key n m env" and "plain_message key n' m' env'" and "n' \<le> n"
    and "reachable_from tracker_start (tracker_step out) ct"
    and "tracked ct key = Some c" and "handle_message out rnd now env ct = (Inr (), ct1)"
    and "(tracker_step out)\<^sup>*\<^sup>* ct1 ct2" and "tracked ct2 key = Some c" and "ct_drawn ct2 \<le> u64_modulus"
  shows "handle_message out rnd' now' env' ct2 = (Inr (), ct2)"
proof -
  note keep = keeps_run [OF assms(7)]
  have one: "tracked ct1 key = Some c" "seq_le (Some n) (inbound_seq ct1 key)" "ct_drawn ct1 = ct_drawn ct"
    using handle_client_message_recorded [OF assms(5)] assms(1,6)
    by (auto simp: handle_plain_message plain_message_def)
  have "ct_drawn ct \<le> u64_modulus" using keep one(3) assms(9) unfolding keeps_def by simp
  then have "c < ct_drawn ct1"
    using tracker_run.inv_reachable [OF assms(4)] assms(5)
    unfolding tracker_inv_def view_ok_def tracking_ok_def one(3) by blast
  then have "seq_le (Some n) (inbound_seq ct2 key)"
    using keep assms(8,9) one(2) seq_le_trans unfolding keeps_def by blast
  then have "already_delivered key (Some n') ct2"
    using assms(3) by (cases "hm_get (ct_clients ct2) key")
      (auto simp: already_delivered_def inbound_seq_def seq_le_def split: option.splits)
  then show ?thesis
    using assms(2) unfolding handle_plain_message [OF assms(2)]
    by (simp add: handle_client_message_def plain_message_def)
qed

subsection \<open>Initializing a stream again\<close>

definition initialize_message :: "client_key \<Rightarrow> jsonrpc_message \<Rightarrow> rc_envelope \<Rightarrow> bool" where
  "initialize_message key m env \<longleftrightarrow>
     ce_event env = ClientMessage m \<and> message_starts_connection m \<and> ce_client_id env = fst key
     \<and> ce_stream_id env = Some (snd key) \<and> snd key \<noteq> []"

lemma close_client_tracked:
  assumes "tracked ct key = Some c" and "out (ct_attempts ct) = SendOk"
  shows "\<exists>ct'. close_client out key ct = (Inr (), ct') \<and> hm_get (ct_clients ct') key = None
    \<and> ct_transport ct' = ct_transport ct @ [ConnectionClosed c] \<and> ct_join_set ct' = ct_join_set ct
    \<and> ct_drawn ct' = ct_drawn ct"
  using assms
  by (auto simp: tracked_def close_client_def remove_client_def send_transport_event_def send_connection_closed_def
      cancel_connection_def Let_def container_simps)

lemma open_client_ok:
  assumes "\<forall>n. out n = SendOk"
  shows "\<exists>ct'. open_client out False now key seq m ct = (Inr (), ct')
    \<and> tracked ct' key = Some (ct_drawn ct mod u64_modulus)
    \<and> ct_transport ct' = ct_transport ct @ [ConnectionOpened (ct_drawn ct mod u64_modulus) OriginRemoteControl,
        IncomingMessage (ct_drawn ct mod u64_modulus) m]
    \<and> ct_join_set ct' = ct_join_set ct @ [(key, ct_drawn ct mod u64_modulus)]"
  using assms
  by (auto simp: open_client_def next_connection_id_def send_opened send_incoming register_client_def Let_def
      record_inbound_message_delivery_def tracked_def container_simps split: option.splits)

text \<open>
  Initializing a stream again does not last: the new connection replaces the old one and gets the
  message, but when the old connection's writing task, which the replacement cancelled, is
  collected, the reader closes whatever has its key, and that is the new connection.
\<close>

theorem reinitialized_connection_is_closed:
  assumes "initialize_message key m env" and "\<forall>n. out n = SendOk"
    and "tracked ct key = Some c" and "(key, c) \<in> set (ct_join_set ct)"
  shows "\<exists>ct1 ct2. handle_message out rnd now env ct = (Inr (), ct1)
    \<and> tracked ct1 key = Some (ct_drawn ct mod u64_modulus)
    \<and> ct_transport ct1 = ct_transport ct @ [ConnectionClosed c,
        ConnectionOpened (ct_drawn ct mod u64_modulus) OriginRemoteControl,
        IncomingMessage (ct_drawn ct mod u64_modulus) m]
    \<and> (key, c) \<in> set (ct_join_set ct1)
    \<and> close_client out key (snd (bookkeep_join_set (key, c) ct1)) = (Inr (), ct2)
    \<and> tracked ct2 key = None
    \<and> ct_transport ct2 = ct_transport ct1 @ [ConnectionClosed (ct_drawn ct mod u64_modulus)]"
proof -
  let ?c = "ct_drawn ct mod u64_modulus"
  obtain ct0 where ct0: "close_client out key ct = (Inr (), ct0)" "hm_get (ct_clients ct0) key = None"
    "ct_transport ct0 = ct_transport ct @ [ConnectionClosed c]" "ct_join_set ct0 = ct_join_set ct" "ct_drawn ct0 = ct_drawn ct"
    using close_client_tracked [OF assms(3)] assms(2) by blast
  obtain ct1 where ct1: "open_client out False now key (ce_seq_id env) m ct0 = (Inr (), ct1)" "tracked ct1 key = Some ?c"
    "ct_transport ct1 = ct_transport ct0 @ [ConnectionOpened ?c OriginRemoteControl, IncomingMessage ?c m]"
    "ct_join_set ct1 = ct_join_set ct0 @ [(key, ?c)]"
    using open_client_ok [OF assms(2), of now key "ce_seq_id env" m ct0] ct0(5) by auto
  have "hm_contains key (ct_clients ct)" using assms(3) by (auto simp: tracked_def hm_contains_def)
  then have handled: "handle_message out rnd now env ct = (Inr (), ct1)"
    using assms(1) ct0(1,2) ct1(1)
    by (simp add: initialize_message_def handle_message_def resolve_stream_id_def handle_client_message_def)
  have "tracked (snd (bookkeep_join_set (key, c) ct1)) key = Some ?c"
    using ct1(2) by (simp add: bookkeep_join_set_def)
  then obtain ct2 where "close_client out key (snd (bookkeep_join_set (key, c) ct1)) = (Inr (), ct2)"
    "hm_get (ct_clients ct2) key = None"
    "ct_transport ct2 = ct_transport (snd (bookkeep_join_set (key, c) ct1)) @ [ConnectionClosed ?c]"
    using close_client_tracked assms(2) by blast
  then show ?thesis
    using handled ct0(3,4) ct1 assms(4) by (auto simp: bookkeep_join_set_def tracked_def)
qed
subsection \<open>Examples\<close>

abbreviation channel_ok :: "nat \<Rightarrow> send_outcome" where
  "channel_ok \<equiv> \<lambda>_. SendOk"

definition phone :: client_key where
  "phone = (''phone'', ''s1'')"

definition phone_envelope :: "jsonrpc_message \<Rightarrow> nat \<Rightarrow> rc_envelope" where
  "phone_envelope m seq = \<lparr>ce_event = ClientMessage m, ce_client_id = ''phone'', ce_stream_id = Some ''s1'',
     ce_seq_id = Some seq, ce_cursor = None\<rparr>"

definition phone_initialize :: jsonrpc_message where
  "phone_initialize = JsonRequest \<lparr>jr_id = IntegerId 1, jr_method = ''initialize'', jr_params = None\<rparr>"

definition phone_notice :: jsonrpc_message where
  "phone_notice = JsonNotification \<lparr>jn_method = ''turn/interrupt'', jn_params = None\<rparr>"

definition phone_connected :: client_tracker where
  "phone_connected = snd (handle_message channel_ok ''r'' 0 (phone_envelope phone_initialize 1) (client_tracker_new 0))"

lemma phone_connected_state:
  "tracked phone_connected phone = Some 0 \<and> (phone, 0) \<in> set (ct_join_set phone_connected) \<and> ct_drawn phone_connected = 1
   \<and> ct_transport phone_connected = [ConnectionOpened 0 OriginRemoteControl, IncomingMessage 0 phone_initialize]"
proof -
  have "message_starts_connection phone_initialize" by (simp add: phone_initialize_def)
  then have eq: "phone_connected = snd (open_client channel_ok False 0 phone (Some 1) phone_initialize (client_tracker_new 0))"
    by (simp add: phone_connected_def phone_envelope_def phone_def client_tracker_new_def
        handle_message_def resolve_stream_id_def handle_client_message_def hm_contains_def)
  show ?thesis
    using open_client_ok [of channel_ok 0 phone "Some 1" phone_initialize "client_tracker_new 0"]
      open_client_drawn [of channel_ok False 0 phone "Some 1" phone_initialize "client_tracker_new 0"]
    unfolding eq by (auto simp: client_tracker_new_def u64_modulus_def)
qed

lemma phone_connected_reachable: "reachable_from tracker_start (tracker_step channel_ok) phone_connected"
  unfolding reachable_from_def tracker_start_def phone_connected_def by (blast intro: step_message)

lemma phone_handled:
  "\<exists>ct. handle_message channel_ok ''r'' 10 (phone_envelope phone_notice 2) phone_connected = (Inr (), ct)
     \<and> tracked ct phone = Some 0 \<and> ct_drawn ct = 1"
proof -
  have plain: "plain_message phone 2 phone_notice (phone_envelope phone_notice 2)"
    by (simp add: plain_message_def phone_envelope_def phone_notice_def phone_def)
  have notice: "\<not> message_starts_connection phone_notice" by (simp add: phone_notice_def)
  obtain c where c: "hm_get (ct_clients phone_connected) phone = Some c"
    using phone_connected_state by (auto simp: tracked_def)
  have "\<exists>ct. handle_client_message channel_ok False 10 phone (Some 2) phone_notice phone_connected = (Inr (), ct)"
    using notice c by (cases "already_delivered phone (Some 2) phone_connected")
      (simp_all add: handle_client_message_def forward_to_client_def send_incoming Let_def)
  then obtain ct where ct: "handle_client_message channel_ok False 10 phone (Some 2) phone_notice phone_connected = (Inr (), ct)"
    by blast
  show ?thesis
    using handle_client_message_recorded [OF _ notice ct] phone_connected_state handle_plain_message [OF plain] ct by simp
qed

theorem connection_lifecycle_witness:
  "orderly 0 (connection_events 0 (ct_transport phone_connected))
   \<and> ConnectionClosed 0 \<notin> set (ct_transport phone_connected)"
proof -
  have "ct_drawn phone_connected \<le> u64_modulus" using phone_connected_state by (simp add: u64_modulus_def)
  from connection_lifecycle [OF phone_connected_reachable this]
  show ?thesis using phone_connected_state by blast
qed

theorem retry_not_delivered_again_witness:
  "\<exists>ct. tracked ct phone = Some 0
     \<and> handle_message channel_ok ''r'' 20 (phone_envelope phone_notice 2) ct = (Inr (), ct)"
proof -
  have plain: "plain_message phone 2 phone_notice (phone_envelope phone_notice 2)"
    by (simp add: plain_message_def phone_envelope_def phone_notice_def phone_def)
  obtain ct where ct: "handle_message channel_ok ''r'' 10 (phone_envelope phone_notice 2) phone_connected = (Inr (), ct)"
    "tracked ct phone = Some 0" "ct_drawn ct = 1" using phone_handled by blast
  have "ct_drawn ct \<le> u64_modulus" using ct(3) by (simp add: u64_modulus_def)
  from retry_not_delivered_again [OF plain plain le_refl phone_connected_reachable _ ct(1) rtranclp.rtrancl_refl ct(2) this]
  show ?thesis using phone_connected_state ct(2) by blast
qed

theorem reinitialized_connection_is_closed_witness:
  "\<exists>ct1 ct2. handle_message channel_ok ''r'' 50 (phone_envelope phone_initialize 9) phone_connected = (Inr (), ct1)
     \<and> tracked ct1 phone = Some 1
     \<and> close_client channel_ok phone (snd (bookkeep_join_set (phone, 0) ct1)) = (Inr (), ct2) \<and> tracked ct2 phone = None"
proof -
  have "initialize_message phone phone_initialize (phone_envelope phone_initialize 9)"
    by (simp add: initialize_message_def phone_envelope_def phone_initialize_def phone_def)
  from reinitialized_connection_is_closed [OF this, of channel_ok phone_connected 0 "''r''" 50]
  show ?thesis using phone_connected_state by (fastforce simp: u64_modulus_def)
qed
end
