(* ===== verification/Remote_Websocket.thy ===== *)
theory Remote_Websocket
  imports Client_Tracker
begin

text \<open>
  The websocket of the remote-control connection, which comes and goes while the state stays:
  \<^verbatim>\<open>crates/app-server-transport/src/transport/remote_control/websocket.rs\<close>. The outbound buffer keeps
  what the other side has not acknowledged, the writer numbers, splits and buffers what the app server
  sends, the reader filters, reassembles and hands on what clients send. The JSON codecs are
  arguments (\<open>ser\<close> for the envelopes of the writer, \<open>parse\<close> for those of the reader). The
  websocket's frames are the values of \<open>ws_message\<close>.
\<close>

definition channel_capacity :: nat where
  "channel_capacity = 128"

subsection \<open>The outbound buffer\<close>

record 'o outbound_buffer =
  ob_by_stream :: "(client_key, 'o server_envelope list) hash_map"
  ob_used :: nat

definition envelope_key :: "'o server_envelope \<Rightarrow> client_key" where
  "envelope_key e = (sv_client_id e, sv_stream_id e)"

definition envelope_cursor :: "'o server_envelope \<Rightarrow> nat \<times> nat" where
  "envelope_cursor e = (sv_seq_id e, case event_segment_id (sv_event e) of Some s \<Rightarrow> s | None \<Rightarrow> 0)"

definition acked_cursor :: "nat \<Rightarrow> nat option \<Rightarrow> nat \<times> nat" where
  "acked_cursor seq seg = (seq, case seg of Some s \<Rightarrow> s | None \<Rightarrow> u64_max)"

text \<open>Tuples are compared lexicographically.\<close>

fun cursor_le :: "nat \<times> nat \<Rightarrow> nat \<times> nat \<Rightarrow> bool" where
  "cursor_le (a, b) (c, d) = (a < c \<or> (a = c \<and> b \<le> d))"

definition outbound_buffer_new :: "'o outbound_buffer" where
  "outbound_buffer_new = \<lparr>ob_by_stream = [], ob_used = 0\<rparr>"

definition ob_insert :: "'o server_envelope \<Rightarrow> 'o outbound_buffer \<Rightarrow> 'o outbound_buffer" where
  "ob_insert e b =
     (let key = envelope_key e;
          queue = (case hm_get (ob_by_stream b) key of Some q \<Rightarrow> q | None \<Rightarrow> [])
      in b\<lparr>ob_by_stream := hm_insert key (queue @ [e]) (ob_by_stream b), ob_used := ob_used b + 1\<rparr>)"

definition ob_ack :: "client_id \<Rightarrow> stream_id \<Rightarrow> nat \<Rightarrow> nat option \<Rightarrow> 'o outbound_buffer \<Rightarrow> 'o outbound_buffer" where
  "ob_ack cid sid seq seg b =
     (case hm_get (ob_by_stream b) (cid, sid) of
        None \<Rightarrow> b
      | Some queue \<Rightarrow>
          (let is_acked = (\<lambda>e. cursor_le (envelope_cursor e) (acked_cursor seq seg));
               kept = filter (\<lambda>e. \<not> is_acked e) queue
           in b\<lparr>ob_by_stream :=
                  (if kept = [] then hm_remove (cid, sid) (ob_by_stream b)
                   else hm_insert (cid, sid) kept (ob_by_stream b)),
                ob_used := ob_used b - length (filter is_acked queue)\<rparr>))"

definition ob_server_envelopes :: "'o outbound_buffer \<Rightarrow> 'o server_envelope list" where
  "ob_server_envelopes b = concat (map snd (ob_by_stream b))"

subsection \<open>The state that outlives a connection\<close>

record 'o websocket_state =
  ws_outbound_buffer :: "'o outbound_buffer"
  ws_subscribe_cursor :: "string option"
  ws_next_seq_id_by_stream :: "(client_key, nat) hash_map"
  ws_last_completed :: "(client_id \<times> stream_id option, nat) hash_map"
  ws_reassembler :: reassembler

definition websocket_state_new :: "'o websocket_state" where
  "websocket_state_new =
     \<lparr>ws_outbound_buffer = outbound_buffer_new, ws_subscribe_cursor = None, ws_next_seq_id_by_stream = [],
      ws_last_completed = [], ws_reassembler = []\<rparr>"

definition client_message_key :: "'m client_envelope \<Rightarrow> ((client_id \<times> stream_id option) \<times> nat) option" where
  "client_message_key env =
     (case (ce_event env, ce_seq_id env) of
        (ClientMessageChunk _, Some seq) \<Rightarrow> Some ((ce_client_id env, ce_stream_id env), seq)
      | _ \<Rightarrow> None)"

definition already_completed :: "((client_id \<times> stream_id option) \<times> nat) option \<Rightarrow> 'o websocket_state \<Rightarrow> bool" where
  "already_completed mkey ws =
     (case mkey of
        None \<Rightarrow> False
      | Some (key, seq) \<Rightarrow>
          (case hm_get (ws_last_completed ws) key of Some l \<Rightarrow> seq \<le> l | None \<Rightarrow> False))"

definition observe_client_message ::
  "base64_codec \<Rightarrow> (jsonrpc_message, 'o) wire_format \<Rightarrow> nat \<Rightarrow> rc_envelope \<Rightarrow> nat \<Rightarrow> 'o websocket_state
     \<Rightarrow> jsonrpc_message segment_observation \<times> 'o websocket_state" where
  "observe_client_message b64 fmt now env wire_size ws =
     (let mkey = client_message_key env;
          ignored = (case (mkey, ce_stream_id env, ce_event env) of
            (Some (_, seq), Some sid, ClientMessageChunk c) \<Rightarrow>
              should_ignore_chunk (ws_reassembler ws) (ce_client_id env) sid seq (mc_segment_id c)
          | _ \<Rightarrow> False)
      in if already_completed mkey ws then (ObserveDropped, ws)
         else if ignored then (ObserveDropped, ws)
         else if mkey \<noteq> None \<and> wire_size > segment_max_bytes
         then (ObserveDropped,
               case ce_stream_id env of
                 Some sid \<Rightarrow> ws\<lparr>ws_reassembler := invalidate_stream (ce_client_id env) sid (ws_reassembler ws)\<rparr>
               | None \<Rightarrow> ws)
         else (case observe b64 fmt now env (ws_reassembler ws) of
                 (ob, asm) \<Rightarrow> (ob, ws\<lparr>ws_reassembler := asm\<rparr>)))"

definition record_client_message_delivery ::
  "rc_envelope \<Rightarrow> ((client_id \<times> stream_id option) \<times> nat) option \<Rightarrow> 'o websocket_state \<Rightarrow> 'o websocket_state" where
  "record_client_message_delivery env mkey ws =
     (let ws1 = (case ce_cursor env of Some c \<Rightarrow> ws\<lparr>ws_subscribe_cursor := Some c\<rparr> | None \<Rightarrow> ws);
          ws2 = (case mkey of
                   Some (key, seq) \<Rightarrow> ws1\<lparr>ws_last_completed := hm_insert key seq (ws_last_completed ws1)\<rparr>
                 | None \<Rightarrow> ws1)
      in case (ce_event env, ce_seq_id env, ce_stream_id env) of
           (ClientAck seg, Some seq, Some sid) \<Rightarrow>
             ws2\<lparr>ws_outbound_buffer := ob_ack (ce_client_id env) sid seq seg (ws_outbound_buffer ws2)\<rparr>
         | _ \<Rightarrow> ws2)"

definition invalidate_client_message_stream ::
  "client_id \<Rightarrow> stream_id \<Rightarrow> 'o websocket_state \<Rightarrow> 'o websocket_state" where
  "invalidate_client_message_stream cid sid ws =
     ws\<lparr>ws_last_completed := hm_remove (cid, Some sid) (ws_last_completed ws)\<rparr>"

definition invalidate_client_message_client :: "client_id \<Rightarrow> 'o websocket_state \<Rightarrow> 'o websocket_state" where
  "invalidate_client_message_client cid ws =
     ws\<lparr>ws_last_completed := hm_retain (\<lambda>k. fst k \<noteq> cid) (ws_last_completed ws)\<rparr>"

definition forget_stream :: "client_key \<Rightarrow> 'o websocket_state \<Rightarrow> 'o websocket_state" where
  "forget_stream key ws =
     invalidate_client_message_stream (fst key) (snd key)
       (ws\<lparr>ws_reassembler := invalidate_stream (fst key) (snd key) (ws_reassembler ws)\<rparr>)"

subsection \<open>The writer\<close>

record 'o queued_server_envelope =
  qs_event :: "'o server_event"
  qs_client_id :: client_id
  qs_stream_id :: stream_id
  qs_write_complete :: bool

text \<open>
  The task that writes for one client, by what wakes it and what becomes of the send that follows. It
  gives back the client's key when it ends; None while it runs.
\<close>

datatype 'o outbound_wake = WakeDisconnected | WakeWriter "('o \<times> bool) option" | WakeStatus "pong_status option"

datatype outbound_send = SendDone | SendRefused | SendCancelled

definition outbound_event :: "'o outbound_wake \<Rightarrow> ('o server_event \<times> bool) option" where
  "outbound_event wake =
     (case wake of
        WakeDisconnected \<Rightarrow> None
      | WakeWriter None \<Rightarrow> None
      | WakeWriter (Some (m, wants_completion)) \<Rightarrow> Some (ServerMessage m, wants_completion)
      | WakeStatus None \<Rightarrow> None
      | WakeStatus (Some st) \<Rightarrow> Some (ServerPong st, False))"

fun run_client_outbound ::
  "client_key \<Rightarrow> ('o outbound_wake \<times> outbound_send) list \<Rightarrow> 'o queued_server_envelope list \<times> client_key option" where
  "run_client_outbound key [] = ([], None)"
| "run_client_outbound key ((wake, snt) # rest) =
     (case outbound_event wake of
        None \<Rightarrow> ([], Some key)
      | Some (ev, wants_completion) \<Rightarrow>
          if snt = SendDone
          then (case run_client_outbound key rest of
                  (sent, ended) \<Rightarrow>
                    (\<lparr>qs_event = ev, qs_client_id = fst key, qs_stream_id = snd key, qs_write_complete = wants_completion\<rparr> # sent, ended))
          else ([], Some key))"

text \<open>Nothing is reordered, repeated or sent to another stream.\<close>

lemma outbound_in_order:
  "prefix (map qs_event (fst (run_client_outbound key wakes))) (map fst (List.map_filter (outbound_event \<circ> fst) wakes))
   \<and> (\<forall>q \<in> set (fst (run_client_outbound key wakes)). (qs_client_id q, qs_stream_id q) = key)"
proof (induction wakes)
  case (Cons w wakes)
  obtain wake snt where w: "w = (wake, snt)" by (rule prod.exhaust)
  obtain sent ended where r: "run_client_outbound key wakes = (sent, ended)" by (rule prod.exhaust)
  show ?case using Cons by (auto simp: w r List.map_filter_simps split: option.split)
qed simp

text \<open>On a new connection everything still buffered is sent again, except what cannot be serialized.\<close>

definition writer_replay :: "('o server_envelope \<Rightarrow> string option) \<Rightarrow> 'o websocket_state \<Rightarrow> string list" where
  "writer_replay ser ws = List.map_filter ser (ob_server_envelopes (ws_outbound_buffer ws))"

definition outbound_has_capacity :: "'o websocket_state \<Rightarrow> bool" where
  "outbound_has_capacity ws = (ob_used (ws_outbound_buffer ws) < channel_capacity)"

fun buffer_envelopes ::
  "('o server_envelope \<Rightarrow> string option) \<Rightarrow> 'o server_envelope list \<Rightarrow> 'o websocket_state
     \<Rightarrow> string list \<times> 'o websocket_state" where
  "buffer_envelopes ser [] ws = ([], ws)"
| "buffer_envelopes ser (e # es) ws =
     (case ser e of
        None \<Rightarrow> buffer_envelopes ser es ws
      | Some payload \<Rightarrow>
          (case buffer_envelopes ser es (ws\<lparr>ws_outbound_buffer := ob_insert e (ws_outbound_buffer ws)\<rparr>) of
             (payloads, ws') \<Rightarrow> (payload # payloads, ws')))"

text \<open>What the writer does with one envelope while it holds the state; None if it goes back to waiting.\<close>

definition writer_enqueue ::
  "base64_codec \<Rightarrow> (jsonrpc_message, 'o) wire_format \<Rightarrow> ('o server_envelope \<Rightarrow> string option)
     \<Rightarrow> 'o queued_server_envelope \<Rightarrow> 'o websocket_state \<Rightarrow> string list option \<times> 'o websocket_state" where
  "writer_enqueue b64 fmt ser q ws =
     (let key = (qs_client_id q, qs_stream_id q);
          seq = (case hm_get (ws_next_seq_id_by_stream ws) key of Some s \<Rightarrow> s | None \<Rightarrow> 1);
          ws1 = ws\<lparr>ws_next_seq_id_by_stream := hm_insert key seq (ws_next_seq_id_by_stream ws)\<rparr>;
          env = \<lparr>sv_event = qs_event q, sv_client_id = qs_client_id q, sv_stream_id = qs_stream_id q, sv_seq_id = seq\<rparr>
      in case split_server_envelope_for_transport b64 fmt env of
           Inl _ \<Rightarrow> (None, ws1)
         | Inr envs \<Rightarrow>
             (case buffer_envelopes ser envs ws1 of
                (payloads, ws2) \<Rightarrow>
                  (Some payloads,
                   ws2\<lparr>ws_next_seq_id_by_stream := hm_insert key (u64_sat_succ seq) (ws_next_seq_id_by_stream ws2)\<rparr>)))"

subsection \<open>The reader\<close>

definition pong_timeout_default :: nat where
  "pong_timeout_default = 60 * 1000"

datatype ws_message = WsText string | WsPong | WsPing | WsFrame | WsBinary | WsClose

datatype reader_exit = ReaderContinues | ReaderStops | ReaderFails io_error

record 'o reader_state =
  rd_ws :: "'o websocket_state"
  rd_tracker :: client_tracker
  rd_pong_deadline :: nat

definition reader_envelope ::
  "base64_codec \<Rightarrow> (jsonrpc_message, 'o) wire_format \<Rightarrow> (nat \<Rightarrow> send_outcome) \<Rightarrow> stream_id \<Rightarrow> nat
     \<Rightarrow> rc_envelope \<Rightarrow> nat \<Rightarrow> 'o reader_state \<Rightarrow> reader_exit \<times> 'o reader_state" where
  "reader_envelope b64 fmt out rnd now env wire_size rd =
     (case observe_client_message b64 fmt now env wire_size (rd_ws rd) of
        (ForwardEnvelope env', ws1) \<Rightarrow>
          (case handle_message out rnd now env' (rd_tracker rd) of
             (Inl _, ct) \<Rightarrow> (ReaderStops, rd\<lparr>rd_ws := ws1, rd_tracker := ct\<rparr>)
           | (Inr _, ct) \<Rightarrow>
               (let ws2 = record_client_message_delivery env' (client_message_key env) ws1;
                    ws3 = (if ce_event env' = ClientClosed
                           then (case ce_stream_id env' of
                                   Some sid \<Rightarrow> forget_stream (ce_client_id env', sid) ws2
                                 | None \<Rightarrow>
                                     invalidate_client_message_client (ce_client_id env')
                                       (ws2\<lparr>ws_reassembler := invalidate_client (ce_client_id env') (ws_reassembler ws2)\<rparr>))
                           else ws2)
                in (ReaderContinues, rd\<lparr>rd_ws := ws3, rd_tracker := ct\<rparr>)))
      | (_, ws1) \<Rightarrow> (ReaderContinues, rd\<lparr>rd_ws := ws1\<rparr>))"

definition reader_incoming ::
  "base64_codec \<Rightarrow> (jsonrpc_message, 'o) wire_format \<Rightarrow> (string \<Rightarrow> rc_envelope option) \<Rightarrow> (nat \<Rightarrow> send_outcome)
     \<Rightarrow> stream_id \<Rightarrow> nat \<Rightarrow> nat \<Rightarrow> (string + ws_message) option \<Rightarrow> 'o reader_state \<Rightarrow> reader_exit \<times> 'o reader_state" where
  "reader_incoming b64 fmt parse out rnd now pong_timeout incoming rd =
     (case incoming of
        None \<Rightarrow> (ReaderFails \<lparr>ioe_kind = UnexpectedEof, ioe_message = ''websocket stream ended''\<rparr>, rd)
      | Some (Inl err) \<Rightarrow>
          (ReaderFails \<lparr>ioe_kind = InvalidData, ioe_message = ''failed to read from websocket: '' @ err\<rparr>, rd)
      | Some (Inr (WsText txt)) \<Rightarrow>
          (case parse txt of
             None \<Rightarrow> (ReaderContinues, rd)
           | Some env \<Rightarrow> reader_envelope b64 fmt out rnd now env (length txt) rd)
      | Some (Inr WsPong) \<Rightarrow> (ReaderContinues, rd\<lparr>rd_pong_deadline := now + pong_timeout\<rparr>)
      | Some (Inr WsPing) \<Rightarrow> (ReaderContinues, rd)
      | Some (Inr WsFrame) \<Rightarrow> (ReaderContinues, rd)
      | Some (Inr WsBinary) \<Rightarrow> (ReaderContinues, rd)
      | Some (Inr WsClose) \<Rightarrow>
          (ReaderFails \<lparr>ioe_kind = ConnectionAborted, ioe_message = ''websocket disconnected''\<rparr>, rd))"

definition reader_pong_deadline :: "nat \<Rightarrow> 'o reader_state \<Rightarrow> reader_exit" where
  "reader_pong_deadline now rd =
     (if rd_pong_deadline rd \<le> now
      then ReaderFails \<lparr>ioe_kind = TimedOut, ioe_message = ''remote control websocket pong timeout''\<rparr>
      else ReaderContinues)"

definition reader_task_ended ::
  "(nat \<Rightarrow> send_outcome) \<Rightarrow> client_key \<times> nat \<Rightarrow> 'o reader_state \<Rightarrow> reader_exit \<times> 'o reader_state" where
  "reader_task_ended out task rd =
     (case bookkeep_join_set task (rd_tracker rd) of
        (key, ct) \<Rightarrow>
          (case close_client out key ct of
             (Inl _, ct1) \<Rightarrow> (ReaderStops, rd\<lparr>rd_tracker := ct1\<rparr>)
           | (Inr _, ct1) \<Rightarrow>
               (ReaderContinues, rd\<lparr>rd_tracker := ct1, rd_ws := forget_stream key (rd_ws rd)\<rparr>)))"

definition reader_idle_sweep ::
  "(nat \<Rightarrow> send_outcome) \<Rightarrow> nat \<Rightarrow> 'o reader_state \<Rightarrow> reader_exit \<times> 'o reader_state" where
  "reader_idle_sweep out now rd =
     (case close_expired_clients out now (rd_tracker rd) of
        (Inl _, ct) \<Rightarrow> (ReaderStops, rd\<lparr>rd_tracker := ct\<rparr>)
      | (Inr keys, ct) \<Rightarrow>
          (ReaderContinues, rd\<lparr>rd_tracker := ct, rd_ws := fold forget_stream keys (rd_ws rd)\<rparr>))"

subsection \<open>What the buffer means\<close>

text \<open>
  The history of a link: what was put into the buffer and what was acknowledged. An envelope is
  outstanding if no later acknowledgement of its stream covers it.
\<close>

datatype 'o link_event = LogSent "'o server_envelope" | LogAcked client_key nat "nat option"

fun covers :: "'o link_event \<Rightarrow> 'o server_envelope \<Rightarrow> bool" where
  "covers (LogAcked key seq seg) e = (envelope_key e = key \<and> cursor_le (envelope_cursor e) (acked_cursor seq seg))"
| "covers (LogSent _) e = False"

fun outstanding :: "'o link_event list \<Rightarrow> 'o server_envelope list" where
  "outstanding [] = []"
| "outstanding (LogSent e # later) = (if list_ex (\<lambda>a. covers a e) later then [] else [e]) @ outstanding later"
| "outstanding (LogAcked _ _ _ # later) = outstanding later"

fun sent :: "'o link_event list \<Rightarrow> 'o server_envelope list" where
  "sent [] = []"
| "sent (LogSent e # later) = e # sent later"
| "sent (LogAcked _ _ _ # later) = sent later"

lemma outstanding_sent: "outstanding (log @ [LogSent e]) = outstanding log @ [e]"
  by (induction log rule: outstanding.induct) auto

lemma outstanding_acked:
  "outstanding (log @ [LogAcked key seq seg]) = filter (\<lambda>e. \<not> covers (LogAcked key seq seg) e) (outstanding log)"
  by (induction log rule: outstanding.induct) auto

lemma sent_append [simp]: "sent (log @ log') = sent log @ sent log'"
  by (induction log rule: sent.induct) auto

lemma sent_map_LogSent [simp]: "sent (map LogSent es) = es"
  by (induction es) auto

lemma outstanding_subseq: "subseq (outstanding log) (sent log)"
  by (induction log rule: outstanding.induct) auto

lemma sorted_wrt_subseq: "subseq xs ys \<Longrightarrow> sorted_wrt P ys \<Longrightarrow> sorted_wrt P xs"
proof (induction rule: list_emb.induct)
  case (list_emb_Cons2 x y xs ys)
  then show ?case by (auto elim!: list_emb_set)
qed auto

definition queue_of :: "'o outbound_buffer \<Rightarrow> client_key \<Rightarrow> 'o server_envelope list" where
  "queue_of b key = (case hm_get (ob_by_stream b) key of Some q \<Rightarrow> q | None \<Rightarrow> [])"

definition of_stream :: "client_key \<Rightarrow> 'o server_envelope list \<Rightarrow> 'o server_envelope list" where
  "of_stream key es = filter (\<lambda>e. envelope_key e = key) es"

lemma of_stream_simps [simp]:
  "of_stream key [] = []"
  "of_stream key (e # es) = (if envelope_key e = key then e # of_stream key es else of_stream key es)"
  "of_stream key (es @ es') = of_stream key es @ of_stream key es'"
  by (simp_all add: of_stream_def)

definition buffer_holds :: "'o link_event list \<Rightarrow> 'o outbound_buffer \<Rightarrow> bool" where
  "buffer_holds log b \<longleftrightarrow>
     hm_wf (ob_by_stream b) \<and> ob_used b = length (outstanding log)
     \<and> queue_of b = (\<lambda>key. of_stream key (outstanding log))"

lemma queue_of_insert:
  "queue_of (ob_insert e b) key = (if key = envelope_key e then queue_of b key @ [e] else queue_of b key)"
  by (auto simp: ob_insert_def queue_of_def Let_def container_simps split: option.split)

lemma queue_of_ack:
  "queue_of (ob_ack cid sid seq seg b) key =
     (if key = (cid, sid)
      then filter (\<lambda>e. \<not> cursor_le (envelope_cursor e) (acked_cursor seq seg)) (queue_of b key)
      else queue_of b key)"
  by (auto simp: ob_ack_def queue_of_def Let_def container_simps split: option.split)

lemma buffer_holds_insert: "buffer_holds log b \<Longrightarrow> buffer_holds (log @ [LogSent e]) (ob_insert e b)"
proof -
  assume b: "buffer_holds log b"
  have "queue_of (ob_insert e b) key = of_stream key (outstanding (log @ [LogSent e]))" for key
    using b by (simp add: buffer_holds_def outstanding_sent queue_of_insert)
  moreover have "hm_wf (ob_by_stream (ob_insert e b)) \<and> ob_used (ob_insert e b) = length (outstanding (log @ [LogSent e]))"
    using b by (simp add: buffer_holds_def outstanding_sent ob_insert_def Let_def)
  ultimately show ?thesis unfolding buffer_holds_def by blast
qed

lemma length_filter_split: "length (filter P xs) + length (filter (\<lambda>x. \<not> P x) xs) = length xs"
  by (induction xs) auto

lemma buffer_holds_ack:
  assumes "buffer_holds log b"
  shows "buffer_holds (log @ [LogAcked (cid, sid) seq seg]) (ob_ack cid sid seq seg b)"
proof -
  let ?P = "\<lambda>e. cursor_le (envelope_cursor e) (acked_cursor seq seg)"
  let ?C = "covers (LogAcked (cid, sid) seq seg)"
  have q: "queue_of b key = of_stream key (outstanding log)" for key using assms by (simp add: buffer_holds_def)
  have cov: "filter ?C es = filter ?P (of_stream (cid, sid) es)" for es :: "'a server_envelope list"
    by (auto simp: of_stream_def intro: filter_cong)
  have queues: "queue_of (ob_ack cid sid seq seg b) key = of_stream key (filter (\<lambda>e. \<not> ?C e) (outstanding log))" for key
    unfolding queue_of_ack q of_stream_def by (auto intro: filter_cong)
  have "ob_used (ob_ack cid sid seq seg b) = ob_used b - length (filter ?P (queue_of b (cid, sid)))"
    by (auto simp: ob_ack_def queue_of_def Let_def split: option.split)
  also have "\<dots> = length (filter (\<lambda>e. \<not> ?C e) (outstanding log))"
    using length_filter_split [of ?C "outstanding log"] assms unfolding q cov [symmetric] buffer_holds_def by simp
  finally have "ob_used (ob_ack cid sid seq seg b) = length (filter (\<lambda>e. \<not> ?C e) (outstanding log))" .
  moreover have "hm_wf (ob_by_stream (ob_ack cid sid seq seg b))"
    using assms by (auto simp: buffer_holds_def ob_ack_def Let_def split: option.split)
  ultimately show ?thesis using queues unfolding buffer_holds_def outstanding_acked by blast
qed
subsection \<open>Numbering\<close>

definition sent_before :: "'o server_envelope \<Rightarrow> 'o server_envelope \<Rightarrow> bool" where
  "sent_before a b \<longleftrightarrow> sv_seq_id a < sv_seq_id b \<or>
     (sv_seq_id a = sv_seq_id b \<and>
       (\<exists>i j. event_segment_id (sv_event a) = Some i \<and> event_segment_id (sv_event b) = Some j \<and> i < j))"

definition addressed :: "client_key \<Rightarrow> nat \<Rightarrow> 'o server_envelope list \<Rightarrow> bool" where
  "addressed key seq es \<longleftrightarrow>
     (\<forall>e \<in> set es. envelope_key e = key \<and> sv_seq_id e = seq) \<and> sorted_wrt sent_before es \<and> length es \<le> segment_count_max"

lemma addressed_filter: "addressed key seq es \<Longrightarrow> addressed key seq (filter P es)"
  using sorted_wrt_filter [of sent_before es P] le_trans [OF length_filter_le [of P es]] by (auto simp: addressed_def)

lemma segmentation_addressed:
  assumes "segmentation b64 fmt env raw segs"
  shows "addressed (envelope_key env) (sv_seq_id env) segs"
proof -
  obtain cs where cs: "length cs \<le> segment_count_max"
    "segs = map (\<lambda>(i, c). chunk_envelope b64 env i (length cs) (length raw) c) (enumerate 0 cs)"
    using assms unfolding segmentation_def by blast
  have "sorted_wrt sent_before segs"
    unfolding cs(2) sorted_wrt_iff_nth_less
    by (auto simp: nth_enumerate_eq chunk_envelope_def sent_before_def)
  moreover have "\<forall>e \<in> set segs. envelope_key e = envelope_key env \<and> sv_seq_id e = sv_seq_id env"
    unfolding cs(2) by (auto simp: chunk_envelope_def envelope_key_def)
  ultimately show ?thesis using cs(1) unfolding addressed_def cs(2) by simp
qed

lemma split_addressed:
  assumes "split_server_envelope_for_transport b64 fmt env = Inr envs"
  shows "addressed (envelope_key env) (sv_seq_id env) envs"
proof -
  have one: "addressed (envelope_key env) (sv_seq_id env) [env]"
    by (simp add: addressed_def segment_count_max_def)
  have none: "addressed (envelope_key env) (sv_seq_id env) []" by (simp add: addressed_def)
  have loop: "addressed (envelope_key env) (sv_seq_id env) segs"
    if "split_loop b64 fmt env raw count = Inr segs" for raw count segs
  proof (cases "raw = []")
    case True
    then have "segs = []" using that by (subst (asm) split_loop.simps) (simp add: Let_def)
    then show ?thesis using none by simp
  next
    case False
    then show ?thesis
      using that split_loop_segmentation [OF False, of b64 fmt env count] segmentation_addressed none by force
  qed
  show ?thesis
    using assms one none loop
    by (auto simp: split_server_envelope_for_transport_def Let_def split: server_event.splits sum.splits if_splits)
qed

definition next_seq :: "'o websocket_state \<Rightarrow> client_key \<Rightarrow> nat" where
  "next_seq ws key = (case hm_get (ws_next_seq_id_by_stream ws) key of Some s \<Rightarrow> s | None \<Rightarrow> 1)"

definition queued_envelope :: "'o queued_server_envelope \<Rightarrow> 'o websocket_state \<Rightarrow> 'o server_envelope" where
  "queued_envelope q ws =
     \<lparr>sv_event = qs_event q, sv_client_id = qs_client_id q, sv_stream_id = qs_stream_id q,
      sv_seq_id = next_seq ws (qs_client_id q, qs_stream_id q)\<rparr>"

text \<open>The envelopes one turn of the writer buffers.\<close>

definition enqueued ::
  "base64_codec \<Rightarrow> (jsonrpc_message, 'o) wire_format \<Rightarrow> ('o server_envelope \<Rightarrow> string option)
     \<Rightarrow> 'o queued_server_envelope \<Rightarrow> 'o websocket_state \<Rightarrow> 'o server_envelope list" where
  "enqueued b64 fmt ser q ws =
     (case split_server_envelope_for_transport b64 fmt (queued_envelope q ws) of
        Inl _ \<Rightarrow> []
      | Inr envs \<Rightarrow> filter (\<lambda>e. ser e \<noteq> None) envs)"

lemma buffer_envelopes_state:
  "snd (buffer_envelopes ser es ws) =
     ws\<lparr>ws_outbound_buffer := fold ob_insert (filter (\<lambda>e. ser e \<noteq> None) es) (ws_outbound_buffer ws)\<rparr>"
  by (induction es arbitrary: ws) (auto split: option.split prod.split simp: prod_eq_iff)

lemma writer_enqueue_eq:
  "writer_enqueue b64 fmt ser q ws =
     (let key = (qs_client_id q, qs_stream_id q); seq = next_seq ws key in
      case split_server_envelope_for_transport b64 fmt (queued_envelope q ws) of
        Inl _ \<Rightarrow> (None, ws\<lparr>ws_next_seq_id_by_stream := hm_insert key seq (ws_next_seq_id_by_stream ws)\<rparr>)
      | Inr envs \<Rightarrow>
          (Some (fst (buffer_envelopes ser envs
             (ws\<lparr>ws_next_seq_id_by_stream := hm_insert key seq (ws_next_seq_id_by_stream ws)\<rparr>))),
           ws\<lparr>ws_outbound_buffer := fold ob_insert (enqueued b64 fmt ser q ws) (ws_outbound_buffer ws),
              ws_next_seq_id_by_stream :=
                hm_insert key (u64_sat_succ seq) (hm_insert key seq (ws_next_seq_id_by_stream ws))\<rparr>))"
  unfolding writer_enqueue_def enqueued_def queued_envelope_def next_seq_def Let_def case_prod_beta buffer_envelopes_state
  by (simp split: sum.split)

lemma writer_enqueue_buffer:
  "ws_outbound_buffer (snd (writer_enqueue b64 fmt ser q ws)) =
     fold ob_insert (enqueued b64 fmt ser q ws) (ws_outbound_buffer ws)"
  by (simp add: writer_enqueue_eq Let_def enqueued_def split: sum.split)

lemma next_seq_enqueue:
  "next_seq (snd (writer_enqueue b64 fmt ser q ws)) key =
     (if key = (qs_client_id q, qs_stream_id q) \<and> \<not> isl (split_server_envelope_for_transport b64 fmt (queued_envelope q ws))
      then u64_sat_succ (next_seq ws key) else next_seq ws key)"
  by (auto simp: writer_enqueue_eq Let_def next_seq_def container_simps split: sum.split option.split)

lemma buffer_holds_inserts:
  "buffer_holds log b \<Longrightarrow> buffer_holds (log @ map LogSent es) (fold ob_insert es b)"
proof (induction es arbitrary: log b)
  case (Cons e es)
  then show ?case using Cons(1) [OF buffer_holds_insert [OF Cons(2)]] by simp
qed simp

lemma enqueued_addressed:
  "addressed (qs_client_id q, qs_stream_id q) (next_seq ws (qs_client_id q, qs_stream_id q)) (enqueued b64 fmt ser q ws)"
proof (cases "split_server_envelope_for_transport b64 fmt (queued_envelope q ws)")
  case (Inl e)
  then show ?thesis by (simp add: enqueued_def addressed_def)
next
  case (Inr envs)
  then show ?thesis
    using addressed_filter [OF split_addressed [OF Inr]] by (simp add: enqueued_def queued_envelope_def envelope_key_def)
qed
subsection \<open>Runs of a link, across any number of connections\<close>

definition ack_events :: "rc_envelope \<Rightarrow> 'o link_event list" where
  "ack_events env =
     (case (ce_event env, ce_seq_id env, ce_stream_id env) of
        (ClientAck seg, Some seq, Some sid) \<Rightarrow> [LogAcked (ce_client_id env, sid) seq seg]
      | _ \<Rightarrow> [])"

inductive link_step ::
  "base64_codec \<Rightarrow> (jsonrpc_message, 'o) wire_format \<Rightarrow> ('o server_envelope \<Rightarrow> string option)
     \<Rightarrow> 'o link_event list \<times> 'o websocket_state \<Rightarrow> 'o link_event list \<times> 'o websocket_state \<Rightarrow> bool"
  for b64 fmt ser where
  step_enqueue: "outbound_has_capacity ws \<Longrightarrow>
    link_step b64 fmt ser (log, ws)
      (log @ map LogSent (enqueued b64 fmt ser q ws), snd (writer_enqueue b64 fmt ser q ws))"
| step_observed: "link_step b64 fmt ser (log, ws) (log, snd (observe_client_message b64 fmt now env wire_size ws))"
| step_delivered: "link_step b64 fmt ser (log, ws) (log @ ack_events env, record_client_message_delivery env mkey ws)"
| step_forget_stream: "link_step b64 fmt ser (log, ws) (log, forget_stream key ws)"
| step_forget_client: "link_step b64 fmt ser (log, ws)
    (log, invalidate_client_message_client cid (ws\<lparr>ws_reassembler := invalidate_client cid (ws_reassembler ws)\<rparr>))"

definition link_start :: "'o link_event list \<times> 'o websocket_state \<Rightarrow> bool" where
  "link_start s \<longleftrightarrow> s = ([], websocket_state_new)"

definition numbered :: "'o link_event list \<Rightarrow> 'o websocket_state \<Rightarrow> client_key \<Rightarrow> bool" where
  "numbered log ws key \<longleftrightarrow>
     (next_seq ws key < u64_max \<longrightarrow>
        sorted_wrt sent_before (of_stream key (sent log))
        \<and> (\<forall>e \<in> set (of_stream key (sent log)). sv_seq_id e < next_seq ws key))"

definition all_numbered :: "'o link_event list \<Rightarrow> 'o websocket_state \<Rightarrow> bool" where
  "all_numbered log ws \<longleftrightarrow> (\<forall>key. numbered log ws key)"

definition link_inv :: "'o link_event list \<times> 'o websocket_state \<Rightarrow> bool" where
  "link_inv s \<longleftrightarrow>
     buffer_holds (fst s) (ws_outbound_buffer (snd s)) \<and> all_numbered (fst s) (snd s)
     \<and> ob_used (ws_outbound_buffer (snd s)) < channel_capacity + segment_count_max"

lemma of_stream_addressed: "addressed key seq es \<Longrightarrow> of_stream key' es = (if key' = key then es else [])"
  by (auto simp: addressed_def of_stream_def filter_id_conv filter_empty_conv)

lemma numbered_enqueue:
  assumes "numbered log ws key"
  shows "numbered (log @ map LogSent (enqueued b64 fmt ser q ws)) (snd (writer_enqueue b64 fmt ser q ws)) key"
proof -
  let ?new = "enqueued b64 fmt ser q ws" and ?ws = "snd (writer_enqueue b64 fmt ser q ws)"
  let ?key = "(qs_client_id q, qs_stream_id q)"
  have new: "addressed ?key (next_seq ws ?key) ?new" by (rule enqueued_addressed)
  show ?thesis
  proof (cases "key = ?key \<and> \<not> isl (split_server_envelope_for_transport b64 fmt (queued_envelope q ws))")
    case True
    then have n: "next_seq ?ws key = u64_sat_succ (next_seq ws key)" by (simp add: next_seq_enqueue)
    have streams: "of_stream key ?new = ?new" using of_stream_addressed [OF new] True by simp
    show ?thesis
      unfolding numbered_def n
    proof
      assume "u64_sat_succ (next_seq ws key) < u64_max"
      then have lt: "next_seq ws key < u64_max" "u64_sat_succ (next_seq ws key) = Suc (next_seq ws key)"
        by (auto simp: u64_sat_succ_def split: if_splits)
      have new': "\<forall>e \<in> set ?new. sv_seq_id e = next_seq ws key" "sorted_wrt sent_before ?new"
        using new True unfolding addressed_def by auto
      have old: "sorted_wrt sent_before (of_stream key (sent log))"
        "\<forall>e \<in> set (of_stream key (sent log)). sv_seq_id e < next_seq ws key"
        using assms lt(1) by (auto simp: numbered_def)
      have "sorted_wrt sent_before (of_stream key (sent log) @ ?new)"
        unfolding sorted_wrt_append using old new' by (auto simp: sent_before_def)
      then show "sorted_wrt sent_before (of_stream key (sent (log @ map LogSent ?new)))
          \<and> (\<forall>e \<in> set (of_stream key (sent (log @ map LogSent ?new))). sv_seq_id e < u64_sat_succ (next_seq ws key))"
        using old(2) new'(1) lt(2) by (auto simp: streams less_Suc_eq)
    qed
  next
    case False
    then have n: "next_seq ?ws key = next_seq ws key" by (auto simp: next_seq_enqueue)
    have "of_stream key ?new = []"
    proof (cases "key = ?key")
      case True
      then have "?new = []" using False by (auto simp: enqueued_def isl_def split: sum.split)
      then show ?thesis by simp
    qed (use of_stream_addressed [OF new] in simp)
    then show ?thesis using assms unfolding numbered_def n by simp
  qed
qed

lemma link_inv_enqueue:
  assumes "link_inv (log, ws)" and "outbound_has_capacity ws"
  shows "link_inv (log @ map LogSent (enqueued b64 fmt ser q ws), snd (writer_enqueue b64 fmt ser q ws))"
proof -
  let ?new = "enqueued b64 fmt ser q ws" and ?ws = "snd (writer_enqueue b64 fmt ser q ws)"
  have "buffer_holds (log @ map LogSent ?new) (ws_outbound_buffer ?ws)"
    unfolding writer_enqueue_buffer using assms(1) by (auto simp: link_inv_def intro: buffer_holds_inserts)
  moreover have "ob_used (ws_outbound_buffer ?ws) = ob_used (ws_outbound_buffer ws) + length ?new"
  proof -
    have "ob_used (fold ob_insert es b) = ob_used b + length es" for es and b :: "'a outbound_buffer"
      by (induction es arbitrary: b) (auto simp: ob_insert_def Let_def)
    then show ?thesis by (simp add: writer_enqueue_buffer)
  qed
  moreover have "length ?new \<le> segment_count_max" using enqueued_addressed [of q ws b64 fmt ser] unfolding addressed_def by blast
  moreover have "all_numbered (log @ map LogSent ?new) ?ws"
    using assms(1) numbered_enqueue unfolding link_inv_def all_numbered_def fst_conv snd_conv by blast
  ultimately show ?thesis using assms by (simp add: link_inv_def outbound_has_capacity_def)
qed

lemma numbered_same:
  "all_numbered log ws \<Longrightarrow> sent log' = sent log \<Longrightarrow> ws_next_seq_id_by_stream ws' = ws_next_seq_id_by_stream ws \<Longrightarrow>
     all_numbered log' ws'"
  unfolding all_numbered_def numbered_def next_seq_def by presburger

lemma link_inv_quiet:
  "link_inv (log, ws) \<Longrightarrow> ws_outbound_buffer ws' = ws_outbound_buffer ws \<Longrightarrow>
     ws_next_seq_id_by_stream ws' = ws_next_seq_id_by_stream ws \<Longrightarrow> link_inv (log, ws')"
  unfolding link_inv_def using numbered_same [of log ws log ws'] by simp

lemma record_delivery_state:
  "ws_next_seq_id_by_stream (record_client_message_delivery env mkey ws) = ws_next_seq_id_by_stream ws"
  "ws_outbound_buffer (record_client_message_delivery env mkey ws) =
     (case (ce_event env, ce_seq_id env, ce_stream_id env) of
        (ClientAck seg, Some seq, Some sid) \<Rightarrow> ob_ack (ce_client_id env) sid seq seg (ws_outbound_buffer ws)
      | _ \<Rightarrow> ws_outbound_buffer ws)"
  by (auto simp: record_client_message_delivery_def Let_def split: client_event.splits option.splits)

lemma ob_ack_used: "ob_used (ob_ack cid sid seq seg b) \<le> ob_used b"
  by (simp add: ob_ack_def Let_def split: option.split)

lemma link_inv_delivered:
  assumes "link_inv (log, ws)"
  shows "link_inv (log @ ack_events env, record_client_message_delivery env mkey ws)"
proof (cases "\<exists>seg seq sid. ce_event env = ClientAck seg \<and> ce_seq_id env = Some seq \<and> ce_stream_id env = Some sid")
  case True
  then obtain seg seq sid where e: "ce_event env = ClientAck seg" "ce_seq_id env = Some seq" "ce_stream_id env = Some sid"
    by blast
  have a: "ack_events env = [LogAcked (ce_client_id env, sid) seq seg]" using e by (simp add: ack_events_def)
  have n: "all_numbered (log @ ack_events env) (record_client_message_delivery env mkey ws)"
    using assms numbered_same [of log ws "log @ ack_events env" "record_client_message_delivery env mkey ws"]
    by (simp add: link_inv_def a record_delivery_state)
  show ?thesis
    using assms buffer_holds_ack [of log "ws_outbound_buffer ws" "ce_client_id env" sid seq seg]
      le_less_trans [OF ob_ack_used [of "ce_client_id env" sid seq seg "ws_outbound_buffer ws"]] n
    by (simp add: link_inv_def record_delivery_state e a)
next
  case False
  then have "ack_events env = ([] :: 'a link_event list)"
    by (auto simp: ack_events_def split: client_event.splits option.splits)
  moreover have "ws_outbound_buffer (record_client_message_delivery env mkey ws) = ws_outbound_buffer ws"
    using False by (auto simp: record_delivery_state split: client_event.splits option.splits)
  ultimately show ?thesis using link_inv_quiet [OF assms] by (simp add: record_delivery_state)
qed

lemma observe_client_message_quiet:
  "ws_outbound_buffer (snd (observe_client_message b64 fmt now env wire_size ws)) = ws_outbound_buffer ws"
  "ws_next_seq_id_by_stream (snd (observe_client_message b64 fmt now env wire_size ws)) = ws_next_seq_id_by_stream ws"
  by (auto simp: observe_client_message_def Let_def split: prod.split option.split)

lemma link_inv_step: "link_step b64 fmt ser s t \<Longrightarrow> link_inv s \<Longrightarrow> link_inv t"
proof (induction rule: link_step.induct)
  case (step_enqueue ws log q)
  then show ?case by (intro link_inv_enqueue)
next
  case (step_observed log ws now env wire_size)
  then show ?case using link_inv_quiet observe_client_message_quiet by blast
next
  case (step_delivered log ws env mkey)
  then show ?case by (rule link_inv_delivered)
next
  case (step_forget_stream log ws key)
  then show ?case
    by (rule link_inv_quiet) (simp_all add: forget_stream_def invalidate_client_message_stream_def)
next
  case (step_forget_client log ws cid)
  then show ?case
    by (rule link_inv_quiet) (simp_all add: invalidate_client_message_client_def)
qed

lemma link_inv_start: "link_start s \<Longrightarrow> link_inv s"
  by (auto simp: link_start_def link_inv_def websocket_state_new_def outbound_buffer_new_def buffer_holds_def
      queue_of_def all_numbered_def numbered_def channel_capacity_def)

interpretation link_run: transition_invariant link_start "link_step b64 fmt ser" link_inv for b64 fmt ser
  by unfold_locales (rule link_inv_start, assumption, rule link_inv_step)
lemma of_stream_concat:
  assumes "hm_wf m" and "\<And>k q. hm_get m k = Some q \<Longrightarrow> \<forall>e \<in> set q. envelope_key e = k"
  shows "of_stream key (concat (map snd m)) = (case hm_get m key of Some q \<Rightarrow> q | None \<Rightarrow> [])"
  using assms
proof (induction m)
  case (Cons kq m)
  obtain k q where kq: "kq = (k, q)" by (rule prod.exhaust)
  have wf': "hm_wf m" and k: "hm_get m k = None"
    using Cons(2) by (auto simp: hm_wf_def kq map_of_eq_None_iff)
  have "\<forall>e \<in> set q'. envelope_key e = k'" if "hm_get m k' = Some q'" for k' q'
  proof -
    have "k' \<noteq> k" using that k by auto
    then have "hm_get (kq # m) k' = Some q'" using that by (simp add: kq)
    then show ?thesis by (rule Cons(3))
  qed
  note ih = Cons(1) [OF wf' this]
  have "\<forall>e \<in> set q. envelope_key e = k" using Cons(3) [of k q] by (simp add: kq)
  then have "of_stream key q = (if key = k then q else [])" by (auto simp: of_stream_def filter_id_conv filter_empty_conv)
  then show ?case using ih k by (simp add: kq)
qed simp

lemma buffer_holds_envelopes:
  assumes "buffer_holds log b"
  shows "of_stream key (ob_server_envelopes b) = of_stream key (outstanding log)"
proof -
  have q: "queue_of b k = of_stream k (outstanding log)" for k using assms unfolding buffer_holds_def by presburger
  have "\<forall>e \<in> set qu. envelope_key e = k" if "hm_get (ob_by_stream b) k = Some qu" for k qu
    using q [of k] that by (simp add: queue_of_def of_stream_def)
  then have "of_stream key (ob_server_envelopes b) = queue_of b key"
    using of_stream_concat [of "ob_by_stream b" key] assms unfolding ob_server_envelopes_def queue_of_def buffer_holds_def by blast
  then show ?thesis using q by simp
qed

text \<open>
  C6. The outbound buffer loses nothing and keeps nothing too long, however often the websocket is lost:
  at any moment the envelopes that a new connection would send again are, stream by stream and in the
  order they were first sent, exactly those that no later acknowledgement covers.
\<close>

theorem unacknowledged_envelopes_are_kept:
  assumes "reachable_from link_start (link_step b64 fmt ser) (log, ws)"
  shows "of_stream key (ob_server_envelopes (ws_outbound_buffer ws)) = of_stream key (outstanding log)"
  using link_run.inv_reachable [OF assms] buffer_holds_envelopes unfolding link_inv_def fst_conv snd_conv by blast

text \<open>
  The counter that holds the writer back counts what is buffered, and the buffer is bounded: the
  writer takes a message only below 128 envelopes, and one message makes at most 1024.
\<close>

theorem outbound_buffer_bounded:
  assumes "reachable_from link_start (link_step b64 fmt ser) (log, ws)"
  shows "ob_used (ws_outbound_buffer ws) = length (outstanding log)
    \<and> ob_used (ws_outbound_buffer ws) < channel_capacity + segment_count_max"
  using link_run.inv_reachable [OF assms] unfolding link_inv_def buffer_holds_def fst_conv snd_conv by blast

text \<open>
  Acknowledging an envelope, by its sequence number and, for a segment, its segment number, releases
  exactly that envelope and those sent before it on the stream; later ones and other streams stay.
\<close>

theorem acknowledgement_releases_prefix:
  assumes "reachable_from link_start (link_step b64 fmt ser) (log, ws)" and "next_seq ws key < u64_max"
    and "queue_of (ws_outbound_buffer ws) key = earlier @ e # later"
    and "acked = ob_ack (fst key) (snd key) (sv_seq_id e) (event_segment_id (sv_event e)) (ws_outbound_buffer ws)"
  shows "queue_of acked key = later \<and> (\<forall>key'. key' \<noteq> key \<longrightarrow> queue_of acked key' = queue_of (ws_outbound_buffer ws) key')"
proof -
  have inv: "buffer_holds log (ws_outbound_buffer ws)" "numbered log ws key"
    using link_run.inv_reachable [OF assms(1)] unfolding link_inv_def all_numbered_def fst_conv snd_conv by blast+
  have "subseq (of_stream key (outstanding log)) (of_stream key (sent log))"
    unfolding of_stream_def by (rule subseq_filter [OF outstanding_subseq])
  then have "sorted_wrt sent_before (of_stream key (outstanding log))"
    using inv(2) assms(2) sorted_wrt_subseq unfolding numbered_def by blast
  then have "sorted_wrt sent_before (earlier @ e # later)"
    using inv(1) assms(3) unfolding buffer_holds_def by simp
  then have order: "\<forall>a \<in> set earlier. sent_before a e" "\<forall>b \<in> set later. sent_before e b"
    by (auto simp: sorted_wrt_append)
  let ?acked = "\<lambda>x. cursor_le (envelope_cursor x) (acked_cursor (sv_seq_id e) (event_segment_id (sv_event e)))"
  have e: "?acked e" by (simp add: envelope_cursor_def acked_cursor_def split: option.split)
  have before: "?acked a" if "a \<in> set earlier" for a
    using order(1) that by (auto simp: sent_before_def envelope_cursor_def acked_cursor_def split: option.split)
  have after: "\<not> ?acked b" if "b \<in> set later" for b
    using order(2) that by (auto simp: sent_before_def envelope_cursor_def acked_cursor_def split: option.splits)
  have "filter (\<lambda>x. \<not> ?acked x) (earlier @ e # later) = later"
    using e before after by (simp add: filter_empty_conv filter_id_conv)
  then show ?thesis unfolding assms(4) queue_of_ack prod.collapse assms(3) by simp
qed
subsection \<open>A segmented message on its way to the app server\<close>

fun reader_all ::
  "base64_codec \<Rightarrow> (jsonrpc_message, 'o) wire_format \<Rightarrow> (nat \<Rightarrow> send_outcome) \<Rightarrow> stream_id
     \<Rightarrow> (nat \<times> nat \<times> rc_envelope) list \<Rightarrow> 'o reader_state \<Rightarrow> reader_exit \<times> 'o reader_state" where
  "reader_all b64 fmt out rnd [] rd = (ReaderContinues, rd)"
| "reader_all b64 fmt out rnd ((now, wire_size, env) # envs) rd =
     (case reader_envelope b64 fmt out rnd now env wire_size rd of
        (ReaderContinues, rd1) \<Rightarrow> reader_all b64 fmt out rnd envs rd1
      | (ended, rd1) \<Rightarrow> (ended, rd1))"

text \<open>The chunks of one message, as \<open>client_message_key\<close> sees them.\<close>

definition chunk_of :: "client_key \<Rightarrow> nat \<Rightarrow> rc_envelope \<Rightarrow> bool" where
  "chunk_of key seq env \<longleftrightarrow>
     client_message_key env = Some ((fst key, Some (snd key)), seq) \<and> ce_client_id env = fst key
     \<and> ce_stream_id env = Some (snd key) \<and> (\<exists>c. ce_event env = ClientMessageChunk c)"

lemma observe_client_message_passes:
  assumes "chunk_of key seq env" and "\<not> already_completed (Some ((fst key, Some (snd key)), seq)) ws"
    and "wire_size \<le> segment_max_bytes" and "observe b64 fmt now env (ws_reassembler ws) = (ob, asm)"
    and "ob \<noteq> ObserveDropped"
  shows "observe_client_message b64 fmt now env wire_size ws = (ob, ws\<lparr>ws_reassembler := asm\<rparr>)"
proof -
  obtain c where c: "ce_event env = ClientMessageChunk c" "ce_seq_id env = Some seq" "ce_stream_id env = Some (snd key)"
    "ce_client_id env = fst key" "client_message_key env = Some ((fst key, Some (snd key)), seq)"
    using assms(1) by (auto simp: chunk_of_def client_message_key_def split: option.splits)
  have "\<not> should_ignore_chunk (ws_reassembler ws) (fst key) (snd key) seq (mc_segment_id c)"
    using assms(4,5) c by (auto simp: observe_def metadata_from_envelope_def)
  then show ?thesis using assms(2-4) c by (simp add: observe_client_message_def Let_def)
qed

lemma reader_all_pending:
  assumes "\<forall>(now, wire_size, env) \<in> set xs. chunk_of key seq env \<and> wire_size \<le> segment_max_bytes"
    and "\<not> already_completed (Some ((fst key, Some (snd key)), seq)) (rd_ws rd)"
    and "observe_all b64 fmt (map (\<lambda>(now, _, env). (now, env)) xs) (ws_reassembler (rd_ws rd)) = (replicate (length xs) ObservePending, asm)"
  shows "reader_all b64 fmt out rnd (xs @ ys) rd =
    reader_all b64 fmt out rnd ys (rd\<lparr>rd_ws := (rd_ws rd)\<lparr>ws_reassembler := asm\<rparr>\<rparr>)"
  using assms
proof (induction xs arbitrary: rd)
  case (Cons x xs)
  obtain now wire_size env where x: "x = (now, wire_size, env)" by (cases x) auto
  obtain ob asm1 where ob: "observe b64 fmt now env (ws_reassembler (rd_ws rd)) = (ob, asm1)" by (rule prod.exhaust)
  obtain obs asm2 where obs: "observe_all b64 fmt (map (\<lambda>(now, _, env). (now, env)) xs) asm1 = (obs, asm2)" by (rule prod.exhaust)
  have p: "ob = ObservePending" "obs = replicate (length xs) ObservePending" "asm2 = asm"
    using Cons(4) by (auto simp: x ob obs)
  let ?rd = "rd\<lparr>rd_ws := (rd_ws rd)\<lparr>ws_reassembler := asm1\<rparr>\<rparr>"
  have "observe_client_message b64 fmt now env wire_size (rd_ws rd) = (ObservePending, (rd_ws rd)\<lparr>ws_reassembler := asm1\<rparr>)"
    using observe_client_message_passes [OF _ Cons(3) _ ob] Cons(2) p(1) by (simp add: x)
  then have "reader_envelope b64 fmt out rnd now env wire_size rd = (ReaderContinues, ?rd)"
    by (simp add: reader_envelope_def)
  moreover have "reader_all b64 fmt out rnd (xs @ ys) ?rd =
      reader_all b64 fmt out rnd ys (?rd\<lparr>rd_ws := (rd_ws ?rd)\<lparr>ws_reassembler := asm\<rparr>\<rparr>)"
    by (rule Cons(1)) (use Cons(2,3) obs p in \<open>simp_all add: already_completed_def\<close>)
  ultimately show ?case by (simp add: x)
next
  case Nil
  then have "asm = ws_reassembler (rd_ws rd)" by simp
  then show ?case by simp
qed

lemma observe_all_snoc:
  "observe_all b64 fmt (xs @ [(now, env)]) asm = (obs @ [ob], asm') \<longleftrightarrow>
     (\<exists>asm1. observe_all b64 fmt xs asm = (obs, asm1) \<and> observe b64 fmt now env asm1 = (ob, asm'))"
proof (induction xs arbitrary: asm obs)
  case Nil
  then show ?case by (auto split: prod.splits)
next
  case (Cons x xs)
  obtain n e where x: "x = (n, e)" by (rule prod.exhaust)
  obtain ob1 asm1 where ob1: "observe b64 fmt n e asm = (ob1, asm1)" by (rule prod.exhaust)
  show ?case
  proof (cases obs)
    case Nil
    have "fst (observe_all b64 fmt (xs @ [(now, env)]) asm1) \<noteq> []"
      by (cases xs) (auto split: prod.splits)
    then show ?thesis by (auto simp: x ob1 Nil split: prod.splits)
  next
    case (Cons o1 obs1)
    then show ?thesis using Cons.IH [of asm1 obs1] by (auto simp: x ob1 split: prod.splits)
  qed
qed
lemma completed_chunk_is_dropped:
  assumes "chunk_of key seq env" and "hm_get (ws_last_completed (rd_ws rd)) (fst key, Some (snd key)) = Some seq"
  shows "reader_envelope b64 fmt out rnd now env wire_size rd = (ReaderContinues, rd)"
proof -
  have "already_completed (client_message_key env) (rd_ws rd)"
    using assms by (simp add: chunk_of_def already_completed_def)
  then have "observe_client_message b64 fmt now env wire_size (rd_ws rd) = (ObserveDropped, rd_ws rd)"
    by (simp add: observe_client_message_def Let_def)
  then show ?thesis by (simp add: reader_envelope_def)
qed

lemma forwarded_message_delivered:
  assumes "tracked ct key = Some c" and "\<not> already_delivered key (Some seq) ct" and "\<forall>n. out n = SendOk"
    and "plain_message key seq m env"
  shows "\<exists>ct'. handle_message out rnd now env ct = (Inr (), ct') \<and> ct_transport ct' = ct_transport ct @ [IncomingMessage c m]"
proof -
  obtain cl where "hm_get (ct_clients ct) key = Some cl" "cst_connection_id cl = c"
    using assms(1) by (auto simp: tracked_def)
  then show ?thesis
    unfolding handle_plain_message [OF assms(4)]
    using assms(2-4) by (simp add: handle_client_message_def plain_message_def forward_to_client_def send_incoming Let_def)
qed

lemma reader_last_chunk:
  assumes chunk: "chunk_of key seq env" and new: "\<not> already_completed (Some ((fst key, Some (snd key)), seq)) (rd_ws rd)"
    and small: "wire_size \<le> segment_max_bytes"
    and obs: "observe b64 fmt now env (ws_reassembler (rd_ws rd)) = (ForwardEnvelope fin, asm)"
    and fin: "plain_message key seq m fin"
    and client: "tracked (rd_tracker rd) key = Some c" "\<not> already_delivered key (Some seq) (rd_tracker rd)" "\<forall>n. out n = SendOk"
  shows "\<exists>rd'. reader_envelope b64 fmt out rnd now env wire_size rd = (ReaderContinues, rd')
    \<and> ct_transport (rd_tracker rd') = ct_transport (rd_tracker rd) @ [IncomingMessage c m]
    \<and> hm_get (ws_last_completed (rd_ws rd')) (fst key, Some (snd key)) = Some seq"
proof -
  have fwd: "observe_client_message b64 fmt now env wire_size (rd_ws rd) = (ForwardEnvelope fin, (rd_ws rd)\<lparr>ws_reassembler := asm\<rparr>)"
    by (rule observe_client_message_passes [OF chunk new small obs]) simp
  obtain ct where ct: "handle_message out rnd now fin (rd_tracker rd) = (Inr (), ct)"
    "ct_transport ct = ct_transport (rd_tracker rd) @ [IncomingMessage c m]"
    using forwarded_message_delivered [OF client fin] by blast
  have k: "client_message_key env = Some ((fst key, Some (snd key)), seq)" using chunk by (simp add: chunk_of_def)
  have e: "ce_event fin = ClientMessage m" using fin by (simp add: plain_message_def)
  have "hm_get (ws_last_completed (record_client_message_delivery fin (Some ((fst key, Some (snd key)), seq)) ws))
      (fst key, Some (snd key)) = Some seq" for ws :: "'a websocket_state"
    by (simp add: record_client_message_delivery_def e Let_def container_simps split: option.split)
  then show ?thesis using fwd ct e k by (simp add: reader_envelope_def Let_def)
qed

subsection \<open>Examples\<close>

definition pong_to_phone :: "byte list queued_server_envelope" where
  "pong_to_phone = \<lparr>qs_event = ServerPong PongActive, qs_client_id = ''phone'', qs_stream_id = ''s1'', qs_write_complete = False\<rparr>"

definition phone_format :: "(jsonrpc_message, byte list) wire_format" where
  "phone_format = example_format_with (\<lambda>_. Inr phone_notice)"

definition pong_envelope :: "byte list server_envelope" where
  "pong_envelope = \<lparr>sv_event = ServerPong PongActive, sv_client_id = ''phone'', sv_stream_id = ''s1'', sv_seq_id = 1\<rparr>"

definition pong_link :: "byte list websocket_state" where
  "pong_link = snd (writer_enqueue example_codec phone_format (\<lambda>_. Some ''x'') pong_to_phone websocket_state_new)"

lemma pong_enqueued:
  "enqueued example_codec phone_format (\<lambda>_. Some ''x'') pong_to_phone websocket_state_new = [pong_envelope]"
  by (simp add: enqueued_def queued_envelope_def split_server_envelope_for_transport_def pong_to_phone_def
      websocket_state_new_def pong_envelope_def next_seq_def)

lemma pong_link_reachable:
  "reachable_from link_start (link_step example_codec phone_format (\<lambda>_. Some ''x'')) ([LogSent pong_envelope], pong_link)"
proof -
  have cap: "outbound_has_capacity (websocket_state_new :: byte list websocket_state)"
    by (simp add: outbound_has_capacity_def websocket_state_new_def outbound_buffer_new_def channel_capacity_def)
  have "link_step example_codec phone_format (\<lambda>_. Some ''x'') ([], websocket_state_new) ([LogSent pong_envelope], pong_link)"
    using step_enqueue [OF cap, of example_codec phone_format "\<lambda>_. Some ''x''" "[]" pong_to_phone]
    by (simp add: pong_enqueued pong_link_def)
  then show ?thesis unfolding reachable_from_def link_start_def by auto
qed

lemma pong_link_buffer:
  "queue_of (ws_outbound_buffer pong_link) phone = [pong_envelope] \<and> next_seq pong_link phone < u64_max"
  by (simp add: pong_link_def writer_enqueue_buffer pong_enqueued queue_of_insert next_seq_enqueue)
    (simp add: queue_of_def websocket_state_new_def outbound_buffer_new_def pong_envelope_def envelope_key_def phone_def
      next_seq_def u64_sat_succ_def u64_max_def u64_modulus_def)

theorem unacknowledged_envelopes_are_kept_witness:
  "of_stream phone (ob_server_envelopes (ws_outbound_buffer pong_link)) = [pong_envelope]"
  using unacknowledged_envelopes_are_kept [OF pong_link_reachable, of phone]
  by (simp add: pong_envelope_def envelope_key_def phone_def)

theorem outbound_buffer_bounded_witness: "ob_used (ws_outbound_buffer pong_link) = 1"
  using outbound_buffer_bounded [OF pong_link_reachable] by simp

theorem acknowledgement_releases_prefix_witness:
  "queue_of (ob_ack ''phone'' ''s1'' 1 None (ws_outbound_buffer pong_link)) phone = []"
  using acknowledgement_releases_prefix [OF pong_link_reachable, of phone "[]" pong_envelope "[]"] pong_link_buffer
  by (simp add: phone_def pong_envelope_def)

definition phone_reader :: "byte list reader_state" where
  "phone_reader = \<lparr>rd_ws = websocket_state_new, rd_tracker = phone_connected, rd_pong_deadline = pong_timeout_default\<rparr>"

lemma phone_not_delivered: "\<not> already_delivered phone (Some 7) phone_connected"
proof -
  have "message_starts_connection phone_initialize" by (simp add: phone_initialize_def)
  then have eq: "phone_connected = snd (open_client channel_ok False 0 phone (Some 1) phone_initialize (client_tracker_new 0))"
    by (simp add: phone_connected_def phone_envelope_def phone_def client_tracker_new_def
        handle_message_def resolve_stream_id_def handle_client_message_def hm_contains_def)
  show ?thesis unfolding eq
    by (simp add: already_delivered_def open_client_def next_connection_id_def send_opened send_incoming register_client_def
        hm_get_record container_simps)
qed

end
