(* ===== verification/Absolute_Path.thy ===== *)
theory Absolute_Path
  imports File_Read "HOL-Library.Sublist"
begin

text \<open>
  Paths, on Unix: \<^verbatim>\<open>utils/absolute-path/src/absolutize.rs\<close> and the operations of
  \<^verbatim>\<open>utils/absolute-path/src/lib.rs\<close> that the permission model uses. A \<^verbatim>\<open>std::path::Path\<close> is compared,
  prefix-tested and walked by its components, so it is the list of them; \<open>RootDir\<close> can only be the first.
  What the operating system says of paths is the record \<open>path_env\<close>.
\<close>

datatype component = RootDir | CurDir | ParentDir | Normal string

type_synonym path = "component list"

subsection \<open>\<^verbatim>\<open>std::path\<close>\<close>

fun split_on :: "char \<Rightarrow> string \<Rightarrow> string list" where
  "split_on c [] = [[]]"
| "split_on c (x # s) =
     (case split_on c s of
        [] \<Rightarrow> [[x]]
      | w # ws \<Rightarrow> if x = c then [] # w # ws else (x # w) # ws)"

definition is_space :: "char \<Rightarrow> bool" where
  "is_space c = (c \<in> set [CHR '' '', CHR 0x09, CHR 0x0A, CHR 0x0B, CHR 0x0C, CHR 0x0D])"

definition trim :: "string \<Rightarrow> string" where
  "trim s = rev (dropWhile is_space (rev (dropWhile is_space s)))"

fun component_of :: "string \<Rightarrow> component option" where
  "component_of w = (if w = [] \<or> w = ''.'' then None else if w = ''..'' then Some ParentDir else Some (Normal w))"

definition path_of_string :: "string \<Rightarrow> path" where
  "path_of_string s =
     (let ws = split_on (CHR ''/'') s;
          body = List.map_filter component_of ws
      in if s \<noteq> [] \<and> hd s = CHR ''/'' then RootDir # body
         else if hd ws = ''.'' then CurDir # body
         else body)"

fun component_str :: "component \<Rightarrow> string" where
  "component_str RootDir = ''/''"
| "component_str CurDir = ''.''"
| "component_str ParentDir = ''..''"
| "component_str (Normal n) = n"

fun join_with :: "string \<Rightarrow> string list \<Rightarrow> string" where
  "join_with sep [] = []"
| "join_with sep [w] = w"
| "join_with sep (w # v # ws) = w @ sep @ join_with sep (v # ws)"

fun path_to_string :: "path \<Rightarrow> string" where
  "path_to_string (RootDir # p) = ''/'' @ join_with ''/'' (map component_str p)"
| "path_to_string p = join_with ''/'' (map component_str p)"

definition is_absolute :: "path \<Rightarrow> bool" where
  "is_absolute p = (p \<noteq> [] \<and> hd p = RootDir)"

abbreviation starts_with :: "path \<Rightarrow> path \<Rightarrow> bool" where
  "starts_with p base \<equiv> prefix base p"

definition strip_prefix :: "path \<Rightarrow> path \<Rightarrow> path option" where
  "strip_prefix p base = (if prefix base p then Some (drop (length base) p) else None)"

definition path_parent :: "path \<Rightarrow> path option" where
  "path_parent p = (if p = [] \<or> last p = RootDir then None else Some (butlast p))"

function ancestors :: "path \<Rightarrow> path list" where
  "ancestors p = p # (case path_parent p of None \<Rightarrow> [] | Some q \<Rightarrow> ancestors q)"
  by pat_completeness auto

termination
  by (relation "measure length") (auto simp: path_parent_def split: if_splits)

declare ancestors.simps [simp del]

text \<open>\<^verbatim>\<open>Path::join\<close>; a \<^verbatim>\<open>.\<close> in the middle of a path is no component.\<close>

definition path_join :: "path \<Rightarrow> path \<Rightarrow> path" where
  "path_join base p =
     (if is_absolute p then p
      else if base = [] then p
      else base @ (case p of CurDir # q \<Rightarrow> q | _ \<Rightarrow> p))"

subsection \<open>Normalization\<close>

definition path_push :: "path \<Rightarrow> component \<Rightarrow> path" where
  "path_push p c = (if c = RootDir then [RootDir] else p @ [c])"

definition path_pop :: "path \<Rightarrow> path" where
  "path_pop p = (case path_parent p of Some q \<Rightarrow> q | None \<Rightarrow> p)"

fun normalize_step :: "path \<Rightarrow> component \<Rightarrow> path" where
  "normalize_step acc CurDir = acc"
| "normalize_step acc ParentDir = path_pop acc"
| "normalize_step acc c = path_push acc c"

definition normalize_path :: "path \<Rightarrow> path" where
  "normalize_path p = (let n = foldl normalize_step [] p in if n = [] then [CurDir] else n)"

definition path_with_base :: "path \<Rightarrow> path \<Rightarrow> path" where
  "path_with_base p base = (if is_absolute p then p else path_join base p)"

definition absolutize_from :: "path \<Rightarrow> path \<Rightarrow> path" where
  "absolutize_from p base = normalize_path (path_with_base p base)"

record path_env =
  pe_home_dir :: "path option"
  pe_current_dir :: "path option"
  pe_tmpdir :: "path option"
  pe_is_dir :: "path \<Rightarrow> bool"
  pe_is_file :: "path \<Rightarrow> bool"
  pe_exists :: "path \<Rightarrow> bool"
  pe_is_symlink :: "path \<Rightarrow> bool option"
  pe_canonicalize :: "path \<Rightarrow> path option"
  pe_read_to_string :: "path \<Rightarrow> string option"

definition absolutize :: "path_env \<Rightarrow> path \<Rightarrow> path option" where
  "absolutize pe p =
     (if is_absolute p then Some (normalize_path p)
      else map_option (absolutize_from p) (pe_current_dir pe))"

text \<open>\<^verbatim>\<open>~\<close> and \<^verbatim>\<open>~/...\<close> stand for the home directory.\<close>

definition maybe_expand_home_directory :: "path_env \<Rightarrow> path \<Rightarrow> path" where
  "maybe_expand_home_directory pe p =
     (case (pe_home_dir pe, p) of
        (Some home, Normal n # rest) \<Rightarrow> if n = ''~'' then path_join home rest else p
      | _ \<Rightarrow> p)"

definition resolve_path_against_base :: "path_env \<Rightarrow> path \<Rightarrow> path \<Rightarrow> path" where
  "resolve_path_against_base pe p base = absolutize_from (maybe_expand_home_directory pe p) base"

definition from_absolute_path :: "path_env \<Rightarrow> path \<Rightarrow> path option" where
  "from_absolute_path pe p = absolutize pe (maybe_expand_home_directory pe p)"

definition from_absolute_path_checked :: "path_env \<Rightarrow> path \<Rightarrow> io_error + path" where
  "from_absolute_path_checked pe p =
     (let expanded = maybe_expand_home_directory pe p in
      if \<not> is_absolute expanded
      then Inl \<lparr>ioe_kind = InvalidInput, ioe_message = ''path is not absolute: '' @ path_to_string p\<rparr>
      else Inr (absolutize_from expanded [RootDir]))"

definition abs_join :: "path_env \<Rightarrow> path \<Rightarrow> path \<Rightarrow> path" where
  "abs_join pe base p = resolve_path_against_base pe p base"

definition should_preserve_logical_path :: "path_env \<Rightarrow> path \<Rightarrow> bool" where
  "should_preserve_logical_path pe logical =
     list_ex (\<lambda>a. pe_is_symlink pe a = Some True
                \<and> (case path_parent a of None \<Rightarrow> False | Some q \<Rightarrow> path_parent q \<noteq> None)) (ancestors logical)"

definition canonicalize_preserving_symlinks :: "path_env \<Rightarrow> path \<Rightarrow> path option" where
  "canonicalize_preserving_symlinks pe p =
     (case from_absolute_path pe p of
        None \<Rightarrow> None
      | Some logical \<Rightarrow>
          (case pe_canonicalize pe p of
             Some canonical \<Rightarrow>
               if should_preserve_logical_path pe logical \<and> canonical \<noteq> logical then Some logical else Some canonical
           | None \<Rightarrow> Some logical))"

definition canonicalize_existing_preserving_symlinks :: "path_env \<Rightarrow> path \<Rightarrow> path option" where
  "canonicalize_existing_preserving_symlinks pe p =
     (case from_absolute_path pe p of
        None \<Rightarrow> None
      | Some logical \<Rightarrow>
          (case pe_canonicalize pe p of
             None \<Rightarrow> None
           | Some canonical \<Rightarrow>
               if should_preserve_logical_path pe logical \<and> canonical \<noteq> logical then Some logical else Some canonical))"

subsection \<open>The promise of \<^verbatim>\<open>AbsolutePathBuf\<close>\<close>

fun is_normal :: "component \<Rightarrow> bool" where
  "is_normal (Normal _) = True"
| "is_normal _ = False"

text \<open>Absolute, and without \<^verbatim>\<open>.\<close> or \<^verbatim>\<open>..\<close>.\<close>

definition abs_path :: "path \<Rightarrow> bool" where
  "abs_path p \<longleftrightarrow> p \<noteq> [] \<and> hd p = RootDir \<and> list_all is_normal (tl p)"

text \<open>A path that came from a string: the root comes first or not at all.\<close>

definition proper_path :: "path \<Rightarrow> bool" where
  "proper_path p \<longleftrightarrow> RootDir \<notin> set (tl p)"

definition path_env_ok :: "path_env \<Rightarrow> bool" where
  "path_env_ok pe \<longleftrightarrow>
     (\<forall>h. pe_home_dir pe = Some h \<longrightarrow> is_absolute h \<and> proper_path h)
     \<and> (\<forall>d. pe_current_dir pe = Some d \<longrightarrow> is_absolute d \<and> proper_path d)"

lemma abs_path_iff: "abs_path p \<longleftrightarrow> (\<exists>ns. p = RootDir # map Normal ns)"
proof
  assume "abs_path p"
  then obtain cs where p: "p = RootDir # cs" "list_all is_normal cs" by (cases p) (auto simp: abs_path_def)
  have "list_all is_normal cs \<Longrightarrow> \<exists>ns. cs = map Normal ns"
  proof (induction cs)
    case (Cons c cs)
    then show ?case by (cases c) (auto intro: exI [of _ "_ # _"])
  qed simp
  then show "\<exists>ns. p = RootDir # map Normal ns" using p by auto
qed (auto simp: abs_path_def list_all_iff)

lemma abs_pathE: "abs_path p \<Longrightarrow> (\<And>ns. p = RootDir # map Normal ns \<Longrightarrow> thesis) \<Longrightarrow> thesis"
  by (auto simp: abs_path_iff)

lemma abs_path_absolute: "abs_path p \<Longrightarrow> is_absolute p \<and> proper_path p"
  by (auto simp: abs_path_iff is_absolute_def proper_path_def)

lemma abs_path_prefix: "abs_path p \<Longrightarrow> prefix q p \<Longrightarrow> q \<noteq> [] \<Longrightarrow> abs_path q"
  by (auto simp: abs_path_iff prefix_Cons dest!: prefix_map_rightE)

lemma path_pop_abs: "abs_path p \<Longrightarrow> abs_path (path_pop p)"
proof (elim abs_pathE)
  fix ns assume p: "p = RootDir # map Normal ns"
  show ?thesis
  proof (cases ns rule: rev_cases)
    case Nil
    then show ?thesis by (simp add: p path_pop_def path_parent_def abs_path_iff)
  next
    case (snoc ms n)
    then show ?thesis by (auto simp: p path_pop_def path_parent_def abs_path_iff butlast_append)
  qed
qed

lemma normalize_step_abs: "abs_path acc \<Longrightarrow> c \<noteq> RootDir \<Longrightarrow> abs_path (normalize_step acc c)"
proof (cases c)
  case (Normal n)
  assume "abs_path acc"
  then show ?thesis by (cases acc) (simp_all add: Normal path_push_def abs_path_def)
qed (simp_all add: path_pop_abs)

lemma foldl_normalize_abs: "abs_path acc \<Longrightarrow> RootDir \<notin> set p \<Longrightarrow> abs_path (foldl normalize_step acc p)"
proof (induction p arbitrary: acc)
  case (Cons c p)
  have "abs_path (normalize_step acc c)" using Cons(2,3) by (intro normalize_step_abs) auto
  then show ?case using Cons(1,3) by simp
qed simp

lemma normalize_path_abs:
  assumes "is_absolute p" and "proper_path p"
  shows "abs_path (normalize_path p)"
proof -
  obtain q where p: "p = RootDir # q" "RootDir \<notin> set q"
    using assms by (cases p) (auto simp: is_absolute_def proper_path_def)
  have "abs_path (foldl normalize_step [RootDir] q)" by (rule foldl_normalize_abs [OF _ p(2)]) (simp add: abs_path_def)
  then show ?thesis using abs_path_def by (auto simp: normalize_path_def p path_push_def Let_def)
qed

lemma normalize_path_id: "abs_path p \<Longrightarrow> normalize_path p = p"
proof (elim abs_pathE)
  fix ns assume p: "p = RootDir # map Normal ns"
  have "foldl normalize_step acc (map Normal ns) = acc @ map Normal ns" for acc
    by (induction ns arbitrary: acc) (auto simp: path_push_def)
  then show ?thesis by (simp add: p normalize_path_def path_push_def)
qed

lemma path_join_absolute: "is_absolute base \<Longrightarrow> proper_path base \<Longrightarrow> proper_path p \<Longrightarrow>
    is_absolute (path_join base p) \<and> proper_path (path_join base p)"
  by (cases p; cases base)
    (auto simp: path_join_def is_absolute_def proper_path_def split: component.splits list.splits)

lemma expand_home_absolute:
  "path_env_ok pe \<Longrightarrow> is_absolute p \<Longrightarrow> maybe_expand_home_directory pe p = p"
  by (cases p) (auto simp: maybe_expand_home_directory_def is_absolute_def split: option.splits)

lemma expand_home_proper: "path_env_ok pe \<Longrightarrow> proper_path p \<Longrightarrow> proper_path (maybe_expand_home_directory pe p)"
proof -
  assume ok: "path_env_ok pe" and p: "proper_path p"
  show ?thesis
  proof (cases "\<exists>h rest. pe_home_dir pe = Some h \<and> p = Normal ''~'' # rest")
    case True
    then obtain h rest where h: "pe_home_dir pe = Some h" "p = Normal ''~'' # rest" by blast
    have "proper_path rest" using p h(2) by (cases rest) (auto simp: proper_path_def)
    then show ?thesis using ok h path_join_absolute [of h rest]
      by (simp add: maybe_expand_home_directory_def path_env_ok_def)
  next
    case False
    then show ?thesis using p
      by (auto simp: maybe_expand_home_directory_def split: option.splits list.splits component.splits)
  qed
qed

lemma absolutize_from_abs:
  "is_absolute base \<Longrightarrow> proper_path base \<Longrightarrow> proper_path p \<Longrightarrow> abs_path (absolutize_from p base)"
  using path_join_absolute [of base p] normalize_path_abs
  by (auto simp: absolutize_from_def path_with_base_def)

subsection \<open>Examples\<close>

definition example_paths :: path_env where
  "example_paths =
     \<lparr>pe_home_dir = Some [RootDir, Normal ''home'', Normal ''u''], pe_current_dir = Some [RootDir, Normal ''w''],
      pe_tmpdir = None, pe_is_dir = (\<lambda>p. p = [RootDir, Normal ''tmp'']), pe_is_file = (\<lambda>_. False), pe_exists = (\<lambda>_. False),
      pe_is_symlink = (\<lambda>_. Some False), pe_canonicalize = Some, pe_read_to_string = (\<lambda>_. None)\<rparr>"

lemma example_paths_ok: "path_env_ok example_paths"
  by (simp add: path_env_ok_def example_paths_def is_absolute_def proper_path_def)


end
