(* ===== verification/Permissions.thy ===== *)
theory Permissions
  imports Absolute_Path
begin

text \<open>
  Which files an agent may read and write: the filesystem sandbox policy of
  \<^verbatim>\<open>crates/protocol/src/permissions.rs\<close> and the legacy policy of \<^verbatim>\<open>crates/protocol/src/protocol.rs\<close> it
  converts from and to. Paths and the operating system are those of \<open>Absolute_Path\<close>; the glob compiler
  is the argument \<open>glob\<close> of the definitions that build matchers.
\<close>

subsection \<open>Names and modes\<close>

definition protected_metadata_path_names :: "string list" where
  "protected_metadata_path_names = [''.git'', ''.agents'', ''.agentx'']"

definition is_protected_metadata_name :: "string \<Rightarrow> bool" where
  "is_protected_metadata_name name = list_ex (\<lambda>n. name = n) protected_metadata_path_names"

definition is_protected_metadata_directory_name :: "string \<Rightarrow> bool" where
  "is_protected_metadata_directory_name name = (name = ''.agents'' \<or> name = ''.agentx'')"

datatype network_sandbox_policy = NetworkRestricted | NetworkEnabled

definition network_is_enabled :: "network_sandbox_policy \<Rightarrow> bool" where
  "network_is_enabled n = (n = NetworkEnabled)"

datatype access_mode = Read | Write | Deny

fun access_rank :: "access_mode \<Rightarrow> nat" where
  "access_rank Read = 0"
| "access_rank Write = 1"
| "access_rank Deny = 2"

instantiation access_mode :: linorder
begin

definition less_eq_access_mode :: "access_mode \<Rightarrow> access_mode \<Rightarrow> bool" where
  "less_eq_access_mode a b = (access_rank a \<le> access_rank b)"

definition less_access_mode :: "access_mode \<Rightarrow> access_mode \<Rightarrow> bool" where
  "less_access_mode a b = (access_rank a < access_rank b)"

instance
proof
  fix a b :: access_mode
  assume "a \<le> b" "b \<le> a"
  then show "a = b" by (cases a; cases b) (simp_all add: less_eq_access_mode_def)
qed (auto simp: less_eq_access_mode_def less_access_mode_def)

end

definition can_read :: "access_mode \<Rightarrow> bool" where
  "can_read a = (a \<noteq> Deny)"

definition can_write :: "access_mode \<Rightarrow> bool" where
  "can_write a = (a = Write)"

subsection \<open>Entries and policies\<close>

datatype special_path =
  SpRoot
| SpMinimal
| SpProjectRoots "path option"
| SpTmpdir
| SpSlashTmp
| SpUnknown string "path option"

datatype fs_path = FsPath path | FsGlob string | FsSpecial special_path

record sandbox_entry =
  en_path :: fs_path
  en_access :: access_mode

datatype sandbox_kind = Restricted | Unrestricted | ExternalSandbox

record sandbox_policy =
  sp_kind :: sandbox_kind
  sp_glob_scan_max_depth :: "nat option"
  sp_entries :: "sandbox_entry list"

record resolved_entry =
  re_path :: path
  re_access :: access_mode

record writable_root =
  wr_root :: path
  wr_read_only_subpaths :: "path list"
  wr_protected_metadata_names :: "string list"

datatype network_access = NetAccessRestricted | NetAccessEnabled

datatype legacy_policy =
  DangerFullAccess
| LegacyReadOnly bool
| LegacyExternalSandbox network_access
| WorkspaceWrite "path list" bool bool bool

abbreviation entry :: "fs_path \<Rightarrow> access_mode \<Rightarrow> sandbox_entry" where
  "entry p a \<equiv> \<lparr>en_path = p, en_access = a\<rparr>"

definition restricted :: "sandbox_entry list \<Rightarrow> sandbox_policy" where
  "restricted es = \<lparr>sp_kind = Restricted, sp_glob_scan_max_depth = None, sp_entries = es\<rparr>"

definition read_only_file_system_entries :: "sandbox_entry list" where
  "read_only_file_system_entries = [entry (FsSpecial SpRoot) Read]"

definition read_only :: sandbox_policy where
  "read_only = restricted read_only_file_system_entries"

definition unrestricted :: sandbox_policy where
  "unrestricted = \<lparr>sp_kind = Unrestricted, sp_glob_scan_max_depth = None, sp_entries = []\<rparr>"

definition external_sandbox :: sandbox_policy where
  "external_sandbox = \<lparr>sp_kind = ExternalSandbox, sp_glob_scan_max_depth = None, sp_entries = []\<rparr>"

subsection \<open>Resolving entries\<close>

definition slash_tmp :: path where
  "slash_tmp = [RootDir, Normal ''tmp'']"

fun resolve_special_path :: "path_env \<Rightarrow> special_path \<Rightarrow> path option \<Rightarrow> path option" where
  "resolve_special_path pe SpRoot cwd = None"
| "resolve_special_path pe SpMinimal cwd = None"
| "resolve_special_path pe (SpUnknown _ _) cwd = None"
| "resolve_special_path pe (SpProjectRoots subpath) cwd =
     (case cwd of
        None \<Rightarrow> None
      | Some c \<Rightarrow> (case subpath of Some sub \<Rightarrow> Some (resolve_path_against_base pe sub c) | None \<Rightarrow> Some c))"
| "resolve_special_path pe SpTmpdir cwd =
     (case pe_tmpdir pe of
        None \<Rightarrow> None
      | Some t \<Rightarrow> if t = [] then None else from_absolute_path pe t)"
| "resolve_special_path pe SpSlashTmp cwd = (if pe_is_dir pe slash_tmp then Some slash_tmp else None)"

fun resolve_fs_path :: "path_env \<Rightarrow> fs_path \<Rightarrow> path option \<Rightarrow> path option" where
  "resolve_fs_path pe (FsPath p) cwd = Some p"
| "resolve_fs_path pe (FsGlob _) cwd = None"
| "resolve_fs_path pe (FsSpecial v) cwd = resolve_special_path pe v cwd"

definition absolute_root_path_for_cwd :: "path \<Rightarrow> path" where
  "absolute_root_path_for_cwd cwd = last (ancestors cwd)"

definition resolve_entry_path :: "path_env \<Rightarrow> fs_path \<Rightarrow> path option \<Rightarrow> path option" where
  "resolve_entry_path pe p cwd =
     (if p = FsSpecial SpRoot then map_option absolute_root_path_for_cwd cwd else resolve_fs_path pe p cwd)"

definition resolve_candidate_path :: "path_env \<Rightarrow> path \<Rightarrow> path \<Rightarrow> path option" where
  "resolve_candidate_path pe p cwd =
     (if is_absolute p then from_absolute_path pe p
      else map_option (\<lambda>c. abs_join pe c p) (from_absolute_path pe cwd))"

definition resolved_entries :: "path_env \<Rightarrow> path \<Rightarrow> sandbox_policy \<Rightarrow> resolved_entry list" where
  "resolved_entries pe cwd pol =
     List.map_filter
       (\<lambda>e. map_option (\<lambda>p. \<lparr>re_path = p, re_access = en_access e\<rparr>)
               (resolve_entry_path pe (en_path e) (from_absolute_path pe cwd)))
       (sp_entries pol)"

subsection \<open>Which entry decides\<close>

definition resolved_entry_precedence :: "resolved_entry \<Rightarrow> nat \<times> access_mode" where
  "resolved_entry_precedence e = (length (re_path e), re_access e)"

definition precedence_le :: "nat \<times> access_mode \<Rightarrow> nat \<times> access_mode \<Rightarrow> bool" where
  "precedence_le a b = (fst a < fst b \<or> (fst a = fst b \<and> snd a \<le> snd b))"

text \<open>\<^verbatim>\<open>Iterator::max_by_key\<close>: the last of the greatest elements.\<close>

fun max_by_precedence :: "resolved_entry list \<Rightarrow> resolved_entry option" where
  "max_by_precedence [] = None"
| "max_by_precedence (e # es) =
     (case max_by_precedence es of
        None \<Rightarrow> Some e
      | Some f \<Rightarrow>
          if precedence_le (resolved_entry_precedence e) (resolved_entry_precedence f) then Some f else Some e)"

definition resolve_access :: "path_env \<Rightarrow> path \<Rightarrow> path \<Rightarrow> sandbox_policy \<Rightarrow> access_mode" where
  "resolve_access pe p cwd pol =
     (if sp_kind pol \<noteq> Restricted then Write
      else case resolve_candidate_path pe p cwd of
             None \<Rightarrow> Deny
           | Some q \<Rightarrow>
               (case max_by_precedence (filter (\<lambda>e. starts_with q (re_path e)) (resolved_entries pe cwd pol)) of
                  None \<Rightarrow> Deny
                | Some e \<Rightarrow> re_access e))"

definition can_read_path :: "path_env \<Rightarrow> path \<Rightarrow> path \<Rightarrow> sandbox_policy \<Rightarrow> bool" where
  "can_read_path pe p cwd pol = can_read (resolve_access pe p cwd pol)"

definition has_root_access :: "(access_mode \<Rightarrow> bool) \<Rightarrow> sandbox_policy \<Rightarrow> bool" where
  "has_root_access P pol =
     (sp_kind pol = Restricted \<and> list_ex (\<lambda>e. en_path e = FsSpecial SpRoot \<and> P (en_access e)) (sp_entries pol))"

definition has_denied_read_restrictions :: "sandbox_policy \<Rightarrow> bool" where
  "has_denied_read_restrictions pol =
     (sp_kind pol = Restricted \<and> list_ex (\<lambda>e. en_access e = Deny) (sp_entries pol))"

fun special_paths_share_target :: "special_path \<Rightarrow> special_path \<Rightarrow> bool" where
  "special_paths_share_target SpRoot SpRoot = True"
| "special_paths_share_target SpMinimal SpMinimal = True"
| "special_paths_share_target SpTmpdir SpTmpdir = True"
| "special_paths_share_target SpSlashTmp SpSlashTmp = True"
| "special_paths_share_target (SpProjectRoots a) (SpProjectRoots b) = (a = b)"
| "special_paths_share_target (SpUnknown p a) (SpUnknown q b) = (p = q \<and> a = b)"
| "special_paths_share_target _ _ = False"

fun special_path_matches_absolute_path :: "special_path \<Rightarrow> path \<Rightarrow> bool" where
  "special_path_matches_absolute_path SpRoot p = (path_parent p = None)"
| "special_path_matches_absolute_path SpSlashTmp p = (p = slash_tmp)"
| "special_path_matches_absolute_path _ p = False"

fun file_system_paths_share_target :: "fs_path \<Rightarrow> fs_path \<Rightarrow> bool" where
  "file_system_paths_share_target (FsPath a) (FsPath b) = (a = b)"
| "file_system_paths_share_target (FsSpecial a) (FsSpecial b) = special_paths_share_target a b"
| "file_system_paths_share_target (FsPath p) (FsSpecial v) = special_path_matches_absolute_path v p"
| "file_system_paths_share_target (FsSpecial v) (FsPath p) = special_path_matches_absolute_path v p"
| "file_system_paths_share_target (FsGlob a) (FsGlob b) = (a = b)"
| "file_system_paths_share_target (FsGlob _) _ = False"
| "file_system_paths_share_target _ (FsGlob _) = False"

definition has_same_target_write_override :: "sandbox_policy \<Rightarrow> sandbox_entry \<Rightarrow> bool" where
  "has_same_target_write_override pol e =
     list_ex (\<lambda>c. can_write (en_access c) \<and> en_access c > en_access e
                \<and> file_system_paths_share_target (en_path c) (en_path e)) (sp_entries pol)"

definition narrows_write :: "sandbox_policy \<Rightarrow> sandbox_entry \<Rightarrow> bool" where
  "narrows_write pol e =
     (\<not> can_write (en_access e)
      \<and> (case en_path e of
           FsPath _ \<Rightarrow> \<not> has_same_target_write_override pol e
         | FsGlob _ \<Rightarrow> True
         | FsSpecial SpRoot \<Rightarrow> en_access e = Deny
         | FsSpecial SpMinimal \<Rightarrow> False
         | FsSpecial (SpUnknown _ _) \<Rightarrow> False
         | FsSpecial _ \<Rightarrow> \<not> has_same_target_write_override pol e))"

definition has_write_narrowing_entries :: "sandbox_policy \<Rightarrow> bool" where
  "has_write_narrowing_entries pol =
     (sp_kind pol = Restricted \<and> list_ex (narrows_write pol) (sp_entries pol))"

definition has_full_disk_read_access :: "sandbox_policy \<Rightarrow> bool" where
  "has_full_disk_read_access pol =
     (sp_kind pol \<noteq> Restricted \<or> (has_root_access can_read pol \<and> \<not> has_denied_read_restrictions pol))"

definition has_full_disk_write_access :: "sandbox_policy \<Rightarrow> bool" where
  "has_full_disk_write_access pol =
     (sp_kind pol \<noteq> Restricted \<or> (has_root_access can_write pol \<and> \<not> has_write_narrowing_entries pol))"

definition include_platform_defaults :: "sandbox_policy \<Rightarrow> bool" where
  "include_platform_defaults pol =
     (\<not> has_full_disk_read_access pol \<and> sp_kind pol = Restricted
      \<and> list_ex (\<lambda>e. en_path e = FsSpecial SpMinimal \<and> can_read (en_access e)) (sp_entries pol))"

subsection \<open>Workspace metadata\<close>

definition metadata_path_name :: "string \<Rightarrow> string option" where
  "metadata_path_name name = List.find (\<lambda>n. name = n) protected_metadata_path_names"

definition metadata_child :: "path_env \<Rightarrow> path \<Rightarrow> resolved_entry \<Rightarrow> (path \<times> string) option" where
  "metadata_child pe target e =
     (case strip_prefix target (re_path e) of
        Some (Normal n # _) \<Rightarrow>
          map_option (\<lambda>name. (abs_join pe (re_path e) [Normal name], name)) (metadata_path_name n)
      | _ \<Rightarrow> None)"

definition metadata_child_of_writable_root ::
  "path_env \<Rightarrow> sandbox_policy \<Rightarrow> path \<Rightarrow> path \<Rightarrow> (path \<times> string) option" where
  "metadata_child_of_writable_root pe pol target cwd =
     (case List.map_filter (metadata_child pe target)
             (filter (\<lambda>e. can_write (re_access e)) (resolved_entries pe cwd pol)) of
        [] \<Rightarrow> None
      | m # _ \<Rightarrow> Some m)"

definition has_explicit_write_entry ::
  "path_env \<Rightarrow> sandbox_policy \<Rightarrow> path \<Rightarrow> path \<Rightarrow> path \<Rightarrow> bool" where
  "has_explicit_write_entry pe pol meta target cwd =
     list_ex (\<lambda>e. can_write (re_access e) \<and> starts_with target (re_path e) \<and> starts_with (re_path e) meta)
       (resolved_entries pe cwd pol)"

definition is_metadata_write_denied :: "path_env \<Rightarrow> path \<Rightarrow> path \<Rightarrow> sandbox_policy \<Rightarrow> bool" where
  "is_metadata_write_denied pe p cwd pol =
     (if sp_kind pol \<noteq> Restricted then False
      else case resolve_candidate_path pe p cwd of
             None \<Rightarrow> True
           | Some target \<Rightarrow>
               (case metadata_child_of_writable_root pe pol target cwd of
                  None \<Rightarrow> False
                | Some (meta, _) \<Rightarrow> \<not> has_explicit_write_entry pe pol meta target cwd))"

definition can_write_path :: "path_env \<Rightarrow> path \<Rightarrow> path \<Rightarrow> sandbox_policy \<Rightarrow> bool" where
  "can_write_path pe p cwd pol =
     (if \<not> can_write (resolve_access pe p cwd pol) then False
      else if has_full_disk_write_access pol then True
      else \<not> is_metadata_write_denied pe p cwd pol)"

definition forbidden_agent_metadata_write :: "path_env \<Rightarrow> path \<Rightarrow> path \<Rightarrow> sandbox_policy \<Rightarrow> string option" where
  "forbidden_agent_metadata_write pe p cwd pol =
     (if sp_kind pol \<noteq> Restricted then None
      else case resolve_candidate_path pe p cwd of
             None \<Rightarrow> None
           | Some target \<Rightarrow>
               (case metadata_child_of_writable_root pe pol target cwd of
                  None \<Rightarrow> None
                | Some (meta, name) \<Rightarrow>
                    if has_explicit_write_entry pe pol meta target cwd then None
                    else if \<not> can_write_path pe target cwd pol then Some name
                    else None))"

subsection \<open>Paths a sandbox has to mask\<close>

fun first_some :: "('a \<Rightarrow> 'b option) \<Rightarrow> 'a list \<Rightarrow> 'b option" where
  "first_some f [] = None"
| "first_some f (x # xs) = (case f x of Some y \<Rightarrow> Some y | None \<Rightarrow> first_some f xs)"

definition normalize_effective_absolute_path :: "path_env \<Rightarrow> path \<Rightarrow> path" where
  "normalize_effective_absolute_path pe raw =
     (case first_some
             (\<lambda>a. if pe_is_symlink pe a = None then None
                  else (case (canonicalize_preserving_symlinks pe a, strip_prefix raw a) of
                          (Some base, Some rest) \<Rightarrow> from_absolute_path pe (path_join base rest)
                        | _ \<Rightarrow> None))
             (ancestors raw) of
        Some p \<Rightarrow> p
      | None \<Rightarrow> raw)"

fun dedup_loop :: "path list \<Rightarrow> path list \<Rightarrow> path list" where
  "dedup_loop seen [] = []"
| "dedup_loop seen (p # ps) = (if p \<in> set seen then dedup_loop seen ps else p # dedup_loop (p # seen) ps)"

definition dedup_absolute_paths :: "path_env \<Rightarrow> path list \<Rightarrow> bool \<Rightarrow> path list" where
  "dedup_absolute_paths pe ps normalized =
     dedup_loop [] (if normalized then map (normalize_effective_absolute_path pe) ps else ps)"

fun split_once :: "char \<Rightarrow> string \<Rightarrow> (string \<times> string) option" where
  "split_once c [] = None"
| "split_once c (x # s) = (if x = c then Some ([], s) else map_option (\<lambda>(a, b). (x # a, b)) (split_once c s))"

definition is_git_pointer_file :: "path_env \<Rightarrow> path \<Rightarrow> bool" where
  "is_git_pointer_file pe p = (pe_is_file pe p \<and> p \<noteq> [] \<and> last p = Normal ''.git'')"

definition resolve_gitdir_from_file :: "path_env \<Rightarrow> path \<Rightarrow> path option" where
  "resolve_gitdir_from_file pe dot_git =
     (case pe_read_to_string pe dot_git of
        None \<Rightarrow> None
      | Some contents \<Rightarrow>
          (case split_once (CHR '':'') (trim contents) of
             None \<Rightarrow> None
           | Some (pre, gitdir_raw) \<Rightarrow>
               if trim pre \<noteq> ''gitdir'' then None
               else if trim gitdir_raw = [] then None
               else (case path_parent dot_git of
                       None \<Rightarrow> None
                     | Some base \<Rightarrow>
                         (let gitdir = resolve_path_against_base pe (path_of_string (trim gitdir_raw)) base
                          in if pe_exists pe gitdir then Some gitdir else None))))"

definition default_read_only_subpaths :: "path_env \<Rightarrow> path \<Rightarrow> bool \<Rightarrow> path list" where
  "default_read_only_subpaths pe root protect_missing =
     (let git = abs_join pe root [Normal ''.git''];
          agents = abs_join pe root [Normal ''.agents''];
          agentx = abs_join pe root [Normal ''.agentx''];
          gitdir = (if pe_is_file pe git \<and> is_git_pointer_file pe git
                    then (case resolve_gitdir_from_file pe git of Some g \<Rightarrow> [g] | None \<Rightarrow> []) else []);
          gits = (if pe_is_dir pe git \<or> pe_is_file pe git then gitdir @ [git] else [])
      in dedup_absolute_paths pe
           (gits @ (if pe_is_dir pe agents then [agents] else [])
                 @ (if protect_missing \<or> pe_is_dir pe agentx then [agentx] else []))
           False)"

definition append_default_read_only_entry :: "fs_path \<Rightarrow> sandbox_entry list \<Rightarrow> sandbox_entry list" where
  "append_default_read_only_entry p es =
     (if list_ex (\<lambda>e. file_system_paths_share_target (en_path e) p) es then es else es @ [entry p Read])"

definition append_default_read_only_paths :: "path list \<Rightarrow> sandbox_entry list \<Rightarrow> sandbox_entry list" where
  "append_default_read_only_paths ps es = fold (\<lambda>p. append_default_read_only_entry (FsPath p)) ps es"

definition append_default_read_only_project_root_subpath :: "string \<Rightarrow> sandbox_entry list \<Rightarrow> sandbox_entry list" where
  "append_default_read_only_project_root_subpath sub es =
     append_default_read_only_entry (FsSpecial (SpProjectRoots (Some (path_of_string sub)))) es"

subsection \<open>Building policies\<close>

definition workspace_entries :: "path list \<Rightarrow> bool \<Rightarrow> bool \<Rightarrow> sandbox_entry list" where
  "workspace_entries roots exclude_tmpdir exclude_slash_tmp =
     [entry (FsSpecial SpRoot) Read, entry (FsSpecial (SpProjectRoots None)) Write]
     @ (if \<not> exclude_slash_tmp then [entry (FsSpecial SpSlashTmp) Write] else [])
     @ (if \<not> exclude_tmpdir then [entry (FsSpecial SpTmpdir) Write] else [])
     @ map (\<lambda>p. entry (FsPath p) Write) roots"

definition workspace_write :: "path_env \<Rightarrow> path list \<Rightarrow> bool \<Rightarrow> bool \<Rightarrow> sandbox_policy" where
  "workspace_write pe roots exclude_tmpdir exclude_slash_tmp =
     (let es0 = workspace_entries roots exclude_tmpdir exclude_slash_tmp;
          es1 = append_default_read_only_project_root_subpath ''.git'' es0;
          es2 = append_default_read_only_project_root_subpath ''.agents'' es1;
          es3 = append_default_read_only_project_root_subpath ''.agentx'' es2
      in restricted (fold (\<lambda>r. append_default_read_only_paths (default_read_only_subpaths pe r False)) roots es3))"

fun policy_from_legacy :: "path_env \<Rightarrow> legacy_policy \<Rightarrow> sandbox_policy" where
  "policy_from_legacy pe DangerFullAccess = unrestricted"
| "policy_from_legacy pe (LegacyExternalSandbox _) = external_sandbox"
| "policy_from_legacy pe (LegacyReadOnly _) = restricted [entry (FsSpecial SpRoot) Read]"
| "policy_from_legacy pe (WorkspaceWrite roots _ exclude_tmpdir exclude_slash_tmp) =
     workspace_write pe roots exclude_tmpdir exclude_slash_tmp"

fun legacy_has_full_network_access :: "legacy_policy \<Rightarrow> bool" where
  "legacy_has_full_network_access DangerFullAccess = True"
| "legacy_has_full_network_access (LegacyExternalSandbox n) = (n = NetAccessEnabled)"
| "legacy_has_full_network_access (LegacyReadOnly n) = n"
| "legacy_has_full_network_access (WorkspaceWrite _ n _ _) = n"

fun legacy_has_full_disk_write_access :: "legacy_policy \<Rightarrow> bool" where
  "legacy_has_full_disk_write_access DangerFullAccess = True"
| "legacy_has_full_disk_write_access (LegacyExternalSandbox _) = True"
| "legacy_has_full_disk_write_access (LegacyReadOnly _) = False"
| "legacy_has_full_disk_write_access (WorkspaceWrite _ _ _ _) = False"

definition network_from_legacy :: "legacy_policy \<Rightarrow> network_sandbox_policy" where
  "network_from_legacy lp = (if legacy_has_full_network_access lp then NetworkEnabled else NetworkRestricted)"

definition protect_roots :: "path_env \<Rightarrow> path \<Rightarrow> path list \<Rightarrow> sandbox_entry list \<Rightarrow> sandbox_entry list" where
  "protect_roots pe cwd roots es =
     (let es1 = (case from_absolute_path pe cwd of
                   Some c \<Rightarrow> append_default_read_only_paths (default_read_only_subpaths pe c True) es
                 | None \<Rightarrow> es)
      in fold (\<lambda>r. append_default_read_only_paths (default_read_only_subpaths pe r False)) roots es1)"

definition from_legacy_for_cwd :: "path_env \<Rightarrow> legacy_policy \<Rightarrow> path \<Rightarrow> sandbox_policy" where
  "from_legacy_for_cwd pe lp cwd =
     (let pol = policy_from_legacy pe lp in
      case lp of
        WorkspaceWrite roots _ _ _ \<Rightarrow> pol\<lparr>sp_entries := protect_roots pe cwd roots (sp_entries pol)\<rparr>
      | _ \<Rightarrow> pol)"

definition legacy_runtime_policy_for_cwd :: "path_env \<Rightarrow> legacy_policy \<Rightarrow> path \<Rightarrow> sandbox_policy" where
  "legacy_runtime_policy_for_cwd pe lp cwd =
     (case lp of
        WorkspaceWrite roots _ exclude_tmpdir exclude_slash_tmp \<Rightarrow>
          restricted (protect_roots pe cwd roots (workspace_entries roots exclude_tmpdir exclude_slash_tmp))
      | _ \<Rightarrow> policy_from_legacy pe lp)"

definition add_missing_entries :: "sandbox_entry list \<Rightarrow> sandbox_entry list \<Rightarrow> sandbox_entry list" where
  "add_missing_entries new es = fold (\<lambda>e acc. if e \<in> set acc then acc else acc @ [e]) new es"

definition deny_entries :: "sandbox_policy \<Rightarrow> sandbox_entry list" where
  "deny_entries pol = filter (\<lambda>e. en_access e = Deny) (sp_entries pol)"

definition from_legacy_preserving_deny_entries ::
  "path_env \<Rightarrow> legacy_policy \<Rightarrow> path \<Rightarrow> sandbox_policy \<Rightarrow> sandbox_policy" where
  "from_legacy_preserving_deny_entries pe lp cwd existing =
     (let rebuilt = from_legacy_for_cwd pe lp cwd in
      if sp_kind rebuilt \<noteq> Restricted then rebuilt
      else rebuilt\<lparr>sp_glob_scan_max_depth := sp_glob_scan_max_depth existing,
                   sp_entries := add_missing_entries (deny_entries existing) (sp_entries rebuilt)\<rparr>)"

definition preserve_deny_read_restrictions_from :: "sandbox_policy \<Rightarrow> sandbox_policy \<Rightarrow> sandbox_policy" where
  "preserve_deny_read_restrictions_from existing pol =
     (let pol1 = (if sp_kind pol = Unrestricted \<and> deny_entries existing \<noteq> []
                  then restricted [entry (FsSpecial SpRoot) Write] else pol)
      in if sp_kind pol1 \<noteq> Restricted then pol1
         else pol1\<lparr>sp_glob_scan_max_depth :=
                     (case sp_glob_scan_max_depth pol1 of
                        None \<Rightarrow> sp_glob_scan_max_depth existing | Some d \<Rightarrow> Some d),
                   sp_entries := add_missing_entries (deny_entries existing) (sp_entries pol1)\<rparr>)"

subsection \<open>Project roots\<close>

definition project_roots_glob_pattern_prefix :: string where
  "project_roots_glob_pattern_prefix = ''codex-project-roots://''"

definition project_roots_glob_pattern :: "path \<Rightarrow> string" where
  "project_roots_glob_pattern sub = project_roots_glob_pattern_prefix @ path_to_string sub"

definition parse_project_roots_glob_pattern :: "string \<Rightarrow> path option" where
  "parse_project_roots_glob_pattern pat =
     (if prefix project_roots_glob_pattern_prefix pat
      then Some (path_of_string (drop (length project_roots_glob_pattern_prefix) pat)) else None)"

definition resolve_project_roots_glob_pattern :: "path_env \<Rightarrow> path \<Rightarrow> path \<Rightarrow> string" where
  "resolve_project_roots_glob_pattern pe sub root = path_to_string (resolve_path_against_base pe sub root)"

definition materialize_entry_with_cwd :: "path_env \<Rightarrow> path option \<Rightarrow> sandbox_entry \<Rightarrow> sandbox_entry" where
  "materialize_entry_with_cwd pe cwd e =
     (case en_path e of
        FsSpecial (SpProjectRoots _) \<Rightarrow>
          (case resolve_fs_path pe (en_path e) cwd of
             Some p \<Rightarrow> e\<lparr>en_path := FsPath p\<rparr>
           | None \<Rightarrow> e)
      | FsGlob pat \<Rightarrow>
          (case (cwd, parse_project_roots_glob_pattern pat) of
             (Some c, Some sub) \<Rightarrow> e\<lparr>en_path := FsGlob (resolve_project_roots_glob_pattern pe sub c)\<rparr>
           | _ \<Rightarrow> e)
      | _ \<Rightarrow> e)"

definition materialize_project_roots_with_cwd :: "path_env \<Rightarrow> path \<Rightarrow> sandbox_policy \<Rightarrow> sandbox_policy" where
  "materialize_project_roots_with_cwd pe cwd pol =
     pol\<lparr>sp_entries := map (materialize_entry_with_cwd pe (from_absolute_path pe cwd)) (sp_entries pol)\<rparr>"

definition materialize_entry_with_roots :: "path_env \<Rightarrow> path list \<Rightarrow> sandbox_entry \<Rightarrow> sandbox_entry list" where
  "materialize_entry_with_roots pe roots e =
     (case en_path e of
        FsSpecial (SpProjectRoots sub) \<Rightarrow>
          map (\<lambda>r. entry (FsPath (case sub of Some s \<Rightarrow> resolve_path_against_base pe s r | None \<Rightarrow> r)) (en_access e)) roots
      | FsGlob pat \<Rightarrow>
          (case parse_project_roots_glob_pattern pat of
             Some sub \<Rightarrow> map (\<lambda>r. entry (FsGlob (resolve_project_roots_glob_pattern pe sub r)) (en_access e)) roots
           | None \<Rightarrow> [entry (FsGlob pat) (en_access e)])
      | FsPath p \<Rightarrow> [entry (FsPath p) (en_access e)]
      | FsSpecial v \<Rightarrow> [entry (FsSpecial v) (en_access e)])"

definition materialize_project_roots_with_workspace_roots :: "path_env \<Rightarrow> path list \<Rightarrow> sandbox_policy \<Rightarrow> sandbox_policy" where
  "materialize_project_roots_with_workspace_roots pe roots pol =
     pol\<lparr>sp_entries := concat (map (materialize_entry_with_roots pe roots) (sp_entries pol))\<rparr>"

definition with_materialized_project_roots :: "path_env \<Rightarrow> path list \<Rightarrow> sandbox_policy \<Rightarrow> sandbox_policy" where
  "with_materialized_project_roots pe roots pol =
     pol\<lparr>sp_entries := add_missing_entries
           (sp_entries (materialize_project_roots_with_workspace_roots pe roots pol)) (sp_entries pol)\<rparr>"
subsection \<open>Adding roots\<close>

definition with_additional_readable_roots :: "path_env \<Rightarrow> path \<Rightarrow> path list \<Rightarrow> sandbox_policy \<Rightarrow> sandbox_policy" where
  "with_additional_readable_roots pe cwd roots pol =
     (if has_full_disk_read_access pol then pol
      else fold (\<lambda>p acc. if can_read_path pe p cwd acc then acc
                         else acc\<lparr>sp_entries := sp_entries acc @ [entry (FsPath p) Read]\<rparr>) roots pol)"

definition with_additional_writable_roots :: "path_env \<Rightarrow> path \<Rightarrow> path list \<Rightarrow> sandbox_policy \<Rightarrow> sandbox_policy" where
  "with_additional_writable_roots pe cwd roots pol =
     fold (\<lambda>p acc. if can_write_path pe p cwd acc then acc
                   else acc\<lparr>sp_entries := sp_entries acc @ [entry (FsPath p) Write]\<rparr>) roots pol"

definition add_legacy_root :: "path_env \<Rightarrow> path \<Rightarrow> sandbox_entry list \<Rightarrow> sandbox_entry list" where
  "add_legacy_root pe p es =
     append_default_read_only_paths (default_read_only_subpaths pe p False)
       (if list_ex (\<lambda>e. can_write (en_access e) \<and> en_path e = FsPath p) es then es
        else es @ [entry (FsPath p) Write])"

definition with_additional_legacy_workspace_writable_roots ::
  "path_env \<Rightarrow> path list \<Rightarrow> sandbox_policy \<Rightarrow> sandbox_policy" where
  "with_additional_legacy_workspace_writable_roots pe roots pol =
     (if sp_kind pol \<noteq> Restricted then pol
      else pol\<lparr>sp_entries := fold (add_legacy_root pe) roots (sp_entries pol)\<rparr>)"

subsection \<open>What a sandbox is told\<close>

definition get_readable_roots :: "path_env \<Rightarrow> path \<Rightarrow> sandbox_policy \<Rightarrow> path list" where
  "get_readable_roots pe cwd pol =
     (if has_full_disk_read_access pol then []
      else dedup_absolute_paths pe
             (map re_path (filter (\<lambda>e. can_read (re_access e) \<and> can_read_path pe (re_path e) cwd pol)
               (resolved_entries pe cwd pol))) True)"

definition has_explicit_resolved_path_entry :: "resolved_entry list \<Rightarrow> path \<Rightarrow> bool" where
  "has_explicit_resolved_path_entry es p = list_ex (\<lambda>e. re_path e = p) es"

definition protected_metadata_names_for_writable_root ::
  "path_env \<Rightarrow> sandbox_policy \<Rightarrow> path \<Rightarrow> path list \<Rightarrow> path \<Rightarrow> string list" where
  "protected_metadata_names_for_writable_root pe pol root raw_roots cwd =
     filter (\<lambda>name. list_all (\<lambda>r. \<not> can_write_path pe (abs_join pe r [Normal name]) cwd pol) (root # raw_roots))
       protected_metadata_path_names"

definition raw_carveout_path :: "path_env \<Rightarrow> path \<Rightarrow> path list \<Rightarrow> path \<Rightarrow> path option" where
  "raw_carveout_path pe root raw_roots p =
     (if path_parent root = None then None
      else if p = root then None
      else if starts_with p root then Some p
      else first_some
             (\<lambda>raw. case strip_prefix p raw of
                       Some rest \<Rightarrow> if rest = [] then None else Some (abs_join pe root rest)
                     | None \<Rightarrow> None) raw_roots)"

definition carveout :: "path_env \<Rightarrow> path \<Rightarrow> path list \<Rightarrow> resolved_entry \<Rightarrow> path option" where
  "carveout pe root raw_roots e =
     (case raw_carveout_path pe root raw_roots (re_path e) of
        Some p \<Rightarrow> Some p
      | None \<Rightarrow>
          (let eff = normalize_effective_absolute_path pe (re_path e) in
           if eff = root \<or> \<not> starts_with eff root then None else Some eff))"

definition writable_root_of ::
  "path_env \<Rightarrow> path \<Rightarrow> sandbox_policy \<Rightarrow> path list \<Rightarrow> path \<Rightarrow> writable_root" where
  "writable_root_of pe cwd pol writable root =
     (let es = resolved_entries pe cwd pol;
          raw_roots = filter (\<lambda>p. normalize_effective_absolute_path pe p = root) writable;
          protect_missing = (case from_absolute_path pe cwd of
                               Some c \<Rightarrow> normalize_effective_absolute_path pe c = root | None \<Rightarrow> False);
          defaults = filter (\<lambda>p. \<not> has_explicit_resolved_path_entry es p) (default_read_only_subpaths pe root protect_missing);
          carved = List.map_filter (carveout pe root raw_roots)
                     (filter (\<lambda>e. \<not> can_write (re_access e) \<and> \<not> can_write_path pe (re_path e) cwd pol) es)
      in \<lparr>wr_root = root,
          wr_read_only_subpaths = dedup_absolute_paths pe (defaults @ carved) False,
          wr_protected_metadata_names = protected_metadata_names_for_writable_root pe pol root raw_roots cwd\<rparr>)"

definition get_writable_roots :: "path_env \<Rightarrow> path \<Rightarrow> sandbox_policy \<Rightarrow> writable_root list" where
  "get_writable_roots pe cwd pol =
     (if has_full_disk_write_access pol then []
      else (let writable = map re_path (filter (\<lambda>e. can_write (re_access e) \<and> can_write_path pe (re_path e) cwd pol)
                             (resolved_entries pe cwd pol))
            in map (writable_root_of pe cwd pol writable) (dedup_absolute_paths pe writable True)))"

definition get_unreadable_roots :: "path_env \<Rightarrow> path \<Rightarrow> sandbox_policy \<Rightarrow> path list" where
  "get_unreadable_roots pe cwd pol =
     (if sp_kind pol \<noteq> Restricted then []
      else dedup_absolute_paths pe
             (map re_path
               (filter (\<lambda>e. re_access e = Deny \<and> \<not> can_read_path pe (re_path e) cwd pol
                          \<and> map_option absolute_root_path_for_cwd (from_absolute_path pe cwd) \<noteq> Some (re_path e))
                 (resolved_entries pe cwd pol))) True)"

fun lex_le :: "string \<Rightarrow> string \<Rightarrow> bool" where
  "lex_le [] t = True"
| "lex_le (a # s) [] = False"
| "lex_le (a # s) (b # t) = ((of_char a :: nat) < of_char b \<or> (a = b \<and> lex_le s t))"

fun insert_by :: "('a \<Rightarrow> 'a \<Rightarrow> bool) \<Rightarrow> 'a \<Rightarrow> 'a list \<Rightarrow> 'a list" where
  "insert_by le x [] = [x]"
| "insert_by le x (y # ys) = (if le x y then x # y # ys else y # insert_by le x ys)"

definition sort_by :: "('a \<Rightarrow> 'a \<Rightarrow> bool) \<Rightarrow> 'a list \<Rightarrow> 'a list" where
  "sort_by le xs = foldr (insert_by le) xs []"

definition get_unreadable_globs :: "path_env \<Rightarrow> path \<Rightarrow> sandbox_policy \<Rightarrow> string list" where
  "get_unreadable_globs pe cwd pol =
     (if sp_kind pol \<noteq> Restricted then []
      else remdups_adj (sort_by lex_le
             (List.map_filter
               (\<lambda>e. case en_path e of
                       FsGlob pat \<Rightarrow> Some (path_to_string (resolve_path_against_base pe (path_of_string pat) cwd))
                     | _ \<Rightarrow> None) (deny_entries pol))))"

subsection \<open>Matching denied reads\<close>

definition push_unique :: "'a list \<Rightarrow> 'a \<Rightarrow> 'a list" where
  "push_unique cs c = (if c \<in> set cs then cs else cs @ [c])"

definition normalized_and_canonical_candidates :: "path_env \<Rightarrow> path \<Rightarrow> path list" where
  "normalized_and_canonical_candidates pe p =
     (let cs = push_unique [] (case from_absolute_path pe p of Some n \<Rightarrow> n | None \<Rightarrow> p)
      in case Option.bind (pe_canonicalize pe p) (from_absolute_path pe) of
           Some c \<Rightarrow> push_unique cs c
         | None \<Rightarrow> cs)"

record read_deny_matcher =
  rm_denied_candidates :: "path list list"
  rm_deny_read_matchers :: "(path \<Rightarrow> bool) list"
  rm_invalid_pattern :: bool

datatype invalid_glob_behavior = FailClosed | ReturnError

type_synonym glob_compiler = "string \<Rightarrow> string + (path \<Rightarrow> bool)"

fun compile_globs ::
  "glob_compiler \<Rightarrow> invalid_glob_behavior \<Rightarrow> string list \<Rightarrow> string + ((path \<Rightarrow> bool) list \<times> bool)" where
  "compile_globs glob beh [] = Inr ([], False)"
| "compile_globs glob beh (pat # pats) =
     (case glob pat of
        Inr m \<Rightarrow>
          (case compile_globs glob beh pats of
             Inl e \<Rightarrow> Inl e
           | Inr (ms, bad) \<Rightarrow> Inr (m # ms, bad))
      | Inl err \<Rightarrow>
          (case beh of
             ReturnError \<Rightarrow> Inl (''invalid deny-read glob pattern `'' @ pat @ ''`: '' @ err)
           | FailClosed \<Rightarrow>
               (case compile_globs glob beh pats of
                  Inl e \<Rightarrow> Inl e
                | Inr (ms, bad) \<Rightarrow> Inr (ms, True))))"

definition matcher_build ::
  "path_env \<Rightarrow> glob_compiler \<Rightarrow> sandbox_policy \<Rightarrow> path \<Rightarrow> invalid_glob_behavior
     \<Rightarrow> string + read_deny_matcher option" where
  "matcher_build pe glob pol cwd beh =
     (if \<not> has_denied_read_restrictions pol then Inr None
      else case compile_globs glob beh (get_unreadable_globs pe cwd pol) of
             Inl e \<Rightarrow> Inl e
           | Inr (ms, bad) \<Rightarrow>
               Inr (Some \<lparr>rm_denied_candidates = map (normalized_and_canonical_candidates pe) (get_unreadable_roots pe cwd pol),
                          rm_deny_read_matchers = ms, rm_invalid_pattern = bad\<rparr>))"

definition is_read_denied :: "path_env \<Rightarrow> path \<Rightarrow> read_deny_matcher \<Rightarrow> bool" where
  "is_read_denied pe p m =
     (if rm_invalid_pattern m then True
      else (let cs = normalized_and_canonical_candidates pe p in
            if list_ex (\<lambda>ds. list_ex (\<lambda>c. list_ex (\<lambda>d. c = d \<or> starts_with c d) ds) cs) (rm_denied_candidates m) then True
            else list_ex (\<lambda>g. list_ex g cs) (rm_deny_read_matchers m)))"

subsection \<open>The legacy policy\<close>

record legacy_scan =
  ls_workspace_root_writable :: bool
  ls_writable_roots :: "path list"
  ls_tmpdir_writable :: bool
  ls_slash_tmp_writable :: bool
  ls_unbridgeable_root_write :: bool

definition legacy_scan_entry :: "path_env \<Rightarrow> path option \<Rightarrow> sandbox_entry \<Rightarrow> legacy_scan \<Rightarrow> legacy_scan" where
  "legacy_scan_entry pe cwd e ls =
     (let w = can_write (en_access e) in
      case en_path e of
        FsGlob _ \<Rightarrow> ls
      | FsPath p \<Rightarrow>
          if \<not> w then ls
          else if cwd = Some p then ls\<lparr>ls_workspace_root_writable := True\<rparr>
          else ls\<lparr>ls_writable_roots := ls_writable_roots ls @ [p]\<rparr>
      | FsSpecial SpRoot \<Rightarrow> (if en_access e = Write then ls\<lparr>ls_unbridgeable_root_write := True\<rparr> else ls)
      | FsSpecial SpMinimal \<Rightarrow> ls
      | FsSpecial (SpProjectRoots sub) \<Rightarrow>
          if sub = None \<and> w then ls\<lparr>ls_workspace_root_writable := True\<rparr>
          else (case resolve_special_path pe (SpProjectRoots sub) cwd of
                  Some p \<Rightarrow> if w then ls\<lparr>ls_writable_roots := ls_writable_roots ls @ [p]\<rparr> else ls
                | None \<Rightarrow> ls)
      | FsSpecial SpTmpdir \<Rightarrow> (if w then ls\<lparr>ls_tmpdir_writable := True\<rparr> else ls)
      | FsSpecial SpSlashTmp \<Rightarrow> (if w then ls\<lparr>ls_slash_tmp_writable := True\<rparr> else ls)
      | FsSpecial (SpUnknown _ _) \<Rightarrow> ls)"

definition legacy_scan_start :: legacy_scan where
  "legacy_scan_start =
     \<lparr>ls_workspace_root_writable = False, ls_writable_roots = [], ls_tmpdir_writable = False,
      ls_slash_tmp_writable = False, ls_unbridgeable_root_write = False\<rparr>"

definition full_access_legacy :: "network_sandbox_policy \<Rightarrow> legacy_policy" where
  "full_access_legacy net =
     (if network_is_enabled net then DangerFullAccess else LegacyExternalSandbox NetAccessRestricted)"

definition to_legacy_sandbox_policy ::
  "path_env \<Rightarrow> network_sandbox_policy \<Rightarrow> path \<Rightarrow> sandbox_policy \<Rightarrow> io_error + legacy_policy" where
  "to_legacy_sandbox_policy pe net cwd pol =
     (case sp_kind pol of
        ExternalSandbox \<Rightarrow>
          Inr (LegacyExternalSandbox (if network_is_enabled net then NetAccessEnabled else NetAccessRestricted))
      | Unrestricted \<Rightarrow> Inr (full_access_legacy net)
      | Restricted \<Rightarrow>
          (let ls = fold (legacy_scan_entry pe (from_absolute_path pe cwd)) (sp_entries pol) legacy_scan_start in
           if has_full_disk_write_access pol then Inr (full_access_legacy net)
           else if ls_workspace_root_writable ls
           then Inr (WorkspaceWrite (dedup_absolute_paths pe (ls_writable_roots ls) False) (network_is_enabled net)
                       (\<not> ls_tmpdir_writable ls) (\<not> ls_slash_tmp_writable ls))
           else if ls_unbridgeable_root_write ls \<or> ls_writable_roots ls \<noteq> [] \<or> ls_tmpdir_writable ls
             \<or> ls_slash_tmp_writable ls
           then Inl \<lparr>ioe_kind = InvalidInput, ioe_message =
               ''permissions profile requests filesystem writes outside the workspace root, which is not supported until the runtime enforces FileSystemSandboxPolicy directly''\<rparr>
           else Inr (LegacyReadOnly (network_is_enabled net))))"

definition legacy_get_writable_roots :: "path_env \<Rightarrow> path \<Rightarrow> legacy_policy \<Rightarrow> writable_root list" where
  "legacy_get_writable_roots pe cwd lp =
     (case lp of
        WorkspaceWrite writable_roots _ exclude_tmpdir exclude_slash_tmp \<Rightarrow>
          (let c = from_absolute_path pe cwd;
               tmp = (case pe_tmpdir pe of
                        Some t \<Rightarrow> if t = [] then [] else (case from_absolute_path pe t of Some p \<Rightarrow> [p] | None \<Rightarrow> [])
                      | None \<Rightarrow> []);
               roots = writable_roots @ (case c of Some p \<Rightarrow> [p] | None \<Rightarrow> [])
                       @ (if \<not> exclude_slash_tmp \<and> pe_is_dir pe slash_tmp then [slash_tmp] else [])
                       @ (if \<not> exclude_tmpdir then tmp else [])
           in map (\<lambda>r. \<lparr>wr_root = r, wr_read_only_subpaths = default_read_only_subpaths pe r (c = Some r),
                        wr_protected_metadata_names = []\<rparr>) roots)
      | _ \<Rightarrow> [])"

definition path_contains_protected_metadata_name :: "path \<Rightarrow> writable_root \<Rightarrow> bool" where
  "path_contains_protected_metadata_name p wr =
     (case strip_prefix p (wr_root wr) of
        Some (c # _) \<Rightarrow> list_ex (\<lambda>name. component_str c = name) (wr_protected_metadata_names wr)
      | _ \<Rightarrow> False)"

definition is_path_writable :: "path \<Rightarrow> writable_root \<Rightarrow> bool" where
  "is_path_writable p wr =
     (starts_with p (wr_root wr)
      \<and> \<not> list_ex (\<lambda>sub. starts_with p sub) (wr_read_only_subpaths wr)
      \<and> \<not> path_contains_protected_metadata_name p wr)"

definition metadata_names_need_enforcement :: "path_env \<Rightarrow> sandbox_policy \<Rightarrow> legacy_policy \<Rightarrow> path \<Rightarrow> bool" where
  "metadata_names_need_enforcement pe pol lp cwd =
     list_ex (\<lambda>wr.
        case List.find (\<lambda>c. wr_root c = wr_root wr) (legacy_get_writable_roots pe cwd lp) of
          None \<Rightarrow> wr_protected_metadata_names wr \<noteq> []
        | Some l \<Rightarrow>
            list_ex (\<lambda>name. \<not> list_ex (\<lambda>sub. sub = abs_join pe (wr_root wr) [Normal name]) (wr_read_only_subpaths l))
              (wr_protected_metadata_names wr))
       (get_writable_roots pe cwd pol)"

text \<open>Component order of \<^verbatim>\<open>Path::cmp\<close>.\<close>

fun component_rank :: "component \<Rightarrow> nat" where
  "component_rank RootDir = 1"
| "component_rank CurDir = 2"
| "component_rank ParentDir = 3"
| "component_rank (Normal _) = 4"

fun path_le :: "path \<Rightarrow> path \<Rightarrow> bool" where
  "path_le [] q = True"
| "path_le (a # p) [] = False"
| "path_le (a # p) (b # q) =
     (if a = b then path_le p q
      else if component_rank a \<noteq> component_rank b then component_rank a < component_rank b
      else lex_le (component_str a) (component_str b))"

record semantic_signature =
  sg_has_full_disk_read_access :: bool
  sg_has_full_disk_write_access :: bool
  sg_include_platform_defaults :: bool
  sg_readable_roots :: "path list"
  sg_writable_roots :: "writable_root list"
  sg_unreadable_roots :: "path list"
  sg_unreadable_globs :: "string list"

definition sorted_writable_roots :: "writable_root list \<Rightarrow> writable_root list" where
  "sorted_writable_roots wrs =
     sort_by (\<lambda>a b. path_le (wr_root a) (wr_root b))
       (map (\<lambda>wr. wr\<lparr>wr_read_only_subpaths := sort_by path_le (wr_read_only_subpaths wr),
                     wr_protected_metadata_names := remdups_adj (sort_by lex_le (wr_protected_metadata_names wr))\<rparr>) wrs)"

definition signature_of :: "path_env \<Rightarrow> path \<Rightarrow> sandbox_policy \<Rightarrow> semantic_signature" where
  "signature_of pe cwd pol =
     \<lparr>sg_has_full_disk_read_access = has_full_disk_read_access pol,
      sg_has_full_disk_write_access = has_full_disk_write_access pol,
      sg_include_platform_defaults = include_platform_defaults pol,
      sg_readable_roots = sort_by path_le (get_readable_roots pe cwd pol),
      sg_writable_roots = sorted_writable_roots (get_writable_roots pe cwd pol),
      sg_unreadable_roots = sort_by path_le (get_unreadable_roots pe cwd pol),
      sg_unreadable_globs = get_unreadable_globs pe cwd pol\<rparr>"

definition is_semantically_equivalent :: "path_env \<Rightarrow> path \<Rightarrow> sandbox_policy \<Rightarrow> sandbox_policy \<Rightarrow> bool" where
  "is_semantically_equivalent pe cwd a b = (signature_of pe cwd a = signature_of pe cwd b)"

definition needs_direct_runtime_enforcement ::
  "path_env \<Rightarrow> network_sandbox_policy \<Rightarrow> path \<Rightarrow> sandbox_policy \<Rightarrow> bool" where
  "needs_direct_runtime_enforcement pe net cwd pol =
     (if sp_kind pol \<noteq> Restricted then False
      else case to_legacy_sandbox_policy pe net cwd pol of
             Inl _ \<Rightarrow> True
           | Inr lp \<Rightarrow>
               if metadata_names_need_enforcement pe pol lp cwd then True
               else signature_of pe cwd pol \<noteq> signature_of pe cwd (legacy_runtime_policy_for_cwd pe lp cwd))"
end
