(* ===== verification/Permission_Laws.thy ===== *)
theory Permission_Laws
  imports Permissions
begin

text \<open>
  What the permission model of \<open>Permissions\<close> guarantees: which entry decides, that full-disk access means
  what it says, that workspace metadata stays protected, and that conversions keep the meaning.
\<close>

subsection \<open>Well-formed policies\<close>

text \<open>Paths in a policy are of type \<^verbatim>\<open>AbsolutePathBuf\<close>, subpaths come from strings.\<close>

fun fs_path_ok :: "fs_path \<Rightarrow> bool" where
  "fs_path_ok (FsPath p) = abs_path p"
| "fs_path_ok (FsSpecial (SpProjectRoots (Some sub))) = proper_path sub"
| "fs_path_ok _ = True"

definition policy_ok :: "sandbox_policy \<Rightarrow> bool" where
  "policy_ok pol \<longleftrightarrow> list_all (\<lambda>e. fs_path_ok (en_path e)) (sp_entries pol)"

definition tmpdir_ok :: "path_env \<Rightarrow> bool" where
  "tmpdir_ok pe \<longleftrightarrow> (\<forall>t. pe_tmpdir pe = Some t \<longrightarrow> proper_path t)"

lemma from_absolute_path_abs:
  assumes "path_env_ok pe" and "proper_path p" and "from_absolute_path pe p = Some q"
  shows "abs_path q"
proof -
  have e: "proper_path (maybe_expand_home_directory pe p)" by (rule expand_home_proper [OF assms(1,2)])
  show ?thesis
    using assms(1,3) e normalize_path_abs absolutize_from_abs [OF _ _ e]
    by (auto simp: from_absolute_path_def absolutize_def path_env_ok_def split: if_splits)
qed

lemma resolve_against_abs:
  "path_env_ok pe \<Longrightarrow> proper_path p \<Longrightarrow> abs_path base \<Longrightarrow> abs_path (resolve_path_against_base pe p base)"
  using absolutize_from_abs [OF _ _ expand_home_proper] abs_path_absolute
  by (auto simp: resolve_path_against_base_def)

lemma from_absolute_path_id: "path_env_ok pe \<Longrightarrow> abs_path p \<Longrightarrow> from_absolute_path pe p = Some p"
  using expand_home_absolute [of pe p] abs_path_absolute [of p] normalize_path_id [of p]
  by (simp add: from_absolute_path_def absolutize_def)

lemma ancestors_root [simp]: "ancestors [RootDir] = [[RootDir]]"
  by (subst ancestors.simps) (simp add: path_parent_def)

lemma ancestors_snoc: "q \<noteq> [] \<Longrightarrow> ancestors (q @ [Normal n]) = (q @ [Normal n]) # ancestors q"
  by (subst ancestors.simps) (simp add: path_parent_def)

lemma abs_path_induct [consumes 1, case_names root snoc]:
  assumes "abs_path p" and "P [RootDir]" and "\<And>q n. abs_path q \<Longrightarrow> P q \<Longrightarrow> P (q @ [Normal n])"
  shows "P p"
proof -
  obtain ns where p: "p = RootDir # map Normal ns" using assms(1) by (rule abs_pathE)
  have "P (RootDir # map Normal ns)"
  proof (induction ns rule: rev_induct)
    case (snoc n ns)
    then show ?case using assms(3) [of "RootDir # map Normal ns" n] by (auto simp: abs_path_iff)
  qed (simp add: assms(2))
  then show ?thesis by (simp add: p)
qed

lemma root_of_abs: "abs_path p \<Longrightarrow> absolute_root_path_for_cwd p = [RootDir]"
proof (induction rule: abs_path_induct)
  case (snoc q n)
  then have "q \<noteq> []" by (auto simp: abs_path_def)
  then show ?case using snoc ancestors.simps [of q] by (simp add: absolute_root_path_for_cwd_def ancestors_snoc)
qed (simp add: absolute_root_path_for_cwd_def)

lemma abs_parentless: "abs_path p \<Longrightarrow> path_parent p = None \<longleftrightarrow> p = [RootDir]"
  by (induction rule: abs_path_induct) (auto simp: path_parent_def abs_path_def)

lemma resolve_entry_path_abs:
  assumes "path_env_ok pe" and "tmpdir_ok pe" and "fs_path_ok fp" and "\<And>c. cwd = Some c \<Longrightarrow> abs_path c"
    and "resolve_entry_path pe fp cwd = Some p"
  shows "abs_path p"
proof (cases fp)
  case (FsSpecial v)
  show ?thesis
  proof (cases v)
    case SpRoot
    then show ?thesis using assms(4,5) FsSpecial root_of_abs by (auto simp: resolve_entry_path_def abs_path_def)
  next
    case (SpProjectRoots sub)
    then show ?thesis
      using assms(1,3-5) FsSpecial resolve_against_abs
      by (cases sub) (auto simp: resolve_entry_path_def split: option.splits)
  next
    case SpTmpdir
    then show ?thesis
      using assms(1,2,5) FsSpecial from_absolute_path_abs
      by (auto simp: resolve_entry_path_def tmpdir_ok_def split: option.splits if_splits)
  next
    case SpSlashTmp
    then show ?thesis using assms(5) FsSpecial
      by (auto simp: resolve_entry_path_def slash_tmp_def abs_path_def split: if_splits)
  qed (use assms(5) FsSpecial in \<open>simp_all add: resolve_entry_path_def\<close>)
qed (use assms(3,5) in \<open>simp_all add: resolve_entry_path_def\<close>)

lemma resolved_entries_iff:
  "r \<in> set (resolved_entries pe cwd pol) \<longleftrightarrow>
     (\<exists>e \<in> set (sp_entries pol). re_access r = en_access e
        \<and> resolve_entry_path pe (en_path e) (from_absolute_path pe cwd) = Some (re_path r))"
  unfolding resolved_entries_def List.map_filter_def by (cases r) force

lemma resolved_entries_abs:
  assumes "path_env_ok pe" and "tmpdir_ok pe" and "policy_ok pol" and "proper_path cwd"
    and "r \<in> set (resolved_entries pe cwd pol)"
  shows "abs_path (re_path r)"
proof -
  obtain e where e: "e \<in> set (sp_entries pol)"
    "resolve_entry_path pe (en_path e) (from_absolute_path pe cwd) = Some (re_path r)"
    using assms(5) unfolding resolved_entries_iff by blast
  have "fs_path_ok (en_path e)" using assms(3) e(1) by (simp add: policy_ok_def list_all_iff)
  then show ?thesis
    using resolve_entry_path_abs [OF assms(1,2) _ _ e(2)] from_absolute_path_abs [OF assms(1,4)] by blast
qed

subsection \<open>The most specific entry decides\<close>

text \<open>
  The reference: walk from the path up to the root; the first directory with entries of its own
  decides, by the greatest of their modes; without any, access is denied.
\<close>

fun nearest_access :: "resolved_entry list \<Rightarrow> path list \<Rightarrow> access_mode" where
  "nearest_access es [] = Deny"
| "nearest_access es (a # as) =
     (let here = map re_access (filter (\<lambda>e. re_path e = a) es)
      in if here = [] then nearest_access es as else Max (set here))"

lemma precedence_le_total: "\<not> precedence_le a b \<Longrightarrow> precedence_le b a"
  by (auto simp: precedence_le_def)

lemma precedence_le_trans: "precedence_le a b \<Longrightarrow> precedence_le b c \<Longrightarrow> precedence_le a c"
  by (auto simp: precedence_le_def)

lemma max_by_precedence_None [simp]: "max_by_precedence es = None \<longleftrightarrow> es = []"
  by (cases es) (auto split: option.splits)

lemma max_by_precedence_Some:
  "max_by_precedence es = Some m \<Longrightarrow>
     m \<in> set es \<and> (\<forall>e \<in> set es. precedence_le (resolved_entry_precedence e) (resolved_entry_precedence m))"
proof (induction es arbitrary: m)
  case (Cons e es)
  have refl: "precedence_le a a" for a by (simp add: precedence_le_def)
  show ?case
  proof (cases "max_by_precedence es")
    case None
    then show ?thesis using Cons(2) refl by simp
  next
    case (Some f)
    let ?k = resolved_entry_precedence
    have f: "f \<in> set es" "\<forall>x \<in> set es. precedence_le (?k x) (?k f)" using Cons(1) [OF Some] by auto
    show ?thesis
    proof (cases "precedence_le (?k e) (?k f)")
      case True
      then show ?thesis using Cons(2) Some f by simp
    next
      case False
      then have "\<forall>x \<in> set es. precedence_le (?k x) (?k e)"
        using f(2) precedence_le_total precedence_le_trans by blast
      then show ?thesis using Cons(2) Some False refl by simp
    qed
  qed
qed simp

lemma max_by_precedence_exact:
  assumes "filter (\<lambda>e. re_path e = q) es \<noteq> []"
  shows "\<exists>m. max_by_precedence (filter (\<lambda>e. starts_with q (re_path e)) es) = Some m
    \<and> re_access m = Max (set (map re_access (filter (\<lambda>e. re_path e = q) es)))"
proof -
  let ?fs = "filter (\<lambda>e. starts_with q (re_path e)) es" and ?here = "filter (\<lambda>e. re_path e = q) es"
  obtain e0 where e0: "e0 \<in> set ?here" using assms by (cases ?here) auto
  then have "?fs \<noteq> []" by (auto simp: filter_empty_conv)
  then obtain m where m: "max_by_precedence ?fs = Some m" using max_by_precedence_None [of ?fs] by blast
  have le: "precedence_le (resolved_entry_precedence e) (resolved_entry_precedence m)" if "e \<in> set ?fs" for e
    using max_by_precedence_Some [OF m] that by blast
  have "m \<in> set ?fs" using max_by_precedence_Some [OF m] by blast
  moreover have "length q \<le> length (re_path m)"
    using le [of e0] e0 by (auto simp: precedence_le_def resolved_entry_precedence_def)
  ultimately have mq: "re_path m = q" "m \<in> set es" by (auto simp: prefix_def)
  have "re_access m = Max (set (map re_access ?here))"
  proof (rule Max_eqI [symmetric])
    fix a assume "a \<in> set (map re_access ?here)"
    then obtain e where "e \<in> set es" "re_path e = q" "a = re_access e" by auto
    then show "a \<le> re_access m" using le [of e] mq by (auto simp: precedence_le_def resolved_entry_precedence_def)
  qed (use mq in auto)
  then show ?thesis using m by blast
qed

lemma nearest_access_max:
  assumes "abs_path q" and es: "\<forall>e \<in> set es. abs_path (re_path e)"
  shows "nearest_access es (ancestors q) =
    (case max_by_precedence (filter (\<lambda>e. starts_with q (re_path e)) es) of None \<Rightarrow> Deny | Some e \<Rightarrow> re_access e)"
  using assms(1)
proof (induction rule: abs_path_induct)
  case root
  have "filter (\<lambda>e. starts_with [RootDir] (re_path e)) es = filter (\<lambda>e. re_path e = [RootDir]) es"
    using es by (intro filter_cong) (auto simp: prefix_Cons abs_path_def)
  then show ?case
    using max_by_precedence_exact [of "[RootDir]" es] by (cases "filter (\<lambda>e. re_path e = [RootDir]) es = []") auto
next
  case (snoc q n)
  let ?q = "q @ [Normal n]"
  have q: "q \<noteq> []" using snoc by (auto simp: abs_path_def)
  show ?case
  proof (cases "filter (\<lambda>e. re_path e = ?q) es = []")
    case True
    then have "filter (\<lambda>e. starts_with ?q (re_path e)) es = filter (\<lambda>e. starts_with q (re_path e)) es"
      by (intro filter_cong) (auto simp: prefix_snoc filter_empty_conv)
    then show ?thesis using snoc True q by (simp add: ancestors_snoc)
  next
    case False
    then show ?thesis using max_by_precedence_exact [OF False] q by (auto simp: ancestors_snoc Let_def)
  qed
qed

lemma resolve_candidate_abs:
  "path_env_ok pe \<Longrightarrow> proper_path p \<Longrightarrow> proper_path cwd \<Longrightarrow> resolve_candidate_path pe p cwd = Some q \<Longrightarrow> abs_path q"
  using from_absolute_path_abs [of pe] resolve_against_abs [of pe p]
  by (auto simp: resolve_candidate_path_def abs_join_def split: if_splits)

text \<open>
  C35. Which access a path gets is what walking up its ancestors finds: the nearest directory that has
  entries of its own decides, where deny beats write and write beats read; a path with no such
  ancestor is denied, and so is one that cannot be made absolute.
\<close>

theorem nearest_entry_decides:
  assumes "path_env_ok pe" and "tmpdir_ok pe" and "policy_ok pol" and "proper_path cwd" and "proper_path p"
    and "sp_kind pol = Restricted"
  shows "resolve_access pe p cwd pol =
    (case resolve_candidate_path pe p cwd of
       None \<Rightarrow> Deny
     | Some q \<Rightarrow> nearest_access (resolved_entries pe cwd pol) (ancestors q))"
proof (cases "resolve_candidate_path pe p cwd")
  case (Some q)
  have es: "\<forall>e \<in> set (resolved_entries pe cwd pol). abs_path (re_path e)"
    using resolved_entries_abs [OF assms(1-4)] by blast
  show ?thesis
    using nearest_access_max [OF resolve_candidate_abs [OF assms(1,5,4) Some] es] assms(6) Some
    by (simp add: resolve_access_def)
qed (use assms(6) in \<open>simp add: resolve_access_def\<close>)

subsection \<open>Full-disk access\<close>

lemma share_target_resolves:
  assumes "file_system_paths_share_target a b" and "resolve_entry_path pe b (Some c) = Some y"
    and "fs_path_ok b" and "fs_path_ok a" and "abs_path c" and "pe_is_dir pe slash_tmp"
  shows "resolve_entry_path pe a (Some c) = Some y"
proof -
  have root: "absolute_root_path_for_cwd c = [RootDir]" by (rule root_of_abs [OF assms(5)])
  show ?thesis
  proof (cases a)
    case (FsPath p)
    then show ?thesis
    proof (cases b)
      case (FsSpecial v)
      then show ?thesis
        using FsPath assms root abs_parentless [of p] by (cases v) (auto simp: resolve_entry_path_def)
    qed (use FsPath assms in auto)
  next
    case (FsGlob g)
    then show ?thesis using assms(1,2) by (cases b) (auto simp: resolve_entry_path_def)
  next
    case (FsSpecial v)
    then show ?thesis
    proof (cases b)
      case (FsPath p)
      then show ?thesis
        using FsSpecial assms root abs_parentless [of p] by (cases v) (auto simp: resolve_entry_path_def)
    next
      case (FsSpecial u)
      then have "u = v" using assms(1) \<open>a = FsSpecial v\<close> by (cases v; cases u) auto
      then show ?thesis using FsSpecial assms(2) \<open>a = FsSpecial v\<close> by simp
    qed (use FsSpecial assms in auto)
  qed
qed

lemma resolve_access_decider:
  assumes "sp_kind pol = Restricted" and "resolve_candidate_path pe p cwd = Some q"
    and "r0 \<in> set (resolved_entries pe cwd pol)" and "starts_with q (re_path r0)"
  shows "\<exists>r \<in> set (resolved_entries pe cwd pol). starts_with q (re_path r) \<and> resolve_access pe p cwd pol = re_access r
    \<and> (\<forall>r' \<in> set (resolved_entries pe cwd pol). re_path r' = re_path r \<longrightarrow> re_access r' \<le> re_access r)"
proof -
  let ?fs = "filter (\<lambda>e. starts_with q (re_path e)) (resolved_entries pe cwd pol)"
  have "?fs \<noteq> []" using assms(3,4) by (auto simp: filter_empty_conv)
  then obtain m where m: "max_by_precedence ?fs = Some m" using max_by_precedence_None [of ?fs] by blast
  note mx = max_by_precedence_Some [OF m]
  have "re_access r' \<le> re_access m" if "r' \<in> set (resolved_entries pe cwd pol)" "re_path r' = re_path m" for r'
    using mx that by (auto simp: precedence_le_def resolved_entry_precedence_def)
  then show ?thesis using mx m assms(1,2) by (intro bexI [of _ m]) (auto simp: resolve_access_def)
qed

lemma root_entry_resolves:
  assumes "has_root_access P pol" and "from_absolute_path pe cwd = Some c" and "abs_path c"
  shows "\<exists>r \<in> set (resolved_entries pe cwd pol). re_path r = [RootDir] \<and> P (re_access r)"
proof -
  obtain e where e: "e \<in> set (sp_entries pol)" "en_path e = FsSpecial SpRoot" "P (en_access e)"
    using assms(1) by (auto simp: has_root_access_def list_ex_iff)
  have "\<lparr>re_path = [RootDir], re_access = en_access e\<rparr> \<in> set (resolved_entries pe cwd pol)"
    unfolding resolved_entries_iff using e assms(2) root_of_abs [OF assms(3)]
    by (intro bexI [of _ e]) (simp_all add: resolve_entry_path_def)
  then show ?thesis using e(3) by force
qed

lemma not_narrowed:
  assumes "\<not> narrows_write pol e" and "\<not> can_write (en_access e)"
    and "resolve_entry_path pe (en_path e) cwd \<noteq> None"
  shows "en_path e = FsSpecial SpRoot \<and> en_access e \<noteq> Deny \<or> has_same_target_write_override pol e"
  using assms by (auto simp: narrows_write_def resolve_entry_path_def split: fs_path.splits special_path.splits if_splits)

lemma override_resolves:
  assumes "has_same_target_write_override pol e" and "e \<in> set (sp_entries pol)" and "policy_ok pol"
    and "from_absolute_path pe cwd = Some c" and "abs_path c" and "pe_is_dir pe slash_tmp"
    and "resolve_entry_path pe (en_path e) (Some c) = Some y"
  shows "\<exists>r \<in> set (resolved_entries pe cwd pol). re_path r = y \<and> re_access r > en_access e"
proof -
  obtain o' where o': "o' \<in> set (sp_entries pol)" "en_access o' > en_access e"
    "file_system_paths_share_target (en_path o') (en_path e)"
    using assms(1) by (auto simp: has_same_target_write_override_def list_ex_iff)
  have "resolve_entry_path pe (en_path o') (Some c) = Some y"
    using share_target_resolves [OF o'(3) assms(7)] assms(2,3,5,6) o'(1) by (auto simp: policy_ok_def list_all_iff)
  then have "\<lparr>re_path = y, re_access = en_access o'\<rparr> \<in> set (resolved_entries pe cwd pol)"
    unfolding resolved_entries_iff using o'(1) assms(4) by (intro bexI [of _ o']) simp_all
  then show ?thesis using o'(2) by force
qed

text \<open>
  The two summaries that switch sandboxing off are sound: when a policy claims full-disk write
  access, every path that can be made absolute is writable, in spite of the entries that seem to
  narrow it; and when it claims full-disk read access, every such path is readable.
\<close>

theorem full_disk_access_is_full:
  assumes "path_env_ok pe" and "tmpdir_ok pe" and "policy_ok pol" and "proper_path cwd" and "proper_path p"
    and "pe_is_dir pe slash_tmp" and "from_absolute_path pe cwd = Some c" and "resolve_candidate_path pe p cwd = Some q"
  shows "(has_full_disk_write_access pol \<longrightarrow> can_write_path pe p cwd pol)
    \<and> (has_full_disk_read_access pol \<longrightarrow> can_read_path pe p cwd pol)"
proof -
  have c: "abs_path c" and q: "abs_path q"
    using from_absolute_path_abs [OF assms(1,4,7)] resolve_candidate_abs [OF assms(1,5,4,8)] by auto
  then have under_root: "starts_with q [RootDir]" by (auto simp: abs_path_iff)
  have wr: "resolve_access pe p cwd pol = Write" if full: "has_full_disk_write_access pol" "sp_kind pol = Restricted"
  proof (rule ccontr)
    assume bad: "resolve_access pe p cwd pol \<noteq> Write"
    obtain r0 where r0: "r0 \<in> set (resolved_entries pe cwd pol)" "re_path r0 = [RootDir]" "re_access r0 = Write"
      using root_entry_resolves [OF _ assms(7) c, of can_write pol] full
      by (auto simp: has_full_disk_write_access_def can_write_def)
    obtain r where r: "r \<in> set (resolved_entries pe cwd pol)" "resolve_access pe p cwd pol = re_access r"
      "\<forall>r' \<in> set (resolved_entries pe cwd pol). re_path r' = re_path r \<longrightarrow> re_access r' \<le> re_access r"
      using resolve_access_decider [OF full(2) assms(8) r0(1)] r0(2) under_root by auto
    obtain e where e: "e \<in> set (sp_entries pol)" "re_access r = en_access e"
      "resolve_entry_path pe (en_path e) (Some c) = Some (re_path r)"
      using r(1) assms(7) unfolding resolved_entries_iff by auto
    have "\<not> narrows_write pol e"
      using full e(1) by (auto simp: has_full_disk_write_access_def has_write_narrowing_entries_def list_ex_iff)
    then consider "en_path e = FsSpecial SpRoot" "en_access e \<noteq> Deny" | "has_same_target_write_override pol e"
      using not_narrowed [of pol e pe "Some c"] bad r(2) e(2,3) by (auto simp: can_write_def)
    then show False
    proof cases
      case 1
      then have "re_path r = [RootDir]" using e(3) root_of_abs [OF c] by (simp add: resolve_entry_path_def)
      then have "Write \<le> re_access r" using r(3) r0 by force
      then show False using bad r(2) e(2) 1(2) by (cases "en_access e") (auto simp: less_eq_access_mode_def)
    next
      case 2
      then show False using override_resolves [OF 2 e(1) assms(3,7) c assms(6) e(3)] r(3) e(2) by force
    qed
  qed
  have rd: "resolve_access pe p cwd pol \<noteq> Deny" if full: "has_full_disk_read_access pol" "sp_kind pol = Restricted"
  proof -
    obtain r0 where "r0 \<in> set (resolved_entries pe cwd pol)" "re_path r0 = [RootDir]"
      using root_entry_resolves [OF _ assms(7) c, of can_read pol] full
      by (auto simp: has_full_disk_read_access_def)
    then obtain r where "r \<in> set (resolved_entries pe cwd pol)" "resolve_access pe p cwd pol = re_access r"
      using resolve_access_decider [OF full(2) assms(8)] under_root by force
    then show ?thesis
      using full unfolding resolved_entries_iff has_full_disk_read_access_def has_denied_read_restrictions_def
      by (auto simp: list_ex_iff)
  qed
  show ?thesis
    using wr rd by (auto simp: can_write_path_def can_read_path_def can_write_def can_read_def resolve_access_def)
qed
subsection \<open>Workspace metadata\<close>

lemma protected_names: "is_protected_metadata_name n \<longleftrightarrow> metadata_path_name n = Some n"
  "metadata_path_name n = Some m \<Longrightarrow> m = n \<and> is_protected_metadata_name n"
  by (auto simp: is_protected_metadata_name_def metadata_path_name_def protected_metadata_path_names_def split: if_splits)

lemma join_protected_name:
  assumes "path_env_ok pe" and "abs_path r" and "is_protected_metadata_name n"
  shows "abs_join pe r [Normal n] = r @ [Normal n]"
proof -
  have "n \<noteq> ''~''" using assms(3) by (auto simp: is_protected_metadata_name_def protected_metadata_path_names_def)
  then have "maybe_expand_home_directory pe [Normal n] = [Normal n]"
    by (simp add: maybe_expand_home_directory_def split: option.split)
  moreover have "abs_path (r @ [Normal n])" using assms(2) by (cases r) (auto simp: abs_path_def)
  ultimately show ?thesis
    using assms(2) normalize_path_id
    by (auto simp: abs_join_def resolve_path_against_base_def absolutize_from_def path_with_base_def path_join_def
        is_absolute_def abs_path_def)
qed

lemma metadata_child_Some:
  "metadata_child pe t e = Some (m, name) \<longleftrightarrow>
     (\<exists>rest. t = re_path e @ Normal name # rest \<and> is_protected_metadata_name name
        \<and> m = abs_join pe (re_path e) [Normal name])"
proof
  assume "metadata_child pe t e = Some (m, name)"
  then obtain n rest where n: "strip_prefix t (re_path e) = Some (Normal n # rest)" "metadata_path_name n = Some name"
    "m = abs_join pe (re_path e) [Normal name]"
    by (auto simp: metadata_child_def split: option.splits list.splits component.splits)
  have "t = re_path e @ Normal n # rest"
    using n(1) by (auto simp: strip_prefix_def prefix_def split: if_splits)
  then show "\<exists>rest. t = re_path e @ Normal name # rest \<and> is_protected_metadata_name name
      \<and> m = abs_join pe (re_path e) [Normal name]"
    using n(2,3) protected_names(2) [OF n(2)] by blast
next
  assume "\<exists>rest. t = re_path e @ Normal name # rest \<and> is_protected_metadata_name name
      \<and> m = abs_join pe (re_path e) [Normal name]"
  then show "metadata_child pe t e = Some (m, name)"
    using protected_names(1) [of name] by (auto simp: metadata_child_def strip_prefix_def)
qed

text \<open>The writable entries, and the protected paths directly below them.\<close>

definition writable_entries :: "path_env \<Rightarrow> path \<Rightarrow> sandbox_policy \<Rightarrow> path set" where
  "writable_entries pe cwd pol = {re_path r | r. r \<in> set (resolved_entries pe cwd pol) \<and> can_write (re_access r)}"

definition protected_paths :: "path_env \<Rightarrow> path \<Rightarrow> sandbox_policy \<Rightarrow> path set" where
  "protected_paths pe cwd pol =
     {r @ [Normal n] | r n. r \<in> writable_entries pe cwd pol \<and> is_protected_metadata_name n}"

lemma metadata_child_of_writable_root_Some:
  assumes "path_env_ok pe" and "\<forall>r \<in> set (resolved_entries pe cwd pol). abs_path (re_path r)"
    and "m \<in> protected_paths pe cwd pol" and "starts_with t m"
  shows "\<exists>m' name. metadata_child_of_writable_root pe pol t cwd = Some (m', name)
    \<and> m' \<in> protected_paths pe cwd pol \<and> is_protected_metadata_name name"
proof -
  let ?ws = "filter (\<lambda>e. can_write (re_access e)) (resolved_entries pe cwd pol)"
  obtain r n where r: "r \<in> set ?ws" "m = re_path r @ [Normal n]" "is_protected_metadata_name n"
    using assms(3) by (auto simp: protected_paths_def writable_entries_def)
  obtain rest where "t = re_path r @ Normal n # rest" using assms(4) r(2) by (auto simp: prefix_def)
  then have "metadata_child pe t r = Some (abs_join pe (re_path r) [Normal n], n)"
    using r(3) by (simp add: metadata_child_Some)
  then have "List.map_filter (metadata_child pe t) ?ws \<noteq> []"
    using r(1) by (force simp: List.map_filter_def filter_empty_conv)
  then obtain x xs where x: "List.map_filter (metadata_child pe t) ?ws = x # xs"
    by (cases "List.map_filter (metadata_child pe t) ?ws") auto
  obtain m' name where mn: "x = (m', name)" by (rule prod.exhaust)
  have "x \<in> set (List.map_filter (metadata_child pe t) ?ws)" by (simp add: x)
  then obtain e where e: "e \<in> set ?ws" "metadata_child pe t e = Some (m', name)"
    unfolding mn List.map_filter_def by force
  then have "m' = re_path e @ [Normal name] \<and> is_protected_metadata_name name"
    using join_protected_name [OF assms(1)] assms(2) by (auto simp: metadata_child_Some)
  then show ?thesis
    using x mn e(1) by (auto simp: metadata_child_of_writable_root_def protected_paths_def writable_entries_def)
qed


subsection \<open>Materialized project roots\<close>

lemma materialized_entry_resolves:
  assumes "abs_path c" and "abs_path c'"
  shows "resolve_entry_path pe (en_path (materialize_entry_with_cwd pe (Some c) e)) (Some c') =
      resolve_entry_path pe (en_path e) (Some c)
    \<and> en_access (materialize_entry_with_cwd pe (Some c) e) = en_access e"
  using assms root_of_abs
  by (auto simp: materialize_entry_with_cwd_def resolve_entry_path_def
      split: fs_path.splits special_path.splits option.splits)

text \<open>
  A policy whose project roots were made absolute keeps its authority when the working directory
  changes: whatever the new working directory, every absolute path has the access it had under the
  old one.
\<close>

theorem materialized_policy_survives_cwd_change:
  assumes "path_env_ok pe" and "proper_path cwd" and "proper_path cwd'"
    and "from_absolute_path pe cwd = Some c" and "from_absolute_path pe cwd' = Some c'" and "is_absolute p"
  shows "resolve_access pe p cwd' (materialize_project_roots_with_cwd pe cwd pol) = resolve_access pe p cwd pol"
proof -
  have abs: "abs_path c" "abs_path c'" using from_absolute_path_abs assms(1-5) by blast+
  have es: "resolved_entries pe cwd' (materialize_project_roots_with_cwd pe cwd pol) = resolved_entries pe cwd pol"
    unfolding resolved_entries_def materialize_project_roots_with_cwd_def assms(4,5)
    using materialized_entry_resolves [OF abs, of pe]
    by (simp add: List.map_filter_def filter_map comp_def)
  have cand: "resolve_candidate_path pe p cwd' = resolve_candidate_path pe p cwd"
    using assms(6) by (simp add: resolve_candidate_path_def)
  have kind: "sp_kind (materialize_project_roots_with_cwd pe cwd pol) = sp_kind pol"
    by (simp add: materialize_project_roots_with_cwd_def)
  show ?thesis unfolding resolve_access_def es cand kind ..
qed
subsection \<open>The legacy policy and back\<close>

definition only_reads_added :: "sandbox_entry list \<Rightarrow> sandbox_entry list \<Rightarrow> bool" where
  "only_reads_added es es' \<longleftrightarrow> (\<exists>rs. es' = es @ rs \<and> (\<forall>r \<in> set rs. en_access r = Read))"

lemma only_reads_added_refl [simp]: "only_reads_added es es"
  by (simp add: only_reads_added_def)

lemma only_reads_added_trans: "only_reads_added a b \<Longrightarrow> only_reads_added b c \<Longrightarrow> only_reads_added a c"
  unfolding only_reads_added_def by fastforce

lemma only_reads_added_fold:
  "(\<And>x es. only_reads_added es (f x es)) \<Longrightarrow> only_reads_added es (fold f xs es)"
  by (induction xs arbitrary: es) (auto intro: only_reads_added_trans)

lemma append_default_only_reads:
  "only_reads_added es (append_default_read_only_entry p es)"
  "only_reads_added es (append_default_read_only_paths ps es)"
  "only_reads_added es (append_default_read_only_project_root_subpath sub es)"
proof -
  show one: "only_reads_added es (append_default_read_only_entry p es)" for p es
    by (auto simp: append_default_read_only_entry_def only_reads_added_def)
  show "only_reads_added es (append_default_read_only_paths ps es)"
    unfolding append_default_read_only_paths_def by (rule only_reads_added_fold) (rule one)
  show "only_reads_added es (append_default_read_only_project_root_subpath sub es)"
    unfolding append_default_read_only_project_root_subpath_def by (rule one)
qed

lemma workspace_write_entries:
  "sp_kind (workspace_write pe roots xt xs) = Restricted
   \<and> only_reads_added (workspace_entries roots xt xs) (sp_entries (workspace_write pe roots xt xs))"
proof -
  have reads: "only_reads_added es (fold (\<lambda>r. append_default_read_only_paths (default_read_only_subpaths pe r False)) roots es)" for es
    by (rule only_reads_added_fold) (rule append_default_only_reads)
  show ?thesis
    unfolding workspace_write_def Let_def restricted_def
    by (auto intro: only_reads_added_trans [OF _ reads] only_reads_added_trans [OF append_default_only_reads(3)]
        append_default_only_reads(3))
qed

lemma protect_roots_only_reads: "only_reads_added es (protect_roots pe cwd roots es)"
proof -
  have reads: "only_reads_added es (fold (\<lambda>r. append_default_read_only_paths (default_read_only_subpaths pe r False)) roots es)" for es
    by (rule only_reads_added_fold) (rule append_default_only_reads)
  show ?thesis
    unfolding protect_roots_def Let_def
    by (auto split: option.split intro: only_reads_added_trans [OF append_default_only_reads(2) reads] reads)
qed

lemma legacy_scan_reads: "(\<forall>r \<in> set rs. en_access r = Read) \<Longrightarrow> fold (legacy_scan_entry pe cwd) rs ls = ls"
proof (induction rs arbitrary: ls)
  case (Cons r rs)
  have "legacy_scan_entry pe cwd r ls = ls"
    using Cons(2) by (auto simp: legacy_scan_entry_def can_write_def Let_def split: fs_path.split special_path.split option.split)
  then show ?case using Cons by simp
qed simp

lemma legacy_scan_roots:
  "c \<notin> Some ` set roots \<Longrightarrow>
     fold (legacy_scan_entry pe c) (map (\<lambda>p. entry (FsPath p) Write) roots) ls =
       ls\<lparr>ls_writable_roots := ls_writable_roots ls @ roots\<rparr>"
  by (induction roots arbitrary: ls) (auto simp: legacy_scan_entry_def can_write_def)

lemma dedup_distinct: "distinct ps \<Longrightarrow> set ps \<inter> set seen = {} \<Longrightarrow> dedup_loop seen ps = ps"
  by (induction ps arbitrary: seen) auto

lemma workspace_not_full_disk:
  assumes "only_reads_added (workspace_entries roots xt xs) (sp_entries pol)" and "sp_kind pol = Restricted"
  shows "\<not> has_full_disk_write_access pol"
proof -
  obtain rs where "sp_entries pol = workspace_entries roots xt xs @ rs" "\<forall>r \<in> set rs. en_access r = Read"
    using assms(1) unfolding only_reads_added_def by blast
  then have "\<not> has_root_access can_write pol"
    by (auto simp: has_root_access_def list_ex_iff workspace_entries_def can_write_def split: if_splits)
  then show ?thesis using assms(2) by (simp add: has_full_disk_write_access_def)
qed

lemma workspace_to_legacy:
  assumes "only_reads_added (workspace_entries roots xt xs) (sp_entries pol)" and "sp_kind pol = Restricted"
    and "distinct roots" and "from_absolute_path pe cwd \<notin> Some ` set roots"
  shows "to_legacy_sandbox_policy pe net cwd pol = Inr (WorkspaceWrite roots (network_is_enabled net) xt xs)"
proof -
  obtain rs where rs: "sp_entries pol = workspace_entries roots xt xs @ rs" "\<forall>r \<in> set rs. en_access r = Read"
    using assms(1) unfolding only_reads_added_def by blast
  have "fold (legacy_scan_entry pe (from_absolute_path pe cwd)) (sp_entries pol) legacy_scan_start =
      \<lparr>ls_workspace_root_writable = True, ls_writable_roots = roots, ls_tmpdir_writable = \<not> xt,
       ls_slash_tmp_writable = \<not> xs, ls_unbridgeable_root_write = False\<rparr>"
    unfolding rs(1) fold_append comp_def legacy_scan_reads [OF rs(2)]
    using legacy_scan_roots [OF assms(4), of pe]
    by (simp add: workspace_entries_def legacy_scan_start_def legacy_scan_entry_def can_write_def)
  then show ?thesis
    using workspace_not_full_disk [OF assms(1,2)] assms(2) dedup_distinct [OF assms(3), of "[]"]
    by (simp add: to_legacy_sandbox_policy_def dedup_absolute_paths_def)
qed

text \<open>
  Nothing is lost between the legacy policy and the filesystem policy: a legacy policy, converted
  with or without the defaults for a working directory and converted back with its network setting,
  is the same policy, provided its extra writable roots are distinct and do not name the working
  directory, which is writable anyway.
\<close>

theorem legacy_policy_round_trip:
  assumes "\<forall>roots net xt xs. lp = WorkspaceWrite roots net xt xs \<longrightarrow>
      distinct roots \<and> from_absolute_path pe cwd \<notin> Some ` set roots"
  shows "to_legacy_sandbox_policy pe (network_from_legacy lp) cwd (policy_from_legacy pe lp) = Inr lp
    \<and> to_legacy_sandbox_policy pe (network_from_legacy lp) cwd (from_legacy_for_cwd pe lp cwd) = Inr lp"
proof (cases lp)
  case DangerFullAccess
  then show ?thesis
    by (simp add: to_legacy_sandbox_policy_def unrestricted_def network_from_legacy_def full_access_legacy_def
        network_is_enabled_def from_legacy_for_cwd_def)
next
  case (LegacyReadOnly net)
  then show ?thesis
    by (simp add: to_legacy_sandbox_policy_def restricted_def network_from_legacy_def network_is_enabled_def
        legacy_scan_start_def legacy_scan_entry_def has_full_disk_write_access_def has_root_access_def can_write_def
        from_legacy_for_cwd_def)
next
  case (LegacyExternalSandbox net)
  then show ?thesis
    by (cases net) (simp_all add: to_legacy_sandbox_policy_def external_sandbox_def network_from_legacy_def
        network_is_enabled_def from_legacy_for_cwd_def)
next
  case (WorkspaceWrite roots net xt xs)
  have ok: "distinct roots" "from_absolute_path pe cwd \<notin> Some ` set roots" using assms WorkspaceWrite by auto
  have net: "network_is_enabled (network_from_legacy lp) = net"
    by (simp add: WorkspaceWrite network_from_legacy_def network_is_enabled_def)
  let ?pol = "workspace_write pe roots xt xs"
  have pol: "sp_kind ?pol = Restricted" "only_reads_added (workspace_entries roots xt xs) (sp_entries ?pol)"
    using workspace_write_entries by auto
  have cwd: "only_reads_added (workspace_entries roots xt xs) (protect_roots pe cwd roots (sp_entries ?pol))"
    by (rule only_reads_added_trans [OF pol(2) protect_roots_only_reads])
  show ?thesis
    using workspace_to_legacy [OF pol(2,1) ok, of "network_from_legacy lp"]
      workspace_to_legacy [of roots xt xs "?pol\<lparr>sp_entries := protect_roots pe cwd roots (sp_entries ?pol)\<rparr>" pe cwd
        "network_from_legacy lp"] cwd pol(1) ok net
    by (simp add: from_legacy_for_cwd_def WorkspaceWrite Let_def)
qed

subsection \<open>Examples\<close>

definition work_dir :: path where
  "work_dir = [RootDir, Normal ''w'']"

definition git_config :: path where
  "git_config = [RootDir, Normal ''w'', Normal ''.git'', Normal ''config'']"

definition example_policy :: sandbox_policy where
  "example_policy =
     restricted [entry (FsSpecial SpRoot) Read, entry (FsSpecial (SpProjectRoots None)) Write,
                 entry (FsPath [RootDir, Normal ''w'', Normal ''secret'']) Deny]"

lemma example_policy_ok: "policy_ok example_policy" "tmpdir_ok example_paths" "sp_kind example_policy = Restricted"
  by (simp_all add: policy_ok_def example_policy_def restricted_def tmpdir_ok_def example_paths_def abs_path_def)

lemma work_dir_ok: "proper_path work_dir" "from_absolute_path example_paths work_dir = Some work_dir"
  "proper_path git_config" "resolve_candidate_path example_paths git_config work_dir = Some git_config"
  by code_simp+

theorem nearest_entry_decides_witness:
  "resolve_access example_paths [Normal ''secret'', Normal ''key''] work_dir example_policy = Deny
   \<and> nearest_access (resolved_entries example_paths work_dir example_policy)
       (ancestors [RootDir, Normal ''w'', Normal ''secret'', Normal ''key'']) = Deny"
proof -
  have p: "proper_path [Normal ''secret'', Normal ''key'']" by code_simp
  have q: "resolve_candidate_path example_paths [Normal ''secret'', Normal ''key''] work_dir =
    Some [RootDir, Normal ''w'', Normal ''secret'', Normal ''key'']" by code_simp
  have "resolve_access example_paths [Normal ''secret'', Normal ''key''] work_dir example_policy = Deny" by code_simp
  then show ?thesis
    using nearest_entry_decides [OF example_paths_ok example_policy_ok(2,1) work_dir_ok(1) p example_policy_ok(3)] q
    by simp
qed

definition full_policy :: sandbox_policy where
  "full_policy = restricted [entry (FsSpecial SpRoot) Write, entry (FsPath work_dir) Read, entry (FsPath work_dir) Write]"

lemma full_policy_ok: "policy_ok full_policy"
  by (simp add: policy_ok_def full_policy_def restricted_def work_dir_def abs_path_def)

theorem full_disk_access_is_full_witness:
  "can_write_path example_paths git_config work_dir full_policy
   \<and> can_read_path example_paths git_config work_dir full_policy"
proof -
  have full: "has_full_disk_write_access full_policy" "has_full_disk_read_access full_policy"
    "pe_is_dir example_paths slash_tmp" by code_simp+
  show ?thesis
    using full_disk_access_is_full [OF example_paths_ok example_policy_ok(2) full_policy_ok work_dir_ok(1,3) full(3)
        work_dir_ok(2,4)] full(1,2) by blast
qed


theorem materialized_policy_survives_cwd_change_witness:
  "resolve_access example_paths git_config [RootDir, Normal ''v'']
     (materialize_project_roots_with_cwd example_paths work_dir example_policy) = Write
   \<and> resolve_access example_paths git_config [RootDir, Normal ''v''] example_policy = Read"
proof -
  have v: "proper_path [RootDir, Normal ''v'']" "from_absolute_path example_paths [RootDir, Normal ''v''] = Some [RootDir, Normal ''v'']"
    "is_absolute git_config" by code_simp+
  have "resolve_access example_paths git_config work_dir example_policy = Write"
    "resolve_access example_paths git_config [RootDir, Normal ''v''] example_policy = Read" by code_simp+
  then show ?thesis
    using materialized_policy_survives_cwd_change [OF example_paths_ok work_dir_ok(1) v(1) work_dir_ok(2) v(2,3)] by simp
qed

theorem legacy_policy_round_trip_witness:
  "to_legacy_sandbox_policy example_paths NetworkEnabled work_dir
     (policy_from_legacy example_paths (WorkspaceWrite [[RootDir, Normal ''x'']] True False True))
   = Inr (WorkspaceWrite [[RootDir, Normal ''x'']] True False True)"
proof -
  have "\<forall>roots net xt xs. WorkspaceWrite [[RootDir, Normal ''x'']] True False True = WorkspaceWrite roots net xt xs \<longrightarrow>
      distinct roots \<and> from_absolute_path example_paths work_dir \<notin> Some ` set roots"
    using work_dir_ok(2) by (simp add: work_dir_def)
  from legacy_policy_round_trip [OF this] show ?thesis by (simp add: network_from_legacy_def)
qed
end
