(* ===== verification/Permission_Profiles.thy ===== *)
theory Permission_Profiles
  imports Permission_Laws
begin

text \<open>
  Permissions a command asks for on top of the session's: the profiles of \<^verbatim>\<open>crates/protocol/src/models.rs\<close>
  and the transformations of \<^verbatim>\<open>crates/sandboxing/src/policy_transforms.rs\<close> that normalize, merge and intersect
  them and apply them to the policy of \<open>Permissions\<close>. A \<^verbatim>\<open>NonZeroUsize\<close> is a natural number made by
  \<open>nonzero_new\<close>.
\<close>

subsection \<open>Profiles\<close>

definition nonzero_new :: "nat \<Rightarrow> nat option" where
  "nonzero_new n = (if n = 0 then None else Some n)"

record fs_permissions =
  fsp_entries :: "sandbox_entry list"
  fsp_glob_scan_max_depth :: "nat option"

record network_permissions =
  np_enabled :: "bool option"

record additional_profile =
  ap_network :: "network_permissions option"
  ap_file_system :: "fs_permissions option"

definition default_fs_permissions :: fs_permissions where
  "default_fs_permissions = \<lparr>fsp_entries = [], fsp_glob_scan_max_depth = None\<rparr>"

definition fs_permissions_is_empty :: "fs_permissions \<Rightarrow> bool" where
  "fs_permissions_is_empty p = (fsp_entries p = [])"

definition network_permissions_is_empty :: "network_permissions \<Rightarrow> bool" where
  "network_permissions_is_empty n = (np_enabled n = None)"

definition additional_is_empty :: "additional_profile \<Rightarrow> bool" where
  "additional_is_empty a = (ap_network a = None \<and> ap_file_system a = None)"

definition from_read_write_roots :: "path list option \<Rightarrow> path list option \<Rightarrow> fs_permissions" where
  "from_read_write_roots rd wr =
     \<lparr>fsp_entries =
        (case rd of Some ps \<Rightarrow> map (\<lambda>p. entry (FsPath p) Read) ps | None \<Rightarrow> [])
        @ (case wr of Some ps \<Rightarrow> map (\<lambda>p. entry (FsPath p) Write) ps | None \<Rightarrow> []),
      fsp_glob_scan_max_depth = None\<rparr>"

fun legacy_roots_loop :: "sandbox_entry list \<Rightarrow> path list \<Rightarrow> path list \<Rightarrow> (path list \<times> path list) option" where
  "legacy_roots_loop [] rd wr = Some (rd, wr)"
| "legacy_roots_loop (e # es) rd wr =
     (case en_path e of
        FsPath p \<Rightarrow>
          (case en_access e of
             Read \<Rightarrow> legacy_roots_loop es (rd @ [p]) wr
           | Write \<Rightarrow> legacy_roots_loop es rd (wr @ [p])
           | Deny \<Rightarrow> None)
      | _ \<Rightarrow> None)"

definition as_legacy_permissions :: "fs_permissions \<Rightarrow> (path list option \<times> path list option) option" where
  "as_legacy_permissions p =
     (if fsp_glob_scan_max_depth p \<noteq> None then None
      else map_option (\<lambda>(rd, wr). (if rd = [] then None else Some rd, if wr = [] then None else Some wr))
             (legacy_roots_loop (fsp_entries p) [] []))"

text \<open>
  The JSON object a permission set is written as: the fields that are present. The reader tries the
  canonical form and then the legacy one, and each form refuses fields it does not know.
\<close>

record fs_permissions_json =
  pj_read :: "path list option"
  pj_write :: "path list option"
  pj_entries :: "sandbox_entry list option"
  pj_glob_scan_max_depth :: "nat option"

definition serialize_fs_permissions :: "fs_permissions \<Rightarrow> fs_permissions_json" where
  "serialize_fs_permissions p =
     (case as_legacy_permissions p of
        Some (rd, wr) \<Rightarrow> \<lparr>pj_read = rd, pj_write = wr, pj_entries = None, pj_glob_scan_max_depth = None\<rparr>
      | None \<Rightarrow>
          \<lparr>pj_read = None, pj_write = None,
           pj_entries = (if fsp_entries p = [] then None else Some (fsp_entries p)),
           pj_glob_scan_max_depth = fsp_glob_scan_max_depth p\<rparr>)"

definition deserialize_fs_permissions :: "fs_permissions_json \<Rightarrow> fs_permissions option" where
  "deserialize_fs_permissions j =
     (if pj_read j = None \<and> pj_write j = None
      then (if pj_glob_scan_max_depth j = Some 0 then None
            else Some \<lparr>fsp_entries = (case pj_entries j of Some es \<Rightarrow> es | None \<Rightarrow> []),
                       fsp_glob_scan_max_depth = pj_glob_scan_max_depth j\<rparr>)
      else if pj_entries j = None \<and> pj_glob_scan_max_depth j = None
      then Some (from_read_write_roots (pj_read j) (pj_write j))
      else None)"

subsection \<open>Enforcement profiles\<close>

datatype sandbox_enforcement = EnforceManaged | EnforceDisabled | EnforceExternal

datatype managed_fs_permissions =
  ManagedRestricted "sandbox_entry list" "nat option"
| ManagedUnrestricted

datatype permission_profile =
  ProfileManaged managed_fs_permissions network_sandbox_policy
| ProfileDisabled
| ProfileExternal network_sandbox_policy

fun enforcement_from_legacy :: "legacy_policy \<Rightarrow> sandbox_enforcement" where
  "enforcement_from_legacy DangerFullAccess = EnforceDisabled"
| "enforcement_from_legacy (LegacyExternalSandbox _) = EnforceExternal"
| "enforcement_from_legacy (LegacyReadOnly _) = EnforceManaged"
| "enforcement_from_legacy (WorkspaceWrite _ _ _ _) = EnforceManaged"

text \<open>\<^const>\<open>None\<close> is the \<^verbatim>\<open>unreachable!\<close> of the source.\<close>

definition managed_from_sandbox_policy :: "sandbox_policy \<Rightarrow> managed_fs_permissions option" where
  "managed_from_sandbox_policy pol =
     (case sp_kind pol of
        Restricted \<Rightarrow> Some (ManagedRestricted (sp_entries pol) (Option.bind (sp_glob_scan_max_depth pol) nonzero_new))
      | Unrestricted \<Rightarrow> Some ManagedUnrestricted
      | ExternalSandbox \<Rightarrow> None)"

fun managed_to_sandbox_policy :: "managed_fs_permissions \<Rightarrow> sandbox_policy" where
  "managed_to_sandbox_policy (ManagedRestricted es d) =
     \<lparr>sp_kind = Restricted, sp_glob_scan_max_depth = d, sp_entries = es\<rparr>"
| "managed_to_sandbox_policy ManagedUnrestricted = unrestricted"

definition managed_profile :: "sandbox_policy \<Rightarrow> network_sandbox_policy \<Rightarrow> permission_profile option" where
  "managed_profile pol net = map_option (\<lambda>m. ProfileManaged m net) (managed_from_sandbox_policy pol)"

definition profile_read_only :: "permission_profile option" where
  "profile_read_only = managed_profile read_only NetworkRestricted"

definition profile_workspace_write_with ::
  "path_env \<Rightarrow> path list \<Rightarrow> network_sandbox_policy \<Rightarrow> bool \<Rightarrow> bool \<Rightarrow> permission_profile option" where
  "profile_workspace_write_with pe roots net exclude_tmpdir exclude_slash_tmp =
     managed_profile (workspace_write pe roots exclude_tmpdir exclude_slash_tmp) net"

definition profile_workspace_write :: "path_env \<Rightarrow> permission_profile option" where
  "profile_workspace_write pe = profile_workspace_write_with pe [] NetworkRestricted False False"

definition profile_materialize_project_roots ::
  "path_env \<Rightarrow> path list \<Rightarrow> permission_profile \<Rightarrow> permission_profile option" where
  "profile_materialize_project_roots pe roots prof =
     (case prof of
        ProfileManaged m net \<Rightarrow>
          managed_profile (materialize_project_roots_with_workspace_roots pe roots (managed_to_sandbox_policy m)) net
      | ProfileDisabled \<Rightarrow> Some ProfileDisabled
      | ProfileExternal net \<Rightarrow> Some (ProfileExternal net))"

definition from_runtime_permissions_with_enforcement ::
  "sandbox_enforcement \<Rightarrow> sandbox_policy \<Rightarrow> network_sandbox_policy \<Rightarrow> permission_profile option" where
  "from_runtime_permissions_with_enforcement enf pol net =
     (if sp_kind pol = ExternalSandbox then Some (ProfileExternal net)
      else if sp_kind pol = Unrestricted \<and> enf = EnforceDisabled then Some ProfileDisabled
      else managed_profile pol net)"

definition from_runtime_permissions :: "sandbox_policy \<Rightarrow> network_sandbox_policy \<Rightarrow> permission_profile option" where
  "from_runtime_permissions pol net =
     from_runtime_permissions_with_enforcement
       (if sp_kind pol = ExternalSandbox then EnforceExternal else EnforceManaged) pol net"

definition profile_from_legacy :: "path_env \<Rightarrow> legacy_policy \<Rightarrow> permission_profile option" where
  "profile_from_legacy pe lp =
     from_runtime_permissions_with_enforcement (enforcement_from_legacy lp) (policy_from_legacy pe lp)
       (network_from_legacy lp)"

definition profile_from_legacy_for_cwd :: "path_env \<Rightarrow> legacy_policy \<Rightarrow> path \<Rightarrow> permission_profile option" where
  "profile_from_legacy_for_cwd pe lp cwd =
     from_runtime_permissions_with_enforcement (enforcement_from_legacy lp) (from_legacy_for_cwd pe lp cwd)
       (network_from_legacy lp)"

fun profile_enforcement :: "permission_profile \<Rightarrow> sandbox_enforcement" where
  "profile_enforcement (ProfileManaged _ _) = EnforceManaged"
| "profile_enforcement ProfileDisabled = EnforceDisabled"
| "profile_enforcement (ProfileExternal _) = EnforceExternal"

fun profile_file_system_policy :: "permission_profile \<Rightarrow> sandbox_policy" where
  "profile_file_system_policy (ProfileManaged m _) = managed_to_sandbox_policy m"
| "profile_file_system_policy ProfileDisabled = unrestricted"
| "profile_file_system_policy (ProfileExternal _) = external_sandbox"

fun profile_network_policy :: "permission_profile \<Rightarrow> network_sandbox_policy" where
  "profile_network_policy (ProfileManaged _ net) = net"
| "profile_network_policy (ProfileExternal net) = net"
| "profile_network_policy ProfileDisabled = NetworkEnabled"

fun profile_to_legacy :: "path_env \<Rightarrow> permission_profile \<Rightarrow> path \<Rightarrow> io_error + legacy_policy" where
  "profile_to_legacy pe (ProfileManaged m net) cwd = to_legacy_sandbox_policy pe net cwd (managed_to_sandbox_policy m)"
| "profile_to_legacy pe ProfileDisabled cwd = Inr DangerFullAccess"
| "profile_to_legacy pe (ProfileExternal net) cwd =
     Inr (LegacyExternalSandbox (if network_is_enabled net then NetAccessEnabled else NetAccessRestricted))"

subsection \<open>Normalizing\<close>

definition normalize_permission_path :: "path_env \<Rightarrow> fs_path \<Rightarrow> fs_path" where
  "normalize_permission_path pe fp =
     (case fp of
        FsPath p \<Rightarrow>
          FsPath (case Option.bind (canonicalize_preserving_symlinks pe p) (from_absolute_path pe) of
                    Some q \<Rightarrow> q | None \<Rightarrow> p)
      | FsGlob pat \<Rightarrow> FsGlob pat
      | FsSpecial v \<Rightarrow> FsSpecial v)"

definition is_glob :: "fs_path \<Rightarrow> bool" where
  "is_glob fp = (case fp of FsGlob _ \<Rightarrow> True | _ \<Rightarrow> False)"

fun normalize_entries :: "path_env \<Rightarrow> sandbox_entry list \<Rightarrow> sandbox_entry list \<Rightarrow> string + sandbox_entry list" where
  "normalize_entries pe [] acc = Inr acc"
| "normalize_entries pe (e # es) acc =
     (if is_glob (en_path e) \<and> en_access e \<noteq> Deny
      then Inl ''glob file system permissions only support deny-read entries''
      else normalize_entries pe es (push_unique acc (entry (normalize_permission_path pe (en_path e)) (en_access e))))"

definition normalize_additional_permissions ::
  "path_env \<Rightarrow> additional_profile \<Rightarrow> string + additional_profile" where
  "normalize_additional_permissions pe a =
     (let net = (case ap_network a of
                   Some n \<Rightarrow> if network_permissions_is_empty n then None else Some n
                 | None \<Rightarrow> None)
      in case ap_file_system a of
           None \<Rightarrow> Inr \<lparr>ap_network = net, ap_file_system = None\<rparr>
         | Some fs \<Rightarrow>
             (case normalize_entries pe (fsp_entries fs) [] of
                Inl e \<Rightarrow> Inl e
              | Inr es \<Rightarrow>
                  Inr \<lparr>ap_network = net,
                       ap_file_system = (if es = [] then None
                          else Some \<lparr>fsp_entries = es, fsp_glob_scan_max_depth = fsp_glob_scan_max_depth fs\<rparr>)\<rparr>))"

subsection \<open>Depth of glob scans\<close>

datatype glob_scan_depth = Bounded nat | Unbounded

definition effective_glob_scan_depth :: "sandbox_entry list \<Rightarrow> nat option \<Rightarrow> glob_scan_depth option" where
  "effective_glob_scan_depth es depth =
     (if list_ex (\<lambda>e. en_access e = Deny \<and> is_glob (en_path e)) es
      then Some (case depth of Some d \<Rightarrow> Bounded d | None \<Rightarrow> Unbounded)
      else None)"

fun merge_depths :: "glob_scan_depth option \<Rightarrow> glob_scan_depth option \<Rightarrow> nat option" where
  "merge_depths (Some Unbounded) _ = None"
| "merge_depths _ (Some Unbounded) = None"
| "merge_depths (Some (Bounded l)) (Some (Bounded r)) = Some (max l r)"
| "merge_depths (Some (Bounded d)) None = Some d"
| "merge_depths None (Some (Bounded d)) = Some d"
| "merge_depths None None = None"

definition merge_glob_scan_max_depth ::
  "sandbox_entry list \<Rightarrow> nat option \<Rightarrow> sandbox_entry list \<Rightarrow> nat option \<Rightarrow> nat option" where
  "merge_glob_scan_max_depth ls ld rs rd =
     merge_depths (effective_glob_scan_depth ls ld) (effective_glob_scan_depth rs rd)"

subsection \<open>Merging\<close>

definition network_requested :: "network_permissions option \<Rightarrow> bool" where
  "network_requested n = (case n of Some np \<Rightarrow> np_enabled np = Some True | None \<Rightarrow> False)"

definition merge_permission_entries :: "sandbox_entry list \<Rightarrow> sandbox_entry list \<Rightarrow> sandbox_entry list" where
  "merge_permission_entries base perms = foldl push_unique [] (base @ perms)"

definition merge_fs_permissions :: "fs_permissions option \<Rightarrow> fs_permissions option \<Rightarrow> fs_permissions option" where
  "merge_fs_permissions base perms =
     (case (base, perms) of
        (Some b, Some p) \<Rightarrow>
          (let m = \<lparr>fsp_entries = merge_permission_entries (fsp_entries b) (fsp_entries p),
                    fsp_glob_scan_max_depth =
                      Option.bind (merge_glob_scan_max_depth (fsp_entries b) (fsp_glob_scan_max_depth b)
                                     (fsp_entries p) (fsp_glob_scan_max_depth p)) nonzero_new\<rparr>
           in if fs_permissions_is_empty m then None else Some m)
      | (Some b, None) \<Rightarrow> Some b
      | (None, Some p) \<Rightarrow> Some p
      | (None, None) \<Rightarrow> None)"

definition merge_permission_profiles ::
  "additional_profile option \<Rightarrow> additional_profile option \<Rightarrow> additional_profile option" where
  "merge_permission_profiles base perms =
     (case perms of
        None \<Rightarrow> base
      | Some p \<Rightarrow>
          (let m = (case base of
                      Some b \<Rightarrow>
                        \<lparr>ap_network = (if network_requested (ap_network b) \<or> network_requested (ap_network p)
                                       then Some \<lparr>np_enabled = Some True\<rparr> else None),
                         ap_file_system = merge_fs_permissions (ap_file_system b) (ap_file_system p)\<rparr>
                    | None \<Rightarrow> p)
           in if additional_is_empty m then None else Some m))"

subsection \<open>Intersecting\<close>

definition resolve_permission_path :: "path_env \<Rightarrow> fs_path \<Rightarrow> path \<Rightarrow> path option" where
  "resolve_permission_path pe fp cwd =
     (case fp of
        FsPath p \<Rightarrow> Some p
      | FsGlob _ \<Rightarrow> None
      | FsSpecial SpRoot \<Rightarrow> from_absolute_path pe (last (ancestors cwd))
      | FsSpecial (SpProjectRoots sub) \<Rightarrow>
          (case from_absolute_path pe cwd of
             None \<Rightarrow> None
           | Some c \<Rightarrow> Some (case sub of Some s \<Rightarrow> resolve_path_against_base pe s c | None \<Rightarrow> c))
      | FsSpecial SpTmpdir \<Rightarrow>
          (case pe_tmpdir pe of
             None \<Rightarrow> None
           | Some t \<Rightarrow> if t = [] then None else from_absolute_path pe t)
      | FsSpecial SpSlashTmp \<Rightarrow>
          (case from_absolute_path pe slash_tmp of
             Some p \<Rightarrow> if pe_is_dir pe p then Some p else None
           | None \<Rightarrow> None)
      | FsSpecial SpMinimal \<Rightarrow> None
      | FsSpecial (SpUnknown _ _) \<Rightarrow> None)"

definition materialize_cwd_dependent_entry :: "path_env \<Rightarrow> path \<Rightarrow> sandbox_entry \<Rightarrow> sandbox_entry" where
  "materialize_cwd_dependent_entry pe cwd e =
     (case en_path e of
        FsSpecial (SpProjectRoots _) \<Rightarrow>
          (case resolve_permission_path pe (en_path e) cwd of
             Some p \<Rightarrow> entry (FsPath p) (en_access e)
           | None \<Rightarrow> e)
      | FsGlob pat \<Rightarrow> entry (FsGlob (path_to_string (resolve_path_against_base pe (path_of_string pat) cwd))) (en_access e)
      | _ \<Rightarrow> e)"

fun access_covers :: "access_mode \<Rightarrow> access_mode \<Rightarrow> bool" where
  "access_covers requested Read = can_read requested"
| "access_covers requested Write = can_write requested"
| "access_covers requested Deny = False"

definition paths_overlap :: "path \<Rightarrow> path \<Rightarrow> bool" where
  "paths_overlap l r = (starts_with l r \<or> starts_with r l)"

definition is_glob_char :: "char \<Rightarrow> bool" where
  "is_glob_char c = (c = CHR ''*'' \<or> c = CHR ''?'' \<or> c = CHR ''['' \<or> c = CHR '']'')"

definition glob_static_prefix_path :: "path_env \<Rightarrow> string \<Rightarrow> path \<Rightarrow> path option" where
  "glob_static_prefix_path pe pat cwd =
     (let s = path_to_string (resolve_path_against_base pe (path_of_string pat) cwd);
          pre = takeWhile (\<lambda>c. \<not> is_glob_char c) s
      in if pre = s then from_absolute_path pe (path_of_string s)
         else if pre = [] then None
         else if last pre = CHR ''/'' \<or> last pre = CHR 0x5C then from_absolute_path pe (path_of_string pre)
         else (case path_parent (path_of_string pre) of
                 None \<Rightarrow> None
               | Some q \<Rightarrow> from_absolute_path pe q))"

definition deny_overlaps_grant :: "path_env \<Rightarrow> path \<Rightarrow> fs_path \<Rightarrow> path \<Rightarrow> bool" where
  "deny_overlaps_grant pe cwd fp grant =
     (case (case fp of
              FsGlob pat \<Rightarrow> glob_static_prefix_path pe pat cwd
            | _ \<Rightarrow> resolve_permission_path pe fp cwd) of
        Some d \<Rightarrow> paths_overlap d grant
      | None \<Rightarrow> False)"

definition deny_entry_constrains_accepted_grant ::
  "path_env \<Rightarrow> sandbox_entry list \<Rightarrow> path \<Rightarrow> sandbox_entry \<Rightarrow> bool" where
  "deny_entry_constrains_accepted_grant pe accepted cwd deny =
     list_ex (\<lambda>e. can_read (en_access e)
                \<and> (case resolve_permission_path pe (en_path e) cwd of
                     None \<Rightarrow> False
                   | Some grant \<Rightarrow> deny_overlaps_grant pe cwd (en_path deny) grant)) accepted"

definition retained_deny_entries ::
  "path_env \<Rightarrow> sandbox_entry list \<Rightarrow> path \<Rightarrow> sandbox_entry list \<Rightarrow> sandbox_entry list" where
  "retained_deny_entries pe accepted cwd source =
     map (materialize_cwd_dependent_entry pe cwd)
       (filter (\<lambda>e. en_access e = Deny \<and> deny_entry_constrains_accepted_grant pe accepted cwd e) source)"

definition matcher_new :: "path_env \<Rightarrow> glob_compiler \<Rightarrow> sandbox_policy \<Rightarrow> path \<Rightarrow> read_deny_matcher option" where
  "matcher_new pe glob pol cwd =
     (case matcher_build pe glob pol cwd FailClosed of Inr m \<Rightarrow> m | Inl _ \<Rightarrow> None)"

definition granted_entry_within_request ::
  "path_env \<Rightarrow> fs_permissions \<Rightarrow> sandbox_policy \<Rightarrow> read_deny_matcher option \<Rightarrow> path \<Rightarrow> sandbox_entry \<Rightarrow> bool" where
  "granted_entry_within_request pe requested pol matcher cwd granted =
     (can_read (en_access granted)
      \<and> (case resolve_permission_path pe (en_path granted) cwd of
           Some p \<Rightarrow>
             \<not> (case matcher of Some m \<Rightarrow> is_read_denied pe p m | None \<Rightarrow> False)
             \<and> access_covers (resolve_access pe p cwd pol) (en_access granted)
         | None \<Rightarrow>
             list_ex (\<lambda>r. access_covers (en_access r) (en_access granted) \<and> en_path r = en_path granted)
               (fsp_entries requested)))"

definition accepted_entries ::
  "path_env \<Rightarrow> glob_compiler \<Rightarrow> path \<Rightarrow> fs_permissions \<Rightarrow> sandbox_entry list \<Rightarrow> sandbox_entry list" where
  "accepted_entries pe glob cwd requested granted =
     (let pol = restricted (fsp_entries requested)
      in foldl push_unique []
           (map (materialize_cwd_dependent_entry pe cwd)
             (filter (granted_entry_within_request pe requested pol (matcher_new pe glob pol cwd) cwd) granted)))"

definition intersect_fs_permissions ::
  "path_env \<Rightarrow> glob_compiler \<Rightarrow> path \<Rightarrow> fs_permissions \<Rightarrow> fs_permissions option \<Rightarrow> fs_permissions" where
  "intersect_fs_permissions pe glob cwd requested granted_opt =
     (let granted = (case granted_opt of Some g \<Rightarrow> g | None \<Rightarrow> default_fs_permissions);
          accepted = accepted_entries pe glob cwd requested (fsp_entries granted);
          requested_denies = retained_deny_entries pe accepted cwd (fsp_entries requested);
          granted_denies = retained_deny_entries pe accepted cwd (fsp_entries granted)
      in \<lparr>fsp_entries = foldl push_unique (foldl push_unique accepted requested_denies) granted_denies,
          fsp_glob_scan_max_depth =
            Option.bind (merge_glob_scan_max_depth requested_denies (fsp_glob_scan_max_depth requested)
                           granted_denies (fsp_glob_scan_max_depth granted)) nonzero_new\<rparr>)"

definition intersect_permission_profiles ::
  "path_env \<Rightarrow> glob_compiler \<Rightarrow> additional_profile \<Rightarrow> additional_profile \<Rightarrow> path \<Rightarrow> additional_profile" where
  "intersect_permission_profiles pe glob requested granted cwd =
     \<lparr>ap_network = (if network_requested (ap_network requested) \<and> network_requested (ap_network granted)
                    then Some \<lparr>np_enabled = Some True\<rparr> else None),
      ap_file_system =
        (case ap_file_system requested of
           None \<Rightarrow> None
         | Some r \<Rightarrow>
             (let fs = intersect_fs_permissions pe glob cwd r (ap_file_system granted)
              in if fs_permissions_is_empty fs then None else Some fs))\<rparr>"

subsection \<open>Applying\<close>

definition merge_policy_with_additional :: "sandbox_policy \<Rightarrow> fs_permissions \<Rightarrow> sandbox_policy" where
  "merge_policy_with_additional pol fs =
     (if sp_kind pol = Restricted
      then pol\<lparr>sp_entries := foldl push_unique (sp_entries pol) (fsp_entries fs),
               sp_glob_scan_max_depth :=
                 merge_glob_scan_max_depth (sp_entries pol) (sp_glob_scan_max_depth pol)
                   (fsp_entries fs) (fsp_glob_scan_max_depth fs)\<rparr>
      else pol)"

definition effective_file_system_policy :: "sandbox_policy \<Rightarrow> additional_profile option \<Rightarrow> sandbox_policy" where
  "effective_file_system_policy pol additional =
     (case additional of
        None \<Rightarrow> pol
      | Some a \<Rightarrow>
          (case ap_file_system a of
             None \<Rightarrow> pol
           | Some fs \<Rightarrow> if fs_permissions_is_empty fs then pol else merge_policy_with_additional pol fs))"

definition merge_network_access :: "bool \<Rightarrow> additional_profile \<Rightarrow> bool" where
  "merge_network_access base a =
     (base \<or> (case Option.bind (ap_network a) np_enabled of Some b \<Rightarrow> b | None \<Rightarrow> False))"

definition effective_network_policy ::
  "network_sandbox_policy \<Rightarrow> additional_profile option \<Rightarrow> network_sandbox_policy" where
  "effective_network_policy net additional =
     (case additional of
        None \<Rightarrow> net
      | Some a \<Rightarrow> if merge_network_access (network_is_enabled net) a then NetworkEnabled else NetworkRestricted)"

definition effective_permission_profile ::
  "permission_profile \<Rightarrow> additional_profile option \<Rightarrow> permission_profile option" where
  "effective_permission_profile prof additional =
     from_runtime_permissions_with_enforcement (profile_enforcement prof)
       (effective_file_system_policy (profile_file_system_policy prof) additional)
       (effective_network_policy (profile_network_policy prof) additional)"

definition should_require_platform_sandbox :: "sandbox_policy \<Rightarrow> network_sandbox_policy \<Rightarrow> bool \<Rightarrow> bool" where
  "should_require_platform_sandbox pol net has_managed_network_requirements =
     (if has_managed_network_requirements then True
      else if \<not> network_is_enabled net then sp_kind pol \<noteq> ExternalSandbox
      else sp_kind pol = Restricted \<and> \<not> has_full_disk_write_access pol)"

end
