(* ===== verification/Profile_Laws.thy ===== *)
theory Profile_Laws
  imports Permission_Profiles "HOL-Library.Multiset"
begin

text \<open>
  What the transformations of \<open>Permission_Profiles\<close> guarantee: an intersection reads nothing that the
  request or the grant would not, merging two profiles is applying one after the other, and a profile
  written as JSON and read back decides every path alike.
\<close>

subsection \<open>Lists without repetition\<close>

lemma set_push_unique [simp]: "set (push_unique xs x) = insert x (set xs)"
  by (auto simp: push_unique_def)

lemma set_foldl_push_unique [simp]: "set (foldl push_unique xs ys) = set xs \<union> set ys"
  by (induction ys arbitrary: xs) auto

lemma foldl_push_unique_known: "set ys \<subseteq> set xs \<Longrightarrow> foldl push_unique xs ys = xs"
  by (induction ys) (simp_all add: push_unique_def)

lemma push_unique_known: "x \<in> set xs \<Longrightarrow> push_unique xs x = xs"
  by (simp add: push_unique_def)

lemma push_unique_new: "x \<notin> set xs \<Longrightarrow> push_unique xs x = xs @ [x]"
  by (simp add: push_unique_def)

lemma foldl_push_unique_nested:
  "foldl push_unique xs (foldl push_unique ys zs) = foldl push_unique (foldl push_unique xs ys) zs"
proof (induction zs arbitrary: ys)
  case (Cons z zs)
  show ?case
  proof (cases "z \<in> set ys")
    case True
    then show ?thesis using Cons [of ys] by (simp add: push_unique_known)
  next
    case False
    then show ?thesis using Cons [of "ys @ [z]"] by (simp add: push_unique_new)
  qed
qed simp

subsection \<open>When a path can be read\<close>

lemma can_read_path_iff:
  assumes "sp_kind pol = Restricted" and "resolve_candidate_path pe p cwd = Some q"
  shows "can_read_path pe p cwd pol \<longleftrightarrow>
    (\<exists>r \<in> set (resolved_entries pe cwd pol). starts_with q (re_path r) \<and> can_read (re_access r)
       \<and> (\<forall>d \<in> set (resolved_entries pe cwd pol). re_access d = Deny \<and> starts_with q (re_path d)
            \<longrightarrow> length (re_path d) < length (re_path r)))"
  (is "?L \<longleftrightarrow> ?R")
proof -
  let ?fs = "filter (\<lambda>e. starts_with q (re_path e)) (resolved_entries pe cwd pol)"
  show ?thesis
  proof (cases "max_by_precedence ?fs")
    case None
    then have "?fs = []" by simp
    then have "\<not> ?R" by (auto simp: filter_empty_conv)
    then show ?thesis using None assms by (simp add: can_read_path_def resolve_access_def can_read_def)
  next
    case (Some m)
    note mx = max_by_precedence_Some [OF Some]
    have L: "?L \<longleftrightarrow> can_read (re_access m)"
      using Some assms by (simp add: can_read_path_def resolve_access_def)
    have le: "length (re_path e) < length (re_path m) \<or> length (re_path e) = length (re_path m) \<and> re_access e \<le> re_access m"
      if "e \<in> set ?fs" for e
      using mx that by (auto simp: precedence_le_def resolved_entry_precedence_def)
    have deny_top: "a = Deny" if "Deny \<le> a" for a using that by (cases a) (simp_all add: less_eq_access_mode_def)
    show ?thesis
    proof
      assume ?L
      then have "re_access m \<noteq> Deny" using L by (simp add: can_read_def)
      then have "length (re_path d) < length (re_path m)" if "d \<in> set ?fs" "re_access d = Deny" for d
        using le [OF that(1)] that(2) deny_top by auto
      then show ?R using mx L \<open>?L\<close> by (intro bexI [of _ m]) auto
    next
      assume ?R
      then obtain r where r: "r \<in> set ?fs" "can_read (re_access r)"
        "\<forall>d \<in> set ?fs. re_access d = Deny \<longrightarrow> length (re_path d) < length (re_path r)" by auto
      have "re_access m \<noteq> Deny" using le [OF r(1)] r(3) mx by fastforce
      then show ?L using L by (simp add: can_read_def)
    qed
  qed
qed

lemma resolve_access_readable: "access_covers (resolve_access pe p cwd pol) a \<Longrightarrow> can_read_path pe p cwd pol"
  by (cases a) (auto simp: can_read_path_def can_read_def can_write_def)

subsection \<open>Intersections\<close>

lemma ancestors_last_root:
  assumes "is_absolute p" and "proper_path p"
  shows "last (ancestors p) = [RootDir]"
  using assms
proof (induction "length p" arbitrary: p rule: less_induct)
  case less
  show ?case
  proof (cases "length p = 1")
    case True
    then show ?thesis using less by (cases p) (auto simp: is_absolute_def)
  next
    case False
    then obtain ps x where p: "p = RootDir # ps @ [x]"
      using less(2) by (cases p; cases "tl p" rule: rev_cases) (auto simp: is_absolute_def)
    then have "x \<noteq> RootDir" using less(3) by (auto simp: proper_path_def)
    then have par: "path_parent p = Some (RootDir # ps)" by (simp add: p path_parent_def)
    have "last (ancestors (RootDir # ps)) = [RootDir]"
      using less(1) [of "RootDir # ps"] less(3) p by (auto simp: is_absolute_def proper_path_def)
    moreover have "ancestors (RootDir # ps) \<noteq> []" by (subst ancestors.simps) simp
    ultimately show ?thesis by (subst ancestors.simps) (simp add: par)
  qed
qed

lemma resolve_permission_path_entry:
  assumes "path_env_ok pe" and "is_absolute cwd" and "proper_path cwd"
  shows "resolve_permission_path pe fp cwd = resolve_entry_path pe fp (from_absolute_path pe cwd)"
proof -
  have root: "from_absolute_path pe [RootDir] = Some [RootDir]"
    by (rule from_absolute_path_id [OF assms(1)]) (simp add: abs_path_def)
  have tmp: "from_absolute_path pe slash_tmp = Some slash_tmp"
    by (rule from_absolute_path_id [OF assms(1)]) (simp add: abs_path_def slash_tmp_def)
  have "from_absolute_path pe cwd = Some (normalize_path cwd)"
    using assms(1,2) expand_home_absolute [of pe cwd] by (simp add: from_absolute_path_def absolutize_def)
  then obtain c where c: "from_absolute_path pe cwd = Some c" "absolute_root_path_for_cwd c = [RootDir]"
    using from_absolute_path_abs [OF assms(1,3)] root_of_abs by blast
  show ?thesis
  proof (cases fp)
    case (FsSpecial v)
    then show ?thesis
      using c root tmp ancestors_last_root [OF assms(2,3)]
      by (cases v) (auto simp: resolve_permission_path_def resolve_entry_path_def split: option.split)
  qed (simp_all add: resolve_permission_path_def resolve_entry_path_def)
qed

lemma resolve_materialized:
  assumes "path_env_ok pe" and "is_absolute cwd" and "proper_path cwd"
  shows "resolve_entry_path pe (en_path (materialize_cwd_dependent_entry pe cwd e)) (from_absolute_path pe cwd) =
      resolve_entry_path pe (en_path e) (from_absolute_path pe cwd)"
    and "en_access (materialize_cwd_dependent_entry pe cwd e) = en_access e"
  using resolve_permission_path_entry [OF assms, of "en_path e"]
  by (auto simp: materialize_cwd_dependent_entry_def resolve_entry_path_def split: fs_path.splits special_path.splits option.splits)

lemma retained_deny_resolves:
  assumes "path_env_ok pe" and "is_absolute cwd" and "proper_path cwd"
    and "e \<in> set accepted" and "can_read (en_access e)" and "resolve_permission_path pe (en_path e) cwd = Some p"
    and "d \<in> set (resolved_entries pe cwd (restricted source))" and "re_access d = Deny" and "paths_overlap (re_path d) p"
    and "set (retained_deny_entries pe accepted cwd source) \<subseteq> set es"
  shows "d \<in> set (resolved_entries pe cwd (restricted es))"
proof -
  obtain ed where ed: "ed \<in> set source" "en_access ed = Deny"
    "resolve_entry_path pe (en_path ed) (from_absolute_path pe cwd) = Some (re_path d)"
    using assms(7,8) unfolding resolved_entries_iff by (auto simp: restricted_def)
  have "\<not> is_glob (en_path ed)" using ed(3) by (auto simp: is_glob_def resolve_entry_path_def split: fs_path.splits)
  then have "deny_overlaps_grant pe cwd (en_path ed) p"
    using ed(3) assms(9) resolve_permission_path_entry [OF assms(1-3), of "en_path ed"]
    by (auto simp: deny_overlaps_grant_def is_glob_def split: fs_path.splits)
  then have "deny_entry_constrains_accepted_grant pe accepted cwd ed"
    using assms(4-6) by (auto simp: deny_entry_constrains_accepted_grant_def list_ex_iff)
  then have "materialize_cwd_dependent_entry pe cwd ed \<in> set es"
    using ed(1,2) assms(10) by (auto simp: retained_deny_entries_def)
  then show ?thesis
    using ed assms(8) resolve_materialized [OF assms(1-3), of ed] unfolding resolved_entries_iff
    by (intro bexI [of _ "materialize_cwd_dependent_entry pe cwd ed"]) (auto simp: restricted_def)
qed

lemma set_intersect_entries:
  "set (fsp_entries (intersect_fs_permissions pe glob cwd req (Some g))) =
     set (accepted_entries pe glob cwd req (fsp_entries g))
     \<union> set (retained_deny_entries pe (accepted_entries pe glob cwd req (fsp_entries g)) cwd (fsp_entries req))
     \<union> set (retained_deny_entries pe (accepted_entries pe glob cwd req (fsp_entries g)) cwd (fsp_entries g))"
  by (simp add: intersect_fs_permissions_def Let_def)

lemma accepted_entryE:
  assumes "e \<in> set (accepted_entries pe glob cwd req gs)"
  obtains g where "g \<in> set gs" "e = materialize_cwd_dependent_entry pe cwd g" "can_read (en_access g)"
    "\<And>p. resolve_permission_path pe (en_path g) cwd = Some p \<Longrightarrow>
       access_covers (resolve_access pe p cwd (restricted (fsp_entries req))) (en_access g)"
proof -
  obtain g where g: "g \<in> set gs" "e = materialize_cwd_dependent_entry pe cwd g"
    "granted_entry_within_request pe req (restricted (fsp_entries req))
       (matcher_new pe glob (restricted (fsp_entries req)) cwd) cwd g"
    using assms by (auto simp: accepted_entries_def Let_def)
  show thesis by (rule that [OF g(1,2)]) (use g(3) in \<open>simp_all add: granted_entry_within_request_def\<close>)
qed

lemma readable_intersection_entry:
  assumes "path_env_ok pe" and "is_absolute cwd" and "proper_path cwd"
    and "r \<in> set (resolved_entries pe cwd (restricted (fsp_entries (intersect_fs_permissions pe glob cwd req (Some g)))))"
    and "can_read (re_access r)"
  shows "r \<in> set (resolved_entries pe cwd (restricted (fsp_entries g)))
    \<and> access_covers (resolve_access pe (re_path r) cwd (restricted (fsp_entries req))) (re_access r)
    \<and> (\<exists>e \<in> set (accepted_entries pe glob cwd req (fsp_entries g)). can_read (en_access e)
         \<and> resolve_permission_path pe (en_path e) cwd = Some (re_path r))"
proof -
  let ?acc = "accepted_entries pe glob cwd req (fsp_entries g)"
  let ?I = "intersect_fs_permissions pe glob cwd req (Some g)"
  note perm = resolve_permission_path_entry [OF assms(1-3)] and mat = resolve_materialized [OF assms(1-3)]
  obtain e where e: "e \<in> set (fsp_entries ?I)" "re_access r = en_access e"
    "resolve_entry_path pe (en_path e) (from_absolute_path pe cwd) = Some (re_path r)"
    using assms(4) unfolding resolved_entries_iff by (auto simp: restricted_def)
  have "e \<notin> set (retained_deny_entries pe ?acc cwd es)" for es
    using assms(5) e(2) mat(2) by (auto simp: retained_deny_entries_def can_read_def)
  then have acc: "e \<in> set ?acc" using e(1) unfolding set_intersect_entries by blast
  then obtain x where x: "x \<in> set (fsp_entries g)" "e = materialize_cwd_dependent_entry pe cwd x"
    "\<And>p. resolve_permission_path pe (en_path x) cwd = Some p \<Longrightarrow>
       access_covers (resolve_access pe p cwd (restricted (fsp_entries req))) (en_access x)"
    by (rule accepted_entryE) blast
  have res: "resolve_entry_path pe (en_path x) (from_absolute_path pe cwd) = Some (re_path r)" "en_access x = re_access r"
    using e(2,3) x(2) mat [of x] by auto
  have "r \<in> set (resolved_entries pe cwd (restricted (fsp_entries g)))"
    unfolding resolved_entries_iff using x(1) res by (intro bexI [of _ x]) (auto simp: restricted_def)
  moreover have "access_covers (resolve_access pe (re_path r) cwd (restricted (fsp_entries req))) (re_access r)"
    using x(3) [of "re_path r"] res perm by auto
  ultimately show ?thesis using acc e(2,3) assms(5) perm by auto
qed

lemma denies_below_readable:
  assumes "path_env_ok pe" and "is_absolute cwd" and "proper_path cwd"
    and "fs = intersect_fs_permissions pe glob cwd req (Some g)"
    and r: "r \<in> set (resolved_entries pe cwd (restricted (fsp_entries fs)))" "starts_with t (re_path r)" "can_read (re_access r)"
      "\<forall>d \<in> set (resolved_entries pe cwd (restricted (fsp_entries fs))). re_access d = Deny \<and> starts_with t (re_path d) \<longrightarrow>
         length (re_path d) < length (re_path r)"
    and d: "d \<in> set (resolved_entries pe cwd (restricted es))" "re_access d = Deny" "starts_with t (re_path d)"
      "es = fsp_entries req \<or> es = fsp_entries g"
  shows "strict_prefix (re_path d) (re_path r)"
proof -
  let ?acc = "accepted_entries pe glob cwd req (fsp_entries g)"
  obtain e where e: "e \<in> set ?acc" "can_read (en_access e)" "resolve_permission_path pe (en_path e) cwd = Some (re_path r)"
    using readable_intersection_entry [OF assms(1-3) r(1) [unfolded assms(4)] r(3)] by blast
  have sub: "set (retained_deny_entries pe ?acc cwd es) \<subseteq> set (fsp_entries fs)"
    using d(4) set_intersect_entries [of pe glob cwd req g] assms(4) by auto
  have "paths_overlap (re_path d) (re_path r)"
    using prefix_same_cases [OF d(3) r(2)] by (auto simp: paths_overlap_def)
  then have "d \<in> set (resolved_entries pe cwd (restricted (fsp_entries fs)))"
    by (rule retained_deny_resolves [OF assms(1-3) e d(1,2) _ sub])
  then have "length (re_path d) < length (re_path r)" using r(4) d(2,3) by blast
  then show ?thesis using prefix_same_cases [OF d(3) r(2)] prefix_length_le by (fastforce simp: strict_prefix_def)
qed

lemma intersection_reads:
  assumes "path_env_ok pe" and "tmpdir_ok pe" and "is_absolute cwd" and "proper_path cwd"
    and "policy_ok (restricted (fsp_entries g))" and fs: "fs = intersect_fs_permissions pe glob cwd req (Some g)"
    and can: "can_read_path pe p cwd (restricted (fsp_entries fs))"
  shows "can_read_path pe p cwd (restricted (fsp_entries req)) \<and> can_read_path pe p cwd (restricted (fsp_entries g))"
proof -
  let ?R = "\<lambda>es. resolved_entries pe cwd (restricted es)"
  have kind: "sp_kind (restricted es) = Restricted" for es by (simp add: restricted_def)
  obtain t where t: "resolve_candidate_path pe p cwd = Some t"
    using can by (auto simp: can_read_path_def resolve_access_def restricted_def can_read_def split: option.splits)
  obtain r where r: "r \<in> set (?R (fsp_entries fs))" "starts_with t (re_path r)" "can_read (re_access r)"
    "\<forall>d \<in> set (?R (fsp_entries fs)). re_access d = Deny \<and> starts_with t (re_path d) \<longrightarrow>
       length (re_path d) < length (re_path r)"
    using can unfolding can_read_path_iff [OF kind t] by blast
  note short = denies_below_readable [OF assms(1,3,4) fs r]
  have rg: "r \<in> set (?R (fsp_entries g))" and cov: "can_read_path pe (re_path r) cwd (restricted (fsp_entries req))"
    using readable_intersection_entry [OF assms(1,3,4) r(1) [unfolded fs] r(3)] resolve_access_readable by blast+
  have "abs_path (re_path r)" using resolved_entries_abs [OF assms(1,2,5,4) rg] .
  then have cand: "resolve_candidate_path pe (re_path r) cwd = Some (re_path r)"
    using from_absolute_path_id [OF assms(1)] abs_path_absolute by (auto simp: resolve_candidate_path_def)
  obtain r1 where r1: "r1 \<in> set (?R (fsp_entries req))" "starts_with (re_path r) (re_path r1)" "can_read (re_access r1)"
    "\<forall>d \<in> set (?R (fsp_entries req)). re_access d = Deny \<and> starts_with (re_path r) (re_path d) \<longrightarrow>
       length (re_path d) < length (re_path r1)"
    using cov unfolding can_read_path_iff [OF kind cand] by blast
  have "starts_with t (re_path r1)" using r1(2) r(2) by (rule prefix_order.trans)
  then have "can_read_path pe p cwd (restricted (fsp_entries req))"
    unfolding can_read_path_iff [OF kind t] using r1 short [of _ "fsp_entries req"] by (auto simp: strict_prefix_def)
  moreover have "can_read_path pe p cwd (restricted (fsp_entries g))"
    unfolding can_read_path_iff [OF kind t] using rg r(2,3) short [of _ "fsp_entries g"] prefix_length_less by blast
  ultimately show ?thesis ..
qed

lemma network_requested_both: "network_requested (if P then Some \<lparr>np_enabled = Some True\<rparr> else None) \<longleftrightarrow> P"
  by (simp add: network_requested_def)


text \<open>
  C40. A read-only part of a request is lost in the intersection: when a command asks to write below a
  directory except one of its subdirectories, which it only wants to read, and is granted the directory,
  the result lets everything in the subdirectory be written. Only denials are carried over.
\<close>

theorem intersection_widens_read_only_subpath:
  assumes "path_env_ok pe" and "is_absolute cwd" and "proper_path cwd" and "abs_path dir"
    and "abs_path p" and "starts_with p (dir @ [Normal sub])"
    and "requested = \<lparr>fsp_entries = [entry (FsPath dir) Write, entry (FsPath (dir @ [Normal sub])) Read],
                      fsp_glob_scan_max_depth = None\<rparr>"
    and "granted = \<lparr>fsp_entries = [entry (FsPath dir) Write], fsp_glob_scan_max_depth = None\<rparr>"
  shows "resolve_access pe p cwd (restricted (fsp_entries (intersect_fs_permissions pe glob cwd requested (Some granted)))) = Write
    \<and> resolve_access pe p cwd (restricted (fsp_entries requested)) = Read"
proof -
  have cand: "resolve_candidate_path pe x cwd = Some x" if "abs_path x" for x
    using that from_absolute_path_id [OF assms(1)] abs_path_absolute by (auto simp: resolve_candidate_path_def)
  have res: "resolved_entries pe cwd (restricted [entry (FsPath a) x]) = [\<lparr>re_path = a, re_access = x\<rparr>]"
    "resolved_entries pe cwd (restricted [entry (FsPath a) x, entry (FsPath b) y]) =
       [\<lparr>re_path = a, re_access = x\<rparr>, \<lparr>re_path = b, re_access = y\<rparr>]" for a b x y
    by (simp_all add: resolved_entries_def restricted_def List.map_filter_def resolve_entry_path_def)
  have pd: "starts_with p dir" using assms(6) by (rule append_prefixD)
  have rk: "resolve_access pe q cwd (restricted (fsp_entries requested)) =
      (if starts_with q (dir @ [Normal sub]) then Read else Write)" if "abs_path q" "starts_with q dir" for q
    using that cand [OF that(1)]
    by (simp add: resolve_access_def assms(7) res precedence_le_def resolved_entry_precedence_def) (simp add: restricted_def)
  have "matcher_new pe glob (restricted (fsp_entries requested)) cwd = None"
    by (simp add: matcher_new_def matcher_build_def has_denied_read_restrictions_def restricted_def assms(7))
  then have acc: "accepted_entries pe glob cwd requested (fsp_entries granted) = [entry (FsPath dir) Write]"
    using rk [OF assms(4)]
    by (simp add: accepted_entries_def assms(8) granted_entry_within_request_def can_read_def can_write_def
        resolve_permission_path_def materialize_cwd_dependent_entry_def push_unique_def)
  have no_deny: "retained_deny_entries pe a cwd (fsp_entries requested) = []"
    "retained_deny_entries pe a cwd (fsp_entries granted) = []" for a
    by (simp_all add: retained_deny_entries_def assms(7,8))
  have "fsp_entries (intersect_fs_permissions pe glob cwd requested (Some granted)) = [entry (FsPath dir) Write]"
    by (simp add: intersect_fs_permissions_def Let_def acc no_deny)
  then show ?thesis
    using rk [OF assms(5) pd] assms(6) pd cand [OF assms(5)]
    by (simp add: resolve_access_def res)
qed

subsection \<open>Merging\<close>

lemma effective_depth_append:
  "effective_glob_scan_depth (foldl push_unique es fs) d =
     (if effective_glob_scan_depth es d = None then effective_glob_scan_depth fs d else effective_glob_scan_depth es d)"
  by (auto simp: effective_glob_scan_depth_def list_ex_iff)

fun join_depths :: "glob_scan_depth option \<Rightarrow> glob_scan_depth option \<Rightarrow> glob_scan_depth option" where
  "join_depths None y = y"
| "join_depths x None = x"
| "join_depths (Some (Bounded a)) (Some (Bounded b)) = Some (Bounded (max a b))"
| "join_depths (Some Unbounded) _ = Some Unbounded"
| "join_depths _ (Some Unbounded) = Some Unbounded"

lemma depth_of_merged:
  "effective_glob_scan_depth (foldl push_unique es fs) (merge_glob_scan_max_depth es d fs d') =
     join_depths (effective_glob_scan_depth es d) (effective_glob_scan_depth fs d')"
  unfolding merge_glob_scan_max_depth_def effective_depth_append
  by (auto simp: effective_glob_scan_depth_def split: option.splits glob_scan_depth.splits)

lemma merge_depth_assoc:
  "merge_glob_scan_max_depth (foldl push_unique es fs) (merge_glob_scan_max_depth es d fs d') gs d'' =
   merge_glob_scan_max_depth es d (foldl push_unique [] (fs @ gs)) (merge_glob_scan_max_depth fs d' gs d'')"
proof -
  have fg: "effective_glob_scan_depth (foldl push_unique [] (fs @ gs)) x = effective_glob_scan_depth (foldl push_unique fs gs) x" for x
    by (simp add: effective_glob_scan_depth_def list_ex_iff)
  have merge: "merge_glob_scan_max_depth a x b y =
      merge_depths (effective_glob_scan_depth a x) (effective_glob_scan_depth b y)" for a x b y
    by (simp add: merge_glob_scan_max_depth_def)
  have "merge_depths (join_depths x y) z = merge_depths x (join_depths y z)" for x y z
  proof -
    have split: "P a" if "P None" "P (Some Unbounded)" "\<And>n. P (Some (Bounded n))" for P and a :: "glob_scan_depth option"
      using that by (metis glob_scan_depth.exhaust option.exhaust)
    show ?thesis by (rule split [of _ x]; rule split [of _ y]; rule split [of _ z]) simp_all
  qed
  then show ?thesis
    unfolding merge fg depth_of_merged [unfolded merge] .
qed

text \<open>The invariant of \<^verbatim>\<open>Option<NonZeroUsize>\<close>.\<close>

definition depth_ok :: "nat option \<Rightarrow> bool" where
  "depth_ok d \<longleftrightarrow> d \<noteq> Some 0"

definition additional_ok :: "additional_profile \<Rightarrow> bool" where
  "additional_ok a \<longleftrightarrow> (case ap_file_system a of Some fs \<Rightarrow> depth_ok (fsp_glob_scan_max_depth fs) | None \<Rightarrow> True)"

fun profile_ok :: "permission_profile \<Rightarrow> bool" where
  "profile_ok (ProfileManaged (ManagedRestricted es d) net) = depth_ok d"
| "profile_ok _ = True"

lemma merge_depth_ok: "depth_ok d \<Longrightarrow> depth_ok d' \<Longrightarrow> depth_ok (merge_glob_scan_max_depth es d fs d')"
  by (cases d; cases d') (auto simp: depth_ok_def merge_glob_scan_max_depth_def effective_glob_scan_depth_def)

lemma bind_nonzero: "depth_ok d \<Longrightarrow> Option.bind d nonzero_new = d"
  by (cases d) (auto simp: depth_ok_def nonzero_new_def)

lemma effective_restricted:
  assumes "sp_kind pol = Restricted"
  shows "effective_file_system_policy pol (Some \<lparr>ap_network = n, ap_file_system = Some fs\<rparr>) =
    (if fsp_entries fs = [] then pol
     else pol\<lparr>sp_entries := foldl push_unique (sp_entries pol) (fsp_entries fs),
              sp_glob_scan_max_depth := merge_glob_scan_max_depth (sp_entries pol) (sp_glob_scan_max_depth pol)
                (fsp_entries fs) (fsp_glob_scan_max_depth fs)\<rparr>)"
  using assms by (simp add: effective_file_system_policy_def fs_permissions_is_empty_def merge_policy_with_additional_def)

lemma effective_unrestricted: "sp_kind pol \<noteq> Restricted \<Longrightarrow> effective_file_system_policy pol a = pol"
  by (simp add: effective_file_system_policy_def merge_policy_with_additional_def split: option.split)

lemma effective_depth_dedup [simp]:
  "effective_glob_scan_depth (foldl push_unique [] fs) d = effective_glob_scan_depth fs d"
  by (simp add: effective_glob_scan_depth_def list_ex_iff)

lemma effective_merged_policy:
  assumes "sp_kind pol = Restricted" and "depth_ok (fsp_glob_scan_max_depth f)" and "depth_ok (fsp_glob_scan_max_depth g)"
  shows "effective_file_system_policy pol (Some \<lparr>ap_network = n, ap_file_system = merge_fs_permissions (Some f) (Some g)\<rparr>) =
    effective_file_system_policy (effective_file_system_policy pol (Some \<lparr>ap_network = n', ap_file_system = Some f\<rparr>))
      (Some \<lparr>ap_network = n'', ap_file_system = Some g\<rparr>)"
proof -
  let ?F = "fsp_entries f" and ?G = "fsp_entries g" and ?df = "fsp_glob_scan_max_depth f" and ?dg = "fsp_glob_scan_max_depth g"
  let ?m = "merge_permission_entries ?F ?G"
  have d: "Option.bind (merge_glob_scan_max_depth ?F ?df ?G ?dg) nonzero_new = merge_glob_scan_max_depth ?F ?df ?G ?dg"
    by (rule bind_nonzero [OF merge_depth_ok [OF assms(2,3)]])
  have m: "?m = foldl push_unique (foldl push_unique [] ?F) ?G" by (simp add: merge_permission_entries_def)
  have es: "foldl push_unique (sp_entries pol) ?m = foldl push_unique (foldl push_unique (sp_entries pol) ?F) ?G"
    using foldl_push_unique_nested [of "sp_entries pol" "[]" "?F @ ?G"] by (simp add: merge_permission_entries_def)
  have empty: "?m = [] \<longleftrightarrow> ?F = [] \<and> ?G = []"
  proof -
    have "set ?m = set ?F \<union> set ?G" by (simp add: m)
    then show ?thesis by (cases ?m) auto
  qed
  have none [simp]: "effective_glob_scan_depth [] x = None" for x by (simp add: effective_glob_scan_depth_def)
  have left: "merge_glob_scan_max_depth a x ?m (merge_glob_scan_max_depth ?F ?df ?G ?dg) =
      merge_glob_scan_max_depth a x ?G ?dg" if "?F = []" for a x
    using depth_of_merged [of "[]" ?G ?df ?dg] that
    by (simp add: merge_permission_entries_def merge_glob_scan_max_depth_def)
  have right: "merge_glob_scan_max_depth a x ?m (merge_glob_scan_max_depth ?F ?df ?G ?dg) =
      merge_glob_scan_max_depth a x ?F ?df" if "?G = []" for a x
    using depth_of_merged [of "foldl push_unique [] ?F" "[]" ?df ?dg] that
    by (cases "effective_glob_scan_depth ?F ?df") (simp_all add: merge_permission_entries_def merge_glob_scan_max_depth_def)
  have both: "merge_glob_scan_max_depth a x ?m (merge_glob_scan_max_depth ?F ?df ?G ?dg) =
      merge_glob_scan_max_depth (foldl push_unique a ?F) (merge_glob_scan_max_depth a x ?F ?df) ?G ?dg" for a x
    by (simp add: merge_depth_assoc merge_permission_entries_def)
  show ?thesis
  proof (cases "?m = []")
    case True
    then show ?thesis
      using assms(1) empty
      by (simp add: effective_restricted merge_fs_permissions_def fs_permissions_is_empty_def)
        (simp add: effective_file_system_policy_def)
  next
    case False
    then have mf: "merge_fs_permissions (Some f) (Some g) =
        Some \<lparr>fsp_entries = ?m, fsp_glob_scan_max_depth = merge_glob_scan_max_depth ?F ?df ?G ?dg\<rparr>"
      by (simp add: merge_fs_permissions_def fs_permissions_is_empty_def d)
    show ?thesis
      unfolding mf effective_restricted [OF assms(1)]
      using False empty left right both assms(1) es
      by (cases "?F = []"; cases "?G = []") (simp_all add: effective_restricted)
  qed
qed

lemma effective_policy_merge:
  assumes "additional_ok b" and "additional_ok p"
  shows "effective_file_system_policy pol (merge_permission_profiles (Some b) (Some p)) =
    effective_file_system_policy (effective_file_system_policy pol (Some b)) (Some p)"
proof (cases "sp_kind pol = Restricted")
  case True
  have eff: "effective_file_system_policy q (if additional_is_empty m then None else Some m) =
      effective_file_system_policy q (Some m)" for q m
    by (auto simp: additional_is_empty_def effective_file_system_policy_def)
  have none: "effective_file_system_policy q (Some \<lparr>ap_network = n, ap_file_system = None\<rparr>) = q" for q n
    by (simp add: effective_file_system_policy_def)
  have only_fs: "effective_file_system_policy q (Some \<lparr>ap_network = n, ap_file_system = Some fs\<rparr>) =
      effective_file_system_policy q (Some \<lparr>ap_network = n', ap_file_system = Some fs\<rparr>)" for q n n' fs
    by (simp add: effective_file_system_policy_def)
  obtain nb fb np fp where bp: "b = \<lparr>ap_network = nb, ap_file_system = fb\<rparr>" "p = \<lparr>ap_network = np, ap_file_system = fp\<rparr>"
    by (cases b; cases p) auto
  show ?thesis
    unfolding merge_permission_profiles_def option.case Let_def eff bp
    using effective_merged_policy [OF True] assms none only_fs
    by (cases fb; cases fp) (simp_all add: additional_ok_def merge_fs_permissions_def bp)
next
  case False
  then show ?thesis by (simp add: effective_unrestricted)
qed

lemma effective_network_merge:
  "effective_network_policy net (merge_permission_profiles (Some b) (Some p)) =
    effective_network_policy (effective_network_policy net (Some b)) (Some p)"
  by (cases net; cases "ap_network b"; cases "ap_network p")
    (auto simp: effective_network_policy_def merge_permission_profiles_def merge_network_access_def network_requested_def
      network_is_enabled_def additional_is_empty_def Let_def split: option.splits)

lemma effective_profile_runtime:
  assumes "profile_ok prof" and "\<And>a. additional = Some a \<Longrightarrow> additional_ok a"
  shows "\<exists>prof'. effective_permission_profile prof additional = Some prof' \<and> profile_ok prof'
    \<and> profile_enforcement prof' = profile_enforcement prof
    \<and> profile_file_system_policy prof' = effective_file_system_policy (profile_file_system_policy prof) additional
    \<and> profile_network_policy prof' = effective_network_policy (profile_network_policy prof) additional"
proof (cases prof)
  case (ProfileManaged m net)
  show ?thesis
  proof (cases m)
    case (ManagedRestricted es d)
    let ?pol = "effective_file_system_policy (profile_file_system_policy prof) additional"
    have ok: "depth_ok (sp_glob_scan_max_depth ?pol)" and kind: "sp_kind ?pol = Restricted"
      using assms ProfileManaged ManagedRestricted
      by (auto simp: effective_file_system_policy_def merge_policy_with_additional_def additional_ok_def merge_depth_ok
          split: option.split)
    have "\<lparr>sp_kind = Restricted, sp_glob_scan_max_depth = sp_glob_scan_max_depth ?pol, sp_entries = sp_entries ?pol\<rparr> = ?pol"
      using kind by (cases ?pol) auto
    then show ?thesis
      using ProfileManaged kind ok bind_nonzero [OF ok]
      by (simp add: effective_permission_profile_def from_runtime_permissions_with_enforcement_def managed_profile_def
          managed_from_sandbox_policy_def)
  next
    case ManagedUnrestricted
    then show ?thesis
      using ProfileManaged
      by (simp add: effective_permission_profile_def from_runtime_permissions_with_enforcement_def managed_profile_def
          managed_from_sandbox_policy_def effective_unrestricted unrestricted_def)
  qed
next
  case ProfileDisabled
  then show ?thesis
    by (auto simp: effective_permission_profile_def from_runtime_permissions_with_enforcement_def
        effective_unrestricted unrestricted_def effective_network_policy_def merge_network_access_def network_is_enabled_def
        split: option.split)
next
  case (ProfileExternal net)
  then show ?thesis
    by (simp add: effective_permission_profile_def from_runtime_permissions_with_enforcement_def
        effective_unrestricted external_sandbox_def)
qed

lemma merge_with_none:
  "effective_file_system_policy pol (merge_permission_profiles None (Some p)) = effective_file_system_policy pol (Some p)"
  "effective_network_policy net (merge_permission_profiles None (Some p)) = effective_network_policy net (Some p)"
  by (cases net; auto simp: merge_permission_profiles_def additional_is_empty_def effective_file_system_policy_def
      effective_network_policy_def merge_network_access_def network_is_enabled_def)+

text \<open>
  C39. Granting permissions in two steps and granting their merge is the same: the profile a command
  runs under is equal, entries, order and scan depth included, and building it never fails.
\<close>

theorem merged_grants_act_in_sequence:
  assumes "profile_ok prof" and "\<forall>a. base = Some a \<or> perms = Some a \<longrightarrow> additional_ok a"
  shows "effective_permission_profile prof (merge_permission_profiles base perms) =
      Option.bind (effective_permission_profile prof base) (\<lambda>prof'. effective_permission_profile prof' perms)
    \<and> effective_permission_profile prof (merge_permission_profiles base perms) \<noteq> None"
proof -
  obtain prof' where prof': "effective_permission_profile prof base = Some prof'" "profile_ok prof'"
    "profile_enforcement prof' = profile_enforcement prof"
    "profile_file_system_policy prof' = effective_file_system_policy (profile_file_system_policy prof) base"
    "profile_network_policy prof' = effective_network_policy (profile_network_policy prof) base"
    using effective_profile_runtime [OF assms(1), of base] assms(2) by auto
  have none: "effective_file_system_policy pol None = pol" "effective_network_policy net None = net" for pol net
    by (simp_all add: effective_file_system_policy_def effective_network_policy_def)
  have fs: "effective_file_system_policy pol (merge_permission_profiles base perms) =
      effective_file_system_policy (effective_file_system_policy pol base) perms" for pol
    using effective_policy_merge merge_with_none(1) none(1) assms(2)
    by (cases base; cases perms) (auto simp: merge_permission_profiles_def)
  have net: "effective_network_policy n (merge_permission_profiles base perms) =
      effective_network_policy (effective_network_policy n base) perms" for n
    using effective_network_merge merge_with_none(2) none(2)
    by (cases base; cases perms) (auto simp: merge_permission_profiles_def)
  have "effective_permission_profile prof (merge_permission_profiles base perms) = effective_permission_profile prof' perms"
    by (simp add: effective_permission_profile_def fs net prof'(3-5))
  moreover have "effective_permission_profile prof' perms \<noteq> None"
    using effective_profile_runtime [OF prof'(2), of perms] assms(2) by auto
  ultimately show ?thesis using prof'(1) by simp
qed

subsection \<open>Reading and writing profiles\<close>

lemma max_by_precedence_access_cong:
  assumes "set es = set fs"
  shows "map_option re_access (max_by_precedence es) = map_option re_access (max_by_precedence fs)"
proof (cases "es = []")
  case False
  then obtain m n where m: "max_by_precedence es = Some m" and n: "max_by_precedence fs = Some n"
    using assms max_by_precedence_None [of es] max_by_precedence_None [of fs] by fastforce
  have "precedence_le (resolved_entry_precedence m) (resolved_entry_precedence n)"
    "precedence_le (resolved_entry_precedence n) (resolved_entry_precedence m)"
    using max_by_precedence_Some [OF m] max_by_precedence_Some [OF n] assms by auto
  then have "re_access m = re_access n" by (auto simp: precedence_le_def resolved_entry_precedence_def)
  then show ?thesis using m n by simp
qed (use assms in simp)

lemma resolve_access_set_cong:
  assumes "set es = set fs"
  shows "resolve_access pe p cwd (restricted es) = resolve_access pe p cwd (restricted fs)"
proof -
  have res: "set (resolved_entries pe cwd (restricted es)) = set (resolved_entries pe cwd (restricted fs))"
    using assms by (auto simp: resolved_entries_iff restricted_def)
  show ?thesis
  proof (cases "resolve_candidate_path pe p cwd")
    case (Some q)
    let ?f = "\<lambda>es. filter (\<lambda>e. starts_with q (re_path e)) (resolved_entries pe cwd (restricted es))"
    have "map_option re_access (max_by_precedence (?f es)) = map_option re_access (max_by_precedence (?f fs))"
      by (rule max_by_precedence_access_cong) (use res in auto)
    then show ?thesis using Some by (auto simp: resolve_access_def restricted_def split: option.splits)
  qed (simp add: resolve_access_def restricted_def)
qed

lemma legacy_roots_loop_entries:
  "legacy_roots_loop es rd wr = Some (rd', wr') \<Longrightarrow>
     \<exists>r w. rd' = rd @ r \<and> wr' = wr @ w
       \<and> mset es = mset (map (\<lambda>p. entry (FsPath p) Read) r @ map (\<lambda>p. entry (FsPath p) Write) w)"
proof (induction es rd wr rule: legacy_roots_loop.induct)
  case (2 e es rd wr)
  obtain p where p: "en_path e = FsPath p" using 2(3) by (auto split: fs_path.splits)
  then have e: "e = entry (FsPath p) (en_access e)" by simp
  show ?case
  proof (cases "en_access e")
    case Read
    then obtain r w where "rd' = (rd @ [p]) @ r" "wr' = wr @ w"
      "mset es = mset (map (\<lambda>p. entry (FsPath p) Read) r @ map (\<lambda>p. entry (FsPath p) Write) w)"
      using 2(1) [OF p Read] 2(3) p by auto
    then show ?thesis using e Read by (intro exI [of _ "p # r"] exI [of _ w]) simp
  next
    case Write
    then obtain r w where "rd' = rd @ r" "wr' = (wr @ [p]) @ w"
      "mset es = mset (map (\<lambda>p. entry (FsPath p) Read) r @ map (\<lambda>p. entry (FsPath p) Write) w)"
      using 2(2) [OF p Write] 2(3) p by auto
    then show ?thesis using e Write by (intro exI [of _ r] exI [of _ "p # w"]) simp
  next
    case Deny
    then show ?thesis using 2(3) p by simp
  qed
qed auto

text \<open>
  A permission set written to JSON, in the legacy form when that can express it, is read back as one
  with the same entries, at most in another order, and the same scan depth, so it decides every path alike.
\<close>

theorem permissions_json_round_trip:
  assumes "depth_ok (fsp_glob_scan_max_depth fs)"
  shows "\<exists>fs'. deserialize_fs_permissions (serialize_fs_permissions fs) = Some fs'
    \<and> mset (fsp_entries fs') = mset (fsp_entries fs)
    \<and> fsp_glob_scan_max_depth fs' = fsp_glob_scan_max_depth fs
    \<and> (\<forall>p. resolve_access pe p cwd (restricted (fsp_entries fs')) = resolve_access pe p cwd (restricted (fsp_entries fs)))"
proof -
  obtain fs' where fs': "deserialize_fs_permissions (serialize_fs_permissions fs) = Some fs'"
    "mset (fsp_entries fs') = mset (fsp_entries fs)" "fsp_glob_scan_max_depth fs' = fsp_glob_scan_max_depth fs"
  proof (cases "as_legacy_permissions fs")
    case None
    then show ?thesis
      using assms that by (simp add: serialize_fs_permissions_def deserialize_fs_permissions_def depth_ok_def)
  next
    case (Some rw)
    then obtain r w where rw: "legacy_roots_loop (fsp_entries fs) [] [] = Some (r, w)" "fsp_glob_scan_max_depth fs = None"
      "rw = (if r = [] then None else Some r, if w = [] then None else Some w)"
      by (auto simp: as_legacy_permissions_def split: if_splits)
    have "mset (fsp_entries fs) = mset (map (\<lambda>p. entry (FsPath p) Read) r @ map (\<lambda>p. entry (FsPath p) Write) w)"
      using legacy_roots_loop_entries [OF rw(1)] by auto
    then show ?thesis
      using Some rw(2,3) that
      by (cases "r = []"; cases "w = []")
        (auto simp: serialize_fs_permissions_def deserialize_fs_permissions_def from_read_write_roots_def)
  qed
  then show ?thesis using resolve_access_set_cong mset_eq_setD by metis
qed

subsection \<open>Examples\<close>

definition no_globs :: glob_compiler where
  "no_globs pat = Inl ''unsupported''"

definition example_request :: fs_permissions where
  "example_request =
     \<lparr>fsp_entries = [entry (FsSpecial (SpProjectRoots None)) Write, entry (FsPath (work_dir @ [Normal ''key''])) Deny],
      fsp_glob_scan_max_depth = None\<rparr>"

definition example_grant :: fs_permissions where
  "example_grant =
     \<lparr>fsp_entries = [entry (FsPath work_dir) Read, entry (FsPath [RootDir, Normal ''x'']) Read],
      fsp_glob_scan_max_depth = None\<rparr>"

definition profile_of :: "fs_permissions \<Rightarrow> additional_profile" where
  "profile_of fs = \<lparr>ap_network = Some \<lparr>np_enabled = Some True\<rparr>, ap_file_system = Some fs\<rparr>"


theorem intersection_widens_read_only_subpath_witness:
  "resolve_access example_paths [RootDir, Normal ''w'', Normal ''ro'', Normal ''f''] work_dir
     (restricted (fsp_entries (intersect_fs_permissions example_paths no_globs work_dir
        \<lparr>fsp_entries = [entry (FsPath work_dir) Write, entry (FsPath (work_dir @ [Normal ''ro''])) Read], fsp_glob_scan_max_depth = None\<rparr>
        (Some \<lparr>fsp_entries = [entry (FsPath work_dir) Write], fsp_glob_scan_max_depth = None\<rparr>)))) = Write"
proof -
  have ok: "is_absolute work_dir" "abs_path work_dir" "abs_path [RootDir, Normal ''w'', Normal ''ro'', Normal ''f'']"
    "starts_with [RootDir, Normal ''w'', Normal ''ro'', Normal ''f''] (work_dir @ [Normal ''ro''])"
    by (simp_all add: is_absolute_def work_dir_def abs_path_def)
  from intersection_widens_read_only_subpath [OF example_paths_ok ok(1) work_dir_ok(1) ok(2,3,4) refl refl]
  show ?thesis by blast
qed

theorem merged_grants_act_in_sequence_witness:
  "\<exists>prof. effective_permission_profile (ProfileManaged (ManagedRestricted [entry (FsSpecial SpRoot) Read] None) NetworkRestricted)
      (merge_permission_profiles (Some (profile_of example_grant)) (Some (profile_of example_request))) = Some prof
    \<and> profile_network_policy prof = NetworkEnabled \<and> length (sp_entries (profile_file_system_policy prof)) = 5"
proof -
  let ?prof = "ProfileManaged (ManagedRestricted [entry (FsSpecial SpRoot) Read] None) NetworkRestricted"
  have ok: "profile_ok ?prof"
    "\<forall>a. Some (profile_of example_grant) = Some a \<or> Some (profile_of example_request) = Some a \<longrightarrow> additional_ok a"
    by (auto simp: depth_ok_def additional_ok_def profile_of_def example_grant_def example_request_def)
  have "Option.bind (effective_permission_profile ?prof (Some (profile_of example_grant)))
      (\<lambda>p. map_option (\<lambda>q. (profile_network_policy q, length (sp_entries (profile_file_system_policy q))))
         (effective_permission_profile p (Some (profile_of example_request)))) = Some (NetworkEnabled, 5)" by code_simp
  then show ?thesis
    using merged_grants_act_in_sequence [OF ok] by (auto split: bind_splits)
qed

theorem permissions_json_round_trip_witness:
  "\<exists>fs'. deserialize_fs_permissions (serialize_fs_permissions
       \<lparr>fsp_entries = [entry (FsPath work_dir) Write, entry (FsPath git_config) Read], fsp_glob_scan_max_depth = None\<rparr>) = Some fs'
    \<and> resolve_access example_paths git_config work_dir (restricted (fsp_entries fs')) = Read"
proof -
  let ?fs = "\<lparr>fsp_entries = [entry (FsPath work_dir) Write, entry (FsPath git_config) Read], fsp_glob_scan_max_depth = None\<rparr>"
  have ok: "depth_ok (fsp_glob_scan_max_depth ?fs)" by (simp add: depth_ok_def)
  have "resolve_access example_paths git_config work_dir (restricted (fsp_entries ?fs)) = Read" by code_simp
  then show ?thesis using permissions_json_round_trip [OF ok, of example_paths work_dir] by auto
qed

end
