(* ===== verification/Rpc_Client.thy ===== *)
theory Rpc_Client
  imports Wire
begin

text \<open>
  The client end of a JSON-RPC connection: \<^verbatim>\<open>RpcClient\<close> of \<^verbatim>\<open>crates/exec-server/src/rpc.rs\<close>. Calls run
  concurrently; each puts a oneshot sender into the table of pending requests and waits for its receiver.
  One task reads the connection's events, answers the pending requests and, when the connection ends,
  fails the ones that are left. Every section between two awaits is one definition.
\<close>

subsection \<open>The client\<close>

datatype rpc_call_error = RpcClosed | RpcJson string | RpcServer jsonrpc_error_error

datatype rpc_client_event = RpcNotification jsonrpc_notification | RpcDisconnected "string option"

datatype connection_event =
  ConnMessage jsonrpc_message
| ConnMalformed string
| ConnDisconnected "string option"

type_synonym rpc_result = "rpc_call_error + json_value"

text \<open>
  A oneshot channel is its position in \<open>rc_slots\<close>, which holds what was sent. \<open>rc_sent\<close> is what went
  into the write channel, whose receiver is gone when \<open>rc_write_closed\<close>.
\<close>

record rpc_client =
  rc_sent :: "jsonrpc_message list"
  rc_write_closed :: bool
  rc_pending :: "(request_id, nat) hash_map"
  rc_slots :: "rpc_result option list"
  rc_disconnected :: bool
  rc_closed :: bool
  rc_next_request_id :: int
  rc_events :: "rpc_client_event list"

definition rpc_client_new :: rpc_client where
  "rpc_client_new =
     \<lparr>rc_sent = [], rc_write_closed = False, rc_pending = [], rc_slots = [], rc_disconnected = False,
      rc_closed = False, rc_next_request_id = 1, rc_events = []\<rparr>"

definition is_disconnected :: "rpc_client \<Rightarrow> bool" where
  "is_disconnected rc = (rc_closed rc \<or> rc_disconnected rc)"

definition rpc_notify :: "string \<Rightarrow> string + json_value \<Rightarrow> rpc_client \<Rightarrow> (rpc_call_error + unit) \<times> rpc_client" where
  "rpc_notify meth params rc =
     (case params of
        Inl e \<Rightarrow> (Inl (RpcJson e), rc)
      | Inr p \<Rightarrow>
          if is_disconnected rc then (Inl RpcClosed, rc)
          else if rc_write_closed rc then (Inl RpcClosed, rc)
          else (Inr (), rc\<lparr>rc_sent := rc_sent rc @ [JsonNotification \<lparr>jn_method = meth, jn_params = Some p\<rparr>]\<rparr>))"

subsection \<open>Calls\<close>

definition i64_succ :: "int \<Rightarrow> int" where
  "i64_succ n = (if n = 2 ^ 63 - 1 then - (2 ^ 63) else n + 1)"

text \<open>\<^verbatim>\<open>fetch_add\<close>, and the new oneshot channel.\<close>

definition call_begin :: "rpc_client \<Rightarrow> request_id \<times> nat \<times> rpc_client" where
  "call_begin rc =
     (IntegerId (rc_next_request_id rc), length (rc_slots rc),
      rc\<lparr>rc_next_request_id := i64_succ (rc_next_request_id rc), rc_slots := rc_slots rc @ [None]\<rparr>)"

definition call_register :: "request_id \<Rightarrow> nat \<Rightarrow> rpc_client \<Rightarrow> (rpc_call_error + unit) \<times> rpc_client" where
  "call_register rid slot rc =
     (if is_disconnected rc then (Inl RpcClosed, rc)
      else (Inr (), rc\<lparr>rc_pending := hm_insert rid slot (rc_pending rc)\<rparr>))"

definition call_send ::
  "string \<Rightarrow> string + json_value \<Rightarrow> request_id \<Rightarrow> rpc_client \<Rightarrow> (rpc_call_error + unit) \<times> rpc_client" where
  "call_send meth params rid rc =
     (let forget = rc\<lparr>rc_pending := hm_remove rid (rc_pending rc)\<rparr>
      in case params of
           Inl e \<Rightarrow> (Inl (RpcJson e), forget)
         | Inr p \<Rightarrow>
             if rc_write_closed rc then (Inl RpcClosed, forget)
             else (Inr (), rc\<lparr>rc_sent := rc_sent rc @
                     [JsonRequest \<lparr>jr_id = rid, jr_method = meth, jr_params = Some p\<rparr>]\<rparr>))"

definition call_receive :: "(json_value \<Rightarrow> string + 't) \<Rightarrow> rpc_result \<Rightarrow> rpc_call_error + 't" where
  "call_receive decode v =
     (case v of
        Inl e \<Rightarrow> Inl e
      | Inr j \<Rightarrow> (case decode j of Inl m \<Rightarrow> Inl (RpcJson m) | Inr t \<Rightarrow> Inr t))"

subsection \<open>The reader\<close>

definition answer_pending :: "request_id \<Rightarrow> rpc_result \<Rightarrow> rpc_client \<Rightarrow> rpc_client" where
  "answer_pending rid v rc =
     (case hm_get (rc_pending rc) rid of
        None \<Rightarrow> rc
      | Some slot \<Rightarrow> rc\<lparr>rc_pending := hm_remove rid (rc_pending rc), rc_slots := (rc_slots rc)[slot := Some v]\<rparr>)"

fun handle_server_message :: "jsonrpc_message \<Rightarrow> rpc_client \<Rightarrow> (string + unit) \<times> rpc_client" where
  "handle_server_message (JsonResponse rid v) rc = (Inr (), answer_pending rid (Inr v) rc)"
| "handle_server_message (JsonError rid e) rc = (Inr (), answer_pending rid (Inl (RpcServer e)) rc)"
| "handle_server_message (JsonNotification n) rc = (Inr (), rc\<lparr>rc_events := rc_events rc @ [RpcNotification n]\<rparr>)"
| "handle_server_message (JsonRequest r) rc =
     (Inl (''unexpected JSON-RPC request from remote server: '' @ jr_method r), rc)"

definition drain_pending :: "rpc_client \<Rightarrow> rpc_client" where
  "drain_pending rc =
     rc\<lparr>rc_pending := [],
        rc_slots := fold (\<lambda>(_, slot) ss. ss[slot := Some (Inl RpcClosed)]) (rc_pending rc) (rc_slots rc)\<rparr>"

datatype reader_phase =
  ReaderLoop
| ReaderLeft "string option"
| ReaderClosed "string option"
| ReaderDrained "string option"
| ReaderEnded

text \<open>One turn of the loop: the reason to leave it, or none to go on.\<close>

definition reader_event :: "connection_event option \<Rightarrow> rpc_client \<Rightarrow> string option option \<times> rpc_client" where
  "reader_event ev rc =
     (case ev of
        None \<Rightarrow> (Some None, rc)
      | Some (ConnMessage m) \<Rightarrow>
          (case handle_server_message m rc of
             (Inl _, rc') \<Rightarrow> (Some None, rc')
           | (Inr _, rc') \<Rightarrow> (None, rc'))
      | Some (ConnMalformed _) \<Rightarrow> (Some None, rc)
      | Some (ConnDisconnected reason) \<Rightarrow> (Some reason, rc))"

definition mark_closed :: "rpc_client \<Rightarrow> rpc_client" where
  "mark_closed rc = rc\<lparr>rc_closed := True\<rparr>"

definition send_disconnected_event :: "string option \<Rightarrow> rpc_client \<Rightarrow> rpc_client" where
  "send_disconnected_event reason rc = rc\<lparr>rc_events := rc_events rc @ [RpcDisconnected reason]\<rparr>"

text \<open>\<^verbatim>\<open>close_transport\<close>, up to its drain: the transport's tasks are gone.\<close>

definition close_transport_begin :: "rpc_client \<Rightarrow> rpc_client" where
  "close_transport_begin rc = rc\<lparr>rc_closed := True, rc_write_closed := True\<rparr>"

subsection \<open>All tasks together\<close>

datatype 't rpc_call =
  CallBegun request_id
| CallRegistered request_id
| CallSent request_id
| CallDone "rpc_call_error + 't"

text \<open>
  The client with its calls, call \<open>i\<close> having slot \<open>i\<close>; the events that wait for the reader, whether the
  transport can still add some, and the messages the reader has taken; and the \<open>close_transport\<close>s that have yet
  to drain.
\<close>

record 't rpc_system =
  rs_client :: rpc_client
  rs_calls :: "'t rpc_call list"
  rs_incoming :: "connection_event list"
  rs_incoming_closed :: bool
  rs_received :: "jsonrpc_message list"
  rs_reader :: reader_phase
  rs_closing :: nat

definition received_messages :: "connection_event option \<Rightarrow> jsonrpc_message list" where
  "received_messages ev = (case ev of Some (ConnMessage m) \<Rightarrow> [m] | _ \<Rightarrow> [])"

definition reader_take :: "connection_event option \<Rightarrow> 't rpc_system \<Rightarrow> 't rpc_system" where
  "reader_take ev s =
     (case reader_event ev (rs_client s) of
        (leave, rc) \<Rightarrow>
          s\<lparr>rs_client := rc, rs_incoming := tl (rs_incoming s), rs_received := rs_received s @ received_messages ev,
            rs_reader := (case leave of None \<Rightarrow> ReaderLoop | Some reason \<Rightarrow> ReaderLeft reason)\<rparr>)"

definition reader_step :: "'t rpc_system \<Rightarrow> 't rpc_system option" where
  "reader_step s =
     (case rs_reader s of
        ReaderLoop \<Rightarrow>
          (case rs_incoming s of
             ev # _ \<Rightarrow> Some (reader_take (Some ev) s)
           | [] \<Rightarrow> if rs_incoming_closed s then Some (reader_take None s) else None)
      | ReaderLeft reason \<Rightarrow> Some (s\<lparr>rs_client := mark_closed (rs_client s), rs_reader := ReaderClosed reason\<rparr>)
      | ReaderClosed reason \<Rightarrow> Some (s\<lparr>rs_client := drain_pending (rs_client s), rs_reader := ReaderDrained reason\<rparr>)
      | ReaderDrained reason \<Rightarrow>
          Some (s\<lparr>rs_client := send_disconnected_event reason (rs_client s), rs_reader := ReaderEnded\<rparr>)
      | ReaderEnded \<Rightarrow> None)"

definition set_call :: "nat \<Rightarrow> 't rpc_call \<Rightarrow> 't rpc_system \<Rightarrow> 't rpc_system" where
  "set_call i c s = s\<lparr>rs_calls := (rs_calls s)[i := c]\<rparr>"

definition after :: "rpc_call_error + unit \<Rightarrow> 't rpc_call \<Rightarrow> 't rpc_call" where
  "after r c = (case r of Inl e \<Rightarrow> CallDone (Inl e) | Inr _ \<Rightarrow> c)"

definition rpc_start :: "'t rpc_system \<Rightarrow> bool" where
  "rpc_start s \<longleftrightarrow> s = \<lparr>rs_client = rpc_client_new, rs_calls = [], rs_incoming = [], rs_incoming_closed = False,
     rs_received = [], rs_reader = ReaderLoop, rs_closing = 0\<rparr>"

inductive rpc_step :: "(json_value \<Rightarrow> string + 't) \<Rightarrow> 't rpc_system \<Rightarrow> 't rpc_system \<Rightarrow> bool" for decode where
  begin_call: "call_begin (rs_client s) = (rid, slot, rc) \<Longrightarrow>
    rpc_step decode s (s\<lparr>rs_client := rc, rs_calls := rs_calls s @ [CallBegun rid]\<rparr>)"
| register: "i < length (rs_calls s) \<Longrightarrow> rs_calls s ! i = CallBegun rid \<Longrightarrow>
    call_register rid i (rs_client s) = (r, rc) \<Longrightarrow>
    rpc_step decode s (set_call i (after r (CallRegistered rid)) (s\<lparr>rs_client := rc\<rparr>))"
| send: "i < length (rs_calls s) \<Longrightarrow> rs_calls s ! i = CallRegistered rid \<Longrightarrow>
    call_send meth params rid (rs_client s) = (r, rc) \<Longrightarrow>
    rpc_step decode s (set_call i (after r (CallSent rid)) (s\<lparr>rs_client := rc\<rparr>))"
| receive: "i < length (rs_calls s) \<Longrightarrow> rs_calls s ! i = CallSent rid \<Longrightarrow> rc_slots (rs_client s) ! i = Some v \<Longrightarrow>
    rpc_step decode s (set_call i (CallDone (call_receive decode v)) s)"
| notify: "rpc_notify meth params (rs_client s) = (r, rc) \<Longrightarrow> rpc_step decode s (s\<lparr>rs_client := rc\<rparr>)"
| reader: "reader_step s = Some t \<Longrightarrow> rpc_step decode s t"
| arrive: "\<not> rs_incoming_closed s \<Longrightarrow> rpc_step decode s (s\<lparr>rs_incoming := rs_incoming s @ [ev]\<rparr>)"
| disconnect: "rpc_step decode s (s\<lparr>rs_client := (rs_client s)\<lparr>rc_disconnected := True\<rparr>\<rparr>)"
| write_end: "rpc_step decode s (s\<lparr>rs_client := (rs_client s)\<lparr>rc_write_closed := True\<rparr>\<rparr>)"
| read_end: "rpc_step decode s (s\<lparr>rs_incoming_closed := True\<rparr>)"
| close_begin: "rpc_step decode s (s\<lparr>rs_client := close_transport_begin (rs_client s),
    rs_incoming_closed := True, rs_closing := rs_closing s + 1\<rparr>)"
| close_drain: "rs_closing s > 0 \<Longrightarrow>
    rpc_step decode s (s\<lparr>rs_client := drain_pending (rs_client s), rs_closing := rs_closing s - 1\<rparr>)"

subsection \<open>The table of pending requests\<close>

definition call_id :: "nat \<Rightarrow> request_id" where
  "call_id i = IntegerId (int i + 1)"

lemma call_id_inject [simp]: "call_id i = call_id j \<longleftrightarrow> i = j"
  by (simp add: call_id_def)

fun call_waits :: "'t rpc_call \<Rightarrow> bool" where
  "call_waits (CallRegistered _) = True"
| "call_waits (CallSent _) = True"
| "call_waits _ = False"

fun call_named :: "request_id \<Rightarrow> 't rpc_call \<Rightarrow> bool" where
  "call_named i (CallBegun rid) = (rid = i)"
| "call_named i (CallRegistered rid) = (rid = i)"
| "call_named i (CallSent rid) = (rid = i)"
| "call_named i (CallDone _) = True"

text \<open>
  Call \<open>i\<close> has the request id \<open>i + 1\<close>, and the pending requests are those of the calls that wait for an
  answer that was not yet sent to them.
\<close>

definition table_inv :: "'t rpc_call list \<Rightarrow> rpc_result option list \<Rightarrow> (request_id, nat) hash_map \<Rightarrow> bool" where
  "table_inv calls slots pend \<longleftrightarrow>
     length slots = length calls
     \<and> (\<forall>i < length calls. call_named (call_id i) (calls ! i))
     \<and> (\<forall>i < length calls. \<forall>rid. calls ! i = CallBegun rid \<longrightarrow> slots ! i = None)
     \<and> (\<forall>rid i. hm_get pend rid = Some i \<longleftrightarrow>
          i < length calls \<and> rid = call_id i \<and> call_waits (calls ! i) \<and> slots ! i = None)"

lemma table_invD:
  assumes "table_inv calls slots pend"
  shows "length slots = length calls" and "i < length calls \<Longrightarrow> call_named (call_id i) (calls ! i)"
    and "i < length calls \<Longrightarrow> calls ! i = CallBegun rid \<Longrightarrow> slots ! i = None"
    and "hm_get pend rid = Some i \<longleftrightarrow> i < length calls \<and> rid = call_id i \<and> call_waits (calls ! i) \<and> slots ! i = None"
  using assms unfolding table_inv_def by blast+

lemma table_inv_not_pending:
  "table_inv calls slots pend \<Longrightarrow> \<not> call_waits (calls ! i) \<or> slots ! i \<noteq> None \<Longrightarrow> hm_get pend rid \<noteq> Some i"
  unfolding table_inv_def by metis

lemma table_inv_begin:
  assumes "table_inv calls slots pend"
  shows "table_inv (calls @ [CallBegun (call_id (length calls))]) (slots @ [None]) pend"
  using assms unfolding table_inv_def by (auto simp: nth_append less_Suc_eq)

lemma table_inv_register:
  assumes "table_inv calls slots pend" and "i < length calls" and "calls ! i = CallBegun rid"
  shows "table_inv (calls[i := CallRegistered rid]) slots (hm_insert rid i pend)"
proof -
  have rid: "rid = call_id i" using table_invD(2) [OF assms(1,2)] assms(3) by simp
  then show ?thesis
    using assms unfolding table_inv_def by (auto simp: container_simps nth_list_update)
qed

lemma table_inv_forget:
  assumes "table_inv calls slots pend" and "i < length calls" and "calls ! i = CallRegistered rid"
  shows "table_inv (calls[i := CallDone r]) slots (hm_remove rid pend)"
proof -
  have rid: "rid = call_id i" using table_invD(2) [OF assms(1,2)] assms(3) by simp
  then show ?thesis
    using assms unfolding table_inv_def by (auto simp: container_simps nth_list_update)
qed

lemma table_inv_sent:
  assumes "table_inv calls slots pend" and "i < length calls" and "calls ! i = CallRegistered rid"
  shows "table_inv (calls[i := CallSent rid]) slots pend"
proof -
  have rid: "rid = call_id i" using table_invD(2) [OF assms(1,2)] assms(3) by simp
  then show ?thesis using assms unfolding table_inv_def by (auto simp: nth_list_update)
qed

lemma table_inv_done:
  assumes "table_inv calls slots pend" and "i < length calls" and "\<And>rid. hm_get pend rid \<noteq> Some i"
  shows "table_inv (calls[i := CallDone r]) slots pend"
  using assms unfolding table_inv_def by (auto simp: nth_list_update)

lemma table_inv_answer:
  assumes "table_inv calls slots pend" and "hm_get pend rid = Some i"
  shows "table_inv calls (slots[i := Some v]) (hm_remove rid pend)"
  using assms unfolding table_inv_def by (auto simp: container_simps nth_list_update)

lemma length_drain_slots [simp]: "length (fold (\<lambda>(_, slot) ss. ss[slot := v]) pend slots) = length slots"
  by (induction pend arbitrary: slots) auto

lemma nth_drain_slots:
  "i < length slots \<Longrightarrow>
     fold (\<lambda>(_, slot) ss. ss[slot := v]) pend slots ! i = (if i \<in> snd ` set pend then v else slots ! i)"
proof (induction pend arbitrary: slots)
  case (Cons p pend)
  then show ?case by (cases p) (simp add: nth_list_update)
qed simp

lemma table_inv_drain:
  assumes "table_inv calls slots pend" and "hm_wf pend"
  shows "table_inv calls (fold (\<lambda>(_, slot) ss. ss[slot := Some v]) pend slots) []"
proof -
  have in_pend: "i \<in> snd ` set pend \<longleftrightarrow> (\<exists>rid. hm_get pend rid = Some i)" for i
    using hm_get_in_set [OF assms(2)] by (force simp: image_iff)
  have drained: "fold (\<lambda>(_, slot) ss. ss[slot := Some v]) pend slots ! i \<noteq> None"
    if "i < length calls" "call_waits (calls ! i)" for i
    using that table_invD [OF assms(1)] in_pend [of i] nth_drain_slots [of i slots "Some v" pend] by auto
  have begun: "fold (\<lambda>(_, slot) ss. ss[slot := Some v]) pend slots ! i = None"
    if "i < length calls" "calls ! i = CallBegun rid" for i rid
    using that table_invD [OF assms(1)] in_pend [of i] nth_drain_slots [of i slots "Some v" pend] by auto
  show ?thesis
    using table_invD(1,2) [OF assms(1)] drained begun unfolding table_inv_def by auto
qed

subsection \<open>What every reachable state satisfies\<close>

fun slot_explained :: "jsonrpc_message list \<Rightarrow> nat \<Rightarrow> rpc_result option \<Rightarrow> bool" where
  "slot_explained received i (Some (Inr v)) = (JsonResponse (call_id i) v \<in> set received)"
| "slot_explained received i (Some (Inl (RpcServer e))) = (JsonError (call_id i) e \<in> set received)"
| "slot_explained received i (Some (Inl (RpcJson _))) = False"
| "slot_explained received i _ = True"

fun result_explained :: "(json_value \<Rightarrow> string + 't) \<Rightarrow> rpc_result option \<Rightarrow> 't rpc_call \<Rightarrow> bool" where
  "result_explained decode slot (CallDone (Inr t)) = (\<exists>v. slot = Some (Inr v) \<and> decode v = Inr t)"
| "result_explained decode slot (CallDone (Inl (RpcServer e))) = (slot = Some (Inl (RpcServer e)))"
| "result_explained decode slot _ = True"

definition answers_inv ::
  "(json_value \<Rightarrow> string + 't) \<Rightarrow> 't rpc_call list \<Rightarrow> rpc_result option list \<Rightarrow> jsonrpc_message list \<Rightarrow> bool" where
  "answers_inv decode calls slots received \<longleftrightarrow>
     (\<forall>i < length calls. slot_explained received i (slots ! i) \<and> result_explained decode (slots ! i) (calls ! i))"

definition sent_ids :: "jsonrpc_message list \<Rightarrow> request_id list" where
  "sent_ids ms = concat (map (\<lambda>m. case m of JsonRequest r \<Rightarrow> [jr_id r] | _ \<Rightarrow> []) ms)"

fun call_unsent :: "'t rpc_call \<Rightarrow> bool" where
  "call_unsent (CallBegun _) = True"
| "call_unsent (CallRegistered _) = True"
| "call_unsent _ = False"

definition sent_inv :: "'t rpc_call list \<Rightarrow> jsonrpc_message list \<Rightarrow> bool" where
  "sent_inv calls sent \<longleftrightarrow>
     distinct (sent_ids sent)
     \<and> (\<forall>rid \<in> set (sent_ids sent). \<exists>i < length calls. rid = call_id i \<and> \<not> call_unsent (calls ! i))
     \<and> (\<forall>i < length calls. \<forall>rid. calls ! i = CallSent rid \<longrightarrow> rid \<in> set (sent_ids sent))"

definition reader_inv :: "reader_phase \<Rightarrow> rpc_client \<Rightarrow> bool" where
  "reader_inv ph rc \<longleftrightarrow>
     ((\<exists>r. ph = ReaderClosed r \<or> ph = ReaderDrained r) \<or> ph = ReaderEnded \<longrightarrow> rc_closed rc)
     \<and> ((\<exists>r. ph = ReaderDrained r) \<or> ph = ReaderEnded \<longrightarrow> rc_pending rc = [])
     \<and> (if ph = ReaderEnded then \<exists>ns r. rc_events rc = map RpcNotification ns @ [RpcDisconnected r]
        else \<exists>ns. rc_events rc = map RpcNotification ns)"

definition rpc_inv :: "(json_value \<Rightarrow> string + 't) \<Rightarrow> 't rpc_system \<Rightarrow> bool" where
  "rpc_inv decode s \<longleftrightarrow>
     table_inv (rs_calls s) (rc_slots (rs_client s)) (rc_pending (rs_client s))
     \<and> hm_wf (rc_pending (rs_client s))
     \<and> rc_next_request_id (rs_client s) = int (length (rs_calls s)) + 1
     \<and> answers_inv decode (rs_calls s) (rc_slots (rs_client s)) (rs_received s)
     \<and> sent_inv (rs_calls s) (rc_sent (rs_client s))
     \<and> reader_inv (rs_reader s) (rs_client s)"

lemma slot_explained_mono: "slot_explained ms i v \<Longrightarrow> slot_explained (ms @ ms') i v"
  by (cases "(ms, i, v)" rule: slot_explained.cases) auto

lemma answers_inv_update:
  assumes "answers_inv decode calls slots received" and "i < length calls"
    and "result_explained decode (slots ! i) c"
  shows "answers_inv decode (calls[i := c]) slots received"
  using assms unfolding answers_inv_def by (auto simp: nth_list_update)

lemma answers_inv_slot:
  assumes "answers_inv decode calls slots received" and "call_waits (calls ! i)"
    and "slot_explained received' i v" and "set received \<subseteq> set received'" and "i < length slots"
  shows "answers_inv decode calls (slots[i := v]) received'"
proof -
  have mono: "slot_explained received' j x" if "slot_explained received j x" for j x
    using that assms(4) by (cases "(received, j, x)" rule: slot_explained.cases) auto
  have waits: "result_explained decode x (calls ! i)" for x using assms(2) by (cases "calls ! i") auto
  show ?thesis using assms mono waits unfolding answers_inv_def by (auto simp: nth_list_update)
qed

lemma answers_inv_received:
  "answers_inv decode calls slots received \<Longrightarrow> answers_inv decode calls slots (received @ ms)"
  unfolding answers_inv_def by (auto intro: slot_explained_mono)

lemma answers_inv_drain:
  assumes "answers_inv decode calls slots received" and "table_inv calls slots pend" and "hm_wf pend"
  shows "answers_inv decode calls (fold (\<lambda>(_, slot) ss. ss[slot := Some (Inl RpcClosed)]) pend slots) received"
proof -
  have waits: "call_waits (calls ! i)" if "i \<in> snd ` set pend" for i
    using that hm_get_in_set [OF assms(3)] table_invD(4) [OF assms(2)] by force
  have res: "result_explained decode x c" if "call_waits c" for x c using that by (cases c) auto
  show ?thesis
    using assms(1) table_invD(1) [OF assms(2)] nth_drain_slots [of _ slots "Some (Inl RpcClosed)" pend] waits res
    unfolding answers_inv_def by (auto simp: image_iff)
qed

lemma sent_ids_simps [simp]:
  "sent_ids (ms @ [JsonRequest r]) = sent_ids ms @ [jr_id r]"
  "sent_ids (ms @ [JsonNotification n]) = sent_ids ms"
  by (simp_all add: sent_ids_def)

lemma sent_inv_update:
  assumes "sent_inv calls sent" and "call_unsent c \<Longrightarrow> call_unsent (calls ! i)" and "\<And>rid. c \<noteq> CallSent rid"
  shows "sent_inv (calls[i := c]) sent"
proof -
  have "\<not> call_unsent (calls[i := c] ! j)" if "j < length calls" "\<not> call_unsent (calls ! j)" for j
    using that assms(2) by (cases "i = j") auto
  moreover have "calls ! j = CallSent rid" if "calls[i := c] ! j = CallSent rid" "j < length calls" for j rid
    using that assms(3) by (cases "i = j") auto
  ultimately show ?thesis using assms(1) unfolding sent_inv_def by fastforce
qed

lemma sent_inv_append: "sent_inv calls sent \<Longrightarrow> sent_inv (calls @ [CallBegun rid]) sent"
  unfolding sent_inv_def by (fastforce simp: nth_append less_Suc_eq)

lemma sent_inv_request:
  assumes "sent_inv calls sent" and "i < length calls" and "call_unsent (calls ! i)" and "jr_id r = call_id i"
  shows "sent_inv (calls[i := CallSent (call_id i)]) (sent @ [JsonRequest r])"
proof -
  let ?calls = "calls[i := CallSent (call_id i)]"
  have new: "call_id i \<notin> set (sent_ids sent)" using assms(1,3) unfolding sent_inv_def by auto
  have "\<exists>j < length calls. rid = call_id j \<and> \<not> call_unsent (?calls ! j)" if "rid \<in> set (sent_ids sent)" for rid
    using that assms(1,2) unfolding sent_inv_def by (metis call_unsent.simps(3) nth_list_update)
  moreover have "rid \<in> insert (call_id i) (set (sent_ids sent))" if "?calls ! j = CallSent rid" "j < length calls" for j rid
    using that assms(1,2) unfolding sent_inv_def by (cases "i = j") auto
  ultimately show ?thesis using assms new unfolding sent_inv_def by (auto intro: exI [of _ i])
qed

lemma reader_inv_frame:
  "reader_inv ph rc \<Longrightarrow> rc_closed rc \<longrightarrow> rc_closed rc' \<Longrightarrow> (rc_pending rc = [] \<and> rc_closed rc \<longrightarrow> rc_pending rc' = []) \<Longrightarrow>
     rc_events rc' = rc_events rc \<Longrightarrow> reader_inv ph rc'"
  unfolding reader_inv_def by auto

lemma hm_remove_Nil [simp]: "hm_remove k [] = []"
  by (simp add: hm_remove_def)

lemma rpc_inv_begin:
  assumes "rpc_inv decode s" and "call_begin (rs_client s) = (rid, slot, rc)" and "int (length (rs_calls s)) + 1 < 2 ^ 63 - 1"
  shows "rpc_inv decode (s\<lparr>rs_client := rc, rs_calls := rs_calls s @ [CallBegun rid]\<rparr>)"
proof -
  have rc: "rid = call_id (length (rs_calls s))" "rc = (rs_client s)\<lparr>rc_next_request_id := int (length (rs_calls s)) + 2,
      rc_slots := rc_slots (rs_client s) @ [None]\<rparr>"
    using assms by (auto simp: call_begin_def rpc_inv_def call_id_def i64_succ_def)
  have len: "length (rc_slots (rs_client s)) = length (rs_calls s)"
    using assms(1) by (auto simp: rpc_inv_def table_inv_def)
  have "answers_inv decode (rs_calls s @ [CallBegun rid]) (rc_slots rc) (rs_received s)"
    using assms(1) len rc(2) unfolding rpc_inv_def answers_inv_def by (auto simp: nth_append less_Suc_eq)
  moreover have "reader_inv (rs_reader s) rc"
    by (rule reader_inv_frame [of _ "rs_client s"]) (use assms(1) rc(2) in \<open>auto simp: rpc_inv_def\<close>)
  ultimately show ?thesis
    using assms(1) table_inv_begin sent_inv_append unfolding rpc_inv_def rc by (auto simp: rc(2))
qed

lemma rpc_inv_register:
  assumes "rpc_inv decode s" and "i < length (rs_calls s)" and "rs_calls s ! i = CallBegun rid"
    and "call_register rid i (rs_client s) = (r, rc)"
  shows "rpc_inv decode (set_call i (after r (CallRegistered rid)) (s\<lparr>rs_client := rc\<rparr>))"
proof (cases "is_disconnected (rs_client s)")
  case True
  then have r: "r = Inl RpcClosed" "rc = rs_client s" using assms(4) by (auto simp: call_register_def)
  have "table_inv ((rs_calls s)[i := CallDone (Inl RpcClosed)]) (rc_slots (rs_client s)) (rc_pending (rs_client s))"
    using assms(1-3) unfolding rpc_inv_def by (intro table_inv_done table_inv_not_pending) auto
  then show ?thesis
    using assms(1-3) answers_inv_update [of decode "rs_calls s"] sent_inv_update [of "rs_calls s"] unfolding r
    by (auto simp: rpc_inv_def set_call_def after_def)
next
  case False
  then have r: "r = Inr ()" "rc = (rs_client s)\<lparr>rc_pending := hm_insert rid i (rc_pending (rs_client s))\<rparr>"
    "\<not> rc_closed (rs_client s)"
    using assms(4) by (auto simp: call_register_def is_disconnected_def)
  have "reader_inv (rs_reader s) rc"
    by (rule reader_inv_frame [of _ "rs_client s"]) (use assms(1) r in \<open>auto simp: rpc_inv_def\<close>)
  then show ?thesis
    using assms(1-3) table_inv_register [of "rs_calls s"] answers_inv_update [of decode "rs_calls s"]
      sent_inv_update [of "rs_calls s"] r
    by (auto simp: rpc_inv_def set_call_def after_def)
qed

lemma rpc_inv_send:
  assumes "rpc_inv decode s" and "i < length (rs_calls s)" and "rs_calls s ! i = CallRegistered rid"
    and "call_send meth params rid (rs_client s) = (r, rc)"
  shows "rpc_inv decode (set_call i (after r (CallSent rid)) (s\<lparr>rs_client := rc\<rparr>))"
proof (cases r)
  case (Inl e)
  then have rc: "rc = (rs_client s)\<lparr>rc_pending := hm_remove rid (rc_pending (rs_client s))\<rparr>"
    and e: "result_explained decode (rc_slots (rs_client s) ! i) (CallDone (Inl e))"
    using assms(4) by (auto simp: call_send_def Let_def split: sum.splits if_splits)
  have "reader_inv (rs_reader s) rc"
    by (rule reader_inv_frame [of _ "rs_client s"]) (use assms(1) rc in \<open>auto simp: rpc_inv_def\<close>)
  then show ?thesis
    using assms(1-3) table_inv_forget [of "rs_calls s"] answers_inv_update [of decode "rs_calls s"]
      sent_inv_update [of "rs_calls s"] rc e Inl
    by (auto simp: rpc_inv_def set_call_def after_def)
next
  case (Inr u)
  then obtain p where rc: "rc = (rs_client s)\<lparr>rc_sent := rc_sent (rs_client s) @
      [JsonRequest \<lparr>jr_id = rid, jr_method = meth, jr_params = Some p\<rparr>]\<rparr>"
    using assms(4) by (auto simp: call_send_def Let_def split: sum.splits if_splits)
  have rid: "rid = call_id i" using assms(1-3) table_invD(2) [of "rs_calls s"] by (fastforce simp: rpc_inv_def)
  have "reader_inv (rs_reader s) rc"
    by (rule reader_inv_frame [of _ "rs_client s"]) (use assms(1) rc in \<open>auto simp: rpc_inv_def\<close>)
  moreover have "sent_inv ((rs_calls s)[i := CallSent rid]) (rc_sent rc)"
    unfolding rid using assms(1-3) rid by (auto simp: rpc_inv_def rc intro!: sent_inv_request)
  ultimately show ?thesis
    using assms(1-3) table_inv_sent [of "rs_calls s"] answers_inv_update [of decode "rs_calls s"] rc Inr
    by (auto simp: rpc_inv_def set_call_def after_def)
qed

lemma rpc_inv_receive:
  assumes "rpc_inv decode s" and "i < length (rs_calls s)" and "rs_calls s ! i = CallSent rid"
    and "rc_slots (rs_client s) ! i = Some v"
  shows "rpc_inv decode (set_call i (CallDone (call_receive decode v)) s)"
proof -
  have t: "table_inv ((rs_calls s)[i := CallDone (call_receive decode v)]) (rc_slots (rs_client s)) (rc_pending (rs_client s))"
    using assms(1,2,4) unfolding rpc_inv_def by (intro table_inv_done table_inv_not_pending) auto
  have "slot_explained (rs_received s) i (Some v)"
    using assms(1,2,4) unfolding rpc_inv_def answers_inv_def by metis
  then have "result_explained decode (Some v) (CallDone (call_receive decode v))"
    by (cases "(rs_received s, i, Some v)" rule: slot_explained.cases) (auto simp: call_receive_def split: sum.split)
  then show ?thesis
    using assms t answers_inv_update [of decode "rs_calls s" _ _ i]
      sent_inv_update [of "rs_calls s" _ "CallDone (call_receive decode v)" i]
    by (auto simp: rpc_inv_def set_call_def)
qed

lemma rpc_inv_drain:
  assumes "rpc_inv decode s"
  shows "rpc_inv decode (s\<lparr>rs_client := drain_pending (rs_client s)\<rparr>)"
  using assms table_inv_drain [of "rs_calls s"] answers_inv_drain [of decode "rs_calls s"]
    reader_inv_frame [of _ "rs_client s" "drain_pending (rs_client s)"]
  by (simp add: rpc_inv_def drain_pending_def)

lemma rpc_inv_answer:
  assumes "rpc_inv decode s" and "slot_explained (rs_received s @ ms) i (Some v)" and "hm_get (rc_pending (rs_client s)) (call_id i) = Some i"
  shows "rpc_inv decode (s\<lparr>rs_client := answer_pending (call_id i) v (rs_client s), rs_received := rs_received s @ ms\<rparr>)"
proof -
  let ?rc = "rs_client s"
  have t: "table_inv (rs_calls s) (rc_slots ?rc) (rc_pending ?rc)" using assms(1) by (simp add: rpc_inv_def)
  have i: "i < length (rc_slots ?rc)" "call_waits (rs_calls s ! i)" using assms(3) table_invD [OF t] by auto
  have "reader_inv (rs_reader s) (answer_pending (call_id i) v ?rc)"
    by (rule reader_inv_frame [of _ ?rc]) (use assms(1,3) in \<open>auto simp: rpc_inv_def answer_pending_def\<close>)
  moreover have "answers_inv decode (rs_calls s) ((rc_slots ?rc)[i := Some v]) (rs_received s @ ms)"
    by (rule answers_inv_slot [OF _ i(2) assms(2) _ i(1)]) (use assms(1) in \<open>auto simp: rpc_inv_def\<close>)
  ultimately show ?thesis
    using assms(1,3) table_inv_answer [OF t assms(3)] by (auto simp: rpc_inv_def answer_pending_def)
qed

lemma rpc_inv_received:
  "rpc_inv decode s \<Longrightarrow> rpc_inv decode (s\<lparr>rs_received := rs_received s @ ms\<rparr>)"
  by (auto simp: rpc_inv_def intro: answers_inv_received)

lemma rpc_inv_answer_pending:
  assumes "rpc_inv decode s" and "\<And>i. rid = call_id i \<Longrightarrow> slot_explained (rs_received s @ ms) i (Some v)"
  shows "rpc_inv decode (s\<lparr>rs_client := answer_pending rid v (rs_client s), rs_received := rs_received s @ ms\<rparr>)"
proof (cases "hm_get (rc_pending (rs_client s)) rid")
  case None
  then show ?thesis using rpc_inv_received [OF assms(1), of ms] by (simp add: answer_pending_def)
next
  case (Some i)
  then have "rid = call_id i" using assms(1) table_invD(4) unfolding rpc_inv_def by blast
  then show ?thesis using rpc_inv_answer [OF assms(1)] assms(2) Some by blast
qed

lemma rpc_inv_message:
  assumes "rpc_inv decode s" and "rs_reader s = ReaderLoop" and "handle_server_message m (rs_client s) = (r, rc)"
  shows "rpc_inv decode (s\<lparr>rs_client := rc, rs_received := rs_received s @ [m]\<rparr>)"
proof (cases m)
  case (JsonNotification n)
  obtain ns where ns: "rc_events (rs_client s) = map RpcNotification ns"
    using assms(1,2) by (auto simp: rpc_inv_def reader_inv_def)
  have rc: "rc = (rs_client s)\<lparr>rc_events := map RpcNotification (ns @ [n])\<rparr>"
    using assms(3) JsonNotification ns by simp
  have "reader_inv (rs_reader s) rc" using assms(2) by (auto simp: reader_inv_def rc simp del: map_append)
  then show ?thesis
    using assms(1) answers_inv_received [of decode "rs_calls s"] by (auto simp: rpc_inv_def rc)
next
  case (JsonResponse rid v)
  then show ?thesis using rpc_inv_answer_pending [OF assms(1), of rid "[m]" "Inr v"] assms(3) by auto
next
  case (JsonError rid e)
  then show ?thesis using rpc_inv_answer_pending [OF assms(1), of rid "[m]" "Inl (RpcServer e)"] assms(3) by auto
next
  case (JsonRequest q)
  then show ?thesis using rpc_inv_received [OF assms(1), of "[m]"] assms(3) by auto
qed

lemma reader_inv_left: "reader_inv ReaderLoop rc \<longleftrightarrow> reader_inv (ReaderLeft r) rc"
  by (simp add: reader_inv_def)

lemma rpc_inv_take:
  assumes "rpc_inv decode s" and "rs_reader s = ReaderLoop"
  shows "rpc_inv decode (reader_take ev s)"
proof -
  obtain leave rc where ev: "reader_event ev (rs_client s) = (leave, rc)" by force
  have inv: "rpc_inv decode (s\<lparr>rs_client := rc, rs_received := rs_received s @ received_messages ev\<rparr>)"
  proof (cases "\<exists>m. ev = Some (ConnMessage m)")
    case True
    then obtain m r where "ev = Some (ConnMessage m)" "handle_server_message m (rs_client s) = (r, rc)"
      using ev by (auto simp: reader_event_def split: prod.splits sum.splits)
    then show ?thesis using rpc_inv_message [OF assms] by (simp add: received_messages_def)
  next
    case False
    then have "rc = rs_client s" "received_messages ev = []"
      using ev by (auto simp: reader_event_def received_messages_def split: option.splits connection_event.splits)
    then show ?thesis using assms(1) by simp
  qed
  have "reader_inv ReaderLoop rc" using inv assms(2) by (simp add: rpc_inv_def)
  then have "reader_inv (case leave of None \<Rightarrow> ReaderLoop | Some reason \<Rightarrow> ReaderLeft reason) rc"
    using reader_inv_left by (auto split: option.split)
  then show ?thesis using inv ev by (simp add: reader_take_def rpc_inv_def)
qed

lemma rpc_inv_reader:
  assumes "rpc_inv decode s" and "reader_step s = Some t"
  shows "rpc_inv decode t"
proof (cases "rs_reader s")
  case ReaderLoop
  then show ?thesis
    using assms(2) rpc_inv_take [OF assms(1) ReaderLoop] by (auto simp: reader_step_def split: list.splits if_splits)
next
  case (ReaderClosed reason)
  then have closed: "rc_closed (rs_client s)" using assms(1) by (simp add: rpc_inv_def reader_inv_def)
  have t: "t = (s\<lparr>rs_client := drain_pending (rs_client s)\<rparr>)\<lparr>rs_reader := ReaderDrained reason\<rparr>"
    using assms(2) ReaderClosed by (simp add: reader_step_def)
  show ?thesis
    using rpc_inv_drain [OF assms(1)] ReaderClosed closed
    by (simp add: t rpc_inv_def reader_inv_def) (simp add: drain_pending_def)
next
  case (ReaderLeft reason)
  then show ?thesis using assms by (auto simp: reader_step_def rpc_inv_def reader_inv_def mark_closed_def)
next
  case (ReaderDrained reason)
  then show ?thesis using assms by (auto simp: reader_step_def rpc_inv_def reader_inv_def send_disconnected_event_def)
next
  case ReaderEnded
  then show ?thesis using assms(2) by (simp add: reader_step_def)
qed

lemma rpc_inv_other_fields:
  "rpc_inv decode s \<Longrightarrow> rpc_inv decode (s\<lparr>rs_incoming := es\<rparr>)"
  "rpc_inv decode s \<Longrightarrow> rpc_inv decode (s\<lparr>rs_incoming_closed := b\<rparr>)"
  "rpc_inv decode s \<Longrightarrow> rpc_inv decode (s\<lparr>rs_closing := n\<rparr>)"
  by (simp_all add: rpc_inv_def)

lemma rpc_inv_client_frame:
  assumes "rpc_inv decode s" and "rc_slots rc = rc_slots (rs_client s)" and "rc_pending rc = rc_pending (rs_client s)"
    and "rc_next_request_id rc = rc_next_request_id (rs_client s)" and "sent_ids (rc_sent rc) = sent_ids (rc_sent (rs_client s))"
    and "rc_events rc = rc_events (rs_client s)" and "rc_closed (rs_client s) \<Longrightarrow> rc_closed rc"
  shows "rpc_inv decode (s\<lparr>rs_client := rc\<rparr>)"
proof -
  have "reader_inv (rs_reader s) rc"
    by (rule reader_inv_frame [of _ "rs_client s"]) (use assms in \<open>auto simp: rpc_inv_def\<close>)
  then show ?thesis using assms by (simp add: rpc_inv_def sent_inv_def)
qed

lemma rpc_inv_notify:
  assumes "rpc_inv decode s" and "rpc_notify meth params (rs_client s) = (r, rc)"
  shows "rpc_inv decode (s\<lparr>rs_client := rc\<rparr>)"
proof (rule rpc_inv_client_frame [OF assms(1)])
  show "sent_ids (rc_sent rc) = sent_ids (rc_sent (rs_client s))"
    using assms(2) by (auto simp: rpc_notify_def split: sum.splits if_splits)
qed (use assms(2) in \<open>auto simp: rpc_notify_def split: sum.splits if_splits\<close>)

lemma rpc_step_calls: "rpc_step decode s t \<Longrightarrow> length (rs_calls s) \<le> length (rs_calls t)"
  by (induction rule: rpc_step.induct)
    (auto simp: set_call_def reader_step_def reader_take_def split: reader_phase.splits list.splits if_splits prod.splits)

definition rpc_bounded_inv :: "(json_value \<Rightarrow> string + 't) \<Rightarrow> 't rpc_system \<Rightarrow> bool" where
  "rpc_bounded_inv decode s \<longleftrightarrow> (int (length (rs_calls s)) < 2 ^ 63 - 1 \<longrightarrow> rpc_inv decode s)"

lemma rpc_inv_step:
  assumes "rpc_step decode s t" and "rpc_inv decode s" and "int (length (rs_calls t)) < 2 ^ 63 - 1"
  shows "rpc_inv decode t"
  using assms
proof cases
  case (begin_call rid slot rc)
  then show ?thesis using rpc_inv_begin [OF assms(2)] assms(3) by simp
next
  case (register i rid r rc)
  then show ?thesis using rpc_inv_register [OF assms(2)] by simp
next
  case (send i rid meth params r rc)
  then show ?thesis using rpc_inv_send [OF assms(2)] by blast
next
  case (receive i rid v)
  then show ?thesis using rpc_inv_receive [OF assms(2)] by blast
next
  case (notify meth params r rc)
  then show ?thesis using rpc_inv_notify [OF assms(2)] by blast
next
  case reader
  then show ?thesis using rpc_inv_reader [OF assms(2)] by blast
next
  case (close_begin)
  have "rpc_inv decode (s\<lparr>rs_client := close_transport_begin (rs_client s)\<rparr>)"
    by (rule rpc_inv_client_frame [OF assms(2)]) (simp_all add: close_transport_begin_def)
  then show ?thesis using close_begin by (simp add: rpc_inv_def)
next
  case close_drain
  then show ?thesis using rpc_inv_drain [OF assms(2)] by (simp add: rpc_inv_def)
qed (use rpc_inv_client_frame [OF assms(2)] rpc_inv_other_fields [OF assms(2)] in simp_all)

lemma rpc_start_inv: "rpc_start s \<Longrightarrow> rpc_inv decode s"
  by (simp add: rpc_start_def rpc_inv_def rpc_client_new_def table_inv_def answers_inv_def sent_inv_def sent_ids_def
      reader_inv_def)

lemma rpc_bounded_step:
  assumes "rpc_step decode s t" and "rpc_bounded_inv decode s"
  shows "rpc_bounded_inv decode t"
  unfolding rpc_bounded_inv_def
proof
  assume bound: "int (length (rs_calls t)) < 2 ^ 63 - 1"
  have "int (length (rs_calls s)) \<le> int (length (rs_calls t))" using rpc_step_calls [OF assms(1)] by (rule of_nat_mono)
  then have "int (length (rs_calls s)) < 2 ^ 63 - 1" using bound by (rule le_less_trans)
  then show "rpc_inv decode t" using rpc_inv_step [OF assms(1) _ bound] assms(2) unfolding rpc_bounded_inv_def by blast
qed

interpretation rpc_run: transition_invariant rpc_start "rpc_step decode" "rpc_bounded_inv decode" for decode
proof unfold_locales
  show "rpc_start s \<Longrightarrow> rpc_bounded_inv decode s" for s :: "'a rpc_system"
    using rpc_start_inv unfolding rpc_bounded_inv_def by blast
qed (rule rpc_bounded_step)

lemma rpc_reachable_inv:
  "reachable_from rpc_start (rpc_step decode) s \<Longrightarrow> int (length (rs_calls s)) < 2 ^ 63 - 1 \<Longrightarrow> rpc_inv decode s"
  using rpc_run.inv_reachable by (auto simp: rpc_bounded_inv_def)

text \<open>
  C7. Concurrent calls do not mix up their answers: in every interleaving, each request goes out at most
  once and under an id of its own, and a call that returns a result or a server error returns what came in
  a response, or an error response, with the id of that call's request.
\<close>

theorem rpc_response_reaches_its_call:
  assumes "reachable_from rpc_start (rpc_step decode) s" and "int (length (rs_calls s)) < 2 ^ 63 - 1"
  shows "distinct (sent_ids (rc_sent (rs_client s)))
    \<and> (\<forall>i < length (rs_calls s).
         (\<forall>rid. rs_calls s ! i = CallSent rid \<longrightarrow> rid = call_id i)
         \<and> (\<forall>t. rs_calls s ! i = CallDone (Inr t) \<longrightarrow>
              (\<exists>v. JsonResponse (call_id i) v \<in> set (rs_received s) \<and> decode v = Inr t))
         \<and> (\<forall>e. rs_calls s ! i = CallDone (Inl (RpcServer e)) \<longrightarrow> JsonError (call_id i) e \<in> set (rs_received s)))"
proof -
  note inv = rpc_reachable_inv [OF assms]
  have "rid = call_id i" if "i < length (rs_calls s)" "rs_calls s ! i = CallSent rid" for i rid
    using inv table_invD(2) [of "rs_calls s"] that unfolding rpc_inv_def by fastforce
  moreover have "slot_explained (rs_received s) i (rc_slots (rs_client s) ! i)
      \<and> result_explained decode (rc_slots (rs_client s) ! i) (rs_calls s ! i)" if "i < length (rs_calls s)" for i
    using inv that unfolding rpc_inv_def answers_inv_def by blast
  ultimately show ?thesis using inv unfolding rpc_inv_def sent_inv_def by fastforce
qed

text \<open>Letting the reader run, until it has to wait for the transport.\<close>

fun reader_iter :: "nat \<Rightarrow> 't rpc_system \<Rightarrow> 't rpc_system option" where
  "reader_iter 0 s = Some s"
| "reader_iter (Suc n) s = (case reader_step s of None \<Rightarrow> None | Some t \<Rightarrow> reader_iter n t)"

lemma reader_iter_reachable:
  "reader_iter n s = Some t \<Longrightarrow> reachable_from rpc_start (rpc_step decode) s \<Longrightarrow> reachable_from rpc_start (rpc_step decode) t"
proof (induction n arbitrary: s)
  case (Suc n)
  then obtain u where u: "reader_step s = Some u" "reader_iter n u = Some t" by (auto split: option.splits)
  have "reachable_from rpc_start (rpc_step decode) u"
    using Suc(3) rpc_step.reader [OF u(1), of decode] unfolding reachable_from_def by (meson rtranclp.rtrancl_into_rtrancl)
  then show ?case using Suc(1) [OF u(2)] by blast
qed simp

lemma reader_iter_calls: "reader_iter n s = Some t \<Longrightarrow> rs_calls t = rs_calls s"
proof (induction n arbitrary: s)
  case (Suc n)
  then obtain u where u: "reader_step s = Some u" "reader_iter n u = Some t" by (auto split: option.splits)
  have "rs_calls u = rs_calls s"
    using u(1) by (auto simp: reader_step_def reader_take_def split: reader_phase.splits list.splits if_splits prod.splits)
  then show ?case using Suc(1) [OF u(2)] by simp
qed simp

lemma reader_iter_Suc: "reader_step s = Some t \<Longrightarrow> reader_iter n t = Some u \<Longrightarrow> reader_iter (Suc n) s = Some u"
  by simp

lemma reader_ends_after_leaving:
  assumes "rs_reader s \<noteq> ReaderLoop"
  shows "\<exists>n \<le> 3. \<exists>t. reader_iter n s = Some t \<and> rs_reader t = ReaderEnded"
proof -
  have drained: "\<exists>t. reader_iter 1 u = Some t \<and> rs_reader t = ReaderEnded" if "rs_reader u = ReaderDrained r" for r and u :: "'a rpc_system"
    using that by (simp add: reader_step_def)
  have closed: "\<exists>t. reader_iter 2 u = Some t \<and> rs_reader t = ReaderEnded" if "rs_reader u = ReaderClosed r" for r and u :: "'a rpc_system"
    using that by (simp add: reader_step_def numeral_2_eq_2)
  have left: "\<exists>t. reader_iter 3 u = Some t \<and> rs_reader t = ReaderEnded" if "rs_reader u = ReaderLeft r" for r and u :: "'a rpc_system"
    using that by (simp add: reader_step_def numeral_3_eq_3)
  show ?thesis
  proof (cases "rs_reader s")
    case ReaderEnded
    then show ?thesis by (intro exI [of _ 0]) simp
  next
    case (ReaderClosed r)
    then show ?thesis using closed [of s] by (intro exI [of _ 2]) simp
  next
    case (ReaderDrained r)
    then show ?thesis using drained [of s] by (intro exI [of _ 1]) simp
  next
    case (ReaderLeft r)
    then show ?thesis using left [of s] by (intro exI [of _ 3]) simp
  qed (use assms in simp)
qed

lemma reader_take_fields:
  "rs_incoming (reader_take ev s) = tl (rs_incoming s)"
  "rs_incoming_closed (reader_take ev s) = rs_incoming_closed s"
  "ev = None \<or> ev = Some (ConnDisconnected r) \<Longrightarrow> rs_reader (reader_take ev s) \<noteq> ReaderLoop"
  by (auto simp: reader_take_def reader_event_def split: prod.split)

lemma reader_ends:
  assumes "rs_incoming_closed s \<or> (\<exists>r. ConnDisconnected r \<in> set (rs_incoming s)) \<or> rs_reader s \<noteq> ReaderLoop"
  shows "\<exists>n \<le> length (rs_incoming s) + 4. \<exists>t. reader_iter n s = Some t \<and> rs_reader t = ReaderEnded"
  using assms
proof (induction "length (rs_incoming s)" arbitrary: s rule: less_induct)
  case less
  show ?case
  proof (cases "rs_reader s = ReaderLoop")
    case False
    then obtain n t where "n \<le> 3" "reader_iter n s = Some t" "rs_reader t = ReaderEnded"
      using reader_ends_after_leaving by blast
    then show ?thesis by (intro exI [of _ n]) auto
  next
    case loop: True
    obtain u where u: "reader_step s = Some u" "rs_incoming u = tl (rs_incoming s)"
      "rs_incoming_closed u = rs_incoming_closed s"
      "rs_incoming s = [] \<or> (\<exists>r. hd (rs_incoming s) = ConnDisconnected r) \<Longrightarrow> rs_reader u \<noteq> ReaderLoop"
    proof (cases "rs_incoming s")
      case Nil
      then show ?thesis
        using less(2) loop reader_take_fields [where ev = None and s = s] that [of "reader_take None s"] by (simp add: reader_step_def)
    next
      case (Cons ev es)
      then show ?thesis
        using loop reader_take_fields [where ev = "Some ev" and s = s] that [of "reader_take (Some ev) s"] by (auto simp: reader_step_def)
    qed
    show ?thesis
    proof (cases "rs_reader u = ReaderLoop")
      case False
      then obtain n t where "n \<le> 3" "reader_iter n u = Some t" "rs_reader t = ReaderEnded"
        using reader_ends_after_leaving by blast
      then show ?thesis using reader_iter_Suc [OF u(1)] by (intro exI [of _ "Suc n"]) auto
    next
      case True
      then obtain ev es where es: "rs_incoming s = ev # es" "\<nexists>r. ev = ConnDisconnected r"
        using u(4) by (cases "rs_incoming s") auto
      then have "rs_incoming_closed u \<or> (\<exists>r. ConnDisconnected r \<in> set (rs_incoming u)) \<or> rs_reader u \<noteq> ReaderLoop"
        using less(2) loop u(2,3) by auto
      then obtain n t where "n \<le> length (rs_incoming u) + 4" "reader_iter n u = Some t" "rs_reader t = ReaderEnded"
        using less(1) [of u] es(1) u(2) by auto
      then show ?thesis using reader_iter_Suc [OF u(1)] es(1) u(2) by (intro exI [of _ "Suc n"]) auto
    qed
  qed
qed


subsection \<open>Examples\<close>

definition example_sent :: "json_value rpc_system" where
  "example_sent =
     \<lparr>rs_client = \<lparr>rc_sent = [JsonRequest \<lparr>jr_id = IntegerId 1, jr_method = ''m'', jr_params = Some JNull\<rparr>],
        rc_write_closed = False, rc_pending = [(IntegerId 1, 0)], rc_slots = [None], rc_disconnected = False,
        rc_closed = False, rc_next_request_id = 2, rc_events = []\<rparr>,
      rs_calls = [CallSent (IntegerId 1)], rs_incoming = [], rs_incoming_closed = False, rs_received = [],
      rs_reader = ReaderLoop, rs_closing = 0\<rparr>"

lemma example_sent_reachable: "reachable_from rpc_start (rpc_step Inr) example_sent"
proof -
  let ?s0 = "\<lparr>rs_client = rpc_client_new, rs_calls = [], rs_incoming = [], rs_incoming_closed = False,
     rs_received = [], rs_reader = ReaderLoop, rs_closing = 0\<rparr> :: json_value rpc_system"
  let ?s1 = "?s0\<lparr>rs_client := rpc_client_new\<lparr>rc_next_request_id := 2, rc_slots := [None]\<rparr>, rs_calls := [CallBegun (IntegerId 1)]\<rparr>"
  let ?s2 = "?s0\<lparr>rs_client := rpc_client_new\<lparr>rc_next_request_id := 2, rc_slots := [None], rc_pending := [(IntegerId 1, 0)]\<rparr>,
     rs_calls := [CallRegistered (IntegerId 1)]\<rparr>"
  have r0: "reachable_from rpc_start (rpc_step Inr) ?s0" by (rule reachable_start) (simp add: rpc_start_def)
  have "rpc_step Inr ?s0 ?s1"
    using rpc_step.begin_call [of ?s0 _ _ _ Inr] by (auto simp: call_begin_def rpc_client_new_def i64_succ_def)
  then have r1: "reachable_from rpc_start (rpc_step Inr) ?s1" by (rule reachable_step [OF r0])
  have "rpc_step Inr ?s1 ?s2"
    using rpc_step.register [of 0 ?s1 "IntegerId 1" "Inr ()" _ Inr]
    by (auto simp: call_register_def is_disconnected_def rpc_client_new_def hm_insert_def set_call_def after_def)
  then have r2: "reachable_from rpc_start (rpc_step Inr) ?s2" by (rule reachable_step [OF r1])
  have "rpc_step Inr ?s2 example_sent"
    using rpc_step.send [of 0 ?s2 "IntegerId 1" "''m''" "Inr JNull" "Inr ()" _ Inr]
    by (auto simp: call_send_def rpc_client_new_def set_call_def after_def example_sent_def)
  then show ?thesis by (rule reachable_step [OF r2])
qed

definition example_done :: "json_value rpc_system" where
  "example_done =
     example_sent\<lparr>rs_client := (rs_client example_sent)\<lparr>rc_pending := [], rc_slots := [Some (Inr (JBool True))]\<rparr>,
       rs_calls := [CallDone (Inr (JBool True))], rs_received := [JsonResponse (IntegerId 1) (JBool True)]\<rparr>"

lemma example_done_reachable: "reachable_from rpc_start (rpc_step Inr) example_done"
proof -
  let ?ev = "ConnMessage (JsonResponse (IntegerId 1) (JBool True))"
  let ?s1 = "example_sent\<lparr>rs_incoming := [?ev]\<rparr>"
  let ?s2 = "example_done\<lparr>rs_calls := [CallSent (IntegerId 1)]\<rparr>"
  have "rpc_step Inr example_sent ?s1"
    using rpc_step.arrive [of example_sent Inr ?ev] by (simp add: example_sent_def)
  then have r1: "reachable_from rpc_start (rpc_step Inr) ?s1" by (rule reachable_step [OF example_sent_reachable])
  have "reader_step ?s1 = Some ?s2"
    by (simp add: reader_step_def reader_take_def reader_event_def answer_pending_def received_messages_def
        example_sent_def example_done_def hm_remove_def)
  then have r2: "reachable_from rpc_start (rpc_step Inr) ?s2" by (rule reachable_step [OF r1 rpc_step.reader])
  have "rpc_step Inr ?s2 example_done"
    using rpc_step.receive [of 0 ?s2 "IntegerId 1" "Inr (JBool True)" Inr]
    by (simp add: example_sent_def example_done_def set_call_def call_receive_def)
  then show ?thesis by (rule reachable_step [OF r2])
qed

theorem rpc_response_reaches_its_call_witness:
  "rs_calls example_done ! 0 = CallDone (Inr (JBool True))
   \<and> JsonResponse (call_id 0) (JBool True) \<in> set (rs_received example_done)"
proof -
  have calls: "rs_calls example_done = [CallDone (Inr (JBool True))]" by (simp add: example_done_def)
  have "int (length (rs_calls example_done)) < 2 ^ 63 - 1" by (simp add: calls)
  from rpc_response_reaches_its_call [OF example_done_reachable this] show ?thesis by (auto simp: calls)
qed


end
