(* ===== verification/Connection_Processor.thy ===== *)
theory Connection_Processor
  imports Request_Handler Rpc_Client
begin

text \<open>
  The executor's end of a JSON-RPC connection: the router of \<^verbatim>\<open>crates/exec-server/src/rpc.rs\<close> and the loop
  \<^verbatim>\<open>run_connection\<close> of \<^verbatim>\<open>server/processor.rs\<close>, which takes the events of a connection one after the other,
  answers the requests and shuts the handler down at the end. Serde's conversions between JSON values and
  the message types are arguments.
\<close>

datatype rpc_outbound =
  OutResponse request_id json_value
| OutError request_id jsonrpc_error_error
| OutNotification jsonrpc_notification

fun encode_server_message :: "rpc_outbound \<Rightarrow> jsonrpc_message" where
  "encode_server_message (OutResponse rid v) = JsonResponse rid v"
| "encode_server_message (OutError rid e) = JsonError rid e"
| "encode_server_message (OutNotification n) = JsonNotification n"

subsection \<open>Routing\<close>

definition decode_params :: "(json_value \<Rightarrow> string + 'p) \<Rightarrow> json_value option \<Rightarrow> string + 'p" where
  "decode_params from_value params =
     (let v = (case params of Some v \<Rightarrow> v | None \<Rightarrow> JNull)
      in case from_value v of
           Inr p \<Rightarrow> Inr p
         | Inl err \<Rightarrow>
             if v = JObject [] then (case from_value JNull of Inr p \<Rightarrow> Inr p | Inl _ \<Rightarrow> Inl err)
             else Inl err)"

definition decode_request_params :: "(json_value \<Rightarrow> string + 'p) \<Rightarrow> json_value option \<Rightarrow> jsonrpc_error_error + 'p" where
  "decode_request_params from_value params =
     (case decode_params from_value params of Inl m \<Rightarrow> Inl (invalid_params m) | Inr p \<Rightarrow> Inr p)"

text \<open>
  \<open>rt_request\<close> is the route of a method, as the deserializer of its parameters, and \<open>rt_to_value\<close> the
  serializer of results.
\<close>

record ('sb, 'fs) router =
  rt_request :: "string \<Rightarrow> (json_value \<Rightarrow> string + ('sb, 'fs) server_request) option"
  rt_to_value :: "server_response \<Rightarrow> string + json_value"

text \<open>
  A request whose handler does not return has no outcome. The handler of an HTTP request queues its
  response itself before it returns.
\<close>

definition request_route ::
  "('sb, 'fs) router \<Rightarrow> (json_value \<Rightarrow> string + ('sb, 'fs) server_request) \<Rightarrow> ('sb, 'fs) request_env
     \<Rightarrow> jsonrpc_request \<Rightarrow> server \<Rightarrow> rpc_outbound option \<times> server" where
  "request_route rt from_value rq req s =
     (case decode_request_params from_value (jr_params req) of
        Inl e \<Rightarrow> (Some (OutError (jr_id req) e), s)
      | Inr r \<Rightarrow>
          (case handle_request rq r s of
             (None, s') \<Rightarrow> (None, s')
           | (Some (Inl e), s') \<Rightarrow> (Some (OutError (jr_id req) e), s')
           | (Some (Inr resp), s') \<Rightarrow>
               (Some (case rt_to_value rt resp of
                        Inr v \<Rightarrow> OutResponse (jr_id req) v
                      | Inl m \<Rightarrow> OutError (jr_id req) (internal_error m)), s')))"

definition initialized_method :: string where
  "initialized_method = ''initialized''"

subsection \<open>The loop\<close>

text \<open>
  One event with what happens around it: the registry as the other connections left it, the
  environment of the request, whether the outgoing channel is gone, and, when the transport disconnects
  while the handler runs, the state its dropped future leaves.
\<close>

record ('sb, 'fs) turn =
  tn_event :: connection_event
  tn_registry :: session_registry
  tn_env :: "('sb, 'fs) request_env"
  tn_outgoing_closed :: bool
  tn_cancelled :: "server option"

definition send_outbound :: "bool \<Rightarrow> rpc_outbound \<Rightarrow> server \<Rightarrow> bool \<times> rpc_outbound list \<times> server" where
  "send_outbound closed out s = (if closed then (False, [], s) else (True, [out], s))"

definition dispatch_request ::
  "('sb, 'fs) router \<Rightarrow> ('sb, 'fs) turn \<Rightarrow> jsonrpc_request \<Rightarrow> server \<Rightarrow> bool \<times> rpc_outbound list \<times> server" where
  "dispatch_request rt t req s =
     (case rt_request rt (jr_method req) of
        None \<Rightarrow>
          send_outbound (tn_outgoing_closed t)
            (OutError (jr_id req)
              (method_not_found (''exec-server stub does not implement `'' @ jr_method req @ ''` yet''))) s
      | Some from_value \<Rightarrow>
          (case tn_cancelled t of
             Some s' \<Rightarrow> (False, [], s')
           | None \<Rightarrow>
               (case request_route rt from_value (tn_env t) req s of
                  (None, s') \<Rightarrow> (False, [], s')
                | (Some out, s') \<Rightarrow> send_outbound (tn_outgoing_closed t) out s')))"

definition dispatch_notification ::
  "('sb, 'fs) turn \<Rightarrow> jsonrpc_notification \<Rightarrow> server \<Rightarrow> bool \<times> rpc_outbound list \<times> server" where
  "dispatch_notification t n s =
     (if jn_method n \<noteq> initialized_method then (False, [], s)
      else case tn_cancelled t of
             Some s' \<Rightarrow> (False, [], s')
           | None \<Rightarrow> (case initialized s of (Inl _, s') \<Rightarrow> (False, [], s') | (Inr _, s') \<Rightarrow> (True, [], s')))"

definition dispatch_event ::
  "('sb, 'fs) router \<Rightarrow> ('sb, 'fs) turn \<Rightarrow> server \<Rightarrow> bool \<times> rpc_outbound list \<times> server" where
  "dispatch_event rt t s0 =
     (let s = (fst s0, tn_registry t)
      in if \<not> is_session_attached s then (False, [], s)
         else case tn_event t of
                ConnMalformed reason \<Rightarrow>
                  send_outbound (tn_outgoing_closed t) (OutError (IntegerId (-1)) (invalid_request reason)) s
              | ConnMessage (JsonRequest req) \<Rightarrow> dispatch_request rt t req s
              | ConnMessage (JsonNotification n) \<Rightarrow> dispatch_notification t n s
              | ConnMessage (JsonResponse _ _) \<Rightarrow> (False, [], s)
              | ConnMessage (JsonError _ _) \<Rightarrow> (False, [], s)
              | ConnDisconnected _ \<Rightarrow> (False, [], s))"

fun connection_loop ::
  "('sb, 'fs) router \<Rightarrow> ('sb, 'fs) turn list \<Rightarrow> server \<Rightarrow> rpc_outbound list \<times> server" where
  "connection_loop rt [] s = ([], s)"
| "connection_loop rt (t # ts) s =
     (case dispatch_event rt t s of
        (False, outs, s') \<Rightarrow> (outs, s')
      | (True, outs, s') \<Rightarrow> (case connection_loop rt ts s' of (more_outs, s'') \<Rightarrow> (outs @ more_outs, s'')))"

definition run_connection ::
  "('sb, 'fs) router \<Rightarrow> conn \<Rightarrow> session_registry \<Rightarrow> ('sb, 'fs) turn list \<Rightarrow> nat
     \<Rightarrow> rpc_outbound list \<times> (string \<times> connection_id) option \<times> server" where
  "run_connection rt c reg turns now =
     (case connection_loop rt turns (exec_server_handler_new c, reg) of
        (outs, s) \<Rightarrow> (outs, handler_shutdown now s))"

subsection \<open>One answer per request, in order\<close>

fun outbound_id :: "rpc_outbound \<Rightarrow> request_id option" where
  "outbound_id (OutResponse rid _) = Some rid"
| "outbound_id (OutError rid _) = Some rid"
| "outbound_id (OutNotification _) = None"

text \<open>The id an event is answered under.\<close>

definition answered_id :: "connection_event \<Rightarrow> request_id list" where
  "answered_id ev =
     (case ev of
        ConnMessage (JsonRequest req) \<Rightarrow> [jr_id req]
      | ConnMalformed _ \<Rightarrow> [IntegerId (-1)]
      | _ \<Rightarrow> [])"

lemma request_route_id: "request_route rt fv rq req s = (Some out, s') \<Longrightarrow> outbound_id out = Some (jr_id req)"
  by (auto simp: request_route_def split: sum.splits prod.splits option.splits)

lemma dispatch_event_outputs:
  assumes "dispatch_event rt t s = (go, outs, s')"
  shows "if go then map outbound_id outs = map Some (answered_id (tn_event t)) else outs = []"
proof (cases "is_session_attached (fst s, tn_registry t)")
  case True
  show ?thesis
  proof (cases "\<exists>req. tn_event t = ConnMessage (JsonRequest req)")
    case req: True
    then obtain req where ev: "tn_event t = ConnMessage (JsonRequest req)" by blast
    have "dispatch_request rt t req (fst s, tn_registry t) = (go, outs, s')"
      using assms True ev by (simp add: dispatch_event_def)
    then show ?thesis
      using ev
      by (auto simp: dispatch_request_def send_outbound_def answered_id_def
          split: option.splits prod.splits if_splits dest: request_route_id)
  next
    case False
    then show ?thesis
      using assms True
      by (auto simp: Let_def dispatch_event_def dispatch_notification_def send_outbound_def answered_id_def
          split: connection_event.splits jsonrpc_message.splits option.splits prod.splits sum.splits if_splits)
  qed
next
  case False
  then show ?thesis using assms by (simp add: dispatch_event_def)
qed

lemma loop_answers:
  assumes "connection_loop rt turns s = (outs, s')"
  shows "\<exists>n \<le> length turns.
    map outbound_id outs = map Some (concat (map (\<lambda>t. answered_id (tn_event t)) (take n turns)))
    \<and> (n < length turns \<longrightarrow> (\<exists>u. dispatch_event rt (turns ! n) u = (False, [], s')))"
  using assms
proof (induction turns arbitrary: s outs)
  case (Cons t ts)
  obtain go o1 s1 where d: "dispatch_event rt t s = (go, o1, s1)" by (metis prod_cases3)
  note out = dispatch_event_outputs [OF d]
  show ?case
  proof (cases go)
    case True
    obtain o2 where o2: "connection_loop rt ts s1 = (o2, s')" "outs = o1 @ o2"
      using Cons(2) d True by (auto split: prod.splits)
    obtain n where n: "n \<le> length ts"
      "map outbound_id o2 = map Some (concat (map (\<lambda>t. answered_id (tn_event t)) (take n ts)))"
      "n < length ts \<longrightarrow> (\<exists>u. dispatch_event rt (ts ! n) u = (False, [], s'))"
      using Cons(1) [OF o2(1)] by blast
    then show ?thesis using out True o2(2) by (intro exI [of _ "Suc n"]) auto
  next
    case False
    then have "outs = []" "s' = s1" "o1 = []" using Cons(2) d out by auto
    then have "dispatch_event rt t s = (False, [], s')" using d False by simp
    then have "\<exists>u. dispatch_event rt ((t # ts) ! 0) u = (False, [], s')" unfolding nth_Cons_0 by blast
    then show ?thesis using \<open>outs = []\<close> by (intro exI [of _ 0]) simp
  qed
qed simp

text \<open>
  C18. A connection answers its requests in the order they came and each exactly once: the answers it
  sends are, id by id, those of a prefix of its events, a malformed message being answered under the id
  \<open>-1\<close>; when the prefix is not all of them, the event after it ended the connection unanswered. However
  the loop ends, the handler is shut down in the state it ended in.
\<close>

theorem requests_answered_in_order:
  assumes "run_connection rt c reg turns now = (outs, timer, s')"
  shows "\<exists>n \<le> length turns. \<exists>s.
    map outbound_id outs = map Some (concat (map (\<lambda>t. answered_id (tn_event t)) (take n turns)))
    \<and> (n < length turns \<longrightarrow> (\<exists>u. dispatch_event rt (turns ! n) u = (False, [], s)))
    \<and> handler_shutdown now s = (timer, s')"
proof -
  obtain s where s: "connection_loop rt turns (exec_server_handler_new c, reg) = (outs, s)" "handler_shutdown now s = (timer, s')"
    using assms by (auto simp: run_connection_def split: prod.splits)
  show ?thesis using loop_answers [OF s(1)] s(2) by blast
qed

subsection \<open>The two ends together\<close>

text \<open>No event ends the connection.\<close>

fun loop_completes :: "('sb, 'fs) router \<Rightarrow> ('sb, 'fs) turn list \<Rightarrow> server \<Rightarrow> bool" where
  "loop_completes rt [] s = True"
| "loop_completes rt (t # ts) s = (case dispatch_event rt t s of (go, _, s') \<Rightarrow> go \<and> loop_completes rt ts s')"

lemma loop_completes_answers:
  "loop_completes rt turns s \<Longrightarrow> connection_loop rt turns s = (outs, s') \<Longrightarrow>
     map outbound_id outs = map Some (concat (map (\<lambda>t. answered_id (tn_event t)) turns))"
proof (induction turns arbitrary: s outs)
  case (Cons t ts)
  obtain o1 s1 where d: "dispatch_event rt t s = (True, o1, s1)" "loop_completes rt ts s1" using Cons(2) by auto
  obtain o2 where o2: "connection_loop rt ts s1 = (o2, s')" "outs = o1 @ o2" using Cons(3) d(1) by (auto split: prod.splits)
  show ?case using Cons(1) [OF d(2) o2(1)] dispatch_event_outputs [OF d(1)] o2(2) by simp
qed simp

text \<open>What the reader of the client makes of the answers.\<close>

definition deliver_answers :: "rpc_outbound list \<Rightarrow> 't rpc_system \<Rightarrow> 't rpc_system" where
  "deliver_answers outs s =
     fold (\<lambda>out s. reader_take (Some (ConnMessage (encode_server_message out))) s) outs s"

lemma deliver_answers_inv:
  assumes "rpc_inv decode s" and "rs_reader s = ReaderLoop"
  shows "rpc_inv decode (deliver_answers outs s) \<and> rs_reader (deliver_answers outs s) = ReaderLoop
    \<and> rs_calls (deliver_answers outs s) = rs_calls s
    \<and> (\<forall>k. hm_get (rc_pending (rs_client (deliver_answers outs s))) k =
           (if Some k \<in> outbound_id ` set outs then None else hm_get (rc_pending (rs_client s)) k))"
  using assms
proof (induction outs arbitrary: s)
  case (Cons out outs)
  let ?m = "encode_server_message out"
  let ?s = "reader_take (Some (ConnMessage ?m)) s"
  have one: "rs_reader ?s = ReaderLoop" "rs_calls ?s = rs_calls s"
    "hm_get (rc_pending (rs_client ?s)) k = (if outbound_id out = Some k then None else hm_get (rc_pending (rs_client s)) k)" for k
    by (cases out; auto simp: reader_take_def reader_event_def answer_pending_def container_simps split: option.split)+
  note ih = Cons(1) [OF rpc_inv_take [OF Cons(2,3)] one(1)]
  have step: "deliver_answers (out # outs) s = deliver_answers outs ?s" by (simp add: deliver_answers_def)
  show ?case unfolding step using ih one(2,3) by (auto simp: image_iff)
qed (simp add: deliver_answers_def)

lemma sent_ids_answered: "concat (map (\<lambda>m. answered_id (ConnMessage m)) ms) = sent_ids ms"
  unfolding sent_ids_def answered_id_def
  by (rule arg_cong [of _ _ concat]) (simp split: jsonrpc_message.split)


subsection \<open>Examples\<close>

definition no_routes :: "(unit, unit) router" where
  "no_routes = \<lparr>rt_request = (\<lambda>_. None), rt_to_value = (\<lambda>_. Inr JNull)\<rparr>"

definition example_turn :: "connection_event \<Rightarrow> (unit, unit) turn" where
  "example_turn ev =
     \<lparr>tn_event = ev, tn_registry = session_registry_new, tn_env = calm_env, tn_outgoing_closed = False,
      tn_cancelled = None\<rparr>"

lemma example_turn_request:
  "dispatch_event no_routes (example_turn (ConnMessage (JsonRequest r))) (exec_server_handler_new 0, reg) =
     (True, [OutError (jr_id r) (method_not_found (''exec-server stub does not implement `'' @ jr_method r @ ''` yet''))],
      (exec_server_handler_new 0, session_registry_new))"
  by (simp add: dispatch_event_def dispatch_request_def send_outbound_def is_session_attached_def example_turn_def
      no_routes_def exec_server_handler_new_def)

lemma example_turn_response:
  "dispatch_event no_routes (example_turn (ConnMessage (JsonResponse rid v))) (exec_server_handler_new 0, reg) =
     (False, [], (exec_server_handler_new 0, session_registry_new))"
  by (simp add: dispatch_event_def is_session_attached_def example_turn_def exec_server_handler_new_def)

theorem requests_answered_in_order_witness:
  "map outbound_id (fst (run_connection no_routes 0 session_registry_new
     [example_turn (ConnMessage (JsonRequest \<lparr>jr_id = IntegerId 7, jr_method = ''x'', jr_params = None\<rparr>)),
      example_turn (ConnMessage (JsonResponse (IntegerId 1) JNull)),
      example_turn (ConnMessage (JsonRequest \<lparr>jr_id = IntegerId 8, jr_method = ''y'', jr_params = None\<rparr>))] 5)) = [Some (IntegerId 7)]"
proof -
  let ?turns = "[example_turn (ConnMessage (JsonRequest \<lparr>jr_id = IntegerId 7, jr_method = ''x'', jr_params = None\<rparr>)),
      example_turn (ConnMessage (JsonResponse (IntegerId 1) JNull)),
      example_turn (ConnMessage (JsonRequest \<lparr>jr_id = IntegerId 8, jr_method = ''y'', jr_params = None\<rparr>))]"
  obtain outs timer s' where run: "run_connection no_routes 0 session_registry_new ?turns 5 = (outs, timer, s')"
    by (metis prod_cases3)
  have one: "length outs = 1"
    using run by (auto simp: run_connection_def example_turn_request example_turn_response)
  have ev: "tn_event (example_turn e) = e" for e by (simp add: example_turn_def)
  obtain n where n: "n \<le> length ?turns"
    "map outbound_id outs = map Some (concat (map (\<lambda>t. answered_id (tn_event t)) (take n ?turns)))"
    using requests_answered_in_order [OF run] by blast
  have "n = 0 \<or> n = 1 \<or> n = 2 \<or> n = 3" using n(1) by auto
  then have "map outbound_id outs = [Some (IntegerId 7)]"
    using n(2) one arg_cong [OF n(2), of length] by (auto simp: ev answered_id_def)
  then show ?thesis using run by simp
qed


end
