(* ===== verification/Http_Body.thy ===== *)
theory Http_Body
  imports Wire
begin

text \<open>
  Streamed HTTP response bodies. The executor's task \<^verbatim>\<open>stream_body\<close> of
  \<^verbatim>\<open>crates/exec-server/src/client/reqwest_http_client.rs\<close> sends a body as numbered deltas; the client
  (\<^verbatim>\<open>client/http_response_body_stream.rs\<close>, \<^verbatim>\<open>client/rpc_http_client.rs\<close>) routes them by request id into bounded
  channels, from which the streams' consumers receive them. Every section under the routing table's write
  lock and every channel operation is one definition, and \<open>http_step\<close> interleaves them.
\<close>

record http_body_delta =
  bd_request_id :: string
  bd_seq :: nat
  bd_delta :: "byte list"
  bd_done :: bool
  bd_error :: "string option"

subsection \<open>The executor's task\<close>

text \<open>The body is the items of its byte stream; \<open>n\<close> is how many sends succeed before the connection is gone.\<close>

fun stream_body :: "string \<Rightarrow> nat \<Rightarrow> (string + byte list) list \<Rightarrow> nat \<Rightarrow> http_body_delta list" where
  "stream_body rid seq items 0 = []"
| "stream_body rid seq [] (Suc n) =
     [\<lparr>bd_request_id = rid, bd_seq = seq, bd_delta = [], bd_done = True, bd_error = None\<rparr>]"
| "stream_body rid seq (Inr bytes # items) (Suc n) =
     \<lparr>bd_request_id = rid, bd_seq = seq, bd_delta = bytes, bd_done = False, bd_error = None\<rparr>
       # stream_body rid (u64_succ seq) items n"
| "stream_body rid seq (Inl e # items) (Suc n) =
     [\<lparr>bd_request_id = rid, bd_seq = seq, bd_delta = [], bd_done = True, bd_error = Some e\<rparr>]"

subsection \<open>The routing table\<close>

text \<open>A sender is the number of its channel.\<close>

record http_routes =
  hr_streams :: "(string, nat) hash_map"
  hr_failures :: "(string, string) hash_map"
  hr_next_id :: nat

definition http_routes_new :: http_routes where
  "http_routes_new = \<lparr>hr_streams = [], hr_failures = [], hr_next_id = 1\<rparr>"

definition next_http_body_stream_request_id :: "http_routes \<Rightarrow> string \<times> http_routes" where
  "next_http_body_stream_request_id r =
     (''http-'' @ show_nat (hr_next_id r), r\<lparr>hr_next_id := u64_succ (hr_next_id r)\<rparr>)"

definition insert_http_body_stream :: "string \<Rightarrow> nat \<Rightarrow> http_routes \<Rightarrow> (exec_server_error + unit) \<times> http_routes" where
  "insert_http_body_stream rid tx r =
     (if hm_contains rid (hr_streams r)
      then (Inl (ProtocolError (''http response stream already registered for request '' @ rid)), r)
      else (Inr (), r\<lparr>hr_streams := hm_insert rid tx (hr_streams r), hr_failures := hm_remove rid (hr_failures r)\<rparr>))"

definition remove_http_body_stream :: "string \<Rightarrow> http_routes \<Rightarrow> http_routes" where
  "remove_http_body_stream rid r = r\<lparr>hr_streams := hm_remove rid (hr_streams r)\<rparr>"

definition record_http_body_stream_failure :: "string \<Rightarrow> string \<Rightarrow> http_routes \<Rightarrow> http_routes" where
  "record_http_body_stream_failure rid message r = r\<lparr>hr_failures := hm_insert rid message (hr_failures r)\<rparr>"

definition take_http_body_stream_failure :: "string \<Rightarrow> http_routes \<Rightarrow> string option \<times> http_routes" where
  "take_http_body_stream_failure rid r =
     (hm_get (hr_failures r) rid, r\<lparr>hr_failures := hm_remove rid (hr_failures r)\<rparr>)"

subsection \<open>Channels\<close>

record http_channel =
  ch_queue :: "http_body_delta list"
  ch_receiver_gone :: bool

datatype try_send_result = SendOk | SendFull | SendClosed

definition http_body_delta_channel_capacity :: nat where
  "http_body_delta_channel_capacity = 256"

definition try_send :: "http_body_delta \<Rightarrow> http_channel \<Rightarrow> try_send_result \<times> http_channel" where
  "try_send d ch =
     (if ch_receiver_gone ch then (SendClosed, ch)
      else if length (ch_queue ch) \<ge> http_body_delta_channel_capacity then (SendFull, ch)
      else (SendOk, ch\<lparr>ch_queue := ch_queue ch @ [d]\<rparr>))"

definition failure_delta :: "string \<Rightarrow> string \<Rightarrow> http_body_delta" where
  "failure_delta rid message =
     \<lparr>bd_request_id = rid, bd_seq = 1, bd_delta = [], bd_done = True, bd_error = Some message\<rparr>"

definition fail_http_body_stream ::
  "string \<Rightarrow> string \<times> nat \<Rightarrow> http_routes \<times> http_channel list \<Rightarrow> http_routes \<times> http_channel list" where
  "fail_http_body_stream message = (\<lambda>(rid, tx) (r, chs).
     (case try_send (failure_delta rid message) (chs ! tx) of
        (SendOk, ch) \<Rightarrow> (r, chs[tx := ch])
      | (_, _) \<Rightarrow> (record_http_body_stream_failure rid message r, chs)))"

definition fail_all_http_body_streams ::
  "string \<Rightarrow> http_routes \<times> http_channel list \<Rightarrow> http_routes \<times> http_channel list" where
  "fail_all_http_body_streams message = (\<lambda>(r, chs).
     fold (fail_http_body_stream message) (hr_streams r) (r\<lparr>hr_streams := []\<rparr>, chs))"

subsection \<open>Handling a delta\<close>

text \<open>
  \<^verbatim>\<open>handle_http_body_delta_notification\<close> keeps its clone of the sender until it returns: \<open>DeltaLoaded\<close> has looked the
  route up, \<open>DeltaRecord\<close> has yet to record that the channel was full, \<open>DeltaRemove\<close> to remove the route.
\<close>

datatype delta_task =
  DeltaLoaded http_body_delta nat
| DeltaRecord string nat
| DeltaRemove string nat
| DeltaDone

definition delta_load :: "http_body_delta \<Rightarrow> http_routes \<Rightarrow> delta_task" where
  "delta_load d r = (case hm_get (hr_streams r) (bd_request_id d) of None \<Rightarrow> DeltaDone | Some tx \<Rightarrow> DeltaLoaded d tx)"

definition terminal_delta :: "http_body_delta \<Rightarrow> bool" where
  "terminal_delta d = (bd_done d \<or> bd_error d \<noteq> None)"

definition delta_send :: "http_body_delta \<Rightarrow> nat \<Rightarrow> http_channel \<Rightarrow> delta_task \<times> http_channel" where
  "delta_send d tx ch =
     (case try_send d ch of
        (SendOk, ch') \<Rightarrow> (if terminal_delta d then DeltaRemove (bd_request_id d) tx else DeltaDone, ch')
      | (SendClosed, ch') \<Rightarrow> (DeltaRemove (bd_request_id d) tx, ch')
      | (SendFull, ch') \<Rightarrow> (DeltaRecord (bd_request_id d) tx, ch'))"

fun task_sender :: "delta_task \<Rightarrow> nat option" where
  "task_sender (DeltaLoaded _ tx) = Some tx"
| "task_sender (DeltaRecord _ tx) = Some tx"
| "task_sender (DeltaRemove _ tx) = Some tx"
| "task_sender DeltaDone = None"

subsection \<open>Receiving\<close>

record remote_body =
  rb_request_id :: string
  rb_next_seq :: nat
  rb_pending_eof :: bool
  rb_closed :: bool

definition remote_body_new :: "string \<Rightarrow> remote_body" where
  "remote_body_new rid = \<lparr>rb_request_id = rid, rb_next_seq = 1, rb_pending_eof = False, rb_closed = False\<rparr>"

type_synonym body_result = "exec_server_error + byte list option"

text \<open>
  Where \<^verbatim>\<open>recv\<close> goes on after the receiver: it returns a value, finishes the stream and returns it, or
  finishes the stream and looks for a recorded failure.
\<close>

datatype recv_phase =
  RecvReturn body_result
| RecvFinish body_result
| RecvFinishEnded

definition stream_failed :: "string \<Rightarrow> string \<Rightarrow> exec_server_error" where
  "stream_failed rid e = ProtocolError (''http response stream `'' @ rid @ ''` failed: '' @ e)"

definition recv_delta :: "http_body_delta \<Rightarrow> remote_body \<Rightarrow> recv_phase \<times> remote_body" where
  "recv_delta d b =
     (if bd_seq d \<noteq> rb_next_seq b
      then (RecvFinish (Inl (ProtocolError (''http response stream `'' @ rb_request_id b @ ''` received seq ''
              @ show_nat (bd_seq d) @ '', expected '' @ show_nat (rb_next_seq b)))), b)
      else
        let b' = b\<lparr>rb_next_seq := u64_succ (rb_next_seq b)\<rparr>
        in case bd_error d of
             Some e \<Rightarrow> (RecvFinish (Inl (stream_failed (rb_request_id b) e)), b')
           | None \<Rightarrow>
               if bd_done d
               then if bd_delta d = [] then (RecvFinish (Inr None), b')
                    else (RecvFinish (Inr (Some (bd_delta d))), b'\<lparr>rb_pending_eof := True\<rparr>)
               else (RecvReturn (Inr (Some (bd_delta d))), b'))"

text \<open>Nothing to receive while a sender is left: the call waits.\<close>

definition recv_take ::
  "bool \<Rightarrow> http_channel \<Rightarrow> remote_body \<Rightarrow> (recv_phase \<times> remote_body \<times> http_channel) option" where
  "recv_take senders ch b =
     (if rb_pending_eof b then Some (RecvFinish (Inr None), b\<lparr>rb_pending_eof := False\<rparr>, ch)
      else case ch_queue ch of
             d # ds \<Rightarrow> (case recv_delta d b of (p, b') \<Rightarrow> Some (p, b', ch\<lparr>ch_queue := ds\<rparr>))
           | [] \<Rightarrow> if senders then None else Some (RecvFinishEnded, b, ch))"

text \<open>
  \<^verbatim>\<open>finish_remote_stream\<close> marks the stream closed before it waits for the lock to remove the route, unless it
  was closed already.
\<close>

definition finish_begin :: "remote_body \<Rightarrow> bool \<times> remote_body" where
  "finish_begin b = (\<not> rb_closed b, b\<lparr>rb_closed := True\<rparr>)"

definition finish_remove :: "bool \<Rightarrow> remote_body \<Rightarrow> http_routes \<Rightarrow> http_routes" where
  "finish_remove open_route b r = (if open_route then remove_http_body_stream (rb_request_id b) r else r)"

definition recv_ended :: "remote_body \<Rightarrow> http_routes \<Rightarrow> body_result \<times> http_routes" where
  "recv_ended b r =
     (case take_http_body_stream_failure (rb_request_id b) r of
        (Some e, r') \<Rightarrow> (Inl (stream_failed (rb_request_id b) e), r')
      | (None, r') \<Rightarrow> (Inr None, r'))"

subsection \<open>All tasks together\<close>

text \<open>
  Stream \<open>i\<close> has channel \<open>i\<close>. \<open>StreamNamed\<close> has its request id, \<open>StreamRequesting\<close> its route and waits for
  the response's headers; the others are a stream at rest, inside \<^verbatim>\<open>recv\<close>, or dropped. A call of \<^verbatim>\<open>recv\<close> runs
  to its end or is dropped together with the stream.
\<close>

datatype stream_phase =
  StreamNamed
| StreamRequesting
| StreamIdle
| StreamFinish bool body_result
| StreamFinishEnded bool
| StreamTakeFailure
| StreamGone

record http_stream =
  hs_body :: remote_body
  hs_phase :: stream_phase
  hs_results :: "body_result list"

text \<open>
  \<open>hy_removals\<close> are the spawned removals of routes; \<open>hy_arrived\<close> are the deltas of the notifications so far.
\<close>

record http_system =
  hy_routes :: http_routes
  hy_channels :: "http_channel list"
  hy_streams :: "http_stream list"
  hy_tasks :: "delta_task list"
  hy_removals :: "string list"
  hy_arrived :: "http_body_delta list"

definition senders_left :: "nat \<Rightarrow> http_system \<Rightarrow> bool" where
  "senders_left i s = (i \<in> snd ` set (hr_streams (hy_routes s)) \<or> Some i \<in> task_sender ` set (hy_tasks s))"

definition set_stream :: "nat \<Rightarrow> http_stream \<Rightarrow> http_system \<Rightarrow> http_system" where
  "set_stream i st s = s\<lparr>hy_streams := (hy_streams s)[i := st]\<rparr>"

definition drop_receiver :: "nat \<Rightarrow> http_system \<Rightarrow> http_system" where
  "drop_receiver i s = s\<lparr>hy_channels := (hy_channels s)[i := ((hy_channels s) ! i)\<lparr>ch_receiver_gone := True\<rparr>]\<rparr>"

definition stream_end :: "nat \<Rightarrow> http_system \<Rightarrow> http_system" where
  "stream_end i s = set_stream i ((hy_streams s ! i)\<lparr>hs_phase := StreamGone\<rparr>) (drop_receiver i s)"

fun after_take :: "recv_phase \<Rightarrow> http_stream \<Rightarrow> http_stream" where
  "after_take (RecvReturn v) st = st\<lparr>hs_phase := StreamIdle, hs_results := hs_results st @ [v]\<rparr>"
| "after_take (RecvFinish v) st =
     (case finish_begin (hs_body st) of (opn, b) \<Rightarrow> st\<lparr>hs_body := b, hs_phase := StreamFinish opn v\<rparr>)"
| "after_take RecvFinishEnded st =
     (case finish_begin (hs_body st) of (opn, b) \<Rightarrow> st\<lparr>hs_body := b, hs_phase := StreamFinishEnded opn\<rparr>)"

definition open_stream :: "http_system \<Rightarrow> http_system" where
  "open_stream s =
     (case next_http_body_stream_request_id (hy_routes s) of
        (rid, r) \<Rightarrow>
          s\<lparr>hy_routes := r, hy_channels := hy_channels s @ [\<lparr>ch_queue = [], ch_receiver_gone = False\<rparr>],
            hy_streams := hy_streams s @ [\<lparr>hs_body = remote_body_new rid, hs_phase = StreamNamed, hs_results = []\<rparr>]\<rparr>)"

definition register_stream :: "nat \<Rightarrow> http_system \<Rightarrow> http_system" where
  "register_stream i s =
     (case insert_http_body_stream (rb_request_id (hs_body (hy_streams s ! i))) i (hy_routes s) of
        (Inl _, r) \<Rightarrow> stream_end i (s\<lparr>hy_routes := r\<rparr>)
      | (Inr _, r) \<Rightarrow> set_stream i ((hy_streams s ! i)\<lparr>hs_phase := StreamRequesting\<rparr>) (s\<lparr>hy_routes := r\<rparr>))"

text \<open>The headers came, the request failed, or its future was dropped.\<close>

definition request_answered :: "nat \<Rightarrow> http_system \<Rightarrow> http_system" where
  "request_answered i s = set_stream i ((hy_streams s ! i)\<lparr>hs_phase := StreamIdle\<rparr>) s"

definition request_failed :: "nat \<Rightarrow> http_system \<Rightarrow> http_system" where
  "request_failed i s =
     stream_end i (s\<lparr>hy_routes := remove_http_body_stream (rb_request_id (hs_body (hy_streams s ! i))) (hy_routes s)\<rparr>)"

definition drop_stream :: "nat \<Rightarrow> http_system \<Rightarrow> http_system" where
  "drop_stream i s =
     (let b = hs_body (hy_streams s ! i)
      in stream_end i (if rb_closed b then s else s\<lparr>hy_removals := rb_request_id b # hy_removals s\<rparr>))"

inductive http_step :: "http_system \<Rightarrow> http_system \<Rightarrow> bool" where
  open_s: "http_step s (open_stream s)"
| register_s: "i < length (hy_streams s) \<Longrightarrow> hs_phase (hy_streams s ! i) = StreamNamed \<Longrightarrow>
    http_step s (register_stream i s)"
| answered: "i < length (hy_streams s) \<Longrightarrow> hs_phase (hy_streams s ! i) = StreamRequesting \<Longrightarrow>
    http_step s (request_answered i s)"
| failed: "i < length (hy_streams s) \<Longrightarrow> hs_phase (hy_streams s ! i) = StreamRequesting \<Longrightarrow>
    http_step s (request_failed i s)"
| dropped: "i < length (hy_streams s) \<Longrightarrow> hs_phase (hy_streams s ! i) \<noteq> StreamNamed \<Longrightarrow>
    hs_phase (hy_streams s ! i) \<noteq> StreamGone \<Longrightarrow> http_step s (drop_stream i s)"
| removal: "rid \<in> set (hy_removals s) \<Longrightarrow>
    http_step s (s\<lparr>hy_routes := remove_http_body_stream rid (hy_routes s), hy_removals := remove1 rid (hy_removals s)\<rparr>)"
| arrive_d: "http_step s (s\<lparr>hy_arrived := hy_arrived s @ [d], hy_tasks := hy_tasks s @ [delta_load d (hy_routes s)]\<rparr>)"
| send_d: "k < length (hy_tasks s) \<Longrightarrow> hy_tasks s ! k = DeltaLoaded d tx \<Longrightarrow>
    delta_send d tx (hy_channels s ! tx) = (task, ch) \<Longrightarrow>
    http_step s (s\<lparr>hy_channels := (hy_channels s)[tx := ch], hy_tasks := (hy_tasks s)[k := task]\<rparr>)"
| record_d: "k < length (hy_tasks s) \<Longrightarrow> hy_tasks s ! k = DeltaRecord rid tx \<Longrightarrow>
    http_step s (s\<lparr>hy_routes := record_http_body_stream_failure rid ''body delta channel filled before delivery'' (hy_routes s),
                   hy_tasks := (hy_tasks s)[k := DeltaRemove rid tx]\<rparr>)"
| remove_d: "k < length (hy_tasks s) \<Longrightarrow> hy_tasks s ! k = DeltaRemove rid tx \<Longrightarrow>
    http_step s (s\<lparr>hy_routes := remove_http_body_stream rid (hy_routes s), hy_tasks := (hy_tasks s)[k := DeltaDone]\<rparr>)"
| fail_all: "fail_all_http_body_streams message (hy_routes s, hy_channels s) = (r, chs) \<Longrightarrow>
    http_step s (s\<lparr>hy_routes := r, hy_channels := chs\<rparr>)"
| take_r: "i < length (hy_streams s) \<Longrightarrow> hs_phase (hy_streams s ! i) = StreamIdle \<Longrightarrow>
    recv_take (senders_left i s) (hy_channels s ! i) (hs_body (hy_streams s ! i)) = Some (p, b, ch) \<Longrightarrow>
    http_step s (set_stream i (after_take p ((hy_streams s ! i)\<lparr>hs_body := b\<rparr>)) (s\<lparr>hy_channels := (hy_channels s)[i := ch]\<rparr>))"
| finish_r: "i < length (hy_streams s) \<Longrightarrow> hs_phase (hy_streams s ! i) = StreamFinish open_route v \<Longrightarrow>
    http_step s (set_stream i ((hy_streams s ! i)\<lparr>hs_phase := StreamIdle, hs_results := hs_results (hy_streams s ! i) @ [v]\<rparr>)
                   (s\<lparr>hy_routes := finish_remove open_route (hs_body (hy_streams s ! i)) (hy_routes s)\<rparr>))"
| finish_ended: "i < length (hy_streams s) \<Longrightarrow> hs_phase (hy_streams s ! i) = StreamFinishEnded open_route \<Longrightarrow>
    http_step s (set_stream i ((hy_streams s ! i)\<lparr>hs_phase := StreamTakeFailure\<rparr>)
                   (s\<lparr>hy_routes := finish_remove open_route (hs_body (hy_streams s ! i)) (hy_routes s)\<rparr>))"
| take_failure: "i < length (hy_streams s) \<Longrightarrow> hs_phase (hy_streams s ! i) = StreamTakeFailure \<Longrightarrow>
    recv_ended (hs_body (hy_streams s ! i)) (hy_routes s) = (v, r) \<Longrightarrow>
    http_step s (set_stream i ((hy_streams s ! i)\<lparr>hs_phase := StreamIdle,
                   hs_results := hs_results (hy_streams s ! i) @ [v]\<rparr>) (s\<lparr>hy_routes := r\<rparr>))"

definition http_start :: "http_system \<Rightarrow> bool" where
  "http_start s \<longleftrightarrow> s = \<lparr>hy_routes = http_routes_new, hy_channels = [], hy_streams = [], hy_tasks = [],
     hy_removals = [], hy_arrived = []\<rparr>"

subsection \<open>What a stream has received\<close>

definition stream_id :: "nat \<Rightarrow> string" where
  "stream_id i = ''http-'' @ show_nat (i + 1)"

lemma stream_id_inject [simp]: "stream_id i = stream_id j \<longleftrightarrow> i = j"
  by (simp add: stream_id_def show_nat_inj)

abbreviation body_chunk :: "http_body_delta \<Rightarrow> body_result" where
  "body_chunk d \<equiv> Inr (Some (bd_delta d))"

text \<open>Deltas of stream \<open>i\<close> that arrived, numbered from one, with no error and none but the last one final.\<close>

definition frames :: "http_body_delta set \<Rightarrow> nat \<Rightarrow> http_body_delta list \<Rightarrow> bool" where
  "frames arr i ds \<longleftrightarrow>
     set ds \<subseteq> arr \<and> map bd_seq ds = [1..<Suc (length ds)]
     \<and> (\<forall>d \<in> set ds. bd_request_id d = stream_id i \<and> bd_error d = None)
     \<and> (\<forall>d \<in> set (butlast ds). \<not> bd_done d) \<and> (\<forall>d \<in> set ds. bd_done d \<longrightarrow> bd_delta d \<noteq> [])"

lemma frames_Nil [simp]: "frames arr i []"
  by (simp add: frames_def)

lemma frames_snoc:
  assumes "frames arr i ds" and "\<forall>d \<in> set ds. \<not> bd_done d" and "d \<in> arr" and "bd_seq d = Suc (length ds)"
    and "bd_request_id d = stream_id i" and "bd_error d = None" and "bd_done d \<longrightarrow> bd_delta d \<noteq> []"
  shows "frames arr i (ds @ [d])"
  using assms by (auto simp: frames_def)

lemma frames_butlast: "frames arr i ds \<Longrightarrow> frames arr i (butlast ds)"
proof (cases ds rule: rev_cases)
  case (snoc es e)
  assume "frames arr i ds"
  then show ?thesis using snoc by (auto simp: frames_def in_set_butlastD)
qed simp

lemma frames_mono: "frames arr i ds \<Longrightarrow> arr \<subseteq> arr' \<Longrightarrow> frames arr' i ds"
  by (auto simp: frames_def)

lemma frames_length:
  assumes "frames (set xs) i ds"
  shows "length ds \<le> length xs"
proof -
  have "distinct (map bd_seq ds)" using assms by (simp add: frames_def)
  then have "distinct ds" by (simp add: distinct_map)
  then have "length ds = card (set ds)" by (simp add: distinct_card)
  also have "\<dots> \<le> card (set xs)" using assms by (intro card_mono) (simp_all add: frames_def)
  finally show ?thesis using card_length [of xs] by simp
qed

text \<open>The results so far, with the one that a finishing \<^verbatim>\<open>recv\<close> is about to return.\<close>

definition coming :: "http_stream \<Rightarrow> body_result list" where
  "coming st = hs_results st @ (case hs_phase st of StreamFinish _ v \<Rightarrow> [v] | _ \<Rightarrow> [])"

definition reading :: "http_stream \<Rightarrow> bool" where
  "reading st \<longleftrightarrow>
     (\<forall>v \<in> set (hs_results st). \<exists>c. v = Inr (Some c)) \<and> \<not> rb_pending_eof (hs_body st)
     \<and> (case hs_phase st of StreamFinish _ _ \<Rightarrow> False | StreamGone \<Rightarrow> False | _ \<Rightarrow> True)"

definition final_frame :: "nat \<Rightarrow> nat \<Rightarrow> http_body_delta \<Rightarrow> bool" where
  "final_frame i q d \<longleftrightarrow>
     bd_request_id d = stream_id i \<and> bd_seq d = q \<and> bd_error d = None \<and> bd_done d \<and> bd_delta d = []"

definition ended_clean :: "http_body_delta set \<Rightarrow> nat \<Rightarrow> http_body_delta list \<Rightarrow> body_result list \<Rightarrow> bool" where
  "ended_clean arr i ds vs \<longleftrightarrow>
     (\<exists>vs'. vs = map body_chunk ds @ Inr None # vs')
     \<and> (ds \<noteq> [] \<and> bd_done (last ds) \<or> (\<exists>d \<in> arr. final_frame i (Suc (length ds)) d))"

definition read_inv :: "http_body_delta set \<Rightarrow> nat \<Rightarrow> http_stream \<Rightarrow> bool" where
  "read_inv arr i st \<longleftrightarrow> (\<exists>ds. frames arr i ds \<and>
     (reading st \<and> hs_results st = map body_chunk ds \<and> (\<forall>d \<in> set ds. \<not> bd_done d)
        \<and> rb_next_seq (hs_body st) = Suc (length ds)
      \<or> rb_pending_eof (hs_body st) \<and> coming st = map body_chunk ds \<and> ds \<noteq> [] \<and> bd_done (last ds)
      \<or> hs_phase st = StreamGone \<and> hs_results st = map body_chunk ds
      \<or> ended_clean arr i ds (coming st)
      \<or> (\<exists>e vs. coming st = map body_chunk ds @ Inl e # vs)))"

text \<open>
  A stream that still reads has its route, or the delta that ends it is in its channel, or its failure is
  recorded; once its channel has run dry, the failure is recorded.
\<close>

definition settled :: "bool \<Rightarrow> http_channel \<Rightarrow> http_stream \<Rightarrow> bool" where
  "settled failed ch st \<longleftrightarrow> \<not> reading st \<or> (\<exists>d \<in> set (ch_queue ch). terminal_delta d) \<or> failed"

definition route_inv :: "bool \<Rightarrow> bool \<Rightarrow> http_channel \<Rightarrow> http_stream \<Rightarrow> bool" where
  "route_inv routed failed ch st \<longleftrightarrow>
     (case hs_phase st of
        StreamNamed \<Rightarrow> True
      | StreamFinishEnded _ \<Rightarrow> reading st \<longrightarrow> failed
      | StreamTakeFailure \<Rightarrow> reading st \<longrightarrow> failed
      | _ \<Rightarrow> routed \<or> settled failed ch st)"

definition stream_inv :: "http_body_delta set \<Rightarrow> bool \<Rightarrow> bool \<Rightarrow> http_channel \<Rightarrow> nat \<Rightarrow> http_stream \<Rightarrow> bool" where
  "stream_inv arr routed failed ch i st \<longleftrightarrow>
     rb_request_id (hs_body st) = stream_id i
     \<and> (\<forall>d \<in> set (ch_queue ch). bd_request_id d = stream_id i \<and> (d \<in> arr \<or> bd_error d \<noteq> None))
     \<and> (ch_receiver_gone ch \<longrightarrow> hs_phase st = StreamGone)
     \<and> (hs_phase st = StreamNamed \<longrightarrow> ch_queue ch = [] \<and> hs_body st = remote_body_new (stream_id i) \<and> hs_results st = [])
     \<and> read_inv arr i st \<and> route_inv routed failed ch st"

definition has_route :: "http_system \<Rightarrow> nat \<Rightarrow> bool" where
  "has_route s i \<longleftrightarrow> hm_contains (stream_id i) (hr_streams (hy_routes s))"

definition has_failure :: "http_system \<Rightarrow> nat \<Rightarrow> bool" where
  "has_failure s i \<longleftrightarrow> hm_contains (stream_id i) (hr_failures (hy_routes s))"

lemma has_route_failure_simps [simp]:
  "has_route (s\<lparr>hy_channels := x0\<rparr>) = has_route s"
  "has_route (s\<lparr>hy_streams := x1\<rparr>) = has_route s"
  "has_route (s\<lparr>hy_tasks := x2\<rparr>) = has_route s"
  "has_route (s\<lparr>hy_removals := x3\<rparr>) = has_route s"
  "has_route (s\<lparr>hy_arrived := x4\<rparr>) = has_route s"
  "has_failure (s\<lparr>hy_channels := x0\<rparr>) = has_failure s"
  "has_failure (s\<lparr>hy_streams := x1\<rparr>) = has_failure s"
  "has_failure (s\<lparr>hy_tasks := x2\<rparr>) = has_failure s"
  "has_failure (s\<lparr>hy_removals := x3\<rparr>) = has_failure s"
  "has_failure (s\<lparr>hy_arrived := x4\<rparr>) = has_failure s"
  by (simp_all add: fun_eq_iff has_route_def has_failure_def)

abbreviation phase_at :: "http_system \<Rightarrow> nat \<Rightarrow> stream_phase" where
  "phase_at s i \<equiv> hs_phase (hy_streams s ! i)"

fun task_inv :: "http_system \<Rightarrow> delta_task \<Rightarrow> bool" where
  "task_inv s (DeltaLoaded d c) \<longleftrightarrow> c < length (hy_streams s) \<and> bd_request_id d = stream_id c \<and> d \<in> set (hy_arrived s)
     \<and> phase_at s c \<noteq> StreamNamed"
| "task_inv s (DeltaRecord rid c) \<longleftrightarrow> c < length (hy_streams s) \<and> rid = stream_id c \<and> phase_at s c \<noteq> StreamNamed"
| "task_inv s (DeltaRemove rid c) \<longleftrightarrow> c < length (hy_streams s) \<and> rid = stream_id c \<and> phase_at s c \<noteq> StreamNamed
     \<and> settled (has_failure s c) (hy_channels s ! c) (hy_streams s ! c)"
| "task_inv s DeltaDone \<longleftrightarrow> True"

definition table_ok :: "http_system \<Rightarrow> bool" where
  "table_ok s \<longleftrightarrow>
     length (hy_channels s) = length (hy_streams s) \<and> hr_next_id (hy_routes s) = Suc (length (hy_streams s))
     \<and> hm_wf (hr_streams (hy_routes s))
     \<and> (\<forall>rid c. hm_get (hr_streams (hy_routes s)) rid = Some c \<longrightarrow>
          c < length (hy_streams s) \<and> rid = stream_id c \<and> phase_at s c \<noteq> StreamNamed)
     \<and> (\<forall>rid \<in> set (hy_removals s). \<exists>i < length (hy_streams s). rid = stream_id i \<and> phase_at s i = StreamGone)"

definition http_inv :: "http_system \<Rightarrow> bool" where
  "http_inv s \<longleftrightarrow> table_ok s \<and> (\<forall>t \<in> set (hy_tasks s). task_inv s t)
     \<and> (\<forall>i < length (hy_streams s).
          stream_inv (set (hy_arrived s)) (has_route s i) (has_failure s i) (hy_channels s ! i) i (hy_streams s ! i))"

subsection \<open>One stream\<close>

lemma not_readingD: "\<not> reading st \<Longrightarrow> read_inv arr i st \<Longrightarrow> hs_phase st \<noteq> StreamGone \<Longrightarrow>
  \<exists>ds. frames arr i ds \<and> (rb_pending_eof (hs_body st) \<and> coming st = map body_chunk ds \<and> ds \<noteq> [] \<and> bd_done (last ds)
      \<or> ended_clean arr i ds (coming st) \<or> (\<exists>e vs. coming st = map body_chunk ds @ Inl e # vs))"
  unfolding read_inv_def by blast

lemma terminal_not_chunks: "x \<in> set vs \<Longrightarrow> x = Inl e \<or> x = Inr None \<Longrightarrow> \<not> (\<forall>v \<in> set vs. \<exists>c. v = Inr (Some c))"
  by auto

lemma readingD:
  assumes "reading st" and "read_inv arr i st"
  obtains ds where "frames arr i ds" "hs_results st = map body_chunk ds" "\<forall>d \<in> set ds. \<not> bd_done d"
    "rb_next_seq (hs_body st) = Suc (length ds)"
proof -
  have "coming st = hs_results st"
    using assms(1) by (auto simp: coming_def reading_def split: stream_phase.splits)
  then have "\<not> ended_clean arr i ds (coming st)" "coming st \<noteq> map body_chunk ds @ Inl e # vs" for ds e vs
    using assms(1) by (auto simp: reading_def ended_clean_def)
  then show thesis using assms that unfolding read_inv_def reading_def by auto
qed

lemma read_inv_clean: "frames arr i ds \<Longrightarrow> ended_clean arr i ds (coming st) \<Longrightarrow> read_inv arr i st"
  unfolding read_inv_def by blast

lemma read_inv_failed: "frames arr i ds \<Longrightarrow> coming st = map body_chunk ds @ Inl e # vs \<Longrightarrow> read_inv arr i st"
  unfolding read_inv_def by blast

lemma ended_clean_append: "ended_clean arr i ds vs \<Longrightarrow> ended_clean arr i ds (vs @ vs')"
  unfolding ended_clean_def by force

lemma ended_clean_mono: "ended_clean arr i ds vs \<Longrightarrow> arr \<subseteq> arr' \<Longrightarrow> ended_clean arr' i ds vs"
  unfolding ended_clean_def by blast

lemma read_inv_more:
  assumes "read_inv arr i st" and "\<not> reading st" and "\<not> rb_pending_eof (hs_body st)" and "hs_phase st \<noteq> StreamGone"
    and "coming st' = coming st @ vs"
  shows "read_inv arr i st'"
proof -
  obtain ds where "frames arr i ds"
    and "ended_clean arr i ds (coming st) \<or> (\<exists>e vs. coming st = map body_chunk ds @ Inl e # vs)"
    using not_readingD [OF assms(2,1,4)] assms(3) by blast
  then show ?thesis using read_inv_clean read_inv_failed ended_clean_append assms(5) by fastforce
qed

lemma read_inv_results:
  assumes "read_inv arr i st" and "\<not> reading st" and "hs_phase st \<noteq> StreamGone"
    and "coming st' = coming st" and "rb_pending_eof (hs_body st') = rb_pending_eof (hs_body st)"
  shows "read_inv arr i st'"
  unfolding read_inv_def assms(4,5) using not_readingD [OF assms(2,1,3)] by blast

lemma read_inv_same:
  assumes "read_inv arr i st" and "reading st' = reading st" and "hs_results st' = hs_results st"
    and "rb_pending_eof (hs_body st') = rb_pending_eof (hs_body st)" and "rb_next_seq (hs_body st') = rb_next_seq (hs_body st)"
    and "coming st' = coming st" and "hs_phase st \<noteq> StreamGone"
  shows "read_inv arr i st'"
  using assms unfolding read_inv_def by auto

lemma append_singleton_eq_Cons: "xs @ [v] = ys @ u # vs \<Longrightarrow> vs = [] \<and> xs = ys \<and> v = u \<or> (\<exists>vs'. vs = vs' @ [v] \<and> xs = ys @ u # vs')"
  by (cases vs rule: rev_cases) auto

lemma read_inv_gone:
  assumes "read_inv arr i st"
  shows "read_inv arr i (st\<lparr>hs_phase := StreamGone\<rparr>)"
proof (cases "\<exists>opn v. hs_phase st = StreamFinish opn v")
  case False
  then have "coming st = hs_results st" "coming (st\<lparr>hs_phase := StreamGone\<rparr>) = hs_results st"
    by (auto simp: coming_def split: stream_phase.splits)
  then show ?thesis using assms unfolding read_inv_def by auto
next
  case True
  then obtain opn v where p: "hs_phase st = StreamFinish opn v" by blast
  have c: "coming st = hs_results st @ [v]" "coming (st\<lparr>hs_phase := StreamGone\<rparr>) = hs_results st"
    using p by (simp_all add: coming_def)
  have "\<not> reading st" by (simp add: reading_def p)
  then obtain ds where ds: "frames arr i ds"
    and "rb_pending_eof (hs_body st) \<and> coming st = map body_chunk ds \<and> ds \<noteq> [] \<and> bd_done (last ds)
      \<or> ended_clean arr i ds (coming st) \<or> (\<exists>e vs. coming st = map body_chunk ds @ Inl e # vs)"
    using not_readingD [OF _ assms] p by auto
  then consider "hs_results st = map body_chunk ds" | "hs_results st = map body_chunk (butlast ds)"
    | "ended_clean arr i ds (hs_results st)" | "\<exists>e vs. hs_results st = map body_chunk ds @ Inl e # vs"
    unfolding c ended_clean_def
    by (elim disjE) (auto dest!: append_singleton_eq_Cons simp: map_butlast append_eq_map_conv)
  then show ?thesis
    unfolding read_inv_def c using ds frames_butlast [OF ds] by cases auto
qed

lemma stream_inv_mono:
  "stream_inv arr routed failed ch i st \<Longrightarrow> arr \<subseteq> arr' \<Longrightarrow> stream_inv arr' routed failed ch i st"
  unfolding stream_inv_def read_inv_def by (blast intro: frames_mono ended_clean_mono)

lemma reading_after_take:
  "reading (after_take p (st\<lparr>hs_body := b\<rparr>)) \<longleftrightarrow>
     (case p of
        RecvReturn v \<Rightarrow> (\<forall>v \<in> set (hs_results st @ [v]). \<exists>c. v = Inr (Some c)) \<and> \<not> rb_pending_eof b
      | RecvFinish _ \<Rightarrow> False
      | RecvFinishEnded \<Rightarrow> (\<forall>v \<in> set (hs_results st). \<exists>c. v = Inr (Some c)) \<and> \<not> rb_pending_eof b)"
  by (cases p) (auto simp: reading_def finish_begin_def)

lemma coming_after_take:
  "coming (after_take p (st\<lparr>hs_body := b\<rparr>)) =
     hs_results st @ (case p of RecvReturn v \<Rightarrow> [v] | RecvFinish v \<Rightarrow> [v] | RecvFinishEnded \<Rightarrow> [])"
  by (cases p) (auto simp: coming_def finish_begin_def)

lemma after_take_fields:
  "rb_pending_eof (hs_body (after_take p (st\<lparr>hs_body := b\<rparr>))) = rb_pending_eof b"
  "rb_next_seq (hs_body (after_take p (st\<lparr>hs_body := b\<rparr>))) = rb_next_seq b"
  "rb_request_id (hs_body (after_take p (st\<lparr>hs_body := b\<rparr>))) = rb_request_id b"
  "hs_results (after_take p (st\<lparr>hs_body := b\<rparr>)) = hs_results st @ (case p of RecvReturn v \<Rightarrow> [v] | _ \<Rightarrow> [])"
  by (cases p; simp add: finish_begin_def)+

lemma after_take_phase: "hs_phase (after_take p st) \<notin> {StreamNamed, StreamRequesting, StreamTakeFailure, StreamGone}"
  by (cases p) (auto simp: finish_begin_def)

declare after_take.simps [simp del]

lemma coming_idle: "hs_phase st = StreamIdle \<Longrightarrow> coming st = hs_results st"
  by (simp add: coming_def)

lemma not_reading_idle:
  "\<not> reading st \<Longrightarrow> hs_phase st = StreamIdle \<Longrightarrow> \<not> rb_pending_eof (hs_body st) \<Longrightarrow>
     \<not> (\<forall>v \<in> set (hs_results st). \<exists>c. v = Inr (Some c))"
  by (simp add: reading_def)

lemma recv_take_pending:
  assumes "read_inv arr i st" and "hs_phase st = StreamIdle" and "rb_pending_eof (hs_body st)"
  shows "read_inv arr i (after_take (RecvFinish (Inr None)) (st\<lparr>hs_body := b\<rparr>))"
proof -
  have "\<not> reading st" using assms(3) by (simp add: reading_def)
  then obtain ds where ds: "frames arr i ds"
    and "hs_results st = map body_chunk ds \<and> ds \<noteq> [] \<and> bd_done (last ds)
      \<or> ended_clean arr i ds (hs_results st) \<or> (\<exists>e vs. hs_results st = map body_chunk ds @ Inl e # vs)"
    using not_readingD [OF _ assms(1)] assms(2) coming_idle [OF assms(2)] by auto
  then consider "hs_results st = map body_chunk ds" "ds \<noteq> []" "bd_done (last ds)" | "ended_clean arr i ds (hs_results st)"
    | e vs where "hs_results st = map body_chunk ds @ Inl e # vs" by blast
  then show ?thesis
  proof cases
    case 1
    then show ?thesis by (intro read_inv_clean [OF ds]) (auto simp: coming_after_take ended_clean_def)
  next
    case 2
    then show ?thesis by (intro read_inv_clean [OF ds]) (simp add: coming_after_take ended_clean_append)
  next
    case 3
    then show ?thesis by (intro read_inv_failed [OF ds]) (simp add: coming_after_take)
  qed
qed

lemma recv_delta_reading:
  assumes "frames (set xs) i fs" and "hs_results st = map body_chunk fs" and "\<forall>d \<in> set fs. \<not> bd_done d"
    and "rb_next_seq (hs_body st) = Suc (length fs)" and "\<not> rb_pending_eof (hs_body st)" and "length xs < u64_max"
    and "bd_request_id d = stream_id i" and "d \<in> set xs \<or> bd_error d \<noteq> None"
    and "recv_delta d (hs_body st) = (p, b)"
  shows "read_inv (set xs) i (after_take p (st\<lparr>hs_body := b\<rparr>))
    \<and> (terminal_delta d \<longrightarrow> (\<exists>v. p = RecvFinish v))"
proof (cases "bd_seq d = Suc (length fs) \<and> bd_error d = None")
  case False
  then obtain e where "p = RecvFinish (Inl e)"
    using assms(4,9) by (auto simp: recv_delta_def Let_def split: if_splits option.splits)
  then show ?thesis using assms(2) by (auto intro!: read_inv_failed [OF assms(1)] simp: coming_after_take)
next
  case True
  then have d: "d \<in> set xs" "bd_seq d = Suc (length fs)" "bd_error d = None" using assms(8) by auto
  show ?thesis
  proof (cases "bd_done d \<and> bd_delta d = []")
    case fin: True
    then have "p = RecvFinish (Inr None)" using d assms(4,9) by (auto simp: recv_delta_def Let_def)
    moreover have "ended_clean (set xs) i fs (map body_chunk fs @ [Inr None])"
      using fin d assms(7) by (auto simp: ended_clean_def final_frame_def)
    ultimately show ?thesis using assms(2) by (auto intro!: read_inv_clean [OF assms(1)] simp: coming_after_take)
  next
    case chunk: False
    have frames: "frames (set xs) i (fs @ [d])" using frames_snoc [OF assms(1,3)] assms(7) d chunk by blast
    have "length (fs @ [d]) \<le> length xs" by (rule frames_length [OF frames])
    then have succ: "u64_succ (Suc (length fs)) = Suc (Suc (length fs))"
      using assms(6) by (simp add: u64_succ_no_wrap)
    show ?thesis
    proof (cases "bd_done d")
      case False
      then have "p = RecvReturn (body_chunk d)" "b = (hs_body st)\<lparr>rb_next_seq := Suc (Suc (length fs))\<rparr>"
        using d assms(4,9) succ by (auto simp: recv_delta_def)
      then show ?thesis
        unfolding read_inv_def using frames False d assms(2,3,5)
        by (auto intro!: exI [of _ "fs @ [d]"] simp: reading_after_take after_take_fields terminal_delta_def)
    next
      case fin: True
      then have "p = RecvFinish (body_chunk d) \<and> rb_pending_eof b"
        using d chunk assms(4,9) by (auto simp: recv_delta_def Let_def split: if_splits)
      then show ?thesis
        unfolding read_inv_def using frames fin assms(2)
        by (auto intro!: exI [of _ "fs @ [d]"] simp: coming_after_take after_take_fields)
    qed
  qed
qed

lemma recv_delta_body:
  "recv_delta d b = (p, b') \<Longrightarrow> rb_request_id b' = rb_request_id b
     \<and> ((\<exists>v. p = RecvReturn (Inr (Some v)) \<and> rb_pending_eof b' = rb_pending_eof b) \<or> (\<exists>v. p = RecvFinish v))"
  by (auto simp: recv_delta_def Let_def split: if_splits option.splits)

lemma recv_take_cases [consumes 1, case_names pending_eof ended delta]:
  assumes "recv_take senders ch b = Some (p, b', ch')"
  obtains "rb_pending_eof b" "p = RecvFinish (Inr None)" "b' = b\<lparr>rb_pending_eof := False\<rparr>" "ch' = ch"
  | "\<not> rb_pending_eof b" "ch_queue ch = []" "\<not> senders" "p = RecvFinishEnded" "b' = b" "ch' = ch"
  | d ds where "\<not> rb_pending_eof b" "ch_queue ch = d # ds" "recv_delta d b = (p, b')" "ch' = ch\<lparr>ch_queue := ds\<rparr>"
  using assms by (auto simp: recv_take_def split: if_splits list.splits prod.splits)

lemma recv_take_read_inv:
  assumes "stream_inv (set xs) routed failed ch i st" and "hs_phase st = StreamIdle" and "length xs < u64_max"
    and "recv_take senders ch (hs_body st) = Some (p, b, ch')"
  shows "read_inv (set xs) i (after_take p (st\<lparr>hs_body := b\<rparr>))"
proof -
  have inv: "read_inv (set xs) i st" using assms(1) by (simp add: stream_inv_def)
  show ?thesis
  proof (cases "rb_pending_eof (hs_body st)")
    case True
    then show ?thesis using recv_take_pending [OF inv assms(2)] assms(4) by (auto simp: recv_take_def)
  next
    case no_eof: False
    show ?thesis
    proof (cases "ch_queue ch")
      case Nil
      then have "p = RecvFinishEnded" "b = hs_body st"
        using assms(4) no_eof by (auto simp: recv_take_def split: if_splits)
      then show ?thesis
        by (intro read_inv_same [OF inv])
          (use assms(2) in \<open>auto simp: coming_def after_take.simps finish_begin_def reading_def\<close>)
    next
      case (Cons d ds)
      then have d: "recv_delta d (hs_body st) = (p, b)"
        using assms(4) no_eof by (auto simp: recv_take_def split: prod.splits)
      have dq: "bd_request_id d = stream_id i" "d \<in> set xs \<or> bd_error d \<noteq> None"
        using assms(1) Cons by (auto simp: stream_inv_def)
      show ?thesis
      proof (cases "reading st")
        case True
        then obtain fs where fs: "frames (set xs) i fs" "hs_results st = map body_chunk fs" "\<forall>d \<in> set fs. \<not> bd_done d"
          "rb_next_seq (hs_body st) = Suc (length fs)" by (rule readingD [OF _ inv])
        show ?thesis using recv_delta_reading [OF fs no_eof assms(3) dq d] by simp
      next
        case False
        show ?thesis
          by (rule read_inv_more [OF inv False no_eof]) (simp_all add: assms(2) coming_after_take coming_idle)
      qed
    qed
  qed
qed

lemma recv_delta_terminal:
  "recv_delta d b = (p, b') \<Longrightarrow> terminal_delta d \<Longrightarrow> \<exists>v. p = RecvFinish v"
  by (auto simp: recv_delta_def terminal_delta_def Let_def split: if_splits option.splits)

lemma recv_take_keeps_reading:
  assumes "hs_phase st = StreamIdle" and "recv_take senders ch (hs_body st) = Some (p, b, ch')"
    and "reading (after_take p (st\<lparr>hs_body := b\<rparr>))"
  shows "reading st"
  using assms(2)
proof (cases rule: recv_take_cases)
  case (delta d ds)
  then show ?thesis
    using assms(1) assms(3) [unfolded reading_after_take] recv_delta_body [OF delta(3)] by (auto simp: reading_def)
qed (use assms(1) assms(3) [unfolded reading_after_take] in \<open>auto simp: reading_def\<close>)

lemma recv_take_settled:
  assumes "hs_phase st = StreamIdle" and "recv_take senders ch (hs_body st) = Some (p, b, ch')" and "settled failed ch st"
  shows "settled failed ch' (after_take p (st\<lparr>hs_body := b\<rparr>))"
  using assms(2)
proof (cases rule: recv_take_cases)
  case (delta d ds)
  have "reading (after_take p (st\<lparr>hs_body := b\<rparr>)) \<Longrightarrow> \<not> terminal_delta d"
    using recv_delta_terminal [OF delta(3)] by (auto simp: reading_after_take)
  then show ?thesis using assms(3) delta recv_take_keeps_reading [OF assms(1,2)] by (auto simp: settled_def)
qed (use assms(3) recv_take_keeps_reading [OF assms(1,2)] in \<open>auto simp: settled_def reading_after_take\<close>)

lemma recv_take_inv:
  assumes "stream_inv (set xs) routed failed ch i st" and "hs_phase st = StreamIdle" and "length xs < u64_max"
    and "recv_take senders ch (hs_body st) = Some (p, b, ch')" and "routed \<Longrightarrow> senders"
  shows "stream_inv (set xs) routed failed ch' i (after_take p (st\<lparr>hs_body := b\<rparr>))"
proof -
  have queue: "set (ch_queue ch') \<subseteq> set (ch_queue ch)" "ch_receiver_gone ch' = ch_receiver_gone ch"
    "rb_request_id b = rb_request_id (hs_body st)"
    using assms(4) by (cases rule: recv_take_cases; use recv_delta_body in force)+
  have "route_inv routed failed ch' (after_take p (st\<lparr>hs_body := b\<rparr>))"
  proof (cases p)
    case RecvFinishEnded
    from assms(4) have "ch_queue ch = [] \<and> \<not> senders"
      by (cases rule: recv_take_cases) (use recv_delta_body RecvFinishEnded in force)+
    then have "\<not> reading st \<or> failed"
      using assms(1,2,5) by (auto simp: stream_inv_def route_inv_def settled_def)
    then show ?thesis
      using RecvFinishEnded recv_take_keeps_reading [OF assms(2,4)]
      by (auto simp: route_inv_def after_take.simps finish_begin_def)
  next
    case (RecvReturn v)
    have "routed \<or> settled failed ch st" using assms(1,2) by (simp add: stream_inv_def route_inv_def)
    then show ?thesis
      using recv_take_settled [OF assms(2,4), of failed] RecvReturn by (auto simp: route_inv_def after_take.simps)
  next
    case (RecvFinish v)
    then show ?thesis by (simp add: route_inv_def settled_def reading_def after_take.simps finish_begin_def)
  qed
  moreover have "hs_phase (after_take p (st\<lparr>hs_body := b\<rparr>)) \<noteq> StreamNamed" using after_take_phase by blast
  ultimately show ?thesis
    using assms(1,2) queue recv_take_read_inv [OF assms(1-4)] unfolding stream_inv_def after_take_fields by auto
qed

lemma finish_inv:
  assumes "stream_inv arr routed failed ch i st" and "hs_phase st = StreamFinish opn v"
  shows "stream_inv arr routed' failed ch i (st\<lparr>hs_phase := StreamIdle, hs_results := hs_results st @ [v]\<rparr>)"
    and "\<not> reading (st\<lparr>hs_phase := StreamIdle, hs_results := hs_results st @ [v]\<rparr>)"
proof -
  let ?st = "st\<lparr>hs_phase := StreamIdle, hs_results := hs_results st @ [v]\<rparr>"
  have inv: "read_inv arr i st" using assms(1) by (simp add: stream_inv_def)
  have not_reading: "\<not> reading st" by (simp add: reading_def assms(2))
  have coming: "coming ?st = coming st" "coming st = hs_results st @ [v]" by (simp_all add: coming_def assms(2))
  have "rb_pending_eof (hs_body st) \<or> (\<exists>u \<in> set (hs_results st @ [v]). u = Inr None \<or> (\<exists>e. u = Inl e))"
    using not_readingD [OF not_reading inv] unfolding coming assms(2) ended_clean_def
    by (auto dest!: append_singleton_eq_Cons)
  then show over: "\<not> reading ?st" by (auto simp: reading_def)
  have "read_inv arr i ?st" by (rule read_inv_results [OF inv not_reading]) (simp_all add: assms(2) coming(1))
  then show "stream_inv arr routed' failed ch i ?st"
    using assms over by (auto simp: stream_inv_def route_inv_def settled_def)
qed

lemma finish_ended_inv:
  assumes "stream_inv arr routed failed ch i st" and "hs_phase st = StreamFinishEnded opn"
  shows "stream_inv arr routed' failed ch i (st\<lparr>hs_phase := StreamTakeFailure\<rparr>)"
proof -
  have same: "reading (st\<lparr>hs_phase := StreamTakeFailure\<rparr>) = reading st" by (simp add: reading_def assms(2))
  have "read_inv arr i (st\<lparr>hs_phase := StreamTakeFailure\<rparr>)"
    by (rule read_inv_same [of arr i st]) (use assms same in \<open>simp_all add: stream_inv_def coming_def\<close>)
  then show ?thesis using assms same by (auto simp: stream_inv_def route_inv_def)
qed

lemma take_failure_inv:
  assumes "stream_inv arr routed failed ch i st" and "hs_phase st = StreamTakeFailure"
    and "if failed then \<exists>e. v = Inl e else v = Inr None"
  shows "stream_inv arr routed' failed' ch i (st\<lparr>hs_phase := StreamIdle, hs_results := hs_results st @ [v]\<rparr>)"
    and "\<not> reading (st\<lparr>hs_phase := StreamIdle, hs_results := hs_results st @ [v]\<rparr>)"
proof -
  let ?st = "st\<lparr>hs_phase := StreamIdle, hs_results := hs_results st @ [v]\<rparr>"
  have inv: "read_inv arr i st" using assms(1) by (simp add: stream_inv_def)
  show over: "\<not> reading ?st" using assms(3) by (auto simp: reading_def split: if_splits)
  have coming: "coming ?st = coming st @ [v]" "coming st = hs_results st" by (simp_all add: coming_def assms(2))
  have "read_inv arr i ?st"
  proof (cases "reading st")
    case True
    then obtain fs where fs: "frames arr i fs" "hs_results st = map body_chunk fs" by (rule readingD [OF _ inv])
    have failed using assms(1,2) True by (simp add: stream_inv_def route_inv_def)
    then obtain e where "v = Inl e" using assms(3) by auto
    then show ?thesis using fs coming by (intro read_inv_failed [OF fs(1)]) simp
  next
    case False
    then obtain ds where ds: "frames arr i ds" and "rb_pending_eof (hs_body st) \<and> hs_results st = map body_chunk ds
        \<and> ds \<noteq> [] \<and> bd_done (last ds) \<or> ended_clean arr i ds (hs_results st) \<or> (\<exists>e vs. hs_results st = map body_chunk ds @ Inl e # vs)"
      using not_readingD [OF _ inv] unfolding coming assms(2) by auto
    then consider "hs_results st = map body_chunk ds" "ds \<noteq> []" "bd_done (last ds)" | "ended_clean arr i ds (hs_results st)"
      | e vs where "hs_results st = map body_chunk ds @ Inl e # vs" by blast
    then show ?thesis
    proof cases
      case 1
      show ?thesis
      proof (cases failed)
        case True
        then show ?thesis using 1 assms(3) coming read_inv_failed [OF ds] by fastforce
      next
        case False
        then show ?thesis using 1 assms(3) coming by (auto intro!: read_inv_clean [OF ds] simp: ended_clean_def)
      qed
    next
      case 2
      then show ?thesis using coming by (auto intro!: read_inv_clean [OF ds] ended_clean_append)
    next
      case 3
      then show ?thesis using coming by (auto intro!: read_inv_failed [OF ds])
    qed
  qed
  then show "stream_inv arr routed' failed' ch i ?st"
    using assms over by (auto simp: stream_inv_def route_inv_def settled_def)
qed

lemma gone_inv:
  assumes "stream_inv arr routed failed ch i st"
  shows "stream_inv arr routed' failed' (ch\<lparr>ch_receiver_gone := True\<rparr>) i (st\<lparr>hs_phase := StreamGone\<rparr>)"
  using assms read_inv_gone [of arr i st] by (auto simp: stream_inv_def route_inv_def settled_def reading_def)

lemma registered_inv:
  assumes "stream_inv arr routed failed ch i st" and "hs_phase st = StreamNamed"
  shows "stream_inv arr True failed' ch i (st\<lparr>hs_phase := StreamRequesting\<rparr>)"
proof -
  have "read_inv arr i (st\<lparr>hs_phase := StreamRequesting\<rparr>)"
    by (rule read_inv_same [of arr i st]) (use assms in \<open>simp_all add: stream_inv_def coming_def reading_def\<close>)
  then show ?thesis using assms by (auto simp: stream_inv_def route_inv_def)
qed

lemma answered_inv:
  assumes "stream_inv arr routed failed ch i st" and "hs_phase st = StreamRequesting"
  shows "stream_inv arr routed failed ch i (st\<lparr>hs_phase := StreamIdle\<rparr>)"
    and "settled failed ch (st\<lparr>hs_phase := StreamIdle\<rparr>) = settled failed ch st"
proof -
  have same: "reading (st\<lparr>hs_phase := StreamIdle\<rparr>) = reading st" by (simp add: reading_def assms(2))
  then show "settled failed ch (st\<lparr>hs_phase := StreamIdle\<rparr>) = settled failed ch st" by (simp add: settled_def)
  have "read_inv arr i (st\<lparr>hs_phase := StreamIdle\<rparr>)"
    by (rule read_inv_same [of arr i st]) (use assms same in \<open>simp_all add: stream_inv_def coming_def\<close>)
  then show "stream_inv arr routed failed ch i (st\<lparr>hs_phase := StreamIdle\<rparr>)"
    using assms same by (auto simp: stream_inv_def route_inv_def settled_def)
qed

lemma push_inv:
  assumes "stream_inv arr routed failed ch i st" and "hs_phase st \<noteq> StreamNamed"
    and "bd_request_id d = stream_id i" and "d \<in> arr \<or> bd_error d \<noteq> None"
  shows "stream_inv arr routed failed (ch\<lparr>ch_queue := ch_queue ch @ [d]\<rparr>) i st"
  using assms by (auto simp: stream_inv_def route_inv_def settled_def split: stream_phase.splits)

lemma push_settled:
  "settled failed ch st \<or> terminal_delta d \<Longrightarrow> settled failed (ch\<lparr>ch_queue := ch_queue ch @ [d]\<rparr>) st"
  by (auto simp: settled_def)

lemma settled_inv:
  "stream_inv arr routed failed ch i st \<Longrightarrow> routed \<longrightarrow> routed' \<or> settled failed ch st \<Longrightarrow> stream_inv arr routed' failed ch i st"
  by (auto simp: stream_inv_def route_inv_def split: stream_phase.splits)

lemma failure_inv: "stream_inv arr routed failed ch i st \<Longrightarrow> stream_inv arr routed' True ch i st"
  by (auto simp: stream_inv_def route_inv_def settled_def split: stream_phase.splits)

subsection \<open>All streams\<close>

abbreviation stream_at :: "http_system \<Rightarrow> nat \<Rightarrow> bool" where
  "stream_at s i \<equiv>
     stream_inv (set (hy_arrived s)) (has_route s i) (has_failure s i) (hy_channels s ! i) i (hy_streams s ! i)"

abbreviation settled_at :: "http_system \<Rightarrow> nat \<Rightarrow> bool" where
  "settled_at s i \<equiv> settled (has_failure s i) (hy_channels s ! i) (hy_streams s ! i)"

lemma http_invD:
  assumes "http_inv s"
  shows "table_ok s" and "t \<in> set (hy_tasks s) \<Longrightarrow> task_inv s t" and "i < length (hy_streams s) \<Longrightarrow> stream_at s i"
  using assms by (auto simp: http_inv_def)

definition later :: "http_system \<Rightarrow> http_system \<Rightarrow> bool" where
  "later s t \<longleftrightarrow>
     length (hy_streams s) \<le> length (hy_streams t) \<and> set (hy_arrived s) \<subseteq> set (hy_arrived t)
     \<and> (\<forall>c < length (hy_streams s). phase_at s c \<noteq> StreamNamed \<longrightarrow>
          phase_at t c \<noteq> StreamNamed \<and> (settled_at s c \<longrightarrow> settled_at t c))"

lemma task_inv_later: "task_inv s x \<Longrightarrow> later s t \<Longrightarrow> task_inv t x"
  by (cases x) (auto simp: later_def)

lemma http_inv_update:
  assumes inv: "http_inv s" and i: "i < length (hy_streams s)"
    and t: "hy_channels t = (hy_channels s)[i := ch]" "hy_streams t = (hy_streams s)[i := st]"
      "hy_tasks t = hy_tasks s" "hy_arrived t = hy_arrived s"
    and rems: "set (hy_removals t) \<subseteq> set (hy_removals s) \<union> (if hs_phase st = StreamGone then {stream_id i} else {})"
    and gone: "phase_at s i = StreamGone \<Longrightarrow> hs_phase st = StreamGone"
    and r: "hr_next_id (hy_routes t) = hr_next_id (hy_routes s)" "hm_wf (hr_streams (hy_routes t))"
      "\<And>rid. rid \<noteq> stream_id i \<Longrightarrow> hm_get (hr_streams (hy_routes t)) rid = hm_get (hr_streams (hy_routes s)) rid
         \<and> hm_get (hr_failures (hy_routes t)) rid = hm_get (hr_failures (hy_routes s)) rid"
      "hm_get (hr_streams (hy_routes t)) (stream_id i) \<in> {None, Some i}"
    and st: "hs_phase st \<noteq> StreamNamed" "stream_inv (set (hy_arrived s)) (has_route t i) (has_failure t i) ch i st"
    and settled: "phase_at s i \<noteq> StreamNamed \<Longrightarrow> settled_at s i \<Longrightarrow> settled (has_failure t i) ch st"
  shows "http_inv t"
proof -
  note tab = http_invD(1) [OF inv, unfolded table_ok_def]
  have len: "length (hy_channels s) = length (hy_streams s)" using tab by simp
  have same: "has_route t c = has_route s c \<and> has_failure t c = has_failure s c" if "c \<noteq> i" for c
    using r(3) [of "stream_id c"] that by (simp add: has_route_def has_failure_def hm_contains_def)
  have "later s t"
    using same settled st(1) i len unfolding later_def t by (auto simp: nth_list_update)
  then have "\<forall>x \<in> set (hy_tasks t). task_inv t x"
    using http_invD(2) [OF inv] task_inv_later unfolding t by blast
  moreover have "stream_at t c" if "c < length (hy_streams t)" for c
    using http_invD(3) [OF inv, of c] same [of c] st(2) i len that unfolding t by (cases "c = i") auto
  moreover have "table_ok t"
  proof -
    have "c < length (hy_streams s) \<and> rid = stream_id c \<and> phase_at t c \<noteq> StreamNamed"
      if "hm_get (hr_streams (hy_routes t)) rid = Some c" for rid c
      using that tab r(3) [of rid] r(4) st(1) i unfolding t by (cases "rid = stream_id i") (auto simp: nth_list_update)
    moreover have "\<exists>c < length (hy_streams s). rid = stream_id c \<and> phase_at t c = StreamGone"
      if rid: "rid \<in> set (hy_removals t)" for rid
    proof (cases "rid = stream_id i \<and> hs_phase st = StreamGone")
      case True
      then show ?thesis using i unfolding t by auto
    next
      case False
      then have "rid \<in> set (hy_removals s)" using rid rems by (auto split: if_splits)
      then obtain c where "c < length (hy_streams s)" "rid = stream_id c" "phase_at s c = StreamGone" using tab by blast
      then show ?thesis using gone i unfolding t by (intro exI [of _ c]) (auto simp: nth_list_update)
    qed
    ultimately show ?thesis using tab r(1,2) unfolding table_ok_def t by auto
  qed
  ultimately show ?thesis by (simp add: http_inv_def)
qed

text \<open>Steps that leave the streams alone, or only add one.\<close>

lemma http_inv_routes:
  assumes inv: "http_inv s" and later: "later s t"
    and t: "length (hy_channels t) = length (hy_streams s)" "hy_streams t = hy_streams s"
      "set (hy_removals t) \<subseteq> set (hy_removals s)"
    and tasks: "\<And>x. x \<in> set (hy_tasks t) \<Longrightarrow> x \<in> set (hy_tasks s) \<or> task_inv t x"
    and r: "hr_next_id (hy_routes t) = hr_next_id (hy_routes s)" "hm_wf (hr_streams (hy_routes t))"
      "\<And>rid c. hm_get (hr_streams (hy_routes t)) rid = Some c \<Longrightarrow> hm_get (hr_streams (hy_routes s)) rid = Some c"
    and st: "\<And>i. i < length (hy_streams s) \<Longrightarrow> stream_at s i \<Longrightarrow> stream_at t i"
  shows "http_inv t"
proof -
  have "table_ok t"
    using http_invD(1) [OF inv] t r unfolding table_ok_def by (simp, blast)
  moreover have "\<forall>x \<in> set (hy_tasks t). task_inv t x"
    using tasks http_invD(2) [OF inv] task_inv_later [OF _ later] by blast
  ultimately show ?thesis using http_invD(3) [OF inv] st t(2) by (simp add: http_inv_def)
qed

lemma routes_simps:
  "hr_streams (remove_http_body_stream rid r) = hm_remove rid (hr_streams r)"
  "hr_failures (remove_http_body_stream rid r) = hr_failures r"
  "hr_next_id (remove_http_body_stream rid r) = hr_next_id r"
  "hr_streams (record_http_body_stream_failure rid m r) = hr_streams r"
  "hr_failures (record_http_body_stream_failure rid m r) = hm_insert rid m (hr_failures r)"
  "hr_next_id (record_http_body_stream_failure rid m r) = hr_next_id r"
  by (simp_all add: remove_http_body_stream_def record_http_body_stream_failure_def)

lemma hm_contains_simps:
  "hm_contains k (hm_remove k' m) \<longleftrightarrow> k \<noteq> k' \<and> hm_contains k m"
  "hm_contains k (hm_insert k' v m) \<longleftrightarrow> k = k' \<or> hm_contains k m"
  by (auto simp: hm_contains_def container_simps)

lemma later_refl_fields:
  "hy_streams t = hy_streams s \<Longrightarrow> hy_channels t = hy_channels s \<Longrightarrow> set (hy_arrived s) \<subseteq> set (hy_arrived t) \<Longrightarrow>
     (\<And>c. has_failure s c \<Longrightarrow> has_failure t c) \<Longrightarrow> later s t"
  by (auto simp: later_def settled_def)

lemma settled_remove_inv:
  assumes inv: "http_inv s" and c: "c < length (hy_streams s)" "settled_at s c" "rid = stream_id c"
    and t: "hy_routes t = remove_http_body_stream rid (hy_routes s)" "hy_channels t = hy_channels s"
      "hy_streams t = hy_streams s" "set (hy_removals t) \<subseteq> set (hy_removals s)" "hy_arrived t = hy_arrived s"
      "set (hy_tasks t) \<subseteq> set (hy_tasks s) \<union> {DeltaDone}"
  shows "http_inv t"
proof (rule http_inv_routes [OF inv])
  note tab = http_invD(1) [OF inv, unfolded table_ok_def]
  show "later s t" by (rule later_refl_fields) (simp_all add: t has_failure_def routes_simps)
  show "hm_wf (hr_streams (hy_routes t))" using tab by (simp add: t routes_simps)
  show "hm_get (hr_streams (hy_routes s)) r = Some k" if "hm_get (hr_streams (hy_routes t)) r = Some k" for r k
    using that by (simp add: t routes_simps container_simps split: if_splits)
  show "stream_at t i" if "i < length (hy_streams s)" "stream_at s i" for i
    using settled_inv [OF that(2), of "has_route t i"] c(2,3) unfolding t has_failure_def
    by (auto simp: t has_route_def routes_simps hm_contains_simps has_failure_def)
  show "x \<in> set (hy_tasks s) \<or> task_inv t x" if "x \<in> set (hy_tasks t)" for x using that t(6) by auto
qed (use http_invD(1) [OF inv, unfolded table_ok_def] t in \<open>auto simp: routes_simps\<close>)

lemma record_inv:
  assumes inv: "http_inv s" and k: "k < length (hy_tasks s)" "hy_tasks s ! k = DeltaRecord rid tx"
  shows "http_inv (s\<lparr>hy_routes := record_http_body_stream_failure rid m (hy_routes s),
           hy_tasks := (hy_tasks s)[k := DeltaRemove rid tx]\<rparr>)" (is "http_inv ?t")
proof (rule http_inv_routes [OF inv])
  have task: "tx < length (hy_streams s)" "rid = stream_id tx" "phase_at s tx \<noteq> StreamNamed"
    using http_invD(2) [OF inv nth_mem [OF k(1)]] by (simp_all add: k(2))
  have fails: "has_failure (s\<lparr>hy_routes := record_http_body_stream_failure rid m (hy_routes s)\<rparr>) c
      \<longleftrightarrow> c = tx \<or> has_failure s c" for c
    by (auto simp: has_failure_def routes_simps hm_contains_simps task(2))
  show "later s ?t" by (rule later_refl_fields) (simp_all add: fails)
  show "x \<in> set (hy_tasks s) \<or> task_inv ?t x" if "x \<in> set (hy_tasks ?t)" for x
  proof -
    have "task_inv ?t (DeltaRemove rid tx)" using task fails by (simp add: settled_def)
    then show ?thesis using that set_update_subset_insert [of "hy_tasks s" k "DeltaRemove rid tx"] by auto
  qed
  show "stream_at ?t i" if "i < length (hy_streams s)" "stream_at s i" for i
    using that failure_inv [OF that(2), of "has_route s i"] by (cases "i = tx") (simp_all add: fails has_route_def routes_simps)
qed (use http_invD(1) [OF inv, unfolded table_ok_def] in \<open>auto simp: routes_simps\<close>)

lemma try_send_result:
  assumes "try_send d ch = (res, ch')"
  shows "ch' = (if res = SendOk then ch\<lparr>ch_queue := ch_queue ch @ [d]\<rparr> else ch)" and "res = SendClosed \<Longrightarrow> ch_receiver_gone ch"
    and "res \<noteq> SendOk \<Longrightarrow> ch_receiver_gone ch \<or> length (ch_queue ch) \<ge> http_body_delta_channel_capacity"
  using assms by (auto simp: try_send_def split: if_splits)

lemma send_inv:
  assumes inv: "http_inv s" and k: "k < length (hy_tasks s)" "hy_tasks s ! k = DeltaLoaded d tx"
    and send: "delta_send d tx (hy_channels s ! tx) = (task, ch)"
  shows "http_inv (s\<lparr>hy_channels := (hy_channels s)[tx := ch], hy_tasks := (hy_tasks s)[k := task]\<rparr>)" (is "http_inv ?t")
proof (rule http_inv_routes [OF inv])
  have tx: "tx < length (hy_streams s)" "bd_request_id d = stream_id tx" "d \<in> set (hy_arrived s)" "phase_at s tx \<noteq> StreamNamed"
    using http_invD(2) [OF inv nth_mem [OF k(1)]] by (simp_all add: k(2))
  have len: "length (hy_channels s) = length (hy_streams s)" using http_invD(1) [OF inv] by (simp add: table_ok_def)
  obtain res where res: "try_send d (hy_channels s ! tx) = (res, ch)"
    using send by (auto simp: delta_send_def split: prod.splits try_send_result.splits)
  note ch = try_send_result [OF res]
  have keep: "settled_at s c \<Longrightarrow> settled_at ?t c" if "c < length (hy_streams s)" for c
    using that len ch(1) push_settled [of "has_failure s c"] by (cases "c = tx") (auto simp: nth_list_update)
  then show "later s ?t" by (simp add: later_def)
  show "stream_at ?t i" if "i < length (hy_streams s)" "stream_at s i" for i
    using that len ch(1) push_inv [OF that(2) _ _ disjI1 [OF tx(3)]] tx
    by (cases "i = tx") (auto simp: nth_list_update)
  have "task_inv ?t task"
  proof (cases res)
    case SendOk
    then have "settled_at ?t tx" if "terminal_delta d" using that push_settled ch(1) tx(1) len by simp
    then show ?thesis using send res tx SendOk by (auto simp: delta_send_def)
  next
    case SendFull
    then show ?thesis using send res tx by (auto simp: delta_send_def)
  next
    case SendClosed
    then have "phase_at s tx = StreamGone" using ch(2) http_invD(3) [OF inv tx(1)] by (simp add: stream_inv_def)
    then have "settled_at ?t tx" using keep [OF tx(1)] by (simp add: settled_def reading_def)
    then show ?thesis using send res tx SendClosed by (auto simp: delta_send_def)
  qed
  then show "x \<in> set (hy_tasks s) \<or> task_inv ?t x" if "x \<in> set (hy_tasks ?t)" for x
    using that set_update_subset_insert [of "hy_tasks s" k task] by auto
qed (use http_invD(1) [OF inv, unfolded table_ok_def] in auto)

text \<open>What the failure of all streams does to the recorded failure and the channel of one of them.\<close>

definition fail_effect ::
  "string \<Rightarrow> nat \<Rightarrow> bool \<Rightarrow> string option \<Rightarrow> http_channel \<Rightarrow> string option \<Rightarrow> http_channel \<Rightarrow> bool" where
  "fail_effect m c routed f ch f' ch' \<longleftrightarrow>
     (if routed
      then ch' = ch\<lparr>ch_queue := ch_queue ch @ [failure_delta (stream_id c) m]\<rparr> \<and> f' = f
        \<or> ch' = ch \<and> f' = Some m \<and> (ch_receiver_gone ch \<or> length (ch_queue ch) \<ge> http_body_delta_channel_capacity)
      else ch' = ch \<and> f' = f)"

lemma fail_one:
  assumes "fail_http_body_stream m (stream_id c, c) (r, chs) = (r', chs')" and "c < length chs"
  shows "hr_streams r' = hr_streams r" and "hr_next_id r' = hr_next_id r" and "length chs' = length chs"
    and "fail_effect m j (j = c) (hm_get (hr_failures r) (stream_id j)) (chs ! j) (hm_get (hr_failures r') (stream_id j)) (chs' ! j)"
proof -
  obtain res ch where res: "try_send (failure_delta (stream_id c) m) (chs ! c) = (res, ch)" by fastforce
  note f = assms(1) [unfolded fail_http_body_stream_def, simplified, unfolded res, simplified]
  show "hr_streams r' = hr_streams r" "hr_next_id r' = hr_next_id r" "length chs' = length chs"
    "fail_effect m j (j = c) (hm_get (hr_failures r) (stream_id j)) (chs ! j) (hm_get (hr_failures r') (stream_id j)) (chs' ! j)"
    using f assms(2) try_send_result(1,3) [OF res]
    by (cases res; auto simp: fail_effect_def routes_simps container_simps nth_list_update)+
qed

lemma fail_effect_trans:
  "fail_effect m j (j = c) f ch f1 ch1 \<Longrightarrow> fail_effect m j routed f1 ch1 f' ch' \<Longrightarrow> \<not> (j = c \<and> routed) \<Longrightarrow>
     fail_effect m j (j = c \<or> routed) f ch f' ch'"
  by (auto simp: fail_effect_def split: if_splits)

lemma fail_fold:
  assumes "fold (fail_http_body_stream m) entries (r, chs) = (r', chs')" and "distinct (map fst entries)"
    and "\<forall>(rid, c) \<in> set entries. rid = stream_id c \<and> c < length chs"
  shows "hr_streams r' = hr_streams r \<and> hr_next_id r' = hr_next_id r \<and> length chs' = length chs
    \<and> fail_effect m j (stream_id j \<in> fst ` set entries) (hm_get (hr_failures r) (stream_id j)) (chs ! j)
        (hm_get (hr_failures r') (stream_id j)) (chs' ! j)"
  using assms
proof (induction entries arbitrary: r chs)
  case (Cons e entries)
  obtain c where e: "e = (stream_id c, c)" "c < length chs" using Cons.prems(3) by (cases e) auto
  obtain r1 chs1 where one: "fail_http_body_stream m e (r, chs) = (r1, chs1)" by fastforce
  note f = fail_one [OF one [unfolded e(1)] e(2)]
  have rest: "fold (fail_http_body_stream m) entries (r1, chs1) = (r', chs')" using Cons.prems(1) one by simp
  have "\<forall>(rid, c) \<in> set entries. rid = stream_id c \<and> c < length chs1" using Cons.prems(3) f(3) by auto
  note ih = Cons.IH [OF rest _ this]
  have "stream_id c \<notin> fst ` set entries" using Cons.prems(2) e by auto
  then have "fail_effect m j (j = c \<or> stream_id j \<in> fst ` set entries) (hm_get (hr_failures r) (stream_id j)) (chs ! j)
      (hm_get (hr_failures r') (stream_id j)) (chs' ! j)"
    using ih Cons.prems(2) by (intro fail_effect_trans [OF f(4)]) auto
  then show ?case using ih f Cons.prems(2) by (simp add: e(1))
qed (simp add: fail_effect_def)

lemma failure_delta_fields:
  "bd_request_id (failure_delta rid m) = rid" "bd_error (failure_delta rid m) = Some m" "terminal_delta (failure_delta rid m)"
  by (simp_all add: failure_delta_def terminal_delta_def)

lemma routeD:
  assumes "table_ok s" and "has_route s i"
  shows "hm_get (hr_streams (hy_routes s)) (stream_id i) = Some i" and "i < length (hy_streams s)"
    and "phase_at s i \<noteq> StreamNamed"
proof -
  obtain c where c: "hm_get (hr_streams (hy_routes s)) (stream_id i) = Some c"
    using assms(2) by (auto simp: has_route_def hm_contains_def)
  then have "c < length (hy_streams s) \<and> stream_id i = stream_id c \<and> phase_at s c \<noteq> StreamNamed"
    using assms(1) unfolding table_ok_def by blast
  then show "hm_get (hr_streams (hy_routes s)) (stream_id i) = Some i" "i < length (hy_streams s)"
    "phase_at s i \<noteq> StreamNamed" using c by auto
qed

lemma fail_all_effect:
  assumes inv: "http_inv s" and fail: "fail_all_http_body_streams m (hy_routes s, hy_channels s) = (r, chs)"
  shows "hr_streams r = []" and "hr_next_id r = hr_next_id (hy_routes s)" and "length chs = length (hy_streams s)"
    and "fail_effect m j (has_route s j) (hm_get (hr_failures (hy_routes s)) (stream_id j)) (hy_channels s ! j)
      (hm_get (hr_failures r) (stream_id j)) (chs ! j)"
proof -
  note tab = http_invD(1) [OF inv, unfolded table_ok_def]
  have fold: "fold (fail_http_body_stream m) (hr_streams (hy_routes s)) ((hy_routes s)\<lparr>hr_streams := []\<rparr>, hy_channels s) = (r, chs)"
    using fail by (simp add: fail_all_http_body_streams_def)
  have entries: "\<forall>(rid, c) \<in> set (hr_streams (hy_routes s)). rid = stream_id c \<and> c < length (hy_channels s)"
    using tab hm_get_in_set [of "hr_streams (hy_routes s)"] by fastforce
  have "stream_id j \<in> fst ` set (hr_streams (hy_routes s)) \<longleftrightarrow> has_route s j"
    by (simp add: has_route_def hm_contains_def flip: dom_map_of_conv_image_fst) (simp add: dom_def)
  then show "hr_streams r = []" "hr_next_id r = hr_next_id (hy_routes s)" "length chs = length (hy_streams s)"
    "fail_effect m j (has_route s j) (hm_get (hr_failures (hy_routes s)) (stream_id j)) (hy_channels s ! j)
      (hm_get (hr_failures r) (stream_id j)) (chs ! j)"
    using fail_fold [OF fold _ entries, of j] tab by (simp_all add: hm_wf_def)
qed

lemma fail_all_inv:
  assumes inv: "http_inv s" and fail: "fail_all_http_body_streams m (hy_routes s, hy_channels s) = (r, chs)"
  shows "http_inv (s\<lparr>hy_routes := r, hy_channels := chs\<rparr>)" (is "http_inv ?t")
proof (rule http_inv_routes [OF inv])
  note eff = fail_all_effect [OF inv fail]
  have keep: "settled_at s c \<Longrightarrow> settled_at ?t c" for c
    using eff(4) [of c] by (auto simp: fail_effect_def settled_def has_failure_def hm_contains_def split: if_splits)
  then show "later s ?t" by (simp add: later_def)
  show "stream_at ?t i" if "i < length (hy_streams s)" "stream_at s i" for i
  proof (cases "has_route s i")
    case False
    then have "\<not> has_route ?t i" "has_failure ?t i = has_failure s i" "chs ! i = hy_channels s ! i"
      using eff(4) [of i] by (simp_all add: fail_effect_def has_route_def has_failure_def hm_contains_def eff(1))
    then show ?thesis using that False by simp
  next
    case True
    then have "phase_at s i \<noteq> StreamNamed" by (rule routeD(3) [OF http_invD(1) [OF inv]])
    note push = push_inv [OF that(2) this, of "failure_delta (stream_id i) m", unfolded failure_delta_fields, simplified]
    have "chs ! i = (hy_channels s ! i)\<lparr>ch_queue := ch_queue (hy_channels s ! i) @ [failure_delta (stream_id i) m]\<rparr>
        \<and> has_failure ?t i = has_failure s i \<or> chs ! i = hy_channels s ! i \<and> has_failure ?t i"
      using eff(4) [of i] True unfolding fail_effect_def has_failure_def hm_contains_def by (simp del: not_None_eq) (elim disjE conjE; simp)
    then show ?thesis
    proof (elim disjE conjE)
      assume ch: "chs ! i = (hy_channels s ! i)\<lparr>ch_queue := ch_queue (hy_channels s ! i) @ [failure_delta (stream_id i) m]\<rparr>"
        and f: "has_failure ?t i = has_failure s i"
      have "settled (has_failure s i) (chs ! i) (hy_streams s ! i)"
        unfolding ch by (rule push_settled) (simp add: failure_delta_fields)
      then have "stream_inv (set (hy_arrived s)) (has_route ?t i) (has_failure s i) (chs ! i) i (hy_streams s ! i)"
        using push unfolding ch by (intro settled_inv [OF push]) simp
      then show ?thesis using f by simp
    next
      assume "chs ! i = hy_channels s ! i" "has_failure ?t i"
      then show ?thesis using failure_inv [OF that(2), of "has_route ?t i"] by simp
    qed
  qed
qed (use fail_all_effect [OF inv fail] in auto)

lemma arrive_inv:
  assumes inv: "http_inv s"
  shows "http_inv (s\<lparr>hy_arrived := hy_arrived s @ [d], hy_tasks := hy_tasks s @ [delta_load d (hy_routes s)]\<rparr>)" (is "http_inv ?t")
proof (rule http_inv_routes [OF inv])
  note tab = http_invD(1) [OF inv, unfolded table_ok_def]
  show "later s ?t" by (auto simp: later_def)
  show "x \<in> set (hy_tasks s) \<or> task_inv ?t x" if "x \<in> set (hy_tasks ?t)" for x
    using that tab by (auto simp: delta_load_def split: option.splits)
  show "stream_at ?t i" if "stream_at s i" for i
    using stream_inv_mono [OF that, of "set (hy_arrived ?t)"] by auto
qed (use http_invD(1) [OF inv, unfolded table_ok_def] in auto)

lemma open_inv:
  assumes inv: "http_inv s" and bound: "Suc (length (hy_streams s)) < u64_max"
  shows "http_inv (open_stream s)"
proof -
  let ?n = "length (hy_streams s)" and ?t = "open_stream s"
  note tab = http_invD(1) [OF inv, unfolded table_ok_def]
  have t: "hy_streams ?t = hy_streams s @ [\<lparr>hs_body = remote_body_new (stream_id ?n), hs_phase = StreamNamed, hs_results = []\<rparr>]"
    "hy_channels ?t = hy_channels s @ [\<lparr>ch_queue = [], ch_receiver_gone = False\<rparr>]" "hy_tasks ?t = hy_tasks s"
    "hy_removals ?t = hy_removals s" "hy_arrived ?t = hy_arrived s" "hr_streams (hy_routes ?t) = hr_streams (hy_routes s)"
    "hr_failures (hy_routes ?t) = hr_failures (hy_routes s)" "hr_next_id (hy_routes ?t) = Suc (Suc ?n)"
    using tab bound by (simp_all add: open_stream_def next_http_body_stream_request_id_def stream_id_def u64_succ_no_wrap)
  have same: "has_route ?t = has_route s" "has_failure ?t = has_failure s"
    by (simp_all add: fun_eq_iff has_route_def has_failure_def t)
  have "later s ?t" using tab by (auto simp: later_def t same nth_append)
  then have "\<forall>x \<in> set (hy_tasks ?t). task_inv ?t x" using http_invD(2) [OF inv] task_inv_later unfolding t by blast
  moreover have "stream_at ?t i" if "i < length (hy_streams ?t)" for i
  proof (cases "i = ?n")
    case True
    have "read_inv (set (hy_arrived s)) ?n \<lparr>hs_body = remote_body_new (stream_id ?n), hs_phase = StreamNamed, hs_results = []\<rparr>"
      unfolding read_inv_def by (intro exI [of _ "[]"]) (simp add: reading_def remote_body_new_def)
    then show ?thesis using True tab by (simp add: t stream_inv_def route_inv_def remote_body_new_def nth_append)
  next
    case False
    then show ?thesis using http_invD(3) [OF inv, of i] that tab by (simp add: t same nth_append)
  qed
  moreover have "table_ok ?t"
    using tab unfolding table_ok_def t by (auto simp: nth_append) (metis less_SucI)+
  ultimately show ?thesis by (simp add: http_inv_def)
qed

subsection \<open>Every step keeps the invariant\<close>

lemma stream_end_inv:
  assumes inv: "http_inv s" and i: "i < length (hy_streams s)"
    and r: "hr_next_id r = hr_next_id (hy_routes s)" "hm_wf (hr_streams r)"
      "\<And>rid. rid \<noteq> stream_id i \<Longrightarrow> hm_get (hr_streams r) rid = hm_get (hr_streams (hy_routes s)) rid
         \<and> hm_get (hr_failures r) rid = hm_get (hr_failures (hy_routes s)) rid"
      "hm_get (hr_streams r) (stream_id i) \<in> {None, Some i}"
    and rems: "set rems \<subseteq> insert (stream_id i) (set (hy_removals s))"
  shows "http_inv (stream_end i (s\<lparr>hy_routes := r, hy_removals := rems\<rparr>))" (is "http_inv ?t")
proof (rule http_inv_update [OF inv i])
  have "stream_inv (set (hy_arrived s)) (has_route ?t i) (has_failure ?t i) ((hy_channels s ! i)\<lparr>ch_receiver_gone := True\<rparr>) i
      ((hy_streams s ! i)\<lparr>hs_phase := StreamGone\<rparr>)"
    by (rule gone_inv [OF http_invD(3) [OF inv i]])
  then show "stream_inv (set (hy_arrived s)) (has_route ?t i) (has_failure ?t i) ((hy_channels s ! i)\<lparr>ch_receiver_gone := True\<rparr>) i
      ((hy_streams s ! i)\<lparr>hs_phase := StreamGone\<rparr>)" .
qed (use r rems in \<open>auto simp: stream_end_def set_stream_def drop_receiver_def settled_def reading_def\<close>)

lemma set_stream_inv:
  assumes inv: "http_inv s" and i: "i < length (hy_streams s)" "phase_at s i \<noteq> StreamGone"
    and t: "t = set_stream i st (s\<lparr>hy_routes := r, hy_channels := (hy_channels s)[i := ch]\<rparr>)"
    and r: "hr_next_id r = hr_next_id (hy_routes s)" "hm_wf (hr_streams r)"
      "\<And>rid. rid \<noteq> stream_id i \<Longrightarrow> hm_get (hr_streams r) rid = hm_get (hr_streams (hy_routes s)) rid
         \<and> hm_get (hr_failures r) rid = hm_get (hr_failures (hy_routes s)) rid"
      "hm_get (hr_streams r) (stream_id i) \<in> {None, Some i}"
    and st: "hs_phase st \<noteq> StreamNamed" "stream_inv (set (hy_arrived s)) (has_route t i) (has_failure t i) ch i st"
    and settled: "phase_at s i \<noteq> StreamNamed \<Longrightarrow> settled_at s i \<Longrightarrow> settled (has_failure t i) ch st"
  shows "http_inv t"
  by (rule http_inv_update [OF inv i(1)]) (use t r st settled i(2) in \<open>auto simp: set_stream_def\<close>)

lemma table_route:
  assumes "table_ok s"
  shows "hm_wf (hr_streams (hy_routes s))" and "hm_get (hr_streams (hy_routes s)) (stream_id i) \<in> {None, Some i}"
    and "length (hy_channels s) = length (hy_streams s)"
proof -
  show "hm_get (hr_streams (hy_routes s)) (stream_id i) \<in> {None, Some i}"
    using routeD(1) [OF assms, of i] unfolding has_route_def hm_contains_def by blast
qed (use assms in \<open>simp_all add: table_ok_def\<close>)

lemma register_inv:
  assumes inv: "http_inv s" and i: "i < length (hy_streams s)" "phase_at s i = StreamNamed"
  shows "http_inv (register_stream i s)"
proof -
  note tab = http_invD(1) [OF inv] and st = http_invD(3) [OF inv i(1)]
  have rid: "rb_request_id (hs_body (hy_streams s ! i)) = stream_id i" using st by (simp add: stream_inv_def)
  have new: "\<not> hm_contains (stream_id i) (hr_streams (hy_routes s))"
    using routeD(3) [OF tab, of i] i(2) by (auto simp: has_route_def)
  let ?r = "(hy_routes s)\<lparr>hr_streams := hm_insert (stream_id i) i (hr_streams (hy_routes s)),
    hr_failures := hm_remove (stream_id i) (hr_failures (hy_routes s))\<rparr>"
  let ?t = "set_stream i ((hy_streams s ! i)\<lparr>hs_phase := StreamRequesting\<rparr>)
    (s\<lparr>hy_routes := ?r, hy_channels := (hy_channels s)[i := hy_channels s ! i]\<rparr>)"
  have "http_inv ?t"
  proof (rule set_stream_inv [OF inv i(1) _ refl])
    have "has_route ?t i" by (simp add: has_route_def set_stream_def hm_contains_simps)
    then show "stream_inv (set (hy_arrived s)) (has_route ?t i) (has_failure ?t i) (hy_channels s ! i) i
        ((hy_streams s ! i)\<lparr>hs_phase := StreamRequesting\<rparr>)"
      using registered_inv [OF st i(2)] by simp
  qed (use table_route [OF tab] i in \<open>auto simp: container_simps\<close>)
  then show ?thesis by (simp add: register_stream_def insert_http_body_stream_def rid new)
qed

lemma take_step_inv:
  assumes inv: "http_inv s" and i: "i < length (hy_streams s)" "phase_at s i = StreamIdle"
    and take: "recv_take (senders_left i s) (hy_channels s ! i) (hs_body (hy_streams s ! i)) = Some (p, b, ch)"
    and bound: "length (hy_arrived s) < u64_max"
  shows "http_inv (set_stream i (after_take p ((hy_streams s ! i)\<lparr>hs_body := b\<rparr>)) (s\<lparr>hy_channels := (hy_channels s)[i := ch]\<rparr>))"
    (is "http_inv ?t")
proof -
  note tab = http_invD(1) [OF inv] and st = http_invD(3) [OF inv i(1)]
  have t: "?t = set_stream i (after_take p ((hy_streams s ! i)\<lparr>hs_body := b\<rparr>))
      (s\<lparr>hy_routes := hy_routes s, hy_channels := (hy_channels s)[i := ch]\<rparr>)" by simp
  have same: "has_route ?t = has_route s" "has_failure ?t = has_failure s" by (simp_all add: set_stream_def)
  have "i \<in> snd ` set (hr_streams (hy_routes s))" if "has_route s i"
    using map_of_SomeD [OF routeD(1) [OF tab that]] by force
  then have "has_route s i \<Longrightarrow> senders_left i s" by (simp add: senders_left_def)
  note new = recv_take_inv [OF st i(2) bound take this]
  show ?thesis
    by (rule set_stream_inv [OF inv i(1) _ t])
      (use i(2) table_route [OF tab] new same recv_take_settled [OF i(2) take] after_take_phase in auto)
qed

lemma finish_step_inv:
  assumes inv: "http_inv s" and i: "i < length (hy_streams s)" "phase_at s i \<noteq> StreamGone"
    and r: "r = finish_remove opn (hs_body (hy_streams s ! i)) (hy_routes s)"
    and st: "hs_phase st \<noteq> StreamNamed"
      "\<And>routed. stream_inv (set (hy_arrived s)) routed (has_failure s i) (hy_channels s ! i) i st"
      "settled_at s i \<Longrightarrow> settled (has_failure s i) (hy_channels s ! i) st"
  shows "http_inv (set_stream i st (s\<lparr>hy_routes := r\<rparr>))" (is "http_inv ?t")
proof (rule set_stream_inv [OF inv i])
  note tab = http_invD(1) [OF inv]
  have rid: "rb_request_id (hs_body (hy_streams s ! i)) = stream_id i"
    using http_invD(3) [OF inv i(1)] by (simp add: stream_inv_def)
  show "?t = set_stream i st (s\<lparr>hy_routes := r, hy_channels := (hy_channels s)[i := hy_channels s ! i]\<rparr>)" by simp
  have fields: "hr_failures r = hr_failures (hy_routes s)" "hr_next_id r = hr_next_id (hy_routes s)"
    "hr_streams r = (if opn then hm_remove (stream_id i) (hr_streams (hy_routes s)) else hr_streams (hy_routes s))"
    by (simp_all add: r finish_remove_def routes_simps rid)
  have fail: "has_failure ?t i = has_failure s i" by (simp add: has_failure_def set_stream_def fields)
  show "stream_inv (set (hy_arrived s)) (has_route ?t i) (has_failure ?t i) (hy_channels s ! i) i st"
    unfolding fail by (rule st(2))
  show "settled (has_failure ?t i) (hy_channels s ! i) st" if "settled_at s i" unfolding fail by (rule st(3) [OF that])
  show "hm_wf (hr_streams r)" using table_route(1) [OF tab] by (simp add: fields)
  show "hm_get (hr_streams r) (stream_id i) \<in> {None, Some i}"
    using table_route(2) [OF tab, of i] by (simp add: fields container_simps)
  show "hr_next_id r = hr_next_id (hy_routes s)" by (rule fields(2))
  show "hm_get (hr_streams r) rid = hm_get (hr_streams (hy_routes s)) rid
      \<and> hm_get (hr_failures r) rid = hm_get (hr_failures (hy_routes s)) rid" if "rid \<noteq> stream_id i" for rid
    using that by (simp add: fields container_simps)
qed (rule st(1))

lemma take_failure_step_inv:
  assumes inv: "http_inv s" and i: "i < length (hy_streams s)" "phase_at s i = StreamTakeFailure"
    and take: "recv_ended (hs_body (hy_streams s ! i)) (hy_routes s) = (v, r)"
  shows "http_inv (set_stream i ((hy_streams s ! i)\<lparr>hs_phase := StreamIdle,
           hs_results := hs_results (hy_streams s ! i) @ [v]\<rparr>) (s\<lparr>hy_routes := r\<rparr>))" (is "http_inv ?t")
proof (rule set_stream_inv [OF inv i(1)])
  note tab = http_invD(1) [OF inv] and st = http_invD(3) [OF inv i(1)]
  have rid: "rb_request_id (hs_body (hy_streams s ! i)) = stream_id i" using st by (simp add: stream_inv_def)
  have r: "r = (hy_routes s)\<lparr>hr_failures := hm_remove (stream_id i) (hr_failures (hy_routes s))\<rparr>"
    and v: "if has_failure s i then \<exists>e. v = Inl e else v = Inr None"
    using take by (auto simp: recv_ended_def take_http_body_stream_failure_def rid has_failure_def hm_contains_def
        split: option.splits)
  note new = take_failure_inv [OF st i(2) v]
  show "?t = set_stream i ((hy_streams s ! i)\<lparr>hs_phase := StreamIdle, hs_results := hs_results (hy_streams s ! i) @ [v]\<rparr>)
      (s\<lparr>hy_routes := r, hy_channels := (hy_channels s)[i := hy_channels s ! i]\<rparr>)" by simp
  show "settled (has_failure ?t i) (hy_channels s ! i)
      ((hy_streams s ! i)\<lparr>hs_phase := StreamIdle, hs_results := hs_results (hy_streams s ! i) @ [v]\<rparr>)"
    using new(2) by (simp add: settled_def)
  show "hm_get (hr_streams r) (stream_id i) \<in> {None, Some i}"
    using table_route(2) [OF tab, of i] by (simp add: r)
  show "hm_get (hr_streams r) rid = hm_get (hr_streams (hy_routes s)) rid
      \<and> hm_get (hr_failures r) rid = hm_get (hr_failures (hy_routes s)) rid" if "rid \<noteq> stream_id i" for rid
    using that by (simp add: r container_simps)
  show "stream_inv (set (hy_arrived s)) (has_route ?t i) (has_failure ?t i) (hy_channels s ! i) i
      ((hy_streams s ! i)\<lparr>hs_phase := StreamIdle, hs_results := hs_results (hy_streams s ! i) @ [v]\<rparr>)" by (rule new(1))
qed (use i(2) table_route(1) [OF http_invD(1) [OF inv]] take in
  \<open>auto simp: recv_ended_def take_http_body_stream_failure_def split: option.splits\<close>)

lemma end_step_inv:
  assumes inv: "http_inv s" and i: "i < length (hy_streams s)"
  shows "http_inv (request_failed i s)" and "http_inv (drop_stream i s)"
proof -
  note tab = http_invD(1) [OF inv]
  have rid: "rb_request_id (hs_body (hy_streams s ! i)) = stream_id i"
    using http_invD(3) [OF inv i] by (simp add: stream_inv_def)
  note route = table_route(1,2) [OF tab]
  have "http_inv (stream_end i (s\<lparr>hy_routes := remove_http_body_stream (stream_id i) (hy_routes s), hy_removals := hy_removals s\<rparr>))"
    by (rule stream_end_inv [OF inv i]) (use route in \<open>auto simp: routes_simps container_simps\<close>)
  then show "http_inv (request_failed i s)" by (simp add: request_failed_def rid)
  have "http_inv (stream_end i (s\<lparr>hy_routes := hy_routes s, hy_removals := rems\<rparr>))"
    if "set rems \<subseteq> insert (stream_id i) (set (hy_removals s))" for rems
    by (rule stream_end_inv [OF inv i _ _ _ _ that]) (use route in auto)
  from this [of "hy_removals s"] this [of "stream_id i # hy_removals s"]
  show "http_inv (drop_stream i s)" by (auto simp: drop_stream_def Let_def rid)
qed

lemma answered_step_inv:
  assumes inv: "http_inv s" and i: "i < length (hy_streams s)" "phase_at s i = StreamRequesting"
  shows "http_inv (request_answered i s)"
proof -
  note tab = http_invD(1) [OF inv] and st = http_invD(3) [OF inv i(1)]
  have t: "request_answered i s = set_stream i ((hy_streams s ! i)\<lparr>hs_phase := StreamIdle\<rparr>)
      (s\<lparr>hy_routes := hy_routes s, hy_channels := (hy_channels s)[i := hy_channels s ! i]\<rparr>)"
    by (simp add: request_answered_def)
  have same: "has_route (request_answered i s) = has_route s" "has_failure (request_answered i s) = has_failure s"
    by (simp_all add: request_answered_def set_stream_def)
  show ?thesis
    by (rule set_stream_inv [OF inv i(1) _ t])
      (use i(2) table_route [OF tab] same answered_inv [OF st i(2)] in auto)
qed

lemma removal_inv:
  assumes inv: "http_inv s" and "rid \<in> set (hy_removals s)"
  shows "http_inv (s\<lparr>hy_routes := remove_http_body_stream rid (hy_routes s), hy_removals := remove1 rid (hy_removals s)\<rparr>)"
proof -
  obtain c where c: "c < length (hy_streams s)" "rid = stream_id c" "phase_at s c = StreamGone"
    using assms http_invD(1) [OF inv] by (auto simp: table_ok_def)
  then have "settled_at s c" by (simp add: settled_def reading_def)
  then show ?thesis
    by (rule settled_remove_inv [OF inv c(1) _ c(2)]) (auto dest: notin_set_remove1 simp: set_remove1_subset)
qed

lemma remove_task_inv:
  assumes inv: "http_inv s" and k: "k < length (hy_tasks s)" "hy_tasks s ! k = DeltaRemove rid tx"
  shows "http_inv (s\<lparr>hy_routes := remove_http_body_stream rid (hy_routes s), hy_tasks := (hy_tasks s)[k := DeltaDone]\<rparr>)"
proof -
  have "task_inv s (DeltaRemove rid tx)" using http_invD(2) [OF inv nth_mem [OF k(1)]] k(2) by simp
  then have c: "tx < length (hy_streams s)" "rid = stream_id tx" "settled_at s tx" by simp_all
  show ?thesis
    by (rule settled_remove_inv [OF inv c(1,3,2)]) (use set_update_subset_insert [of "hy_tasks s" k DeltaDone] in auto)
qed

lemma http_inv_step:
  assumes "http_step s t" and "http_inv s" and "length (hy_streams t) < u64_max" and "length (hy_arrived s) < u64_max"
  shows "http_inv t"
  using assms(1)
proof cases
  case open_s
  then show ?thesis using assms(3) open_inv [OF assms(2)]
    by (simp add: open_stream_def next_http_body_stream_request_id_def)
next
  case (finish_r i opn v)
  note st = http_invD(3) [OF assms(2) finish_r(2)]
  show ?thesis unfolding finish_r(1)
    by (rule finish_step_inv [OF assms(2) finish_r(2) _ refl])
      (use finish_inv [OF st finish_r(3)] finish_r(3) in \<open>auto simp: settled_def\<close>)
next
  case (finish_ended i opn)
  note st = http_invD(3) [OF assms(2) finish_ended(2)]
  have "reading ((hy_streams s ! i)\<lparr>hs_phase := StreamTakeFailure\<rparr>) = reading (hy_streams s ! i)"
    by (simp add: reading_def finish_ended(3))
  then show ?thesis unfolding finish_ended(1)
    by (intro finish_step_inv [OF assms(2) finish_ended(2) _ refl])
      (use finish_ended_inv [OF st finish_ended(3)] finish_ended(3) in \<open>auto simp: settled_def\<close>)
next
  case (take_r i p b ch)
  then show ?thesis using take_step_inv [OF assms(2) take_r(2-4) assms(4)] by simp
next
  case (send_d k d tx task ch)
  then show ?thesis using send_inv [OF assms(2) send_d(2-4)] by simp
next
  case (fail_all message r chs)
  then show ?thesis using fail_all_inv [OF assms(2) fail_all(2)] by simp
next
  case (take_failure i v r)
  then show ?thesis using take_failure_step_inv [OF assms(2) take_failure(2-4)] by simp
qed (auto intro: register_inv answered_step_inv end_step_inv removal_inv arrive_inv record_inv remove_task_inv assms(2))

lemma http_step_grows:
  assumes "http_step s t"
  shows "length (hy_streams s) \<le> length (hy_streams t) \<and> set (hy_arrived s) \<subseteq> set (hy_arrived t)
    \<and> length (hy_arrived s) \<le> length (hy_arrived t)"
  using assms
  by cases (auto simp: open_stream_def register_stream_def request_answered_def request_failed_def drop_stream_def
      stream_end_def set_stream_def drop_receiver_def Let_def split: prod.splits sum.splits)

definition http_bounded_inv :: "http_system \<Rightarrow> bool" where
  "http_bounded_inv s \<longleftrightarrow> length (hy_streams s) < u64_max \<longrightarrow> length (hy_arrived s) < u64_max \<longrightarrow> http_inv s"

lemma http_start_inv: "http_start s \<Longrightarrow> http_inv s"
  by (auto simp: http_start_def http_inv_def table_ok_def http_routes_new_def)

interpretation http_run: transition_invariant http_start http_step http_bounded_inv
proof unfold_locales
  show "http_start s \<Longrightarrow> http_bounded_inv s" for s using http_start_inv by (simp add: http_bounded_inv_def)
  fix s t
  assume step: "http_step s t" and inv: "http_bounded_inv s"
  show "http_bounded_inv t"
    using http_inv_step [OF step] http_step_grows [OF step] inv unfolding http_bounded_inv_def by linarith
qed

lemma http_reachable_inv:
  "reachable_from http_start http_step s \<Longrightarrow> length (hy_streams s) < u64_max \<Longrightarrow> length (hy_arrived s) < u64_max \<Longrightarrow> http_inv s"
  using http_run.inv_reachable unfolding http_bounded_inv_def by blast

subsection \<open>A whole body or an error\<close>

fun chunks_received :: "body_result list \<Rightarrow> byte list list" where
  "chunks_received (Inr (Some c) # vs) = c # chunks_received vs"
| "chunks_received _ = []"

fun ended_cleanly :: "body_result list \<Rightarrow> bool" where
  "ended_cleanly (Inr (Some c) # vs) = ended_cleanly vs"
| "ended_cleanly (Inr None # vs) = True"
| "ended_cleanly _ = False"

fun body_chunks :: "(string + byte list) list \<Rightarrow> byte list list" where
  "body_chunks (Inr bytes # items) = bytes # body_chunks items"
| "body_chunks _ = []"

lemma chunks_map [simp]:
  "chunks_received (map body_chunk ds @ vs) = map bd_delta ds @ chunks_received vs"
  "ended_cleanly (map body_chunk ds @ vs) = ended_cleanly vs"
  by (induction ds) auto

lemma chunks_map_only [simp]:
  "chunks_received (map body_chunk ds) = map bd_delta ds" "ended_cleanly (map body_chunk ds) = False"
  using chunks_map [of ds "[]"] by simp_all

lemma read_inv_received:
  assumes "read_inv arr i st"
  obtains ds where "frames arr i ds" "chunks_received (hs_results st) = map bd_delta ds"
    "ended_cleanly (hs_results st) \<longrightarrow> ds \<noteq> [] \<and> bd_done (last ds) \<or> (\<exists>d \<in> arr. final_frame i (Suc (length ds)) d)"
proof -
  have "read_inv arr i (st\<lparr>hs_phase := StreamGone\<rparr>)" by (rule read_inv_gone [OF assms])
  moreover have "coming (st\<lparr>hs_phase := StreamGone\<rparr>) = hs_results st" "\<not> reading (st\<lparr>hs_phase := StreamGone\<rparr>)"
    by (simp_all add: coming_def reading_def)
  ultimately obtain ds where ds: "frames arr i ds" and "hs_results st = map body_chunk ds
      \<or> ended_clean arr i ds (hs_results st) \<or> (\<exists>e vs. hs_results st = map body_chunk ds @ Inl e # vs)"
    unfolding read_inv_def by auto
  then show thesis by (intro that [OF ds]) (auto simp: ended_clean_def)
qed

lemma stream_body_delta:
  assumes "d \<in> set (stream_body rid q items n)" and "q + length items < u64_max" and "bd_error d = None"
  shows "\<exists>k \<le> length items. bd_seq d = q + k \<and> (\<forall>j < k. \<exists>b. items ! j = Inr b)
    \<and> (if bd_done d then k = length items \<and> bd_delta d = [] else k < length items \<and> items ! k = Inr (bd_delta d))"
  using assms
proof (induction rid q items n rule: stream_body.induct)
  case (3 rid q bytes items n)
  show ?case
  proof (cases "d \<in> set (stream_body rid (Suc q) items n)")
    case True
    have "u64_succ q = Suc q" using "3.prems"(2) by (simp add: u64_succ_no_wrap)
    then obtain k where k: "k \<le> length items" "bd_seq d = Suc q + k" "\<forall>j < k. \<exists>b. items ! j = Inr b"
      "if bd_done d then k = length items \<and> bd_delta d = [] else k < length items \<and> items ! k = Inr (bd_delta d)"
      using "3.IH" True "3.prems"(2,3) by auto
    then show ?thesis by (intro exI [of _ "Suc k"]) (auto simp: less_Suc_eq_0_disj)
  next
    case False
    then have "d = \<lparr>bd_request_id = rid, bd_seq = q, bd_delta = bytes, bd_done = False, bd_error = None\<rparr>"
      using "3.prems" by (simp add: u64_succ_no_wrap)
    then show ?thesis by (intro exI [of _ 0]) simp
  qed
qed auto

lemma prefix_body_chunks:
  "length bs \<le> length items \<Longrightarrow> \<forall>j < length bs. items ! j = Inr (bs ! j) \<Longrightarrow> prefix bs (body_chunks items)"
proof (induction bs arbitrary: items)
  case (Cons b bs)
  then obtain rest where items: "items = Inr b # rest" by (cases items) auto
  have "prefix bs (body_chunks rest)" using Cons.prems by (intro Cons.IH) (auto simp: items)
  then show ?case by (simp add: items)
qed simp

text \<open>
  C20. Across every interleaving of arriving deltas, registrations, failures, removals and receives, a consumer of
  a streamed HTTP body gets the body's chunks in order and without gap, and is told that the body is
  complete only when it has all of it: a body that broke off, a delta that was lost to a full channel or a
  failed connection ends in an error. Deltas may arrive in any order and more than once.
\<close>

theorem http_body_arrives_whole:
  assumes "reachable_from http_start http_step s" and "length (hy_streams s) < u64_max" and "length (hy_arrived s) < u64_max"
    and "i < length (hy_streams s)" and "Suc (length items) < u64_max"
    and "\<forall>d \<in> set (hy_arrived s). bd_request_id d = stream_id i \<longrightarrow> d \<in> set (stream_body (stream_id i) 1 items n)"
  shows "prefix (chunks_received (hs_results (hy_streams s ! i))) (body_chunks items)
    \<and> (ended_cleanly (hs_results (hy_streams s ! i)) \<longrightarrow> items = map Inr (chunks_received (hs_results (hy_streams s ! i))))"
proof -
  let ?vs = "hs_results (hy_streams s ! i)"
  have "read_inv (set (hy_arrived s)) i (hy_streams s ! i)"
    using http_invD(3) [OF http_reachable_inv [OF assms(1-3)] assms(4)] by (simp add: stream_inv_def)
  then obtain ds where ds: "frames (set (hy_arrived s)) i ds" "chunks_received ?vs = map bd_delta ds"
    "ended_cleanly ?vs \<longrightarrow> ds \<noteq> [] \<and> bd_done (last ds) \<or> (\<exists>d \<in> set (hy_arrived s). final_frame i (Suc (length ds)) d)"
    by (rule read_inv_received)
  have sent: "\<exists>k \<le> length items. bd_seq d = Suc k \<and> (\<forall>j < k. \<exists>b. items ! j = Inr b)
    \<and> (if bd_done d then k = length items \<and> bd_delta d = [] else k < length items \<and> items ! k = Inr (bd_delta d))"
    if "d \<in> set (hy_arrived s)" "bd_request_id d = stream_id i" "bd_error d = None" for d
    using stream_body_delta [of d "stream_id i" 1 items n] assms(5,6) that by auto
  have each: "j < length items \<and> items ! j = Inr (bd_delta (ds ! j)) \<and> \<not> bd_done (ds ! j)" if "j < length ds" for j
  proof -
    have mem: "ds ! j \<in> set ds" using that by simp
    have "map bd_seq ds = [1..<Suc (length ds)]" using ds(1) unfolding frames_def by blast
    then have "bd_seq (ds ! j) = [1..<Suc (length ds)] ! j" using nth_map [OF that, of bd_seq] by simp
    then have "bd_seq (ds ! j) = Suc j" using that by (simp add: nth_upt del: upt_Suc)
    moreover have "ds ! j \<in> set (hy_arrived s)" "bd_request_id (ds ! j) = stream_id i" "bd_error (ds ! j) = None"
      "bd_done (ds ! j) \<longrightarrow> bd_delta (ds ! j) \<noteq> []"
      using ds(1) mem unfolding frames_def by auto
    ultimately show ?thesis using sent [of "ds ! j"] by (auto split: if_splits)
  qed
  then have len: "length ds \<le> length items" by (metis not_less_eq_eq lessI less_or_eq_imp_le not_le)
  then have pre: "prefix (chunks_received ?vs) (body_chunks items)"
    unfolding ds(2) using each by (intro prefix_body_chunks) auto
  have "items = map Inr (map bd_delta ds)" if clean: "ended_cleanly ?vs"
  proof -
    have "\<not> (ds \<noteq> [] \<and> bd_done (last ds))" using each [of "length ds - 1"] by (auto simp: last_conv_nth)
    then obtain d where d: "d \<in> set (hy_arrived s)" "final_frame i (Suc (length ds)) d" using ds(3) clean by blast
    then have "length items = length ds" using sent [of d] by (auto simp: final_frame_def)
    then show ?thesis using each by (intro nth_equalityI) auto
  qed
  then show ?thesis using pre ds(2) by simp
qed

subsection \<open>No receive waits for ever after a failure\<close>

text \<open>A call of \<^verbatim>\<open>recv\<close> that no other task interrupts.\<close>

definition recv_call :: "nat \<Rightarrow> http_system \<Rightarrow> http_system option" where
  "recv_call i s =
     (case recv_take (senders_left i s) (hy_channels s ! i) (hs_body (hy_streams s ! i)) of
        None \<Rightarrow> None
      | Some (p, b, ch) \<Rightarrow>
          (let s1 = set_stream i (after_take p ((hy_streams s ! i)\<lparr>hs_body := b\<rparr>)) (s\<lparr>hy_channels := (hy_channels s)[i := ch]\<rparr>);
               st = hy_streams s1 ! i
           in case hs_phase st of
                StreamFinish opn v \<Rightarrow>
                  Some (set_stream i (st\<lparr>hs_phase := StreamIdle, hs_results := hs_results st @ [v]\<rparr>)
                    (s1\<lparr>hy_routes := finish_remove opn (hs_body st) (hy_routes s1)\<rparr>))
              | StreamFinishEnded opn \<Rightarrow>
                  (case recv_ended (hs_body st) (finish_remove opn (hs_body st) (hy_routes s1)) of
                     (v, r) \<Rightarrow>
                       Some (set_stream i (st\<lparr>hs_phase := StreamIdle, hs_results := hs_results st @ [v]\<rparr>) (s1\<lparr>hy_routes := r\<rparr>)))
              | _ \<Rightarrow> Some s1))"

fun recv_calls :: "nat \<Rightarrow> nat \<Rightarrow> http_system \<Rightarrow> http_system option" where
  "recv_calls 0 i s = Some s"
| "recv_calls (Suc n) i s = (case recv_call i s of None \<Rightarrow> None | Some t \<Rightarrow> recv_calls n i t)"

abbreviation body_over :: "http_system \<Rightarrow> nat \<Rightarrow> bool" where
  "body_over s i \<equiv> \<exists>v \<in> set (hs_results (hy_streams s ! i)). v = Inr None \<or> (\<exists>e. v = Inl e)"

lemma finish_remove_senders: "set (hr_streams (finish_remove opn b r)) \<subseteq> set (hr_streams r)"
  by (auto simp: finish_remove_def routes_simps hm_remove_def AList.delete_eq)

lemma recv_ended_streams: "recv_ended b r = (v, r') \<Longrightarrow> hr_streams r' = hr_streams r \<and> (v = Inr None \<or> (\<exists>e. v = Inl e))"
  by (auto simp: recv_ended_def take_http_body_stream_failure_def split: option.splits)

lemma recv_call_progress:
  assumes "i < length (hy_streams s)" and "length (hy_channels s) = length (hy_streams s)" and "phase_at s i = StreamIdle"
    and "\<not> senders_left i s"
  shows "\<exists>t. recv_call i s = Some t \<and> length (hy_streams t) = length (hy_streams s)
    \<and> length (hy_channels t) = length (hy_streams t) \<and> phase_at t i = StreamIdle \<and> \<not> senders_left i t
    \<and> (body_over s i \<longrightarrow> body_over t i)
    \<and> (body_over t i \<or> length (ch_queue (hy_channels t ! i)) < length (ch_queue (hy_channels s ! i)))"
proof -
  have "recv_take (senders_left i s) (hy_channels s ! i) (hs_body (hy_streams s ! i)) \<noteq> None"
    using assms(4) by (auto simp: recv_take_def split: list.split prod.split)
  then obtain p b ch where take: "recv_take (senders_left i s) (hy_channels s ! i) (hs_body (hy_streams s ! i)) = Some (p, b, ch)"
    by (cases "recv_take (senders_left i s) (hy_channels s ! i) (hs_body (hy_streams s ! i))") auto
  have sl: "i \<notin> snd ` set (hr_streams (hy_routes s))" "Some i \<notin> task_sender ` set (hy_tasks s)"
    using assms(4) by (simp_all add: senders_left_def)
  have fin: "i \<notin> snd ` set (hr_streams (finish_remove opn b' (hy_routes s)))" for opn b'
    using sl(1) finish_remove_senders by blast
  obtain v r where ended: "recv_ended (b\<lparr>rb_closed := True\<rparr>) (finish_remove (\<not> rb_closed b) (b\<lparr>rb_closed := True\<rparr>) (hy_routes s)) = (v, r)"
    by fastforce
  note r = recv_ended_streams [OF ended]
  from take show ?thesis
  proof (cases rule: recv_take_cases)
    case (delta d ds)
    then have "(\<exists>c. p = RecvReturn (Inr (Some c))) \<or> (\<exists>v. p = RecvFinish v)" using recv_delta_body by blast
    then show ?thesis
      using take assms(1-3) delta sl fin
      by (elim disjE exE) (auto simp: recv_call_def Let_def set_stream_def after_take.simps finish_begin_def senders_left_def)
  next
    case ended
    then show ?thesis
      using take assms(1-3) sl fin r \<open>recv_ended _ _ = _\<close>
      by (auto simp: recv_call_def Let_def set_stream_def after_take.simps finish_begin_def senders_left_def)
  qed (use take assms(1-3) sl fin in \<open>auto simp: recv_call_def Let_def set_stream_def after_take.simps finish_begin_def senders_left_def\<close>)
qed

lemma recv_calls_end:
  assumes "i < length (hy_streams s)" and "length (hy_channels s) = length (hy_streams s)" and "phase_at s i = StreamIdle"
    and "\<not> senders_left i s"
  shows "\<exists>n \<le> Suc (length (ch_queue (hy_channels s ! i))). \<exists>t. recv_calls n i s = Some t \<and> body_over t i"
  using assms
proof (induction "length (ch_queue (hy_channels s ! i))" arbitrary: s rule: less_induct)
  case less
  obtain t where t: "recv_call i s = Some t" "length (hy_streams t) = length (hy_streams s)"
    "length (hy_channels t) = length (hy_streams t)" "phase_at t i = StreamIdle" "\<not> senders_left i t"
    "body_over t i \<or> length (ch_queue (hy_channels t ! i)) < length (ch_queue (hy_channels s ! i))"
    using recv_call_progress [OF less.prems] by blast
  show ?case
  proof (cases "body_over t i")
    case True
    then have "recv_calls 1 i s = Some t" using t(1) by simp
    then show ?thesis using True by (intro exI [of _ 1]) simp
  next
    case False
    then obtain n u where "n \<le> Suc (length (ch_queue (hy_channels t ! i)))" "recv_calls n i t = Some u" "body_over u i"
      using less.hyps [of t] less.prems(1) t by auto
    then show ?thesis using t(1,6) False by (intro exI [of _ "Suc n"]) auto
  qed
qed

text \<open>
  When the connection fails, no consumer waits for ever: after all streams were failed and the deltas in
  flight handled, a consumer's next receives all return, and after at most as many as its channel has deltas,
  and one more, it has been told that the body ended or failed.
\<close>

theorem failed_http_bodies_end:
  assumes "reachable_from http_start http_step s" and "length (hy_streams s) < u64_max" and "length (hy_arrived s) < u64_max"
    and "i < length (hy_streams s)" and "phase_at s i = StreamIdle" and "\<forall>x \<in> set (hy_tasks s). x = DeltaDone"
    and "fail_all_http_body_streams message (hy_routes s, hy_channels s) = (r, chs)"
  shows "\<exists>n \<le> Suc (length (ch_queue (chs ! i))). \<exists>t. recv_calls n i (s\<lparr>hy_routes := r, hy_channels := chs\<rparr>) = Some t
    \<and> body_over t i"
proof -
  let ?t = "s\<lparr>hy_routes := r, hy_channels := chs\<rparr>"
  note eff = fail_all_effect [OF http_reachable_inv [OF assms(1-3)] assms(7)]
  have "\<not> senders_left i ?t" using assms(6) by (auto simp: senders_left_def eff(1))
  then show ?thesis using recv_calls_end [of i ?t] assms(4,5) eff(3) by simp
qed

lemma fail_all_open_channel:
  assumes "http_inv s" and "fail_all_http_body_streams m (hy_routes s, hy_channels s) = (r, chs)" and "has_route s i"
    and "\<not> ch_receiver_gone (hy_channels s ! i)" and "length (ch_queue (hy_channels s ! i)) < http_body_delta_channel_capacity"
  shows "chs ! i = (hy_channels s ! i)\<lparr>ch_queue := ch_queue (hy_channels s ! i) @ [failure_delta (stream_id i) m]\<rparr>"
  using fail_all_effect(4) [OF assms(1,2), of i] assms(3-5) by (auto simp: fail_effect_def)

text \<open>
  A stream that fails in the middle of its body reports a sequence gap instead of the failure: the delta that
  carries the failure always has the number 1, and the consumer checks the number before it looks at the
  error. So after at least one received chunk the reason of the failure is lost.
\<close>

theorem http_failure_reported_as_gap:
  assumes "reachable_from http_start http_step s" and "length (hy_streams s) < u64_max" and "length (hy_arrived s) < u64_max"
    and "i < length (hy_streams s)" and "phase_at s i = StreamIdle" and "has_route s i"
    and "hs_results (hy_streams s ! i) = map (\<lambda>c. Inr (Some c)) cs" and "cs \<noteq> []"
    and "\<not> rb_pending_eof (hs_body (hy_streams s ! i))" and "ch_queue (hy_channels s ! i) = []"
    and "fail_all_http_body_streams message (hy_routes s, hy_channels s) = (r, chs)"
  shows "\<exists>t. recv_call i (s\<lparr>hy_routes := r, hy_channels := chs\<rparr>) = Some t
    \<and> hs_results (hy_streams t ! i) = map (\<lambda>c. Inr (Some c)) cs @
        [Inl (ProtocolError (''http response stream `'' @ stream_id i @ ''` received seq '' @ show_nat 1
           @ '', expected '' @ show_nat (Suc (length cs))))]"
proof -
  note inv = http_reachable_inv [OF assms(1-3)]
  note st = http_invD(3) [OF inv assms(4)] and eff = fail_all_effect [OF inv assms(11)]
  have "reading (hy_streams s ! i)" using assms(5,7,9) by (auto simp: reading_def)
  then obtain ds where "hs_results (hy_streams s ! i) = map body_chunk ds" "rb_next_seq (hs_body (hy_streams s ! i)) = Suc (length ds)"
    using readingD st unfolding stream_inv_def by metis
  then have next_seq: "rb_next_seq (hs_body (hy_streams s ! i)) = Suc (length cs)"
    using assms(7) by (metis length_map)
  have rid: "rb_request_id (hs_body (hy_streams s ! i)) = stream_id i" using st by (simp add: stream_inv_def)
  have open_ch: "\<not> ch_receiver_gone (hy_channels s ! i)" using st assms(5) by (auto simp: stream_inv_def)
  have ch: "chs ! i = (hy_channels s ! i)\<lparr>ch_queue := [failure_delta (stream_id i) message]\<rparr>"
    using fail_all_open_channel [OF inv assms(11,6) open_ch] assms(10) by (simp add: http_body_delta_channel_capacity_def)
  have len: "length chs = length (hy_streams s)" by (rule eff(3))
  have "Suc 0 \<noteq> Suc (length cs)" using assms(8) by simp
  then show ?thesis
    using assms(4,5,7,9) next_seq rid len
    by (simp add: recv_call_def recv_take_def recv_delta_def ch failure_delta_def set_stream_def after_take.simps
        finish_begin_def Let_def)
qed

subsection \<open>A body of one chunk\<close>

definition example_chunk :: http_body_delta where
  "example_chunk = \<lparr>bd_request_id = stream_id 0, bd_seq = 1, bd_delta = [7], bd_done = False, bd_error = None\<rparr>"

definition example_last :: http_body_delta where
  "example_last = \<lparr>bd_request_id = stream_id 0, bd_seq = 2, bd_delta = [], bd_done = True, bd_error = None\<rparr>"

definition example_idle :: http_system where
  "example_idle =
     \<lparr>hy_routes = \<lparr>hr_streams = [(stream_id 0, 0)], hr_failures = [], hr_next_id = 2\<rparr>,
      hy_channels = [\<lparr>ch_queue = [], ch_receiver_gone = False\<rparr>],
      hy_streams = [\<lparr>hs_body = remote_body_new (stream_id 0), hs_phase = StreamIdle, hs_results = []\<rparr>],
      hy_tasks = [], hy_removals = [], hy_arrived = []\<rparr>"

definition example_received :: http_system where
  "example_received =
     \<lparr>hy_routes = \<lparr>hr_streams = [(stream_id 0, 0)], hr_failures = [], hr_next_id = 2\<rparr>,
      hy_channels = [\<lparr>ch_queue = [], ch_receiver_gone = False\<rparr>],
      hy_streams = [\<lparr>hs_body = (remote_body_new (stream_id 0))\<lparr>rb_next_seq := 2\<rparr>, hs_phase = StreamIdle,
                     hs_results = [Inr (Some [7])]\<rparr>],
      hy_tasks = [DeltaDone], hy_removals = [], hy_arrived = [example_chunk]\<rparr>"

definition example_complete :: http_system where
  "example_complete =
     \<lparr>hy_routes = \<lparr>hr_streams = [], hr_failures = [], hr_next_id = 2\<rparr>,
      hy_channels = [\<lparr>ch_queue = [], ch_receiver_gone = False\<rparr>],
      hy_streams = [\<lparr>hs_body = (remote_body_new (stream_id 0))\<lparr>rb_next_seq := 3, rb_closed := True\<rparr>, hs_phase = StreamIdle,
                     hs_results = [Inr (Some [7]), Inr None]\<rparr>],
      hy_tasks = [DeltaDone, DeltaDone], hy_removals = [], hy_arrived = [example_chunk, example_last]\<rparr>"

lemmas example_simps = example_idle_def example_received_def example_complete_def example_chunk_def example_last_def
  remote_body_new_def delta_load_def delta_send_def try_send_def http_body_delta_channel_capacity_def terminal_delta_def
  recv_take_def recv_delta_def set_stream_def after_take.simps finish_begin_def finish_remove_def u64_succ_def u64_modulus_def
  remove_http_body_stream_def hm_remove_def

lemma example_idle_reachable: "reachable_from http_start http_step example_idle"
proof -
  let ?s0 = "\<lparr>hy_routes = http_routes_new, hy_channels = [], hy_streams = [], hy_tasks = [], hy_removals = [], hy_arrived = []\<rparr>"
  have id: "''http-'' @ show_nat 1 = stream_id 0" by (simp add: stream_id_def)
  have "reachable_from http_start http_step ?s0" by (rule reachable_start) (simp add: http_start_def)
  note r1 = reachable_step [OF this http_step.open_s]
  have "http_step (open_stream ?s0) (register_stream 0 (open_stream ?s0))"
    by (rule http_step.register_s) (simp_all add: open_stream_def http_routes_new_def next_http_body_stream_request_id_def)
  note r2 = reachable_step [OF r1 this]
  have s2: "register_stream 0 (open_stream ?s0) = example_idle\<lparr>hy_streams :=
      [\<lparr>hs_body = remote_body_new (stream_id 0), hs_phase = StreamRequesting, hs_results = []\<rparr>]\<rparr>"
    using id by (simp add: register_stream_def open_stream_def http_routes_new_def next_http_body_stream_request_id_def
        insert_http_body_stream_def hm_contains_def hm_insert_def hm_remove_def set_stream_def example_idle_def
        remote_body_new_def u64_succ_def u64_modulus_def)
  have "http_step (example_idle\<lparr>hy_streams := [\<lparr>hs_body = remote_body_new (stream_id 0), hs_phase = StreamRequesting, hs_results = []\<rparr>]\<rparr>)
      example_idle"
    using http_step.answered [of 0 "example_idle\<lparr>hy_streams :=
      [\<lparr>hs_body = remote_body_new (stream_id 0), hs_phase = StreamRequesting, hs_results = []\<rparr>]\<rparr>"]
    by (simp add: request_answered_def set_stream_def example_idle_def)
  then show ?thesis by (rule reachable_step [OF r2 [unfolded s2]])
qed

lemma example_received_reachable: "reachable_from http_start http_step example_received"
proof -
  let ?s1 = "example_idle\<lparr>hy_arrived := [example_chunk], hy_tasks := [DeltaLoaded example_chunk 0]\<rparr>"
  let ?s2 = "?s1\<lparr>hy_channels := [\<lparr>ch_queue = [example_chunk], ch_receiver_gone = False\<rparr>], hy_tasks := [DeltaDone]\<rparr>"
  have "http_step example_idle ?s1"
    using http_step.arrive_d [of example_idle example_chunk] by (simp add: example_simps)
  note r1 = reachable_step [OF example_idle_reachable this]
  have "http_step ?s1 ?s2"
    using http_step.send_d [of 0 ?s1 example_chunk 0 DeltaDone "\<lparr>ch_queue = [example_chunk], ch_receiver_gone = False\<rparr>"]
    by (simp add: example_simps)
  note r2 = reachable_step [OF r1 this]
  have "http_step ?s2 example_received"
    using http_step.take_r [of 0 ?s2 "RecvReturn (Inr (Some [7]))" "(remote_body_new (stream_id 0))\<lparr>rb_next_seq := 2\<rparr>"
        "\<lparr>ch_queue = [], ch_receiver_gone = False\<rparr>"]
    by (simp add: example_simps)
  then show ?thesis by (rule reachable_step [OF r2])
qed

lemma example_complete_reachable: "reachable_from http_start http_step example_complete"
proof -
  let ?s1 = "example_received\<lparr>hy_arrived := [example_chunk, example_last], hy_tasks := [DeltaDone, DeltaLoaded example_last 0]\<rparr>"
  let ?s2 = "?s1\<lparr>hy_channels := [\<lparr>ch_queue = [example_last], ch_receiver_gone = False\<rparr>],
    hy_tasks := [DeltaDone, DeltaRemove (stream_id 0) 0]\<rparr>"
  let ?s3 = "?s2\<lparr>hy_routes := \<lparr>hr_streams = [], hr_failures = [], hr_next_id = 2\<rparr>, hy_tasks := [DeltaDone, DeltaDone]\<rparr>"
  let ?s4 = "example_complete\<lparr>hy_streams := [\<lparr>hs_body = (remote_body_new (stream_id 0))\<lparr>rb_next_seq := 3, rb_closed := True\<rparr>,
    hs_phase = StreamFinish True (Inr None), hs_results = [Inr (Some [7])]\<rparr>]\<rparr>"
  have "http_step example_received ?s1"
    using http_step.arrive_d [of example_received example_last] by (simp add: example_simps)
  note r1 = reachable_step [OF example_received_reachable this]
  have "http_step ?s1 ?s2"
    using http_step.send_d [of 1 ?s1 example_last 0 "DeltaRemove (stream_id 0) 0"
        "\<lparr>ch_queue = [example_last], ch_receiver_gone = False\<rparr>"]
    by (simp add: example_simps)
  note r2 = reachable_step [OF r1 this]
  have "http_step ?s2 ?s3" using http_step.remove_d [of 1 ?s2 "stream_id 0" 0] by (simp add: example_simps)
  note r3 = reachable_step [OF r2 this]
  have "http_step ?s3 ?s4"
    using http_step.take_r [of 0 ?s3 "RecvFinish (Inr None)" "(remote_body_new (stream_id 0))\<lparr>rb_next_seq := 3\<rparr>"
        "\<lparr>ch_queue = [], ch_receiver_gone = False\<rparr>"]
    by (simp add: example_simps)
  note r4 = reachable_step [OF r3 this]
  have "http_step ?s4 example_complete"
    using http_step.finish_r [of 0 ?s4 True "Inr None"] by (simp add: example_simps)
  then show ?thesis by (rule reachable_step [OF r4])
qed

theorem http_body_arrives_whole_witness:
  "ended_cleanly (hs_results (hy_streams example_complete ! 0))
   \<and> [Inr [7]] = (map Inr (chunks_received (hs_results (hy_streams example_complete ! 0))) :: (string + byte list) list)"
proof -
  have bounds: "length (hy_streams example_complete) < u64_max" "length (hy_arrived example_complete) < u64_max"
    "0 < length (hy_streams example_complete)" "Suc (length [Inr [7] :: string + byte list]) < u64_max"
    by (simp_all add: example_complete_def u64_max_def u64_modulus_def)
  have sent: "\<forall>d \<in> set (hy_arrived example_complete). bd_request_id d = stream_id 0 \<longrightarrow>
      d \<in> set (stream_body (stream_id 0) 1 [Inr [7]] (Suc (Suc 0)))"
    by (simp add: example_complete_def example_chunk_def example_last_def u64_succ_def u64_modulus_def)
  have clean: "ended_cleanly (hs_results (hy_streams example_complete ! 0))" by (simp add: example_complete_def)
  show ?thesis using http_body_arrives_whole [OF example_complete_reachable bounds sent] clean by simp
qed

lemma example_fail_all:
  "fail_all_http_body_streams m (hy_routes example_received, hy_channels example_received) =
     (\<lparr>hr_streams = [], hr_failures = [], hr_next_id = 2\<rparr>, [\<lparr>ch_queue = [failure_delta (stream_id 0) m], ch_receiver_gone = False\<rparr>])"
  by (simp add: fail_all_http_body_streams_def fail_http_body_stream_def example_simps)

lemma example_received_bounds:
  "length (hy_streams example_received) < u64_max" "length (hy_arrived example_received) < u64_max"
  "0 < length (hy_streams example_received)" "phase_at example_received 0 = StreamIdle"
  by (simp_all add: example_received_def u64_max_def u64_modulus_def)

theorem failed_http_bodies_end_witness:
  "\<exists>n \<le> Suc (Suc 0). \<exists>t. recv_calls n 0 (example_received\<lparr>hy_routes := \<lparr>hr_streams = [], hr_failures = [], hr_next_id = 2\<rparr>,
      hy_channels := [\<lparr>ch_queue = [failure_delta (stream_id 0) ''gone''], ch_receiver_gone = False\<rparr>]\<rparr>) = Some t \<and> body_over t 0"
proof -
  have tasks: "\<forall>x \<in> set (hy_tasks example_received). x = DeltaDone" by (simp add: example_received_def)
  show ?thesis
    using failed_http_bodies_end [OF example_received_reachable example_received_bounds tasks example_fail_all, of "''gone''"] by simp
qed

theorem http_failure_reported_as_gap_witness:
  "\<exists>t. recv_call 0 (example_received\<lparr>hy_routes := \<lparr>hr_streams = [], hr_failures = [], hr_next_id = 2\<rparr>,
      hy_channels := [\<lparr>ch_queue = [failure_delta (stream_id 0) ''gone''], ch_receiver_gone = False\<rparr>]\<rparr>) = Some t
    \<and> hs_results (hy_streams t ! 0) = [Inr (Some [7]),
        Inl (ProtocolError (''http response stream `'' @ stream_id 0 @ ''` received seq '' @ show_nat 1 @ '', expected '' @ show_nat 2))]"
proof -
  have st: "has_route example_received 0"
    "hs_results (hy_streams example_received ! 0) = map (\<lambda>c. Inr (Some c)) [[7]]" "[[7]] \<noteq> ([] :: byte list list)"
    "\<not> rb_pending_eof (hs_body (hy_streams example_received ! 0))" "ch_queue (hy_channels example_received ! 0) = []"
    by (simp_all add: example_received_def has_route_def hm_contains_def remote_body_new_def)
  show ?thesis
    using http_failure_reported_as_gap [OF example_received_reachable example_received_bounds st example_fail_all, of "''gone''"]
    by (simp add: eval_nat_numeral)
qed

end
