(* ===== verification/Client_Connection.thy ===== *)
theory Client_Connection
  imports Client_Session Rpc_Client
begin

text \<open>
  The client's connection: \<^verbatim>\<open>Inner\<close> of \<^verbatim>\<open>crates/exec-server/src/client.rs\<close> and the status machine of
  \<^verbatim>\<open>client_recovery.rs\<close>. One task per JSON-RPC client watches its events; when the connection that is in use
  breaks, a recovery task waits for process starts in flight, resumes the session on a new connection, and
  in the end installs it or fails the client with all its sessions. Every section under the connection's
  mutex or the sessions' write lock is one definition; \<open>client_step\<close> interleaves them. The streamed HTTP
  bodies, which recovery also fails, are those of \<open>Http_Body\<close>.
\<close>

subsection \<open>Status and sessions\<close>

datatype connection_status = Connected nat | Recovering | ClientFailed string

record connection_state =
  cn_status :: connection_status
  cn_active_process_starts :: nat

text \<open>Sessions by process id; a session is its position in the list of all session states.\<close>

record client_sessions =
  cs_table :: "(process_id, nat) hash_map"
  cs_states :: "session_state list"

definition failure_message :: "connection_state \<Rightarrow> string option" where
  "failure_message c = (case cn_status c of ClientFailed m \<Rightarrow> Some m | _ \<Rightarrow> None)"

definition is_failed :: "connection_state \<Rightarrow> bool" where
  "is_failed c = (failure_message c \<noteq> None)"

definition begin_process_start :: "nat \<Rightarrow> bool \<Rightarrow> connection_state \<Rightarrow> bool \<times> connection_state" where
  "begin_process_start expected disconnected c =
     (case cn_status c of
        Connected current \<Rightarrow>
          if current \<noteq> expected \<or> disconnected then (False, c)
          else (True, c\<lparr>cn_active_process_starts := cn_active_process_starts c + 1\<rparr>)
      | _ \<Rightarrow> (False, c))"

definition finish_process_start :: "connection_state \<Rightarrow> connection_state" where
  "finish_process_start c =
     (if cn_active_process_starts c = 0 then c
      else c\<lparr>cn_active_process_starts := cn_active_process_starts c - 1\<rparr>)"

definition request_recovery :: "nat \<Rightarrow> connection_state \<Rightarrow> bool \<times> connection_state" where
  "request_recovery failed c =
     (if cn_status c = Connected failed then (True, c\<lparr>cn_status := Recovering\<rparr>) else (False, c))"

definition install_recovered_client :: "nat \<Rightarrow> bool \<Rightarrow> connection_state \<Rightarrow> bool \<times> connection_state" where
  "install_recovered_client candidate disconnected c =
     (if cn_status c \<noteq> Recovering \<or> disconnected then (False, c)
      else (True, c\<lparr>cn_status := Connected candidate\<rparr>))"

definition fail_status :: "string \<Rightarrow> connection_state \<Rightarrow> (string \<times> bool) \<times> connection_state" where
  "fail_status message c =
     (case cn_status c of
        ClientFailed existing \<Rightarrow> ((existing, False), c)
      | _ \<Rightarrow> ((message, True), c\<lparr>cn_status := ClientFailed message\<rparr>))"

definition get_session :: "process_id \<Rightarrow> client_sessions \<Rightarrow> nat option" where
  "get_session pid s = hm_get (cs_table s) pid"

definition insert_session :: "process_id \<Rightarrow> nat \<Rightarrow> client_sessions \<Rightarrow> (exec_server_error + unit) \<times> client_sessions" where
  "insert_session pid idx s =
     (if hm_contains pid (cs_table s)
      then (Inl (ProtocolError (''session already registered for process '' @ pid)), s)
      else (Inr (), s\<lparr>cs_table := hm_insert pid idx (cs_table s)\<rparr>))"

definition remove_session_if :: "process_id \<Rightarrow> nat \<Rightarrow> client_sessions \<Rightarrow> client_sessions" where
  "remove_session_if pid expected s =
     (if hm_get (cs_table s) pid = Some expected then s\<lparr>cs_table := hm_remove pid (cs_table s)\<rparr> else s)"

definition take_all_sessions :: "client_sessions \<Rightarrow> nat list \<times> client_sessions" where
  "take_all_sessions s = (map snd (cs_table s), s\<lparr>cs_table := []\<rparr>)"

definition update_session :: "nat \<Rightarrow> (session_state \<Rightarrow> session_state) \<Rightarrow> client_sessions \<Rightarrow> client_sessions" where
  "update_session idx f s = s\<lparr>cs_states := (cs_states s)[idx := f (cs_states s ! idx)]\<rparr>"

subsection \<open>Errors and messages\<close>

definition disconnected_message :: "string option \<Rightarrow> string" where
  "disconnected_message reason =
     (case reason of
        Some r \<Rightarrow> ''exec-server transport disconnected: '' @ r
      | None \<Rightarrow> ''exec-server transport disconnected'')"

definition is_transport_closed_error :: "exec_server_error \<Rightarrow> bool" where
  "is_transport_closed_error e =
     (case e of
        TransportClosed \<Rightarrow> True
      | Disconnected _ \<Rightarrow> True
      | ServerError code m \<Rightarrow> code = -32000 \<and> m = ''JSON-RPC transport closed''
      | _ \<Rightarrow> False)"

text \<open>Which errors of the environment registry can be retried depends on the payload, an argument here.\<close>

definition is_retryable_recovery_error :: "(exec_server_error \<Rightarrow> bool) \<Rightarrow> exec_server_error \<Rightarrow> bool" where
  "is_retryable_recovery_error retryable_registry_error e =
     (is_transport_closed_error e
      \<or> (case e of
           WebSocketConnectTimeout _ _ \<Rightarrow> True
         | WebSocketConnect _ _ \<Rightarrow> True
         | InitializeTimedOut _ \<Rightarrow> True
         | _ \<Rightarrow> False)
      \<or> retryable_registry_error e
      \<or> (case e of ServerError code _ \<Rightarrow> code = session_already_attached_error_code | _ \<Rightarrow> False))"

definition session_recovery_timeout :: nat where
  "session_recovery_timeout = 25000"

definition session_recovery_retry_interval :: nat where
  "session_recovery_retry_interval = 100"

definition resume_failed_message :: "string \<Rightarrow> string \<Rightarrow> string" where
  "resume_failed_message disconnect_message last_error =
     disconnect_message @ ''; failed to resume exec-server session: '' @ last_error"

definition recovery_timed_out :: string where
  "recovery_timed_out = ''recovery timed out after 25s''"

subsection \<open>Notifications and the recovery of a process\<close>

datatype process_notification =
  OutputDeltaNote process_output_chunk
| ExitedNote nat int
| ClosedNote nat

fun notification_seq :: "process_notification \<Rightarrow> nat" where
  "notification_seq (OutputDeltaNote c) = poc_seq c"
| "notification_seq (ExitedNote n _) = n"
| "notification_seq (ClosedNote n) = n"

fun notification_event :: "process_notification \<Rightarrow> exec_process_event" where
  "notification_event (OutputDeltaNote c) = Output c"
| "notification_event (ExitedNote n code) = Exited n code"
| "notification_event (ClosedNote n) = Closed n"

text \<open>
  What serde makes of the parameters of the three process notifications, and what the client's routing of HTTP bodies answers
  (\<open>Http_Body\<close>): arguments, since neither changes a session.
\<close>

record notification_decoder =
  nd_output :: "json_value \<Rightarrow> exec_server_error + (process_id \<times> process_output_chunk)"
  nd_exited :: "json_value \<Rightarrow> exec_server_error + (process_id \<times> nat \<times> int)"
  nd_closed :: "json_value \<Rightarrow> exec_server_error + (process_id \<times> nat)"
  nd_http_body_delta :: "json_value option \<Rightarrow> exec_server_error + unit"

definition json_params :: "jsonrpc_notification \<Rightarrow> json_value" where
  "json_params n = (case jn_params n of Some v \<Rightarrow> v | None \<Rightarrow> JNull)"

text \<open>The process and the content of a notification; nothing for one that no session is told of.\<close>

definition decode_notification ::
  "notification_decoder \<Rightarrow> jsonrpc_notification \<Rightarrow> exec_server_error + (process_id \<times> process_notification) option" where
  "decode_notification decode n =
     (if jn_method n = ''process/output'' then
        (case nd_output decode (json_params n) of
           Inl e \<Rightarrow> Inl e | Inr (pid, c) \<Rightarrow> Inr (Some (pid, OutputDeltaNote c)))
      else if jn_method n = ''process/exited'' then
        (case nd_exited decode (json_params n) of
           Inl e \<Rightarrow> Inl e | Inr (pid, s, code) \<Rightarrow> Inr (Some (pid, ExitedNote s code)))
      else if jn_method n = ''process/closed'' then
        (case nd_closed decode (json_params n) of
           Inl e \<Rightarrow> Inl e | Inr (pid, s) \<Rightarrow> Inr (Some (pid, ClosedNote s)))
      else if jn_method n = ''http/request/bodyDelta'' then
        (case nd_http_body_delta decode (jn_params n) of Inl e \<Rightarrow> Inl e | Inr _ \<Rightarrow> Inr None)
      else Inr None)"

definition handle_server_notification ::
  "notification_decoder \<Rightarrow> jsonrpc_notification \<Rightarrow> client_sessions \<Rightarrow> (exec_server_error + unit) \<times> client_sessions" where
  "handle_server_notification decode n s =
     (case decode_notification decode n of
        Inl e \<Rightarrow> (Inl e, s)
      | Inr None \<Rightarrow> (Inr (), s)
      | Inr (Some (pid, pn)) \<Rightarrow>
          (case get_session pid s of
             None \<Rightarrow> (Inr (), s)
           | Some idx \<Rightarrow>
               (case publish_ordered_event (notification_event pn) (note_change (notification_seq pn) (cs_states s ! idx)) of
                  (published_closed, st) \<Rightarrow>
                    (Inr (), if published_closed then remove_session_if pid idx (update_session idx (\<lambda>_. st) s)
                             else update_session idx (\<lambda>_. st) s))))"

text \<open>One turn of \<^verbatim>\<open>recover_processes\<close>: what \<^verbatim>\<open>process/read\<close> and \<^verbatim>\<open>process/terminate\<close> answered are arguments.\<close>

definition recover_process ::
  "process_id \<times> nat \<Rightarrow> exec_server_error + read_response \<Rightarrow> exec_server_error + unit \<Rightarrow> client_sessions
     \<Rightarrow> (exec_server_error + unit) \<times> client_sessions" where
  "recover_process = (\<lambda>(pid, idx) response terminated s.
     if \<not> ss_recoverable (cs_states s ! idx) then (Inr (), s)
     else
       case (case response of
               Inr resp \<Rightarrow> Inr (recover_events resp (cs_states s ! idx))
             | Inl e \<Rightarrow> if is_transport_closed_error e then Inl e else Inr (Inl e, cs_states s ! idx)) of
         Inl e \<Rightarrow> (Inl e, s)
       | Inr (Inr published_closed, st) \<Rightarrow>
           (Inr (), if published_closed then remove_session_if pid idx (update_session idx (\<lambda>_. st) s)
                    else update_session idx (\<lambda>_. st) s)
       | Inr (Inl e, st) \<Rightarrow>
           (let s1 = update_session idx (\<lambda>_. st) s
            in case terminated of
                 Inl te \<Rightarrow>
                   if is_transport_closed_error te then (Inl te, s1)
                   else (Inr (), update_session idx
                          (set_failure (''failed to recover process '' @ pid @ '': '' @ show_exec_server_error e))
                          (remove_session_if pid idx s1))
               | Inr _ \<Rightarrow>
                   (Inr (), update_session idx
                      (set_failure (''failed to recover process '' @ pid @ '': '' @ show_exec_server_error e))
                      (remove_session_if pid idx s1))))"

subsection \<open>The tasks\<close>

text \<open>What the client sees of one \<^verbatim>\<open>RpcClient\<close>: how it moves, whether it is disconnected, and its events so far.\<close>

record 'r rpc_link =
  lk_new :: "'r \<Rightarrow> bool"
  lk_step :: "'r \<Rightarrow> 'r \<Rightarrow> bool"
  lk_close :: "'r \<Rightarrow> 'r"
  lk_disconnected :: "'r \<Rightarrow> bool"
  lk_events :: "'r \<Rightarrow> rpc_client_event list"

text \<open>
  The task of \<^verbatim>\<open>spawn_rpc_reader\<close>: it has handled so many events, has closed the transport after a bad notification
  and will request a recovery with the message, or is over.
\<close>

datatype watcher = Watching nat | WatchClosing string | WatchDone

text \<open>The task of \<^verbatim>\<open>recover\<close>; numbers are the candidate's position among the JSON-RPC clients and instants.\<close>

datatype recovery_phase =
  RecoverSpawned
| WaitStarts
| Resume
| ResumeInit nat
| ResumeProcs nat "(process_id \<times> nat) list"
| ResumeDone nat
| RetrySleep nat
| FailWith string
| FailDrain string
| FailSessions string "nat list"
| RecoveryOver

record recovery_task =
  rt_message :: string
  rt_deadline :: nat
  rt_attempts :: nat
  rt_phase :: recovery_phase

text \<open>
  A call of \<^verbatim>\<open>start_process\<close>. From \<open>StartBegun\<close> to the end of \<open>StartAnswered\<close>, \<open>StartLost\<close> and \<open>StartRejected\<close> it counts as
  active; \<open>StartInserting\<close> holds the sessions' write lock.
\<close>

datatype start_phase =
  StartWait
| StartHasClient nat
| StartBegun
| StartInserting nat
| StartCalling nat
| StartAnswered nat
| StartLost nat
| StartRejected
| StartRunning nat
| StartCleanup nat
| StartOver

record start_task =
  sk_process_id :: process_id
  sk_phase :: start_phase

record 'r client_system =
  sy_connection :: connection_state
  sy_sessions :: client_sessions
  sy_write_lock :: "nat option"
  sy_session_id :: "string option"
  sy_reconnect :: bool
  sy_rpcs :: "'r list"
  sy_watchers :: "watcher list"
  sy_recoveries :: "recovery_task list"
  sy_starts :: "start_task list"
  sy_now :: nat

definition recover_requested :: "nat \<Rightarrow> string \<Rightarrow> 'r client_system \<Rightarrow> 'r client_system" where
  "recover_requested i message s =
     (case request_recovery i (sy_connection s) of
        (True, c) \<Rightarrow>
          s\<lparr>sy_connection := c, sy_recoveries := sy_recoveries s @
             [\<lparr>rt_message = message, rt_deadline = 0, rt_attempts = 0, rt_phase = RecoverSpawned\<rparr>]\<rparr>
      | (False, c) \<Rightarrow> s\<lparr>sy_connection := c\<rparr>)"

text \<open>What a recovery task does between two waits.\<close>

definition recover_begin :: "nat \<Rightarrow> recovery_task \<Rightarrow> recovery_task" where
  "recover_begin now t = t\<lparr>rt_deadline := now + session_recovery_timeout, rt_phase := WaitStarts\<rparr>"

definition starts_done :: "bool \<Rightarrow> string option \<Rightarrow> recovery_task \<Rightarrow> recovery_task" where
  "starts_done reconnect session_id t =
     t\<lparr>rt_phase :=
        (if \<not> reconnect then FailWith (rt_message t)
         else if session_id = None then FailWith (resume_failed_message (rt_message t) ''missing session id'')
         else Resume)\<rparr>"

definition recover_timed_out :: "recovery_task \<Rightarrow> recovery_task" where
  "recover_timed_out t = t\<lparr>rt_phase := FailWith (resume_failed_message (rt_message t) recovery_timed_out)\<rparr>"

definition recover_retry :: "nat \<Rightarrow> recovery_task \<Rightarrow> recovery_task" where
  "recover_retry now t =
     (if now \<ge> rt_deadline t then recover_timed_out t
      else t\<lparr>rt_phase := RetrySleep (now + min session_recovery_retry_interval (rt_deadline t - now))\<rparr>)"

definition resume_error :: "(exec_server_error \<Rightarrow> bool) \<Rightarrow> nat \<Rightarrow> exec_server_error \<Rightarrow> recovery_task \<Rightarrow> recovery_task" where
  "resume_error retryable now e t =
     (if is_retryable_recovery_error retryable e then recover_retry now t
      else t\<lparr>rt_phase := FailWith (resume_failed_message (rt_message t) (show_exec_server_error e))\<rparr>)"

definition set_recovery :: "nat \<Rightarrow> recovery_task \<Rightarrow> 'r client_system \<Rightarrow> 'r client_system" where
  "set_recovery j t s = s\<lparr>sy_recoveries := (sy_recoveries s)[j := t]\<rparr>"

definition set_phase :: "nat \<Rightarrow> recovery_phase \<Rightarrow> 'r client_system \<Rightarrow> 'r client_system" where
  "set_phase j p s = set_recovery j ((sy_recoveries s ! j)\<lparr>rt_phase := p\<rparr>) s"

definition set_start :: "nat \<Rightarrow> start_phase \<Rightarrow> 'r client_system \<Rightarrow> 'r client_system" where
  "set_start k p s = s\<lparr>sy_starts := (sy_starts s)[k := (sy_starts s ! k)\<lparr>sk_phase := p\<rparr>]\<rparr>"

definition candidate_connected :: "nat \<Rightarrow> 'r \<Rightarrow> 'r client_system \<Rightarrow> 'r client_system" where
  "candidate_connected j r s =
     set_recovery j ((sy_recoveries s ! j)\<lparr>rt_attempts := Suc (rt_attempts (sy_recoveries s ! j)), rt_phase := ResumeInit (length (sy_rpcs s))\<rparr>)
       (s\<lparr>sy_rpcs := sy_rpcs s @ [r], sy_watchers := sy_watchers s @ [Watching 0]\<rparr>)"

definition install_candidate :: "nat \<Rightarrow> nat \<Rightarrow> bool \<Rightarrow> 'r client_system \<Rightarrow> 'r client_system" where
  "install_candidate j i disconnected s =
     (case install_recovered_client i disconnected (sy_connection s) of
        (True, c) \<Rightarrow> set_phase j RecoveryOver (s\<lparr>sy_connection := c\<rparr>)
      | (False, c) \<Rightarrow> set_recovery j (recover_retry (sy_now s) (sy_recoveries s ! j)) (s\<lparr>sy_connection := c\<rparr>))"

definition fail_client :: "nat \<Rightarrow> string \<Rightarrow> 'r client_system \<Rightarrow> 'r client_system" where
  "fail_client j m s =
     (case fail_status m (sy_connection s) of
        ((m', newly_failed), c) \<Rightarrow>
          set_phase j (if newly_failed then FailDrain m' else RecoveryOver) (s\<lparr>sy_connection := c\<rparr>))"

definition drain_sessions :: "nat \<Rightarrow> string \<Rightarrow> 'r client_system \<Rightarrow> 'r client_system" where
  "drain_sessions j m s =
     (case take_all_sessions (sy_sessions s) of (idxs, ss) \<Rightarrow> set_phase j (FailSessions m idxs) (s\<lparr>sy_sessions := ss\<rparr>))"

text \<open>The sections of a process start.\<close>

definition start_begin :: "nat \<Rightarrow> nat \<Rightarrow> bool \<Rightarrow> 'r client_system \<Rightarrow> 'r client_system" where
  "start_begin k i disconnected s =
     (case begin_process_start i disconnected (sy_connection s) of
        (begun, c) \<Rightarrow> set_start k (if begun then StartBegun else StartWait) (s\<lparr>sy_connection := c\<rparr>))"

definition start_check :: "nat \<Rightarrow> 'r client_system \<Rightarrow> 'r client_system" where
  "start_check k s =
     (let s1 = s\<lparr>sy_sessions := (sy_sessions s)\<lparr>cs_states := cs_states (sy_sessions s) @ [session_state_new False]\<rparr>\<rparr>
      in if is_failed (sy_connection s) then set_start k StartRejected s1
         else set_start k (StartInserting (length (cs_states (sy_sessions s)))) (s1\<lparr>sy_write_lock := Some k\<rparr>))"

definition start_insert :: "nat \<Rightarrow> nat \<Rightarrow> 'r client_system \<Rightarrow> 'r client_system" where
  "start_insert k idx s =
     (case insert_session (sk_process_id (sy_starts s ! k)) idx (sy_sessions s) of
        (Inl _, ss) \<Rightarrow> set_start k StartRejected (s\<lparr>sy_sessions := ss, sy_write_lock := None\<rparr>)
      | (Inr _, ss) \<Rightarrow> set_start k (StartCalling idx) (s\<lparr>sy_sessions := ss, sy_write_lock := None\<rparr>))"

definition set_recoverable :: "nat \<Rightarrow> bool \<Rightarrow> client_sessions \<Rightarrow> client_sessions" where
  "set_recoverable idx b = update_session idx (\<lambda>st. st\<lparr>ss_recoverable := b\<rparr>)"

definition start_answered :: "nat \<Rightarrow> nat \<Rightarrow> bool \<Rightarrow> 'r client_system \<Rightarrow> 'r client_system" where
  "start_answered k idx caller_waits s =
     set_start k (if caller_waits then StartAnswered idx else StartLost idx)
       (s\<lparr>sy_sessions := set_recoverable idx caller_waits (sy_sessions s)\<rparr>)"

definition start_rejected :: "nat \<Rightarrow> nat \<Rightarrow> 'r client_system \<Rightarrow> 'r client_system" where
  "start_rejected k idx s =
     set_start k StartRejected (s\<lparr>sy_sessions := remove_session_if (sk_process_id (sy_starts s ! k)) idx (sy_sessions s)\<rparr>)"

fun start_end :: "start_phase \<Rightarrow> start_phase option" where
  "start_end (StartAnswered idx) = Some (StartRunning idx)"
| "start_end (StartLost idx) = Some (StartCleanup idx)"
| "start_end StartRejected = Some StartOver"
| "start_end _ = None"

subsection \<open>All tasks together\<close>

text \<open>A section that changes the table of sessions needs the write lock.\<close>

definition may_write :: "client_sessions \<Rightarrow> 'r client_system \<Rightarrow> bool" where
  "may_write ss s = (cs_table ss = cs_table (sy_sessions s) \<or> sy_write_lock s = None)"

inductive client_step ::
  "'r rpc_link \<Rightarrow> notification_decoder \<Rightarrow> (exec_server_error \<Rightarrow> bool) \<Rightarrow> 'r client_system \<Rightarrow> 'r client_system \<Rightarrow> bool"
  for lk decode retryable where
  link_moves: "i < length (sy_rpcs s) \<Longrightarrow> lk_step lk (sy_rpcs s ! i) r \<Longrightarrow>
    client_step lk decode retryable s (s\<lparr>sy_rpcs := (sy_rpcs s)[i := r]\<rparr>)"
| time_passes: "client_step lk decode retryable s (s\<lparr>sy_now := sy_now s + d\<rparr>)"
| session_named: "sy_session_id s = None \<Longrightarrow> client_step lk decode retryable s (s\<lparr>sy_session_id := Some sid\<rparr>)"
| watch_notification: "i < length (sy_watchers s) \<Longrightarrow> sy_watchers s ! i = Watching k \<Longrightarrow>
    k < length (lk_events lk (sy_rpcs s ! i)) \<Longrightarrow> lk_events lk (sy_rpcs s ! i) ! k = RpcNotification n \<Longrightarrow>
    handle_server_notification decode n (sy_sessions s) = (Inr u, ss) \<Longrightarrow> may_write ss s \<Longrightarrow>
    client_step lk decode retryable s (s\<lparr>sy_sessions := ss, sy_watchers := (sy_watchers s)[i := Watching (Suc k)]\<rparr>)"
| watch_error: "i < length (sy_watchers s) \<Longrightarrow> sy_watchers s ! i = Watching k \<Longrightarrow>
    k < length (lk_events lk (sy_rpcs s ! i)) \<Longrightarrow> lk_events lk (sy_rpcs s ! i) ! k = RpcNotification n \<Longrightarrow>
    handle_server_notification decode n (sy_sessions s) = (Inl e, ss) \<Longrightarrow>
    client_step lk decode retryable s (s\<lparr>sy_rpcs := (sy_rpcs s)[i := lk_close lk (sy_rpcs s ! i)],
      sy_watchers := (sy_watchers s)[i := WatchClosing (''exec-server notification handling failed: '' @ show_exec_server_error e)]\<rparr>)"
| watch_closed: "i < length (sy_watchers s) \<Longrightarrow> sy_watchers s ! i = WatchClosing m \<Longrightarrow>
    client_step lk decode retryable s (recover_requested i m (s\<lparr>sy_watchers := (sy_watchers s)[i := WatchDone]\<rparr>))"
| watch_disconnected: "i < length (sy_watchers s) \<Longrightarrow> sy_watchers s ! i = Watching k \<Longrightarrow>
    k < length (lk_events lk (sy_rpcs s ! i)) \<Longrightarrow> lk_events lk (sy_rpcs s ! i) ! k = RpcDisconnected reason \<Longrightarrow>
    client_step lk decode retryable s
      (recover_requested i (disconnected_message reason) (s\<lparr>sy_watchers := (sy_watchers s)[i := WatchDone]\<rparr>))"
| recover_begins: "j < length (sy_recoveries s) \<Longrightarrow> rt_phase (sy_recoveries s ! j) = RecoverSpawned \<Longrightarrow>
    client_step lk decode retryable s (set_recovery j (recover_begin (sy_now s) (sy_recoveries s ! j)) s)"
| starts_end: "j < length (sy_recoveries s) \<Longrightarrow> rt_phase (sy_recoveries s ! j) = WaitStarts \<Longrightarrow>
    cn_active_process_starts (sy_connection s) = 0 \<Longrightarrow>
    client_step lk decode retryable s
      (set_recovery j (starts_done (sy_reconnect s) (sy_session_id s) (sy_recoveries s ! j)) s)"
| recover_times_out: "j < length (sy_recoveries s) \<Longrightarrow>
    (case rt_phase (sy_recoveries s ! j) of WaitStarts \<Rightarrow> True | Resume \<Rightarrow> True | ResumeInit _ \<Rightarrow> True | ResumeProcs _ _ \<Rightarrow> True | _ \<Rightarrow> False) \<Longrightarrow>
    sy_now s \<ge> rt_deadline (sy_recoveries s ! j) \<Longrightarrow>
    client_step lk decode retryable s (set_recovery j (recover_timed_out (sy_recoveries s ! j)) s)"
| resume_connects: "j < length (sy_recoveries s) \<Longrightarrow> rt_phase (sy_recoveries s ! j) = Resume \<Longrightarrow> lk_new lk r \<Longrightarrow>
    client_step lk decode retryable s (candidate_connected j r s)"
| resume_unconnected: "j < length (sy_recoveries s) \<Longrightarrow> rt_phase (sy_recoveries s ! j) = Resume \<Longrightarrow>
    client_step lk decode retryable s
      (set_recovery j (resume_error retryable (sy_now s) e
        ((sy_recoveries s ! j)\<lparr>rt_attempts := Suc (rt_attempts (sy_recoveries s ! j))\<rparr>)) s)"
| resume_initialized: "j < length (sy_recoveries s) \<Longrightarrow> rt_phase (sy_recoveries s ! j) = ResumeInit i \<Longrightarrow>
    client_step lk decode retryable s (set_phase j (ResumeProcs i (cs_table (sy_sessions s))) s)"
| resume_init_failed: "j < length (sy_recoveries s) \<Longrightarrow> rt_phase (sy_recoveries s ! j) = ResumeInit i \<Longrightarrow>
    client_step lk decode retryable s (set_recovery j (resume_error retryable (sy_now s) e (sy_recoveries s ! j)) s)"
| process_recovered: "j < length (sy_recoveries s) \<Longrightarrow> rt_phase (sy_recoveries s ! j) = ResumeProcs i (p # ps) \<Longrightarrow>
    recover_process p response terminated (sy_sessions s) = (Inr u, ss) \<Longrightarrow> may_write ss s \<Longrightarrow>
    client_step lk decode retryable s (set_phase j (ResumeProcs i ps) (s\<lparr>sy_sessions := ss\<rparr>))"
| process_unrecovered: "j < length (sy_recoveries s) \<Longrightarrow> rt_phase (sy_recoveries s ! j) = ResumeProcs i (p # ps) \<Longrightarrow>
    recover_process p response terminated (sy_sessions s) = (Inl e, ss) \<Longrightarrow> may_write ss s \<Longrightarrow>
    client_step lk decode retryable s
      (set_recovery j (resume_error retryable (sy_now s) e (sy_recoveries s ! j)) (s\<lparr>sy_sessions := ss\<rparr>))"
| resume_ends: "j < length (sy_recoveries s) \<Longrightarrow> rt_phase (sy_recoveries s ! j) = ResumeProcs i [] \<Longrightarrow>
    client_step lk decode retryable s (set_phase j (ResumeDone i) s)"
| install: "j < length (sy_recoveries s) \<Longrightarrow> rt_phase (sy_recoveries s ! j) = ResumeDone i \<Longrightarrow>
    client_step lk decode retryable s (install_candidate j i (lk_disconnected lk (sy_rpcs s ! i)) s)"
| retry_wakes: "j < length (sy_recoveries s) \<Longrightarrow> rt_phase (sy_recoveries s ! j) = RetrySleep until \<Longrightarrow> sy_now s \<ge> until \<Longrightarrow>
    client_step lk decode retryable s (set_phase j Resume s)"
| client_fails: "j < length (sy_recoveries s) \<Longrightarrow> rt_phase (sy_recoveries s ! j) = FailWith m \<Longrightarrow>
    client_step lk decode retryable s (fail_client j m s)"
| sessions_drained: "j < length (sy_recoveries s) \<Longrightarrow> rt_phase (sy_recoveries s ! j) = FailDrain m \<Longrightarrow> sy_write_lock s = None \<Longrightarrow>
    client_step lk decode retryable s (drain_sessions j m s)"
| session_failed: "j < length (sy_recoveries s) \<Longrightarrow> rt_phase (sy_recoveries s ! j) = FailSessions m (idx # idxs) \<Longrightarrow>
    client_step lk decode retryable s
      (set_phase j (FailSessions m idxs) (s\<lparr>sy_sessions := update_session idx (set_failure m) (sy_sessions s)\<rparr>))"
| recovery_ends: "j < length (sy_recoveries s) \<Longrightarrow> rt_phase (sy_recoveries s ! j) = FailSessions m [] \<Longrightarrow>
    client_step lk decode retryable s (set_phase j RecoveryOver s)"
| start_called: "client_step lk decode retryable s (s\<lparr>sy_starts := sy_starts s @ [\<lparr>sk_process_id = pid, sk_phase = StartWait\<rparr>]\<rparr>)"
| start_has_client: "k < length (sy_starts s) \<Longrightarrow> sk_phase (sy_starts s ! k) = StartWait \<Longrightarrow>
    cn_status (sy_connection s) = Connected i \<Longrightarrow> \<not> lk_disconnected lk (sy_rpcs s ! i) \<Longrightarrow>
    client_step lk decode retryable s (set_start k (StartHasClient i) s)"
| start_client_failed: "k < length (sy_starts s) \<Longrightarrow> sk_phase (sy_starts s ! k) = StartWait \<Longrightarrow> is_failed (sy_connection s) \<Longrightarrow>
    client_step lk decode retryable s (set_start k StartOver s)"
| start_begins: "k < length (sy_starts s) \<Longrightarrow> sk_phase (sy_starts s ! k) = StartHasClient i \<Longrightarrow>
    client_step lk decode retryable s (start_begin k i (lk_disconnected lk (sy_rpcs s ! i)) s)"
| start_checks: "k < length (sy_starts s) \<Longrightarrow> sk_phase (sy_starts s ! k) = StartBegun \<Longrightarrow> sy_write_lock s = None \<Longrightarrow>
    client_step lk decode retryable s (start_check k s)"
| start_inserts: "k < length (sy_starts s) \<Longrightarrow> sk_phase (sy_starts s ! k) = StartInserting idx \<Longrightarrow>
    client_step lk decode retryable s (start_insert k idx s)"
| start_answers: "k < length (sy_starts s) \<Longrightarrow> sk_phase (sy_starts s ! k) = StartCalling idx \<Longrightarrow>
    client_step lk decode retryable s (start_answered k idx caller_waits s)"
| start_lost: "k < length (sy_starts s) \<Longrightarrow> sk_phase (sy_starts s ! k) = StartCalling idx \<Longrightarrow>
    client_step lk decode retryable s (set_start k (StartLost idx) s)"
| start_rejects: "k < length (sy_starts s) \<Longrightarrow> sk_phase (sy_starts s ! k) = StartCalling idx \<Longrightarrow> sy_write_lock s = None \<Longrightarrow>
    client_step lk decode retryable s (start_rejected k idx s)"
| start_ends: "k < length (sy_starts s) \<Longrightarrow> start_end (sk_phase (sy_starts s ! k)) = Some p \<Longrightarrow>
    client_step lk decode retryable s (set_start k p (s\<lparr>sy_connection := finish_process_start (sy_connection s)\<rparr>))"
| session_removed: "k < length (sy_starts s) \<Longrightarrow>
    sk_phase (sy_starts s ! k) = StartRunning idx \<or> sk_phase (sy_starts s ! k) = StartCleanup idx \<Longrightarrow> sy_write_lock s = None \<Longrightarrow>
    client_step lk decode retryable s
      (set_start k StartOver (s\<lparr>sy_sessions := remove_session_if (sk_process_id (sy_starts s ! k)) idx (sy_sessions s)\<rparr>))"

definition client_start :: "'r rpc_link \<Rightarrow> 'r client_system \<Rightarrow> bool" where
  "client_start lk s \<longleftrightarrow>
     (\<exists>r reconnect now. lk_new lk r \<and>
        s = \<lparr>sy_connection = \<lparr>cn_status = Connected 0, cn_active_process_starts = 0\<rparr>,
             sy_sessions = \<lparr>cs_table = [], cs_states = []\<rparr>, sy_write_lock = None, sy_session_id = None, sy_reconnect = reconnect,
             sy_rpcs = [r], sy_watchers = [Watching 0], sy_recoveries = [], sy_starts = [], sy_now = now\<rparr>)"

subsection \<open>One recovery at a time, and none while processes start\<close>

definition count_if :: "('a \<Rightarrow> bool) \<Rightarrow> 'a list \<Rightarrow> nat" where
  "count_if P xs = length (filter P xs)"

lemma count_if_append [simp]: "count_if P (xs @ [x]) = count_if P xs + (if P x then 1 else 0)" "count_if P [] = 0"
  by (simp_all add: count_if_def)

lemma count_if_pos: "j < length xs \<Longrightarrow> P (xs ! j) \<Longrightarrow> count_if P xs > 0"
  unfolding count_if_def by (simp add: filter_empty_conv) (use nth_mem in blast)

lemma count_if_update:
  "j < length xs \<Longrightarrow> count_if P (xs[j := x]) = count_if P xs + (if P x then 1 else 0) - (if P (xs ! j) then 1 else 0)"
proof (induction xs arbitrary: j)
  case (Cons y ys)
  then show ?case using count_if_pos [of _ ys P] by (cases j) (auto simp: count_if_def Suc_diff_le)
qed simp

lemma count_if_zero: "count_if P xs = 0 \<Longrightarrow> x \<in> set xs \<Longrightarrow> \<not> P x"
  by (auto simp: count_if_def filter_empty_conv)

fun live :: "recovery_phase \<Rightarrow> bool" where
  "live (FailDrain _) = False"
| "live (FailSessions _ _) = False"
| "live RecoveryOver = False"
| "live _ = True"

fun resuming :: "recovery_phase \<Rightarrow> bool" where
  "resuming Resume = True"
| "resuming (ResumeInit _) = True"
| "resuming (ResumeProcs _ _) = True"
| "resuming (ResumeDone _) = True"
| "resuming (RetrySleep _) = True"
| "resuming _ = False"

fun starting :: "start_phase \<Rightarrow> bool" where
  "starting StartBegun = True"
| "starting (StartInserting _) = True"
| "starting (StartCalling _) = True"
| "starting (StartAnswered _) = True"
| "starting (StartLost _) = True"
| "starting StartRejected = True"
| "starting _ = False"

abbreviation recovery_at :: "'r client_system \<Rightarrow> nat \<Rightarrow> recovery_phase" where
  "recovery_at s j \<equiv> rt_phase (sy_recoveries s ! j)"

abbreviation start_at :: "'r client_system \<Rightarrow> nat \<Rightarrow> start_phase" where
  "start_at s k \<equiv> sk_phase (sy_starts s ! k)"

abbreviation status_of :: "'r client_system \<Rightarrow> connection_status" where
  "status_of s \<equiv> cn_status (sy_connection s)"

abbreviation starts_of :: "'r client_system \<Rightarrow> nat" where
  "starts_of s \<equiv> cn_active_process_starts (sy_connection s)"

definition recovery_inv :: "'r client_system \<Rightarrow> bool" where
  "recovery_inv s \<longleftrightarrow>
     count_if (\<lambda>t. live (rt_phase t)) (sy_recoveries s) = (if status_of s = Recovering then 1 else 0)
     \<and> starts_of s = count_if (\<lambda>t. starting (sk_phase t)) (sy_starts s)
     \<and> (\<forall>t \<in> set (sy_recoveries s). resuming (rt_phase t) \<longrightarrow> starts_of s = 0)
     \<and> (\<forall>t \<in> set (sy_recoveries s). \<not> live (rt_phase t) \<and> rt_phase t \<noteq> RecoveryOver \<longrightarrow> is_failed (sy_connection s))"

lemma recovery_live:
  assumes "recovery_inv s" and "j < length (sy_recoveries s)" and "live (recovery_at s j)"
  shows "status_of s = Recovering" and "count_if (\<lambda>t. live (rt_phase t)) (sy_recoveries s) = 1"
  using assms count_if_pos [of j "sy_recoveries s" "\<lambda>t. live (rt_phase t)"]
  by (auto simp: recovery_inv_def split: if_splits)

lemmas connection_defs = begin_process_start_def finish_process_start_def request_recovery_def install_recovered_client_def
  fail_status_def is_failed_def failure_message_def

text \<open>A step of recovery task \<open>j\<close> from one phase before the end to another keeps the invariant.\<close>

lemma recovery_inv_task:
  assumes "recovery_inv s" and "j < length (sy_recoveries s)" and "live (recovery_at s j)" and "live (rt_phase t)"
    and "resuming (rt_phase t) \<Longrightarrow> starts_of s = 0"
    and "sy_recoveries s' = (sy_recoveries s)[j := t]" and "sy_connection s' = sy_connection s" and "sy_starts s' = sy_starts s"
  shows "recovery_inv s'"
  using assms set_update_subset_insert [of "sy_recoveries s" j t] unfolding recovery_inv_def
  by (auto simp: count_if_update)

lemma recovery_inv_frame:
  assumes "recovery_inv s" and "sy_recoveries s' = sy_recoveries s" and "sy_connection s' = sy_connection s"
    and "sy_starts s' = sy_starts s"
  shows "recovery_inv s'"
  using assms unfolding recovery_inv_def by auto

lemma recovery_inv_start:
  assumes "recovery_inv s" and "k < length (sy_starts s)"
    and "sy_starts s' = (sy_starts s)[k := (sy_starts s ! k)\<lparr>sk_phase := p\<rparr>]" and "starting p = starting (start_at s k)"
    and "sy_recoveries s' = sy_recoveries s" and "sy_connection s' = sy_connection s"
  shows "recovery_inv s'"
  using assms unfolding recovery_inv_def by (auto simp: count_if_update)

lemma recover_phase_simps:
  "live (rt_phase (recover_retry now t))" "resuming (rt_phase (recover_retry now t)) \<Longrightarrow> now < rt_deadline t"
  "live (rt_phase (resume_error retryable now e t))"
  "live (rt_phase (starts_done b sid t))" "live (rt_phase (recover_timed_out t))" "live (rt_phase (recover_begin now t))"
  "\<not> resuming (rt_phase (recover_timed_out t))" "\<not> resuming (rt_phase (recover_begin now t))"
  by (auto simp: recover_retry_def resume_error_def starts_done_def recover_timed_out_def recover_begin_def split: if_splits)

lemma recovery_inv_requested:
  assumes "recovery_inv s"
  shows "recovery_inv (recover_requested i m (s\<lparr>sy_watchers := w\<rparr>))"
proof (cases "status_of s = Connected i")
  case True
  then show ?thesis
    using assms by (auto simp: recover_requested_def request_recovery_def recovery_inv_def is_failed_def failure_message_def)
next
  case False
  then show ?thesis using assms by (auto intro: recovery_inv_frame simp: recover_requested_def request_recovery_def)
qed

lemma recovery_inv_install:
  assumes inv: "recovery_inv s" and j: "j < length (sy_recoveries s)" "recovery_at s j = ResumeDone i"
  shows "recovery_inv (install_candidate j i disconnected s)"
proof -
  have live: "live (recovery_at s j)" using j(2) by simp
  note r = recovery_live [OF inv j(1) live]
  have starts: "starts_of s = 0" using inv j nth_mem [OF j(1)] unfolding recovery_inv_def by (metis resuming.simps(4))
  show ?thesis
  proof (cases disconnected)
    case True
    then show ?thesis
      using starts r(1) by (intro recovery_inv_task [OF inv j(1) live, of "recover_retry (sy_now s) (sy_recoveries s ! j)"])
        (simp_all add: recover_phase_simps install_candidate_def install_recovered_client_def set_recovery_def)
  next
    case False
    have "count_if (\<lambda>t. live (rt_phase t)) ((sy_recoveries s)[j := (sy_recoveries s ! j)\<lparr>rt_phase := RecoveryOver\<rparr>]) = 0"
      using r(2) live j(1) by (simp add: count_if_update)
    then show ?thesis
      using False r inv starts set_update_subset_insert [of "sy_recoveries s" j "(sy_recoveries s ! j)\<lparr>rt_phase := RecoveryOver\<rparr>"]
      by (auto simp: install_candidate_def install_recovered_client_def recovery_inv_def set_phase_def set_recovery_def
          is_failed_def failure_message_def)
  qed
qed

lemma recovery_inv_fail:
  assumes inv: "recovery_inv s" and j: "j < length (sy_recoveries s)" "recovery_at s j = FailWith m"
  shows "recovery_inv (fail_client j m s)"
proof -
  have live: "live (recovery_at s j)" using j(2) by simp
  note r = recovery_live [OF inv j(1) live]
  have "count_if (\<lambda>t. live (rt_phase t)) ((sy_recoveries s)[j := (sy_recoveries s ! j)\<lparr>rt_phase := FailDrain m\<rparr>]) = 0"
    using r(2) live j(1) by (simp add: count_if_update)
  then show ?thesis
    using r inv set_update_subset_insert [of "sy_recoveries s" j "(sy_recoveries s ! j)\<lparr>rt_phase := FailDrain m\<rparr>"]
    by (auto simp: fail_client_def fail_status_def recovery_inv_def set_phase_def set_recovery_def is_failed_def failure_message_def)
qed

lemma recovery_inv_failing:
  assumes inv: "recovery_inv s" and j: "j < length (sy_recoveries s)" "\<not> live (recovery_at s j)" "\<not> live p" "recovery_at s j \<noteq> RecoveryOver"
    and s': "sy_recoveries s' = (sy_recoveries s)[j := (sy_recoveries s ! j)\<lparr>rt_phase := p\<rparr>]" "sy_connection s' = sy_connection s"
      "sy_starts s' = sy_starts s"
  shows "recovery_inv s'"
proof -
  have "\<not> resuming p" using j(3) by (cases p) auto
  then show ?thesis
    using inv j nth_mem [OF j(1)] set_update_subset_insert [of "sy_recoveries s" j "(sy_recoveries s ! j)\<lparr>rt_phase := p\<rparr>"]
    unfolding recovery_inv_def s' by (auto simp: count_if_update)
qed

lemma recovery_inv_start_begin:
  assumes inv: "recovery_inv s" and k: "k < length (sy_starts s)" "start_at s k = StartHasClient i"
  shows "recovery_inv (start_begin k i disconnected s)"
proof (cases "status_of s = Connected i \<and> \<not> disconnected")
  case True
  then have "\<not> live (rt_phase t)" if "t \<in> set (sy_recoveries s)" for t
    using inv that count_if_zero [of "\<lambda>t. live (rt_phase t)"] by (auto simp: recovery_inv_def)
  then have "\<not> resuming (rt_phase t)" if "t \<in> set (sy_recoveries s)" for t
    using that by (cases "rt_phase t") force+
  then show ?thesis
    using True inv k
    by (auto simp: start_begin_def begin_process_start_def recovery_inv_def set_start_def count_if_update is_failed_def failure_message_def)
next
  case False
  then have "start_begin k i disconnected s = set_start k StartWait s"
    by (auto simp: start_begin_def begin_process_start_def split: connection_status.splits)
  moreover have "recovery_inv (set_start k StartWait s)"
    by (rule recovery_inv_start [OF inv k(1), of _ StartWait]) (simp_all add: set_start_def k(2))
  ultimately show ?thesis by simp
qed

lemma recovery_inv_start_end:
  assumes inv: "recovery_inv s" and k: "k < length (sy_starts s)" "start_end (start_at s k) = Some p"
  shows "recovery_inv (set_start k p (s\<lparr>sy_connection := finish_process_start (sy_connection s)\<rparr>))"
proof -
  have p: "starting (start_at s k)" "\<not> starting p" using k(2) by (cases "start_at s k"; auto)+
  have "starts_of s > 0" using inv count_if_pos [of k "sy_starts s" "\<lambda>t. starting (sk_phase t)"] k(1) p(1)
    by (simp add: recovery_inv_def)
  then show ?thesis
    using inv k(1) p by (auto simp: recovery_inv_def set_start_def finish_process_start_def count_if_update is_failed_def
        failure_message_def)
qed

lemma resume_starts:
  assumes "recovery_inv s" and "j < length (sy_recoveries s)" and "resuming (recovery_at s j)"
  shows "starts_of s = 0"
  using assms nth_mem [OF assms(2)] unfolding recovery_inv_def by blast

lemma resuming_live: "resuming p \<Longrightarrow> live p"
  by (cases p) auto

text \<open>Steps of a recovery that is resuming stay in the recovery, with no process start in flight.\<close>

lemma recovery_inv_resuming:
  assumes "recovery_inv s" and "j < length (sy_recoveries s)" and "resuming (recovery_at s j)" and "live (rt_phase t)"
    and "sy_recoveries s' = (sy_recoveries s)[j := t]" and "sy_connection s' = sy_connection s" and "sy_starts s' = sy_starts s"
  shows "recovery_inv s'"
  by (rule recovery_inv_task [OF assms(1,2) resuming_live [OF assms(3)] assms(4) _ assms(5-7)])
    (rule resume_starts [OF assms(1-3)])

lemma recovery_inv_timed_out:
  assumes "recovery_inv s" and "j < length (sy_recoveries s)" and "live (recovery_at s j)"
  shows "recovery_inv (set_recovery j (recover_timed_out (sy_recoveries s ! j)) s)"
  by (rule recovery_inv_task [OF assms]) (simp_all add: recover_phase_simps set_recovery_def)

lemmas recovery_step_defs = set_recovery_def set_phase_def candidate_connected_def drain_sessions_def take_all_sessions_def
  recover_phase_simps

lemmas start_step_defs = set_start_def start_check_def start_insert_def start_answered_def start_rejected_def

lemma start_insert_cases:
  obtains p ss where "start_insert k idx s = set_start k p (s\<lparr>sy_sessions := ss, sy_write_lock := None\<rparr>)"
    "p = StartRejected \<or> p = StartCalling idx"
proof (cases "hm_contains (sk_process_id (sy_starts s ! k)) (cs_table (sy_sessions s))")
  case True
  then show ?thesis using that [of StartRejected "sy_sessions s"] by (simp add: start_insert_def insert_session_def)
next
  case False
  then show ?thesis
    using that [of "StartCalling idx" "(sy_sessions s)\<lparr>cs_table := hm_insert (sk_process_id (sy_starts s ! k)) idx (cs_table (sy_sessions s))\<rparr>"]
    by (simp add: start_insert_def insert_session_def)
qed

lemma recovery_inv_step:
  assumes "client_step lk decode retryable s t" and inv: "recovery_inv s"
  shows "recovery_inv t"
  using assms(1)
proof cases
  case (recover_begins j)
  then show ?thesis
    by (auto intro!: recovery_inv_task [OF inv recover_begins(2)] simp: recovery_step_defs)
next
  case (starts_end j)
  then show ?thesis
    by (auto intro!: recovery_inv_task [OF inv starts_end(2)] simp: recovery_step_defs)
next
  case (recover_times_out j)
  then have "live (recovery_at s j)" by (auto split: recovery_phase.splits)
  then show ?thesis using recovery_inv_timed_out [OF inv recover_times_out(2)] recover_times_out(1) by simp
next
  case (resume_connects j r)
  then show ?thesis by (auto intro!: recovery_inv_resuming [OF inv resume_connects(2)] simp: recovery_step_defs)
next
  case (resume_unconnected j e)
  then show ?thesis by (auto intro!: recovery_inv_resuming [OF inv resume_unconnected(2)] simp: recovery_step_defs)
next
  case (resume_initialized j i)
  then show ?thesis by (auto intro!: recovery_inv_resuming [OF inv resume_initialized(2)] simp: recovery_step_defs)
next
  case (resume_init_failed j i e)
  then show ?thesis by (auto intro!: recovery_inv_resuming [OF inv resume_init_failed(2)] simp: recovery_step_defs)
next
  case (process_recovered j i p ps response terminated u ss)
  then show ?thesis by (auto intro!: recovery_inv_resuming [OF inv process_recovered(2)] simp: recovery_step_defs)
next
  case (process_unrecovered j i p ps response terminated e ss)
  then show ?thesis by (auto intro!: recovery_inv_resuming [OF inv process_unrecovered(2)] simp: recovery_step_defs)
next
  case (resume_ends j i)
  then show ?thesis by (auto intro!: recovery_inv_resuming [OF inv resume_ends(2)] simp: recovery_step_defs)
next
  case (retry_wakes j until)
  then show ?thesis by (auto intro!: recovery_inv_resuming [OF inv retry_wakes(2)] simp: recovery_step_defs)
next
  case (sessions_drained j m)
  then show ?thesis by (auto intro!: recovery_inv_failing [OF inv sessions_drained(2)] simp: recovery_step_defs)
next
  case (session_failed j m idx idxs)
  then show ?thesis by (auto intro!: recovery_inv_failing [OF inv session_failed(2)] simp: recovery_step_defs)
next
  case (recovery_ends j m)
  then show ?thesis by (auto intro!: recovery_inv_failing [OF inv recovery_ends(2)] simp: recovery_step_defs)
next
  case (start_called pid)
  then show ?thesis using inv by (auto simp: recovery_inv_def)
next
  case (start_inserts k idx)
  obtain p ss where p: "start_insert k idx s = set_start k p (s\<lparr>sy_sessions := ss, sy_write_lock := None\<rparr>)"
    "p = StartRejected \<or> p = StartCalling idx" by (rule start_insert_cases)
  show ?thesis
    by (rule recovery_inv_start [OF inv start_inserts(2), of _ p]) (use start_inserts p in \<open>auto simp: set_start_def\<close>)
next
  case (start_checks k)
  let ?p = "if is_failed (sy_connection s) then StartRejected else StartInserting (length (cs_states (sy_sessions s)))"
  show ?thesis
    by (rule recovery_inv_start [OF inv start_checks(2), of _ ?p]) (use start_checks in \<open>auto simp: start_step_defs Let_def\<close>)
next
  case (start_answers k idx caller_waits)
  then show ?thesis by (auto intro!: recovery_inv_start [OF inv start_answers(2)] simp: start_step_defs)
next
  case (start_has_client k i)
  then show ?thesis by (auto intro!: recovery_inv_start [OF inv start_has_client(2)] simp: start_step_defs)
next
  case (start_client_failed k)
  then show ?thesis by (auto intro!: recovery_inv_start [OF inv start_client_failed(2)] simp: start_step_defs)
next
  case (start_lost k idx)
  then show ?thesis by (auto intro!: recovery_inv_start [OF inv start_lost(2)] simp: start_step_defs)
next
  case (start_rejects k idx)
  then show ?thesis by (auto intro!: recovery_inv_start [OF inv start_rejects(2)] simp: start_step_defs)
next
  case (session_removed k idx)
  then show ?thesis by (auto intro!: recovery_inv_start [OF inv session_removed(2)] simp: start_step_defs)
qed (auto intro: recovery_inv_frame [OF inv] recovery_inv_requested [OF inv] recovery_inv_install [OF inv]
    recovery_inv_fail [OF inv] recovery_inv_start_begin [OF inv] recovery_inv_start_end [OF inv])

subsection \<open>The connection in use is watched\<close>

fun candidate :: "recovery_phase \<Rightarrow> nat option" where
  "candidate (ResumeInit i) = Some i"
| "candidate (ResumeProcs i _) = Some i"
| "candidate (ResumeDone i) = Some i"
| "candidate _ = None"

definition notifications_only :: "rpc_client_event list \<Rightarrow> bool" where
  "notifications_only evs \<longleftrightarrow> (\<forall>reason. RpcDisconnected reason \<notin> set evs)"

fun watcher_inv :: "'r rpc_link \<Rightarrow> 'r \<Rightarrow> watcher \<Rightarrow> bool" where
  "watcher_inv lk r (Watching k) \<longleftrightarrow> k \<le> length (lk_events lk r) \<and> notifications_only (take k (lk_events lk r))"
| "watcher_inv lk r _ \<longleftrightarrow> lk_disconnected lk r"

definition watch_inv :: "'r rpc_link \<Rightarrow> ('r \<Rightarrow> bool) \<Rightarrow> 'r client_system \<Rightarrow> bool" where
  "watch_inv lk ok s \<longleftrightarrow>
     list_all2 (\<lambda>r w. ok r \<and> watcher_inv lk r w) (sy_rpcs s) (sy_watchers s)
     \<and> (\<forall>i. status_of s = Connected i \<longrightarrow> i < length (sy_watchers s) \<and> sy_watchers s ! i \<noteq> WatchDone)
     \<and> (\<forall>t \<in> set (sy_recoveries s). \<forall>i. candidate (rt_phase t) = Some i \<longrightarrow> i < length (sy_watchers s))"

lemma watch_inv_frame:
  assumes "watch_inv lk ok s" and "sy_rpcs s' = sy_rpcs s" and "sy_watchers s' = sy_watchers s"
    and "\<And>i. status_of s' = Connected i \<Longrightarrow> status_of s = Connected i"
    and "\<And>t i. t \<in> set (sy_recoveries s') \<Longrightarrow> candidate (rt_phase t) = Some i \<Longrightarrow>
      \<exists>t' \<in> set (sy_recoveries s). candidate (rt_phase t') = Some i"
  shows "watch_inv lk ok s'"
  using assms unfolding watch_inv_def by fastforce

lemma candidate_update:
  assumes "j < length (sy_recoveries s)" and "u \<in> set ((sy_recoveries s)[j := t])" and "candidate (rt_phase u) = Some i"
    and "candidate (rt_phase t) = None \<or> candidate (rt_phase t) = candidate (recovery_at s j)"
  shows "\<exists>t' \<in> set (sy_recoveries s). candidate (rt_phase t') = Some i"
proof -
  have "u = t \<or> u \<in> set (sy_recoveries s)" using assms(2) set_update_subset_insert [of "sy_recoveries s" j t] by auto
  then show ?thesis using assms(3,4) nth_mem [OF assms(1)] by (metis option.distinct(1))
qed

lemma watch_inv_task:
  assumes "watch_inv lk ok s" and "j < length (sy_recoveries s)"
    and "sy_recoveries s' = (sy_recoveries s)[j := t]"
    and "candidate (rt_phase t) = None \<or> candidate (rt_phase t) = candidate (recovery_at s j)"
    and "sy_rpcs s' = sy_rpcs s" and "sy_watchers s' = sy_watchers s"
    and "\<And>i. status_of s' = Connected i \<Longrightarrow> status_of s = Connected i"
  shows "watch_inv lk ok s'"
  by (rule watch_inv_frame [OF assms(1,5,6,7)]) (use candidate_update [OF assms(2) _ _ assms(4)] in \<open>simp_all add: assms(3)\<close>)

lemma candidate_none:
  "candidate (rt_phase (recover_retry now t)) = None" "candidate (rt_phase (resume_error retryable now e t)) = None"
  "candidate (rt_phase (starts_done b sid t)) = None" "candidate (rt_phase (recover_timed_out t)) = None"
  "candidate (rt_phase (recover_begin now t)) = None"
  by (auto simp: recover_retry_def resume_error_def starts_done_def recover_timed_out_def recover_begin_def)

lemma watcher_inv_events:
  "prefix (lk_events lk r) (lk_events lk r') \<Longrightarrow> lk_disconnected lk r \<longrightarrow> lk_disconnected lk r' \<Longrightarrow>
     watcher_inv lk r w \<Longrightarrow> watcher_inv lk r' w"
  by (cases w) (auto simp: notifications_only_def prefix_def)

lemma watch_inv_rpc:
  assumes "watch_inv lk ok s" and "i < length (sy_watchers s)" and "ok r" and "watcher_inv lk r w"
    and "sy_rpcs s' = (sy_rpcs s)[i := r]" and "sy_watchers s' = (sy_watchers s)[i := w]"
    and "sy_recoveries s' = sy_recoveries s" and "w = WatchDone \<longrightarrow> status_of s' \<noteq> Connected i"
    and "\<And>j. status_of s' = Connected j \<Longrightarrow> status_of s = Connected j"
  shows "watch_inv lk ok s'"
proof -
  have len: "length (sy_rpcs s) = length (sy_watchers s)" using assms(1) by (auto simp: watch_inv_def dest: list_all2_lengthD)
  have "list_all2 (\<lambda>r w. ok r \<and> watcher_inv lk r w) ((sy_rpcs s)[i := r]) ((sy_watchers s)[i := w])"
    using assms(1-4) by (intro list_all2_update_cong) (auto simp: watch_inv_def)
  moreover have "j < length ((sy_watchers s)[i := w]) \<and> (sy_watchers s)[i := w] ! j \<noteq> WatchDone" if "status_of s' = Connected j" for j
    using assms(1) assms(9) [OF that] assms(8) that assms(2) by (auto simp: watch_inv_def nth_list_update)
  ultimately show ?thesis using assms(1) unfolding watch_inv_def assms(5-7) by auto
qed

lemma watch_inv_at:
  assumes "watch_inv lk ok s" and "i < length (sy_watchers s)"
  shows "ok (sy_rpcs s ! i)" and "watcher_inv lk (sy_rpcs s ! i) (sy_watchers s ! i)"
    and "length (sy_rpcs s) = length (sy_watchers s)"
  using assms by (auto simp: watch_inv_def list_all2_conv_all_nth)

lemma watch_inv_append:
  assumes "watch_inv lk ok s" and "ok r" and "sy_rpcs s' = sy_rpcs s @ [r]" and "sy_watchers s' = sy_watchers s @ [Watching 0]"
    and "\<And>i. status_of s' = Connected i \<Longrightarrow> status_of s = Connected i"
    and "\<And>t i. t \<in> set (sy_recoveries s') \<Longrightarrow> candidate (rt_phase t) = Some i \<Longrightarrow>
      i = length (sy_watchers s) \<or> (\<exists>t' \<in> set (sy_recoveries s). candidate (rt_phase t') = Some i)"
  shows "watch_inv lk ok s'"
proof -
  have "list_all2 (\<lambda>r w. ok r \<and> watcher_inv lk r w) (sy_rpcs s') (sy_watchers s')"
    using assms(1,2) unfolding watch_inv_def assms(3,4) by (auto simp: notifications_only_def intro: list_all2_appendI)
  then show ?thesis using assms(1,4,5,6) unfolding watch_inv_def by (fastforce simp: nth_append)
qed

text \<open>What the client relies on in a JSON-RPC client; \<open>ok\<close> is an invariant of it.\<close>

locale rpc_link_laws =
  fixes lk :: "'r rpc_link"
    and ok :: "'r \<Rightarrow> bool"
  assumes new_ok: "lk_new lk r \<Longrightarrow> ok r"
    and step_ok: "lk_step lk r r' \<Longrightarrow> ok r \<Longrightarrow> ok r'"
    and close_ok: "ok r \<Longrightarrow> ok (lk_close lk r)"
    and step_disconnected: "lk_step lk r r' \<Longrightarrow> ok r \<Longrightarrow> lk_disconnected lk r \<Longrightarrow> lk_disconnected lk r'"
    and close_disconnected: "lk_disconnected lk (lk_close lk r)"
    and event_disconnected: "ok r \<Longrightarrow> RpcDisconnected reason \<in> set (lk_events lk r) \<Longrightarrow> lk_disconnected lk r"
    and step_events: "lk_step lk r r' \<Longrightarrow> ok r \<Longrightarrow> prefix (lk_events lk r) (lk_events lk r')"
    and close_events: "lk_events lk (lk_close lk r) = lk_events lk r"
begin

lemma watcher_reports:
  assumes inv: "watch_inv lk ok s" and i: "i < length (sy_watchers s)" and "lk_disconnected lk (sy_rpcs s ! i)"
  shows "watch_inv lk ok (recover_requested i m (s\<lparr>sy_watchers := (sy_watchers s)[i := WatchDone]\<rparr>))"
proof -
  let ?c = "snd (request_recovery i (sy_connection s))"
  have st: "cn_status ?c \<noteq> Connected i" "cn_status ?c = Connected j \<Longrightarrow> status_of s = Connected j" for j
    by (auto simp: request_recovery_def split: if_splits)
  have "watch_inv lk ok (s\<lparr>sy_connection := ?c, sy_watchers := (sy_watchers s)[i := WatchDone]\<rparr>)"
    by (rule watch_inv_rpc [OF inv i watch_inv_at(1) [OF inv i], of WatchDone]) (use assms(3) st in auto)
  then show ?thesis
    by (rule watch_inv_frame) (auto simp: recover_requested_def request_recovery_def split: if_splits)
qed

lemma install_watched:
  assumes inv: "watch_inv lk ok s" and j: "j < length (sy_recoveries s)" "recovery_at s j = ResumeDone i"
  shows "watch_inv lk ok (install_candidate j i (lk_disconnected lk (sy_rpcs s ! i)) s)"
proof -
  have i: "i < length (sy_watchers s)" using inv j nth_mem [OF j(1)] unfolding watch_inv_def by (metis candidate.simps(3))
  show ?thesis
  proof (cases "status_of s = Recovering \<and> \<not> lk_disconnected lk (sy_rpcs s ! i)")
    case True
    then have "sy_watchers s ! i \<noteq> WatchDone" using watch_inv_at(2) [OF inv i] by auto
    then have "watch_inv lk ok (s\<lparr>sy_connection := (sy_connection s)\<lparr>cn_status := Connected i\<rparr>\<rparr>)"
      using inv i by (auto simp: watch_inv_def)
    then show ?thesis
      by (rule watch_inv_task [where j = j]) (use True j in \<open>auto simp: install_candidate_def install_recovered_client_def recovery_step_defs\<close>)
  next
    case False
    then show ?thesis
      by (intro watch_inv_task [OF inv j(1), of _ "recover_retry (sy_now s) (sy_recoveries s ! j)"])
        (auto simp: install_candidate_def install_recovered_client_def set_recovery_def candidate_none)
  qed
qed

lemma watch_step_link:
  assumes inv: "watch_inv lk ok s" and i: "i < length (sy_rpcs s)" and "lk_step lk (sy_rpcs s ! i) r"
  shows "watch_inv lk ok (s\<lparr>sy_rpcs := (sy_rpcs s)[i := r]\<rparr>)"
proof -
  have i': "i < length (sy_watchers s)" using inv i by (auto simp: watch_inv_def dest: list_all2_lengthD)
  note at = watch_inv_at [OF inv i']
  have quiet: "sy_watchers s ! i = WatchDone \<longrightarrow> status_of s \<noteq> Connected i" using inv by (auto simp: watch_inv_def)
  show ?thesis
    by (rule watch_inv_rpc [OF inv i', of r "sy_watchers s ! i"])
      (use at assms(3) step_ok step_events step_disconnected watcher_inv_events [of lk "sy_rpcs s ! i" r] quiet in auto)
qed

lemma watch_step:
  assumes "client_step lk decode retryable s t" and inv: "watch_inv lk ok s"
  shows "watch_inv lk ok t"
  using assms(1)
proof cases
  case (link_moves i r)
  then show ?thesis using watch_step_link [OF inv] by simp
next
  case (watch_notification i k n u ss)
  then have "watcher_inv lk (sy_rpcs s ! i) (Watching (Suc k))"
    using watch_inv_at(2) [OF inv watch_notification(2)] by (auto simp: take_Suc_conv_app_nth notifications_only_def)
  moreover have "sy_rpcs s = (sy_rpcs s)[i := sy_rpcs s ! i]" by simp
  ultimately show ?thesis
    using watch_notification watch_inv_at(1) [OF inv watch_notification(2)]
    by (intro watch_inv_rpc [OF inv watch_notification(2), of "sy_rpcs s ! i" "Watching (Suc k)"]) simp_all
next
  case (watch_error i k n e ss)
  then show ?thesis
    using watch_inv_at(1) [OF inv watch_error(2)] close_ok close_disconnected
    by (intro watch_inv_rpc [OF inv watch_error(2), of "lk_close lk (sy_rpcs s ! i)"
          "WatchClosing (''exec-server notification handling failed: '' @ show_exec_server_error e)"]) simp_all
next
  case (watch_closed i m)
  then have "lk_disconnected lk (sy_rpcs s ! i)" using watch_inv_at(2) [OF inv watch_closed(2)] by simp
  then show ?thesis using watcher_reports [OF inv watch_closed(2)] watch_closed(1) by simp
next
  case (watch_disconnected i k reason)
  then have "lk_disconnected lk (sy_rpcs s ! i)"
    using watch_inv_at(1) [OF inv watch_disconnected(2)] event_disconnected nth_mem by metis
  then show ?thesis using watcher_reports [OF inv watch_disconnected(2)] watch_disconnected(1) by simp
next
  case (install j i)
  then show ?thesis using install_watched [OF inv] by simp
next
  case (resume_connects j r)
  have len: "length (sy_rpcs s) = length (sy_watchers s)" using inv by (auto simp: watch_inv_def dest: list_all2_lengthD)
  show ?thesis
    by (rule watch_inv_append [OF inv new_ok [OF resume_connects(4)]])
      (use resume_connects len set_update_subset_insert in \<open>fastforce simp: candidate_connected_def set_recovery_def\<close>)+
next
  case (recover_begins j)
  then show ?thesis by (auto intro!: watch_inv_task [OF inv recover_begins(2)] simp: set_recovery_def candidate_none)
next
  case (starts_end j)
  then show ?thesis by (auto intro!: watch_inv_task [OF inv starts_end(2)] simp: set_recovery_def candidate_none)
next
  case (recover_times_out j)
  then show ?thesis by (auto intro!: watch_inv_task [OF inv recover_times_out(2)] simp: set_recovery_def candidate_none)
next
  case (resume_unconnected j e)
  then show ?thesis by (auto intro!: watch_inv_task [OF inv resume_unconnected(2)] simp: set_recovery_def candidate_none)
next
  case (resume_initialized j i)
  then show ?thesis by (auto intro!: watch_inv_task [OF inv resume_initialized(2)] simp: set_phase_def set_recovery_def)
next
  case (resume_init_failed j i e)
  then show ?thesis by (auto intro!: watch_inv_task [OF inv resume_init_failed(2)] simp: set_recovery_def candidate_none)
next
  case (process_recovered j i p ps response terminated u ss)
  then show ?thesis by (auto intro!: watch_inv_task [OF inv process_recovered(2)] simp: set_phase_def set_recovery_def)
next
  case (process_unrecovered j i p ps response terminated e ss)
  then show ?thesis by (auto intro!: watch_inv_task [OF inv process_unrecovered(2)] simp: set_recovery_def candidate_none)
next
  case (resume_ends j i)
  then show ?thesis by (auto intro!: watch_inv_task [OF inv resume_ends(2)] simp: set_phase_def set_recovery_def)
next
  case (retry_wakes j until)
  then show ?thesis by (auto intro!: watch_inv_task [OF inv retry_wakes(2)] simp: set_phase_def set_recovery_def)
next
  case (client_fails j m)
  then show ?thesis
    by (auto intro!: watch_inv_task [OF inv client_fails(2)] simp: fail_client_def fail_status_def set_phase_def set_recovery_def
        split: connection_status.splits)
next
  case (sessions_drained j m)
  then show ?thesis
    by (auto intro!: watch_inv_task [OF inv sessions_drained(2)] simp: drain_sessions_def take_all_sessions_def set_phase_def set_recovery_def)
next
  case (session_failed j m idx idxs)
  then show ?thesis by (auto intro!: watch_inv_task [OF inv session_failed(2)] simp: set_phase_def set_recovery_def)
next
  case (recovery_ends j m)
  then show ?thesis by (auto intro!: watch_inv_task [OF inv recovery_ends(2)] simp: set_phase_def set_recovery_def)
next
  case (start_begins k i)
  then show ?thesis
    by (auto intro!: watch_inv_frame [OF inv] simp: start_begin_def begin_process_start_def set_start_def split: connection_status.splits)
next
  case (start_inserts k idx)
  obtain p ss where "start_insert k idx s = set_start k p (s\<lparr>sy_sessions := ss, sy_write_lock := None\<rparr>)"
    by (rule start_insert_cases)
  then show ?thesis using start_inserts by (auto intro!: watch_inv_frame [OF inv] simp: set_start_def)
next
  case (start_ends k p)
  then show ?thesis by (auto intro!: watch_inv_frame [OF inv] simp: set_start_def finish_process_start_def split: if_splits)
qed (auto intro!: watch_inv_frame [OF inv] simp: start_step_defs Let_def)

lemma watch_start: "client_start lk s \<Longrightarrow> watch_inv lk ok s"
  by (auto simp: client_start_def watch_inv_def notifications_only_def intro: new_ok)

end

subsection \<open>The JSON-RPC client is such a link\<close>

definition rpc_client_link :: "(json_value \<Rightarrow> string + 't) \<Rightarrow> 't rpc_system rpc_link" where
  "rpc_client_link dec =
     \<lparr>lk_new = rpc_start, lk_step = rpc_step dec,
      lk_close = (\<lambda>s. s\<lparr>rs_client := close_transport_begin (rs_client s), rs_incoming_closed := True, rs_closing := rs_closing s + 1\<rparr>),
      lk_disconnected = (\<lambda>s. is_disconnected (rs_client s)), lk_events = (\<lambda>s. rc_events (rs_client s))\<rparr>"

definition closed_first :: "'t rpc_system \<Rightarrow> bool" where
  "closed_first s \<longleftrightarrow>
     ((\<forall>reason. rs_reader s \<noteq> ReaderLeft reason) \<and> rs_reader s \<noteq> ReaderLoop \<or> \<not> notifications_only (rc_events (rs_client s))
       \<longrightarrow> rc_closed (rs_client s))
     \<and> (rs_reader s = ReaderEnded \<longrightarrow> \<not> notifications_only (rc_events (rs_client s)))"

lemma answer_pending_fields:
  "rc_events (answer_pending rid v rc) = rc_events rc" "rc_closed (answer_pending rid v rc) = rc_closed rc"
  "rc_disconnected (answer_pending rid v rc) = rc_disconnected rc"
  by (simp_all add: answer_pending_def split: option.split)

lemma handle_server_message_fields:
  assumes "handle_server_message m rc = (u, rc')"
  shows "rc_closed rc' = rc_closed rc" and "rc_disconnected rc' = rc_disconnected rc"
    and "\<exists>ns. rc_events rc' = rc_events rc @ map RpcNotification ns"
proof -
  show "\<exists>ns. rc_events rc' = rc_events rc @ map RpcNotification ns"
  proof (cases m)
    case (JsonNotification n)
    then show ?thesis using assms by (intro exI [of _ "[n]"]) auto
  qed (use assms in \<open>auto simp: answer_pending_fields intro: exI [of _ "[]"]\<close>)
qed (use assms in \<open>cases m; auto simp: answer_pending_fields\<close>)+

lemma reader_event_fields:
  assumes "reader_event ev rc = (leave, rc')"
  shows "rc_closed rc' = rc_closed rc \<and> rc_disconnected rc' = rc_disconnected rc
    \<and> (\<exists>ns. rc_events rc' = rc_events rc @ map RpcNotification ns)"
proof (cases "\<exists>m. ev = Some (ConnMessage m)")
  case True
  then obtain m where m: "ev = Some (ConnMessage m)" by blast
  obtain u rc1 where h: "handle_server_message m rc = (u, rc1)" by fastforce
  have "rc' = rc1" using assms by (auto simp: m reader_event_def h split: sum.splits)
  then show ?thesis using handle_server_message_fields [OF h] by simp
next
  case False
  then have "rc' = rc" using assms by (auto simp: reader_event_def split: option.splits connection_event.splits)
  then show ?thesis by (auto intro: exI [of _ "[]"])
qed

lemma notifications_only_append [simp]:
  "notifications_only (xs @ map RpcNotification ns) = notifications_only xs" "\<not> notifications_only (xs @ [RpcDisconnected r])"
  by (auto simp: notifications_only_def)

lemma reader_step_link:
  assumes "reader_step s = Some t" and "closed_first s"
  shows "closed_first t \<and> (is_disconnected (rs_client s) \<longrightarrow> is_disconnected (rs_client t))
    \<and> prefix (rc_events (rs_client s)) (rc_events (rs_client t))"
proof (cases "rs_reader s")
  case ReaderLoop
  then obtain ev where t: "t = reader_take ev s"
    using assms(1) by (auto simp: reader_step_def split: list.splits if_splits)
  obtain leave rc where e: "reader_event ev (rs_client s) = (leave, rc)" by fastforce
  show ?thesis
    using reader_event_fields [OF e] assms(2) ReaderLoop
    by (auto simp: t reader_take_def e closed_first_def is_disconnected_def split: option.splits)
qed (use assms in \<open>auto simp: reader_step_def closed_first_def mark_closed_def drain_pending_def send_disconnected_event_def is_disconnected_def\<close>)

lemma rpc_step_link:
  assumes "rpc_step dec s t" and "closed_first s"
  shows "closed_first t \<and> (is_disconnected (rs_client s) \<longrightarrow> is_disconnected (rs_client t))
    \<and> prefix (rc_events (rs_client s)) (rc_events (rs_client t))"
  using assms(1)
proof cases
  case reader
  then show ?thesis using reader_step_link [OF _ assms(2)] by blast
qed (use assms(2) in \<open>auto simp: closed_first_def is_disconnected_def call_begin_def call_register_def call_send_def rpc_notify_def
    set_call_def close_transport_begin_def drain_pending_def Let_def split: sum.splits if_splits\<close>)

interpretation rpc_client: rpc_link_laws "rpc_client_link dec" closed_first for dec
proof unfold_locales
  fix s t :: "'a rpc_system" and reason
  show "lk_new (rpc_client_link dec) s \<Longrightarrow> closed_first s"
    by (simp add: rpc_client_link_def rpc_start_def closed_first_def rpc_client_new_def notifications_only_def)
  show "lk_step (rpc_client_link dec) s t \<Longrightarrow> closed_first s \<Longrightarrow> closed_first t"
    "lk_step (rpc_client_link dec) s t \<Longrightarrow> closed_first s \<Longrightarrow> lk_disconnected (rpc_client_link dec) s \<Longrightarrow> lk_disconnected (rpc_client_link dec) t"
    "lk_step (rpc_client_link dec) s t \<Longrightarrow> closed_first s \<Longrightarrow> prefix (lk_events (rpc_client_link dec) s) (lk_events (rpc_client_link dec) t)"
    using rpc_step_link [of dec s t] by (simp_all add: rpc_client_link_def)
  show "closed_first s \<Longrightarrow> closed_first (lk_close (rpc_client_link dec) s)"
    "lk_disconnected (rpc_client_link dec) (lk_close (rpc_client_link dec) s)"
    "lk_events (rpc_client_link dec) (lk_close (rpc_client_link dec) s) = lk_events (rpc_client_link dec) s"
    by (simp_all add: rpc_client_link_def closed_first_def close_transport_begin_def is_disconnected_def)
  show "closed_first s \<Longrightarrow> RpcDisconnected reason \<in> set (lk_events (rpc_client_link dec) s) \<Longrightarrow> lk_disconnected (rpc_client_link dec) s"
    by (auto simp: rpc_client_link_def closed_first_def notifications_only_def is_disconnected_def)
qed

lemma recovery_start: "client_start lk s \<Longrightarrow> recovery_inv s"
  by (auto simp: client_start_def recovery_inv_def)

end
