(* ===== verification/Client_Recovery.thy ===== *)
theory Client_Recovery
  imports Client_Connection
begin

text \<open>
  What the client's recovery guarantees (\<^verbatim>\<open>crates/exec-server/src/client_recovery.rs\<close>): a bounded number of attempts,
  sessions that are all either recovered or failed, and a broken connection that is always noticed.
\<close>

subsection \<open>Sessions never lose their end\<close>

definition session_over :: "session_state \<Rightarrow> bool" where
  "session_over st \<longleftrightarrow> oe_failure (ss_ordered st) \<noteq> None \<or> oe_closed_published (ss_ordered st)"

text \<open>A session operation that may end the session and keeps its \<open>recoverable\<close> flag.\<close>

definition session_grows :: "session_state \<Rightarrow> session_state \<Rightarrow> bool" where
  "session_grows st st' \<longleftrightarrow> ss_recoverable st' = ss_recoverable st \<and> (session_over st \<longrightarrow> session_over st')"

lemma session_grows_refl [simp]: "session_grows st st"
  by (simp add: session_grows_def)

lemma session_grows_trans: "session_grows a b \<Longrightarrow> session_grows b c \<Longrightarrow> session_grows a c"
  by (simp add: session_grows_def)

lemma publish_next_grows: "session_grows st (publish_next e st) \<and> (is_closed_event e \<longrightarrow> session_over (publish_next e st))"
  by (simp add: publish_next_def session_grows_def session_over_def Let_def)

lemma publish_ready_grows:
  "publish_ready b st = (b', st') \<Longrightarrow> session_grows st st' \<and> (b' \<longrightarrow> b \<or> session_over st')"
proof (induction b st rule: publish_ready.induct)
  case (1 b st)
  show ?case
  proof (cases "map_of (oe_pending (ss_ordered st)) (u64_sat_succ (oe_last_published_seq (ss_ordered st)))")
    case None
    then show ?thesis using "1.prems" by (simp add: publish_ready.simps [of b st])
  next
    case (Some e)
    then have "publish_ready (b \<or> is_closed_event e) (publish_next e st) = (b', st')"
      using "1.prems" by (simp add: publish_ready.simps [of b st])
    from "1.IH" [OF Some this] show ?thesis
      using publish_next_grows [of st e] by (auto intro: session_grows_trans simp: session_grows_def)
  qed
qed

lemma publish_ordered_event_grows:
  assumes "publish_ordered_event e st = (b, st')"
  shows "session_grows st st' \<and> (b \<longrightarrow> session_over st')"
proof (cases "event_seq e")
  case None
  then show ?thesis using assms by (auto simp: publish_ordered_event_def session_grows_def session_over_def)
next
  case (Some n)
  let ?st = "st\<lparr>ss_ordered := (ss_ordered st)\<lparr>oe_pending := bt_or_insert n e (oe_pending (ss_ordered st))\<rparr>\<rparr>"
  have start: "session_grows st ?st" by (simp add: session_grows_def session_over_def)
  have "(b, st') = (False, st) \<or> publish_ready False ?st = (b, st')"
    using assms Some unfolding publish_ordered_event_def Let_def by (simp split: if_splits)
  then show ?thesis using publish_ready_grows [of False ?st b st'] session_grows_trans [OF start] by auto
qed

lemma note_change_grows: "session_grows st (note_change n st)"
  by (simp add: note_change_def session_grows_def session_over_def)

lemma set_failure_grows: "session_grows st (set_failure m st) \<and> session_over (set_failure m st)"
  by (auto simp: set_failure_def session_grows_def session_over_def Let_def)

lemma recover_events_grows:
  assumes "recover_events resp st = (r, st')"
  shows "session_grows st st' \<and> (r = Inr True \<longrightarrow> session_over st')"
proof -
  have put: "session_grows st (put_pending p st)" for p
    by (simp add: put_pending_def session_grows_def session_over_def)
  have "r \<noteq> Inr True \<and> (st' = st \<or> (\<exists>p. st' = put_pending p st))
    \<or> (\<exists>p closed st1 n. publish_ready False (put_pending p st) = (closed, st1) \<and> r = Inr closed \<and> st' = note_change n st1)"
    using assms unfolding recover_events_def Let_def
    by (auto split: option.splits if_splits sum.splits prod.splits)
  then show ?thesis
  proof (elim disjE conjE exE)
    fix p closed st1 n
    assume p: "publish_ready False (put_pending p st) = (closed, st1)" "r = Inr closed" "st' = note_change n st1"
    note g = publish_ready_grows [OF p(1)] note_change_grows [of st1 n]
    then have "session_grows st st'" using session_grows_trans put p(3) by blast
    then show ?thesis using g p(2,3) by (auto simp: session_grows_def)
  qed (use put in auto)
qed

subsection \<open>The table of sessions\<close>

text \<open>Sessions only grow, and one leaves the table only when it is over.\<close>

definition sessions_grow :: "client_sessions \<Rightarrow> client_sessions \<Rightarrow> bool" where
  "sessions_grow ss ss' \<longleftrightarrow>
     length (cs_states ss') = length (cs_states ss) \<and> (hm_wf (cs_table ss) \<longrightarrow> hm_wf (cs_table ss'))
     \<and> (\<forall>idx < length (cs_states ss). session_grows (cs_states ss ! idx) (cs_states ss' ! idx))
     \<and> (\<forall>pid. hm_get (cs_table ss') pid = hm_get (cs_table ss) pid
          \<or> hm_get (cs_table ss') pid = None
            \<and> (\<forall>idx < length (cs_states ss). hm_get (cs_table ss) pid = Some idx \<longrightarrow> session_over (cs_states ss' ! idx)))"

lemma sessions_grow_refl [simp]: "sessions_grow ss ss"
  by (simp add: sessions_grow_def)

lemma sessions_grow_trans:
  assumes "sessions_grow a b" and "sessions_grow b c"
  shows "sessions_grow a c"
proof -
  have st: "session_grows (cs_states a ! i) (cs_states c ! i)" "session_over (cs_states b ! i) \<longrightarrow> session_over (cs_states c ! i)"
    if "i < length (cs_states a)" for i
    using assms that session_grows_trans unfolding sessions_grow_def session_grows_def by metis+
  have "hm_get (cs_table c) pid = hm_get (cs_table a) pid
      \<or> hm_get (cs_table c) pid = None \<and> (\<forall>i < length (cs_states a). hm_get (cs_table a) pid = Some i \<longrightarrow> session_over (cs_states c ! i))" for pid
  proof -
    have "length (cs_states b) = length (cs_states a)" using assms(1) by (simp add: sessions_grow_def)
    then show ?thesis using assms st(2) unfolding sessions_grow_def by metis
  qed
  then show ?thesis using assms st(1) by (simp add: sessions_grow_def)
qed

lemma update_grows:
  "session_grows (cs_states ss ! idx) (f (cs_states ss ! idx)) \<Longrightarrow> sessions_grow ss (update_session idx f ss)"
  by (cases "idx < length (cs_states ss)") (auto simp: sessions_grow_def update_session_def nth_list_update)

lemma remove_grows:
  "idx < length (cs_states ss) \<longrightarrow> session_over (cs_states ss ! idx) \<Longrightarrow> sessions_grow ss (remove_session_if pid idx ss)"
  by (auto simp: sessions_grow_def remove_session_if_def container_simps)

lemma update_session_simps [simp]:
  "length (cs_states (update_session idx f ss)) = length (cs_states ss)"
  "cs_table (update_session idx f ss) = cs_table ss"
  "idx < length (cs_states ss) \<Longrightarrow> cs_states (update_session idx f ss) ! idx = f (cs_states ss ! idx)"
  "cs_states (remove_session_if pid idx ss) = cs_states ss"
  by (simp_all add: update_session_def remove_session_if_def)

text \<open>The ways in which a session ends and leaves the table.\<close>

lemma close_grows:
  assumes "session_grows (cs_states ss ! idx) st" and "closed \<longrightarrow> session_over st"
  shows "sessions_grow ss (if closed then remove_session_if pid idx (update_session idx (\<lambda>_. st) ss) else update_session idx (\<lambda>_. st) ss)"
proof -
  have u: "sessions_grow ss (update_session idx (\<lambda>_. st) ss)" by (rule update_grows) (rule assms(1))
  then show ?thesis
    using assms(2) sessions_grow_trans [OF u remove_grows, of idx pid] by auto
qed

lemma fail_grows:
  "sessions_grow ss (update_session idx (set_failure m) (remove_session_if pid idx ss))"
proof -
  have "update_session idx (set_failure m) (remove_session_if pid idx ss) = remove_session_if pid idx (update_session idx (set_failure m) ss)"
    by (simp add: update_session_def remove_session_if_def)
  then show ?thesis
    using sessions_grow_trans [OF update_grows remove_grows] set_failure_grows by simp
qed

lemma handle_server_notification_grows:
  assumes "handle_server_notification decode n ss = (r, ss')"
  shows "sessions_grow ss ss'"
proof (cases "\<exists>pid pn idx. decode_notification decode n = Inr (Some (pid, pn)) \<and> get_session pid ss = Some idx")
  case False
  then have "ss' = ss" using assms by (auto simp: handle_server_notification_def split: sum.splits option.splits prod.splits)
  then show ?thesis by simp
next
  case True
  then obtain pid pn idx where e: "decode_notification decode n = Inr (Some (pid, pn))" "get_session pid ss = Some idx" by blast
  obtain b st where p: "publish_ordered_event (notification_event pn) (note_change (notification_seq pn) (cs_states ss ! idx)) = (b, st)"
    by fastforce
  have "session_grows (cs_states ss ! idx) st" "b \<longrightarrow> session_over st"
    using publish_ordered_event_grows [OF p] session_grows_trans note_change_grows by blast+
  from close_grows [OF this, of pid] show ?thesis
    using assms e p by (auto simp: handle_server_notification_def)
qed

lemma recovered_grows:
  assumes "session_grows (cs_states ss ! idx) st" and "r1 = Inr True \<longrightarrow> session_over st"
    and "(case r1 of
            Inr published_closed \<Rightarrow>
              (Inr (), if published_closed then remove_session_if pid idx (update_session idx (\<lambda>_. st) ss)
                       else update_session idx (\<lambda>_. st) ss)
          | Inl e \<Rightarrow>
              (let s1 = update_session idx (\<lambda>_. st) ss
               in case terminated of
                    Inl te \<Rightarrow>
                      if is_transport_closed_error te then (Inl te, s1)
                      else (Inr (), update_session idx (set_failure (m e)) (remove_session_if pid idx s1))
                  | Inr _ \<Rightarrow> (Inr (), update_session idx (set_failure (m e)) (remove_session_if pid idx s1)))) = (r, ss')"
  shows "sessions_grow ss ss'"
proof -
  have u: "sessions_grow ss (update_session idx (\<lambda>_. st) ss)" by (rule update_grows) (rule assms(1))
  show ?thesis
  proof (cases r1)
    case (Inr closed)
    then show ?thesis using assms(2,3) close_grows [OF assms(1), of closed pid] by auto
  next
    case (Inl e)
    then have "ss' = update_session idx (\<lambda>_. st) ss
        \<or> ss' = update_session idx (set_failure (m e)) (remove_session_if pid idx (update_session idx (\<lambda>_. st) ss))"
      using assms(3) by (cases terminated) (simp_all add: Let_def split: if_splits)
    then show ?thesis using u sessions_grow_trans [OF u fail_grows] by auto
  qed
qed

lemma recover_process_grows:
  assumes "recover_process p response terminated ss = (r, ss')"
  shows "sessions_grow ss ss'"
proof -
  obtain pid idx where p: "p = (pid, idx)" by fastforce
  note a = assms [unfolded recover_process_def p prod.case]
  consider "ss' = ss" | resp where "ss_recoverable (cs_states ss ! idx)" "response = Inr resp"
    | e where "ss_recoverable (cs_states ss ! idx)" "response = Inl e" "\<not> is_transport_closed_error e"
    using a by (cases response) (auto split: if_splits)
  then show ?thesis
  proof cases
    case 2
    obtain r1 st where e: "recover_events resp (cs_states ss ! idx) = (r1, st)" by fastforce
    have "session_grows (cs_states ss ! idx) st" "r1 = Inr True \<longrightarrow> session_over st" using recover_events_grows [OF e] by simp_all
    then show ?thesis by (rule recovered_grows) (use a 2 e in \<open>cases r1; auto split: if_splits\<close>)
  next
    case 3
    have "session_grows (cs_states ss ! idx) (cs_states ss ! idx)" "(Inl e :: exec_server_error + bool) = Inr True \<longrightarrow> session_over (cs_states ss ! idx)"
      by simp_all
    then show ?thesis by (rule recovered_grows) (use a 3 in simp)
  qed simp
qed

subsection \<open>Every session is in the table, over, or about to fail\<close>

fun held :: "start_phase \<Rightarrow> nat option" where
  "held (StartCalling idx) = Some idx"
| "held (StartAnswered idx) = Some idx"
| "held (StartLost idx) = Some idx"
| "held (StartRunning idx) = Some idx"
| "held (StartCleanup idx) = Some idx"
| "held _ = None"

fun reserved :: "start_phase \<Rightarrow> nat option" where
  "reserved (StartInserting idx) = Some idx"
| "reserved p = held p"

fun handed_over :: "start_phase \<Rightarrow> bool" where
  "handed_over (StartAnswered _) = True"
| "handed_over (StartRunning _) = True"
| "handed_over _ = False"

fun failing_list :: "recovery_phase \<Rightarrow> nat list" where
  "failing_list (FailSessions _ idxs) = idxs"
| "failing_list _ = []"

fun draining :: "recovery_phase \<Rightarrow> bool" where
  "draining (FailDrain _) = True"
| "draining _ = False"

definition failing :: "'r client_system \<Rightarrow> nat set" where
  "failing s = (\<Union>t \<in> set (sy_recoveries s). set (failing_list (rt_phase t)))"

definition drained_client :: "'r client_system \<Rightarrow> bool" where
  "drained_client s \<longleftrightarrow> is_failed (sy_connection s) \<and> (\<forall>t \<in> set (sy_recoveries s). \<not> draining (rt_phase t))"

abbreviation table_of :: "'r client_system \<Rightarrow> (process_id, nat) hash_map" where
  "table_of s \<equiv> cs_table (sy_sessions s)"

abbreviation states_of :: "'r client_system \<Rightarrow> session_state list" where
  "states_of s \<equiv> cs_states (sy_sessions s)"

definition starts_inv :: "start_task list \<Rightarrow> nat option \<Rightarrow> nat \<Rightarrow> bool" where
  "starts_inv ts lock n \<longleftrightarrow>
     (\<forall>k < length ts. \<forall>idx. sk_phase (ts ! k) = StartInserting idx \<longrightarrow> lock = Some k)
     \<and> (\<forall>k < length ts. \<forall>idx. reserved (sk_phase (ts ! k)) = Some idx \<longrightarrow> idx < n)
     \<and> (\<forall>k < length ts. \<forall>l < length ts. \<forall>idx. reserved (sk_phase (ts ! k)) = Some idx \<longrightarrow>
          reserved (sk_phase (ts ! l)) = Some idx \<longrightarrow> k = l)"

definition owned :: "client_sessions \<Rightarrow> start_task \<Rightarrow> process_id \<Rightarrow> nat \<Rightarrow> bool" where
  "owned ss t pid idx \<longleftrightarrow> sk_process_id t = pid \<and> held (sk_phase t) = Some idx
     \<and> (handed_over (sk_phase t) \<longrightarrow> ss_recoverable (cs_states ss ! idx))"

definition session_inv :: "'r client_system \<Rightarrow> bool" where
  "session_inv s \<longleftrightarrow>
     hm_wf (table_of s) \<and> starts_inv (sy_starts s) (sy_write_lock s) (length (states_of s))
     \<and> (\<forall>pid idx. hm_get (table_of s) pid = Some idx \<longrightarrow> 
          (\<exists>k < length (sy_starts s). owned (sy_sessions s) (sy_starts s ! k) pid idx))
     \<and> (\<forall>k < length (sy_starts s). \<forall>idx. held (start_at s k) = Some idx \<longrightarrow>
          hm_get (table_of s) (sk_process_id (sy_starts s ! k)) = Some idx \<or> session_over (states_of s ! idx) \<or> idx \<in> failing s)
     \<and> (drained_client s \<longrightarrow> table_of s = [] \<and> sy_write_lock s = None)"

lemma reserved_held: "held p = Some idx \<Longrightarrow> reserved p = Some idx"
  by (cases p) auto

lemma held_valid:
  "starts_inv ts lock n \<Longrightarrow> k < length ts \<Longrightarrow> held (sk_phase (ts ! k)) = Some idx \<Longrightarrow> idx < n"
  by (auto simp: starts_inv_def dest: reserved_held)

lemma session_inv_frame:
  assumes inv: "session_inv s"
    and same: "sy_starts s' = sy_starts s" "sy_write_lock s' = sy_write_lock s"
    and grow: "sessions_grow (sy_sessions s) (sy_sessions s')"
    and fail: "\<And>idx. idx \<in> failing s \<Longrightarrow> idx < length (states_of s) \<Longrightarrow> idx \<in> failing s' \<or> session_over (states_of s' ! idx)"
    and drained: "drained_client s' \<Longrightarrow> drained_client s"
  shows "session_inv s'"
proof -
  have len: "length (states_of s') = length (states_of s)" using grow by (simp add: sessions_grow_def)
  have starts: "starts_inv (sy_starts s) (sy_write_lock s) (length (states_of s))" using inv by (simp add: session_inv_def)
  have grows: "session_grows (states_of s ! idx) (states_of s' ! idx)" if "idx < length (states_of s)" for idx
    using grow that by (simp add: sessions_grow_def)
  have table: "hm_get (table_of s') pid = hm_get (table_of s) pid \<or> hm_get (table_of s') pid = None
      \<and> (\<forall>idx < length (states_of s). hm_get (table_of s) pid = Some idx \<longrightarrow> session_over (states_of s' ! idx))" for pid
    using grow by (simp add: sessions_grow_def)
  have "\<exists>k < length (sy_starts s'). owned (sy_sessions s') (sy_starts s' ! k) pid idx"
    if get: "hm_get (table_of s') pid = Some idx" for pid idx
  proof -
    have "hm_get (table_of s) pid = Some idx" using table [of pid] get by simp
    then obtain k where k: "k < length (sy_starts s)" "owned (sy_sessions s) (sy_starts s ! k) pid idx"
      using inv unfolding session_inv_def by blast
    then have "idx < length (states_of s)" using held_valid [OF starts] by (auto simp: owned_def)
    then show ?thesis using k grows [of idx] by (auto simp: same owned_def session_grows_def)
  qed
  moreover have "hm_get (table_of s') (sk_process_id (sy_starts s' ! k)) = Some idx \<or> session_over (states_of s' ! idx) \<or> idx \<in> failing s'"
    if k: "k < length (sy_starts s')" "held (start_at s' k) = Some idx" for k idx
  proof -
    have "idx < length (states_of s)" using held_valid [OF starts] k same(1) by simp
    moreover have "hm_get (table_of s) (sk_process_id (sy_starts s ! k)) = Some idx \<or> session_over (states_of s ! idx) \<or> idx \<in> failing s"
      using inv k unfolding session_inv_def same(1) by blast
    ultimately show ?thesis
      using table [of "sk_process_id (sy_starts s ! k)"] fail [of idx] grows [of idx] unfolding session_grows_def same(1) by metis
  qed
  moreover have "table_of s' = [] \<and> sy_write_lock s' = None" if "drained_client s'"
  proof -
    have "table_of s = []" "sy_write_lock s = None" using inv drained [OF that] by (simp_all add: session_inv_def)
    then have "hm_get (table_of s') = Map.empty" using table by (auto simp: fun_eq_iff)
    then show ?thesis using \<open>sy_write_lock s = None\<close> same(2) by simp
  qed
  moreover have "hm_wf (table_of s')" using inv grow by (simp add: session_inv_def sessions_grow_def)
  ultimately show ?thesis using starts unfolding session_inv_def same len by blast
qed

text \<open>A recovery task that moves between phases in which it neither drains nor fails sessions.\<close>

lemma session_inv_task:
  assumes inv: "session_inv s" and j: "j < length (sy_recoveries s)" "failing_list (recovery_at s j) = []" "\<not> draining (recovery_at s j)"
    and t: "sy_recoveries s' = (sy_recoveries s)[j := t]"
    and same: "sy_starts s' = sy_starts s" "sy_write_lock s' = sy_write_lock s"
    and grow: "sessions_grow (sy_sessions s) (sy_sessions s')"
    and failed: "is_failed (sy_connection s') \<Longrightarrow> is_failed (sy_connection s) \<or> draining (rt_phase t)"
  shows "session_inv s'"
proof (rule session_inv_frame [OF inv same grow])
  fix idx
  assume "idx \<in> failing s"
  then obtain u where u: "u \<in> set (sy_recoveries s)" "idx \<in> set (failing_list (rt_phase u))" by (auto simp: failing_def)
  then obtain l where l: "l < length (sy_recoveries s)" "sy_recoveries s ! l = u" by (auto simp: in_set_conv_nth)
  then have "l \<noteq> j" using u(2) j(2) by auto
  then have "u \<in> set (sy_recoveries s')" using l by (metis t length_list_update nth_list_update_neq nth_mem)
  then show "idx \<in> failing s' \<or> session_over (states_of s' ! idx)" using u(2) by (auto simp: failing_def)
next
  assume d: "drained_client s'"
  have "\<not> draining (rt_phase u)" if u: "u \<in> set (sy_recoveries s)" for u
  proof -
    obtain l where l: "l < length (sy_recoveries s)" "sy_recoveries s ! l = u" using u by (auto simp: in_set_conv_nth)
    show ?thesis
    proof (cases "l = j")
      case False
      then have "u \<in> set (sy_recoveries s')" using l by (metis t length_list_update nth_list_update_neq nth_mem)
      then show ?thesis using d by (simp add: drained_client_def)
    qed (use j(3) l in simp)
  qed
  moreover have "t \<in> set (sy_recoveries s')" using j(1) by (simp add: t set_update_memI)
  then have "is_failed (sy_connection s)" using d failed by (auto simp: drained_client_def)
  ultimately show "drained_client s" by (simp add: drained_client_def)
qed

text \<open>A step of process start \<open>k\<close>, which may touch only its own session.\<close>

lemma session_inv_start:
  assumes inv: "session_inv s" and k: "k < length (sy_starts s)"
    and starts: "sy_starts s' = (sy_starts s)[k := (sy_starts s ! k)\<lparr>sk_phase := p\<rparr>]"
    and sinv: "starts_inv (sy_starts s') (sy_write_lock s') (length (states_of s'))" and wf: "hm_wf (table_of s')"
    and others: "\<And>pid. pid \<noteq> sk_process_id (sy_starts s ! k) \<Longrightarrow> hm_get (table_of s') pid = hm_get (table_of s) pid"
    and gone: "\<And>idx. hm_get (table_of s) (sk_process_id (sy_starts s ! k)) = Some idx \<Longrightarrow> reserved (start_at s k) \<noteq> Some idx \<Longrightarrow>
      hm_get (table_of s') (sk_process_id (sy_starts s ! k)) = Some idx"
    and own: "\<And>idx. hm_get (table_of s') (sk_process_id (sy_starts s ! k)) = Some idx \<Longrightarrow>
      hm_get (table_of s) (sk_process_id (sy_starts s ! k)) = Some idx \<and> reserved (start_at s k) \<noteq> Some idx
      \<or> held p = Some idx \<and> (handed_over p \<longrightarrow> ss_recoverable (states_of s' ! idx))"
    and mine: "\<And>idx. held p = Some idx \<Longrightarrow> hm_get (table_of s') (sk_process_id (sy_starts s ! k)) = Some idx
      \<or> session_over (states_of s' ! idx) \<or> idx \<in> failing s"
    and states: "\<And>idx. idx < length (states_of s) \<Longrightarrow> reserved (start_at s k) \<noteq> Some idx \<Longrightarrow> states_of s' ! idx = states_of s ! idx"
    and same: "sy_recoveries s' = sy_recoveries s" "is_failed (sy_connection s') = is_failed (sy_connection s)"
    and drained: "drained_client s \<Longrightarrow> table_of s' = [] \<and> sy_write_lock s' = None"
  shows "session_inv s'"
proof -
  have old: "starts_inv (sy_starts s) (sy_write_lock s) (length (states_of s))" using inv by (simp add: session_inv_def)
  have fail: "failing s' = failing s" "drained_client s' = drained_client s"
    by (simp_all add: failing_def drained_client_def same)
  have not_mine: "reserved (start_at s k) \<noteq> Some idx" if "l < length (sy_starts s)" "l \<noteq> k" "held (start_at s l) = Some idx" for l idx
    using old k that reserved_held [OF that(3)] unfolding starts_inv_def by metis
  have "\<exists>l < length (sy_starts s'). owned (sy_sessions s') (sy_starts s' ! l) pid idx"
    if get: "hm_get (table_of s') pid = Some idx" for pid idx
  proof (cases "pid = sk_process_id (sy_starts s ! k) \<and> held p = Some idx \<and> (handed_over p \<longrightarrow> ss_recoverable (states_of s' ! idx))")
    case True
    then show ?thesis using k by (intro exI [of _ k]) (simp add: starts owned_def)
  next
    case False
    then have kept: "hm_get (table_of s) pid = Some idx"
      "pid = sk_process_id (sy_starts s ! k) \<longrightarrow> reserved (start_at s k) \<noteq> Some idx"
      using get others [of pid] own [of idx] by metis+
    then obtain l where l: "l < length (sy_starts s)" "owned (sy_sessions s) (sy_starts s ! l) pid idx"
      using inv unfolding session_inv_def by blast
    then have "l \<noteq> k" using kept(2) reserved_held by (auto simp: owned_def)
    moreover have "states_of s' ! idx = states_of s ! idx"
      using l \<open>l \<noteq> k\<close> states not_mine held_valid [OF old] by (auto simp: owned_def)
    ultimately show ?thesis using l by (intro exI [of _ l]) (simp add: starts owned_def)
  qed
  moreover have "hm_get (table_of s') (sk_process_id (sy_starts s' ! l)) = Some idx \<or> session_over (states_of s' ! idx) \<or> idx \<in> failing s"
    if l: "l < length (sy_starts s')" "held (start_at s' l) = Some idx" for l idx
  proof (cases "l = k")
    case True
    then show ?thesis using mine [of idx] l k by (simp add: starts)
  next
    case False
    then have h: "held (start_at s l) = Some idx" "l < length (sy_starts s)" using l by (simp_all add: starts)
    have "hm_get (table_of s) (sk_process_id (sy_starts s ! l)) = Some idx \<or> session_over (states_of s ! idx) \<or> idx \<in> failing s"
      using inv h unfolding session_inv_def by blast
    moreover have "states_of s' ! idx = states_of s ! idx" using states held_valid [OF old h(2,1)] not_mine [OF h(2) False h(1)] by blast
    ultimately show ?thesis
      using False others [of "sk_process_id (sy_starts s ! l)"] gone [of idx] not_mine [OF h(2) False h(1)]
      by (cases "sk_process_id (sy_starts s ! l) = sk_process_id (sy_starts s ! k)") (auto simp: starts)
  qed
  ultimately show ?thesis using sinv wf drained unfolding session_inv_def fail by auto
qed

lemma starts_inv_update:
  assumes "starts_inv ts lock n" and "k < length ts" and "n \<le> n'"
    and "\<And>idx. p = StartInserting idx \<Longrightarrow> lock' = Some k"
    and "\<And>l. l \<noteq> k \<Longrightarrow> lock = Some l \<Longrightarrow> lock' = Some l"
    and "\<And>idx. reserved p = Some idx \<Longrightarrow> reserved (sk_phase (ts ! k)) = Some idx \<or> n \<le> idx \<and> idx < n'"
  shows "starts_inv (ts[k := (ts ! k)\<lparr>sk_phase := p\<rparr>]) lock' n'"
proof -
  have at: "sk_phase (ts[k := (ts ! k)\<lparr>sk_phase := p\<rparr>] ! l) = (if l = k then p else sk_phase (ts ! l))" if "l < length ts" for l
    using that by (simp add: nth_list_update)
  have valid: "idx < n" if "l < length ts" "reserved (sk_phase (ts ! l)) = Some idx" for l idx
    using assms(1) that by (simp add: starts_inv_def)
  have uniq: "l = m" if "l < length ts" "m < length ts" "reserved (sk_phase (ts ! l)) = Some idx" "reserved (sk_phase (ts ! m)) = Some idx" for l m idx
    using assms(1) that unfolding starts_inv_def by blast
  have lock: "lock = Some l" if "l < length ts" "sk_phase (ts ! l) = StartInserting idx" for l idx
    using assms(1) that by (simp add: starts_inv_def)
  have mine: "m = k" if "m < length ts" "m \<noteq> k" "reserved (sk_phase (ts ! m)) = Some idx" "reserved p = Some idx" for m idx
    using assms(6) [OF that(4)] uniq [OF that(1) assms(2) that(3)] valid [OF that(1,3)] by auto
  show ?thesis
    unfolding starts_inv_def length_list_update
  proof (intro conjI allI impI)
    fix l idx
    assume l: "l < length ts"
    show "lock' = Some l" if "sk_phase (ts[k := (ts ! k)\<lparr>sk_phase := p\<rparr>] ! l) = StartInserting idx"
      using that assms(4,5) lock [OF l] unfolding at [OF l] by (auto split: if_splits)
    show "idx < n'" if "reserved (sk_phase (ts[k := (ts ! k)\<lparr>sk_phase := p\<rparr>] ! l)) = Some idx"
      using that assms(3) assms(6) [of idx] valid [OF l, of idx] valid [OF assms(2), of idx] unfolding at [OF l] by (auto split: if_splits)
    fix m
    assume m: "m < length ts" and "reserved (sk_phase (ts[k := (ts ! k)\<lparr>sk_phase := p\<rparr>] ! l)) = Some idx"
      "reserved (sk_phase (ts[k := (ts ! k)\<lparr>sk_phase := p\<rparr>] ! m)) = Some idx"
    then show "l = m" using uniq [OF l m] mine l m unfolding at [OF l] at [OF m] by (metis (full_types))
  qed
qed

lemma owner_is:
  assumes "session_inv s" and "k < length (sy_starts s)" and "hm_get (table_of s) pid = Some idx" and "reserved (start_at s k) = Some idx"
  shows "owned (sy_sessions s) (sy_starts s ! k) pid idx"
proof -
  obtain l where l: "l < length (sy_starts s)" "owned (sy_sessions s) (sy_starts s ! l) pid idx"
    using assms(1,3) unfolding session_inv_def by blast
  then have "reserved (start_at s l) = Some idx" by (auto simp: owned_def intro: reserved_held)
  then have "l = k" using assms(1,2,4) l(1) unfolding session_inv_def starts_inv_def by blast
  then show ?thesis using l(2) by simp
qed

lemma session_invD:
  assumes "session_inv s"
  shows "hm_wf (table_of s)" and "starts_inv (sy_starts s) (sy_write_lock s) (length (states_of s))"
    and "k < length (sy_starts s) \<Longrightarrow> held (start_at s k) = Some idx \<Longrightarrow>
      hm_get (table_of s) (sk_process_id (sy_starts s ! k)) = Some idx \<or> session_over (states_of s ! idx) \<or> idx \<in> failing s"
    and "drained_client s \<Longrightarrow> table_of s = [] \<and> sy_write_lock s = None"
  using assms by (simp_all add: session_inv_def)

lemma session_inv_phase:
  assumes inv: "session_inv s" and k: "k < length (sy_starts s)"
    and s': "sy_starts s' = (sy_starts s)[k := (sy_starts s ! k)\<lparr>sk_phase := p\<rparr>]" "sy_sessions s' = sy_sessions s"
      "sy_write_lock s' = sy_write_lock s" "sy_recoveries s' = sy_recoveries s"
      "is_failed (sy_connection s') = is_failed (sy_connection s)"
    and p: "reserved p = reserved (start_at s k)" "held p = held (start_at s k)" "handed_over p \<longrightarrow> handed_over (start_at s k)"
      "\<And>idx. p \<noteq> StartInserting idx"
  shows "session_inv s'"
proof (rule session_inv_start [OF inv k s'(1)])
  show "starts_inv (sy_starts s') (sy_write_lock s') (length (states_of s'))"
    unfolding s' by (rule starts_inv_update [OF session_invD(2) [OF inv] k]) (use p in auto)
  show "hm_get (table_of s) (sk_process_id (sy_starts s ! k)) = Some idx \<and> reserved (start_at s k) \<noteq> Some idx
      \<or> held p = Some idx \<and> (handed_over p \<longrightarrow> ss_recoverable (states_of s' ! idx))"
    if "hm_get (table_of s') (sk_process_id (sy_starts s ! k)) = Some idx" for idx
    using that owner_is [OF inv k, of _ idx] p unfolding s' by (auto simp: owned_def)
qed (use session_invD [OF inv] k s' p in auto)

lemma session_inv_answered:
  assumes inv: "session_inv s" and k: "k < length (sy_starts s)" "start_at s k = StartCalling idx"
  shows "session_inv (start_answered k idx caller_waits s)" (is "session_inv ?s'")
proof (rule session_inv_start [OF inv k(1)])
  let ?p = "if caller_waits then StartAnswered idx else StartLost idx"
  have idx: "idx < length (states_of s)" using held_valid [OF session_invD(2) [OF inv] k(1)] k(2) by simp
  have s': "sy_starts ?s' = (sy_starts s)[k := (sy_starts s ! k)\<lparr>sk_phase := ?p\<rparr>]" "table_of ?s' = table_of s"
    "length (states_of ?s') = length (states_of s)" "sy_write_lock ?s' = sy_write_lock s" "sy_recoveries ?s' = sy_recoveries s"
    "states_of ?s' ! i = (if i = idx then (states_of s ! idx)\<lparr>ss_recoverable := caller_waits\<rparr> else states_of s ! i)" for i
    using idx by (simp_all add: start_answered_def set_start_def set_recoverable_def update_session_def nth_list_update)
  show "sy_starts ?s' = (sy_starts s)[k := (sy_starts s ! k)\<lparr>sk_phase := ?p\<rparr>]" by (rule s')
  show "starts_inv (sy_starts ?s') (sy_write_lock ?s') (length (states_of ?s'))"
    unfolding s' by (rule starts_inv_update [OF session_invD(2) [OF inv] k(1)]) (use k(2) in \<open>auto split: if_splits\<close>)
  show "hm_get (table_of s) (sk_process_id (sy_starts s ! k)) = Some i \<and> reserved (start_at s k) \<noteq> Some i
      \<or> held ?p = Some i \<and> (handed_over ?p \<longrightarrow> ss_recoverable (states_of ?s' ! i))"
    if "hm_get (table_of ?s') (sk_process_id (sy_starts s ! k)) = Some i" for i
    using that k(2) unfolding s' by auto
  show "hm_get (table_of ?s') (sk_process_id (sy_starts s ! k)) = Some i \<or> session_over (states_of ?s' ! i) \<or> i \<in> failing s"
    if "held ?p = Some i" for i
    using that session_invD(3) [OF inv k(1), of i] k(2) unfolding s' by (auto simp: session_over_def split: if_splits)
  show "states_of ?s' ! i = states_of s ! i" if "reserved (start_at s k) \<noteq> Some i" for i using that k(2) unfolding s' by auto
  show "is_failed (sy_connection ?s') = is_failed (sy_connection s)" by (simp add: start_answered_def set_start_def)
qed (use session_invD [OF inv] in \<open>simp_all add: start_answered_def set_start_def set_recoverable_def\<close>)

lemma session_inv_checked:
  assumes inv: "session_inv s" and k: "k < length (sy_starts s)" "start_at s k = StartBegun" and lock: "sy_write_lock s = None"
  shows "session_inv (start_check k s)" (is "session_inv ?s'")
proof (rule session_inv_start [OF inv k(1)])
  let ?n = "length (states_of s)"
  let ?p = "if is_failed (sy_connection s) then StartRejected else StartInserting ?n"
  have s': "sy_starts ?s' = (sy_starts s)[k := (sy_starts s ! k)\<lparr>sk_phase := ?p\<rparr>]" "table_of ?s' = table_of s"
    "length (states_of ?s') = Suc ?n" "sy_recoveries ?s' = sy_recoveries s"
    "sy_write_lock ?s' = (if is_failed (sy_connection s) then None else Some k)" "sy_connection ?s' = sy_connection s"
    "i < ?n \<Longrightarrow> states_of ?s' ! i = states_of s ! i" for i
    by (simp_all add: start_check_def set_start_def Let_def lock nth_append)
  show "sy_starts ?s' = (sy_starts s)[k := (sy_starts s ! k)\<lparr>sk_phase := ?p\<rparr>]" by (rule s')
  show "starts_inv (sy_starts ?s') (sy_write_lock ?s') (length (states_of ?s'))"
    unfolding s' by (rule starts_inv_update [OF session_invD(2) [OF inv] k(1)]) (use lock in \<open>auto split: if_splits\<close>)
  show "table_of ?s' = [] \<and> sy_write_lock ?s' = None" if "drained_client s"
    using session_invD(4) [OF inv that] that unfolding s' by (simp add: drained_client_def)
qed (use session_invD [OF inv] k(2) in \<open>auto simp: start_check_def set_start_def Let_def nth_append split: if_splits\<close>)

lemma session_inv_removed:
  assumes inv: "session_inv s" and k: "k < length (sy_starts s)" "reserved (start_at s k) = Some idx"
    and s': "sy_starts s' = (sy_starts s)[k := (sy_starts s ! k)\<lparr>sk_phase := p\<rparr>]"
      "sy_sessions s' = remove_session_if (sk_process_id (sy_starts s ! k)) idx (sy_sessions s)"
      "sy_write_lock s' = None" "sy_recoveries s' = sy_recoveries s" "sy_connection s' = sy_connection s"
    and p: "reserved p = None" and lock: "sy_write_lock s = None \<or> sy_write_lock s = Some k"
  shows "session_inv s'"
proof (rule session_inv_start [OF inv k(1) s'(1)])
  have held: "held p = None" using p by (cases p) auto
  show "starts_inv (sy_starts s') (sy_write_lock s') (length (states_of s'))"
    unfolding s' update_session_simps by (rule starts_inv_update [OF session_invD(2) [OF inv] k(1)]) (use p lock in auto)
  show "hm_wf (table_of s')" using session_invD(1) [OF inv] by (simp add: s' remove_session_if_def)
  show "hm_get (table_of s') (sk_process_id (sy_starts s ! k)) = Some i"
    if "hm_get (table_of s) (sk_process_id (sy_starts s ! k)) = Some i" "reserved (start_at s k) \<noteq> Some i" for i
    using that k(2) by (auto simp: s' remove_session_if_def)
  show "hm_get (table_of s) (sk_process_id (sy_starts s ! k)) = Some i \<and> reserved (start_at s k) \<noteq> Some i
      \<or> held p = Some i \<and> (handed_over p \<longrightarrow> ss_recoverable (states_of s' ! i))"
    if "hm_get (table_of s') (sk_process_id (sy_starts s ! k)) = Some i" for i
    using that k(2) by (auto simp: s' remove_session_if_def container_simps split: if_splits)
  show "table_of s' = [] \<and> sy_write_lock s' = None" if "drained_client s"
    using session_invD(4) [OF inv that] by (simp add: s' remove_session_if_def)
qed (use p s' in \<open>auto simp: remove_session_if_def container_simps dest: reserved_held\<close>)

lemma not_inserted:
  assumes "session_inv s" and "k < length (sy_starts s)" and "start_at s k = StartInserting idx"
  shows "hm_get (table_of s) pid \<noteq> Some idx"
  using owner_is [OF assms(1,2), of pid idx] assms(3) by (auto simp: owned_def)

lemma session_inv_inserted:
  assumes inv: "session_inv s" and k: "k < length (sy_starts s)" "start_at s k = StartInserting idx"
  shows "session_inv (start_insert k idx s)" (is "session_inv ?s'")
proof -
  let ?pid = "sk_process_id (sy_starts s ! k)"
  have lock: "sy_write_lock s = Some k" using session_invD(2) [OF inv] k by (simp add: starts_inv_def)
  show ?thesis
  proof (cases "hm_contains ?pid (table_of s)")
    case True
    have none: "hm_get (table_of s) ?pid \<noteq> Some idx" by (rule not_inserted [OF inv k])
    show ?thesis
      by (rule session_inv_removed [OF inv k(1), of idx _ StartRejected])
        (use True none lock k(2) in \<open>auto simp: start_insert_def insert_session_def set_start_def remove_session_if_def\<close>)
  next
    case False
    then have s': "sy_starts ?s' = (sy_starts s)[k := (sy_starts s ! k)\<lparr>sk_phase := StartCalling idx\<rparr>]"
      "table_of ?s' = hm_insert ?pid idx (table_of s)" "states_of ?s' = states_of s" "sy_write_lock ?s' = None"
      "sy_recoveries ?s' = sy_recoveries s" "sy_connection ?s' = sy_connection s"
      by (simp_all add: start_insert_def insert_session_def set_start_def)
    show ?thesis
    proof (rule session_inv_start [OF inv k(1) s'(1)])
      show "starts_inv (sy_starts ?s') (sy_write_lock ?s') (length (states_of ?s'))"
        unfolding s' by (rule starts_inv_update [OF session_invD(2) [OF inv] k(1)]) (use lock k(2) in auto)
      show "table_of ?s' = [] \<and> sy_write_lock ?s' = None" if "drained_client s"
        using session_invD(4) [OF inv that] lock by simp
    qed (use session_invD(1) [OF inv] False k(2) in \<open>auto simp: s' container_simps hm_contains_def\<close>)
  qed
qed

lemma session_inv_drained:
  assumes inv: "session_inv s" and j: "j < length (sy_recoveries s)" "recovery_at s j = FailDrain m" and lock: "sy_write_lock s = None"
  shows "session_inv (drain_sessions j m s)" (is "session_inv ?s'")
proof -
  have s': "sy_starts ?s' = sy_starts s" "table_of ?s' = []" "states_of ?s' = states_of s" "sy_write_lock ?s' = None"
    "sy_recoveries ?s' = (sy_recoveries s)[j := (sy_recoveries s ! j)\<lparr>rt_phase := FailSessions m (map snd (table_of s))\<rparr>]"
    by (simp_all add: drain_sessions_def take_all_sessions_def set_phase_def set_recovery_def lock)
  have new: "idx \<in> failing ?s'" if "hm_get (table_of s) pid = Some idx" for pid idx
  proof -
    have "idx \<in> set (map snd (table_of s))" using map_of_SomeD [OF that] by force
    then show ?thesis using set_update_memI [OF j(1)] unfolding failing_def s' by fastforce
  qed
  have old: "idx \<in> failing ?s'" if idx: "idx \<in> failing s" for idx
  proof -
    obtain u where u: "u \<in> set (sy_recoveries s)" "idx \<in> set (failing_list (rt_phase u))" using idx by (auto simp: failing_def)
    then obtain l where l: "l < length (sy_recoveries s)" "sy_recoveries s ! l = u" by (auto simp: in_set_conv_nth)
    then have "l \<noteq> j" using u(2) j(2) by auto
    then have "u \<in> set (sy_recoveries ?s')" using l by (metis s'(5) length_list_update nth_list_update_neq nth_mem)
    then show ?thesis using u(2) by (auto simp: failing_def)
  qed
  have "session_over (states_of s ! idx) \<or> idx \<in> failing ?s'"
    if "k < length (sy_starts s)" "held (start_at s k) = Some idx" for k idx
    using session_invD(3) [OF inv that] new old by blast
  moreover have "starts_inv (sy_starts s) None (length (states_of s))" using session_invD(2) [OF inv] lock by simp
  ultimately show ?thesis unfolding session_inv_def s' by simp
qed

lemma session_inv_failed:
  assumes inv: "session_inv s" and j: "j < length (sy_recoveries s)" "recovery_at s j = FailSessions m (idx # idxs)"
  shows "session_inv (set_phase j (FailSessions m idxs) (s\<lparr>sy_sessions := update_session idx (set_failure m) (sy_sessions s)\<rparr>))"
    (is "session_inv ?s'")
proof (rule session_inv_frame [OF inv])
  have recs: "sy_recoveries ?s' = (sy_recoveries s)[j := (sy_recoveries s ! j)\<lparr>rt_phase := FailSessions m idxs\<rparr>]"
    by (simp add: set_phase_def set_recovery_def)
  show "sessions_grow (sy_sessions s) (sy_sessions ?s')"
    using update_grows [of "sy_sessions s" idx "set_failure m"] set_failure_grows by (simp add: set_phase_def set_recovery_def)
  show "i \<in> failing ?s' \<or> session_over (states_of ?s' ! i)" if i: "i \<in> failing s" "i < length (states_of s)" for i
  proof (cases "i = idx")
    case True
    then show ?thesis using i(2) set_failure_grows by (simp add: set_phase_def set_recovery_def)
  next
    case False
    obtain u where u: "u \<in> set (sy_recoveries s)" "i \<in> set (failing_list (rt_phase u))" using i(1) by (auto simp: failing_def)
    then obtain l where l: "l < length (sy_recoveries s)" "sy_recoveries s ! l = u" by (auto simp: in_set_conv_nth)
    have "i \<in> set (failing_list (rt_phase (sy_recoveries ?s' ! l)))"
      using u(2) l j False by (cases "l = j") (auto simp: recs)
    moreover have "sy_recoveries ?s' ! l \<in> set (sy_recoveries ?s')" using l(1) recs by simp
    ultimately show ?thesis unfolding failing_def by blast
  qed
  show "drained_client s" if "drained_client ?s'"
  proof -
    have "\<not> draining (recovery_at s l)" if "l < length (sy_recoveries s)" for l
      using \<open>drained_client ?s'\<close> nth_mem [of l "sy_recoveries ?s'"] that j(2)
      by (cases "l = j") (auto simp: drained_client_def recs)
    then show ?thesis using that by (auto simp: drained_client_def in_set_conv_nth set_phase_def set_recovery_def)
  qed
qed (simp_all add: set_phase_def set_recovery_def)

lemma session_inv_requested:
  assumes "session_inv s"
  shows "session_inv (recover_requested i m (s\<lparr>sy_watchers := w\<rparr>))"
proof (cases "status_of s = Connected i")
  case True
  then show ?thesis
    by (intro session_inv_frame [OF assms])
      (simp_all add: recover_requested_def request_recovery_def failing_def drained_client_def is_failed_def failure_message_def)
next
  case False
  then show ?thesis
    by (intro session_inv_frame [OF assms])
      (simp_all add: recover_requested_def request_recovery_def failing_def drained_client_def)
qed

lemma is_failed_fields:
  "is_failed (finish_process_start c) = is_failed c" "is_failed (snd (begin_process_start i b c)) = is_failed c"
  "is_failed (snd (install_recovered_client i b c)) \<Longrightarrow> is_failed c"
  by (auto simp: finish_process_start_def begin_process_start_def install_recovered_client_def is_failed_def failure_message_def
      split: connection_status.splits if_splits)

lemma session_inv_install:
  assumes inv: "session_inv s" and j: "j < length (sy_recoveries s)" "recovery_at s j = ResumeDone i"
  shows "session_inv (install_candidate j i b s)"
proof -
  obtain r c where rc: "install_recovered_client i b (sy_connection s) = (r, c)" by fastforce
  have failed: "is_failed c \<Longrightarrow> is_failed (sy_connection s)" using is_failed_fields(3) [of i b "sy_connection s"] rc by simp
  let ?t = "if r then (sy_recoveries s ! j)\<lparr>rt_phase := RecoveryOver\<rparr> else recover_retry (sy_now s) (sy_recoveries s ! j)"
  show ?thesis
    by (rule session_inv_task [OF inv j(1), of _ ?t])
      (use j(2) failed in \<open>cases r; auto simp: install_candidate_def rc set_phase_def set_recovery_def\<close>)+
qed

lemma session_inv_client_fails:
  assumes inv: "session_inv s" and j: "j < length (sy_recoveries s)" "recovery_at s j = FailWith m"
  shows "session_inv (fail_client j m s)"
proof -
  obtain m' newly c where f: "fail_status m (sy_connection s) = ((m', newly), c)" by (metis prod.exhaust)
  have failed: "is_failed c \<Longrightarrow> is_failed (sy_connection s) \<or> newly"
    using f by (auto simp: fail_status_def is_failed_def failure_message_def split: connection_status.splits)
  show ?thesis
    by (rule session_inv_task [OF inv j(1), of _ "(sy_recoveries s ! j)\<lparr>rt_phase := if newly then FailDrain m' else RecoveryOver\<rparr>"])
      (use j(2) failed in \<open>auto simp: fail_client_def f set_phase_def set_recovery_def\<close>)
qed

lemma session_inv_start_begin:
  assumes inv: "session_inv s" and k: "k < length (sy_starts s)" "start_at s k = StartHasClient i"
  shows "session_inv (start_begin k i b s)"
proof -
  obtain r c where rc: "begin_process_start i b (sy_connection s) = (r, c)" by fastforce
  have "is_failed c = is_failed (sy_connection s)" using is_failed_fields(2) [of i b "sy_connection s"] rc by simp
  then show ?thesis
    by (intro session_inv_phase [OF inv k(1), of _ "if r then StartBegun else StartWait"])
      (use k(2) in \<open>auto simp: start_begin_def rc set_start_def\<close>)
qed

lemma session_inv_recovery_step:
  assumes inv: "session_inv s" and j: "j < length (sy_recoveries s)"
    and live: "live (recovery_at s j)" "\<not> draining (recovery_at s j)"
    and grow: "sessions_grow (sy_sessions s) ss"
  shows "session_inv (set_recovery j t (s\<lparr>sy_sessions := ss\<rparr>))"
proof -
  have "failing_list (recovery_at s j) = []" using live(1) by (cases "recovery_at s j") auto
  then show ?thesis by (rule session_inv_task [OF inv j _ live(2), of _ t]) (use grow in \<open>auto simp: set_recovery_def\<close>)
qed

lemma live_not_draining: "live p \<Longrightarrow> \<not> draining p"
  by (cases p) auto

lemma session_inv_live:
  assumes inv: "session_inv s" and j: "j < length (sy_recoveries s)" "live (recovery_at s j)"
  shows "session_inv (set_recovery j t s)" and "session_inv (set_phase j p s)"
    and "sessions_grow (sy_sessions s) ss \<Longrightarrow> session_inv (set_recovery j t (s\<lparr>sy_sessions := ss\<rparr>))"
    and "sessions_grow (sy_sessions s) ss \<Longrightarrow> session_inv (set_phase j p (s\<lparr>sy_sessions := ss\<rparr>))"
  using session_inv_recovery_step [OF inv j live_not_draining [OF j(2)], of "sy_sessions s"]
    session_inv_recovery_step [OF inv j live_not_draining [OF j(2)], of ss]
  by (simp_all add: set_phase_def)

lemma session_inv_step:
  assumes "client_step lk decode retryable s t" and inv: "session_inv s"
  shows "session_inv t"
  using assms(1)
proof cases
  case (watch_notification i k n u ss)
  then show ?thesis
    using handle_server_notification_grows [OF watch_notification(6)]
    by (auto intro!: session_inv_frame [OF inv] simp: failing_def drained_client_def)
next
  case (recover_times_out j)
  then have "live (recovery_at s j)" by (auto split: recovery_phase.splits)
  then show ?thesis using session_inv_live(1) [OF inv recover_times_out(2)] recover_times_out(1) by simp
next
  case (resume_connects j r)
  show ?thesis
    by (rule session_inv_task [OF inv resume_connects(2)])
      (use resume_connects in \<open>auto simp: candidate_connected_def set_recovery_def\<close>)
next
  case (process_recovered j i p ps response terminated u ss)
  then show ?thesis using session_inv_live(4) [OF inv process_recovered(2)] recover_process_grows [OF process_recovered(4)] by simp
next
  case (process_unrecovered j i p ps response terminated e ss)
  then show ?thesis using session_inv_live(3) [OF inv process_unrecovered(2)] recover_process_grows [OF process_unrecovered(4)] by simp
next
  case (recovery_ends j m)
  show ?thesis
    by (rule session_inv_task [OF inv recovery_ends(2)]) (use recovery_ends in \<open>auto simp: set_phase_def set_recovery_def\<close>)
next
  case (start_called pid)
  have sinv: "starts_inv (sy_starts t) (sy_write_lock t) (length (states_of t))"
    using session_invD(2) [OF inv] by (auto simp: start_called starts_inv_def nth_append less_Suc_eq)
  have own: "\<exists>k < length (sy_starts t). owned (sy_sessions t) (sy_starts t ! k) p idx"
    if get: "hm_get (table_of s) p = Some idx" for p idx
  proof -
    obtain k where "k < length (sy_starts s)" "owned (sy_sessions s) (sy_starts s ! k) p idx"
      using inv get unfolding session_inv_def by blast
    then show ?thesis by (intro exI [of _ k]) (simp add: start_called nth_append)
  qed
  show ?thesis
    using session_invD [OF inv] sinv own unfolding session_inv_def
    by (simp add: start_called failing_def drained_client_def nth_append less_Suc_eq)
next
  case (start_has_client k i)
  then show ?thesis by (intro session_inv_phase [OF inv start_has_client(2), of _ "StartHasClient i"]) (auto simp: set_start_def)
next
  case (start_client_failed k)
  then show ?thesis by (intro session_inv_phase [OF inv start_client_failed(2), of _ StartOver]) (auto simp: set_start_def)
next
  case (start_lost k idx)
  then show ?thesis by (intro session_inv_phase [OF inv start_lost(2), of _ "StartLost idx"]) (auto simp: set_start_def)
next
  case (start_ends k p)
  then have p: "reserved p = reserved (start_at s k)" "held p = held (start_at s k)" "handed_over p \<longrightarrow> handed_over (start_at s k)"
    "\<And>idx. p \<noteq> StartInserting idx" by (cases "start_at s k"; auto)+
  show ?thesis
    by (rule session_inv_phase [OF inv start_ends(2), of _ p]) (use start_ends p in \<open>auto simp: set_start_def is_failed_fields\<close>)
next
  case (start_rejects k idx)
  then show ?thesis
    by (intro session_inv_removed [OF inv start_rejects(2), of idx _ StartRejected]) (auto simp: start_rejected_def set_start_def)
next
  case (session_removed k idx)
  then show ?thesis
    by (intro session_inv_removed [OF inv session_removed(2), of idx _ StartOver]) (auto simp: set_start_def)
next
  case (link_moves i r)
  then show ?thesis by (intro session_inv_frame [OF inv]) (simp_all add: failing_def drained_client_def)
next
  case (time_passes d)
  then show ?thesis by (intro session_inv_frame [OF inv]) (simp_all add: failing_def drained_client_def)
next
  case (session_named sid)
  then show ?thesis by (intro session_inv_frame [OF inv]) (simp_all add: failing_def drained_client_def)
next
  case (watch_error i k n e ss)
  then show ?thesis by (intro session_inv_frame [OF inv]) (simp_all add: failing_def drained_client_def)
qed (auto intro: session_inv_requested [OF inv] session_inv_live [OF inv] session_inv_install [OF inv] session_inv_client_fails [OF inv]
    session_inv_drained [OF inv] session_inv_failed [OF inv] session_inv_start_begin [OF inv] session_inv_checked [OF inv]
    session_inv_inserted [OF inv] session_inv_answered [OF inv])


subsection \<open>Attempts to resume are bounded\<close>

text \<open>The instant before which the attempt after \<open>n\<close> others cannot begin.\<close>

definition attempt_not_before :: "nat \<Rightarrow> recovery_task \<Rightarrow> nat" where
  "attempt_not_before n t =
     min (rt_deadline t - session_recovery_timeout + n * session_recovery_retry_interval) (rt_deadline t)"

definition attempts_inv :: "nat \<Rightarrow> recovery_task \<Rightarrow> bool" where
  "attempts_inv now t \<longleftrightarrow>
     (case rt_phase t of
        RecoverSpawned \<Rightarrow> rt_attempts t = 0
      | WaitStarts \<Rightarrow> rt_attempts t = 0 \<and> session_recovery_timeout \<le> rt_deadline t \<and> attempt_not_before 0 t \<le> now
      | Resume \<Rightarrow> rt_attempts t \<le> 250 \<and> session_recovery_timeout \<le> rt_deadline t \<and> attempt_not_before (rt_attempts t) t \<le> now
      | RetrySleep u \<Rightarrow> rt_attempts t \<le> 250 \<and> session_recovery_timeout \<le> rt_deadline t \<and> attempt_not_before (rt_attempts t) t \<le> u
          \<and> u \<le> rt_deadline t \<and> rt_deadline t \<le> now + session_recovery_timeout
      | p \<Rightarrow> rt_attempts t \<le> 251 \<and>
          (resuming p \<longrightarrow> 0 < rt_attempts t \<and> session_recovery_timeout \<le> rt_deadline t \<and> attempt_not_before (rt_attempts t - 1) t \<le> now))"

lemmas attempts_defs = attempts_inv_def attempt_not_before_def session_recovery_timeout_def session_recovery_retry_interval_def

lemma attempts_inv_later: "attempts_inv now t \<Longrightarrow> now \<le> now' \<Longrightarrow> attempts_inv now' t"
  by (auto simp: attempts_inv_def split: recovery_phase.splits)

lemma attempts_inv_retry:
  assumes "0 < rt_attempts t" and "rt_attempts t \<le> 251" and "session_recovery_timeout \<le> rt_deadline t"
    and "attempt_not_before (rt_attempts t - 1) t \<le> now"
  shows "attempts_inv now (recover_retry now t)"
proof -
  obtain n where n: "rt_attempts t = Suc n" using assms(1) by (cases "rt_attempts t") auto
  show ?thesis
  proof (cases "now < rt_deadline t")
    case True
    moreover have "n < 250" using assms(3,4) True n by (auto simp: attempts_defs min_def split: if_splits)
    ultimately show ?thesis using assms(3,4) n by (auto simp: attempts_defs recover_retry_def min_def split: if_splits)
  qed (use assms(2) in \<open>simp add: attempts_defs recover_retry_def recover_timed_out_def\<close>)
qed

lemma attempts_inv_error:
  assumes "0 < rt_attempts t" and "rt_attempts t \<le> 251" and "session_recovery_timeout \<le> rt_deadline t"
    and "attempt_not_before (rt_attempts t - 1) t \<le> now"
  shows "attempts_inv now (resume_error retryable now e t)"
  using attempts_inv_retry [OF assms] assms(2) by (simp add: resume_error_def attempts_inv_def)

definition attempts_bounded :: "'r client_system \<Rightarrow> bool" where
  "attempts_bounded s \<longleftrightarrow> (\<forall>t \<in> set (sy_recoveries s). attempts_inv (sy_now s) t)"

lemma attempts_bounded_task:
  assumes "attempts_bounded s" and "sy_recoveries s' = (sy_recoveries s)[j := t]" and "sy_now s' = sy_now s" and "attempts_inv (sy_now s) t"
  shows "attempts_bounded s'"
  using assms set_update_subset_insert [of "sy_recoveries s" j t] by (auto simp: attempts_bounded_def)

lemma attempts_bounded_at: "attempts_bounded s \<Longrightarrow> j < length (sy_recoveries s) \<Longrightarrow> attempts_inv (sy_now s) (sy_recoveries s ! j)"
  by (simp add: attempts_bounded_def)

lemma attempts_bounded_frame:
  assumes "attempts_bounded s" and "sy_recoveries s' = sy_recoveries s" and "sy_now s \<le> sy_now s'"
  shows "attempts_bounded s'"
  using assms attempts_inv_later by (auto simp: attempts_bounded_def)

lemma attempts_bounded_requested:
  assumes "attempts_bounded s" and "sy_recoveries s' = sy_recoveries s" and "sy_now s' = sy_now s"
  shows "attempts_bounded (recover_requested i m s')"
  using assms
  by (cases "status_of s' = Connected i") (auto simp: recover_requested_def request_recovery_def attempts_bounded_def attempts_inv_def)

lemma attempts_bounded_step:
  assumes "client_step lk decode retryable s t" and inv: "attempts_bounded s"
  shows "attempts_bounded t"
  using assms(1)
proof cases
  case (watch_closed i m)
  show ?thesis unfolding watch_closed(1) by (rule attempts_bounded_requested [OF inv]) simp_all
next
  case (watch_disconnected i k reason)
  show ?thesis unfolding watch_disconnected(1) by (rule attempts_bounded_requested [OF inv]) simp_all
next
  case (recover_begins j)
  then show ?thesis
    using attempts_bounded_at [OF inv recover_begins(2)]
    by (intro attempts_bounded_task [OF inv, of _ j]) (auto simp: set_recovery_def recover_begin_def attempts_defs)
next
  case (starts_end j)
  then show ?thesis
    using attempts_bounded_at [OF inv starts_end(2)]
    by (intro attempts_bounded_task [OF inv, of _ j]) (auto simp: set_recovery_def starts_done_def attempts_inv_def attempt_not_before_def)
next
  case (recover_times_out j)
  then show ?thesis
    using attempts_bounded_at [OF inv recover_times_out(2)]
    by (intro attempts_bounded_task [OF inv, of _ j "recover_timed_out (sy_recoveries s ! j)"])
      (auto simp: set_recovery_def recover_timed_out_def attempts_inv_def split: recovery_phase.splits)
next
  case (resume_connects j r)
  then show ?thesis
    using attempts_bounded_at [OF inv resume_connects(2)]
    by (intro attempts_bounded_task [OF inv, of _ j]) (auto simp: candidate_connected_def set_recovery_def attempts_inv_def attempt_not_before_def)
next
  case (resume_unconnected j e)
  let ?t = "(sy_recoveries s ! j)\<lparr>rt_attempts := Suc (rt_attempts (sy_recoveries s ! j))\<rparr>"
  have "attempts_inv (sy_now s) (resume_error retryable (sy_now s) e ?t)"
    using attempts_bounded_at [OF inv resume_unconnected(2)] resume_unconnected(3)
    by (intro attempts_inv_error) (auto simp: attempts_inv_def attempt_not_before_def)
  then show ?thesis using resume_unconnected by (intro attempts_bounded_task [OF inv, of _ j]) (auto simp: set_recovery_def)
next
  case (resume_initialized j i)
  then show ?thesis
    using attempts_bounded_at [OF inv resume_initialized(2)]
    by (intro attempts_bounded_task [OF inv, of _ j]) (auto simp: set_phase_def set_recovery_def attempts_inv_def attempt_not_before_def)
next
  case (resume_init_failed j i e)
  have "attempts_inv (sy_now s) (resume_error retryable (sy_now s) e (sy_recoveries s ! j))"
    using attempts_bounded_at [OF inv resume_init_failed(2)] resume_init_failed(3) by (intro attempts_inv_error) (auto simp: attempts_inv_def)
  then show ?thesis using resume_init_failed by (intro attempts_bounded_task [OF inv, of _ j]) (auto simp: set_recovery_def)
next
  case (process_recovered j i p ps response terminated u ss)
  then show ?thesis
    using attempts_bounded_at [OF inv process_recovered(2)]
    by (intro attempts_bounded_task [OF inv, of _ j]) (auto simp: set_phase_def set_recovery_def attempts_inv_def attempt_not_before_def)
next
  case (process_unrecovered j i p ps response terminated e ss)
  have "attempts_inv (sy_now s) (resume_error retryable (sy_now s) e (sy_recoveries s ! j))"
    using attempts_bounded_at [OF inv process_unrecovered(2)] process_unrecovered(3) by (intro attempts_inv_error) (auto simp: attempts_inv_def)
  then show ?thesis using process_unrecovered by (intro attempts_bounded_task [OF inv, of _ j]) (auto simp: set_recovery_def)
next
  case (resume_ends j i)
  then show ?thesis
    using attempts_bounded_at [OF inv resume_ends(2)]
    by (intro attempts_bounded_task [OF inv, of _ j]) (auto simp: set_phase_def set_recovery_def attempts_inv_def attempt_not_before_def)
next
  case (install j i)
  obtain r c where rc: "install_recovered_client i (lk_disconnected lk (sy_rpcs s ! i)) (sy_connection s) = (r, c)" by fastforce
  let ?t = "if r then (sy_recoveries s ! j)\<lparr>rt_phase := RecoveryOver\<rparr> else recover_retry (sy_now s) (sy_recoveries s ! j)"
  have "attempts_inv (sy_now s) ?t"
    using attempts_bounded_at [OF inv install(2)] install(3) attempts_inv_retry [of "sy_recoveries s ! j" "sy_now s"]
    by (auto simp: attempts_inv_def)
  then show ?thesis
    by (intro attempts_bounded_task [OF inv, of _ j ?t])
      (use install in \<open>cases r; auto simp: install_candidate_def rc set_phase_def set_recovery_def\<close>)+
next
  case (retry_wakes j u)
  then show ?thesis
    using attempts_bounded_at [OF inv retry_wakes(2)]
    by (intro attempts_bounded_task [OF inv, of _ j]) (auto simp: set_phase_def set_recovery_def attempts_inv_def attempt_not_before_def)
next
  case (client_fails j m)
  obtain m' newly c where f: "fail_status m (sy_connection s) = ((m', newly), c)" by (metis prod.exhaust)
  show ?thesis
    using attempts_bounded_at [OF inv client_fails(2)] client_fails
    by (intro attempts_bounded_task [OF inv, of _ j]) (auto simp: fail_client_def f set_phase_def set_recovery_def attempts_inv_def)
next
  case (sessions_drained j m)
  then show ?thesis
    using attempts_bounded_at [OF inv sessions_drained(2)]
    by (intro attempts_bounded_task [OF inv, of _ j])
      (auto simp: drain_sessions_def take_all_sessions_def set_phase_def set_recovery_def attempts_inv_def)
next
  case (session_failed j m idx idxs)
  then show ?thesis
    using attempts_bounded_at [OF inv session_failed(2)]
    by (intro attempts_bounded_task [OF inv, of _ j]) (auto simp: set_phase_def set_recovery_def attempts_inv_def)
next
  case (recovery_ends j m)
  then show ?thesis
    using attempts_bounded_at [OF inv recovery_ends(2)]
    by (intro attempts_bounded_task [OF inv, of _ j]) (auto simp: set_phase_def set_recovery_def attempts_inv_def)
next
  case (start_begins k i)
  then show ?thesis by (intro attempts_bounded_frame [OF inv]) (simp_all add: start_begin_def set_start_def split_beta)
next
  case (start_inserts k idx)
  obtain p ss where "start_insert k idx s = set_start k p (s\<lparr>sy_sessions := ss, sy_write_lock := None\<rparr>)"
    by (rule start_insert_cases)
  then show ?thesis using start_inserts by (intro attempts_bounded_frame [OF inv]) (simp_all add: set_start_def)
qed (auto intro!: attempts_bounded_frame [OF inv] simp: start_step_defs Let_def)

subsection \<open>The write lock has a holder\<close>

definition lock_inv :: "'r client_system \<Rightarrow> bool" where
  "lock_inv s \<longleftrightarrow> (\<forall>k. sy_write_lock s = Some k \<longrightarrow> k < length (sy_starts s) \<and> (\<exists>idx. start_at s k = StartInserting idx))"

lemma lock_inv_frame:
  "lock_inv s \<Longrightarrow> sy_write_lock s' = sy_write_lock s \<Longrightarrow> sy_starts s' = sy_starts s \<Longrightarrow> lock_inv s'"
  by (simp add: lock_inv_def)

lemma lock_inv_start:
  assumes "lock_inv s" and "\<And>idx. start_at s k \<noteq> StartInserting idx" and "sy_write_lock s' = sy_write_lock s"
    and "sy_starts s' = (sy_starts s)[k := (sy_starts s ! k)\<lparr>sk_phase := p\<rparr>]"
  shows "lock_inv s'"
  unfolding lock_inv_def
proof (intro allI impI)
  fix l
  assume "sy_write_lock s' = Some l"
  then obtain idx where l: "l < length (sy_starts s)" "start_at s l = StartInserting idx" using assms(1,3) by (auto simp: lock_inv_def)
  then have "l \<noteq> k" using assms(2) by auto
  then show "l < length (sy_starts s') \<and> (\<exists>idx. start_at s' l = StartInserting idx)" using l by (simp add: assms(4))
qed

lemma lock_inv_step:
  assumes "client_step lk decode retryable s t" and inv: "lock_inv s"
  shows "lock_inv t"
  using assms(1)
proof cases
  case (start_called pid)
  then show ?thesis using inv by (auto simp: lock_inv_def nth_append)
next
  case (start_has_client k i)
  show ?thesis by (rule lock_inv_start [OF inv, of k]) (use start_has_client in \<open>simp_all add: set_start_def\<close>)
next
  case (start_client_failed k)
  show ?thesis by (rule lock_inv_start [OF inv, of k]) (use start_client_failed in \<open>simp_all add: set_start_def\<close>)
next
  case (start_begins k i)
  show ?thesis by (rule lock_inv_start [OF inv, of k]) (use start_begins in \<open>simp_all add: start_begin_def set_start_def split_beta\<close>)
next
  case (start_checks k)
  then show ?thesis by (auto simp: lock_inv_def start_check_def set_start_def Let_def)
next
  case (start_inserts k idx)
  obtain p ss where "start_insert k idx s = set_start k p (s\<lparr>sy_sessions := ss, sy_write_lock := None\<rparr>)"
    by (rule start_insert_cases)
  then show ?thesis using start_inserts by (simp add: lock_inv_def set_start_def)
next
  case (start_answers k idx caller_waits)
  show ?thesis by (rule lock_inv_start [OF inv, of k]) (use start_answers in \<open>simp_all add: start_answered_def set_start_def\<close>)
next
  case (start_lost k idx)
  show ?thesis by (rule lock_inv_start [OF inv, of k]) (use start_lost in \<open>simp_all add: set_start_def\<close>)
next
  case (start_rejects k idx)
  show ?thesis by (rule lock_inv_start [OF inv, of k]) (use start_rejects in \<open>simp_all add: start_rejected_def set_start_def\<close>)
next
  case (start_ends k p)
  show ?thesis by (rule lock_inv_start [OF inv, of k]) (use start_ends in \<open>auto simp: set_start_def\<close>)
next
  case (session_removed k idx)
  show ?thesis by (rule lock_inv_start [OF inv, of k]) (use session_removed in \<open>auto simp: set_start_def\<close>)
qed (auto intro!: lock_inv_frame [OF inv] simp: set_phase_def set_recovery_def recover_requested_def request_recovery_def
    candidate_connected_def install_candidate_def install_recovered_client_def fail_client_def drain_sessions_def take_all_sessions_def
    split: prod.splits bool.splits)

subsection \<open>All invariants of a run\<close>

definition client_inv :: "(json_value \<Rightarrow> string + 't) \<Rightarrow> 't rpc_system client_system \<Rightarrow> bool" where
  "client_inv dec s \<longleftrightarrow> recovery_inv s \<and> watch_inv (rpc_client_link dec) closed_first s \<and> session_inv s \<and> attempts_bounded s
     \<and> lock_inv s"

lemma session_start: "client_start lk s \<Longrightarrow> session_inv s"
  by (auto simp: client_start_def session_inv_def starts_inv_def hm_wf_def)

lemma attempts_start: "client_start lk s \<Longrightarrow> attempts_bounded s"
  by (auto simp: client_start_def attempts_bounded_def)

lemma lock_start: "client_start lk s \<Longrightarrow> lock_inv s"
  by (auto simp: client_start_def lock_inv_def)

interpretation client_run: transition_invariant "client_start (rpc_client_link dec)"
  "client_step (rpc_client_link dec) decode retryable" "client_inv dec" for dec decode retryable
proof unfold_locales
  show "client_start (rpc_client_link dec) s \<Longrightarrow> client_inv dec s" for s
    using recovery_start rpc_client.watch_start session_start attempts_start lock_start by (auto simp: client_inv_def)
  fix s t
  assume step: "client_step (rpc_client_link dec) decode retryable s t" and inv: "client_inv dec s"
  show "client_inv dec t"
    using inv recovery_inv_step [OF step] rpc_client.watch_step [OF step] session_inv_step [OF step] attempts_bounded_step [OF step]
      lock_inv_step [OF step] by (simp add: client_inv_def)
qed

abbreviation client_reaches ::
  "(json_value \<Rightarrow> string + 't) \<Rightarrow> notification_decoder \<Rightarrow> (exec_server_error \<Rightarrow> bool) \<Rightarrow> 't rpc_system client_system \<Rightarrow> bool" where
  "client_reaches dec decode retryable \<equiv>
     reachable_from (client_start (rpc_client_link dec)) (client_step (rpc_client_link dec) decode retryable)"

subsection \<open>A lost connection is noticed\<close>

lemma reader_iter_link:
  assumes "reader_iter n r = Some r'" and "closed_first r"
  shows "closed_first r' \<and> prefix (rc_events (rs_client r)) (rc_events (rs_client r'))"
  using assms
proof (induction n arbitrary: r)
  case (Suc n)
  then obtain u where u: "reader_step r = Some u" "reader_iter n u = Some r'" by (auto split: option.splits)
  then show ?case using reader_step_link [OF u(1) Suc(3)] Suc(1) [OF u(2)] by (meson prefix_order.trans)
qed simp

lemma client_reader_runs:
  assumes "reader_iter n (sy_rpcs s ! i) = Some r" and "i < length (sy_rpcs s)"
  shows "(client_step (rpc_client_link dec) decode retryable)\<^sup>*\<^sup>* s (s\<lparr>sy_rpcs := (sy_rpcs s)[i := r]\<rparr>)"
  using assms
proof (induction n arbitrary: s)
  case (Suc n)
  then obtain u where u: "reader_step (sy_rpcs s ! i) = Some u" "reader_iter n u = Some r" by (auto split: option.splits)
  let ?s = "s\<lparr>sy_rpcs := (sy_rpcs s)[i := u]\<rparr>"
  have "client_step (rpc_client_link dec) decode retryable s ?s"
    by (rule client_step.link_moves [OF Suc(3)]) (simp add: rpc_client_link_def rpc_step.reader [OF u(1)])
  moreover have "(client_step (rpc_client_link dec) decode retryable)\<^sup>*\<^sup>* ?s (s\<lparr>sy_rpcs := (sy_rpcs s)[i := r]\<rparr>)"
    using Suc(1) [of ?s] u(2) Suc(3) by simp
  ultimately show ?case by (rule converse_rtranclp_into_rtranclp)
qed auto

text \<open>Whoever holds the write lock can give it back.\<close>

lemma write_lock_released:
  assumes "lock_inv s"
  obtains t where "(client_step lk decode retryable)\<^sup>*\<^sup>* s t" "sy_write_lock t = None" "sy_connection t = sy_connection s"
    "sy_rpcs t = sy_rpcs s" "sy_watchers t = sy_watchers s" "sy_recoveries t = sy_recoveries s" "sy_now t = sy_now s"
proof (cases "sy_write_lock s")
  case None
  then show ?thesis using that [of s] by simp
next
  case (Some k)
  then obtain idx where k: "k < length (sy_starts s)" "start_at s k = StartInserting idx" using assms by (auto simp: lock_inv_def)
  obtain p ss where p: "start_insert k idx s = set_start k p (s\<lparr>sy_sessions := ss, sy_write_lock := None\<rparr>)"
    by (rule start_insert_cases)
  have "(client_step lk decode retryable)\<^sup>*\<^sup>* s (start_insert k idx s)"
    by (rule r_into_rtranclp [of "client_step lk decode retryable"], rule client_step.start_inserts [OF k])
  then show ?thesis by (rule that) (simp_all add: p set_start_def)
qed

lemma recover_requested_status: "status_of s = Connected i \<Longrightarrow> status_of (recover_requested i m (s\<lparr>sy_watchers := w\<rparr>)) = Recovering"
  by (simp add: recover_requested_def request_recovery_def)

lemma closing_watcher_reports:
  assumes "status_of s = Connected i" and "i < length (sy_watchers s)" and "sy_watchers s ! i = WatchClosing m"
  shows "\<exists>t. (client_step lk decode retryable)\<^sup>*\<^sup>* s t \<and> status_of t = Recovering"
  using recover_requested_status [OF assms(1)] client_step.watch_closed [OF assms(2,3), of lk decode retryable]
  by (meson r_into_rtranclp)

lemma bad_notification_reported:
  assumes "status_of s = Connected i" and "i < length (sy_watchers s)" and "sy_watchers s ! i = Watching k"
    and "k < length (lk_events lk (sy_rpcs s ! i))" and "lk_events lk (sy_rpcs s ! i) ! k = RpcNotification n"
    and "handle_server_notification decode n (sy_sessions s) = (Inl e, ss)"
  shows "\<exists>t. (client_step lk decode retryable)\<^sup>*\<^sup>* s t \<and> status_of t = Recovering"
proof -
  let ?m = "''exec-server notification handling failed: '' @ show_exec_server_error e"
  let ?u = "s\<lparr>sy_rpcs := (sy_rpcs s)[i := lk_close lk (sy_rpcs s ! i)], sy_watchers := (sy_watchers s)[i := WatchClosing ?m]\<rparr>"
  have step: "client_step lk decode retryable s ?u" by (rule client_step.watch_error [OF assms(2-6)])
  obtain t where "(client_step lk decode retryable)\<^sup>*\<^sup>* ?u t" "status_of t = Recovering"
    using closing_watcher_reports [of ?u i ?m lk decode retryable] assms(1,2) by auto
  then show ?thesis using converse_rtranclp_into_rtranclp [of "client_step lk decode retryable", OF step] by blast
qed

lemma watcher_reaches_disconnect:
  assumes "lock_inv s" and "status_of s = Connected i" and "i < length (sy_watchers s)" and "sy_watchers s ! i = Watching k"
    and "notifications_only (take k (lk_events lk (sy_rpcs s ! i)))" and "RpcDisconnected reason \<in> set (lk_events lk (sy_rpcs s ! i))"
  shows "\<exists>t. (client_step lk decode retryable)\<^sup>*\<^sup>* s t \<and> status_of t = Recovering"
  using assms
proof (induction "length (lk_events lk (sy_rpcs s ! i)) - k" arbitrary: s k)
  case 0
  then show ?case by (auto simp: notifications_only_def)
next
  case (Suc d)
  have k: "k < length (lk_events lk (sy_rpcs s ! i))" using Suc(2) by simp
  obtain u where u: "(client_step lk decode retryable)\<^sup>*\<^sup>* s u" "sy_write_lock u = None" "sy_connection u = sy_connection s"
    "sy_rpcs u = sy_rpcs s" "sy_watchers u = sy_watchers s"
    using write_lock_released [OF Suc(3)] by metis
  have "\<exists>t. (client_step lk decode retryable)\<^sup>*\<^sup>* u t \<and> status_of t = Recovering"
  proof (cases "lk_events lk (sy_rpcs s ! i) ! k")
    case (RpcDisconnected r)
    then show ?thesis
      using recover_requested_status [of u i] client_step.watch_disconnected [of i u k lk r decode retryable] k Suc(4-6) u(3-5)
      by (metis r_into_rtranclp)
  next
    case (RpcNotification n)
    obtain r ss where h: "handle_server_notification decode n (sy_sessions u) = (r, ss)" by fastforce
    show ?thesis
    proof (cases r)
      case (Inl e)
      then show ?thesis
        using bad_notification_reported [of u i k lk n decode e ss retryable] h RpcNotification k Suc(4-6) u(3-5) by simp
    next
      case (Inr x)
      let ?v = "u\<lparr>sy_sessions := ss, sy_watchers := (sy_watchers u)[i := Watching (Suc k)]\<rparr>"
      have step: "client_step lk decode retryable u ?v"
        by (rule client_step.watch_notification [of i u k lk n]) (use Inr h RpcNotification k Suc(4-6) u in \<open>auto simp: may_write_def\<close>)
      have "notifications_only (take (Suc k) (lk_events lk (sy_rpcs s ! i)))"
        using Suc(7) RpcNotification k by (auto simp: take_Suc_conv_app_nth notifications_only_def)
      then have "\<exists>t. (client_step lk decode retryable)\<^sup>*\<^sup>* ?v t \<and> status_of t = Recovering"
        using Suc(1) [of ?v "Suc k"] Suc(2,4-8) u by (auto simp: lock_inv_def)
      then show ?thesis using converse_rtranclp_into_rtranclp [of "client_step lk decode retryable", OF step] by blast
    qed
  qed
  then show ?case using u(1) by (meson rtranclp_trans)
qed


subsection \<open>A recovery ends\<close>

lemma failing_recovery_ends:
  assumes "j < length (sy_recoveries s)" and "recovery_at s j = FailWith m"
  shows "\<exists>t. (client_step lk decode retryable)\<^sup>*\<^sup>* s t \<and> status_of t \<noteq> Recovering \<and> sy_now t = sy_now s"
proof -
  have "client_step lk decode retryable s (fail_client j m s)" by (rule client_step.client_fails [OF assms])
  moreover have "status_of (fail_client j m s) \<noteq> Recovering" "sy_now (fail_client j m s) = sy_now s"
    by (simp_all add: fail_client_def fail_status_def set_phase_def set_recovery_def split: connection_status.split)
  ultimately show ?thesis by blast
qed

lemma late_recovery_ends:
  assumes "j < length (sy_recoveries s)" and "rt_deadline (sy_recoveries s ! j) \<le> D" and "sy_now s \<le> D"
    and "case recovery_at s j of WaitStarts \<Rightarrow> True | Resume \<Rightarrow> True | ResumeInit _ \<Rightarrow> True | ResumeProcs _ _ \<Rightarrow> True | _ \<Rightarrow> False"
  shows "\<exists>t. (client_step lk decode retryable)\<^sup>*\<^sup>* s t \<and> status_of t \<noteq> Recovering \<and> sy_now t \<le> D"
proof -
  let ?u = "s\<lparr>sy_now := sy_now s + (D - sy_now s)\<rparr>"
  let ?v = "set_recovery j (recover_timed_out (sy_recoveries s ! j)) ?u"
  have u: "client_step lk decode retryable s ?u" by (rule client_step.time_passes)
  have "client_step lk decode retryable ?u (set_recovery j (recover_timed_out (sy_recoveries ?u ! j)) ?u)"
    by (rule client_step.recover_times_out) (use assms in simp_all)
  then have v: "client_step lk decode retryable ?u ?v" by simp
  obtain t where "(client_step lk decode retryable)\<^sup>*\<^sup>* ?v t" "status_of t \<noteq> Recovering" "sy_now t = sy_now ?v"
    using failing_recovery_ends [of j ?v "resume_failed_message (rt_message (sy_recoveries s ! j)) recovery_timed_out" lk decode retryable]
      assms(1) by (auto simp: set_recovery_def recover_timed_out_def)
  moreover have "sy_now ?v \<le> D" using assms(3) by (simp add: set_recovery_def)
  ultimately show ?thesis
    using converse_rtranclp_into_rtranclp [of "client_step lk decode retryable", OF u]
      converse_rtranclp_into_rtranclp [of "client_step lk decode retryable", OF v] by metis
qed

lemma sleeping_recovery_ends:
  assumes j: "j < length (sy_recoveries s)" "recovery_at s j = RetrySleep u" and "u \<le> D" "rt_deadline (sy_recoveries s ! j) \<le> D" "sy_now s \<le> D"
  shows "\<exists>t. (client_step lk decode retryable)\<^sup>*\<^sup>* s t \<and> status_of t \<noteq> Recovering \<and> sy_now t \<le> D"
proof -
  let ?u = "s\<lparr>sy_now := sy_now s + (D - sy_now s)\<rparr>"
  let ?v = "set_phase j Resume ?u"
  have "client_step lk decode retryable s ?u" by (rule client_step.time_passes)
  moreover have "client_step lk decode retryable ?u ?v" by (rule client_step.retry_wakes [of j ?u u]) (use assms in simp_all)
  moreover have "\<exists>t. (client_step lk decode retryable)\<^sup>*\<^sup>* ?v t \<and> status_of t \<noteq> Recovering \<and> sy_now t \<le> D"
    by (rule late_recovery_ends [of j]) (use assms in \<open>simp_all add: set_phase_def set_recovery_def\<close>)
  ultimately show ?thesis by (meson converse_rtranclp_into_rtranclp)
qed

lemma retrying_recovery_ends:
  assumes j: "j < length (sy_recoveries s)" "sy_recoveries s ! j = recover_retry (sy_now s) t" and D: "rt_deadline t \<le> D" "sy_now s \<le> D"
  shows "\<exists>t. (client_step lk decode retryable)\<^sup>*\<^sup>* s t \<and> status_of t \<noteq> Recovering \<and> sy_now t \<le> D"
proof (cases "sy_now s \<ge> rt_deadline t")
  case True
  then have "recovery_at s j = FailWith (resume_failed_message (rt_message t) recovery_timed_out)"
    using j(2) by (simp add: recover_retry_def recover_timed_out_def)
  from failing_recovery_ends [OF j(1) this, of lk decode retryable] show ?thesis using D(2) by auto
next
  case False
  then have at: "recovery_at s j = RetrySleep (sy_now s + min session_recovery_retry_interval (rt_deadline t - sy_now s))"
    "rt_deadline (sy_recoveries s ! j) = rt_deadline t"
    using j(2) by (simp_all add: recover_retry_def)
  show ?thesis by (rule sleeping_recovery_ends [OF j(1) at(1)]) (use D False at(2) in auto)
qed


lemma count_if_unique:
  assumes "count_if P xs = 1" and "i < length xs" "P (xs ! i)" and "j < length xs" "P (xs ! j)"
  shows "i = j"
  using assms
proof (induction xs arbitrary: i j)
  case (Cons x xs)
  have rest: "count_if P (x # xs) = (if P x then 1 else 0) + count_if P xs" by (simp add: count_if_def)
  show ?case
  proof (cases "P x")
    case True
    then have "count_if P xs = 0" using Cons(2) rest by simp
    then have "\<not> P (xs ! k)" if "k < length xs" for k using count_if_zero that by (metis nth_mem)
    then show ?thesis using Cons(3-6) by (auto simp: nth_Cons split: nat.splits)
  next
    case False
    then show ?thesis using Cons rest by (auto simp: nth_Cons split: nat.splits)
  qed
qed simp

text \<open>
  C15. Recoveries do not overlap with each other or with process starts. In every reachable state in which a recovery
  tries to resume the session, the client is recovering, this is the only recovery under way, no start of a process
  is in flight, and every session in the table is one the recovery asks the executor about, or belongs to a start whose
  caller is gone and whose clean-up is on its way.
\<close>

theorem recovery_runs_alone:
  assumes "reachable_from (client_start (rpc_client_link dec)) (client_step (rpc_client_link dec) decode retryable) s"
    and "j < length (sy_recoveries s)" and "resuming (rt_phase (sy_recoveries s ! j))"
  shows "cn_status (sy_connection s) = Recovering
    \<and> (\<forall>l < length (sy_recoveries s). live (rt_phase (sy_recoveries s ! l)) \<longrightarrow> l = j)
    \<and> cn_active_process_starts (sy_connection s) = 0 \<and> (\<forall>t \<in> set (sy_starts s). \<not> starting (sk_phase t))
    \<and> (\<forall>pid idx. get_session pid (sy_sessions s) = Some idx \<longrightarrow>
         ss_recoverable (cs_states (sy_sessions s) ! idx)
         \<or> \<lparr>sk_process_id = pid, sk_phase = StartCleanup idx\<rparr> \<in> set (sy_starts s))"
proof -
  have inv: "recovery_inv s" "session_inv s" using client_run.inv_reachable [OF assms(1)] by (simp_all add: client_inv_def)
  note live = recovery_live [OF inv(1) assms(2) resuming_live [OF assms(3)]]
  have starts: "starts_of s = 0" by (rule resume_starts [OF inv(1) assms(2,3)])
  then have idle: "\<forall>t \<in> set (sy_starts s). \<not> starting (sk_phase t)"
    using inv(1) count_if_zero [of "\<lambda>t. starting (sk_phase t)" "sy_starts s"] by (simp add: recovery_inv_def)
  have "ss_recoverable (states_of s ! idx) \<or> \<lparr>sk_process_id = pid, sk_phase = StartCleanup idx\<rparr> \<in> set (sy_starts s)"
    if get: "get_session pid (sy_sessions s) = Some idx" for pid idx
  proof -
    obtain k where k: "k < length (sy_starts s)" "owned (sy_sessions s) (sy_starts s ! k) pid idx"
      using inv(2) get unfolding session_inv_def get_session_def by blast
    then have "\<not> starting (start_at s k)" using idle by simp
    then have "start_at s k = StartRunning idx \<or> start_at s k = StartCleanup idx"
      using k(2) by (cases "start_at s k") (auto simp: owned_def)
    then show ?thesis
    proof
      assume "start_at s k = StartCleanup idx"
      then have "sy_starts s ! k = \<lparr>sk_process_id = pid, sk_phase = StartCleanup idx\<rparr>" using k(2) by (simp add: owned_def)
      then show ?thesis using nth_mem [OF k(1)] by simp
    qed (use k(2) in \<open>simp add: owned_def\<close>)
  qed
  then show ?thesis using live starts idle count_if_unique [OF live(2) _ _ assms(2)] resuming_live [OF assms(3)] by blast
qed

text \<open>
  C17. The attempts to resume a session are bounded. In every reachable state, a recovery has made at most 251
  attempts; it never sleeps past its deadline; and while its \<open>n\<close>th attempt runs, at least \<open>n - 1\<close> intervals of 100
  milliseconds have passed since it began, or its deadline has come.
\<close>

theorem resume_attempts_are_bounded:
  assumes "reachable_from (client_start (rpc_client_link dec)) (client_step (rpc_client_link dec) decode retryable) s"
    and "t \<in> set (sy_recoveries s)"
  shows "rt_attempts t \<le> 251
    \<and> (\<forall>u. rt_phase t = RetrySleep u \<longrightarrow> u \<le> rt_deadline t \<and> rt_deadline t \<le> sy_now s + session_recovery_timeout)
    \<and> (candidate (rt_phase t) \<noteq> None \<longrightarrow> rt_attempts t > 0 \<and>
         (rt_deadline t \<le> sy_now s
          \<or> rt_deadline t + (rt_attempts t - 1) * session_recovery_retry_interval \<le> sy_now s + session_recovery_timeout))"
proof -
  have "attempts_inv (sy_now s) t" using client_run.inv_reachable [OF assms(1)] assms(2) by (simp add: client_inv_def attempts_bounded_def)
  then show ?thesis by (cases "rt_phase t") (auto simp: attempts_inv_def attempt_not_before_def min_def split: if_splits)
qed

lemma failed_client_stays:
  assumes "client_step lk decode retryable s t" and "cn_status (sy_connection s) = ClientFailed m"
    and over: "\<forall>u \<in> set (sy_recoveries s). rt_phase u = RecoveryOver"
  shows "cn_status (sy_connection t) = ClientFailed m \<and> sy_recoveries t = sy_recoveries s"
proof -
  have phase: "recovery_at s j = RecoveryOver" if "j < length (sy_recoveries s)" for j using over nth_mem [OF that] by blast
  show ?thesis
    using assms(1)
  proof cases
    case (start_inserts k idx)
    obtain p ss where "start_insert k idx s = set_start k p (s\<lparr>sy_sessions := ss, sy_write_lock := None\<rparr>)"
      by (rule start_insert_cases)
    then show ?thesis using assms(2) start_inserts by (simp add: set_start_def)
  qed (use assms(2) in \<open>auto dest: phase simp: recover_requested_def request_recovery_def start_begin_def begin_process_start_def
    finish_process_start_def start_step_defs Let_def\<close>)
qed

lemma failed_client_runs:
  assumes "(client_step lk decode retryable)\<^sup>*\<^sup>* s t" and "cn_status (sy_connection s) = ClientFailed m"
    and "\<forall>u \<in> set (sy_recoveries s). rt_phase u = RecoveryOver"
  shows "cn_status (sy_connection t) = ClientFailed m \<and> sy_recoveries t = sy_recoveries s"
  using assms by (induction rule: rtranclp_induct) (auto dest!: failed_client_stays)

text \<open>
  C16. A client that gives up leaves nobody waiting. Once a client has failed and its recovery is over, then in
  every later state it is failed with the same message, its table of sessions is empty, and every session that a process start
  has registered is over: it has a failure, or its closing has been published.
\<close>

theorem failed_client_ends_every_session:
  assumes "reachable_from (client_start (rpc_client_link dec)) (client_step (rpc_client_link dec) decode retryable) s"
    and "cn_status (sy_connection s) = ClientFailed m" and "\<forall>u \<in> set (sy_recoveries s). rt_phase u = RecoveryOver"
    and "(client_step (rpc_client_link dec) decode retryable)\<^sup>*\<^sup>* s t"
  shows "cn_status (sy_connection t) = ClientFailed m \<and> cs_table (sy_sessions t) = []
    \<and> (\<forall>k < length (sy_starts t). \<forall>idx. held (sk_phase (sy_starts t ! k)) = Some idx \<longrightarrow>
         oe_failure (ss_ordered (cs_states (sy_sessions t) ! idx)) \<noteq> None
         \<or> oe_closed_published (ss_ordered (cs_states (sy_sessions t) ! idx)))"
proof -
  have reach: "reachable_from (client_start (rpc_client_link dec)) (client_step (rpc_client_link dec) decode retryable) t"
    using assms(1,4) unfolding reachable_from_def by (meson rtranclp_trans)
  have inv: "session_inv t" using client_run.inv_reachable [OF reach] by (simp add: client_inv_def)
  note failed = failed_client_runs [OF assms(4,2,3)]
  have over: "\<forall>u \<in> set (sy_recoveries t). rt_phase u = RecoveryOver" using failed assms(3) by simp
  have "drained_client t" using failed over by (simp add: drained_client_def is_failed_def failure_message_def)
  then have "table_of t = []" using session_invD(4) [OF inv] by simp
  moreover have "failing t = {}" using over by (simp add: failing_def)
  ultimately show ?thesis using failed session_invD(3) [OF inv] by (auto simp: session_over_def)
qed

subsection \<open>Examples\<close>

text \<open>A client with one process, whose transport then ends; \<open>b\<close> says whether it can reconnect.\<close>

abbreviation example_link :: "json_value rpc_system rpc_link" where
  "example_link \<equiv> rpc_client_link Inr"

definition example_decoder :: notification_decoder where
  "example_decoder =
     \<lparr>nd_output = (\<lambda>_. Inr (''p'', \<lparr>poc_seq = 1, poc_stream = Stdout, poc_chunk = [7]\<rparr>)), nd_exited = (\<lambda>_. Inr (''p'', 2, 0)),
      nd_closed = (\<lambda>_. Inr (''p'', 3)), nd_http_body_delta = (\<lambda>_. Inr ())\<rparr>"

abbreviation example_step :: "json_value rpc_system client_system \<Rightarrow> json_value rpc_system client_system \<Rightarrow> bool" where
  "example_step \<equiv> client_step example_link example_decoder (\<lambda>_. False)"

abbreviation example_reaches :: "json_value rpc_system client_system \<Rightarrow> bool" where
  "example_reaches \<equiv> reachable_from (client_start example_link) example_step"

definition example_rpc :: "json_value rpc_system" where
  "example_rpc = \<lparr>rs_client = rpc_client_new, rs_calls = [], rs_incoming = [], rs_incoming_closed = False,
     rs_received = [], rs_reader = ReaderLoop, rs_closing = 0\<rparr>"

definition example_gone :: "json_value rpc_system" where
  "example_gone = example_rpc\<lparr>rs_incoming_closed := True, rs_reader := ReaderEnded,
     rs_client := rpc_client_new\<lparr>rc_closed := True, rc_events := [RpcDisconnected None]\<rparr>\<rparr>"

definition example_client :: "bool \<Rightarrow> json_value rpc_system client_system" where
  "example_client b =
     \<lparr>sy_connection = \<lparr>cn_status = Connected 0, cn_active_process_starts = 0\<rparr>,
      sy_sessions = \<lparr>cs_table = [(''p'', 0)], cs_states = [session_state_new True]\<rparr>, sy_write_lock = None,
      sy_session_id = Some ''s'', sy_reconnect = b, sy_rpcs = [example_rpc], sy_watchers = [Watching 0], sy_recoveries = [],
      sy_starts = [\<lparr>sk_process_id = ''p'', sk_phase = StartRunning 0\<rparr>], sy_now = 0\<rparr>"

definition example_recovering :: "bool \<Rightarrow> recovery_phase \<Rightarrow> nat \<Rightarrow> nat \<Rightarrow> json_value rpc_system client_system" where
  "example_recovering b p n deadline =
     (example_client b)\<lparr>sy_connection := \<lparr>cn_status = Recovering, cn_active_process_starts = 0\<rparr>, sy_rpcs := [example_gone],
       sy_watchers := [WatchDone], sy_recoveries := [\<lparr>rt_message = disconnected_message None, rt_deadline = deadline,
         rt_attempts = n, rt_phase = p\<rparr>]\<rparr>"

lemma example_client_reached: "example_reaches (example_client b)"
proof -
  let ?new = "\<lparr>sy_connection = \<lparr>cn_status = Connected 0, cn_active_process_starts = 0\<rparr>,
      sy_sessions = \<lparr>cs_table = [], cs_states = []\<rparr>, sy_write_lock = None, sy_session_id = None, sy_reconnect = b,
      sy_rpcs = [example_rpc], sy_watchers = [Watching 0], sy_recoveries = [], sy_starts = [], sy_now = 0\<rparr>"
  let ?s = "\<lambda>starts lock ss p. ?new\<lparr>sy_session_id := Some ''s'', sy_connection := \<lparr>cn_status = Connected 0, cn_active_process_starts = starts\<rparr>,
      sy_write_lock := lock, sy_sessions := ss, sy_starts := [\<lparr>sk_process_id = ''p'', sk_phase = p\<rparr>]\<rparr>"
  let ?none = "\<lparr>cs_table = [], cs_states = []\<rparr>" and ?made = "\<lparr>cs_table = [], cs_states = [session_state_new False]\<rparr>"
  let ?in = "\<lambda>r. \<lparr>cs_table = [(''p'', 0)], cs_states = [session_state_new r]\<rparr>"
  note up = reachable_step [of "client_start example_link" example_step]
  have "example_reaches ?new"
    by (rule reachable_start) (auto simp: client_start_def rpc_client_link_def rpc_start_def example_rpc_def)
  then have "example_reaches (?new\<lparr>sy_session_id := Some ''s''\<rparr>)" by (rule up) (rule client_step.session_named; simp)
  then have "example_reaches (?s 0 None ?none StartWait)"
    by (rule up) (use client_step.start_called [of _ _ _ "?new\<lparr>sy_session_id := Some ''s''\<rparr>" "''p''"] in simp)
  then have "example_reaches (?s 0 None ?none (StartHasClient 0))"
    by (rule up) (use client_step.start_has_client [of 0 "?s 0 None ?none StartWait" 0 example_link] in
      \<open>simp add: set_start_def rpc_client_link_def example_rpc_def rpc_client_new_def is_disconnected_def\<close>)
  then have "example_reaches (?s 1 None ?none StartBegun)"
    by (rule up) (use client_step.start_begins [of 0 "?s 0 None ?none (StartHasClient 0)" 0 example_link] in
      \<open>simp add: start_begin_def begin_process_start_def set_start_def rpc_client_link_def example_rpc_def rpc_client_new_def is_disconnected_def\<close>)
  then have "example_reaches (?s 1 (Some 0) ?made (StartInserting 0))"
    by (rule up) (use client_step.start_checks [of 0 "?s 1 None ?none StartBegun" example_link] in
      \<open>simp add: start_check_def is_failed_def failure_message_def set_start_def\<close>)
  then have "example_reaches (?s 1 None (?in False) (StartCalling 0))"
    by (rule up) (use client_step.start_inserts [of 0 "?s 1 (Some 0) ?made (StartInserting 0)" 0 example_link] in
      \<open>simp add: start_insert_def insert_session_def set_start_def hm_contains_def hm_insert_def\<close>)
  then have "example_reaches (?s 1 None (?in True) (StartAnswered 0))"
    by (rule up) (use client_step.start_answers [of 0 "?s 1 None (?in False) (StartCalling 0)" 0 example_link _ _ True] in
      \<open>simp add: start_answered_def set_recoverable_def update_session_def set_start_def session_state_new_def\<close>)
  then have "example_reaches (?s 0 None (?in True) (StartRunning 0))"
    by (rule up) (use client_step.start_ends [of 0 "?s 1 None (?in True) (StartAnswered 0)" "StartRunning 0" example_link] in
      \<open>simp add: set_start_def finish_process_start_def\<close>)
  then show ?thesis by (simp add: example_client_def)
qed

definition example_lost :: "bool \<Rightarrow> json_value rpc_system client_system" where
  "example_lost b = (example_client b)\<lparr>sy_rpcs := [example_rpc\<lparr>rs_incoming_closed := True\<rparr>]\<rparr>"

lemma example_lost_reached: "example_reaches (example_lost b)"
proof -
  have "lk_step example_link (sy_rpcs (example_client b) ! 0) (example_rpc\<lparr>rs_incoming_closed := True\<rparr>)"
    using rpc_step.read_end [of Inr example_rpc] by (simp add: rpc_client_link_def example_client_def)
  then have "example_step (example_client b) (example_lost b)"
    using client_step.link_moves [of 0 "example_client b" example_link "example_rpc\<lparr>rs_incoming_closed := True\<rparr>"]
    by (simp add: example_lost_def example_client_def)
  then show ?thesis by (rule reachable_step [OF example_client_reached])
qed

lemma example_recovering_reached: "example_reaches (example_recovering b RecoverSpawned 0 0)"
proof -
  let ?gone = "(example_client b)\<lparr>sy_rpcs := [example_gone]\<rparr>"
  have "reader_iter 4 (example_rpc\<lparr>rs_incoming_closed := True\<rparr>) = Some example_gone"
    by (simp add: eval_nat_numeral reader_step_def reader_take_def reader_event_def received_messages_def example_rpc_def example_gone_def
        rpc_client_new_def mark_closed_def drain_pending_def send_disconnected_event_def)
  then have "example_step\<^sup>*\<^sup>* (example_lost b) ?gone"
    using client_reader_runs [of 4 "example_lost b" 0 example_gone Inr] by (simp add: example_lost_def example_client_def)
  then have "example_reaches ?gone" using example_lost_reached unfolding reachable_from_def by (meson rtranclp_trans)
  then show ?thesis
    by (rule reachable_step)
      (use client_step.watch_disconnected [of 0 ?gone 0 example_link None] in
        \<open>simp add: example_client_def example_gone_def rpc_client_link_def recover_requested_def request_recovery_def example_recovering_def\<close>)
qed

lemma example_waiting_reached: "example_reaches (example_recovering b WaitStarts 0 25000)"
  by (rule reachable_step [OF example_recovering_reached])
    (use client_step.recover_begins [of 0 "example_recovering b RecoverSpawned 0 0" example_link] in
      \<open>simp add: example_recovering_def recover_begin_def set_recovery_def example_client_def session_recovery_timeout_def\<close>)

lemma example_resuming_reached: "example_reaches (example_recovering True Resume 0 25000)"
  by (rule reachable_step [OF example_waiting_reached])
    (use client_step.starts_end [of 0 "example_recovering True WaitStarts 0 25000" example_link] in
      \<open>simp add: example_recovering_def starts_done_def set_recovery_def example_client_def\<close>)

lemma example_sleeping_reached: "example_reaches (example_recovering True (RetrySleep 100) 1 25000)"
  by (rule reachable_step [OF example_resuming_reached])
    (use client_step.resume_unconnected [of 0 "example_recovering True Resume 0 25000" example_link _ _ TransportClosed] in
      \<open>simp add: example_recovering_def resume_error_def is_retryable_recovery_error_def is_transport_closed_error_def recover_retry_def
        set_recovery_def example_client_def session_recovery_retry_interval_def\<close>)

definition example_failed :: "json_value rpc_system client_system" where
  "example_failed =
     (example_recovering False RecoveryOver 0 25000)
       \<lparr>sy_connection := \<lparr>cn_status = ClientFailed (disconnected_message None), cn_active_process_starts = 0\<rparr>,
        sy_sessions := \<lparr>cs_table = [], cs_states = [set_failure (disconnected_message None) (session_state_new True)]\<rparr>\<rparr>"

lemma example_failed_reached: "example_reaches example_failed"
proof -
  let ?m = "disconnected_message None"
  let ?s = "\<lambda>p ss. (example_recovering False p 0 25000)
       \<lparr>sy_connection := \<lparr>cn_status = ClientFailed ?m, cn_active_process_starts = 0\<rparr>, sy_sessions := ss\<rparr>"
  let ?full = "\<lparr>cs_table = [(''p'', 0)], cs_states = [session_state_new True]\<rparr>"
  let ?empty = "\<lambda>st. \<lparr>cs_table = [], cs_states = [st]\<rparr>"
  note up = reachable_step [of "client_start example_link" example_step]
  note sim = example_recovering_def example_client_def set_phase_def set_recovery_def
  have "example_reaches (example_recovering False (FailWith ?m) 0 25000)"
    by (rule up [OF example_waiting_reached])
      (use client_step.starts_end [of 0 "example_recovering False WaitStarts 0 25000" example_link] in \<open>simp add: sim starts_done_def\<close>)
  then have "example_reaches (?s (FailDrain ?m) ?full)"
    by (rule up) (use client_step.client_fails [of 0 "example_recovering False (FailWith ?m) 0 25000" ?m example_link] in
      \<open>simp add: sim fail_client_def fail_status_def\<close>)
  then have "example_reaches (?s (FailSessions ?m [0]) (?empty (session_state_new True)))"
    by (rule up) (use client_step.sessions_drained [of 0 "?s (FailDrain ?m) ?full" ?m example_link] in
      \<open>simp add: sim drain_sessions_def take_all_sessions_def\<close>)
  then have "example_reaches (?s (FailSessions ?m []) (?empty (set_failure ?m (session_state_new True))))"
    by (rule up) (use client_step.session_failed [of 0 "?s (FailSessions ?m [0]) (?empty (session_state_new True))" ?m 0 "[]" example_link] in
      \<open>simp add: sim update_session_def\<close>)
  then have "example_reaches (?s RecoveryOver (?empty (set_failure ?m (session_state_new True))))"
    by (rule up) (use client_step.recovery_ends [of 0 "?s (FailSessions ?m []) (?empty (set_failure ?m (session_state_new True)))" ?m example_link] in
      \<open>simp add: sim\<close>)
  then show ?thesis by (simp add: example_failed_def)
qed



theorem recovery_runs_alone_witness:
  "get_session ''p'' (sy_sessions (example_recovering True Resume 0 25000)) = Some 0
   \<and> ss_recoverable (cs_states (sy_sessions (example_recovering True Resume 0 25000)) ! 0)"
  using recovery_runs_alone [OF example_resuming_reached, of 0]
  by (simp add: example_recovering_def example_client_def get_session_def session_state_new_def)

theorem resume_attempts_are_bounded_witness:
  "rt_attempts (sy_recoveries (example_recovering True (RetrySleep 100) 1 25000) ! 0) \<le> 251"
  using resume_attempts_are_bounded [OF example_sleeping_reached, of "sy_recoveries (example_recovering True (RetrySleep 100) 1 25000) ! 0"]
  by (simp add: example_recovering_def)

theorem failed_client_ends_every_session_witness:
  "cs_table (sy_sessions example_failed) = [] \<and> oe_failure (ss_ordered (cs_states (sy_sessions example_failed) ! 0)) \<noteq> None"
proof -
  have "cs_table (sy_sessions example_failed) = [] \<and> (\<forall>k < length (sy_starts example_failed). \<forall>idx.
      held (sk_phase (sy_starts example_failed ! k)) = Some idx \<longrightarrow>
      oe_failure (ss_ordered (cs_states (sy_sessions example_failed) ! idx)) \<noteq> None
      \<or> oe_closed_published (ss_ordered (cs_states (sy_sessions example_failed) ! idx)))"
    using failed_client_ends_every_session [OF example_failed_reached, of "disconnected_message None" example_failed]
    by (simp add: example_failed_def example_recovering_def)
  then show ?thesis
    by (auto simp: example_failed_def example_recovering_def example_client_def session_state_new_def set_failure_def
        ordered_events_default_def Let_def)
qed
end
