(* ===== verification/Shell_Syntax.thy ===== *)
theory Shell_Syntax
  imports Absolute_Path "HOL-Library.Multiset"
begin

text \<open>
  Shell invocations, on Unix: which shell a path names (\<^verbatim>\<open>crates/shell-command/src/shell_detect.rs\<close>), the script of a
  \<^verbatim>\<open>bash -lc\<close> or PowerShell invocation (\<^verbatim>\<open>powershell.rs\<close>), and the plain commands of a script (\<^verbatim>\<open>bash.rs\<close>). The
  tree of a script is what tree-sitter's grammar makes of it; the functions below walk it.
\<close>

subsection \<open>Which shell\<close>

datatype shell_type = Zsh | Bash | PowerShell | Sh | Cmd

text \<open>\<^verbatim>\<open>Path::file_name\<close> and \<^verbatim>\<open>Path::file_stem\<close>.\<close>

definition file_name :: "path \<Rightarrow> string option" where
  "file_name p = (case rev p of Normal n # _ \<Rightarrow> Some n | _ \<Rightarrow> None)"

definition name_stem :: "string \<Rightarrow> string" where
  "name_stem n =
     (let before = rev (drop 1 (dropWhile (\<lambda>c. c \<noteq> CHR ''.'') (rev n)))
      in if before = [] then n else before)"

definition file_stem :: "path \<Rightarrow> string option" where
  "file_stem p = map_option name_stem (file_name p)"

definition shell_name :: "string \<Rightarrow> shell_type option" where
  "shell_name s =
     (if s = ''zsh'' then Some Zsh
      else if s = ''sh'' then Some Sh
      else if s = ''cmd'' then Some Cmd
      else if s = ''bash'' then Some Bash
      else if s = ''pwsh'' then Some PowerShell
      else if s = ''powershell'' then Some PowerShell
      else None)"

lemma split_on_ne: "split_on c s \<noteq> []"
  by (induction s) (auto split: list.split)

lemma split_on_pieces: "w \<in> set (split_on c s) \<Longrightarrow> w = s \<or> length w < length s"
proof (induction s arbitrary: w)
  case (Cons x s)
  obtain v ws where v: "split_on c s = v # ws" by (cases "split_on c s") (auto simp: split_on_ne)
  have ih: "u = s \<or> length u < length s" if "u = v \<or> u \<in> set ws" for u using Cons.IH [of u] that by (auto simp: v)
  show ?case using Cons.prems ih by (fastforce simp: v split: if_splits)
qed simp

lemma map_filter_members: "x \<in> set (List.map_filter f xs) \<Longrightarrow> \<exists>w \<in> set xs. f w = Some x"
  by (auto simp: List.map_filter_def)

lemma path_piece: "Normal n \<in> set (path_of_string s) \<Longrightarrow> n \<in> set (split_on (CHR ''/'') s)"
proof -
  assume "Normal n \<in> set (path_of_string s)"
  then have "Normal n \<in> set (List.map_filter component_of (split_on (CHR ''/'') s))"
    unfolding path_of_string_def Let_def by (simp del: component_of.simps split: if_splits)
  from map_filter_members [OF this] obtain w where "w \<in> set (split_on (CHR ''/'') s)" "component_of w = Some (Normal n)"
    by (elim bexE)
  then show ?thesis by (simp split: if_splits)
qed

lemma file_name_piece: "file_name (path_of_string s) = Some n \<Longrightarrow> n \<in> set (split_on (CHR ''/'') s)"
proof -
  assume "file_name (path_of_string s) = Some n"
  then obtain ps where "rev (path_of_string s) = Normal n # ps" by (auto simp: file_name_def split: list.splits component.splits)
  then have "Normal n \<in> set (path_of_string s)" by (metis list.set_intros(1) set_rev)
  then show ?thesis by (rule path_piece)
qed

lemma name_stem_shorter: "name_stem n = n \<or> length (name_stem n) < length n"
proof -
  let ?before = "rev (drop 1 (dropWhile (\<lambda>c. c \<noteq> CHR ''.'') (rev n)))"
  have "length (dropWhile (\<lambda>c. c \<noteq> CHR ''.'') (rev n)) \<le> length n" using length_dropWhile_le [of _ "rev n"] by simp
  then show ?thesis by (cases "?before = []") (auto simp: name_stem_def Let_def)
qed

lemma file_stem_shorter: "file_stem (path_of_string s) = Some n \<Longrightarrow> n = s \<or> length n < length s"
  using file_name_piece split_on_pieces name_stem_shorter by (fastforce simp: file_stem_def)

function detect_shell_type :: "string \<Rightarrow> shell_type option" where
  "detect_shell_type s =
     (case shell_name s of
        Some t \<Rightarrow> Some t
      | None \<Rightarrow>
          (case file_stem (path_of_string s) of
             Some n \<Rightarrow> if path_of_string n \<noteq> path_of_string s then detect_shell_type n else None
           | None \<Rightarrow> None))"
  by pat_completeness auto

termination
  by (relation "measure length") (auto dest: file_stem_shorter)

declare detect_shell_type.simps [simp del]

definition extract_bash_command :: "string list \<Rightarrow> (string \<times> string) option" where
  "extract_bash_command command =
     (case command of
        [shell, flag, script] \<Rightarrow>
          if (flag \<noteq> ''-lc'' \<and> flag \<noteq> ''-c'')
             \<or> detect_shell_type shell \<notin> {Some Zsh, Some Bash, Some Sh}
          then None
          else Some (shell, script)
      | _ \<Rightarrow> None)"

definition powershell_flags :: "string list" where
  "powershell_flags = [''-nologo'', ''-noprofile'', ''-command'', ''-c'']"

text \<open>The loop of \<^verbatim>\<open>extract_powershell_command\<close> over the arguments after the shell.\<close>

fun powershell_script :: "string list \<Rightarrow> string option" where
  "powershell_script (flag # script # rest) =
     (if to_ascii_lowercase flag \<notin> set powershell_flags then None
      else if eq_ignore_ascii_case flag ''-Command'' \<or> eq_ignore_ascii_case flag ''-c'' then Some script
      else powershell_script (script # rest))"
| "powershell_script _ = None"

definition extract_powershell_command :: "string list \<Rightarrow> (string \<times> string) option" where
  "extract_powershell_command command =
     (if length command < 3 then None
      else if detect_shell_type (hd command) \<noteq> Some PowerShell then None
      else map_option (\<lambda>script. (hd command, script)) (powershell_script (tl command)))"

definition utf8_output_prefix :: string where
  "utf8_output_prefix = ''try { [Console]::OutputEncoding=[System.Text.Encoding]::UTF8 } catch {}'' @ [CHR 0x0A]"

definition prefix_powershell_script_with_utf8 :: "string list \<Rightarrow> string list" where
  "prefix_powershell_script_with_utf8 command =
     (case extract_powershell_command command of
        None \<Rightarrow> command
      | Some (_, script) \<Rightarrow>
          butlast command @
            [if prefix utf8_output_prefix (dropWhile is_space script) then script else utf8_output_prefix @ script])"

text \<open>
  The argument after the script is lost. When a PowerShell invocation has an argument after its script,
  \<^verbatim>\<open>prefix_powershell_script_with_utf8\<close> leaves the script as it was and puts the prefixed script in the place of the argument.
\<close>

theorem powershell_argument_replaced:
  assumes "detect_shell_type shell = Some PowerShell" and "\<not> prefix utf8_output_prefix (dropWhile is_space script)"
  shows "prefix_powershell_script_with_utf8 [shell, ''-Command'', script, arg] =
    [shell, ''-Command'', script, utf8_output_prefix @ script]"
proof -
  have "to_ascii_lowercase ''-Command'' = ''-command''" by code_simp
  then have "extract_powershell_command [shell, ''-Command'', script, arg] = Some (shell, script)"
    using assms(1) by (simp add: extract_powershell_command_def powershell_flags_def del: to_ascii_lowercase_simps)
  then show ?thesis using assms(2) by (simp add: prefix_powershell_script_with_utf8_def)
qed

subsection \<open>The user's shell\<close>

text \<open>The machine: the shell of the user's account, the files, and the search path.\<close>

record shell_host =
  sh_user_shell :: "string option"
  sh_is_file :: "string \<Rightarrow> bool"
  sh_which :: "string \<Rightarrow> string option"

record detected_shell =
  ds_type :: shell_type
  ds_path :: string

definition get_shell_path :: "shell_host \<Rightarrow> shell_type \<Rightarrow> string option \<Rightarrow> string \<Rightarrow> string list \<Rightarrow> string option" where
  "get_shell_path host t provided_path binary_name fallback_paths =
     (case Option.bind provided_path (\<lambda>p. if sh_is_file host p then Some p else None) of
        Some p \<Rightarrow> Some p
      | None \<Rightarrow>
          (case Option.bind (sh_user_shell host) (\<lambda>p. if detect_shell_type p = Some t \<and> sh_is_file host p then Some p else None) of
             Some p \<Rightarrow> Some p
           | None \<Rightarrow>
               (case sh_which host binary_name of
                  Some p \<Rightarrow> Some p
                | None \<Rightarrow> find (sh_is_file host) fallback_paths)))"

definition get_shell :: "shell_host \<Rightarrow> shell_type \<Rightarrow> string option \<Rightarrow> detected_shell option" where
  "get_shell host t path =
     map_option (\<lambda>p. \<lparr>ds_type = t, ds_path = p\<rparr>)
       (case t of
          Zsh \<Rightarrow> get_shell_path host Zsh path ''zsh'' [''/bin/zsh'']
        | Bash \<Rightarrow> get_shell_path host Bash path ''bash'' [''/bin/bash'', ''/usr/bin/bash'']
        | PowerShell \<Rightarrow>
            (case get_shell_path host PowerShell path ''pwsh'' [''/usr/local/bin/pwsh''] of
               Some p \<Rightarrow> Some p
             | None \<Rightarrow> get_shell_path host PowerShell path ''powershell'' [])
        | Sh \<Rightarrow> get_shell_path host Sh path ''sh'' [''/bin/sh'']
        | Cmd \<Rightarrow> get_shell_path host Cmd path ''cmd'' [])"

definition ultimate_fallback_shell :: detected_shell where
  "ultimate_fallback_shell = \<lparr>ds_type = Sh, ds_path = ''/bin/sh''\<rparr>"

definition get_shell_by_model_provided_path :: "shell_host \<Rightarrow> string \<Rightarrow> detected_shell" where
  "get_shell_by_model_provided_path host shell_path =
     (case Option.bind (detect_shell_type shell_path) (\<lambda>t. get_shell host t (Some shell_path)) of
        Some d \<Rightarrow> d
      | None \<Rightarrow> ultimate_fallback_shell)"

definition or_else :: "'a option \<Rightarrow> 'a option \<Rightarrow> 'a option" where
  "or_else a b = (case a of Some x \<Rightarrow> Some x | None \<Rightarrow> b)"

definition default_user_shell_from_path :: "target_os \<Rightarrow> shell_host \<Rightarrow> string option \<Rightarrow> detected_shell" where
  "default_user_shell_from_path os host user_shell_path =
     (let user = Option.bind (Option.bind user_shell_path detect_shell_type) (\<lambda>t. get_shell host t None);
          found = (if os = MacOS then or_else user (or_else (get_shell host Zsh None) (get_shell host Bash None))
                   else or_else user (or_else (get_shell host Bash None) (get_shell host Zsh None)))
      in case found of Some d \<Rightarrow> d | None \<Rightarrow> ultimate_fallback_shell)"

definition default_user_shell :: "target_os \<Rightarrow> shell_host \<Rightarrow> detected_shell" where
  "default_user_shell os host = default_user_shell_from_path os host (sh_user_shell host)"

text \<open>A shell that was found is of the type asked for, and is a file or was found on the search path.\<close>

lemma get_shell_path_found:
  "get_shell_path host t path binary fallbacks = Some p \<Longrightarrow> sh_is_file host p \<or> sh_which host binary = Some p"
  by (auto simp: get_shell_path_def find_Some_iff split: option.splits bind_splits if_splits)

lemma get_shell_found:
  "get_shell host t path = Some d \<Longrightarrow> ds_type d = t \<and> (sh_is_file host (ds_path d) \<or> (\<exists>b. sh_which host b = Some (ds_path d)))"
  by (auto simp: get_shell_def split: shell_type.splits option.splits dest!: get_shell_path_found)

theorem default_shell_is_usable:
  "default_user_shell os host = ultimate_fallback_shell
   \<or> sh_is_file host (ds_path (default_user_shell os host)) \<or> (\<exists>b. sh_which host b = Some (ds_path (default_user_shell os host)))"
proof (cases "default_user_shell os host = ultimate_fallback_shell")
  case False
  then have "\<exists>t. get_shell host t None = Some (default_user_shell os host)"
    by (auto simp: default_user_shell_def default_user_shell_from_path_def or_else_def Let_def split: option.splits if_splits bind_splits)
  then show ?thesis using get_shell_found by blast
qed simp

subsection \<open>The tree of a script\<close>

datatype syntax_node =
  SyntaxNode (sn_kind: string) (sn_named: bool) (sn_text: string) (sn_start_byte: nat) (sn_children: "syntax_node list")

record syntax_tree =
  tr_root_node :: syntax_node
  tr_has_error :: bool

definition named_children :: "syntax_node \<Rightarrow> syntax_node list" where
  "named_children n = filter sn_named (sn_children n)"

definition allowed_kinds :: "string list" where
  "allowed_kinds = [''program'', ''list'', ''pipeline'', ''command'', ''command_name'', ''word'', ''string'', ''string_content'',
     ''raw_string'', ''number'', ''concatenation'']"

definition allowed_punct_tokens :: "string list" where
  "allowed_punct_tokens = [''&&'', ''||'', '';'', ''|'', [CHR 0x22], [CHR 0x27]]"

text \<open>Whether the loop goes on after a node, by the node's kind.\<close>

definition node_allowed :: "syntax_node \<Rightarrow> bool" where
  "node_allowed n =
     (if sn_named n then sn_kind n \<in> set allowed_kinds
      else \<not> (list_ex (\<lambda>c. c \<in> set ''&;|'') (sn_kind n) \<and> sn_kind n \<notin> set allowed_punct_tokens)
         \<and> (sn_kind n \<in> set allowed_punct_tokens \<or> trim (sn_kind n) = []))"

text \<open>The loop with its stack, whose top is the head of the list, and the command nodes in the order they were met.\<close>

fun node_count :: "syntax_node \<Rightarrow> nat" where
  "node_count (SyntaxNode _ _ _ _ cs) = Suc (sum_list (map node_count cs))"

function collect_commands :: "syntax_node list \<Rightarrow> syntax_node list \<Rightarrow> syntax_node list option" where
  "collect_commands [] found = Some found"
| "collect_commands (n # stack) found =
     (if \<not> node_allowed n then None
      else collect_commands (rev (sn_children n) @ stack)
             (if sn_named n \<and> sn_kind n = ''command'' then found @ [n] else found))"
  by pat_completeness auto

termination
proof (relation "measure (\<lambda>(stack, found). sum_list (map node_count stack))")
  show "((rev (sn_children n) @ stack, if sn_named n \<and> sn_kind n = ''command'' then found @ [n] else found), n # stack, found)
      \<in> measure (\<lambda>(stack, found). sum_list (map node_count stack))" for n stack found
    by (cases n) (simp add: rev_map [symmetric] sum_list_rev)
qed simp

text \<open>The words of nodes.\<close>

definition strip_quotes :: "char \<Rightarrow> string \<Rightarrow> string option" where
  "strip_quotes q s =
     (case s of
        c # t \<Rightarrow> if c = q \<and> t \<noteq> [] \<and> last t = q then Some (butlast t) else None
      | [] \<Rightarrow> None)"

definition parse_double_quoted_string :: "syntax_node \<Rightarrow> string option" where
  "parse_double_quoted_string n =
     (if sn_kind n \<noteq> ''string'' then None
      else if list_ex (\<lambda>p. sn_kind p \<noteq> ''string_content'') (named_children n) then None
      else strip_quotes (CHR 0x22) (sn_text n))"

definition parse_raw_string :: "syntax_node \<Rightarrow> string option" where
  "parse_raw_string n = (if sn_kind n \<noteq> ''raw_string'' then None else strip_quotes (CHR 0x27) (sn_text n))"

definition concatenation_part :: "syntax_node \<Rightarrow> string option" where
  "concatenation_part p =
     (if sn_kind p = ''word'' \<or> sn_kind p = ''number'' then Some (sn_text p)
      else if sn_kind p = ''string'' then parse_double_quoted_string p
      else if sn_kind p = ''raw_string'' then parse_raw_string p
      else None)"

definition plain_word :: "syntax_node \<Rightarrow> string option" where
  "plain_word child =
     (if sn_kind child = ''command_name'' then
        (case named_children child of
           word_node # _ \<Rightarrow> if sn_kind word_node \<noteq> ''word'' then None else Some (sn_text word_node)
         | [] \<Rightarrow> None)
      else if sn_kind child = ''word'' \<or> sn_kind child = ''number'' then Some (sn_text child)
      else if sn_kind child = ''string'' then parse_double_quoted_string child
      else if sn_kind child = ''raw_string'' then parse_raw_string child
      else if sn_kind child = ''concatenation'' then
        (case those (map concatenation_part (named_children child)) of
           Some parts \<Rightarrow> if concat parts = [] then None else Some (concat parts)
         | None \<Rightarrow> None)
      else None)"

definition parse_plain_command_from_node :: "syntax_node \<Rightarrow> string list option" where
  "parse_plain_command_from_node cmd =
     (if sn_kind cmd \<noteq> ''command'' then None else those (map plain_word (named_children cmd)))"

definition try_parse_word_only_commands_sequence :: "syntax_tree \<Rightarrow> string list list option" where
  "try_parse_word_only_commands_sequence tree =
     (if tr_has_error tree then None
      else case collect_commands [tr_root_node tree] [] of
             None \<Rightarrow> None
           | Some nodes \<Rightarrow> those (map parse_plain_command_from_node (sort_key sn_start_byte nodes)))"

text \<open>tree-sitter and the crate shlex.\<close>

record shell_lib =
  sl_parse :: "string \<Rightarrow> syntax_tree option"
  sl_split :: "string \<Rightarrow> string list option"
  sl_try_join :: "string list \<Rightarrow> string option"

definition parse_shell_script_into_commands :: "shell_lib \<Rightarrow> string \<Rightarrow> string list list option" where
  "parse_shell_script_into_commands lib script =
     Option.bind (sl_parse lib script) try_parse_word_only_commands_sequence"

definition parse_shell_lc_plain_commands :: "shell_lib \<Rightarrow> string list \<Rightarrow> string list list option" where
  "parse_shell_lc_plain_commands lib command =
     (case extract_bash_command command of
        None \<Rightarrow> None
      | Some (_, script) \<Rightarrow> parse_shell_script_into_commands lib script)"

subsection \<open>Scripts with a here-document\<close>

definition is_literal_word_or_number :: "syntax_node \<Rightarrow> bool" where
  "is_literal_word_or_number n = ((sn_kind n = ''word'' \<or> sn_kind n = ''number'') \<and> named_children n = [])"

definition is_allowed_heredoc_attachment_kind :: "string \<Rightarrow> bool" where
  "is_allowed_heredoc_attachment_kind k =
     (k \<in> set [''heredoc_body'', ''simple_heredoc_body'', ''heredoc_redirect'', ''herestring_redirect'', ''redirected_statement''])"

text \<open>What a child of the command contributes: a word, nothing, or a refusal.\<close>

definition heredoc_word :: "syntax_node \<Rightarrow> string list option" where
  "heredoc_word child =
     (if sn_kind child = ''command_name'' then
        (case named_children child of
           word_node # _ \<Rightarrow> if \<not> is_literal_word_or_number word_node then None else Some [sn_text word_node]
         | [] \<Rightarrow> None)
      else if sn_kind child = ''word'' \<or> sn_kind child = ''number'' then
        (if is_literal_word_or_number child then Some [sn_text child] else None)
      else if sn_kind child = ''comment'' \<or> is_allowed_heredoc_attachment_kind (sn_kind child) then Some []
      else None)"

definition parse_heredoc_command_words :: "syntax_node \<Rightarrow> string list option" where
  "parse_heredoc_command_words cmd =
     (if sn_kind cmd \<noteq> ''command'' then None
      else case those (map heredoc_word (named_children cmd)) of
             Some ws \<Rightarrow> if concat ws = [] then None else Some (concat ws)
           | None \<Rightarrow> None)"

lemma named_children_smaller: "sum_list (map node_count (named_children n)) < node_count n"
proof (cases n)
  case (SyntaxNode k b t s cs)
  have "sum_list (map node_count (filter sn_named cs)) \<le> sum_list (map node_count cs)" by (induction cs) auto
  then show ?thesis by (simp add: SyntaxNode named_children_def)
qed

function find_single_command :: "syntax_node list \<Rightarrow> syntax_node option \<Rightarrow> syntax_node option" where
  "find_single_command [] single = single"
| "find_single_command (n # stack) single =
     (if sn_kind n = ''command'' then
        (if single \<noteq> None then None else find_single_command (rev (named_children n) @ stack) (Some n))
      else find_single_command (rev (named_children n) @ stack) single)"
  by pat_completeness auto

termination
  by (relation "measure (\<lambda>(stack, single). sum_list (map node_count stack))")
    (use named_children_smaller in \<open>simp_all add: rev_map [symmetric] sum_list_rev\<close>)

definition find_single_command_node :: "syntax_node \<Rightarrow> syntax_node option" where
  "find_single_command_node root = find_single_command [root] None"

function has_kind_loop :: "string \<Rightarrow> syntax_node list \<Rightarrow> bool" where
  "has_kind_loop k [] = False"
| "has_kind_loop k (n # stack) = (if sn_kind n = k then True else has_kind_loop k (rev (named_children n) @ stack))"
  by pat_completeness auto

termination
  by (relation "measure (\<lambda>(k, stack). sum_list (map node_count stack))")
    (use named_children_smaller in \<open>simp_all add: rev_map [symmetric] sum_list_rev\<close>)

definition has_named_descendant_kind :: "syntax_node \<Rightarrow> string \<Rightarrow> bool" where
  "has_named_descendant_kind n k = has_kind_loop k [n]"

definition parse_shell_lc_single_command_prefix :: "shell_lib \<Rightarrow> string list \<Rightarrow> string list option" where
  "parse_shell_lc_single_command_prefix lib command =
     (case extract_bash_command command of
        None \<Rightarrow> None
      | Some (_, script) \<Rightarrow>
          (case sl_parse lib script of
             None \<Rightarrow> None
           | Some tree \<Rightarrow>
               if tr_has_error tree then None
               else if \<not> has_named_descendant_kind (tr_root_node tree) ''heredoc_redirect'' then None
               else if has_named_descendant_kind (tr_root_node tree) ''file_redirect'' then None
               else Option.bind (find_single_command_node (tr_root_node tree)) parse_heredoc_command_words))"


subsection \<open>The commands of a plain script, in order\<close>

text \<open>What the loop computes, said by recursion on the tree.\<close>

fun allowed_tree :: "syntax_node \<Rightarrow> bool" where
  "allowed_tree (SyntaxNode k named t b cs) \<longleftrightarrow> node_allowed (SyntaxNode k named t b cs) \<and> (\<forall>c \<in> set cs. allowed_tree c)"

fun command_nodes :: "syntax_node \<Rightarrow> syntax_node list" where
  "command_nodes (SyntaxNode k named t b cs) =
     (if named \<and> k = ''command'' then [SyntaxNode k named t b cs] else []) @ concat (map command_nodes cs)"

fun visit_commands :: "syntax_node \<Rightarrow> syntax_node list" where
  "visit_commands (SyntaxNode k named t b cs) =
     (if named \<and> k = ''command'' then [SyntaxNode k named t b cs] else []) @ concat (rev (map visit_commands cs))"

lemma collect_commands_visits:
  "collect_commands stack found =
     (if \<forall>n \<in> set stack. allowed_tree n then Some (found @ concat (map visit_commands stack)) else None)"
proof (induction stack found rule: collect_commands.induct)
  case (2 n stack found)
  then show ?case by (cases n) (auto simp: rev_map)
qed simp

lemma mset_concat_cong: "(\<And>x. x \<in> set xs \<Longrightarrow> mset (f x) = mset (g x)) \<Longrightarrow> mset (concat (map f xs)) = mset (concat (map g xs))"
  by (induction xs) auto

lemma mset_concat_rev: "mset (concat (rev xs)) = mset (concat xs)"
  by (induction xs) (auto simp: add.commute)

lemma visit_commands_mset: "mset (visit_commands n) = mset (command_nodes n)"
proof (induction n)
  case (SyntaxNode k named t b cs)
  then have "mset (concat (map visit_commands cs)) = mset (concat (map command_nodes cs))" by (rule mset_concat_cong)
  then show ?case by (simp add: mset_concat_rev)
qed

lemma sort_key_distinct:
  assumes "mset xs = mset ys" and "sorted_wrt (<) (map f ys)"
  shows "sort_key f xs = ys"
proof (rule properties_for_sort_key)
  have inj: "inj_on f (set ys)" "distinct ys" using assms(2) by (simp_all add: strict_sorted_iff distinct_map)
  show "filter (\<lambda>x. f k = f x) ys = filter (\<lambda>x. f k = f x) xs" if "k \<in> set ys" for k
  proof -
    have set: "set xs = set ys" using assms(1) by (metis set_mset_mset)
    have d: "distinct xs" using assms(1) inj(2) by (metis mset_eq_imp_distinct_iff)
    have eq: "filter (\<lambda>x. f k = f x) zs = filter (\<lambda>x. x = k) zs" if "set zs = set ys" for zs
      by (rule filter_cong [OF refl]) (use inj(1) \<open>k \<in> set ys\<close> that in \<open>auto dest: inj_onD\<close>)
    have "filter (\<lambda>x. x = k) zs = [k]" if "distinct zs" "k \<in> set zs" for zs
      using that by (induction zs) (auto simp: filter_empty_conv)
    then show ?thesis using eq [of xs] eq [of ys] set d inj(2) that by simp
  qed
  show "sorted (map f ys)" using assms(2) by (simp add: strict_sorted_iff)
qed (use assms(1) in simp)

text \<open>
  C31. The plain commands of a script. When the commands of a tree begin at increasing positions of the script, as they do in
  tree-sitter's trees, \<^verbatim>\<open>try_parse_word_only_commands_sequence\<close>, which walks the tree with a stack and sorts what
  it met, refuses the tree exactly when it has an error, a node that is not on the list of allowed ones anywhere, or a command with a
  word it cannot read, and otherwise gives the words of all the commands in the order of the script, from the tree's
  recursive traversal.
\<close>

theorem plain_commands_in_script_order:
  assumes "sorted_wrt (<) (map sn_start_byte (command_nodes (tr_root_node tree)))"
  shows "try_parse_word_only_commands_sequence tree =
    (if tr_has_error tree \<or> \<not> allowed_tree (tr_root_node tree) then None
     else those (map parse_plain_command_from_node (command_nodes (tr_root_node tree))))"
proof -
  have "sort_key sn_start_byte (visit_commands (tr_root_node tree)) = command_nodes (tr_root_node tree)"
    by (rule sort_key_distinct [OF visit_commands_mset assms])
  then show ?thesis by (simp add: try_parse_word_only_commands_sequence_def collect_commands_visits)
qed

subsection \<open>Examples\<close>

definition example_script :: string where
  "example_script = ''ls | xargs rm''"

definition example_tree :: syntax_tree where
  "example_tree =
     \<lparr>tr_root_node = SyntaxNode ''program'' True example_script 0
        [SyntaxNode ''pipeline'' True example_script 0
          [SyntaxNode ''command'' True ''ls'' 0 [SyntaxNode ''command_name'' True ''ls'' 0 [SyntaxNode ''word'' True ''ls'' 0 []]],
           SyntaxNode ''|'' False ''|'' 3 [],
           SyntaxNode ''command'' True ''xargs rm'' 5
             [SyntaxNode ''command_name'' True ''xargs'' 5 [SyntaxNode ''word'' True ''xargs'' 5 []], SyntaxNode ''word'' True ''rm'' 11 []]]],
      tr_has_error = False\<rparr>"

theorem plain_commands_in_script_order_witness:
  "try_parse_word_only_commands_sequence example_tree = Some [[''ls''], [''xargs'', ''rm'']]"
proof -
  have "sorted_wrt (<) (map sn_start_byte (command_nodes (tr_root_node example_tree)))" by (simp add: example_tree_def)
  from plain_commands_in_script_order [OF this] show ?thesis
    by (simp add: example_tree_def node_allowed_def allowed_kinds_def allowed_punct_tokens_def parse_plain_command_from_node_def
        plain_word_def named_children_def)
qed
end
