(* ===== verification/Command_Safety.thy ===== *)
theory Command_Safety
  imports Shell_Syntax
begin

text \<open>
  Which commands run without asking, and which are dangerous, on Unix:
  \<^verbatim>\<open>crates/shell-command/src/command_safety/is_safe_command.rs\<close> and \<^verbatim>\<open>is_dangerous_command.rs\<close>. The classification of
  Windows commands is compiled on Windows only and is not part of the model.
\<close>

subsection \<open>Names and git's options\<close>

definition executable_name_lookup_key :: "string \<Rightarrow> string option" where
  "executable_name_lookup_key raw = file_name (path_of_string raw)"

definition is_git_global_option_with_value :: "string \<Rightarrow> bool" where
  "is_git_global_option_with_value arg =
     (arg \<in> set [''-C'', ''-c'', ''--config-env'', ''--exec-path'', ''--git-dir'', ''--namespace'', ''--super-prefix'', ''--work-tree''])"

definition is_git_global_option_with_inline_value :: "string \<Rightarrow> bool" where
  "is_git_global_option_with_inline_value arg =
     (list_ex (\<lambda>p. prefix p arg)
        [''--config-env='', ''--exec-path='', ''--git-dir='', ''--namespace='', ''--super-prefix='', ''--work-tree='']
      \<or> (prefix ''-C'' arg \<or> prefix ''-c'' arg) \<and> length arg > 2)"

text \<open>The loop of \<^verbatim>\<open>find_git_subcommand\<close>: \<open>idx\<close> is the position of the next argument.\<close>

fun scan_git_subcommand :: "string list \<Rightarrow> bool \<Rightarrow> nat \<Rightarrow> string list \<Rightarrow> (nat \<times> string) option" where
  "scan_git_subcommand subcommands skip_next idx [] = None"
| "scan_git_subcommand subcommands skip_next idx (arg # args) =
     (if skip_next then scan_git_subcommand subcommands False (Suc idx) args
      else if is_git_global_option_with_inline_value arg then scan_git_subcommand subcommands False (Suc idx) args
      else if is_git_global_option_with_value arg then scan_git_subcommand subcommands True (Suc idx) args
      else if arg = ''--'' \<or> prefix ''-'' arg then scan_git_subcommand subcommands False (Suc idx) args
      else if arg \<in> set subcommands then Some (idx, arg)
      else None)"

definition find_git_subcommand :: "string list \<Rightarrow> string list \<Rightarrow> (nat \<times> string) option" where
  "find_git_subcommand command subcommands =
     (case command of
        [] \<Rightarrow> None
      | cmd0 # args \<Rightarrow>
          if executable_name_lookup_key cmd0 \<noteq> Some ''git'' then None else scan_git_subcommand subcommands False 1 args)"

datatype git_option_pattern = Exact string | ShortWithInlineValue string | PrefixPattern string

definition unsafe_git_global_options :: "git_option_pattern list" where
  "unsafe_git_global_options =
     [Exact ''-C'', ShortWithInlineValue ''-C'', Exact ''-c'', ShortWithInlineValue ''-c'', Exact ''-p'',
      Exact ''--config-env'', PrefixPattern ''--config-env='', Exact ''--exec-path'', PrefixPattern ''--exec-path='',
      Exact ''--git-dir'', PrefixPattern ''--git-dir='', Exact ''--namespace'', PrefixPattern ''--namespace='', Exact ''--paginate'',
      Exact ''--super-prefix'', PrefixPattern ''--super-prefix='', Exact ''--work-tree'', PrefixPattern ''--work-tree='']"

definition unsafe_git_subcommand_options :: "git_option_pattern list" where
  "unsafe_git_subcommand_options =
     [Exact ''--output'', PrefixPattern ''--output='', Exact ''--ext-diff'', Exact ''--textconv'', Exact ''--exec'',
      PrefixPattern ''--exec='']"

fun pattern_matches :: "git_option_pattern \<Rightarrow> string \<Rightarrow> bool" where
  "pattern_matches (Exact option) arg = (arg = option)"
| "pattern_matches (ShortWithInlineValue option) arg = (prefix option arg \<and> length arg > length option)"
| "pattern_matches (PrefixPattern pre) arg = prefix pre arg"

definition git_matches_option_pattern :: "string \<Rightarrow> git_option_pattern list \<Rightarrow> bool" where
  "git_matches_option_pattern arg patterns = list_ex (\<lambda>p. pattern_matches p arg) patterns"

definition git_has_unsafe_global_option :: "string list \<Rightarrow> bool" where
  "git_has_unsafe_global_option global_args = list_ex (\<lambda>arg. git_matches_option_pattern arg unsafe_git_global_options) global_args"

definition git_subcommand_args_are_read_only :: "string list \<Rightarrow> bool" where
  "git_subcommand_args_are_read_only args =
     (\<not> list_ex (\<lambda>arg. git_matches_option_pattern arg unsafe_git_subcommand_options) args)"

definition branch_read_only_flag :: "string \<Rightarrow> bool" where
  "branch_read_only_flag arg =
     (arg \<in> set [''--list'', ''-l'', ''--show-current'', ''-a'', ''--all'', ''-r'', ''--remotes'', ''-v'', ''-vv'', ''--verbose'']
      \<or> prefix ''--format='' arg)"

fun branch_loop :: "bool \<Rightarrow> string list \<Rightarrow> bool" where
  "branch_loop saw [] = saw"
| "branch_loop saw (arg # args) = (if branch_read_only_flag arg then branch_loop True args else False)"

definition git_branch_is_read_only :: "string list \<Rightarrow> bool" where
  "git_branch_is_read_only args = (if args = [] then True else branch_loop False args)"

definition is_safe_git_command :: "string list \<Rightarrow> bool" where
  "is_safe_git_command command =
     (case find_git_subcommand command [''status'', ''log'', ''diff'', ''show'', ''branch''] of
        None \<Rightarrow> False
      | Some (i, subcommand) \<Rightarrow>
          if git_has_unsafe_global_option (drop 1 (take i command)) then False
          else
            (let args = drop (i + 1) command
             in if subcommand \<in> set [''status'', ''log'', ''diff'', ''show''] then git_subcommand_args_are_read_only args
                else if subcommand = ''branch'' then git_subcommand_args_are_read_only args \<and> git_branch_is_read_only args
                else False))"

subsection \<open>Commands that are safe\<close>

definition all_ascii_digits :: "string \<Rightarrow> bool" where
  "all_ascii_digits s = list_all (\<lambda>c. c \<in> set ''0123456789'') s"

definition is_valid_sed_n_arg :: "string option \<Rightarrow> bool" where
  "is_valid_sed_n_arg arg =
     (case arg of
        None \<Rightarrow> False
      | Some s \<Rightarrow>
          if s = [] \<or> last s \<noteq> CHR ''p'' then False
          else (case split_on (CHR '','') (butlast s) of
                  [num] \<Rightarrow> num \<noteq> [] \<and> all_ascii_digits num
                | [a, b] \<Rightarrow> a \<noteq> [] \<and> b \<noteq> [] \<and> all_ascii_digits a \<and> all_ascii_digits b
                | _ \<Rightarrow> False))"

definition safe_names :: "string list" where
  "safe_names = [''cat'', ''cd'', ''cut'', ''echo'', ''expr'', ''false'', ''grep'', ''head'', ''id'', ''ls'', ''nl'', ''paste'', ''pwd'',
     ''rev'', ''seq'', ''stat'', ''tail'', ''tr'', ''true'', ''uname'', ''uniq'', ''wc'', ''which'', ''whoami'']"

definition unsafe_find_options :: "string list" where
  "unsafe_find_options =
     [''-exec'', ''-execdir'', ''-ok'', ''-okdir'', ''-delete'', ''-fls'', ''-fprint'', ''-fprint0'', ''-fprintf'']"

definition is_safe_to_call_with_exec :: "target_os \<Rightarrow> string list \<Rightarrow> bool" where
  "is_safe_to_call_with_exec os command =
     (case command of
        [] \<Rightarrow> False
      | cmd0 # args \<Rightarrow>
          (case executable_name_lookup_key cmd0 of
             None \<Rightarrow> False
           | Some cmd \<Rightarrow>
               if os = Linux \<and> (cmd = ''numfmt'' \<or> cmd = ''tac'') then True
               else if cmd \<in> set safe_names then True
               else if cmd = ''base64'' then
                 \<not> list_ex (\<lambda>arg. arg \<in> set [''-o'', ''--output''] \<or> prefix ''--output='' arg \<or> prefix ''-o'' arg \<and> arg \<noteq> ''-o'') args
               else if cmd = ''find'' then \<not> list_ex (\<lambda>arg. arg \<in> set unsafe_find_options) command
               else if cmd = ''rg'' then
                 \<not> list_ex (\<lambda>arg. arg \<in> set [''--search-zip'', ''-z'']
                     \<or> list_ex (\<lambda>opt. arg = opt \<or> prefix (opt @ ''='') arg) [''--pre'', ''--hostname-bin'']) command
               else if cmd = ''git'' then is_safe_git_command command
               else cmd = ''sed'' \<and> length command \<le> 4 \<and> length args > 0 \<and> args ! 0 = ''-n''
                    \<and> is_valid_sed_n_arg (if length args > 1 then Some (args ! 1) else None)))"

definition is_known_safe_command :: "target_os \<Rightarrow> shell_lib \<Rightarrow> string list \<Rightarrow> bool" where
  "is_known_safe_command os lib original =
     (let command = map (\<lambda>s. if s = ''zsh'' then ''bash'' else s) original
      in if is_safe_to_call_with_exec os command then True
         else case parse_shell_lc_plain_commands lib command of
                Some all_commands \<Rightarrow> all_commands \<noteq> [] \<and> list_all (is_safe_to_call_with_exec os) all_commands
              | None \<Rightarrow> False)"

subsection \<open>Commands that are dangerous\<close>

fun is_dangerous_to_call_with_exec :: "string list \<Rightarrow> bool" where
  "is_dangerous_to_call_with_exec [] = False"
| "is_dangerous_to_call_with_exec (cmd0 # args) =
     (if cmd0 = ''rm'' then (case args of a # _ \<Rightarrow> a = ''-f'' \<or> a = ''-rf'' | [] \<Rightarrow> False)
      else if cmd0 = ''sudo'' then is_dangerous_to_call_with_exec args
      else False)"

definition command_might_be_dangerous :: "shell_lib \<Rightarrow> string list \<Rightarrow> bool" where
  "command_might_be_dangerous lib command =
     (if is_dangerous_to_call_with_exec command then True
      else case parse_shell_lc_plain_commands lib command of
             Some all_commands \<Rightarrow> list_ex is_dangerous_to_call_with_exec all_commands
           | None \<Rightarrow> False)"


subsection \<open>The argument of \<^verbatim>\<open>sed -n\<close>\<close>

lemma split_on_append: "c \<notin> set a \<Longrightarrow> split_on c (a @ c # s) = a # split_on c s"
  by (induction a) (auto split: list.split dest: split_on_ne [THEN notE])

lemma split_on_none: "c \<notin> set a \<Longrightarrow> split_on c a = [a]"
  by (induction a) auto

lemma join_split_on: "join_with [c] (split_on c s) = s"
proof (induction s)
  case (Cons x s)
  obtain v vs where v: "split_on c s = v # vs" by (cases "split_on c s") (auto simp: split_on_ne)
  then show ?case using Cons by (cases vs) auto
qed simp

lemma digits_no_comma: "all_ascii_digits a \<Longrightarrow> CHR '','' \<notin> set a"
proof
  assume "all_ascii_digits a" and "CHR '','' \<in> set a"
  then have "CHR '','' \<in> set ''0123456789''" unfolding all_ascii_digits_def list_all_iff by blast
  then show False by simp
qed

text \<open>
  The argument of a safe \<^verbatim>\<open>sed -n\<close>. It is accepted exactly when it has the form of the regular expression the code names:
  \<^verbatim>\<open>^(\d+,)?\d+p$\<close>, that is, one or two numbers joined by a comma and followed by \<open>p\<close>.
\<close>

theorem sed_argument_form:
  "is_valid_sed_n_arg (Some s) \<longleftrightarrow>
     (\<exists>a. a \<noteq> [] \<and> all_ascii_digits a \<and> (s = a @ ''p'' \<or> (\<exists>b. b \<noteq> [] \<and> all_ascii_digits b \<and> s = b @ '','' @ a @ ''p'')))"
proof
  assume valid: "is_valid_sed_n_arg (Some s)"
  then have "s \<noteq> []" "last s = CHR ''p''" by (auto simp: is_valid_sed_n_arg_def split: if_splits)
  then have s: "s = butlast s @ ''p''" by (metis append_butlast_last_id)
  consider num where "split_on (CHR '','') (butlast s) = [num]" "num \<noteq> []" "all_ascii_digits num"
    | a b where "split_on (CHR '','') (butlast s) = [a, b]" "a \<noteq> []" "b \<noteq> []" "all_ascii_digits a" "all_ascii_digits b"
    using valid by (auto simp: is_valid_sed_n_arg_def split: if_splits list.splits)
  then show "\<exists>a. a \<noteq> [] \<and> all_ascii_digits a \<and> (s = a @ ''p'' \<or> (\<exists>b. b \<noteq> [] \<and> all_ascii_digits b \<and> s = b @ '','' @ a @ ''p''))"
  proof cases
    case 1
    then show ?thesis using join_split_on [of "CHR '',''" "butlast s"] s by (intro exI [of _ num]) simp
  next
    case 2
    have "butlast s = a @ '','' @ b" using join_split_on [of "CHR '',''" "butlast s"] 2(1) by simp
    then have "s = a @ '','' @ b @ ''p''" using s by (metis append.assoc)
    then show ?thesis using 2 by (intro exI [of _ b]) (blast intro: exI [of _ a])
  qed
next
  assume "\<exists>a. a \<noteq> [] \<and> all_ascii_digits a \<and> (s = a @ ''p'' \<or> (\<exists>b. b \<noteq> [] \<and> all_ascii_digits b \<and> s = b @ '','' @ a @ ''p''))"
  then obtain a where a: "a \<noteq> []" "all_ascii_digits a"
    and "s = a @ ''p'' \<or> (\<exists>b. b \<noteq> [] \<and> all_ascii_digits b \<and> s = b @ '','' @ a @ ''p'')" by blast
  then consider "s = a @ ''p''" | b where "b \<noteq> []" "all_ascii_digits b" "s = (b @ CHR '','' # a) @ ''p''" by auto
  then show "is_valid_sed_n_arg (Some s)"
  proof cases
    case 1
    then show ?thesis using a by (simp add: is_valid_sed_n_arg_def split_on_none digits_no_comma)
  next
    case (2 b)
    then have "butlast s = b @ CHR '','' # a" "last s = CHR ''p''" "s \<noteq> []" by (simp_all only: butlast_snoc last_snoc) simp
    then show ?thesis using a 2 by (simp add: is_valid_sed_n_arg_def split_on_append split_on_none digits_no_comma)
  qed
qed

subsection \<open>Safe git commands\<close>

definition git_flag :: "string \<Rightarrow> bool" where
  "git_flag f \<longleftrightarrow> prefix ''-'' f \<and> \<not> git_matches_option_pattern f unsafe_git_global_options"

lemma value_option_unsafe:
  "is_git_global_option_with_value arg \<or> is_git_global_option_with_inline_value arg \<Longrightarrow>
     git_matches_option_pattern arg unsafe_git_global_options"
  by (auto simp: is_git_global_option_with_value_def is_git_global_option_with_inline_value_def git_matches_option_pattern_def
      unsafe_git_global_options_def)

lemma scan_finds:
  "scan_git_subcommand subs skip idx args = Some (i, sub) \<Longrightarrow>
     \<exists>pre rest. args = pre @ sub # rest \<and> i = idx + length pre \<and> sub \<in> set subs
       \<and> (\<not> skip \<and> \<not> git_has_unsafe_global_option pre \<longrightarrow> list_all git_flag pre)"
proof (induction subs skip idx args rule: scan_git_subcommand.induct)
  case (2 subs skip idx arg args)
  have keep: ?case
    if rest: "\<exists>pre rest. args = pre @ sub # rest \<and> i = Suc idx + length pre \<and> sub \<in> set subs
         \<and> (\<not> skip' \<and> \<not> git_has_unsafe_global_option pre \<longrightarrow> list_all git_flag pre)"
      and arg: "\<not> skip \<and> \<not> git_matches_option_pattern arg unsafe_git_global_options \<longrightarrow> \<not> skip' \<and> prefix ''-'' arg" for skip'
  proof -
    obtain pre rest where "args = pre @ sub # rest" "i = Suc idx + length pre" "sub \<in> set subs"
      "\<not> skip' \<and> \<not> git_has_unsafe_global_option pre \<longrightarrow> list_all git_flag pre" using rest by blast
    then show ?thesis
      using arg by - (rule exI [of _ "arg # pre"], rule exI [of _ rest], auto simp: git_has_unsafe_global_option_def git_flag_def [of arg])
  qed
  consider "skip" | "\<not> skip" "is_git_global_option_with_inline_value arg"
    | "\<not> skip" "\<not> is_git_global_option_with_inline_value arg" "is_git_global_option_with_value arg"
    | "\<not> skip" "\<not> is_git_global_option_with_inline_value arg" "\<not> is_git_global_option_with_value arg" "prefix ''-'' arg \<or> arg = ''--''"
    | "\<not> skip" "\<not> is_git_global_option_with_inline_value arg" "\<not> is_git_global_option_with_value arg" "\<not> prefix ''-'' arg" "arg \<noteq> ''--''"
    by blast
  then show ?case
  proof cases
    case 1
    then show ?thesis using 2 by (intro keep [of False]) auto
  next
    case 2
    then show ?thesis using "2.IH"(2) "2.prems" value_option_unsafe [of arg] by (intro keep [of False]) auto
  next
    case 3
    then show ?thesis using "2.IH"(3) "2.prems" value_option_unsafe [of arg] by (intro keep [of True]) auto
  next
    case 4
    then show ?thesis using "2.IH"(4) "2.prems" by (intro keep [of False]) auto
  next
    case 5
    then have "arg = sub" "i = idx" "sub \<in> set subs" using "2.prems" by (auto split: if_splits)
    then show ?thesis by (intro exI [of _ "[]"] exI [of _ args]) simp
  qed
qed simp

lemma scan_flags:
  assumes "list_all git_flag flags" and "sub \<in> set subs" and "\<not> prefix ''-'' sub"
    and "\<not> is_git_global_option_with_inline_value sub" and "\<not> is_git_global_option_with_value sub" and "sub \<noteq> ''--''"
  shows "scan_git_subcommand subs False idx (flags @ sub # rest) = Some (idx + length flags, sub)"
  using assms
proof (induction flags arbitrary: idx)
  case (Cons f flags)
  then show ?case using value_option_unsafe [of f] by (auto simp: git_flag_def)
qed simp

lemma branch_loop_all: "branch_loop saw args \<longleftrightarrow> list_all branch_read_only_flag args \<and> (saw \<or> args \<noteq> [])"
  by (induction args arbitrary: saw) auto

definition git_subcommands :: "string list" where
  "git_subcommands = [''status'', ''log'', ''diff'', ''show'', ''branch'']"

definition read_only_git_form :: "string \<Rightarrow> string list \<Rightarrow> string \<Rightarrow> string list \<Rightarrow> bool" where
  "read_only_git_form cmd0 flags sub args \<longleftrightarrow>
     executable_name_lookup_key cmd0 = Some ''git'' \<and> list_all git_flag flags \<and> sub \<in> set git_subcommands
     \<and> \<not> list_ex (\<lambda>a. git_matches_option_pattern a unsafe_git_subcommand_options) args
     \<and> (sub = ''branch'' \<longrightarrow> list_all branch_read_only_flag args)"

lemma branch_read_only: "git_branch_is_read_only args = list_all branch_read_only_flag args"
  by (simp add: git_branch_is_read_only_def branch_loop_all)

lemma safe_git_has_form:
  assumes safe: "is_safe_git_command command"
  shows "\<exists>cmd0 flags sub args. command = cmd0 # flags @ sub # args \<and> read_only_git_form cmd0 flags sub args"
proof -
  obtain cmd0 args i sub where c: "command = cmd0 # args" "executable_name_lookup_key cmd0 = Some ''git''"
    "scan_git_subcommand git_subcommands False 1 args = Some (i, sub)"
    using safe by (auto simp: is_safe_git_command_def find_git_subcommand_def git_subcommands_def split: option.splits list.splits if_splits)
  from scan_finds [OF c(3)] obtain pre rest where p: "args = pre @ sub # rest" "i = 1 + length pre" "sub \<in> set git_subcommands"
    "\<not> git_has_unsafe_global_option pre \<longrightarrow> list_all git_flag pre" by blast
  have "find_git_subcommand command [''status'', ''log'', ''diff'', ''show'', ''branch''] = Some (i, sub)"
    using c by (simp add: find_git_subcommand_def git_subcommands_def)
  then have "\<not> git_has_unsafe_global_option pre" "git_subcommand_args_are_read_only rest" "sub = ''branch'' \<longrightarrow> list_all branch_read_only_flag rest"
    using safe c(1) p(1,2) unfolding is_safe_git_command_def by (auto simp: branch_read_only split: if_splits)
  then show ?thesis using c(1,2) p unfolding read_only_git_form_def git_subcommand_args_are_read_only_def by blast
qed

lemma git_form_is_safe:
  assumes "read_only_git_form cmd0 flags sub args"
  shows "is_safe_git_command (cmd0 # flags @ sub # args)"
proof -
  have sub: "sub \<in> set git_subcommands" and flags: "list_all git_flag flags" using assms by (simp_all add: read_only_git_form_def)
  have names: "\<not> prefix ''-'' sub" "\<not> is_git_global_option_with_inline_value sub" "\<not> is_git_global_option_with_value sub" "sub \<noteq> ''--''"
    using sub by (auto simp: git_subcommands_def is_git_global_option_with_inline_value_def is_git_global_option_with_value_def)
  have "find_git_subcommand (cmd0 # flags @ sub # args) [''status'', ''log'', ''diff'', ''show'', ''branch''] = Some (Suc (length flags), sub)"
    using scan_flags [OF flags sub names] assms by (simp add: find_git_subcommand_def git_subcommands_def read_only_git_form_def)
  moreover have "\<not> git_has_unsafe_global_option flags"
    using flags by (auto simp: git_has_unsafe_global_option_def list_ex_iff list_all_iff git_flag_def)
  ultimately show ?thesis
    using assms unfolding is_safe_git_command_def
    by (auto simp: git_subcommand_args_are_read_only_def branch_read_only read_only_git_form_def git_subcommands_def)
qed

text \<open>
  Which git commands run without asking. They are exactly those of the form \<^verbatim>\<open>git\<close>, then flags that begin with a dash and are none of the
  global options that move git elsewhere, change its configuration or run a pager, then \<^verbatim>\<open>status\<close>, \<^verbatim>\<open>log\<close>, \<^verbatim>\<open>diff\<close>,
  \<^verbatim>\<open>show\<close> or \<^verbatim>\<open>branch\<close>, then arguments none of which writes a file or runs a program, and for \<^verbatim>\<open>branch\<close> only
  flags that list. In particular, no word that the scan skips as the value of an option can hide a subcommand.
\<close>

theorem safe_git_commands:
  "is_safe_git_command command \<longleftrightarrow>
     (\<exists>cmd0 flags sub args. command = cmd0 # flags @ sub # args \<and> executable_name_lookup_key cmd0 = Some ''git''
        \<and> list_all (\<lambda>f. prefix ''-'' f \<and> \<not> git_matches_option_pattern f unsafe_git_global_options) flags
        \<and> sub \<in> set [''status'', ''log'', ''diff'', ''show'', ''branch'']
        \<and> \<not> list_ex (\<lambda>a. git_matches_option_pattern a unsafe_git_subcommand_options) args
        \<and> (sub = ''branch'' \<longrightarrow> list_all branch_read_only_flag args))"
proof -
  have "is_safe_git_command command \<longleftrightarrow>
      (\<exists>cmd0 flags sub args. command = cmd0 # flags @ sub # args \<and> read_only_git_form cmd0 flags sub args)"
    using safe_git_has_form git_form_is_safe by blast
  then show ?thesis unfolding read_only_git_form_def git_subcommands_def git_flag_def .
qed


subsection \<open>No command is both safe and dangerous\<close>

definition safe_keys :: "string list" where
  "safe_keys = safe_names @ [''numfmt'', ''tac'', ''base64'', ''find'', ''rg'', ''git'', ''sed'']"

lemma safe_exec_key: "is_safe_to_call_with_exec os (cmd0 # args) \<Longrightarrow> \<exists>n \<in> set safe_keys. executable_name_lookup_key cmd0 = Some n"
  by (auto simp: is_safe_to_call_with_exec_def safe_keys_def split: option.splits if_splits)

lemma key_examples:
  "executable_name_lookup_key ''rm'' = Some ''rm''" "executable_name_lookup_key ''sudo'' = Some ''sudo''"
  "''rm'' \<notin> set safe_keys" "''sudo'' \<notin> set safe_keys"
  by code_simp+

lemma safe_exec_not_dangerous:
  assumes "is_safe_to_call_with_exec os (cmd # args)"
  shows "\<not> is_dangerous_to_call_with_exec (cmd # args')"
proof
  assume "is_dangerous_to_call_with_exec (cmd # args')"
  then have "cmd = ''rm'' \<or> cmd = ''sudo''" by (auto split: if_splits)
  then show False using safe_exec_key [OF assms] key_examples by auto
qed

lemma safe_keys_no_shell: "list_all (\<lambda>n. detect_shell_type n = None \<and> name_stem n = n) safe_keys"
  by code_simp

lemma shell_names_not_safe:
  "list_all (\<lambda>s. \<forall>n. executable_name_lookup_key s = Some n \<longrightarrow> n \<notin> set safe_keys) [''zsh'', ''sh'', ''cmd'', ''bash'', ''pwsh'', ''powershell'']"
proof -
  have "executable_name_lookup_key ''zsh'' = Some ''zsh''" "executable_name_lookup_key ''sh'' = Some ''sh''"
    "executable_name_lookup_key ''cmd'' = Some ''cmd''" "executable_name_lookup_key ''bash'' = Some ''bash''"
    "executable_name_lookup_key ''pwsh'' = Some ''pwsh''" "executable_name_lookup_key ''powershell'' = Some ''powershell''"
    by code_simp+
  then show ?thesis by (simp add: safe_keys_def safe_names_def)
qed

lemma safe_key_no_shell:
  assumes "executable_name_lookup_key s = Some n" and "n \<in> set safe_keys"
  shows "detect_shell_type s = None"
proof -
  have n: "detect_shell_type n = None" "name_stem n = n" using safe_keys_no_shell assms(2) by (auto simp: list_all_iff)
  have "shell_name s = None"
  proof (rule ccontr)
    assume "shell_name s \<noteq> None"
    then have "s \<in> set [''zsh'', ''sh'', ''cmd'', ''bash'', ''pwsh'', ''powershell'']" by (auto simp: shell_name_def split: if_splits)
    then show False using shell_names_not_safe assms unfolding list_all_iff by blast
  qed
  moreover have "file_stem (path_of_string s) = Some n" using assms(1) n(2) by (simp add: file_stem_def executable_name_lookup_key_def)
  ultimately show ?thesis using n(1) by (subst detect_shell_type.simps) simp
qed

text \<open>The tree of a script that is one word.\<close>

definition single_word_tree :: "string \<Rightarrow> syntax_tree" where
  "single_word_tree w =
     \<lparr>tr_root_node = SyntaxNode ''program'' True w 0 [SyntaxNode ''command'' True w 0
        [SyntaxNode ''command_name'' True w 0 [SyntaxNode ''word'' True w 0 []]]], tr_has_error = False\<rparr>"

lemma single_word_commands: "try_parse_word_only_commands_sequence (single_word_tree w) = Some [[w]]"
proof -
  have ok: "node_allowed (SyntaxNode ''program'' True w 0 cs)" "node_allowed (SyntaxNode ''command'' True w 0 cs)"
    "node_allowed (SyntaxNode ''command_name'' True w 0 cs)" "node_allowed (SyntaxNode ''word'' True w 0 cs)" for cs
    by (simp_all add: node_allowed_def allowed_kinds_def)
  show ?thesis
    by (simp add: try_parse_word_only_commands_sequence_def single_word_tree_def ok parse_plain_command_from_node_def plain_word_def
        named_children_def)
qed

definition bash_for_zsh :: "string \<Rightarrow> string" where
  "bash_for_zsh s = (if s = ''zsh'' then ''bash'' else s)"

lemma detect_bash_for_zsh: "detect_shell_type (bash_for_zsh s) \<in> {Some Zsh, Some Bash, Some Sh} \<longleftrightarrow>
    detect_shell_type s \<in> {Some Zsh, Some Bash, Some Sh}"
proof -
  have "detect_shell_type ''zsh'' = Some Zsh" "detect_shell_type ''bash'' = Some Bash" by (simp_all add: detect_shell_type.simps shell_name_def)
  then show ?thesis by (simp add: bash_for_zsh_def)
qed

lemma extract_bash_for_zsh:
  "extract_bash_command (map bash_for_zsh command) =
     map_option (\<lambda>(shell, script). (bash_for_zsh shell, bash_for_zsh script)) (extract_bash_command command)"
proof (cases "\<exists>shell flag script. command = [shell, flag, script]")
  case True
  then obtain shell flag script where c: "command = [shell, flag, script]" by blast
  have "bash_for_zsh flag = ''-lc'' \<longleftrightarrow> flag = ''-lc''" "bash_for_zsh flag = ''-c'' \<longleftrightarrow> flag = ''-c''" by (simp_all add: bash_for_zsh_def)
  then show ?thesis using detect_bash_for_zsh [of shell] by (simp add: c extract_bash_command_def)
next
  case False
  then have "extract_bash_command command = None" "extract_bash_command (map bash_for_zsh command) = None"
    by (auto simp: extract_bash_command_def split: list.splits)
  then show ?thesis by simp
qed

lemma safe_exec_no_script:
  assumes "is_safe_to_call_with_exec os (map bash_for_zsh command)"
  shows "\<not> is_dangerous_to_call_with_exec command \<and> extract_bash_command command = None"
proof (cases command)
  case Nil
  then show ?thesis by (simp add: extract_bash_command_def)
next
  case (Cons c args)
  obtain n where n: "n \<in> set safe_keys" "executable_name_lookup_key (bash_for_zsh c) = Some n"
    using safe_exec_key [of os "bash_for_zsh c"] assms by (auto simp: Cons)
  have "c \<noteq> ''zsh''"
  proof
    assume "c = ''zsh''"
    then show False using n shell_names_not_safe by (simp add: bash_for_zsh_def)
  qed
  then have c: "bash_for_zsh c = c" by (simp add: bash_for_zsh_def)
  then have "detect_shell_type c = None" using safe_key_no_shell n by simp
  then have "extract_bash_command command = None" by (auto simp: Cons extract_bash_command_def split: list.split)
  then show ?thesis using safe_exec_not_dangerous [of os c "map bash_for_zsh args" args] assms c by (simp add: Cons)
qed

lemma safe_list_not_dangerous: "list_all (is_safe_to_call_with_exec os) cs \<Longrightarrow> \<not> list_ex is_dangerous_to_call_with_exec cs"
proof
  assume "list_all (is_safe_to_call_with_exec os) cs" and "list_ex is_dangerous_to_call_with_exec cs"
  then obtain c where c: "is_safe_to_call_with_exec os c" "is_dangerous_to_call_with_exec c" by (auto simp: list_all_iff list_ex_iff)
  then show False using safe_exec_not_dangerous by (cases c) auto
qed

lemma shell_script_not_dangerous_exec:
  assumes "extract_bash_command command \<noteq> None"
  shows "\<not> is_dangerous_to_call_with_exec command"
proof
  assume "is_dangerous_to_call_with_exec command"
  then have "\<exists>args. command = ''rm'' # args \<or> command = ''sudo'' # args" by (cases command) (auto split: if_splits)
  moreover have "detect_shell_type ''rm'' = None" "detect_shell_type ''sudo'' = None" by code_simp+
  ultimately have "extract_bash_command command = None" by (auto simp: extract_bash_command_def split: list.split)
  then show False using assms by simp
qed

text \<open>
  C32. No command is on both lists. Provided that the parser reads the one word \<^verbatim>\<open>bash\<close> as a command of one word (the code
  puts \<^verbatim>\<open>bash\<close> for \<^verbatim>\<open>zsh\<close> everywhere in the command before it looks whether it is safe), a command that
  \<^verbatim>\<open>is_known_safe_command\<close> accepts, as it is or as a shell's script of plain commands, is never one that
  \<^verbatim>\<open>command_might_be_dangerous\<close> reports.
\<close>

theorem safe_commands_are_not_dangerous:
  assumes "sl_parse lib ''bash'' = Some (single_word_tree ''bash'')" and "is_known_safe_command os lib command"
  shows "\<not> command_might_be_dangerous lib command"
proof -
  have bash: "(\<lambda>s. if s = ''zsh'' then ''bash'' else s) = bash_for_zsh" by (simp add: bash_for_zsh_def fun_eq_iff)
  consider "is_safe_to_call_with_exec os (map bash_for_zsh command)"
    | cs where "parse_shell_lc_plain_commands lib (map bash_for_zsh command) = Some cs" "cs \<noteq> []" "list_all (is_safe_to_call_with_exec os) cs"
    using assms(2) unfolding is_known_safe_command_def bash Let_def by (auto split: if_splits option.splits)
  then show ?thesis
  proof cases
    case 1
    then show ?thesis using safe_exec_no_script by (simp add: command_might_be_dangerous_def parse_shell_lc_plain_commands_def)
  next
    case (2 cs)
    then obtain shell script where script: "extract_bash_command command = Some (shell, script)"
      "parse_shell_script_into_commands lib (bash_for_zsh script) = Some cs"
      by (auto simp: parse_shell_lc_plain_commands_def extract_bash_for_zsh split: option.splits)
    have "script \<noteq> ''zsh''"
    proof
      assume "script = ''zsh''"
      then have "cs = [[''bash'']]"
        using script(2) assms(1) single_word_commands by (simp add: bash_for_zsh_def parse_shell_script_into_commands_def)
      then show False using 2(3) safe_exec_key [of os "''bash''" "[]"] shell_names_not_safe by auto
    qed
    then have "parse_shell_lc_plain_commands lib command = Some cs" using script by (simp add: bash_for_zsh_def parse_shell_lc_plain_commands_def)
    then show ?thesis
      using shell_script_not_dangerous_exec [of command] script(1) safe_list_not_dangerous [OF 2(3)] by (simp add: command_might_be_dangerous_def)
  qed
qed

subsection \<open>Examples\<close>

definition example_lib :: shell_lib where
  "example_lib =
     \<lparr>sl_parse = (\<lambda>s. Some (if s = example_script then example_tree else single_word_tree s)),
      sl_split = (\<lambda>s. Some (filter (\<lambda>w. w \<noteq> []) (split_on (CHR '' '') s))), sl_try_join = (\<lambda>ts. Some (join_with '' '' ts))\<rparr>"

lemma example_bash: "detect_shell_type ''bash'' = Some Bash" "extract_bash_command [''bash'', ''-lc'', script] = Some (''bash'', script)"
  by (simp_all add: extract_bash_command_def detect_shell_type.simps shell_name_def)

theorem safe_git_commands_witness: "is_safe_git_command [''git'', ''--no-pager'', ''log'', ''-1'']"
proof -
  have "executable_name_lookup_key ''git'' = Some ''git''" by code_simp
  then show ?thesis
    unfolding safe_git_commands
    by (intro exI [of _ "''git''"] exI [of _ "[''--no-pager'']"] exI [of _ "''log''"] exI [of _ "[''-1'']"])
      (simp add: git_matches_option_pattern_def unsafe_git_global_options_def unsafe_git_subcommand_options_def)
qed

theorem safe_commands_are_not_dangerous_witness:
  "is_known_safe_command Linux example_lib [''bash'', ''-lc'', ''ls''] \<and> \<not> command_might_be_dangerous example_lib [''bash'', ''-lc'', ''ls'']"
proof -
  have "executable_name_lookup_key ''ls'' = Some ''ls''" by code_simp
  then have ls: "is_safe_to_call_with_exec Linux [''ls'']" by (simp add: is_safe_to_call_with_exec_def safe_names_def)
  have "is_known_safe_command Linux example_lib [''bash'', ''-lc'', ''ls'']"
    by (simp add: is_known_safe_command_def parse_shell_lc_plain_commands_def example_bash parse_shell_script_into_commands_def example_lib_def
        example_script_def single_word_commands ls)
  then show ?thesis
    using safe_commands_are_not_dangerous [of example_lib Linux "[''bash'', ''-lc'', ''ls'']"] by (simp add: example_lib_def example_script_def)
qed
end
