(* ===== verification/Command_Summary.thy ===== *)
theory Command_Summary
  imports Command_Safety
begin

text \<open>
  What a command is shown as: \<^verbatim>\<open>crates/shell-command/src/parse_command.rs\<close>. A command or a script is summarised as files read,
  directories listed and searches, or as unknown. The crate shlex, which splits and joins words, is an argument.
\<close>

subsection \<open>Words, flags and paths\<close>

datatype parsed_command =
  ReadCommand string string string
| ListFilesCommand string "string option"
| SearchCommand string "string option" "string option"
| UnknownCommand string

definition shlex_join :: "shell_lib \<Rightarrow> string list \<Rightarrow> string" where
  "shlex_join lib tokens = (case sl_try_join lib tokens of Some s \<Rightarrow> s | None \<Rightarrow> ''<command included NUL byte>'')"

definition is_connector :: "string \<Rightarrow> bool" where
  "is_connector t = (t = ''&&'' \<or> t = ''||'' \<or> t = ''|'' \<or> t = '';'')"

definition contains_connectors :: "string list \<Rightarrow> bool" where
  "contains_connectors tokens = list_ex is_connector tokens"

fun split_connectors_loop :: "string list \<Rightarrow> string list \<Rightarrow> string list list" where
  "split_connectors_loop cur [] = (if cur = [] then [] else [cur])"
| "split_connectors_loop cur (t # ts) =
     (if is_connector t then (if cur = [] then [] else [cur]) @ split_connectors_loop [] ts
      else split_connectors_loop (cur @ [t]) ts)"

definition split_on_connectors :: "string list \<Rightarrow> string list list" where
  "split_on_connectors tokens = split_connectors_loop [] tokens"

definition trim_at_connector :: "string list \<Rightarrow> string list" where
  "trim_at_connector tokens = takeWhile (\<lambda>t. \<not> is_connector t) tokens"

definition short_display_path :: "string \<Rightarrow> string" where
  "short_display_path path =
     (let normalized = map (\<lambda>c. if c = CHR 0x5C then CHR ''/'' else c) path;
          trimmed = rev (dropWhile (\<lambda>c. c = CHR ''/'') (rev normalized))
      in case filter (\<lambda>p. p \<noteq> [] \<and> p \<notin> set [''build'', ''dist'', ''node_modules'', ''src'']) (rev (split_on (CHR ''/'') trimmed)) of
           p # _ \<Rightarrow> p
         | [] \<Rightarrow> trimmed)"

definition is_flag :: "string \<Rightarrow> bool" where
  "is_flag s = prefix ''-'' s"

definition inline_flag :: "string \<Rightarrow> bool" where
  "inline_flag a = (prefix ''--'' a \<and> CHR ''='' \<in> set a)"

fun skip_flags_loop :: "string list \<Rightarrow> bool \<Rightarrow> string list \<Rightarrow> string list" where
  "skip_flags_loop flags skip_next [] = []"
| "skip_flags_loop flags skip_next (a # args) =
     (if skip_next then skip_flags_loop flags False args
      else if a = ''--'' then args
      else if inline_flag a then skip_flags_loop flags False args
      else if a \<in> set flags then skip_flags_loop flags (args \<noteq> []) args
      else a # skip_flags_loop flags False args)"

definition skip_flag_values :: "string list \<Rightarrow> string list \<Rightarrow> string list" where
  "skip_flag_values args flags_with_vals = skip_flags_loop flags_with_vals False args"

fun operands_loop :: "string list \<Rightarrow> bool \<Rightarrow> bool \<Rightarrow> string list \<Rightarrow> string list" where
  "operands_loop flags after_double_dash skip_next [] = []"
| "operands_loop flags after_double_dash skip_next (a # args) =
     (if skip_next then operands_loop flags after_double_dash False args
      else if after_double_dash then a # operands_loop flags True False args
      else if a = ''--'' then operands_loop flags True False args
      else if inline_flag a then operands_loop flags False False args
      else if a \<in> set flags then operands_loop flags False (args \<noteq> []) args
      else if is_flag a then operands_loop flags False False args
      else a # operands_loop flags False False args)"

definition positional_operands :: "string list \<Rightarrow> string list \<Rightarrow> string list" where
  "positional_operands args flags_with_vals = operands_loop flags_with_vals False False args"

definition first_non_flag_operand :: "string list \<Rightarrow> string list \<Rightarrow> string option" where
  "first_non_flag_operand args flags_with_vals =
     (case positional_operands args flags_with_vals of a # _ \<Rightarrow> Some a | [] \<Rightarrow> None)"

definition single_non_flag_operand :: "string list \<Rightarrow> string list \<Rightarrow> string option" where
  "single_non_flag_operand args flags_with_vals =
     (case positional_operands args flags_with_vals of [a] \<Rightarrow> Some a | _ \<Rightarrow> None)"

definition non_flags :: "string list \<Rightarrow> string list" where
  "non_flags args = filter (\<lambda>a. \<not> is_flag a) args"

definition nth_operand :: "string list \<Rightarrow> nat \<Rightarrow> string option" where
  "nth_operand xs i = (if i < length xs then Some (xs ! i) else None)"

definition is_abs_like :: "string \<Rightarrow> bool" where
  "is_abs_like path =
     (prefix ''/'' path
      \<or> (case path of
           d # c1 # c2 # _ \<Rightarrow>
             (65 \<le> (of_char d :: nat) \<and> (of_char d :: nat) \<le> 90 \<or> 97 \<le> (of_char d :: nat) \<and> (of_char d :: nat) \<le> 122)
             \<and> c1 = CHR '':'' \<and> c2 = CHR 0x5C
         | _ \<Rightarrow> False)
      \<or> prefix [CHR 0x5C, CHR 0x5C] path)"

definition join_paths :: "string \<Rightarrow> string \<Rightarrow> string" where
  "join_paths base rel =
     (if is_abs_like rel then rel
      else if base = [] then rel
      else base @ (if last base = CHR ''/'' then [] else ''/'') @ rel)"

subsection \<open>Operands of some programs\<close>

fun sed_range_loop :: "string list \<Rightarrow> bool" where
  "sed_range_loop [] = False"
| "sed_range_loop (arg # args) =
     (if arg = ''-e'' \<or> arg = ''--expression'' then
        (case args of [] \<Rightarrow> is_valid_sed_n_arg None | a # rest \<Rightarrow> is_valid_sed_n_arg (Some a) \<or> sed_range_loop rest)
      else if arg = ''-f'' \<or> arg = ''--file'' then (case args of [] \<Rightarrow> False | _ # rest \<Rightarrow> sed_range_loop rest)
      else sed_range_loop args)"

definition sed_read_path :: "string list \<Rightarrow> string option" where
  "sed_read_path args =
     (let args' = trim_at_connector args
      in if ''-n'' \<notin> set args' then None
         else if \<not> (sed_range_loop args' \<or> list_ex (\<lambda>arg. \<not> is_flag arg \<and> is_valid_sed_n_arg (Some arg)) args') then None
         else case non_flags (skip_flag_values args' [''-e'', ''-f'', ''--expression'', ''--file'']) of
                [] \<Rightarrow> None
              | first # rest \<Rightarrow>
                  if is_valid_sed_n_arg (Some first) then (case rest of p # _ \<Rightarrow> Some p | [] \<Rightarrow> None) else Some first)"

definition awk_data_file_operand :: "string list \<Rightarrow> string option" where
  "awk_data_file_operand args =
     (if args = [] then None
      else
        (let args' = trim_at_connector args;
             operands = non_flags (skip_flag_values args' [''-F'', ''-v'', ''-f'', ''--field-separator'', ''--assign'', ''--file''])
         in if list_ex (\<lambda>arg. arg = ''-f'' \<or> arg = ''--file'') args' then nth_operand operands 0
            else if length operands \<ge> 2 then Some (operands ! 1)
            else None))"

fun python_loop :: "string list \<Rightarrow> bool" where
  "python_loop [] = False"
| "python_loop (arg # args) =
     (if arg = ''-c'' then
        (case args of
           script # _ \<Rightarrow>
             list_ex (\<lambda>w. contains w script)
               [''os.walk'', ''os.listdir'', ''os.scandir'', ''glob.glob'', ''glob.iglob'', ''pathlib.Path'', ''.rglob('']
         | [] \<Rightarrow> False)
      else python_loop args)"

definition python_walks_files :: "string list \<Rightarrow> bool" where
  "python_walks_files args = python_loop (trim_at_connector args)"

definition is_python_command :: "string \<Rightarrow> bool" where
  "is_python_command cmd =
     (cmd = ''python'' \<or> cmd = ''python2'' \<or> cmd = ''python3'' \<or> prefix ''python2.'' cmd \<or> prefix ''python3.'' cmd)"

fun cd_target_loop :: "string option \<Rightarrow> string list \<Rightarrow> string option" where
  "cd_target_loop target [] = target"
| "cd_target_loop target (arg # args) =
     (if arg = ''--'' then (case args of a # _ \<Rightarrow> Some a | [] \<Rightarrow> None)
      else if arg = ''-L'' \<or> arg = ''-P'' then cd_target_loop target args
      else if is_flag arg then cd_target_loop target args
      else cd_target_loop (Some arg) args)"

definition cd_target :: "string list \<Rightarrow> string option" where
  "cd_target args = (if args = [] then None else cd_target_loop None args)"

definition is_pathish :: "string \<Rightarrow> bool" where
  "is_pathish s =
     (s = ''.'' \<or> s = ''..'' \<or> prefix ''./'' s \<or> prefix ''../'' s \<or> CHR ''/'' \<in> set s \<or> CHR 0x5C \<in> set s)"

definition parse_fd_query_and_path :: "string list \<Rightarrow> string option \<times> string option" where
  "parse_fd_query_and_path tail =
     (case non_flags (skip_flag_values (trim_at_connector tail)
             [''-t'', ''--type'', ''-e'', ''--extension'', ''-E'', ''--exclude'', ''--search-path'']) of
        [one] \<Rightarrow> if is_pathish one then (None, Some (short_display_path one)) else (Some one, None)
      | q # p # _ \<Rightarrow> (Some q, Some (short_display_path p))
      | [] \<Rightarrow> (None, None))"

fun find_query_loop :: "string list \<Rightarrow> string option" where
  "find_query_loop [] = None"
| "find_query_loop (a # args) =
     (if a \<in> set [''-name'', ''-iname'', ''-path'', ''-regex''] then (case args of q # _ \<Rightarrow> Some q | [] \<Rightarrow> None)
      else find_query_loop args)"

definition parse_find_query_and_path :: "string list \<Rightarrow> string option \<times> string option" where
  "parse_find_query_and_path tail =
     (let args = trim_at_connector tail
      in (find_query_loop args,
          map_option short_display_path (find (\<lambda>a. \<not> is_flag a \<and> a \<noteq> ''!'' \<and> a \<noteq> ''('' \<and> a \<noteq> '')'') args)))"

fun grep_loop :: "bool \<Rightarrow> string option \<Rightarrow> string list \<Rightarrow> string list \<Rightarrow> string option \<times> string list" where
  "grep_loop dd pattern operands [] = (pattern, operands)"
| "grep_loop dd pattern operands (arg # args) =
     (if dd then grep_loop dd pattern (operands @ [arg]) args
      else if arg = ''--'' then grep_loop True pattern operands args
      else if arg \<in> set [''-e'', ''--regexp'', ''-f'', ''--file''] then
        (case args of
           [] \<Rightarrow> (pattern, operands)
         | p # rest \<Rightarrow> grep_loop dd (if pattern = None then Some p else pattern) operands rest)
      else if arg \<in> set [''-m'', ''--max-count'', ''-C'', ''--context'', ''-A'', ''--after-context'', ''-B'', ''--before-context''] then
        (case args of [] \<Rightarrow> (pattern, operands) | _ # rest \<Rightarrow> grep_loop dd pattern operands rest)
      else if is_flag arg then grep_loop dd pattern operands args
      else grep_loop dd pattern (operands @ [arg]) args)"

definition parse_grep_like :: "shell_lib \<Rightarrow> string list \<Rightarrow> string list \<Rightarrow> parsed_command" where
  "parse_grep_like lib main_cmd args =
     (case grep_loop False None [] (trim_at_connector args) of
        (pattern, operands) \<Rightarrow>
          SearchCommand (shlex_join lib main_cmd)
            (case pattern of Some p \<Rightarrow> Some p | None \<Rightarrow> nth_operand operands 0)
            (map_option short_display_path (nth_operand operands (if pattern \<noteq> None then 0 else 1))))"


subsection \<open>One command\<close>

definition read_of :: "shell_lib \<Rightarrow> string list \<Rightarrow> string option \<Rightarrow> parsed_command" where
  "read_of lib main_cmd path =
     (case path of
        Some p \<Rightarrow> ReadCommand (shlex_join lib main_cmd) (short_display_path p) p
      | None \<Rightarrow> UnknownCommand (shlex_join lib main_cmd))"

definition list_of :: "shell_lib \<Rightarrow> string list \<Rightarrow> string option \<Rightarrow> parsed_command" where
  "list_of lib main_cmd path = ListFilesCommand (shlex_join lib main_cmd) (map_option short_display_path path)"

definition query_or_list :: "shell_lib \<Rightarrow> string list \<Rightarrow> string option \<times> string option \<Rightarrow> parsed_command" where
  "query_or_list lib main_cmd = (\<lambda>(query, path).
     if query \<noteq> None then SearchCommand (shlex_join lib main_cmd) query path
     else ListFilesCommand (shlex_join lib main_cmd) path)"

definition search_of :: "shell_lib \<Rightarrow> string list \<Rightarrow> string list \<Rightarrow> parsed_command" where
  "search_of lib main_cmd operands =
     SearchCommand (shlex_join lib main_cmd) (nth_operand operands 0) (map_option short_display_path (nth_operand operands 1))"

definition strip_plus :: "string \<Rightarrow> string" where
  "strip_plus s = (case s of c # t \<Rightarrow> if c = CHR ''+'' then t else s | [] \<Rightarrow> s)"

text \<open>
  \<^verbatim>\<open>head\<close> and \<^verbatim>\<open>tail\<close>: whether the count after \<^verbatim>\<open>-n\<close> is valid, and the file. \<open>valid\<close> is the test of a count.
\<close>

definition has_valid_n :: "(string \<Rightarrow> bool) \<Rightarrow> string list \<Rightarrow> bool" where
  "has_valid_n valid tail =
     (case tail of
        [] \<Rightarrow> False
      | first # rest \<Rightarrow>
          if first = ''-n'' then (case rest of n # _ \<Rightarrow> valid n | [] \<Rightarrow> False)
          else if prefix ''-n'' first then valid (drop 2 first)
          else False)"

definition count_candidates :: "(string \<Rightarrow> bool) \<Rightarrow> string list \<Rightarrow> string list" where
  "count_candidates valid tail =
     (case tail of
        first # n # rest \<Rightarrow> if first = ''-n'' \<and> valid n then rest else tail
      | _ \<Rightarrow> tail)"

definition counted_file :: "(string \<Rightarrow> bool) \<Rightarrow> string list \<Rightarrow> string option" where
  "counted_file valid tail =
     (case (if has_valid_n valid tail then find (\<lambda>p. \<not> is_flag p) (count_candidates valid tail) else None) of
        Some p \<Rightarrow> Some p
      | None \<Rightarrow> (case tail of [path] \<Rightarrow> if is_flag path then None else Some path | _ \<Rightarrow> None))"

definition tail_count :: "string \<Rightarrow> bool" where
  "tail_count n = (strip_plus n \<noteq> [] \<and> all_ascii_digits (strip_plus n))"

definition summarize_git :: "shell_lib \<Rightarrow> string list \<Rightarrow> string list \<Rightarrow> parsed_command" where
  "summarize_git lib main_cmd tail =
     (case tail of
        subcmd # sub_tail \<Rightarrow>
          if subcmd = ''grep'' then parse_grep_like lib main_cmd sub_tail
          else if subcmd = ''ls-files'' then
            list_of lib main_cmd (first_non_flag_operand sub_tail [''--exclude'', ''--exclude-from'', ''--pathspec-from-file''])
          else UnknownCommand (shlex_join lib main_cmd)
      | [] \<Rightarrow> UnknownCommand (shlex_join lib main_cmd))"

definition summarize_rg :: "shell_lib \<Rightarrow> string list \<Rightarrow> string list \<Rightarrow> parsed_command" where
  "summarize_rg lib main_cmd tail =
     (let args = trim_at_connector tail;
          operands = non_flags (skip_flag_values args
            [''-g'', ''--glob'', ''--iglob'', ''-t'', ''--type'', ''--type-add'', ''--type-not'', ''-m'', ''--max-count'', ''-A'', ''-B'', ''-C'',
             ''--context'', ''--max-depth''])
      in if ''--files'' \<in> set args then list_of lib main_cmd (nth_operand operands 0)
         else search_of lib main_cmd operands)"

definition summarize_main_tokens :: "shell_lib \<Rightarrow> string list \<Rightarrow> parsed_command" where
  "summarize_main_tokens lib main_cmd =
     (case main_cmd of
        [] \<Rightarrow> UnknownCommand (shlex_join lib main_cmd)
      | head # tail \<Rightarrow>
          if head = ''ls'' then
            list_of lib main_cmd (first_non_flag_operand tail
              [''-I'', ''-w'', ''--block-size'', ''--format'', ''--time-style'', ''--color'', ''--quoting-style''])
          else if head = ''eza'' \<or> head = ''exa'' then
            list_of lib main_cmd (first_non_flag_operand tail [''-I'', ''--ignore-glob'', ''--color'', ''--sort'', ''--time-style'', ''--time''])
          else if head = ''tree'' then
            list_of lib main_cmd (first_non_flag_operand tail [''-L'', ''-P'', ''-I'', ''--charset'', ''--filelimit'', ''--sort''])
          else if head = ''du'' then
            list_of lib main_cmd (first_non_flag_operand tail
              [''-d'', ''--max-depth'', ''-B'', ''--block-size'', ''--exclude'', ''--time-style''])
          else if head = ''rg'' \<or> head = ''rga'' \<or> head = ''ripgrep-all'' then summarize_rg lib main_cmd tail
          else if head = ''git'' then summarize_git lib main_cmd tail
          else if head = ''fd'' then query_or_list lib main_cmd (parse_fd_query_and_path tail)
          else if head = ''find'' then query_or_list lib main_cmd (parse_find_query_and_path tail)
          else if head \<in> set [''grep'', ''egrep'', ''fgrep''] then parse_grep_like lib main_cmd tail
          else if head \<in> set [''ag'', ''ack'', ''pt''] then
            search_of lib main_cmd (non_flags (skip_flag_values (trim_at_connector tail)
              [''-G'', ''-g'', ''--file-search-regex'', ''--ignore-dir'', ''--ignore-file'', ''--path-to-ignore'']))
          else if head = ''cat'' then read_of lib main_cmd (single_non_flag_operand tail [])
          else if head = ''bat'' \<or> head = ''batcat'' then
            read_of lib main_cmd (single_non_flag_operand tail
              [''--theme'', ''--language'', ''--style'', ''--terminal-width'', ''--tabs'', ''--line-range'', ''--map-syntax''])
          else if head = ''less'' then
            read_of lib main_cmd (single_non_flag_operand tail
              [''-p'', ''-P'', ''-x'', ''-y'', ''-z'', ''-j'', ''--pattern'', ''--prompt'', ''--tabs'', ''--shift'', ''--jump-target''])
          else if head = ''more'' then read_of lib main_cmd (single_non_flag_operand tail [])
          else if head = ''head'' then read_of lib main_cmd (counted_file all_ascii_digits tail)
          else if head = ''tail'' then read_of lib main_cmd (counted_file tail_count tail)
          else if head = ''awk'' then read_of lib main_cmd (awk_data_file_operand tail)
          else if head = ''nl'' then
            read_of lib main_cmd (find (\<lambda>p. \<not> is_flag p) (skip_flag_values tail [''-s'', ''-w'', ''-v'', ''-i'', ''-b'']))
          else if head = ''sed'' then read_of lib main_cmd (sed_read_path tail)
          else if is_python_command head then
            (if python_walks_files tail then ListFilesCommand (shlex_join lib main_cmd) None
             else UnknownCommand (shlex_join lib main_cmd))
          else UnknownCommand (shlex_join lib main_cmd))"

subsection \<open>Formatting helpers\<close>

fun xargs_loop :: "string list \<Rightarrow> string list option" where
  "xargs_loop [] = None"
| "xargs_loop (token # tokens) =
     (if token = ''--'' then (if tokens = [] then None else Some tokens)
      else if \<not> is_flag token then Some (token # tokens)
      else if token \<in> set [''-E'', ''-e'', ''-I'', ''-L'', ''-n'', ''-P'', ''-s''] \<and> length token = 2 then
        (case tokens of [] \<Rightarrow> None | _ # rest \<Rightarrow> xargs_loop rest)
      else xargs_loop tokens)"

definition xargs_subcommand :: "string list \<Rightarrow> string list option" where
  "xargs_subcommand tokens = (case tokens of head # tail \<Rightarrow> if head \<noteq> ''xargs'' then None else xargs_loop tail | [] \<Rightarrow> None)"

definition xargs_has_in_place_flag :: "string list \<Rightarrow> bool" where
  "xargs_has_in_place_flag tokens =
     list_ex (\<lambda>token. token = ''-i'' \<or> prefix ''-i'' token \<or> token = ''-pi'' \<or> prefix ''-pi'' token) tokens"

definition xargs_is_mutating_subcommand :: "string list \<Rightarrow> bool" where
  "xargs_is_mutating_subcommand tokens =
     (case tokens of
        [] \<Rightarrow> False
      | head # tail \<Rightarrow>
          if head = ''perl'' \<or> head = ''ruby'' then xargs_has_in_place_flag tail
          else if head = ''sed'' then xargs_has_in_place_flag tail \<or> ''--in-place'' \<in> set tail
          else if head = ''rg'' then ''--replace'' \<in> set tail
          else False)"

definition is_mutating_xargs_command :: "string list \<Rightarrow> bool" where
  "is_mutating_xargs_command tokens =
     (case xargs_subcommand tokens of Some sub \<Rightarrow> xargs_is_mutating_subcommand sub | None \<Rightarrow> False)"

definition is_small_formatting_command :: "string list \<Rightarrow> bool" where
  "is_small_formatting_command tokens =
     (case tokens of
        [] \<Rightarrow> False
      | cmd # args \<Rightarrow>
          if cmd \<in> set [''wc'', ''tr'', ''cut'', ''sort'', ''uniq'', ''tee'', ''column'', ''yes'', ''printf''] then True
          else if cmd = ''xargs'' then \<not> is_mutating_xargs_command tokens
          else if cmd = ''awk'' then awk_data_file_operand args = None
          else if cmd = ''head'' then
            (case args of
               [] \<Rightarrow> True
             | [arg] \<Rightarrow> is_flag arg
             | [flag, number] \<Rightarrow> (flag = ''-n'' \<or> flag = ''-c'') \<and> all_ascii_digits number
             | _ \<Rightarrow> False)
          else if cmd = ''tail'' then
            (case args of
               [] \<Rightarrow> True
             | [arg] \<Rightarrow> is_flag arg
             | [flag, number] \<Rightarrow>
                 (flag = ''-n'' \<or> flag = ''-c'')
                 \<and> (all_ascii_digits number \<or> prefix ''+'' number \<and> all_ascii_digits (drop 1 number))
             | _ \<Rightarrow> False)
          else if cmd = ''sed'' then sed_read_path args = None
          else False)"

definition drop_small_formatting_commands :: "string list list \<Rightarrow> string list list" where
  "drop_small_formatting_commands commands = filter (\<lambda>tokens. \<not> is_small_formatting_command tokens) commands"

subsection \<open>Commands in sequence\<close>

fun position :: "('a \<Rightarrow> bool) \<Rightarrow> 'a list \<Rightarrow> nat option" where
  "position P [] = None"
| "position P (x # xs) = (if P x then Some 0 else map_option Suc (position P xs))"

definition remove_at :: "nat \<Rightarrow> 'a list \<Rightarrow> 'a list" where
  "remove_at i xs = take i xs @ drop (Suc i) xs"

definition unknown_words :: "shell_lib \<Rightarrow> (string list \<Rightarrow> bool) \<Rightarrow> parsed_command \<Rightarrow> bool" where
  "unknown_words lib P pc =
     (case pc of
        UnknownCommand cmd \<Rightarrow> (case sl_split lib cmd of Some tokens \<Rightarrow> P tokens | None \<Rightarrow> False)
      | _ \<Rightarrow> False)"

definition first_word :: "string \<Rightarrow> string list \<Rightarrow> bool" where
  "first_word w tokens = (tokens \<noteq> [] \<and> hd tokens = w)"

definition simplify_true_or_nl :: "shell_lib \<Rightarrow> parsed_command list \<Rightarrow> parsed_command list option" where
  "simplify_true_or_nl lib commands =
     (case position (\<lambda>pc. pc = UnknownCommand ''true'') commands of
        Some i \<Rightarrow> Some (remove_at i commands)
      | None \<Rightarrow>
          map_option (\<lambda>i. remove_at i commands)
            (position (unknown_words lib (\<lambda>ts. first_word ''nl'' ts \<and> list_all is_flag (tl ts))) commands))"

definition simplify_once :: "shell_lib \<Rightarrow> parsed_command list \<Rightarrow> parsed_command list option" where
  "simplify_once lib commands =
     (if length commands \<le> 1 then None
      else if unknown_words lib (first_word ''echo'') (hd commands) then Some (tl commands)
      else
        case position (unknown_words lib (first_word ''cd'')) commands of
          Some i \<Rightarrow> if length commands > i + 1 then Some (remove_at i commands) else simplify_true_or_nl lib commands
        | None \<Rightarrow> simplify_true_or_nl lib commands)"

lemma position_less: "position P xs = Some i \<Longrightarrow> i < length xs \<and> P (xs ! i)"
  by (induction xs arbitrary: i) (auto split: if_splits)

lemma simplify_once_shorter: "simplify_once lib commands = Some next \<Longrightarrow> length next < length commands"
  by (cases commands) (auto simp: simplify_once_def simplify_true_or_nl_def remove_at_def dest!: position_less split: if_splits option.splits)

function simplify :: "shell_lib \<Rightarrow> parsed_command list \<Rightarrow> parsed_command list" where
  "simplify lib commands = (case simplify_once lib commands of Some next \<Rightarrow> simplify lib next | None \<Rightarrow> commands)"
  by pat_completeness auto

termination
  by (relation "measure (\<lambda>(lib, commands). length commands)") (auto dest: simplify_once_shorter)

declare simplify.simps [simp del]

subsection \<open>Scripts and commands\<close>

definition located :: "string option \<Rightarrow> parsed_command \<Rightarrow> parsed_command" where
  "located cwd pc =
     (case pc of
        ReadCommand cmd name path \<Rightarrow>
          (case cwd of Some base \<Rightarrow> ReadCommand cmd name (join_paths base path) | None \<Rightarrow> pc)
      | _ \<Rightarrow> pc)"

definition next_cwd :: "string option \<Rightarrow> string list \<Rightarrow> string option" where
  "next_cwd cwd tail =
     (case cd_target tail of
        Some dir \<Rightarrow> Some (case cwd of Some base \<Rightarrow> join_paths base dir | None \<Rightarrow> dir)
      | None \<Rightarrow> cwd)"

fun summarize_parts :: "shell_lib \<Rightarrow> string option \<Rightarrow> string list list \<Rightarrow> parsed_command list" where
  "summarize_parts lib cwd [] = []"
| "summarize_parts lib cwd (tokens # parts) =
     (if tokens \<noteq> [] \<and> hd tokens = ''cd'' then summarize_parts lib (next_cwd cwd (tl tokens)) parts
      else located cwd (summarize_main_tokens lib tokens) # summarize_parts lib cwd parts)"

definition is_unknown :: "parsed_command \<Rightarrow> bool" where
  "is_unknown pc = (case pc of UnknownCommand _ \<Rightarrow> True | _ \<Rightarrow> False)"

fun has_sed_n :: "string list \<Rightarrow> bool" where
  "has_sed_n (a # b # ts) = (a = ''sed'' \<and> b = ''-n'' \<or> has_sed_n (b # ts))"
| "has_sed_n _ = False"

text \<open>A single remaining command is shown with the whole script, unless it was part of a pipeline or list.\<close>

definition attribute_script :: "shell_lib \<Rightarrow> string \<Rightarrow> string list \<Rightarrow> bool \<Rightarrow> parsed_command \<Rightarrow> parsed_command" where
  "attribute_script lib script script_tokens had_connectors pc =
     (case pc of
        ReadCommand cmd name path \<Rightarrow>
          if had_connectors then
            (if ''|'' \<in> set script_tokens \<and> has_sed_n script_tokens then ReadCommand script name path else pc)
          else ReadCommand (shlex_join lib script_tokens) name path
      | ListFilesCommand cmd path \<Rightarrow> if had_connectors then pc else ListFilesCommand (shlex_join lib script_tokens) path
      | SearchCommand cmd query path \<Rightarrow> if had_connectors then pc else SearchCommand (shlex_join lib script_tokens) query path
      | UnknownCommand _ \<Rightarrow> pc)"

definition summarize_script :: "shell_lib \<Rightarrow> string \<Rightarrow> string list list \<Rightarrow> parsed_command list" where
  "summarize_script lib script all_commands =
     (let script_tokens = (case sl_split lib script of Some ts \<Rightarrow> ts | None \<Rightarrow> [script]);
          had_multiple_commands = (length all_commands > 1);
          filtered = drop_small_formatting_commands all_commands
      in if filtered = [] then [UnknownCommand script]
         else
           (let commands = summarize_parts lib None filtered;
                commands = (if length commands > 1
                            then simplify lib (filter (\<lambda>pc. pc \<noteq> UnknownCommand ''true'') commands)
                            else commands)
            in if length commands = 1
               then map (attribute_script lib script script_tokens
                           (had_multiple_commands \<or> list_ex is_connector script_tokens)) commands
               else commands))"

definition parse_shell_script :: "shell_lib \<Rightarrow> string \<Rightarrow> parsed_command list" where
  "parse_shell_script lib script =
     (case parse_shell_script_into_commands lib script of
        Some all_commands \<Rightarrow> if all_commands \<noteq> [] then summarize_script lib script all_commands else [UnknownCommand script]
      | None \<Rightarrow> [UnknownCommand script])"

definition parse_shell_lc_commands :: "shell_lib \<Rightarrow> string list \<Rightarrow> parsed_command list option" where
  "parse_shell_lc_commands lib original = map_option (\<lambda>(_, script). parse_shell_script lib script) (extract_bash_command original)"

definition normalize_tokens :: "shell_lib \<Rightarrow> string list \<Rightarrow> string list" where
  "normalize_tokens lib cmd =
     (case cmd of
        first # pipe # rest \<Rightarrow>
          if first \<in> set [''yes'', ''y''] \<and> pipe = ''|'' then rest
          else if first \<in> set [''no'', ''n''] \<and> pipe = ''|'' then rest
          else
            (case rest of
               [script] \<Rightarrow>
                 if (first = ''bash'' \<or> first = ''zsh'') \<and> (pipe = ''-c'' \<or> pipe = ''-lc'') then
                   (case sl_split lib script of Some ts \<Rightarrow> ts | None \<Rightarrow> cmd)
                 else cmd
             | _ \<Rightarrow> cmd)
      | _ \<Rightarrow> cmd)"

definition parse_command_impl :: "shell_lib \<Rightarrow> string list \<Rightarrow> parsed_command list" where
  "parse_command_impl lib command =
     (case parse_shell_lc_commands lib command of
        Some commands \<Rightarrow> commands
      | None \<Rightarrow>
          (case extract_powershell_command command of
             Some (_, script) \<Rightarrow> [UnknownCommand script]
           | None \<Rightarrow>
               (let normalized = normalize_tokens lib command;
                    parts = (if contains_connectors normalized then split_on_connectors normalized else [normalized])
                in simplify lib (summarize_parts lib None parts))))"

definition extract_shell_command :: "string list \<Rightarrow> (string \<times> string) option" where
  "extract_shell_command command =
     (case extract_bash_command command of Some r \<Rightarrow> Some r | None \<Rightarrow> extract_powershell_command command)"

definition single_unknown_for_command :: "shell_lib \<Rightarrow> string list \<Rightarrow> parsed_command" where
  "single_unknown_for_command lib command =
     (case extract_shell_command command of
        Some (_, shell_command) \<Rightarrow> UnknownCommand shell_command
      | None \<Rightarrow> UnknownCommand (shlex_join lib command))"

text \<open>Two summaries are equal when their paths have the same components.\<close>

definition same_summary :: "parsed_command \<Rightarrow> parsed_command \<Rightarrow> bool" where
  "same_summary a b =
     (case (a, b) of
        (ReadCommand c n p, ReadCommand c' n' p') \<Rightarrow> c = c' \<and> n = n' \<and> path_of_string p = path_of_string p'
      | _ \<Rightarrow> a = b)"

fun dedup_commands :: "parsed_command list \<Rightarrow> parsed_command list \<Rightarrow> parsed_command list" where
  "dedup_commands deduped [] = deduped"
| "dedup_commands deduped (cmd # cmds) =
     (if deduped \<noteq> [] \<and> same_summary (last deduped) cmd then dedup_commands deduped cmds
      else dedup_commands (deduped @ [cmd]) cmds)"

definition parse_command :: "shell_lib \<Rightarrow> string list \<Rightarrow> parsed_command list" where
  "parse_command lib command =
     (let deduped = dedup_commands [] (parse_command_impl lib command)
      in if list_ex is_unknown deduped then [single_unknown_for_command lib command] else deduped)"

subsection \<open>What a summary leaves out\<close>

lemma summarize_unknown: "summarize_main_tokens lib ts = UnknownCommand c \<Longrightarrow> c = shlex_join lib ts"
  by (auto simp: summarize_main_tokens_def list_of_def read_of_def query_or_list_def search_of_def summarize_rg_def summarize_git_def
      parse_grep_like_def Let_def split: list.splits if_splits option.splits prod.splits)

lemma is_unknown_iff: "is_unknown pc \<longleftrightarrow> (\<exists>c. pc = UnknownCommand c)"
  by (cases pc) (auto simp: is_unknown_def)

lemma located_unknown [simp]: "is_unknown (located cwd pc) = is_unknown pc" "located cwd (UnknownCommand c) = UnknownCommand c"
  by (auto simp: located_def is_unknown_def split: parsed_command.split option.split)

lemma attribute_unknown [simp]: "is_unknown (attribute_script lib script ts b pc) = is_unknown pc"
  by (auto simp: attribute_script_def is_unknown_def split: parsed_command.split)

lemma summarize_parts_has:
  "tokens \<in> set parts \<Longrightarrow> \<not> first_word ''cd'' tokens \<Longrightarrow> summarize_main_tokens lib tokens = UnknownCommand c \<Longrightarrow>
     UnknownCommand c \<in> set (summarize_parts lib cwd parts)"
proof (induction parts arbitrary: cwd)
  case (Cons p parts)
  show ?case
  proof (cases "tokens = p")
    case True
    then show ?thesis using Cons.prems(2,3) by (auto simp: first_word_def)
  next
    case False
    then have "UnknownCommand c \<in> set (summarize_parts lib cwd' parts)" for cwd' using Cons by simp
    then show ?thesis by simp
  qed
qed simp

definition droppable :: "shell_lib \<Rightarrow> parsed_command \<Rightarrow> bool" where
  "droppable lib pc \<longleftrightarrow> pc = UnknownCommand ''true'' \<or>
     unknown_words lib (\<lambda>ts. first_word ''echo'' ts \<or> first_word ''cd'' ts \<or> first_word ''nl'' ts) pc"

lemma remove_at_keeps: "x \<in> set xs \<Longrightarrow> i < length xs \<Longrightarrow> x \<in> set (remove_at i xs) \<or> x = xs ! i"
proof -
  assume x: "x \<in> set xs" and i: "i < length xs"
  have "set xs = set (take i xs @ xs ! i # drop (Suc i) xs)" using id_take_nth_drop [OF i] by simp
  then show ?thesis using x by (auto simp: remove_at_def)
qed

lemma removed_is_droppable:
  assumes "position P commands = Some i" and "\<And>pc. P pc \<Longrightarrow> droppable lib pc" and "x \<in> set commands"
  shows "x \<in> set (remove_at i commands) \<or> droppable lib x"
  using remove_at_keeps [OF assms(3)] position_less [OF assms(1)] assms(2) by auto

lemma simplify_once_keeps:
  assumes "simplify_once lib commands = Some rest" and "x \<in> set commands"
  shows "x \<in> set rest \<or> droppable lib x"
proof -
  have drops: "unknown_words lib (first_word ''echo'') pc \<Longrightarrow> droppable lib pc" "unknown_words lib (first_word ''cd'') pc \<Longrightarrow> droppable lib pc"
    "unknown_words lib (\<lambda>ts. first_word ''nl'' ts \<and> list_all is_flag (tl ts)) pc \<Longrightarrow> droppable lib pc"
    "pc = UnknownCommand ''true'' \<Longrightarrow> droppable lib pc" for pc
    unfolding droppable_def by (simp_all add: unknown_words_def split: parsed_command.splits option.splits)
  have tail: "x \<in> set r \<or> droppable lib x" if "simplify_true_or_nl lib commands = Some r" for r
    using that removed_is_droppable [OF _ _ assms(2), of _ _ lib] drops(3,4)
    by (auto simp: simplify_true_or_nl_def split: option.splits)
  show ?thesis
  proof (cases "unknown_words lib (first_word ''echo'') (hd commands)")
    case True
    then show ?thesis using assms drops(1) by (cases commands) (auto simp: simplify_once_def split: if_splits)
  next
    case False
    then show ?thesis
      using assms(1) tail removed_is_droppable [OF _ drops(2) assms(2)] by (auto simp: simplify_once_def split: if_splits option.splits)
  qed
qed

lemma simplify_keeps: "x \<in> set commands \<Longrightarrow> x \<in> set (simplify lib commands) \<or> droppable lib x"
proof (induction lib commands rule: simplify.induct)
  case (1 lib commands)
  show ?case
  proof (cases "simplify_once lib commands")
    case None
    then show ?thesis using 1(2) by (simp add: simplify.simps [of lib commands])
  next
    case (Some rest)
    then show ?thesis using simplify_once_keeps [OF Some 1(2)] 1(1) [OF Some] by (auto simp: simplify.simps [of lib commands])
  qed
qed

lemma summarize_script_keeps:
  assumes "UnknownCommand c \<in> set (summarize_parts lib None (drop_small_formatting_commands cmds))" and "\<not> droppable lib (UnknownCommand c)"
  shows "list_ex is_unknown (summarize_script lib script cmds)"
proof -
  let ?parts = "summarize_parts lib None (drop_small_formatting_commands cmds)"
  let ?commands = "if length ?parts > 1 then simplify lib (filter (\<lambda>pc. pc \<noteq> UnknownCommand ''true'') ?parts) else ?parts"
  have "UnknownCommand c \<noteq> UnknownCommand ''true''" using assms(2) by (auto simp: droppable_def)
  then have "UnknownCommand c \<in> set ?commands" using assms simplify_keeps [of "UnknownCommand c" _ lib] by auto
  then have "list_ex is_unknown ?commands" by (auto simp: list_ex_iff is_unknown_iff)
  moreover have "drop_small_formatting_commands cmds \<noteq> []" using assms(1) by auto
  ultimately show ?thesis unfolding summarize_script_def Let_def by (auto simp: list_ex_iff)
qed

lemma dedup_unknown: "list_ex is_unknown (dedup_commands acc cmds) = list_ex is_unknown (acc @ cmds)"
proof (induction acc cmds rule: dedup_commands.induct)
  case (2 acc cmd cmds)
  have "is_unknown cmd \<Longrightarrow> list_ex is_unknown acc" if "acc \<noteq> []" "same_summary (last acc) cmd"
  proof -
    assume "is_unknown cmd"
    then have "last acc = cmd" using that(2) by (cases cmd; cases "last acc") (auto simp: same_summary_def is_unknown_def)
    then show ?thesis using that(1) \<open>is_unknown cmd\<close> last_in_set [OF that(1)] unfolding list_ex_iff by blast
  qed
  then show ?case using 2 by auto
qed simp

lemma parse_command_script:
  assumes "extract_bash_command command = Some (shell, script)" and "parse_shell_script_into_commands lib script = Some cmds" and "cmds \<noteq> []"
  shows "parse_command lib command =
    (if list_ex is_unknown (summarize_script lib script cmds) then [UnknownCommand script]
     else dedup_commands [] (summarize_script lib script cmds))"
  using assms dedup_unknown [of "[]" "summarize_script lib script cmds"]
  by (simp add: parse_command_def parse_command_impl_def parse_shell_lc_commands_def parse_shell_script_def Let_def single_unknown_for_command_def
      extract_shell_command_def)

text \<open>
  C33. What a summary of a script leaves out. Provided that the words of its commands survive being joined and split again, a script of plain commands
  is shown as unknown, with its whole text, or every one of its commands is either one the summary recognises as reading,
  listing or searching files, or one of those that are left out on purpose: a small formatting helper, a change of the directory, an
  \<^verbatim>\<open>echo\<close>, an \<^verbatim>\<open>nl\<close>, or \<^verbatim>\<open>true\<close>.
\<close>

theorem summary_leaves_out_helpers_only:
  assumes "extract_bash_command command = Some (shell, script)" and "parse_shell_script_into_commands lib script = Some cmds" and "cmds \<noteq> []"
    and "\<forall>ts \<in> set cmds. sl_split lib (shlex_join lib ts) = Some ts" and "sl_split lib ''true'' = Some [''true'']"
  shows "parse_command lib command = [UnknownCommand script]
    \<or> (\<forall>ts \<in> set cmds. \<not> is_unknown (summarize_main_tokens lib ts) \<or> is_small_formatting_command ts
         \<or> first_word ''cd'' ts \<or> first_word ''echo'' ts \<or> first_word ''nl'' ts \<or> ts = [''true''])"
proof (cases "list_ex is_unknown (summarize_script lib script cmds)")
  case True
  then show ?thesis using parse_command_script [OF assms(1-3)] by simp
next
  case False
  have "is_small_formatting_command ts \<or> first_word ''cd'' ts \<or> first_word ''echo'' ts \<or> first_word ''nl'' ts \<or> ts = [''true'']"
    if ts: "ts \<in> set cmds" and unknown: "is_unknown (summarize_main_tokens lib ts)" for ts
  proof (rule ccontr)
    assume other: "\<not> ?thesis"
    have split: "sl_split lib (shlex_join lib ts) = Some ts" using assms(4) ts by blast
    have sum: "summarize_main_tokens lib ts = UnknownCommand (shlex_join lib ts)"
      using unknown summarize_unknown by (auto simp: is_unknown_iff)
    have "UnknownCommand (shlex_join lib ts) \<in> set (summarize_parts lib None (drop_small_formatting_commands cmds))"
      by (rule summarize_parts_has [OF _ _ sum]) (use ts other in \<open>simp_all add: drop_small_formatting_commands_def\<close>)
    moreover have "\<not> droppable lib (UnknownCommand (shlex_join lib ts))"
      using other split assms(5) by (auto simp: droppable_def unknown_words_def)
    ultimately show False using summarize_script_keeps False by blast
  qed
  then show ?thesis by blast
qed

text \<open>
  C34. Removing files through \<^verbatim>\<open>xargs\<close> is not shown. A script that lists files and gives them to \<^verbatim>\<open>xargs rm\<close>, with any arguments, is
  summarised as a listing alone: the test for programs that change files knows \<^verbatim>\<open>perl\<close>, \<^verbatim>\<open>ruby\<close>, \<^verbatim>\<open>sed\<close> and \<^verbatim>\<open>rg\<close> only,
  so \<^verbatim>\<open>xargs rm\<close> counts as a formatting helper.
\<close>

theorem xargs_removal_is_not_shown:
  assumes "extract_bash_command command = Some (shell, script)"
    and "parse_shell_script_into_commands lib script = Some [[''ls''], ''xargs'' # ''rm'' # args]"
  shows "parse_command lib command = [ListFilesCommand (shlex_join lib [''ls'']) None]"
proof -
  have x: "is_small_formatting_command (''xargs'' # ''rm'' # args)"
    by (simp add: is_small_formatting_command_def is_mutating_xargs_command_def xargs_subcommand_def xargs_is_mutating_subcommand_def is_flag_def)
  have ls: "\<not> is_small_formatting_command [''ls'']" by (simp add: is_small_formatting_command_def)
  have sum: "summarize_main_tokens lib [''ls''] = ListFilesCommand (shlex_join lib [''ls'']) None"
    by (simp add: summarize_main_tokens_def list_of_def first_non_flag_operand_def positional_operands_def)
  have "summarize_script lib script [[''ls''], ''xargs'' # ''rm'' # args] = [ListFilesCommand (shlex_join lib [''ls'']) None]"
    by (simp add: summarize_script_def drop_small_formatting_commands_def x ls sum located_def attribute_script_def Let_def)
  then show ?thesis using parse_command_script [OF assms] by (simp add: is_unknown_def)
qed

text \<open>A script of two commands \<^verbatim>\<open>true\<close> has no summary at all, since both are dropped before one is kept.\<close>

theorem true_twice_has_no_summary:
  assumes "extract_bash_command command = Some (shell, script)"
    and "parse_shell_script_into_commands lib script = Some [[''true''], [''true'']]" and "shlex_join lib [''true''] = ''true''"
  shows "parse_command lib command = []"
proof -
  have small: "\<not> is_small_formatting_command [''true'']" by (simp add: is_small_formatting_command_def)
  have sum: "summarize_main_tokens lib [''true''] = UnknownCommand ''true''"
    using assms(3) by (simp add: summarize_main_tokens_def is_python_command_def)
  have none: "simplify lib [] = []" by (simp add: simplify.simps simplify_once_def)
  have "summarize_script lib script [[''true''], [''true'']] = []"
    by (simp add: summarize_script_def drop_small_formatting_commands_def small sum none Let_def)
  then show ?thesis using parse_command_script [OF assms(1,2)] by simp
qed

subsection \<open>Examples\<close>

lemma example_commands: "parse_shell_script_into_commands example_lib example_script = Some [[''ls''], [''xargs'', ''rm'']]"
  by (simp add: parse_shell_script_into_commands_def example_lib_def try_parse_word_only_commands_sequence_def example_tree_def node_allowed_def
      allowed_kinds_def allowed_punct_tokens_def parse_plain_command_from_node_def plain_word_def named_children_def)

theorem summary_leaves_out_helpers_only_witness:
  "parse_command example_lib [''bash'', ''-lc'', example_script] = [UnknownCommand example_script]
   \<or> is_small_formatting_command [''xargs'', ''rm'']"
proof -
  have words: "\<forall>ts \<in> set [[''ls''], [''xargs'', ''rm'']]. sl_split example_lib (shlex_join example_lib ts) = Some ts"
    "sl_split example_lib ''true'' = Some [''true'']"
    by (simp_all add: example_lib_def shlex_join_def)
  have "is_unknown (summarize_main_tokens example_lib [''xargs'', ''rm''])"
    by (simp add: summarize_main_tokens_def is_python_command_def is_unknown_def)
  then show ?thesis
    using summary_leaves_out_helpers_only [OF example_bash(2) example_commands _ words] by (auto simp: first_word_def)
qed

theorem xargs_removal_is_not_shown_witness:
  "parse_command example_lib [''bash'', ''-lc'', example_script] = [ListFilesCommand ''ls'' None]"
  using xargs_removal_is_not_shown [OF example_bash(2) example_commands] by (simp add: shlex_join_def example_lib_def)
end
