(* ===== verification/Thread_Items.thy ===== *)
theory Thread_Items
  imports Command_Summary "HOL-Library.List_Lexorder" "HOL-Library.Char_ord"
begin

text \<open>
  The events of a thread and the items a client is shown: the payloads of \<^verbatim>\<open>crates/protocol/src/protocol.rs\<close>,
  \<^verbatim>\<open>approvals.rs\<close> and \<^verbatim>\<open>dynamic_tools.rs\<close> that thread history reads, the turn items of
  \<^verbatim>\<open>crates/protocol/src/items.rs\<close> with the legacy events they stand for, the thread items of
  \<^verbatim>\<open>crates/app-server-protocol/src/protocol/v2/item.rs\<close> and the builders of
  \<^verbatim>\<open>crates/app-server-protocol/src/protocol/item_builders.rs\<close>.

  A payload has the fields that these files read. Where the agent's protocol and the app server's have the same variants and the
  conversion maps each to its namesake (user input, search actions, error kinds, command sources, hook fragments, kinds of
  sub-agent activity), the two are one type and the conversion is left out. A string is its UTF-8 bytes; a thread id, an agent
  path and a \<^verbatim>\<open>PathUri\<close> are the strings they print as; a \<^verbatim>\<open>Duration\<close> is a number of nanoseconds and an \<^verbatim>\<open>i64\<close> an integer.
\<close>

subsection \<open>User input\<close>

record text_element =
  te_start :: nat
  te_end :: nat
  te_placeholder :: "string option"

datatype image_detail = DetailAuto | DetailLow | DetailHigh | DetailOriginal

datatype user_input =
  TextInput string "text_element list"
| ImageInput string "image_detail option"
| LocalImageInput string "image_detail option"
| SkillInput string string
| MentionInput string string

record user_message_event =
  um_client_id :: "string option"
  um_message :: string
  um_images :: "string list option"
  um_image_details :: "image_detail option list"
  um_local_images :: "string list"
  um_local_image_details :: "image_detail option list"
  um_text_elements :: "text_element list"

text \<open>\<^verbatim>\<open>str::get\<close> of a range of bytes, which has to begin and end between characters.\<close>

definition is_char_boundary :: "string \<Rightarrow> nat \<Rightarrow> bool" where
  "is_char_boundary s i = (i = 0 \<or> i = length s \<or> (i < length s \<and> \<not> (128 \<le> (of_char (s ! i) :: nat) \<and> (of_char (s ! i) :: nat) < 192)))"

definition str_get :: "string \<Rightarrow> nat \<Rightarrow> nat \<Rightarrow> string option" where
  "str_get s a b =
     (if a \<le> b \<and> b \<le> length s \<and> is_char_boundary s a \<and> is_char_boundary s b then Some (take (b - a) (drop a s)) else None)"

definition te_placeholder_in :: "text_element \<Rightarrow> string \<Rightarrow> string option" where
  "te_placeholder_in e s = (case te_placeholder e of Some p \<Rightarrow> Some p | None \<Rightarrow> str_get s (te_start e) (te_end e))"

subsection \<open>Payload data\<close>

datatype message_phase = Commentary | FinalAnswer

record citation_entry =
  ce_path :: string
  ce_line_start :: nat
  ce_line_end :: nat
  ce_note :: string

record core_memory_citation =
  cmc_entries :: "citation_entry list"
  cmc_rollout_ids :: "string list"

record memory_citation =
  mc_entries :: "citation_entry list"
  mc_thread_ids :: "string list"

definition memory_citation_of :: "core_memory_citation \<Rightarrow> memory_citation" where
  "memory_citation_of v = \<lparr>mc_entries = cmc_entries v, mc_thread_ids = cmc_rollout_ids v\<rparr>"

datatype web_search_action =
  SearchAction "string option" "string list option"
| OpenPageAction "string option"
| FindInPageAction "string option" "string option"
| OtherAction

record hook_prompt_fragment =
  hf_text :: string
  hf_hook_run_id :: string

datatype reasoning_effort = EffortNone | EffortMinimal | EffortLow | EffortMedium | EffortHigh | EffortXHigh | EffortCustom string

datatype non_steerable_turn_kind = ReviewTurn | CompactTurn

datatype codex_error_info =
  ContextWindowExceeded
| UsageLimitExceeded
| ServerOverloaded
| CyberPolicy
| HttpConnectionFailed "nat option"
| ResponseStreamConnectionFailed "nat option"
| InternalServerError
| Unauthorized
| BadRequest
| SandboxErrorInfo
| ResponseStreamDisconnected "nat option"
| ResponseTooManyFailedAttempts "nat option"
| ActiveTurnNotSteerable non_steerable_turn_kind
| ThreadRollbackFailed
| OtherErrorInfo

definition info_affects_turn_status :: "codex_error_info \<Rightarrow> bool" where
  "info_affects_turn_status i =
     (case i of ThreadRollbackFailed \<Rightarrow> False | ActiveTurnNotSteerable _ \<Rightarrow> False | _ \<Rightarrow> True)"

datatype agent_status =
  AgentPendingInit
| AgentRunning
| AgentInterrupted
| AgentCompleted "string option"
| AgentErrored string
| AgentShutdown
| AgentNotFound

datatype collab_agent_status = CollabPendingInit | CollabRunning | CollabInterrupted | CollabCompleted | CollabErrored | CollabShutdown | CollabNotFound

record collab_agent_state =
  cas_status :: collab_agent_status
  cas_message :: "string option"

fun collab_agent_state_of :: "agent_status \<Rightarrow> collab_agent_state" where
  "collab_agent_state_of AgentPendingInit = \<lparr>cas_status = CollabPendingInit, cas_message = None\<rparr>"
| "collab_agent_state_of AgentRunning = \<lparr>cas_status = CollabRunning, cas_message = None\<rparr>"
| "collab_agent_state_of AgentInterrupted = \<lparr>cas_status = CollabInterrupted, cas_message = None\<rparr>"
| "collab_agent_state_of (AgentCompleted m) = \<lparr>cas_status = CollabCompleted, cas_message = m\<rparr>"
| "collab_agent_state_of (AgentErrored m) = \<lparr>cas_status = CollabErrored, cas_message = Some m\<rparr>"
| "collab_agent_state_of AgentShutdown = \<lparr>cas_status = CollabShutdown, cas_message = None\<rparr>"
| "collab_agent_state_of AgentNotFound = \<lparr>cas_status = CollabNotFound, cas_message = None\<rparr>"

datatype exec_command_source = SourceAgent | SourceUserShell | SourceUnifiedExecStartup | SourceUnifiedExecInteraction

datatype exec_command_status = ExecCompleted | ExecFailed | ExecDeclined

datatype core_patch_status = CorePatchCompleted | CorePatchFailed | CorePatchDeclined

datatype file_change =
  AddFile string
| DeleteFile string
| UpdateFile string "string option"

datatype guardian_status = GuardianInProgress | GuardianApproved | GuardianDenied | GuardianTimedOut | GuardianAborted

datatype guardian_action =
  GuardianCommand string path
| GuardianExecve string "string list" path
| GuardianApplyPatch
| GuardianNetworkAccess
| GuardianMcpToolCall
| GuardianRequestPermissions

datatype tool_content = ToolInputText string | ToolInputImage string

datatype sub_agent_activity_kind = SubAgentStarted | SubAgentInteracted | SubAgentInterrupted

record call_tool_result =
  ctr_content :: "json_value list"
  ctr_structured_content :: "json_value option"
  ctr_is_error :: "bool option"
  ctr_meta :: "json_value option"

datatype content_item = ContentInputText string | ContentInputImage string | ContentOutputText string

subsection \<open>Durations\<close>

definition i64_max :: int where
  "i64_max = 9223372036854775807"

definition as_millis :: "nat \<Rightarrow> nat" where
  "as_millis d = d div 1000000"

definition i64_of_nat :: "nat \<Rightarrow> int option" where
  "i64_of_nat n = (if int n \<le> i64_max then Some (int n) else None)"

subsection \<open>Thread items\<close>

datatype command_status = CommandInProgress | CommandCompleted | CommandFailed | CommandDeclined
datatype patch_status = PatchInProgress | PatchCompleted | PatchFailed | PatchDeclined
datatype mcp_status = McpInProgress | McpCompleted | McpFailed
datatype dynamic_tool_status = DynamicInProgress | DynamicCompleted | DynamicFailed
datatype collab_tool = SpawnAgent | SendInput | ResumeAgent | WaitAgent | CloseAgent
datatype collab_tool_status = CollabCallInProgress | CollabCallCompleted | CollabCallFailed

fun command_status_of :: "exec_command_status \<Rightarrow> command_status" where
  "command_status_of ExecCompleted = CommandCompleted"
| "command_status_of ExecFailed = CommandFailed"
| "command_status_of ExecDeclined = CommandDeclined"

fun patch_status_of :: "core_patch_status \<Rightarrow> patch_status" where
  "patch_status_of CorePatchCompleted = PatchCompleted"
| "patch_status_of CorePatchFailed = PatchFailed"
| "patch_status_of CorePatchDeclined = PatchDeclined"

datatype command_action =
  ReadAction string string path
| ListFilesAction string "string option"
| SearchFilesAction string "string option" "string option"
| UnknownAction string

record command_execution =
  cx_id :: string
  cx_command :: string
  cx_cwd :: string
  cx_process_id :: "string option"
  cx_source :: exec_command_source
  cx_status :: command_status
  cx_actions :: "command_action list"
  cx_output :: "string option"
  cx_exit_code :: "int option"
  cx_duration_ms :: "int option"

datatype patch_change_kind = AddKind | DeleteKind | UpdateKind "string option"

record file_update_change =
  fu_path :: string
  fu_kind :: patch_change_kind
  fu_diff :: string

record mcp_app_context =
  ac_connector_id :: string
  ac_link_id :: "string option"
  ac_resource_uri :: "string option"

record mcp_result =
  mr_content :: "json_value list"
  mr_structured_content :: "json_value option"
  mr_meta :: "json_value option"

record mcp_tool_call =
  mt_id :: string
  mt_server :: string
  mt_tool :: string
  mt_status :: mcp_status
  mt_arguments :: json_value
  mt_app_context :: "mcp_app_context option"
  mt_resource_uri :: "string option"
  mt_plugin_id :: "string option"
  mt_result :: "mcp_result option"
  mt_error :: "string option"
  mt_duration_ms :: "int option"

record dynamic_tool_call =
  dt_id :: string
  dt_namespace :: "string option"
  dt_tool :: string
  dt_arguments :: json_value
  dt_status :: dynamic_tool_status
  dt_content_items :: "tool_content list option"
  dt_success :: "bool option"
  dt_duration_ms :: "int option"

record collab_tool_call =
  ct_id :: string
  ct_tool :: collab_tool
  ct_status :: collab_tool_status
  ct_sender :: string
  ct_receivers :: "string list"
  ct_prompt :: "string option"
  ct_model :: "string option"
  ct_effort :: "reasoning_effort option"
  ct_states :: "(string, collab_agent_state) hash_map"

datatype (plugins only: code size) thread_item =
  UserMessage string "string option" "user_input list"
| HookPrompt string "hook_prompt_fragment list"
| AgentMessage string string "message_phase option" "memory_citation option"
| Plan string string
| Reasoning string "string list" "string list"
| CommandExecution command_execution
| FileChange string "file_update_change list" patch_status
| McpToolCall mcp_tool_call
| DynamicToolCall dynamic_tool_call
| CollabAgentToolCall collab_tool_call
| SubAgentActivity string sub_agent_activity_kind string string
| WebSearch string string "web_search_action option"
| ImageView string path
| Sleep string nat
| ImageGeneration string string "string option" string "path option"
| EnteredReviewMode string string
| ExitedReviewMode string string
| ContextCompaction string

fun item_id :: "thread_item \<Rightarrow> string" where
  "item_id (UserMessage i _ _) = i"
| "item_id (HookPrompt i _) = i"
| "item_id (AgentMessage i _ _ _) = i"
| "item_id (Plan i _) = i"
| "item_id (Reasoning i _ _) = i"
| "item_id (CommandExecution c) = cx_id c"
| "item_id (FileChange i _ _) = i"
| "item_id (McpToolCall c) = mt_id c"
| "item_id (DynamicToolCall c) = dt_id c"
| "item_id (CollabAgentToolCall c) = ct_id c"
| "item_id (SubAgentActivity i _ _ _) = i"
| "item_id (WebSearch i _ _) = i"
| "item_id (ImageView i _) = i"
| "item_id (Sleep i _) = i"
| "item_id (ImageGeneration i _ _ _ _) = i"
| "item_id (EnteredReviewMode i _) = i"
| "item_id (ExitedReviewMode i _) = i"
| "item_id (ContextCompaction i) = i"

subsection \<open>Events\<close>

record exec_begin_event =
  eb_call_id :: string
  eb_process_id :: "string option"
  eb_turn_id :: string
  eb_command :: "string list"
  eb_cwd :: string
  eb_parsed_cmd :: "parsed_command list"
  eb_source :: exec_command_source

record exec_end_event =
  ee_call_id :: string
  ee_process_id :: "string option"
  ee_turn_id :: string
  ee_command :: "string list"
  ee_cwd :: string
  ee_parsed_cmd :: "parsed_command list"
  ee_source :: exec_command_source
  ee_aggregated_output :: string
  ee_exit_code :: int
  ee_duration :: nat
  ee_status :: exec_command_status

record guardian_event =
  ga_target_item_id :: "string option"
  ga_turn_id :: string
  ga_status :: guardian_status
  ga_action :: guardian_action

record patch_event =
  pa_call_id :: string
  pa_turn_id :: string
  pa_changes :: "(string, file_change) hash_map"

record dynamic_request_event =
  dq_call_id :: string
  dq_turn_id :: string
  dq_namespace :: "string option"
  dq_tool :: string
  dq_arguments :: json_value

record dynamic_response_event =
  dr_call_id :: string
  dr_turn_id :: string
  dr_namespace :: "string option"
  dr_tool :: string
  dr_arguments :: json_value
  dr_content_items :: "tool_content list"
  dr_success :: bool
  dr_duration :: nat

record mcp_begin_event =
  mb_call_id :: string
  mb_server :: string
  mb_tool :: string
  mb_arguments :: "json_value option"
  mb_connector_id :: "string option"
  mb_resource_uri :: "string option"
  mb_link_id :: "string option"
  mb_plugin_id :: "string option"

record mcp_end_event = mcp_begin_event +
  me_duration :: nat
  me_result :: "string + call_tool_result"

record collab_begin_event =
  cb_call_id :: string
  cb_sender :: string
  cb_receiver :: string

record collab_end_event = collab_begin_event +
  cd_status :: agent_status

record image_generation_event =
  ig_call_id :: string
  ig_status :: string
  ig_revised_prompt :: "string option"
  ig_result :: string
  ig_saved_path :: "path option"

text \<open>The items of \<^verbatim>\<open>items.rs\<close>.\<close>

record user_message_item =
  ui_id :: string
  ui_client_id :: "string option"
  ui_content :: "user_input list"

record file_change_item =
  fi_id :: string
  fi_changes :: "(string, file_change) hash_map"
  fi_status :: "core_patch_status option"

record mcp_item =
  mi_id :: string
  mi_server :: string
  mi_tool :: string
  mi_arguments :: json_value
  mi_connector_id :: "string option"
  mi_resource_uri :: "string option"
  mi_link_id :: "string option"
  mi_plugin_id :: "string option"
  mi_status :: mcp_status
  mi_result :: "call_tool_result option"
  mi_error :: "string option"
  mi_duration :: "nat option"

datatype (plugins only: code size) turn_item =
  TurnUserMessage user_message_item
| TurnHookPrompt string "hook_prompt_fragment list"
| TurnAgentMessage string "string list" "message_phase option" "core_memory_citation option"
| TurnPlan string string
| TurnReasoning string "string list" "string list"
| TurnWebSearch string string web_search_action
| TurnImageView string path
| TurnSleep string nat
| TurnImageGeneration image_generation_event
| TurnFileChange file_change_item
| TurnMcpToolCall mcp_item
| TurnContextCompaction string

datatype (plugins only: code size) event_msg =
  UserMessageEvent user_message_event
| AgentMessageEvent string "message_phase option" "core_memory_citation option"
| AgentReasoningEvent string
| AgentReasoningRawContentEvent string
| WebSearchBeginEvent string
| WebSearchEndEvent string string web_search_action
| ExecCommandBeginEvent exec_begin_event
| ExecCommandEndEvent exec_end_event
| GuardianAssessmentEvent guardian_event
| ApplyPatchApprovalRequestEvent patch_event
| PatchApplyBeginEvent patch_event
| PatchApplyEndEvent patch_event core_patch_status
| DynamicToolCallRequestEvent dynamic_request_event
| DynamicToolCallResponseEvent dynamic_response_event
| McpToolCallBeginEvent mcp_begin_event
| McpToolCallEndEvent mcp_end_event
| ViewImageToolCallEvent string path
| ImageGenerationBeginEvent string
| ImageGenerationEndEvent image_generation_event
| CollabAgentSpawnBeginEvent string string string string reasoning_effort
| CollabAgentSpawnEndEvent string string "string option" string string reasoning_effort agent_status
| CollabAgentInteractionBeginEvent collab_begin_event string
| CollabAgentInteractionEndEvent collab_end_event string
| SubAgentActivityEvent string string string sub_agent_activity_kind
| CollabWaitingBeginEvent string string "string list"
| CollabWaitingEndEvent string string "(string, agent_status) hash_map"
| CollabCloseBeginEvent collab_begin_event
| CollabCloseEndEvent collab_end_event
| CollabResumeBeginEvent collab_begin_event
| CollabResumeEndEvent collab_end_event
| ContextCompactedEvent
| EnteredReviewModeEvent "string option"
| ExitedReviewModeEvent "string option"
| ItemStartedEvent string turn_item
| ItemCompletedEvent string turn_item
| ErrorEvent string "codex_error_info option"
| ThreadRolledBackEvent nat
| TurnAbortedEvent "string option" "int option" "int option"
| TurnStartedEvent string "int option"
| TurnCompleteEvent string "int option" "int option"
| OtherEvent

datatype response_item =
  ResponseMessage "string option" string "content_item list"
| OtherResponseItem

datatype rollout_item =
  RolloutEvent event_msg
| RolloutCompacted
| RolloutResponseItem response_item
| RolloutOther
subsection \<open>Building items\<close>

text \<open>
  What the builders take from elsewhere: shlex, the resolution of paths, the conversions of \<^verbatim>\<open>PathUri\<close> and
  \<^verbatim>\<open>LegacyAppPathString\<close> (\<^verbatim>\<open>utils/path-uri\<close>), whether a \<^verbatim>\<open>PathUri\<close> follows the host's conventions, and the XML reader
  of hook prompts, which gives the hook's run id and the text.
\<close>

record item_lib =
  il_shell :: shell_lib
  il_paths :: path_env
  il_is_native :: "string \<Rightarrow> bool"
  il_uri_to_abs :: "string \<Rightarrow> path option"
  il_uri_to_legacy :: "string \<Rightarrow> string"
  il_abs_to_legacy :: "path \<Rightarrow> string"
  il_hook_xml :: "string \<Rightarrow> (string \<times> string) option"

definition map_patch_change_kind :: "file_change \<Rightarrow> patch_change_kind" where
  "map_patch_change_kind c = (case c of AddFile _ \<Rightarrow> AddKind | DeleteFile _ \<Rightarrow> DeleteKind | UpdateFile _ p \<Rightarrow> UpdateKind p)"

definition format_file_change_diff :: "file_change \<Rightarrow> string" where
  "format_file_change_diff c =
     (case c of
        AddFile s \<Rightarrow> s
      | DeleteFile s \<Rightarrow> s
      | UpdateFile d (Some p) \<Rightarrow> d @ [CHR 0x0A, CHR 0x0A] @ ''Moved to: '' @ p
      | UpdateFile d None \<Rightarrow> d)"

definition convert_patch_changes :: "(string, file_change) hash_map \<Rightarrow> file_update_change list" where
  "convert_patch_changes cs =
     sort_key fu_path (map (\<lambda>(p, c). \<lparr>fu_path = p, fu_kind = map_patch_change_kind c, fu_diff = format_file_change_diff c\<rparr>) cs)"

definition from_core_with_cwd :: "item_lib \<Rightarrow> parsed_command \<Rightarrow> path \<Rightarrow> command_action" where
  "from_core_with_cwd lib c cwd =
     (case c of
        ReadCommand cmd name p \<Rightarrow> ReadAction cmd name (abs_join (il_paths lib) cwd (path_of_string p))
      | ListFilesCommand cmd p \<Rightarrow> ListFilesAction cmd p
      | SearchCommand cmd q p \<Rightarrow> SearchFilesAction cmd q p
      | UnknownCommand cmd \<Rightarrow> UnknownAction cmd)"

definition command_actions_for_path_uri :: "item_lib \<Rightarrow> parsed_command list \<Rightarrow> string \<Rightarrow> command_action list" where
  "command_actions_for_path_uri lib parsed cwd =
     (let native_cwd = (if il_is_native lib cwd then il_uri_to_abs lib cwd else None)
      in List.map_filter (\<lambda>c. case c of
           ReadCommand cmd name p \<Rightarrow> map_option (\<lambda>b. ReadAction cmd name (abs_join (il_paths lib) b (path_of_string p))) native_cwd
         | ListFilesCommand cmd p \<Rightarrow> Some (ListFilesAction cmd p)
         | SearchCommand cmd q p \<Rightarrow> Some (SearchFilesAction cmd q p)
         | UnknownCommand cmd \<Rightarrow> Some (UnknownAction cmd)) parsed)"

definition build_file_change_approval_request_item :: "patch_event \<Rightarrow> thread_item" where
  "build_file_change_approval_request_item p = FileChange (pa_call_id p) (convert_patch_changes (pa_changes p)) PatchInProgress"

definition build_file_change_begin_item :: "patch_event \<Rightarrow> thread_item" where
  "build_file_change_begin_item p = FileChange (pa_call_id p) (convert_patch_changes (pa_changes p)) PatchInProgress"

definition build_file_change_end_item :: "patch_event \<Rightarrow> core_patch_status \<Rightarrow> thread_item" where
  "build_file_change_end_item p st = FileChange (pa_call_id p) (convert_patch_changes (pa_changes p)) (patch_status_of st)"

definition build_command_execution_begin_item :: "item_lib \<Rightarrow> exec_begin_event \<Rightarrow> thread_item" where
  "build_command_execution_begin_item lib p = CommandExecution
     \<lparr>cx_id = eb_call_id p, cx_command = shlex_join (il_shell lib) (eb_command p), cx_cwd = il_uri_to_legacy lib (eb_cwd p),
      cx_process_id = eb_process_id p, cx_source = eb_source p, cx_status = CommandInProgress,
      cx_actions = command_actions_for_path_uri lib (eb_parsed_cmd p) (eb_cwd p), cx_output = None, cx_exit_code = None,
      cx_duration_ms = None\<rparr>"

definition build_command_execution_end_item :: "item_lib \<Rightarrow> exec_end_event \<Rightarrow> thread_item" where
  "build_command_execution_end_item lib p = CommandExecution
     \<lparr>cx_id = ee_call_id p, cx_command = shlex_join (il_shell lib) (ee_command p), cx_cwd = il_uri_to_legacy lib (ee_cwd p),
      cx_process_id = ee_process_id p, cx_source = ee_source p, cx_status = command_status_of (ee_status p),
      cx_actions = command_actions_for_path_uri lib (ee_parsed_cmd p) (ee_cwd p),
      cx_output = (if ee_aggregated_output p = [] then None else Some (ee_aggregated_output p)),
      cx_exit_code = Some (ee_exit_code p),
      cx_duration_ms = Some (case i64_of_nat (as_millis (ee_duration p)) of Some d \<Rightarrow> d | None \<Rightarrow> i64_max)\<rparr>"

definition guardian_command_item ::
    "item_lib \<Rightarrow> string \<Rightarrow> string \<Rightarrow> path \<Rightarrow> command_status \<Rightarrow> command_action list \<Rightarrow> thread_item" where
  "guardian_command_item lib i command cwd st actions = CommandExecution
     \<lparr>cx_id = i, cx_command = command, cx_cwd = il_abs_to_legacy lib cwd, cx_process_id = None, cx_source = SourceAgent,
      cx_status = st, cx_actions = actions, cx_output = None, cx_exit_code = None, cx_duration_ms = None\<rparr>"

definition build_item_from_guardian_event :: "item_lib \<Rightarrow> guardian_event \<Rightarrow> command_status \<Rightarrow> thread_item option" where
  "build_item_from_guardian_event lib a st =
     (case ga_action a of
        GuardianCommand command cwd \<Rightarrow>
          map_option (\<lambda>i. guardian_command_item lib i command cwd st [UnknownAction command]) (ga_target_item_id a)
      | GuardianExecve program argv cwd \<Rightarrow>
          map_option (\<lambda>i.
            let args = (if argv = [] then [program] else program # drop 1 argv);
                command = shlex_join (il_shell lib) args;
                parsed = parse_command (il_shell lib) args;
                actions = (if parsed = [] then [UnknownAction command] else map (\<lambda>c. from_core_with_cwd lib c cwd) parsed)
            in guardian_command_item lib i command cwd st actions) (ga_target_item_id a)
      | _ \<Rightarrow> None)"

text \<open>The conversion of a turn item, and the hook prompt a user message may stand for.\<close>

definition mcp_app_context_of :: "string option \<Rightarrow> string option \<Rightarrow> string option \<Rightarrow> mcp_app_context option" where
  "mcp_app_context_of connector link uri =
     map_option (\<lambda>c. \<lparr>ac_connector_id = c, ac_link_id = link, ac_resource_uri = uri\<rparr>) connector"

definition mcp_result_of :: "call_tool_result \<Rightarrow> mcp_result" where
  "mcp_result_of r = \<lparr>mr_content = ctr_content r, mr_structured_content = ctr_structured_content r, mr_meta = ctr_meta r\<rparr>"

fun thread_item_of :: "turn_item \<Rightarrow> thread_item" where
  "thread_item_of (TurnUserMessage u) = UserMessage (ui_id u) (ui_client_id u) (ui_content u)"
| "thread_item_of (TurnHookPrompt i fs) = HookPrompt i fs"
| "thread_item_of (TurnAgentMessage i texts phase citation) = AgentMessage i (concat texts) phase (map_option memory_citation_of citation)"
| "thread_item_of (TurnPlan i txt) = Plan i txt"
| "thread_item_of (TurnReasoning i summary content) = Reasoning i summary content"
| "thread_item_of (TurnWebSearch i q a) = WebSearch i q (Some a)"
| "thread_item_of (TurnImageView i p) = ImageView i p"
| "thread_item_of (TurnSleep i d) = Sleep i d"
| "thread_item_of (TurnImageGeneration g) =
     ImageGeneration (ig_call_id g) (ig_status g) (ig_revised_prompt g) (ig_result g) (ig_saved_path g)"
| "thread_item_of (TurnFileChange f) =
     FileChange (fi_id f) (convert_patch_changes (fi_changes f))
       (case fi_status f of Some s \<Rightarrow> patch_status_of s | None \<Rightarrow> PatchInProgress)"
| "thread_item_of (TurnMcpToolCall m) = McpToolCall
     \<lparr>mt_id = mi_id m, mt_server = mi_server m, mt_tool = mi_tool m, mt_status = mi_status m, mt_arguments = mi_arguments m,
      mt_app_context = mcp_app_context_of (mi_connector_id m) (mi_link_id m) (mi_resource_uri m),
      mt_resource_uri = mi_resource_uri m, mt_plugin_id = mi_plugin_id m, mt_result = map_option mcp_result_of (mi_result m),
      mt_error = mi_error m, mt_duration_ms = Option.bind (mi_duration m) (\<lambda>d. i64_of_nat (as_millis d))\<rparr>"
| "thread_item_of (TurnContextCompaction i) = ContextCompaction i"

definition parse_hook_prompt_fragment :: "item_lib \<Rightarrow> string \<Rightarrow> hook_prompt_fragment option" where
  "parse_hook_prompt_fragment lib s =
     (case il_hook_xml lib (trim s) of
        None \<Rightarrow> None
      | Some (run_id, txt) \<Rightarrow> if trim run_id = [] then None else Some \<lparr>hf_text = txt, hf_hook_run_id = run_id\<rparr>)"

definition hook_fragment_of :: "item_lib \<Rightarrow> content_item \<Rightarrow> hook_prompt_fragment option" where
  "hook_fragment_of lib c = (case c of ContentInputText s \<Rightarrow> parse_hook_prompt_fragment lib s | _ \<Rightarrow> None)"

fun collect_options :: "'a option list \<Rightarrow> 'a list option" where
  "collect_options [] = Some []"
| "collect_options (None # xs) = None"
| "collect_options (Some x # xs) = map_option ((#) x) (collect_options xs)"

definition parse_hook_prompt_message ::
    "item_lib \<Rightarrow> string \<Rightarrow> string option \<Rightarrow> content_item list \<Rightarrow> (string \<times> hook_prompt_fragment list) option" where
  "parse_hook_prompt_message lib uuid i content =
     (case collect_options (map (hook_fragment_of lib) content) of
        None \<Rightarrow> None
      | Some fs \<Rightarrow> if fs = [] then None else Some (case i of Some x \<Rightarrow> x | None \<Rightarrow> uuid, fs))"
subsection \<open>Legacy events of turn items\<close>

definition user_message_text :: "user_message_item \<Rightarrow> string" where
  "user_message_text u = concat (map (\<lambda>c. case c of TextInput t _ \<Rightarrow> t | _ \<Rightarrow> []) (ui_content u))"

definition rebase_element :: "nat \<Rightarrow> string \<Rightarrow> text_element \<Rightarrow> text_element" where
  "rebase_element offset txt e =
     \<lparr>te_start = offset + te_start e, te_end = offset + te_end e, te_placeholder = te_placeholder_in e txt\<rparr>"

fun text_elements_loop :: "nat \<Rightarrow> user_input list \<Rightarrow> text_element list" where
  "text_elements_loop offset [] = []"
| "text_elements_loop offset (TextInput t es # cs) = map (rebase_element offset t) es @ text_elements_loop (offset + length t) cs"
| "text_elements_loop offset (c # cs) = text_elements_loop offset cs"

definition text_elements :: "user_message_item \<Rightarrow> text_element list" where
  "text_elements u = text_elements_loop 0 (ui_content u)"

definition image_urls :: "user_message_item \<Rightarrow> string list" where
  "image_urls u = List.map_filter (\<lambda>c. case c of ImageInput url _ \<Rightarrow> Some url | _ \<Rightarrow> None) (ui_content u)"

definition local_image_paths :: "user_message_item \<Rightarrow> string list" where
  "local_image_paths u = List.map_filter (\<lambda>c. case c of LocalImageInput p _ \<Rightarrow> Some p | _ \<Rightarrow> None) (ui_content u)"

definition trim_trailing_default_image_details :: "image_detail option list \<Rightarrow> image_detail option list" where
  "trim_trailing_default_image_details ds = rev (dropWhile (\<lambda>d. d = None) (rev ds))"

definition image_details :: "user_message_item \<Rightarrow> image_detail option list" where
  "image_details u = trim_trailing_default_image_details
     (List.map_filter (\<lambda>c. case c of ImageInput _ d \<Rightarrow> Some d | _ \<Rightarrow> None) (ui_content u))"

definition local_image_details :: "user_message_item \<Rightarrow> image_detail option list" where
  "local_image_details u = trim_trailing_default_image_details
     (List.map_filter (\<lambda>c. case c of LocalImageInput _ d \<Rightarrow> Some d | _ \<Rightarrow> None) (ui_content u))"

definition user_message_legacy_event :: "user_message_item \<Rightarrow> user_message_event" where
  "user_message_legacy_event u =
     \<lparr>um_client_id = ui_client_id u, um_message = user_message_text u, um_images = Some (image_urls u),
      um_image_details = image_details u, um_local_images = local_image_paths u,
      um_local_image_details = local_image_details u, um_text_elements = text_elements u\<rparr>"

definition some_unless_null :: "json_value \<Rightarrow> json_value option" where
  "some_unless_null v = (if v = JNull then None else Some v)"

definition mcp_legacy_begin_event :: "mcp_item \<Rightarrow> mcp_begin_event" where
  "mcp_legacy_begin_event m =
     \<lparr>mb_call_id = mi_id m, mb_server = mi_server m, mb_tool = mi_tool m, mb_arguments = some_unless_null (mi_arguments m),
      mb_connector_id = mi_connector_id m, mb_resource_uri = mi_resource_uri m, mb_link_id = mi_link_id m,
      mb_plugin_id = mi_plugin_id m\<rparr>"

definition mcp_legacy_end_event :: "mcp_item \<Rightarrow> mcp_end_event option" where
  "mcp_legacy_end_event m =
     (case (case (mi_result m, mi_error m) of
              (Some r, _) \<Rightarrow> Some (Inr r) | (None, Some e) \<Rightarrow> Some (Inl e) | (None, None) \<Rightarrow> None) of
        None \<Rightarrow> None
      | Some result \<Rightarrow> map_option (\<lambda>d.
          \<lparr>mb_call_id = mi_id m, mb_server = mi_server m, mb_tool = mi_tool m, mb_arguments = some_unless_null (mi_arguments m),
           mb_connector_id = mi_connector_id m, mb_resource_uri = mi_resource_uri m, mb_link_id = mi_link_id m,
           mb_plugin_id = mi_plugin_id m, me_duration = d, me_result = result\<rparr>) (mi_duration m))"

definition file_change_legacy_begin_event :: "file_change_item \<Rightarrow> string \<Rightarrow> event_msg" where
  "file_change_legacy_begin_event f turn_id =
     PatchApplyBeginEvent \<lparr>pa_call_id = fi_id f, pa_turn_id = turn_id, pa_changes = fi_changes f\<rparr>"

definition file_change_legacy_end_event :: "file_change_item \<Rightarrow> string \<Rightarrow> event_msg option" where
  "file_change_legacy_end_event f turn_id =
     map_option (PatchApplyEndEvent \<lparr>pa_call_id = fi_id f, pa_turn_id = turn_id, pa_changes = fi_changes f\<rparr>) (fi_status f)"

fun turn_item_legacy_events :: "bool \<Rightarrow> turn_item \<Rightarrow> event_msg list" where
  "turn_item_legacy_events raw (TurnUserMessage u) = [UserMessageEvent (user_message_legacy_event u)]"
| "turn_item_legacy_events raw (TurnHookPrompt _ _) = []"
| "turn_item_legacy_events raw (TurnAgentMessage _ texts phase citation) = map (\<lambda>t. AgentMessageEvent t phase citation) texts"
| "turn_item_legacy_events raw (TurnPlan _ _) = []"
| "turn_item_legacy_events raw (TurnWebSearch i q a) = [WebSearchEndEvent i q a]"
| "turn_item_legacy_events raw (TurnImageView i p) = [ViewImageToolCallEvent i p]"
| "turn_item_legacy_events raw (TurnSleep _ _) = []"
| "turn_item_legacy_events raw (TurnImageGeneration g) = [ImageGenerationEndEvent g]"
| "turn_item_legacy_events raw (TurnFileChange f) = (case file_change_legacy_end_event f [] of Some e \<Rightarrow> [e] | None \<Rightarrow> [])"
| "turn_item_legacy_events raw (TurnMcpToolCall m) = (case mcp_legacy_end_event m of Some e \<Rightarrow> [McpToolCallEndEvent e] | None \<Rightarrow> [])"
| "turn_item_legacy_events raw (TurnReasoning _ summary content) =
     map AgentReasoningEvent summary @ (if raw then map AgentReasoningRawContentEvent content else [])"
| "turn_item_legacy_events raw (TurnContextCompaction _) = [ContextCompactedEvent]"

text \<open>\<^verbatim>\<open>HasLegacyEvent\<close> of \<^verbatim>\<open>ItemStartedEvent\<close> and \<^verbatim>\<open>ItemCompletedEvent\<close>.\<close>

definition started_legacy_events :: "string \<Rightarrow> turn_item \<Rightarrow> event_msg list" where
  "started_legacy_events turn_id it =
     (case it of
        TurnWebSearch i _ _ \<Rightarrow> [WebSearchBeginEvent i]
      | TurnImageGeneration g \<Rightarrow> [ImageGenerationBeginEvent (ig_call_id g)]
      | TurnFileChange f \<Rightarrow> [file_change_legacy_begin_event f turn_id]
      | TurnMcpToolCall m \<Rightarrow> [McpToolCallBeginEvent (mcp_legacy_begin_event m)]
      | _ \<Rightarrow> [])"

definition completed_legacy_events :: "bool \<Rightarrow> string \<Rightarrow> turn_item \<Rightarrow> event_msg list" where
  "completed_legacy_events raw turn_id it =
     (case it of
        TurnFileChange f \<Rightarrow> (case file_change_legacy_end_event f turn_id of Some e \<Rightarrow> [e] | None \<Rightarrow> [])
      | _ \<Rightarrow> turn_item_legacy_events raw it)"
end
