(* ===== verification/Thread_History.thy ===== *)
theory Thread_History
  imports Thread_Items
begin

text \<open>
  The history of a thread: \<^verbatim>\<open>ThreadHistoryBuilder\<close> of \<^verbatim>\<open>crates/app-server-protocol/src/protocol/thread_history.rs\<close>, which replays
  the persisted items of a thread into turns and reports what each item changed. An operation takes the builder and returns it
  updated. A UUID that a handler may need is an argument, \<open>uuid\<close>; no handler uses two. The index of the next item is an
  \<^verbatim>\<open>i64\<close>, whose additions wrap as in the release build; a \<^verbatim>\<open>usize\<close> that counts rollout items is a natural number.
\<close>

subsection \<open>Turns\<close>

datatype turn_status = TurnCompleted | TurnInterrupted | TurnFailed | TurnInProgress

datatype turn_items_view = ItemsNotLoaded | ItemsSummary | ItemsFull

record turn_error =
  tx_message :: string
  tx_info :: "codex_error_info option"
  tx_details :: "string option"

record thread_turn =
  tt_id :: string
  tt_items :: "thread_item list"
  tt_view :: turn_items_view
  tt_status :: turn_status
  tt_error :: "turn_error option"
  tt_started_at :: "int option"
  tt_completed_at :: "int option"
  tt_duration_ms :: "int option"

record pending_turn =
  pt_id :: string
  pt_items :: "thread_item list"
  pt_error :: "turn_error option"
  pt_status :: turn_status
  pt_started_at :: "int option"
  pt_completed_at :: "int option"
  pt_duration_ms :: "int option"
  pt_opened_explicitly :: bool
  pt_saw_compaction :: bool
  pt_rollout_start_index :: nat

definition turn_of_pending :: "pending_turn \<Rightarrow> thread_turn" where
  "turn_of_pending p =
     \<lparr>tt_id = pt_id p, tt_items = pt_items p, tt_view = ItemsFull, tt_status = pt_status p, tt_error = pt_error p,
      tt_started_at = pt_started_at p, tt_completed_at = pt_completed_at p, tt_duration_ms = pt_duration_ms p\<rparr>"

subsection \<open>Changes\<close>

record item_change =
  ic_turn_id :: string
  ic_item :: thread_item

record turn_change =
  tc_turn_id :: string
  tc_status :: turn_status
  tc_error :: "turn_error option"
  tc_started_at :: "int option"
  tc_completed_at :: "int option"
  tc_duration_ms :: "int option"

record change_set =
  cs_items :: "item_change list"
  cs_turns :: "turn_change list"
  cs_removed :: "string list"

definition no_changes :: change_set where
  "no_changes = \<lparr>cs_items = [], cs_turns = [], cs_removed = []\<rparr>"

definition change_set_is_empty :: "change_set \<Rightarrow> bool" where
  "change_set_is_empty c = (cs_items c = [] \<and> cs_turns c = [] \<and> cs_removed c = [])"

definition from_pending_turn :: "pending_turn \<Rightarrow> turn_change" where
  "from_pending_turn p =
     \<lparr>tc_turn_id = pt_id p, tc_status = pt_status p, tc_error = pt_error p, tc_started_at = pt_started_at p,
      tc_completed_at = pt_completed_at p, tc_duration_ms = pt_duration_ms p\<rparr>"

definition from_turn :: "thread_turn \<Rightarrow> turn_change" where
  "from_turn t =
     \<lparr>tc_turn_id = tt_id t, tc_status = tt_status t, tc_error = tt_error t, tc_started_at = tt_started_at t,
      tc_completed_at = tt_completed_at t, tc_duration_ms = tt_duration_ms t\<rparr>"

subsection \<open>The builder\<close>

record thread_builder =
  tb_turns :: "thread_turn list"
  tb_current :: "pending_turn option"
  tb_next_item :: int
  tb_rollout :: nat
  tb_next_rollout :: nat
  tb_changes :: "change_set option"

definition new_builder :: thread_builder where
  "new_builder = \<lparr>tb_turns = [], tb_current = None, tb_next_item = 1, tb_rollout = 0, tb_next_rollout = 0, tb_changes = None\<rparr>"

definition finish_current_turn :: "thread_builder \<Rightarrow> thread_builder" where
  "finish_current_turn b =
     (case tb_current b of
        None \<Rightarrow> b
      | Some t \<Rightarrow>
          if pt_items t = [] \<and> \<not> pt_opened_explicitly t \<and> \<not> pt_saw_compaction t then b\<lparr>tb_current := None\<rparr>
          else b\<lparr>tb_current := None, tb_turns := tb_turns b @ [turn_of_pending t]\<rparr>)"

definition finish_builder :: "thread_builder \<Rightarrow> thread_turn list" where
  "finish_builder b = tb_turns (finish_current_turn b)"

definition active_turn_snapshot :: "thread_builder \<Rightarrow> thread_turn option" where
  "active_turn_snapshot b =
     (case tb_current b of
        Some t \<Rightarrow> Some (turn_of_pending t)
      | None \<Rightarrow> if tb_turns b = [] then None else Some (last (tb_turns b)))"

definition turn_snapshot :: "thread_builder \<Rightarrow> string \<Rightarrow> thread_turn option" where
  "turn_snapshot b turn_id =
     (case (case tb_current b of Some t \<Rightarrow> if pt_id t = turn_id then Some (turn_of_pending t) else None | None \<Rightarrow> None) of
        Some t \<Rightarrow> Some t
      | None \<Rightarrow> List.find (\<lambda>t. tt_id t = turn_id) (tb_turns b))"

definition active_turn_position :: "thread_builder \<Rightarrow> nat option" where
  "active_turn_position b =
     (if tb_current b \<noteq> None then Some (length (tb_turns b))
      else if tb_turns b = [] then None
      else Some (length (tb_turns b) - 1))"

definition has_active_turn :: "thread_builder \<Rightarrow> bool" where
  "has_active_turn b = (tb_current b \<noteq> None)"

definition active_turn_id_if_explicit :: "thread_builder \<Rightarrow> string option" where
  "active_turn_id_if_explicit b =
     (case tb_current b of Some t \<Rightarrow> if pt_opened_explicitly t then Some (pt_id t) else None | None \<Rightarrow> None)"

definition active_turn_start_index :: "thread_builder \<Rightarrow> nat option" where
  "active_turn_start_index b = map_option pt_rollout_start_index (tb_current b)"

definition is_tracking_changes :: "thread_builder \<Rightarrow> bool" where
  "is_tracking_changes b = (tb_changes b \<noteq> None)"

definition record_changed_item :: "string \<Rightarrow> thread_item \<Rightarrow> thread_builder \<Rightarrow> thread_builder" where
  "record_changed_item turn_id item b =
     b\<lparr>tb_changes := map_option (\<lambda>c. c\<lparr>cs_items := cs_items c @ [\<lparr>ic_turn_id = turn_id, ic_item = item\<rparr>]\<rparr>) (tb_changes b)\<rparr>"

definition record_changed_turn :: "turn_change \<Rightarrow> thread_builder \<Rightarrow> thread_builder" where
  "record_changed_turn ch b = b\<lparr>tb_changes := map_option (\<lambda>c. c\<lparr>cs_turns := cs_turns c @ [ch]\<rparr>) (tb_changes b)\<rparr>"

definition record_changed_pending_turn :: "pending_turn \<Rightarrow> thread_builder \<Rightarrow> thread_builder" where
  "record_changed_pending_turn t b = (if is_tracking_changes b then record_changed_turn (from_pending_turn t) b else b)"

definition record_removed_turn_ids :: "string list \<Rightarrow> thread_builder \<Rightarrow> thread_builder" where
  "record_removed_turn_ids ids b = b\<lparr>tb_changes := map_option (\<lambda>c. c\<lparr>cs_removed := cs_removed c @ ids\<rparr>) (tb_changes b)\<rparr>"

definition rollout_turn_id :: "nat \<Rightarrow> string" where
  "rollout_turn_id n = ''rollout-'' @ show_nat n"

definition new_turn :: "string \<Rightarrow> string option \<Rightarrow> thread_builder \<Rightarrow> pending_turn" where
  "new_turn uuid i b =
     \<lparr>pt_id = (case i of Some x \<Rightarrow> x | None \<Rightarrow> if tb_next_rollout b = 0 then uuid else rollout_turn_id (tb_rollout b)),
      pt_items = [], pt_error = None, pt_status = TurnCompleted, pt_started_at = None, pt_completed_at = None,
      pt_duration_ms = None, pt_opened_explicitly = False, pt_saw_compaction = False, pt_rollout_start_index = tb_rollout b\<rparr>"

definition ensure_turn :: "string \<Rightarrow> thread_builder \<Rightarrow> pending_turn \<times> thread_builder" where
  "ensure_turn uuid b =
     (case tb_current b of
        Some t \<Rightarrow> (t, b)
      | None \<Rightarrow>
          let t = new_turn uuid None b
          in (t, (record_changed_pending_turn t b)\<lparr>tb_current := Some t\<rparr>))"

definition upsert_turn_item :: "thread_item list \<Rightarrow> thread_item \<Rightarrow> thread_item list" where
  "upsert_turn_item items item =
     (case position (\<lambda>e. item_id e = item_id item) items of Some k \<Rightarrow> items[k := item] | None \<Rightarrow> items @ [item])"

definition push_item_in_current_turn :: "string \<Rightarrow> thread_item \<Rightarrow> thread_builder \<Rightarrow> thread_builder" where
  "push_item_in_current_turn uuid item b =
     (let (t, b) = ensure_turn uuid b
      in record_changed_item (pt_id t) item (b\<lparr>tb_current := Some (t\<lparr>pt_items := pt_items t @ [item]\<rparr>)\<rparr>))"

definition upsert_item_in_current_turn :: "string \<Rightarrow> thread_item \<Rightarrow> thread_builder \<Rightarrow> thread_builder" where
  "upsert_item_in_current_turn uuid item b =
     (let (t, b) = ensure_turn uuid b
      in record_changed_item (pt_id t) item (b\<lparr>tb_current := Some (t\<lparr>pt_items := upsert_turn_item (pt_items t) item\<rparr>)\<rparr>))"

fun update_first :: "('a \<Rightarrow> bool) \<Rightarrow> ('a \<Rightarrow> 'a) \<Rightarrow> 'a list \<Rightarrow> 'a list" where
  "update_first p f [] = []"
| "update_first p f (x # xs) = (if p x then f x # xs else x # update_first p f xs)"

definition upsert_item_in_finished_turn :: "string \<Rightarrow> thread_item \<Rightarrow> thread_builder \<Rightarrow> thread_builder" where
  "upsert_item_in_finished_turn turn_id item b =
     (if list_ex (\<lambda>t. tt_id t = turn_id) (tb_turns b)
      then record_changed_item turn_id item
             (b\<lparr>tb_turns := update_first (\<lambda>t. tt_id t = turn_id) (\<lambda>t. t\<lparr>tt_items := upsert_turn_item (tt_items t) item\<rparr>) (tb_turns b)\<rparr>)
      else b)"

definition upsert_item_in_turn_id :: "string \<Rightarrow> thread_item \<Rightarrow> thread_builder \<Rightarrow> thread_builder" where
  "upsert_item_in_turn_id turn_id item b =
     (case tb_current b of
        Some t \<Rightarrow>
          if pt_id t = turn_id
          then record_changed_item (pt_id t) item (b\<lparr>tb_current := Some (t\<lparr>pt_items := upsert_turn_item (pt_items t) item\<rparr>)\<rparr>)
          else upsert_item_in_finished_turn turn_id item b
      | None \<Rightarrow> upsert_item_in_finished_turn turn_id item b)"

text \<open>The choice most handlers make between the turn an event names and the current turn.\<close>

definition upsert_item_by_turn :: "string \<Rightarrow> string \<Rightarrow> thread_item \<Rightarrow> thread_builder \<Rightarrow> thread_builder" where
  "upsert_item_by_turn uuid turn_id item b =
     (if turn_id = [] then upsert_item_in_current_turn uuid item b else upsert_item_in_turn_id turn_id item b)"

definition i64_wrap :: "int \<Rightarrow> int" where
  "i64_wrap i = (i + 9223372036854775808) mod 18446744073709551616 - 9223372036854775808"

definition item_name :: "int \<Rightarrow> string" where
  "item_name i = ''item-'' @ show_int i"

definition next_item_id :: "thread_builder \<Rightarrow> string \<times> thread_builder" where
  "next_item_id b = (item_name (tb_next_item b), b\<lparr>tb_next_item := i64_wrap (tb_next_item b + 1)\<rparr>)"

subsection \<open>Messages and reasoning\<close>

definition opt_flat :: "'a option list \<Rightarrow> nat \<Rightarrow> 'a option" where
  "opt_flat xs i = (if i < length xs then xs ! i else None)"

definition build_user_inputs :: "user_message_event \<Rightarrow> user_input list" where
  "build_user_inputs p =
     (if trim (um_message p) \<noteq> [] then [TextInput (um_message p) (um_text_elements p)] else [])
     @ (case um_images p of
          Some images \<Rightarrow> map (\<lambda>(i, url). ImageInput url (opt_flat (um_image_details p) i)) (enumerate 0 images)
        | None \<Rightarrow> [])
     @ map (\<lambda>(i, f). LocalImageInput f (opt_flat (um_local_image_details p) i)) (enumerate 0 (um_local_images p))"

definition handle_response_item :: "item_lib \<Rightarrow> string \<Rightarrow> response_item \<Rightarrow> thread_builder \<Rightarrow> thread_builder" where
  "handle_response_item lib uuid it b =
     (case it of
        ResponseMessage i role content \<Rightarrow>
          if role \<noteq> ''user'' then b
          else (case parse_hook_prompt_message lib uuid i content of
                  None \<Rightarrow> b
                | Some (hid, fs) \<Rightarrow> push_item_in_current_turn uuid (HookPrompt hid fs) b)
      | OtherResponseItem \<Rightarrow> b)"

definition handle_user_message :: "string \<Rightarrow> user_message_event \<Rightarrow> thread_builder \<Rightarrow> thread_builder" where
  "handle_user_message uuid p b =
     (let b = (case tb_current b of
                 Some t \<Rightarrow> if \<not> pt_opened_explicitly t \<and> \<not> (pt_saw_compaction t \<and> pt_items t = []) then finish_current_turn b else b
               | None \<Rightarrow> b);
          (i, b) = next_item_id b
      in push_item_in_current_turn uuid (UserMessage i (um_client_id p) (build_user_inputs p)) b)"

definition handle_agent_message ::
    "string \<Rightarrow> string \<Rightarrow> message_phase option \<Rightarrow> memory_citation option \<Rightarrow> thread_builder \<Rightarrow> thread_builder" where
  "handle_agent_message uuid txt phase citation b =
     (if txt = [] then b
      else let (i, b) = next_item_id b in push_item_in_current_turn uuid (AgentMessage i txt phase citation) b)"

text \<open>Reasoning text is added to the last item when that is a reasoning item.\<close>

definition extend_last_reasoning :: "(string list \<Rightarrow> string list) \<Rightarrow> (string list \<Rightarrow> string list) \<Rightarrow> thread_item list \<Rightarrow> thread_item option" where
  "extend_last_reasoning f g items =
     (if items = [] then None
      else case last items of Reasoning i summary content \<Rightarrow> Some (Reasoning i (f summary) (g content)) | _ \<Rightarrow> None)"

definition add_reasoning ::
    "string \<Rightarrow> (string list \<Rightarrow> string list) \<Rightarrow> (string list \<Rightarrow> string list) \<Rightarrow> thread_builder \<Rightarrow> thread_builder" where
  "add_reasoning uuid f g b =
     (let (t, b) = ensure_turn uuid b
      in case extend_last_reasoning f g (pt_items t) of
           Some item \<Rightarrow>
             record_changed_item (pt_id t) item (b\<lparr>tb_current := Some (t\<lparr>pt_items := butlast (pt_items t) @ [item]\<rparr>)\<rparr>)
         | None \<Rightarrow>
             let (i, b) = next_item_id b in push_item_in_current_turn uuid (Reasoning i (f []) (g [])) b)"

definition handle_agent_reasoning :: "string \<Rightarrow> string \<Rightarrow> thread_builder \<Rightarrow> thread_builder" where
  "handle_agent_reasoning uuid txt b = (if txt = [] then b else add_reasoning uuid (\<lambda>s. s @ [txt]) (\<lambda>c. c) b)"

definition handle_agent_reasoning_raw_content :: "string \<Rightarrow> string \<Rightarrow> thread_builder \<Rightarrow> thread_builder" where
  "handle_agent_reasoning_raw_content uuid txt b = (if txt = [] then b else add_reasoning uuid (\<lambda>s. s) (\<lambda>c. c @ [txt]) b)"

definition handle_item_started :: "string \<Rightarrow> turn_item \<Rightarrow> thread_builder \<Rightarrow> thread_builder" where
  "handle_item_started turn_id it b =
     (case it of
        TurnPlan _ txt \<Rightarrow> if txt = [] then b else upsert_item_in_turn_id turn_id (thread_item_of it) b
      | TurnSleep _ _ \<Rightarrow> upsert_item_in_turn_id turn_id (thread_item_of it) b
      | _ \<Rightarrow> b)"

definition handle_item_completed :: "string \<Rightarrow> turn_item \<Rightarrow> thread_builder \<Rightarrow> thread_builder" where
  "handle_item_completed turn_id it b =
     (case it of
        TurnPlan _ txt \<Rightarrow> if txt = [] then b else upsert_item_in_turn_id turn_id (thread_item_of it) b
      | TurnSleep _ _ \<Rightarrow> upsert_item_in_turn_id turn_id (thread_item_of it) b
      | _ \<Rightarrow> b)"

subsection \<open>Tools\<close>

definition handle_web_search_begin :: "string \<Rightarrow> string \<Rightarrow> thread_builder \<Rightarrow> thread_builder" where
  "handle_web_search_begin uuid call_id = upsert_item_in_current_turn uuid (WebSearch call_id [] None)"

definition handle_web_search_end :: "string \<Rightarrow> string \<Rightarrow> string \<Rightarrow> web_search_action \<Rightarrow> thread_builder \<Rightarrow> thread_builder" where
  "handle_web_search_end uuid call_id q a = upsert_item_in_current_turn uuid (WebSearch call_id q (Some a))"

definition handle_exec_command_begin :: "item_lib \<Rightarrow> exec_begin_event \<Rightarrow> thread_builder \<Rightarrow> thread_builder" where
  "handle_exec_command_begin lib p = upsert_item_in_turn_id (eb_turn_id p) (build_command_execution_begin_item lib p)"

definition handle_exec_command_end :: "item_lib \<Rightarrow> exec_end_event \<Rightarrow> thread_builder \<Rightarrow> thread_builder" where
  "handle_exec_command_end lib p = upsert_item_in_turn_id (ee_turn_id p) (build_command_execution_end_item lib p)"

definition guardian_command_status :: "guardian_status \<Rightarrow> command_status option" where
  "guardian_command_status s =
     (case s of
        GuardianInProgress \<Rightarrow> Some CommandInProgress
      | GuardianDenied \<Rightarrow> Some CommandDeclined
      | GuardianAborted \<Rightarrow> Some CommandDeclined
      | GuardianTimedOut \<Rightarrow> Some CommandFailed
      | GuardianApproved \<Rightarrow> None)"

definition handle_guardian_assessment :: "item_lib \<Rightarrow> string \<Rightarrow> guardian_event \<Rightarrow> thread_builder \<Rightarrow> thread_builder" where
  "handle_guardian_assessment lib uuid p b =
     (case guardian_command_status (ga_status p) of
        None \<Rightarrow> b
      | Some st \<Rightarrow>
          (case build_item_from_guardian_event lib p st of
             None \<Rightarrow> b
           | Some item \<Rightarrow> upsert_item_by_turn uuid (ga_turn_id p) item b))"

definition handle_apply_patch_approval_request :: "string \<Rightarrow> patch_event \<Rightarrow> thread_builder \<Rightarrow> thread_builder" where
  "handle_apply_patch_approval_request uuid p =
     upsert_item_by_turn uuid (pa_turn_id p) (build_file_change_approval_request_item p)"

definition handle_patch_apply_begin :: "string \<Rightarrow> patch_event \<Rightarrow> thread_builder \<Rightarrow> thread_builder" where
  "handle_patch_apply_begin uuid p = upsert_item_by_turn uuid (pa_turn_id p) (build_file_change_begin_item p)"

definition handle_patch_apply_end :: "string \<Rightarrow> patch_event \<Rightarrow> core_patch_status \<Rightarrow> thread_builder \<Rightarrow> thread_builder" where
  "handle_patch_apply_end uuid p st = upsert_item_by_turn uuid (pa_turn_id p) (build_file_change_end_item p st)"

definition handle_dynamic_tool_call_request :: "string \<Rightarrow> dynamic_request_event \<Rightarrow> thread_builder \<Rightarrow> thread_builder" where
  "handle_dynamic_tool_call_request uuid p = upsert_item_by_turn uuid (dq_turn_id p) (DynamicToolCall
     \<lparr>dt_id = dq_call_id p, dt_namespace = dq_namespace p, dt_tool = dq_tool p, dt_arguments = dq_arguments p,
      dt_status = DynamicInProgress, dt_content_items = None, dt_success = None, dt_duration_ms = None\<rparr>)"

definition handle_dynamic_tool_call_response :: "string \<Rightarrow> dynamic_response_event \<Rightarrow> thread_builder \<Rightarrow> thread_builder" where
  "handle_dynamic_tool_call_response uuid p = upsert_item_by_turn uuid (dr_turn_id p) (DynamicToolCall
     \<lparr>dt_id = dr_call_id p, dt_namespace = dr_namespace p, dt_tool = dr_tool p, dt_arguments = dr_arguments p,
      dt_status = (if dr_success p then DynamicCompleted else DynamicFailed), dt_content_items = Some (dr_content_items p),
      dt_success = Some (dr_success p), dt_duration_ms = i64_of_nat (as_millis (dr_duration p))\<rparr>)"

definition or_null :: "json_value option \<Rightarrow> json_value" where
  "or_null v = (case v of Some x \<Rightarrow> x | None \<Rightarrow> JNull)"

definition handle_mcp_tool_call_begin :: "string \<Rightarrow> mcp_begin_event \<Rightarrow> thread_builder \<Rightarrow> thread_builder" where
  "handle_mcp_tool_call_begin uuid p = upsert_item_in_current_turn uuid (McpToolCall
     \<lparr>mt_id = mb_call_id p, mt_server = mb_server p, mt_tool = mb_tool p, mt_status = McpInProgress,
      mt_arguments = or_null (mb_arguments p),
      mt_app_context = mcp_app_context_of (mb_connector_id p) (mb_link_id p) (mb_resource_uri p),
      mt_resource_uri = mb_resource_uri p, mt_plugin_id = mb_plugin_id p, mt_result = None, mt_error = None,
      mt_duration_ms = None\<rparr>)"

definition mcp_end_is_success :: "mcp_end_event \<Rightarrow> bool" where
  "mcp_end_is_success p = (case me_result p of Inr r \<Rightarrow> ctr_is_error r \<noteq> Some True | Inl _ \<Rightarrow> False)"

definition handle_mcp_tool_call_end :: "string \<Rightarrow> mcp_end_event \<Rightarrow> thread_builder \<Rightarrow> thread_builder" where
  "handle_mcp_tool_call_end uuid p = upsert_item_in_current_turn uuid (McpToolCall
     \<lparr>mt_id = mb_call_id p, mt_server = mb_server p, mt_tool = mb_tool p,
      mt_status = (if mcp_end_is_success p then McpCompleted else McpFailed),
      mt_arguments = or_null (mb_arguments p),
      mt_app_context = mcp_app_context_of (mb_connector_id p) (mb_link_id p) (mb_resource_uri p),
      mt_resource_uri = mb_resource_uri p, mt_plugin_id = mb_plugin_id p,
      mt_result = (case me_result p of Inr r \<Rightarrow> Some (mcp_result_of r) | Inl _ \<Rightarrow> None),
      mt_error = (case me_result p of Inr _ \<Rightarrow> None | Inl m \<Rightarrow> Some m),
      mt_duration_ms = i64_of_nat (as_millis (me_duration p))\<rparr>)"

definition handle_view_image_tool_call :: "string \<Rightarrow> string \<Rightarrow> path \<Rightarrow> thread_builder \<Rightarrow> thread_builder" where
  "handle_view_image_tool_call uuid call_id p = upsert_item_in_current_turn uuid (ImageView call_id p)"

definition handle_image_generation_begin :: "string \<Rightarrow> string \<Rightarrow> thread_builder \<Rightarrow> thread_builder" where
  "handle_image_generation_begin uuid call_id = upsert_item_in_current_turn uuid (ImageGeneration call_id [] None [] None)"

definition handle_image_generation_end :: "string \<Rightarrow> image_generation_event \<Rightarrow> thread_builder \<Rightarrow> thread_builder" where
  "handle_image_generation_end uuid g = upsert_item_in_current_turn uuid
     (ImageGeneration (ig_call_id g) (ig_status g) (ig_revised_prompt g) (ig_result g) (ig_saved_path g))"

subsection \<open>Other agents\<close>

definition agent_failed :: "agent_status \<Rightarrow> bool" where
  "agent_failed s = (case s of AgentErrored _ \<Rightarrow> True | AgentNotFound \<Rightarrow> True | _ \<Rightarrow> False)"

definition handle_collab_agent_spawn_begin ::
    "string \<Rightarrow> string \<Rightarrow> string \<Rightarrow> string \<Rightarrow> string \<Rightarrow> reasoning_effort \<Rightarrow> thread_builder \<Rightarrow> thread_builder" where
  "handle_collab_agent_spawn_begin uuid call_id sender prompt model effort = upsert_item_in_current_turn uuid (CollabAgentToolCall
     \<lparr>ct_id = call_id, ct_tool = SpawnAgent, ct_status = CollabCallInProgress, ct_sender = sender, ct_receivers = [],
      ct_prompt = Some prompt, ct_model = Some model, ct_effort = Some effort, ct_states = []\<rparr>)"

definition handle_collab_agent_spawn_end ::
    "string \<Rightarrow> string \<Rightarrow> string \<Rightarrow> string option \<Rightarrow> string \<Rightarrow> string \<Rightarrow> reasoning_effort \<Rightarrow> agent_status \<Rightarrow> thread_builder \<Rightarrow> thread_builder" where
  "handle_collab_agent_spawn_end uuid call_id sender new_thread prompt model effort st = upsert_item_in_current_turn uuid (CollabAgentToolCall
     \<lparr>ct_id = call_id, ct_tool = SpawnAgent,
      ct_status = (if agent_failed st then CollabCallFailed else if new_thread \<noteq> None then CollabCallCompleted else CollabCallFailed),
      ct_sender = sender,
      ct_receivers = (case new_thread of Some r \<Rightarrow> [r] | None \<Rightarrow> []),
      ct_prompt = Some prompt, ct_model = Some model, ct_effort = Some effort,
      ct_states = (case new_thread of Some r \<Rightarrow> [(r, collab_agent_state_of st)] | None \<Rightarrow> [])\<rparr>)"

definition collab_begin_item :: "collab_tool \<Rightarrow> collab_begin_event \<Rightarrow> string option \<Rightarrow> thread_item" where
  "collab_begin_item tool p prompt = CollabAgentToolCall
     \<lparr>ct_id = cb_call_id p, ct_tool = tool, ct_status = CollabCallInProgress, ct_sender = cb_sender p,
      ct_receivers = [cb_receiver p], ct_prompt = prompt, ct_model = None, ct_effort = None, ct_states = []\<rparr>"

definition collab_end_item :: "collab_tool \<Rightarrow> collab_end_event \<Rightarrow> string option \<Rightarrow> thread_item" where
  "collab_end_item tool p prompt = CollabAgentToolCall
     \<lparr>ct_id = cb_call_id p, ct_tool = tool, ct_status = (if agent_failed (cd_status p) then CollabCallFailed else CollabCallCompleted),
      ct_sender = cb_sender p, ct_receivers = [cb_receiver p], ct_prompt = prompt, ct_model = None, ct_effort = None,
      ct_states = [(cb_receiver p, collab_agent_state_of (cd_status p))]\<rparr>"

definition handle_collab_agent_interaction_begin :: "string \<Rightarrow> collab_begin_event \<Rightarrow> string \<Rightarrow> thread_builder \<Rightarrow> thread_builder" where
  "handle_collab_agent_interaction_begin uuid p prompt = upsert_item_in_current_turn uuid (collab_begin_item SendInput p (Some prompt))"

definition handle_collab_agent_interaction_end :: "string \<Rightarrow> collab_end_event \<Rightarrow> string \<Rightarrow> thread_builder \<Rightarrow> thread_builder" where
  "handle_collab_agent_interaction_end uuid p prompt = upsert_item_in_current_turn uuid (collab_end_item SendInput p (Some prompt))"

definition handle_sub_agent_activity :: "string \<Rightarrow> string \<Rightarrow> string \<Rightarrow> string \<Rightarrow> sub_agent_activity_kind \<Rightarrow> thread_builder \<Rightarrow> thread_builder" where
  "handle_sub_agent_activity uuid event_id thread_id agent_path kind =
     upsert_item_in_current_turn uuid (SubAgentActivity event_id kind thread_id agent_path)"

definition handle_collab_waiting_begin :: "string \<Rightarrow> string \<Rightarrow> string \<Rightarrow> string list \<Rightarrow> thread_builder \<Rightarrow> thread_builder" where
  "handle_collab_waiting_begin uuid call_id sender receivers = upsert_item_in_current_turn uuid (CollabAgentToolCall
     \<lparr>ct_id = call_id, ct_tool = WaitAgent, ct_status = CollabCallInProgress, ct_sender = sender, ct_receivers = receivers,
      ct_prompt = None, ct_model = None, ct_effort = None, ct_states = []\<rparr>)"

definition handle_collab_waiting_end :: "string \<Rightarrow> string \<Rightarrow> string \<Rightarrow> (string, agent_status) hash_map \<Rightarrow> thread_builder \<Rightarrow> thread_builder" where
  "handle_collab_waiting_end uuid call_id sender statuses = upsert_item_in_current_turn uuid (CollabAgentToolCall
     \<lparr>ct_id = call_id, ct_tool = WaitAgent,
      ct_status = (if list_ex (\<lambda>(_, s). agent_failed s) statuses then CollabCallFailed else CollabCallCompleted),
      ct_sender = sender, ct_receivers = sort (map fst statuses), ct_prompt = None, ct_model = None, ct_effort = None,
      ct_states = map (\<lambda>(i, s). (i, collab_agent_state_of s)) statuses\<rparr>)"

definition handle_collab_close_begin :: "string \<Rightarrow> collab_begin_event \<Rightarrow> thread_builder \<Rightarrow> thread_builder" where
  "handle_collab_close_begin uuid p = upsert_item_in_current_turn uuid (collab_begin_item CloseAgent p None)"

definition handle_collab_close_end :: "string \<Rightarrow> collab_end_event \<Rightarrow> thread_builder \<Rightarrow> thread_builder" where
  "handle_collab_close_end uuid p = upsert_item_in_current_turn uuid (collab_end_item CloseAgent p None)"

definition handle_collab_resume_begin :: "string \<Rightarrow> collab_begin_event \<Rightarrow> thread_builder \<Rightarrow> thread_builder" where
  "handle_collab_resume_begin uuid p = upsert_item_in_current_turn uuid (collab_begin_item ResumeAgent p None)"

definition handle_collab_resume_end :: "string \<Rightarrow> collab_end_event \<Rightarrow> thread_builder \<Rightarrow> thread_builder" where
  "handle_collab_resume_end uuid p = upsert_item_in_current_turn uuid (collab_end_item ResumeAgent p None)"
subsection \<open>Reviews, errors and the ends of turns\<close>

definition handle_context_compacted :: "string \<Rightarrow> thread_builder \<Rightarrow> thread_builder" where
  "handle_context_compacted uuid b = (let (i, b) = next_item_id b in push_item_in_current_turn uuid (ContextCompaction i) b)"

definition handle_entered_review_mode :: "string \<Rightarrow> string option \<Rightarrow> thread_builder \<Rightarrow> thread_builder" where
  "handle_entered_review_mode uuid hint b =
     (let (i, b) = next_item_id b
      in push_item_in_current_turn uuid (EnteredReviewMode i (case hint of Some h \<Rightarrow> h | None \<Rightarrow> ''Review requested.'')) b)"

definition review_fallback_message :: string where
  "review_fallback_message = ''Reviewer failed to output a response.''"

definition render_review_output_text :: "string \<Rightarrow> string" where
  "render_review_output_text explanation = (if trim explanation = [] then review_fallback_message else trim explanation)"

definition handle_exited_review_mode :: "string \<Rightarrow> string option \<Rightarrow> thread_builder \<Rightarrow> thread_builder" where
  "handle_exited_review_mode uuid explanation b =
     (let (i, b) = next_item_id b
      in push_item_in_current_turn uuid
           (ExitedReviewMode i (case explanation of Some e \<Rightarrow> render_review_output_text e | None \<Rightarrow> review_fallback_message)) b)"

definition error_affects_turn_status :: "codex_error_info option \<Rightarrow> bool" where
  "error_affects_turn_status info = (case info of None \<Rightarrow> True | Some i \<Rightarrow> info_affects_turn_status i)"

definition handle_error :: "string \<Rightarrow> codex_error_info option \<Rightarrow> thread_builder \<Rightarrow> thread_builder" where
  "handle_error msg info b =
     (if \<not> error_affects_turn_status info then b
      else case tb_current b of
             None \<Rightarrow> b
           | Some t \<Rightarrow>
               let t = t\<lparr>pt_status := TurnFailed, pt_error := Some \<lparr>tx_message = msg, tx_info = info, tx_details = None\<rparr>\<rparr>
               in record_changed_turn (from_pending_turn t) (b\<lparr>tb_current := Some t\<rparr>))"

definition abort_current_turn :: "int option \<Rightarrow> int option \<Rightarrow> pending_turn \<Rightarrow> thread_builder \<Rightarrow> thread_builder" where
  "abort_current_turn completed_at duration t b =
     (let t = t\<lparr>pt_status := TurnInterrupted, pt_completed_at := completed_at, pt_duration_ms := duration\<rparr>
      in record_changed_turn (from_pending_turn t) (b\<lparr>tb_current := Some t\<rparr>))"

definition change_finished_turn :: "string \<Rightarrow> (thread_turn \<Rightarrow> thread_turn) \<Rightarrow> thread_builder \<Rightarrow> thread_builder" where
  "change_finished_turn turn_id f b =
     (case List.find (\<lambda>t. tt_id t = turn_id) (tb_turns b) of
        None \<Rightarrow> b
      | Some t \<Rightarrow> record_changed_turn (from_turn (f t)) (b\<lparr>tb_turns := update_first (\<lambda>t. tt_id t = turn_id) f (tb_turns b)\<rparr>))"

definition handle_turn_aborted :: "string option \<Rightarrow> int option \<Rightarrow> int option \<Rightarrow> thread_builder \<Rightarrow> thread_builder" where
  "handle_turn_aborted turn_id completed_at duration b =
     (case (turn_id, tb_current b) of
        (Some i, Some t) \<Rightarrow>
          if pt_id t \<noteq> i \<and> list_ex (\<lambda>t. tt_id t = i) (tb_turns b)
          then change_finished_turn i (\<lambda>t. t\<lparr>tt_status := TurnInterrupted, tt_completed_at := completed_at, tt_duration_ms := duration\<rparr>) b
          else abort_current_turn completed_at duration t b
      | (Some i, None) \<Rightarrow>
          change_finished_turn i (\<lambda>t. t\<lparr>tt_status := TurnInterrupted, tt_completed_at := completed_at, tt_duration_ms := duration\<rparr>) b
      | (None, Some t) \<Rightarrow> abort_current_turn completed_at duration t b
      | (None, None) \<Rightarrow> b)"

definition handle_turn_started :: "string \<Rightarrow> string \<Rightarrow> int option \<Rightarrow> thread_builder \<Rightarrow> thread_builder" where
  "handle_turn_started uuid turn_id started_at b =
     (let b = finish_current_turn b;
          t = (new_turn uuid (Some turn_id) b)\<lparr>pt_status := TurnInProgress, pt_started_at := started_at, pt_opened_explicitly := True\<rparr>
      in (record_changed_pending_turn t b)\<lparr>tb_current := Some t\<rparr>)"

definition completed_status :: "turn_status \<Rightarrow> turn_status" where
  "completed_status s = (if s = TurnCompleted \<or> s = TurnInProgress then TurnCompleted else s)"

definition complete_current_turn :: "int option \<Rightarrow> int option \<Rightarrow> pending_turn \<Rightarrow> thread_builder \<Rightarrow> thread_builder" where
  "complete_current_turn completed_at duration t b =
     (let t = t\<lparr>pt_status := completed_status (pt_status t), pt_completed_at := completed_at, pt_duration_ms := duration\<rparr>
      in finish_current_turn (record_changed_turn (from_pending_turn t) (b\<lparr>tb_current := Some t\<rparr>)))"

definition handle_turn_complete :: "string \<Rightarrow> int option \<Rightarrow> int option \<Rightarrow> thread_builder \<Rightarrow> thread_builder" where
  "handle_turn_complete turn_id completed_at duration b =
     (case tb_current b of
        Some t \<Rightarrow>
          if pt_id t \<noteq> turn_id \<and> list_ex (\<lambda>t. tt_id t = turn_id) (tb_turns b)
          then change_finished_turn turn_id
                 (\<lambda>t. t\<lparr>tt_status := completed_status (tt_status t), tt_completed_at := completed_at, tt_duration_ms := duration\<rparr>) b
          else complete_current_turn completed_at duration t b
      | None \<Rightarrow>
          change_finished_turn turn_id
            (\<lambda>t. t\<lparr>tt_status := completed_status (tt_status t), tt_completed_at := completed_at, tt_duration_ms := duration\<rparr>) b)"

definition handle_compacted :: "string \<Rightarrow> thread_builder \<Rightarrow> thread_builder" where
  "handle_compacted uuid b = (let (t, b) = ensure_turn uuid b in b\<lparr>tb_current := Some (t\<lparr>pt_saw_compaction := True\<rparr>)\<rparr>)"

definition handle_thread_rollback :: "nat \<Rightarrow> thread_builder \<Rightarrow> thread_builder" where
  "handle_thread_rollback n b =
     (let b = finish_current_turn b;
          ts = tb_turns b;
          removed = (if n \<ge> length ts then map tt_id ts
                     else if n = 0 then []
                     else map tt_id (drop (length ts - n) ts));
          b = record_removed_turn_ids removed b;
          kept = (if n \<ge> length ts then [] else take (length ts - n) ts);
          item_count = sum_list (map (\<lambda>t. length (tt_items t)) kept)
      in b\<lparr>tb_turns := kept,
           tb_next_item := (case i64_of_nat (u64_sat_succ item_count) of Some i \<Rightarrow> i | None \<Rightarrow> i64_max)\<rparr>)"

subsection \<open>Replaying\<close>

fun handle_event :: "item_lib \<Rightarrow> string \<Rightarrow> event_msg \<Rightarrow> thread_builder \<Rightarrow> thread_builder" where
  "handle_event lib uuid (UserMessageEvent p) = handle_user_message uuid p"
| "handle_event lib uuid (AgentMessageEvent txt phase citation) = handle_agent_message uuid txt phase (map_option memory_citation_of citation)"
| "handle_event lib uuid (AgentReasoningEvent txt) = handle_agent_reasoning uuid txt"
| "handle_event lib uuid (AgentReasoningRawContentEvent txt) = handle_agent_reasoning_raw_content uuid txt"
| "handle_event lib uuid (WebSearchBeginEvent i) = handle_web_search_begin uuid i"
| "handle_event lib uuid (WebSearchEndEvent i q a) = handle_web_search_end uuid i q a"
| "handle_event lib uuid (ExecCommandBeginEvent p) = handle_exec_command_begin lib p"
| "handle_event lib uuid (ExecCommandEndEvent p) = handle_exec_command_end lib p"
| "handle_event lib uuid (GuardianAssessmentEvent p) = handle_guardian_assessment lib uuid p"
| "handle_event lib uuid (ApplyPatchApprovalRequestEvent p) = handle_apply_patch_approval_request uuid p"
| "handle_event lib uuid (PatchApplyBeginEvent p) = handle_patch_apply_begin uuid p"
| "handle_event lib uuid (PatchApplyEndEvent p st) = handle_patch_apply_end uuid p st"
| "handle_event lib uuid (DynamicToolCallRequestEvent p) = handle_dynamic_tool_call_request uuid p"
| "handle_event lib uuid (DynamicToolCallResponseEvent p) = handle_dynamic_tool_call_response uuid p"
| "handle_event lib uuid (McpToolCallBeginEvent p) = handle_mcp_tool_call_begin uuid p"
| "handle_event lib uuid (McpToolCallEndEvent p) = handle_mcp_tool_call_end uuid p"
| "handle_event lib uuid (ViewImageToolCallEvent i p) = handle_view_image_tool_call uuid i p"
| "handle_event lib uuid (ImageGenerationBeginEvent i) = handle_image_generation_begin uuid i"
| "handle_event lib uuid (ImageGenerationEndEvent g) = handle_image_generation_end uuid g"
| "handle_event lib uuid (CollabAgentSpawnBeginEvent i s p m e) = handle_collab_agent_spawn_begin uuid i s p m e"
| "handle_event lib uuid (CollabAgentSpawnEndEvent i s r p m e st) = handle_collab_agent_spawn_end uuid i s r p m e st"
| "handle_event lib uuid (CollabAgentInteractionBeginEvent p prompt) = handle_collab_agent_interaction_begin uuid p prompt"
| "handle_event lib uuid (CollabAgentInteractionEndEvent p prompt) = handle_collab_agent_interaction_end uuid p prompt"
| "handle_event lib uuid (SubAgentActivityEvent i t p k) = handle_sub_agent_activity uuid i t p k"
| "handle_event lib uuid (CollabWaitingBeginEvent i s rs) = handle_collab_waiting_begin uuid i s rs"
| "handle_event lib uuid (CollabWaitingEndEvent i s sts) = handle_collab_waiting_end uuid i s sts"
| "handle_event lib uuid (CollabCloseBeginEvent p) = handle_collab_close_begin uuid p"
| "handle_event lib uuid (CollabCloseEndEvent p) = handle_collab_close_end uuid p"
| "handle_event lib uuid (CollabResumeBeginEvent p) = handle_collab_resume_begin uuid p"
| "handle_event lib uuid (CollabResumeEndEvent p) = handle_collab_resume_end uuid p"
| "handle_event lib uuid ContextCompactedEvent = handle_context_compacted uuid"
| "handle_event lib uuid (EnteredReviewModeEvent hint) = handle_entered_review_mode uuid hint"
| "handle_event lib uuid (ExitedReviewModeEvent e) = handle_exited_review_mode uuid e"
| "handle_event lib uuid (ItemStartedEvent t it) = handle_item_started t it"
| "handle_event lib uuid (ItemCompletedEvent t it) = handle_item_completed t it"
| "handle_event lib uuid (ErrorEvent m info) = handle_error m info"
| "handle_event lib uuid (ThreadRolledBackEvent n) = handle_thread_rollback n"
| "handle_event lib uuid (TurnAbortedEvent i c d) = handle_turn_aborted i c d"
| "handle_event lib uuid (TurnStartedEvent i s) = handle_turn_started uuid i s"
| "handle_event lib uuid (TurnCompleteEvent i c d) = handle_turn_complete i c d"
| "handle_event lib uuid OtherEvent = (\<lambda>b. b)"

definition handle_rollout_item :: "item_lib \<Rightarrow> string \<times> rollout_item \<Rightarrow> thread_builder \<Rightarrow> thread_builder" where
  "handle_rollout_item lib ui b =
     (let b = b\<lparr>tb_rollout := tb_next_rollout b, tb_next_rollout := Suc (tb_next_rollout b)\<rparr>
      in case snd ui of
           RolloutEvent e \<Rightarrow> handle_event lib (fst ui) e b
         | RolloutCompacted \<Rightarrow> handle_compacted (fst ui) b
         | RolloutResponseItem it \<Rightarrow> handle_response_item lib (fst ui) it b
         | RolloutOther \<Rightarrow> b)"

definition build_turns_from_rollout_items :: "item_lib \<Rightarrow> (string \<times> rollout_item) list \<Rightarrow> thread_turn list" where
  "build_turns_from_rollout_items lib items = finish_builder (fold (handle_rollout_item lib) items new_builder)"

definition collect_changes :: "(thread_builder \<Rightarrow> thread_builder) \<Rightarrow> thread_builder \<Rightarrow> change_set \<times> thread_builder" where
  "collect_changes f b =
     (let b = f (b\<lparr>tb_changes := Some no_changes\<rparr>)
      in (case tb_changes b of Some c \<Rightarrow> c | None \<Rightarrow> no_changes, b\<lparr>tb_changes := None\<rparr>))"

definition handle_event_with_changes :: "item_lib \<Rightarrow> string \<Rightarrow> event_msg \<Rightarrow> thread_builder \<Rightarrow> change_set \<times> thread_builder" where
  "handle_event_with_changes lib uuid e = collect_changes (handle_event lib uuid e)"

definition handle_rollout_item_with_changes :: "item_lib \<Rightarrow> string \<times> rollout_item \<Rightarrow> thread_builder \<Rightarrow> change_set \<times> thread_builder" where
  "handle_rollout_item_with_changes lib ui = collect_changes (handle_rollout_item lib ui)"
subsection \<open>Coalescing the changes of a batch\<close>

record change_accumulator =
  ca_items :: "item_change option list"
  ca_item_index :: "(string \<times> string, nat) hash_map"
  ca_turns :: "turn_change option list"
  ca_turn_index :: "(string, nat) hash_map"
  ca_removed :: "string list"
  ca_removed_index :: "(string, nat) hash_map"

definition new_accumulator :: change_accumulator where
  "new_accumulator = \<lparr>ca_items = [], ca_item_index = [], ca_turns = [], ca_turn_index = [], ca_removed = [], ca_removed_index = []\<rparr>"

definition item_change_key :: "item_change \<Rightarrow> string \<times> string" where
  "item_change_key c = (ic_turn_id c, item_id (ic_item c))"

definition push_item_change :: "item_change \<Rightarrow> change_accumulator \<Rightarrow> change_accumulator" where
  "push_item_change c a =
     (case hm_get (ca_item_index a) (item_change_key c) of
        Some k \<Rightarrow> a\<lparr>ca_items := (ca_items a)[k := Some c]\<rparr>
      | None \<Rightarrow> a\<lparr>ca_item_index := hm_insert (item_change_key c) (length (ca_items a)) (ca_item_index a),
                   ca_items := ca_items a @ [Some c]\<rparr>)"

definition push_turn_change :: "turn_change \<Rightarrow> change_accumulator \<Rightarrow> change_accumulator" where
  "push_turn_change c a =
     (case hm_get (ca_turn_index a) (tc_turn_id c) of
        Some k \<Rightarrow> a\<lparr>ca_turns := (ca_turns a)[k := Some c]\<rparr>
      | None \<Rightarrow> a\<lparr>ca_turn_index := hm_insert (tc_turn_id c) (length (ca_turns a)) (ca_turn_index a),
                   ca_turns := ca_turns a @ [Some c]\<rparr>)"

definition drop_turn_change :: "string \<Rightarrow> change_accumulator \<Rightarrow> change_accumulator" where
  "drop_turn_change i a =
     (case hm_get (ca_turn_index a) i of
        Some k \<Rightarrow> a\<lparr>ca_turn_index := hm_remove i (ca_turn_index a), ca_turns := (ca_turns a)[k := None]\<rparr>
      | None \<Rightarrow> a)"

definition drop_item_change :: "string \<times> string \<Rightarrow> change_accumulator \<Rightarrow> change_accumulator" where
  "drop_item_change key a =
     (case hm_get (ca_item_index a) key of
        Some k \<Rightarrow> a\<lparr>ca_item_index := hm_remove key (ca_item_index a), ca_items := (ca_items a)[k := None]\<rparr>
      | None \<Rightarrow> a)"

definition push_removed_turn_id :: "string \<Rightarrow> change_accumulator \<Rightarrow> change_accumulator" where
  "push_removed_turn_id i a =
     (let a = (if hm_contains i (ca_removed_index a) then a
               else a\<lparr>ca_removed_index := hm_insert i (length (ca_removed a)) (ca_removed_index a), ca_removed := ca_removed a @ [i]\<rparr>);
          a = drop_turn_change i a;
          keys = filter (\<lambda>(j, _). j = i) (map fst (ca_item_index a))
      in fold drop_item_change keys a)"

definition accumulator_push :: "change_set \<Rightarrow> change_accumulator \<Rightarrow> change_accumulator" where
  "accumulator_push cs a =
     fold push_turn_change (cs_turns cs) (fold push_item_change (cs_items cs) (fold push_removed_turn_id (cs_removed cs) a))"

definition accumulator_finish :: "change_accumulator \<Rightarrow> change_set" where
  "accumulator_finish a =
     \<lparr>cs_items = List.map_filter (\<lambda>c. c) (ca_items a), cs_turns = List.map_filter (\<lambda>c. c) (ca_turns a), cs_removed = ca_removed a\<rparr>"

definition push_rollout_item ::
    "item_lib \<Rightarrow> string \<times> rollout_item \<Rightarrow> change_accumulator \<times> thread_builder \<Rightarrow> change_accumulator \<times> thread_builder" where
  "push_rollout_item lib ui ab =
     (let (cs, b) = handle_rollout_item_with_changes lib ui (snd ab) in (accumulator_push cs (fst ab), b))"

definition handle_rollout_items_with_changes ::
    "item_lib \<Rightarrow> (string \<times> rollout_item) list \<Rightarrow> thread_builder \<Rightarrow> change_set \<times> thread_builder" where
  "handle_rollout_items_with_changes lib items b =
     (let (a, b) = fold (push_rollout_item lib) items (new_accumulator, b) in (accumulator_finish a, b))"
end
