(* ===== verification/Thread_Steps.thy ===== *)
theory Thread_Steps
  imports Thread_History
begin

text \<open>
  What every handler of the thread history does, as a step relation of thirteen rules: the forty kinds of events are each one of them
  (\<open>handle_event_step\<close>), so a law of the history is proved for the rules and holds of every event. A step is labelled with the id
  that the event brings from outside.
\<close>

subsection \<open>The kinds of steps\<close>

datatype history_label =
  Quiet
| NamesItem string
| HookItem string
| StartsTurn string

fun turn_item_label :: "turn_item \<Rightarrow> history_label" where
  "turn_item_label (TurnPlan i txt) = (if txt = [] then Quiet else NamesItem i)"
| "turn_item_label (TurnSleep i _) = NamesItem i"
| "turn_item_label _ = Quiet"

definition guardian_label :: "guardian_event \<Rightarrow> history_label" where
  "guardian_label p = (case ga_target_item_id p of Some i \<Rightarrow> NamesItem i | None \<Rightarrow> Quiet)"

text \<open>The id an event brings from outside: of an item, of a hook prompt or of a turn.\<close>

fun event_label :: "event_msg \<Rightarrow> history_label" where
  "event_label (WebSearchBeginEvent i) = NamesItem i"
| "event_label (WebSearchEndEvent i _ _) = NamesItem i"
| "event_label (ExecCommandBeginEvent p) = NamesItem (eb_call_id p)"
| "event_label (ExecCommandEndEvent p) = NamesItem (ee_call_id p)"
| "event_label (GuardianAssessmentEvent p) = guardian_label p"
| "event_label (ApplyPatchApprovalRequestEvent p) = NamesItem (pa_call_id p)"
| "event_label (PatchApplyBeginEvent p) = NamesItem (pa_call_id p)"
| "event_label (PatchApplyEndEvent p _) = NamesItem (pa_call_id p)"
| "event_label (DynamicToolCallRequestEvent p) = NamesItem (dq_call_id p)"
| "event_label (DynamicToolCallResponseEvent p) = NamesItem (dr_call_id p)"
| "event_label (McpToolCallBeginEvent p) = NamesItem (mb_call_id p)"
| "event_label (McpToolCallEndEvent p) = NamesItem (mb_call_id p)"
| "event_label (ViewImageToolCallEvent i _) = NamesItem i"
| "event_label (ImageGenerationBeginEvent i) = NamesItem i"
| "event_label (ImageGenerationEndEvent g) = NamesItem (ig_call_id g)"
| "event_label (CollabAgentSpawnBeginEvent i _ _ _ _) = NamesItem i"
| "event_label (CollabAgentSpawnEndEvent i _ _ _ _ _ _) = NamesItem i"
| "event_label (CollabAgentInteractionBeginEvent p _) = NamesItem (cb_call_id p)"
| "event_label (CollabAgentInteractionEndEvent p _) = NamesItem (cb_call_id p)"
| "event_label (SubAgentActivityEvent i _ _ _) = NamesItem i"
| "event_label (CollabWaitingBeginEvent i _ _) = NamesItem i"
| "event_label (CollabWaitingEndEvent i _ _) = NamesItem i"
| "event_label (CollabCloseBeginEvent p) = NamesItem (cb_call_id p)"
| "event_label (CollabCloseEndEvent p) = NamesItem (cb_call_id p)"
| "event_label (CollabResumeBeginEvent p) = NamesItem (cb_call_id p)"
| "event_label (CollabResumeEndEvent p) = NamesItem (cb_call_id p)"
| "event_label (ItemStartedEvent _ it) = turn_item_label it"
| "event_label (ItemCompletedEvent _ it) = turn_item_label it"
| "event_label (TurnStartedEvent i _) = StartsTurn i"
| "event_label _ = Quiet"

definition rollout_label :: "item_lib \<Rightarrow> string \<times> rollout_item \<Rightarrow> history_label" where
  "rollout_label lib ui =
     (case snd ui of
        RolloutEvent e \<Rightarrow> event_label e
      | RolloutResponseItem (ResponseMessage i role content) \<Rightarrow>
          (case parse_hook_prompt_message lib (fst ui) i content of
             Some (hid, _) \<Rightarrow> if role = ''user'' then HookItem hid else Quiet
           | None \<Rightarrow> Quiet)
      | _ \<Rightarrow> Quiet)"

text \<open>One step of a replay, as the handlers make it.\<close>

definition push_generated :: "string \<Rightarrow> (string \<Rightarrow> thread_item) \<Rightarrow> thread_builder \<Rightarrow> thread_builder" where
  "push_generated uuid mk b = (let (i, b) = next_item_id b in push_item_in_current_turn uuid (mk i) b)"

definition same_turn :: "pending_turn \<Rightarrow> pending_turn \<Rightarrow> bool" where
  "same_turn t u = (pt_id u = pt_id t \<and> pt_items u = pt_items t \<and> pt_opened_explicitly u = pt_opened_explicitly t
     \<and> pt_saw_compaction u = pt_saw_compaction t)"

definition change_current_turn :: "pending_turn \<Rightarrow> thread_builder \<Rightarrow> thread_builder" where
  "change_current_turn u b = record_changed_turn (from_pending_turn u) (b\<lparr>tb_current := Some u\<rparr>)"

inductive history_step :: "history_label \<Rightarrow> thread_builder \<Rightarrow> thread_builder \<Rightarrow> bool" where
  step_none: "history_step l b b"
| step_generated: "(\<And>i. item_id (mk i) = i) \<Longrightarrow> history_step l b (push_generated uuid mk b)"
| step_message: "(\<And>i. item_id (mk i) = i) \<Longrightarrow> history_step l b (push_generated uuid mk (finish_current_turn b))"
| step_hook: "history_step (HookItem i) b (push_item_in_current_turn uuid (HookPrompt i fs) b)"
| step_upsert: "history_step (NamesItem (item_id x)) b (upsert_item_in_current_turn uuid x b)"
| step_upsert_in: "history_step (NamesItem (item_id x)) b (upsert_item_in_turn_id i x b)"
| step_reasoning: "tb_current b = Some t \<Longrightarrow> pt_items t = xs @ [x] \<Longrightarrow> item_id y = item_id x \<Longrightarrow>
    history_step l b (record_changed_item (pt_id t) y (b\<lparr>tb_current := Some (t\<lparr>pt_items := xs @ [y]\<rparr>)\<rparr>))"
| step_touched: "tb_current b = Some t \<Longrightarrow> same_turn t u \<Longrightarrow> history_step l b (change_current_turn u b)"
| step_closed: "tb_current b = Some t \<Longrightarrow> same_turn t u \<Longrightarrow> history_step l b (finish_current_turn (change_current_turn u b))"
| step_finished: "(\<And>t. tt_id (f t) = tt_id t \<and> tt_items (f t) = tt_items t \<and> tt_view (f t) = tt_view t) \<Longrightarrow>
    history_step l b (change_finished_turn i f b)"
| step_started: "history_step (StartsTurn i) b (handle_turn_started uuid i s b)"
| step_compacted: "history_step l b (handle_compacted uuid b)"
| step_rolled_back: "history_step l b (handle_thread_rollback n b)"

lemma upsert_item_by_turn_step: "item_id x = i \<Longrightarrow> history_step (NamesItem i) b (upsert_item_by_turn uuid j x b)"
  unfolding upsert_item_by_turn_def by (auto intro: step_upsert step_upsert_in)

lemma upsert_current_step: "item_id x = i \<Longrightarrow> history_step (NamesItem i) b (upsert_item_in_current_turn uuid x b)"
  by (auto intro: step_upsert)

lemma upsert_in_step: "item_id x = i \<Longrightarrow> history_step (NamesItem i) b (upsert_item_in_turn_id j x b)"
  by (auto intro: step_upsert_in)

lemma guardian_item_id:
  "build_item_from_guardian_event lib p st = Some x \<Longrightarrow> ga_target_item_id p = Some (item_id x)"
  unfolding build_item_from_guardian_event_def guardian_command_item_def Let_def
  by (auto split: guardian_action.splits)

lemma guardian_step: "history_step (guardian_label p) b (handle_guardian_assessment lib uuid p b)"
  unfolding handle_guardian_assessment_def guardian_label_def
  by (auto split: option.splits intro!: step_none upsert_item_by_turn_step dest!: guardian_item_id)

lemma turn_item_step:
  "history_step (turn_item_label it) b (handle_item_started i it b)"
  "history_step (turn_item_label it) b (handle_item_completed i it b)"
  unfolding handle_item_started_def handle_item_completed_def
  by (auto split: turn_item.splits intro: step_none upsert_in_step)

lemma user_message_step: "history_step l b (handle_user_message uuid p b)"
proof -
  let ?mk = "\<lambda>i. UserMessage i (um_client_id p) (build_user_inputs p)"
  have "handle_user_message uuid p b = push_generated uuid ?mk b \<or>
        handle_user_message uuid p b = push_generated uuid ?mk (finish_current_turn b)"
    unfolding handle_user_message_def push_generated_def Let_def by (simp split: option.splits)
  then show ?thesis using step_generated [of ?mk] step_message [of ?mk] by auto
qed

lemma generated_step:
  "history_step l b (handle_agent_message uuid txt phase c b)"
  "history_step l b (handle_context_compacted uuid b)"
  "history_step l b (handle_entered_review_mode uuid hint b)"
  "history_step l b (handle_exited_review_mode uuid e b)"
  using step_generated [of "\<lambda>i. AgentMessage i txt phase c"] step_generated [of ContextCompaction]
    step_generated [of "\<lambda>i. EnteredReviewMode i (case hint of Some h \<Rightarrow> h | None \<Rightarrow> ''Review requested.'')"]
    step_generated [of "\<lambda>i. ExitedReviewMode i (case e of Some e \<Rightarrow> render_review_output_text e | None \<Rightarrow> review_fallback_message)"]
  by (simp_all add: handle_agent_message_def handle_context_compacted_def handle_entered_review_mode_def
      handle_exited_review_mode_def push_generated_def step_none)

lemma extend_last_reasoning_Some:
  assumes "extend_last_reasoning f g xs = Some y"
  shows "xs \<noteq> [] \<and> item_id y = item_id (last xs)"
  using assms unfolding extend_last_reasoning_def by (auto split: if_splits thread_item.splits)

lemma add_reasoning_step: "history_step l b (add_reasoning uuid f g b)"
proof (cases "tb_current b")
  case None
  let ?mk = "\<lambda>i. Reasoning i (f []) (g [])"
  have "add_reasoning uuid f g b = push_generated uuid ?mk b"
    using None unfolding add_reasoning_def push_generated_def push_item_in_current_turn_def next_item_id_def
    by (simp add: ensure_turn_def extend_last_reasoning_def new_turn_def Let_def record_changed_pending_turn_def
        record_changed_turn_def record_changed_item_def is_tracking_changes_def)
  then show ?thesis using step_generated [of ?mk] by simp
next
  case (Some t)
  let ?mk = "\<lambda>i. Reasoning i (f []) (g [])"
  show ?thesis
  proof (cases "extend_last_reasoning f g (pt_items t)")
    case None
    then have "add_reasoning uuid f g b = push_generated uuid ?mk b"
      using Some unfolding add_reasoning_def push_generated_def by (simp add: ensure_turn_def)
    then show ?thesis using step_generated [of ?mk] by simp
  next
    case (Some y)
    have y: "pt_items t = butlast (pt_items t) @ [last (pt_items t)]" "item_id y = item_id (last (pt_items t))"
      using extend_last_reasoning_Some [OF Some] by auto
    have "add_reasoning uuid f g b =
        record_changed_item (pt_id t) y (b\<lparr>tb_current := Some (t\<lparr>pt_items := butlast (pt_items t) @ [y]\<rparr>)\<rparr>)"
      using \<open>tb_current b = Some t\<close> Some unfolding add_reasoning_def by (simp add: ensure_turn_def)
    then show ?thesis using step_reasoning [OF \<open>tb_current b = Some t\<close> y] by simp
  qed
qed

lemma reasoning_step:
  "history_step l b (handle_agent_reasoning uuid txt b)"
  "history_step l b (handle_agent_reasoning_raw_content uuid txt b)"
  unfolding handle_agent_reasoning_def handle_agent_reasoning_raw_content_def by (auto intro: step_none add_reasoning_step)

lemma error_step: "history_step l b (handle_error m info b)"
  unfolding handle_error_def Let_def
  by (auto split: option.splits intro!: step_none step_touched [unfolded change_current_turn_def] simp: same_turn_def)

lemma aborted_step: "history_step l b (handle_turn_aborted i c d b)"
  unfolding handle_turn_aborted_def abort_current_turn_def Let_def
  by (auto split: option.splits intro!: step_none step_finished step_touched [unfolded change_current_turn_def] simp: same_turn_def)

lemma complete_step: "history_step l b (handle_turn_complete i c d b)"
  unfolding handle_turn_complete_def complete_current_turn_def Let_def
  by (auto split: option.splits intro!: step_none step_finished step_closed [unfolded change_current_turn_def] simp: same_turn_def)

lemmas event_steps = upsert_item_by_turn_step upsert_current_step upsert_in_step guardian_step turn_item_step user_message_step
  generated_step reasoning_step error_step aborted_step complete_step step_started step_compacted step_rolled_back step_none

lemmas tool_handler_defs = handle_web_search_begin_def handle_web_search_end_def handle_exec_command_begin_def
  handle_exec_command_end_def handle_apply_patch_approval_request_def handle_patch_apply_begin_def handle_patch_apply_end_def
  handle_dynamic_tool_call_request_def handle_dynamic_tool_call_response_def handle_mcp_tool_call_begin_def
  handle_mcp_tool_call_end_def handle_view_image_tool_call_def handle_image_generation_begin_def handle_image_generation_end_def
  handle_collab_agent_spawn_begin_def handle_collab_agent_spawn_end_def handle_collab_agent_interaction_begin_def
  handle_collab_agent_interaction_end_def handle_sub_agent_activity_def handle_collab_waiting_begin_def
  handle_collab_waiting_end_def handle_collab_close_begin_def handle_collab_close_end_def handle_collab_resume_begin_def
  handle_collab_resume_end_def build_command_execution_begin_item_def build_command_execution_end_item_def
  build_file_change_approval_request_item_def build_file_change_begin_item_def build_file_change_end_item_def
  collab_begin_item_def collab_end_item_def

lemma handle_event_step: "history_step (event_label e) b (handle_event lib uuid e b)"
  by (cases e) (simp_all add: tool_handler_defs event_steps)

lemma history_step_counters:
  assumes "history_step l b b'"
  shows "tb_rollout b' = tb_rollout b \<and> tb_next_rollout b' = tb_next_rollout b \<and> (tb_changes b' = None \<longleftrightarrow> tb_changes b = None)"
proof -
  have ensure: "tb_rollout c = tb_rollout b \<and> tb_next_rollout c = tb_next_rollout b \<and> (tb_changes c = None \<longleftrightarrow> tb_changes b = None)"
    if "ensure_turn uuid b = (t, c)" for uuid b t c
    using that by (auto simp: ensure_turn_def record_changed_pending_turn_def record_changed_turn_def Let_def split: option.splits if_splits)
  have fin: "tb_rollout (finish_current_turn b) = tb_rollout b \<and> tb_next_rollout (finish_current_turn b) = tb_next_rollout b
      \<and> tb_changes (finish_current_turn b) = tb_changes b" for b
    by (simp add: finish_current_turn_def split: option.splits)
  show ?thesis
    using assms
    by cases (auto simp: push_generated_def next_item_id_def push_item_in_current_turn_def upsert_item_in_current_turn_def
        upsert_item_in_turn_id_def upsert_item_in_finished_turn_def record_changed_item_def record_changed_turn_def change_current_turn_def
        change_finished_turn_def handle_turn_started_def record_changed_pending_turn_def handle_compacted_def handle_thread_rollback_def
        record_removed_turn_ids_def fin Let_def split: prod.splits option.splits dest: ensure)
qed

lemma handle_rollout_item_step:
  "history_step (rollout_label lib ui) (b\<lparr>tb_rollout := tb_next_rollout b, tb_next_rollout := Suc (tb_next_rollout b)\<rparr>)
     (handle_rollout_item lib ui b)"
  unfolding handle_rollout_item_def rollout_label_def handle_response_item_def Let_def
  by (auto intro: handle_event_step step_compacted step_none step_hook split: rollout_item.splits response_item.splits option.splits)

text \<open>An instance of what the builders take from elsewhere, for examples.\<close>

definition example_lib :: item_lib where
  "example_lib =
     \<lparr>il_shell = \<lparr>sl_parse = (\<lambda>_. None), sl_split = (\<lambda>_. None), sl_try_join = (\<lambda>ws. Some (concat ws))\<rparr>, il_paths = example_paths,
      il_is_native = (\<lambda>_. True), il_uri_to_abs = (\<lambda>_. None), il_uri_to_legacy = (\<lambda>s. s), il_abs_to_legacy = path_to_string,
      il_hook_xml = (\<lambda>s. Some (''hook-1'', s))\<rparr>"

end
