(* ===== verification/Thread_Names.thy ===== *)
theory Thread_Names
  imports Thread_Steps
begin

text \<open>
  The ids of a history and a reader of its changes. \<open>names_ok\<close> is the invariant of the ids: turns and the items of a turn are
  distinct, and a generated id is at most the number of items up to the end of its turn, which is why a rollback can set the
  counter back. \<open>apply_change_set\<close> is what a client does with a change set.
\<close>

subsection \<open>Names\<close>

text \<open>The ids of turns and items, without the rest.\<close>

type_synonym history_shape = "(string \<times> string list) list"

definition snapshot :: "thread_builder \<Rightarrow> thread_turn list" where
  "snapshot b = tb_turns b @ (case tb_current b of Some t \<Rightarrow> [turn_of_pending t] | None \<Rightarrow> [])"

definition shape_of :: "thread_turn list \<Rightarrow> history_shape" where
  "shape_of ts = map (\<lambda>t. (tt_id t, map item_id (tt_items t))) ts"

definition all_names :: "history_shape \<Rightarrow> string list" where
  "all_names sh = concat (map snd sh)"

definition is_digit_char :: "char \<Rightarrow> bool" where
  "is_digit_char c = (48 \<le> (of_char c :: nat) \<and> (of_char c :: nat) < 58)"

definition generated_form :: "string \<Rightarrow> bool" where
  "generated_form x = (take 5 x = ''item-'' \<and> list_all is_digit_char (drop 5 x))"

definition gen_index :: "string \<Rightarrow> nat" where
  "gen_index x = read_nat (drop 5 x)"

definition rollout_form :: "string \<Rightarrow> bool" where
  "rollout_form x = (take 8 x = ''rollout-'' \<and> list_all is_digit_char (drop 8 x))"

definition rollout_number :: "string \<Rightarrow> nat" where
  "rollout_number x = read_nat (drop 8 x)"

lemma digit_char_is_digit: "d < 10 \<Longrightarrow> is_digit_char (digit_char d)"
proof -
  assume "d < 10"
  then have "(of_char (char_of (48 + d)) :: nat) = 48 + d" by (subst of_char_of) simp
  with \<open>d < 10\<close> show ?thesis by (simp add: is_digit_char_def digit_char_def)
qed

lemma show_nat_digits: "list_all is_digit_char (show_nat n)"
proof (induction n rule: show_nat.induct)
  case (1 n)
  then show ?case by (subst show_nat.simps) (auto simp: digit_char_is_digit)
qed

lemma item_name_generated [simp]: "generated_form (item_name (int n))" "gen_index (item_name (int n)) = n"
  by (simp_all add: generated_form_def gen_index_def item_name_def show_int_def show_nat_digits read_show_nat)

lemma rollout_turn_id_form [simp]: "rollout_form (rollout_turn_id n)" "rollout_number (rollout_turn_id n) = n"
  by (simp_all add: rollout_form_def rollout_number_def rollout_turn_id_def show_nat_digits read_show_nat)

text \<open>A generated id is at most the number of items up to the end of its turn.\<close>

fun bounded_names :: "nat \<Rightarrow> history_shape \<Rightarrow> bool" where
  "bounded_names c [] = True"
| "bounded_names c ((i, xs) # sh) =
     ((\<forall>x\<in>set xs. generated_form x \<longrightarrow> gen_index x \<le> c + length xs) \<and> bounded_names (c + length xs) sh)"

definition names_ok :: "string set \<times> string set \<Rightarrow> nat \<Rightarrow> nat \<Rightarrow> history_shape \<Rightarrow> bool" where
  "names_ok K nx m sh =
     ((\<forall>x\<in>set (all_names sh). generated_form x \<or> x \<in> fst K) \<and> (\<forall>i\<in>set (map fst sh). rollout_form i \<or> i \<in> snd K)
      \<and> distinct (map fst sh) \<and> (\<forall>i\<in>set (map fst sh). rollout_form i \<longrightarrow> rollout_number i < m)
      \<and> (\<forall>xs\<in>set (map snd sh). distinct xs)
      \<and> bounded_names 0 sh
      \<and> (\<forall>x\<in>set (all_names sh). generated_form x \<longrightarrow> gen_index x < nx)
      \<and> distinct (filter generated_form (all_names sh))
      \<and> 1 \<le> nx \<and> nx \<le> length (all_names sh) + 1)"

lemma all_names_simps [simp]:
  "all_names [] = []" "all_names (p # sh) = snd p @ all_names sh" "all_names (sh @ sh') = all_names sh @ all_names sh'"
  by (simp_all add: all_names_def)

lemma bounded_names_mono: "bounded_names c sh \<Longrightarrow> c \<le> d \<Longrightarrow> bounded_names d sh"
  by (induction c sh arbitrary: d rule: bounded_names.induct) fastforce+

lemma bounded_names_append:
  "bounded_names c (sh @ sh') \<longleftrightarrow> bounded_names c sh \<and> bounded_names (c + length (all_names sh)) sh'"
  by (induction c sh rule: bounded_names.induct) (auto simp: add.assoc)

lemma bounded_names_limit:
  "bounded_names c sh \<Longrightarrow> x \<in> set (all_names sh) \<Longrightarrow> generated_form x \<Longrightarrow> gen_index x \<le> c + length (all_names sh)"
proof (induction c sh rule: bounded_names.induct)
  case (2 c i xs sh)
  then show ?case by (cases "x \<in> set xs") (fastforce intro: le_trans)+
qed simp

lemma names_new_turn:
  assumes "names_ok K nx m sh" "i \<notin> set (map fst sh)" "rollout_form i \<longrightarrow> rollout_number i < m'" "m \<le> m'"
    "rollout_form i \<or> i \<in> snd K"
  shows "names_ok K nx m' (sh @ [(i, [])])"
  using assms unfolding names_ok_def by (auto simp: bounded_names_append)

lemma names_later: "names_ok K nx m sh \<Longrightarrow> m \<le> m' \<Longrightarrow> names_ok K nx m' sh"
  unfolding names_ok_def by auto

lemma names_mono: "names_ok K nx m sh \<Longrightarrow> fst K \<subseteq> fst K' \<Longrightarrow> snd K \<subseteq> snd K' \<Longrightarrow> names_ok K' nx m sh"
  unfolding names_ok_def by blast

lemma names_add:
  assumes ok: "names_ok K nx m (sh @ (i, xs) # sh')" and x: "x \<notin> set xs" "\<not> generated_form x" "x \<in> fst K"
  shows "names_ok K nx m (sh @ (i, xs @ [x]) # sh')"
proof -
  from ok have "bounded_names 0 (sh @ (i, xs) # sh')" by (simp add: names_ok_def)
  then have "bounded_names 0 (sh @ (i, xs @ [x]) # sh')"
    using x by (auto simp: bounded_names_append elim!: bounded_names_mono)
  with ok x show ?thesis unfolding names_ok_def by auto
qed

lemma names_push:
  assumes ok: "names_ok K nx m (sh @ [(i, xs)])"
  shows "names_ok K (nx + 1) m (sh @ [(i, xs @ [item_name (int nx)])])"
proof -
  let ?x = "item_name (int nx)"
  have fresh: "?x \<notin> set (all_names (sh @ [(i, xs)]))"
    using ok unfolding names_ok_def by (metis item_name_generated less_irrefl)
  moreover have "bounded_names 0 (sh @ [(i, xs @ [?x])])"
    using ok unfolding names_ok_def by (fastforce simp: bounded_names_append)
  ultimately show ?thesis using ok unfolding names_ok_def by (auto simp: less_Suc_eq)
qed

lemma names_take:
  assumes "names_ok K nx m sh"
  shows "names_ok K (length (all_names (take k sh)) + 1) m (take k sh)"
proof -
  have sh: "sh = take k sh @ drop k sh" by simp
  have b: "bounded_names 0 (take k sh)" "distinct (filter generated_form (all_names (take k sh)))"
    using assms unfolding names_ok_def by (metis sh bounded_names_append, metis sh all_names_simps(3) filter_append distinct_append)
  have "set (map fst (take k sh)) \<subseteq> set (map fst sh)" "set (map snd (take k sh)) \<subseteq> set (map snd sh)"
    "set (all_names (take k sh)) \<subseteq> set (all_names sh)"
    using set_take_subset [of k sh] by (auto simp: all_names_def)
  moreover have "distinct (map fst (take k sh))" using assms unfolding names_ok_def by (simp add: take_map [symmetric])
  ultimately show ?thesis
    using b assms bounded_names_limit [OF b(1)] unfolding names_ok_def by (auto simp del: set_map simp: less_Suc_eq_le)
qed

lemma names_empty: "names_ok K 1 0 []"
  by (simp add: names_ok_def)

subsection \<open>A reader of changes\<close>

text \<open>
  What a projector keeps: the turns. A change set is applied in the order the documentation of the accumulator implies, first
  the removals, then the turns, then the items; a turn or an item replaces the one with its id or is added at the end.
\<close>

definition set_turn_metadata :: "turn_change \<Rightarrow> thread_turn \<Rightarrow> thread_turn" where
  "set_turn_metadata c t =
     t\<lparr>tt_status := tc_status c, tt_error := tc_error c, tt_started_at := tc_started_at c,
       tt_completed_at := tc_completed_at c, tt_duration_ms := tc_duration_ms c\<rparr>"

definition turn_of_change :: "turn_change \<Rightarrow> thread_turn" where
  "turn_of_change c =
     \<lparr>tt_id = tc_turn_id c, tt_items = [], tt_view = ItemsFull, tt_status = tc_status c, tt_error = tc_error c,
      tt_started_at = tc_started_at c, tt_completed_at = tc_completed_at c, tt_duration_ms = tc_duration_ms c\<rparr>"

definition view_turn :: "turn_change \<Rightarrow> thread_turn list \<Rightarrow> thread_turn list" where
  "view_turn c v =
     (if list_ex (\<lambda>t. tt_id t = tc_turn_id c) v then update_first (\<lambda>t. tt_id t = tc_turn_id c) (set_turn_metadata c) v
      else v @ [turn_of_change c])"

definition view_item :: "item_change \<Rightarrow> thread_turn list \<Rightarrow> thread_turn list" where
  "view_item c v =
     update_first (\<lambda>t. tt_id t = ic_turn_id c) (\<lambda>t. t\<lparr>tt_items := upsert_turn_item (tt_items t) (ic_item c)\<rparr>) v"

definition view_removed :: "string list \<Rightarrow> thread_turn list \<Rightarrow> thread_turn list" where
  "view_removed ids v = filter (\<lambda>t. tt_id t \<notin> set ids) v"

definition apply_change_set :: "change_set \<Rightarrow> thread_turn list \<Rightarrow> thread_turn list" where
  "apply_change_set cs v = fold view_item (cs_items cs) (fold view_turn (cs_turns cs) (view_removed (cs_removed cs) v))"

definition synced :: "thread_turn list \<Rightarrow> thread_builder \<Rightarrow> bool" where
  "synced v b =
     (case tb_changes b of
        Some cs \<Rightarrow> apply_change_set cs v = snapshot b \<and> (\<forall>c\<in>set (cs_items cs). ic_turn_id c \<in> set (map tt_id (snapshot b)))
      | None \<Rightarrow> True)"

definition items_quiet :: "thread_builder \<Rightarrow> bool" where
  "items_quiet b = (case tb_changes b of Some cs \<Rightarrow> cs_items cs = [] | None \<Rightarrow> True)"

definition all_quiet :: "thread_builder \<Rightarrow> bool" where
  "all_quiet b = (case tb_changes b of Some cs \<Rightarrow> cs = no_changes | None \<Rightarrow> True)"

lemma all_quiet_items: "all_quiet b \<Longrightarrow> items_quiet b"
  by (simp add: all_quiet_def items_quiet_def no_changes_def split: option.splits)

lemma apply_no_changes [simp]: "apply_change_set no_changes v = v"
  by (simp add: apply_change_set_def no_changes_def view_removed_def)

subsection \<open>Lists of turns\<close>

lemma update_first_append:
  "update_first p f (xs @ ys) = (if list_ex p xs then update_first p f xs @ ys else xs @ update_first p f ys)"
  by (induction xs) auto

lemma update_first_absent: "\<not> list_ex p xs \<Longrightarrow> update_first p f xs = xs"
  by (induction xs) auto

lemma update_first_cong: "(\<And>x. x \<in> set xs \<Longrightarrow> p x \<Longrightarrow> f x = g x) \<Longrightarrow> update_first p f xs = update_first p g xs"
  by (induction xs) auto

lemma position_None: "position p xs = None \<longleftrightarrow> (\<forall>x\<in>set xs. \<not> p x)"
  by (induction xs) auto

lemma position_Some: "position p xs = Some k \<Longrightarrow> k < length xs \<and> p (xs ! k) \<and> (\<forall>j<k. \<not> p (xs ! j))"
proof (induction xs arbitrary: k)
  case (Cons x xs)
  then show ?case by (auto split: if_splits simp: nth_Cons split: nat.splits)
qed simp

lemma upsert_turn_item_fresh: "item_id x \<notin> set (map item_id xs) \<Longrightarrow> upsert_turn_item xs x = xs @ [x]"
proof -
  assume "item_id x \<notin> set (map item_id xs)"
  then have "position (\<lambda>e. item_id e = item_id x) xs = None" by (auto simp: position_None image_iff)
  then show ?thesis by (simp add: upsert_turn_item_def)
qed

lemma upsert_turn_item_names:
  "map item_id (upsert_turn_item xs x) = (if item_id x \<in> set (map item_id xs) then map item_id xs else map item_id xs @ [item_id x])"
proof (cases "position (\<lambda>e. item_id e = item_id x) xs")
  case None
  then have "item_id x \<notin> set (map item_id xs)" by (auto simp: position_None image_iff)
  then show ?thesis by (simp add: upsert_turn_item_fresh)
next
  case (Some k)
  note k = position_Some [OF Some]
  then have "map item_id (xs[k := x]) = map item_id xs" by (simp add: map_update list_update_same_conv)
  moreover have "item_id x \<in> set (map item_id xs)" using k by (metis in_set_conv_nth length_map nth_map)
  ultimately show ?thesis using Some by (simp add: upsert_turn_item_def)
qed

lemma upsert_turn_item_last:
  assumes "item_id y = item_id x" "distinct (map item_id (xs @ [x]))"
  shows "upsert_turn_item (xs @ [x]) y = xs @ [y]"
proof -
  have "position (\<lambda>e. item_id e = item_id y) (xs @ [x]) = Some (length xs)"
    using assms by (induction xs) auto
  then show ?thesis by (simp add: upsert_turn_item_def)
qed

lemma snapshot_simps [simp]:
  "tb_current b = None \<Longrightarrow> snapshot b = tb_turns b"
  "tb_current b = Some t \<Longrightarrow> snapshot b = tb_turns b @ [turn_of_pending t]"
  by (simp_all add: snapshot_def)

lemma turn_of_pending_sel [simp]:
  "tt_id (turn_of_pending t) = pt_id t" "tt_items (turn_of_pending t) = pt_items t" "tt_view (turn_of_pending t) = ItemsFull"
  by (simp_all add: turn_of_pending_def)

lemma shape_of_simps [simp]:
  "shape_of [] = []" "shape_of (t # ts) = (tt_id t, map item_id (tt_items t)) # shape_of ts" "shape_of (xs @ ys) = shape_of xs @ shape_of ys"
  by (simp_all add: shape_of_def)

lemma fst_shape_of [simp]: "map fst (shape_of ts) = map tt_id ts"
  by (simp add: shape_of_def)

lemma shape_update_first_same:
  "(\<And>t. t \<in> set ts \<Longrightarrow> tt_id (f t) = tt_id t \<and> map item_id (tt_items (f t)) = map item_id (tt_items t)) \<Longrightarrow>
   shape_of (update_first p f ts) = shape_of ts"
  by (induction ts) auto

lemma update_first_split:
  assumes "list_ex (\<lambda>t. tt_id t = i) ts"
  shows "\<exists>us t ws. ts = us @ t # ws \<and> tt_id t = i \<and> update_first (\<lambda>t. tt_id t = i) f ts = us @ f t # ws"
  using assms
proof (induction ts)
  case (Cons t ts)
  show ?case
  proof (cases "tt_id t = i")
    case True
    then have "t # ts = [] @ t # ts \<and> tt_id t = i \<and> update_first (\<lambda>t. tt_id t = i) f (t # ts) = [] @ f t # ts" by simp
    then show ?thesis by blast
  next
    case False
    with Cons obtain us u ws where "ts = us @ u # ws" "tt_id u = i" "update_first (\<lambda>t. tt_id t = i) f ts = us @ f u # ws" by auto
    with False have "t # ts = (t # us) @ u # ws \<and> tt_id u = i \<and> update_first (\<lambda>t. tt_id t = i) f (t # ts) = (t # us) @ f u # ws" by simp
    then show ?thesis by blast
  qed
qed simp

lemma names_view_item:
  assumes ok: "names_ok K nx m (shape_of v)" and x: "\<not> generated_form (item_id x)" "item_id x \<in> fst K"
  shows "names_ok K nx m (shape_of (view_item \<lparr>ic_turn_id = i, ic_item = x\<rparr> v))
    \<and> length (all_names (shape_of (view_item \<lparr>ic_turn_id = i, ic_item = x\<rparr> v))) \<le> length (all_names (shape_of v)) + 1"
proof (cases "list_ex (\<lambda>t. tt_id t = i) v")
  case False
  then show ?thesis using ok by (simp add: view_item_def update_first_absent)
next
  case True
  obtain us t ws where v: "v = us @ t # ws"
    "view_item \<lparr>ic_turn_id = i, ic_item = x\<rparr> v = us @ t\<lparr>tt_items := upsert_turn_item (tt_items t) x\<rparr> # ws"
    using update_first_split [OF True, of "\<lambda>t. t\<lparr>tt_items := upsert_turn_item (tt_items t) x\<rparr>"]
    unfolding view_item_def by auto
  show ?thesis
  proof (cases "item_id x \<in> set (map item_id (tt_items t))")
    case True
    then show ?thesis using ok v by (simp add: upsert_turn_item_names)
  next
    case False
    then show ?thesis
      using ok v x names_add [of K nx m "shape_of us" "tt_id t" "map item_id (tt_items t)" "shape_of ws" "item_id x"]
      by (simp add: upsert_turn_item_names)
  qed
qed

lemma names_current_id:
  "names_ok K nx m (shape_of (ts @ [t])) \<Longrightarrow> \<not> list_ex (\<lambda>u. tt_id u = tt_id t) ts"
  unfolding names_ok_def by (auto simp: list_ex_iff image_iff)

text \<open>A change of the last turn.\<close>

lemma view_item_last:
  assumes "names_ok K nx m (shape_of (ts @ [t]))"
  shows "view_item \<lparr>ic_turn_id = tt_id t, ic_item = x\<rparr> (ts @ [t]) = ts @ [t\<lparr>tt_items := upsert_turn_item (tt_items t) x\<rparr>]"
  using names_current_id [OF assms] by (simp add: view_item_def update_first_append)

lemma turn_of_pending_items: "turn_of_pending (t\<lparr>pt_items := xs\<rparr>) = (turn_of_pending t)\<lparr>tt_items := xs\<rparr>"
  by (simp add: turn_of_pending_def)

subsection \<open>Recording\<close>

lemma record_field_simps [simp]:
  "tb_turns (record_changed_item i x b) = tb_turns b" "tb_current (record_changed_item i x b) = tb_current b"
  "tb_next_item (record_changed_item i x b) = tb_next_item b" "tb_rollout (record_changed_item i x b) = tb_rollout b"
  "tb_next_rollout (record_changed_item i x b) = tb_next_rollout b"
  "tb_turns (record_changed_turn c b) = tb_turns b" "tb_current (record_changed_turn c b) = tb_current b"
  "tb_next_item (record_changed_turn c b) = tb_next_item b" "tb_rollout (record_changed_turn c b) = tb_rollout b"
  "tb_next_rollout (record_changed_turn c b) = tb_next_rollout b"
  "tb_turns (record_removed_turn_ids ids b) = tb_turns b" "tb_current (record_removed_turn_ids ids b) = tb_current b"
  "tb_next_item (record_removed_turn_ids ids b) = tb_next_item b" "tb_rollout (record_removed_turn_ids ids b) = tb_rollout b"
  "tb_next_rollout (record_removed_turn_ids ids b) = tb_next_rollout b"
  by (simp_all add: record_changed_item_def record_changed_turn_def record_removed_turn_ids_def)

lemma record_pending_turn: "record_changed_pending_turn t b = record_changed_turn (from_pending_turn t) b"
  by (cases "tb_changes b") (simp_all add: record_changed_pending_turn_def is_tracking_changes_def record_changed_turn_def)

lemma view_item_ids [simp]: "map tt_id (view_item c v) = map tt_id v"
  unfolding view_item_def by (induction v) auto

lemma synced_record_item:
  assumes "synced v b" "tb_changes b' = tb_changes b" "snapshot b' = view_item \<lparr>ic_turn_id = i, ic_item = x\<rparr> (snapshot b)"
    "i \<in> set (map tt_id (snapshot b))"
  shows "synced v (record_changed_item i x b')"
proof (cases "tb_changes b")
  case (Some cs)
  have ids: "map tt_id (snapshot b') = map tt_id (snapshot b)" using assms(3) by simp
  have "snapshot (record_changed_item i x b') = snapshot b'" by (simp add: snapshot_def record_changed_item_def)
  with Some assms ids show ?thesis
    unfolding synced_def by (simp add: record_changed_item_def apply_change_set_def del: set_map)
qed (simp add: synced_def record_changed_item_def assms(2))

lemma synced_record_turn:
  assumes "synced v b" "items_quiet b" "tb_changes b' = tb_changes b" "snapshot b' = view_turn c (snapshot b)"
  shows "synced v (record_changed_turn c b')" "items_quiet (record_changed_turn c b')"
  using assms unfolding synced_def items_quiet_def snapshot_def record_changed_turn_def
  by (auto simp: apply_change_set_def split: option.splits)

lemma synced_record_removed:
  assumes "synced v b" "all_quiet b" "tb_changes b' = tb_changes b" "snapshot b' = view_removed ids (snapshot b)"
  shows "synced v (record_removed_turn_ids ids b')"
  using assms unfolding synced_def all_quiet_def snapshot_def record_removed_turn_ids_def
  by (auto simp: apply_change_set_def no_changes_def view_removed_def split: option.splits)

end
