(* ===== verification/Thread_Coalesce.thy ===== *)
theory Thread_Coalesce
  imports Thread_Names
begin

text \<open>
  The accumulator of a batch's changes. Its vectors with holes and its indexes stand for two lists without repetition and a list of
  removed turns (\<open>accumulator_finish\<close>); every operation follows its counterpart on the lists, and applying the coalesced set is
  applying the sets one after the other (\<open>accumulator_push_applies\<close>).
\<close>

subsection \<open>The accumulator as two lists\<close>

definition upsert_by :: "('a \<Rightarrow> 'k) \<Rightarrow> 'a \<Rightarrow> 'a list \<Rightarrow> 'a list" where
  "upsert_by key c xs = (if list_ex (\<lambda>d. key d = key c) xs then update_first (\<lambda>d. key d = key c) (\<lambda>_. c) xs else xs @ [c])"

abbreviation present :: "'a option list \<Rightarrow> 'a list" where
  "present xs \<equiv> List.map_filter (\<lambda>c. c) xs"

text \<open>The index maps a key to the place of its entry, and no key has two entries.\<close>

definition indexed :: "('a \<Rightarrow> 'k) \<Rightarrow> ('k, nat) hash_map \<Rightarrow> 'a option list \<Rightarrow> bool" where
  "indexed key m xs = (\<forall>k i. hm_get m k = Some i \<longleftrightarrow> (i < length xs \<and> (\<exists>c. xs ! i = Some c \<and> key c = k)))"

lemma present_simps [simp]:
  "present [] = []" "present (Some c # xs) = c # present xs" "present (None # xs) = present xs" "present (xs @ ys) = present xs @ present ys"
  by (simp_all add: map_filter_simps map_filter_def)

lemma in_present: "c \<in> set (present xs) \<longleftrightarrow> Some c \<in> set xs"
  by (induction xs) (auto simp: map_filter_simps split: option.splits)

lemma indexed_None:
  assumes "indexed key m xs" "hm_get m k = None" "c \<in> set (present xs)"
  shows "key c \<noteq> k"
  using assms unfolding in_present indexed_def by (metis in_set_conv_nth option.distinct(1))

lemma indexed_Some:
  assumes ix: "indexed key m xs" and k: "hm_get m k = Some i"
  obtains ys d zs where "xs = ys @ Some d # zs" "length ys = i" "key d = k"
    "\<And>c. c \<in> set (present ys) \<Longrightarrow> key c \<noteq> k" "\<And>c. c \<in> set (present zs) \<Longrightarrow> key c \<noteq> k"
proof -
  from ix k obtain d where d: "i < length xs" "xs ! i = Some d" "key d = k" unfolding indexed_def by blast
  have xs: "xs = take i xs @ Some d # drop (Suc i) xs" using id_take_nth_drop [OF d(1)] d(2) by simp
  have only: "j = i" if "j < length xs" "xs ! j = Some c" "key c = k" for j c
    using ix k that unfolding indexed_def by (metis option.inject)
  have "key c \<noteq> k" if c: "c \<in> set (present (take i xs))" for c
  proof -
    from c have "Some c \<in> set (take i xs)" by (simp add: in_present)
    then obtain j where "j < i" "j < length xs" "xs ! j = Some c" by (auto simp: in_set_conv_nth)
    with only [of j c] show ?thesis by auto
  qed
  moreover have "key c \<noteq> k" if c: "c \<in> set (present (drop (Suc i) xs))" for c
  proof -
    from c have "Some c \<in> set (drop (Suc i) xs)" by (simp add: in_present)
    then obtain j where "Suc i + j < length xs" "xs ! (Suc i + j) = Some c"
      by (auto simp: in_set_conv_nth add.commute less_diff_conv)
    with only [of "Suc i + j" c] show ?thesis by auto
  qed
  ultimately show ?thesis using that [of "take i xs" d "drop (Suc i) xs"] xs d by simp
qed

lemma indexed_replace:
  assumes ix: "indexed key m xs" and k: "hm_get m (key c) = Some i"
  shows "indexed key m (xs[i := Some c])" "present (xs[i := Some c]) = upsert_by key c (present xs)"
proof -
  obtain ys d zs where xs: "xs = ys @ Some d # zs" "length ys = i" "key d = key c" and
    ys: "\<And>e. e \<in> set (present ys) \<Longrightarrow> key e \<noteq> key c"
    using indexed_Some [OF ix k] by metis
  show "indexed key m (xs[i := Some c])"
    using ix xs(3) unfolding xs(1) xs(2) [symmetric] indexed_def by (simp add: nth_append nth_Cons split: nat.splits)
  have "\<not> list_ex (\<lambda>e. key e = key c) (present ys)" using ys by (auto simp: list_ex_iff)
  then show "present (xs[i := Some c]) = upsert_by key c (present xs)"
    unfolding xs(1) xs(2) [symmetric] using xs(3) by (simp add: upsert_by_def update_first_append list_ex_append)
qed

lemma indexed_append:
  assumes ix: "indexed key m xs" and k: "hm_get m (key c) = None"
  shows "indexed key (hm_insert (key c) (length xs) m) (xs @ [Some c])" "present (xs @ [Some c]) = upsert_by key c (present xs)"
proof -
  have no: "key e \<noteq> key c" if "i < length xs" "xs ! i = Some e" for i e
    using ix k that unfolding indexed_def by (metis option.distinct(1))
  show "indexed key (hm_insert (key c) (length xs) m) (xs @ [Some c])"
    using ix k unfolding indexed_def by (auto simp: hm_get_insert nth_append less_Suc_eq split: if_splits dest: no)
  have "\<not> list_ex (\<lambda>e. key e = key c) (present xs)" using indexed_None [OF ix k] by (auto simp: list_ex_iff)
  then show "present (xs @ [Some c]) = upsert_by key c (present xs)" by (simp add: upsert_by_def)
qed

lemma indexed_drop:
  assumes ix: "indexed key m xs" and k: "hm_get m k = Some i"
  shows "indexed key (hm_remove k m) (xs[i := None])" "present (xs[i := None]) = filter (\<lambda>c. key c \<noteq> k) (present xs)"
proof -
  obtain ys d zs where xs: "xs = ys @ Some d # zs" "length ys = i" "key d = k" and
    ys: "\<And>e. e \<in> set (present ys) \<Longrightarrow> key e \<noteq> k" and zs: "\<And>e. e \<in> set (present zs) \<Longrightarrow> key e \<noteq> k"
    using indexed_Some [OF ix k] by metis
  have i: "hm_get m k' = Some j \<longleftrightarrow> (j < length xs \<and> (\<exists>c. xs ! j = Some c \<and> key c = k'))" for k' j
    using ix unfolding indexed_def by blast
  show "indexed key (hm_remove k m) (xs[i := None])"
    unfolding indexed_def
  proof (intro allI)
    fix k' j
    show "hm_get (hm_remove k m) k' = Some j \<longleftrightarrow> j < length (xs[i := None]) \<and> (\<exists>c. xs[i := None] ! j = Some c \<and> key c = k')"
      using i [of k' j] i [of k j] k xs by (cases "j = i") (auto simp: hm_get_remove)
  qed
  show "present (xs[i := None]) = filter (\<lambda>c. key c \<noteq> k) (present xs)"
    unfolding xs(1) xs(2) [symmetric] using xs(3) ys zs by (simp add: filter_id_conv)
qed

lemma indexed_keys: "indexed key m xs \<Longrightarrow> c \<in> set (present xs) \<Longrightarrow> key c \<in> set (map fst m)"
  unfolding indexed_def in_present by (metis domI dom_map_of_conv_image_fst in_set_conv_nth set_map)

definition accumulator_ok :: "change_accumulator \<Rightarrow> bool" where
  "accumulator_ok a =
     (indexed item_change_key (ca_item_index a) (ca_items a) \<and> indexed tc_turn_id (ca_turn_index a) (ca_turns a)
      \<and> (\<forall>i. hm_contains i (ca_removed_index a) \<longleftrightarrow> i \<in> set (ca_removed a)))"

definition add_item :: "item_change \<Rightarrow> change_set \<Rightarrow> change_set" where
  "add_item c cs = cs\<lparr>cs_items := upsert_by item_change_key c (cs_items cs)\<rparr>"

definition add_turn :: "turn_change \<Rightarrow> change_set \<Rightarrow> change_set" where
  "add_turn c cs = cs\<lparr>cs_turns := upsert_by tc_turn_id c (cs_turns cs)\<rparr>"

definition add_removed :: "string \<Rightarrow> change_set \<Rightarrow> change_set" where
  "add_removed i cs =
     cs\<lparr>cs_removed := (if i \<in> set (cs_removed cs) then cs_removed cs else cs_removed cs @ [i]),
        cs_turns := filter (\<lambda>c. tc_turn_id c \<noteq> i) (cs_turns cs), cs_items := filter (\<lambda>c. ic_turn_id c \<noteq> i) (cs_items cs)\<rparr>"

lemma push_item_change_abs:
  assumes "accumulator_ok a"
  shows "accumulator_ok (push_item_change c a)" "accumulator_finish (push_item_change c a) = add_item c (accumulator_finish a)"
  using assms indexed_replace [of item_change_key "ca_item_index a" "ca_items a" c] indexed_append [of item_change_key "ca_item_index a" "ca_items a" c]
  by (auto simp: push_item_change_def accumulator_ok_def accumulator_finish_def add_item_def split: option.splits)

lemma push_turn_change_abs:
  assumes "accumulator_ok a"
  shows "accumulator_ok (push_turn_change c a)" "accumulator_finish (push_turn_change c a) = add_turn c (accumulator_finish a)"
  using assms indexed_replace [of tc_turn_id "ca_turn_index a" "ca_turns a" c] indexed_append [of tc_turn_id "ca_turn_index a" "ca_turns a" c]
  by (auto simp: push_turn_change_def accumulator_ok_def accumulator_finish_def add_turn_def split: option.splits)

lemma drop_item_changes_abs:
  assumes "accumulator_ok a"
  shows "accumulator_ok (fold drop_item_change ks a) \<and>
    accumulator_finish (fold drop_item_change ks a) =
      (accumulator_finish a)\<lparr>cs_items := filter (\<lambda>c. item_change_key c \<notin> set ks) (cs_items (accumulator_finish a))\<rparr>"
  using assms
proof (induction ks arbitrary: a)
  case Nil
  then show ?case by simp
next
  case (Cons k ks)
  let ?a = "drop_item_change k a"
  have "accumulator_ok ?a \<and> accumulator_finish ?a =
      (accumulator_finish a)\<lparr>cs_items := filter (\<lambda>c. item_change_key c \<noteq> k) (cs_items (accumulator_finish a))\<rparr>"
  proof (cases "hm_get (ca_item_index a) k")
    case None
    then have "filter (\<lambda>c. item_change_key c \<noteq> k) (present (ca_items a)) = present (ca_items a)"
      using Cons.prems indexed_None [of item_change_key "ca_item_index a" "ca_items a" k]
      by (intro filter_True) (auto simp: accumulator_ok_def)
    then show ?thesis using None Cons.prems by (simp add: drop_item_change_def accumulator_finish_def)
  next
    case (Some i)
    then show ?thesis
      using Cons.prems indexed_drop [of item_change_key "ca_item_index a" "ca_items a" k i]
      by (simp add: drop_item_change_def accumulator_finish_def accumulator_ok_def)
  qed
  with Cons.IH [of ?a] show ?case by (auto intro!: filter_cong)
qed

lemma drop_turn_change_abs:
  assumes "accumulator_ok a"
  shows "accumulator_ok (drop_turn_change i a)"
    "accumulator_finish (drop_turn_change i a) =
      (accumulator_finish a)\<lparr>cs_turns := filter (\<lambda>c. tc_turn_id c \<noteq> i) (cs_turns (accumulator_finish a))\<rparr>"
proof -
  have "accumulator_ok (drop_turn_change i a) \<and> accumulator_finish (drop_turn_change i a) =
      (accumulator_finish a)\<lparr>cs_turns := filter (\<lambda>c. tc_turn_id c \<noteq> i) (cs_turns (accumulator_finish a))\<rparr>"
  proof (cases "hm_get (ca_turn_index a) i")
    case None
    then have "filter (\<lambda>c. tc_turn_id c \<noteq> i) (present (ca_turns a)) = present (ca_turns a)"
      using assms indexed_None [of tc_turn_id "ca_turn_index a" "ca_turns a" i] by (intro filter_True) (auto simp: accumulator_ok_def)
    then show ?thesis using None assms by (simp add: drop_turn_change_def accumulator_finish_def)
  next
    case (Some k)
    then show ?thesis
      using assms indexed_drop [of tc_turn_id "ca_turn_index a" "ca_turns a" i k]
      by (simp add: drop_turn_change_def accumulator_finish_def accumulator_ok_def)
  qed
  then show "accumulator_ok (drop_turn_change i a)"
    "accumulator_finish (drop_turn_change i a) =
      (accumulator_finish a)\<lparr>cs_turns := filter (\<lambda>c. tc_turn_id c \<noteq> i) (cs_turns (accumulator_finish a))\<rparr>" by auto
qed

lemma push_removed_abs:
  assumes "accumulator_ok a"
  shows "accumulator_ok (push_removed_turn_id i a) \<and> accumulator_finish (push_removed_turn_id i a) = add_removed i (accumulator_finish a)"
proof -
  let ?a = "if hm_contains i (ca_removed_index a) then a
    else a\<lparr>ca_removed_index := hm_insert i (length (ca_removed a)) (ca_removed_index a), ca_removed := ca_removed a @ [i]\<rparr>"
  let ?b = "drop_turn_change i ?a"
  let ?ks = "filter (\<lambda>(j, _). j = i) (map fst (ca_item_index ?b))"
  have a: "accumulator_ok ?a" using assms by (auto simp: accumulator_ok_def hm_contains_def hm_get_insert)
  note b = drop_turn_change_abs [OF a, of i]
  have "item_change_key c \<notin> set ?ks \<longleftrightarrow> ic_turn_id c \<noteq> i" if "c \<in> set (present (ca_items ?b))" for c
    using indexed_keys [of item_change_key "ca_item_index ?b" "ca_items ?b" c] b(1) that
    unfolding accumulator_ok_def item_change_key_def by auto
  then have "filter (\<lambda>c. item_change_key c \<notin> set ?ks) (cs_items (accumulator_finish ?b))
      = filter (\<lambda>c. ic_turn_id c \<noteq> i) (cs_items (accumulator_finish ?b))"
    by (intro filter_cong) (simp_all add: accumulator_finish_def)
  with drop_item_changes_abs [OF b(1), of ?ks] b(2) assms show ?thesis
    unfolding push_removed_turn_id_def Let_def
    by (auto simp: add_removed_def accumulator_finish_def accumulator_ok_def)
qed

subsection \<open>What coalesced changes mean to a reader\<close>

lemma upsert_by_simps [simp]:
  "upsert_by key c [] = [c]"
  "upsert_by key c (x # xs) = (if key x = key c then c # xs else x # upsert_by key c xs)"
  by (simp_all add: upsert_by_def)

lemma upsert_by_keys: "map key (upsert_by key c xs) = (if key c \<in> set (map key xs) then map key xs else map key xs @ [key c])"
  by (induction xs) auto

lemma upsert_by_set: "set (upsert_by key c xs) \<subseteq> insert c (set xs)"
  by (induction xs) auto

lemma upsert_by_twice: "key d = key c \<Longrightarrow> upsert_by key c (upsert_by key d xs) = upsert_by key c xs"
  by (induction xs) auto

lemma upsert_by_commute:
  "key c \<in> set (map key xs) \<Longrightarrow> key z \<noteq> key c \<Longrightarrow> upsert_by key c (upsert_by key z xs) = upsert_by key z (upsert_by key c xs)"
  by (induction xs) auto

lemma upsert_turn_item_by: "upsert_turn_item xs x = upsert_by item_id x xs"
  by (induction xs) (auto simp: upsert_turn_item_def split: option.splits)

lemma view_item_simps [simp]:
  "view_item c [] = []"
  "view_item c (t # v) = (if tt_id t = ic_turn_id c then t\<lparr>tt_items := upsert_by item_id (ic_item c) (tt_items t)\<rparr> # v else t # view_item c v)"
  by (simp_all add: view_item_def upsert_turn_item_by)

lemma view_turn_simps [simp]:
  "view_turn c [] = [turn_of_change c]"
  "view_turn c (t # v) = (if tt_id t = tc_turn_id c then set_turn_metadata c t # v else t # view_turn c v)"
  by (simp_all add: view_turn_def)

lemma metadata_simps [simp]:
  "tt_id (set_turn_metadata c t) = tt_id t" "tt_id (turn_of_change c) = tc_turn_id c" "tt_items (set_turn_metadata c t) = tt_items t"
  "tt_items (turn_of_change c) = []"
  by (simp_all add: set_turn_metadata_def turn_of_change_def)

text \<open>Items.\<close>

fun item_settled :: "item_change \<Rightarrow> thread_turn list \<Rightarrow> bool" where
  "item_settled c [] = True"
| "item_settled c (t # v) = (if tt_id t = ic_turn_id c then item_id (ic_item c) \<in> set (map item_id (tt_items t)) else item_settled c v)"

lemma item_settled_view:
  "item_settled c v \<Longrightarrow> item_settled c (view_item z v)" "item_change_key d = item_change_key c \<Longrightarrow> item_settled c (view_item d v)"
  by (induction v) (auto simp: item_change_key_def upsert_by_keys simp del: set_map)

lemma view_item_commute:
  "item_settled c v \<Longrightarrow> item_change_key z \<noteq> item_change_key c \<Longrightarrow> view_item c (view_item z v) = view_item z (view_item c v)"
proof (induction v)
  case (Cons t v)
  then show ?case
    using upsert_by_commute [of item_id "ic_item c" "tt_items t" "ic_item z"] by (auto simp: item_change_key_def simp del: set_map)
qed simp

lemma view_item_twice: "item_change_key d = item_change_key c \<Longrightarrow> view_item c (view_item d v) = view_item c v"
  by (induction v) (auto simp: item_change_key_def upsert_by_twice)

lemma view_item_past:
  "item_settled c v \<Longrightarrow> item_change_key c \<notin> set (map item_change_key is) \<Longrightarrow> view_item c (fold view_item is v) = fold view_item is (view_item c v)"
  by (induction "is" arbitrary: v) (auto simp: item_settled_view view_item_commute)

lemma fold_upsert_item:
  "distinct (map item_change_key is) \<Longrightarrow> fold view_item (upsert_by item_change_key c is) v = view_item c (fold view_item is v)"
proof (induction "is" arbitrary: v)
  case (Cons d ds)
  show ?case
  proof (cases "item_change_key d = item_change_key c")
    case True
    then have "item_change_key c \<notin> set (map item_change_key ds)" using Cons.prems by (metis distinct.simps(2) list.simps(9))
    with view_item_past [OF item_settled_view(2) [OF True]] True show ?thesis by (simp add: view_item_twice)
  next
    case False
    then show ?thesis using Cons by simp
  qed
qed simp

text \<open>Turns.\<close>

lemma view_turn_ids: "set (map tt_id (view_turn c v)) = insert (tc_turn_id c) (set (map tt_id v))"
  by (induction v) auto

lemma view_turn_commute:
  "tc_turn_id c \<in> set (map tt_id v) \<Longrightarrow> tc_turn_id z \<noteq> tc_turn_id c \<Longrightarrow> view_turn c (view_turn z v) = view_turn z (view_turn c v)"
  by (induction v) auto

lemma view_turn_twice: "tc_turn_id d = tc_turn_id c \<Longrightarrow> view_turn c (view_turn d v) = view_turn c v"
  by (induction v) (auto simp: set_turn_metadata_def turn_of_change_def)

lemma view_turn_past:
  "tc_turn_id c \<in> set (map tt_id v) \<Longrightarrow> tc_turn_id c \<notin> set (map tc_turn_id ts) \<Longrightarrow>
   view_turn c (fold view_turn ts v) = fold view_turn ts (view_turn c v)"
proof (induction ts arbitrary: v)
  case (Cons t ts)
  then have "view_turn c (view_turn t v) = view_turn t (view_turn c v)" by (intro view_turn_commute) auto
  with Cons show ?case by (simp add: view_turn_ids del: set_map)
qed simp

lemma fold_upsert_turn:
  "distinct (map tc_turn_id ts) \<Longrightarrow> fold view_turn (upsert_by tc_turn_id c ts) v = view_turn c (fold view_turn ts v)"
proof (induction ts arbitrary: v)
  case (Cons d ds)
  show ?case
  proof (cases "tc_turn_id d = tc_turn_id c")
    case True
    then have "tc_turn_id c \<notin> set (map tc_turn_id ds)" using Cons.prems by (metis distinct.simps(2) list.simps(9))
    moreover have "tc_turn_id c \<in> set (map tt_id (view_turn d v))" using True by (simp add: view_turn_ids del: set_map)
    ultimately show ?thesis using view_turn_past [of c "view_turn d v" ds] True by (simp add: view_turn_twice)
  next
    case False
    then show ?thesis using Cons by simp
  qed
qed simp

lemma view_turn_item: "ic_turn_id z \<in> set (map tt_id v) \<Longrightarrow> view_turn c (view_item z v) = view_item z (view_turn c v)"
  by (induction v) (auto simp: set_turn_metadata_def)

lemma fold_view_item_ids [simp]: "map tt_id (fold view_item is v) = map tt_id v"
  by (induction "is" arbitrary: v) simp_all

lemma view_turn_items:
  "\<forall>z\<in>set is. ic_turn_id z \<in> set (map tt_id v) \<Longrightarrow> view_turn c (fold view_item is v) = fold view_item is (view_turn c v)"
proof (induction "is" arbitrary: v)
  case (Cons z zs)
  then show ?case by (simp add: view_turn_item del: set_map)
qed simp

text \<open>Removals.\<close>

lemma removed_item: "view_removed [i] (view_item c v) = (if ic_turn_id c = i then view_removed [i] v else view_item c (view_removed [i] v))"
  unfolding view_removed_def by (induction v) auto

lemma removed_turn: "view_removed [i] (view_turn c v) = (if tc_turn_id c = i then view_removed [i] v else view_turn c (view_removed [i] v))"
  unfolding view_removed_def by (induction v) auto

lemma removed_items: "view_removed [i] (fold view_item is v) = fold view_item (filter (\<lambda>c. ic_turn_id c \<noteq> i) is) (view_removed [i] v)"
  by (induction "is" arbitrary: v) (simp_all add: removed_item)

lemma removed_turns: "view_removed [i] (fold view_turn ts v) = fold view_turn (filter (\<lambda>c. tc_turn_id c \<noteq> i) ts) (view_removed [i] v)"
  by (induction ts arbitrary: v) (simp_all add: removed_turn)

lemma removed_more: "view_removed [i] (view_removed is v) = view_removed (if i \<in> set is then is else is @ [i]) v"
  unfolding view_removed_def by (auto intro!: filter_cong)

text \<open>A coalesced set has one change for every item and turn, and its items are of turns that are there.\<close>

definition coalesced :: "change_set \<Rightarrow> thread_turn list \<Rightarrow> bool" where
  "coalesced cs v =
     (distinct (map item_change_key (cs_items cs)) \<and> distinct (map tc_turn_id (cs_turns cs))
      \<and> (\<forall>c\<in>set (cs_items cs). ic_turn_id c \<in> set (map tt_id (apply_change_set cs v))))"

lemma apply_ids: "map tt_id (apply_change_set cs v) = map tt_id (fold view_turn (cs_turns cs) (view_removed (cs_removed cs) v))"
  by (simp add: apply_change_set_def)

lemma add_removed_coalesced:
  assumes "coalesced cs v"
  shows "apply_change_set (add_removed i cs) v = view_removed [i] (apply_change_set cs v)" "coalesced (add_removed i cs) v"
proof -
  show ap: "apply_change_set (add_removed i cs) v = view_removed [i] (apply_change_set cs v)"
    by (simp add: apply_change_set_def add_removed_def removed_items removed_turns removed_more)
  show "coalesced (add_removed i cs) v"
    using assms unfolding coalesced_def ap
    by (auto simp: add_removed_def distinct_map_filter view_removed_def)
qed

lemma add_turn_coalesced:
  assumes "coalesced cs v"
  shows "apply_change_set (add_turn c cs) v = view_turn c (apply_change_set cs v)" "coalesced (add_turn c cs) v"
proof -
  have "\<forall>z\<in>set (cs_items cs). ic_turn_id z \<in> set (map tt_id (fold view_turn (cs_turns cs) (view_removed (cs_removed cs) v)))"
    using assms unfolding coalesced_def apply_ids by blast
  then show ap: "apply_change_set (add_turn c cs) v = view_turn c (apply_change_set cs v)"
    using assms by (simp add: apply_change_set_def add_turn_def fold_upsert_turn coalesced_def view_turn_items)
  show "coalesced (add_turn c cs) v"
    using assms unfolding coalesced_def ap by (auto simp: add_turn_def upsert_by_keys view_turn_ids simp del: set_map)
qed

lemma add_item_coalesced:
  assumes "coalesced cs v" "ic_turn_id c \<in> set (map tt_id (apply_change_set cs v))"
  shows "apply_change_set (add_item c cs) v = view_item c (apply_change_set cs v)" "coalesced (add_item c cs) v"
proof -
  show ap: "apply_change_set (add_item c cs) v = view_item c (apply_change_set cs v)"
    using assms by (simp add: apply_change_set_def add_item_def fold_upsert_item coalesced_def)
  show "coalesced (add_item c cs) v"
    using assms upsert_by_set [of item_change_key c "cs_items cs"] unfolding coalesced_def ap by (auto simp: add_item_def upsert_by_keys simp del: set_map)
qed

text \<open>An operation of the accumulator that its abstraction follows; a whole list of changes is then followed too.\<close>

locale log_abstraction =
  fixes ok :: "'a \<Rightarrow> bool"
    and absf :: "'a \<Rightarrow> 'b"
    and f :: "'c \<Rightarrow> 'a \<Rightarrow> 'a"
    and g :: "'c \<Rightarrow> 'b \<Rightarrow> 'b"
  assumes follows: "ok a \<Longrightarrow> ok (f x a) \<and> absf (f x a) = g x (absf a)"
begin

lemma fold_follows: "ok a \<Longrightarrow> ok (fold f xs a) \<and> absf (fold f xs a) = fold g xs (absf a)"
  by (induction xs arbitrary: a) (simp_all add: follows)

end

interpretation removal_log: log_abstraction accumulator_ok accumulator_finish push_removed_turn_id add_removed
  by unfold_locales (rule push_removed_abs)

interpretation item_log: log_abstraction accumulator_ok accumulator_finish push_item_change add_item
  by unfold_locales (simp add: push_item_change_abs)

interpretation turn_log: log_abstraction accumulator_ok accumulator_finish push_turn_change add_turn
  by unfold_locales (simp add: push_turn_change_abs)

lemma accumulator_push_abs:
  assumes "accumulator_ok a"
  shows "accumulator_ok (accumulator_push cs a)"
    "accumulator_finish (accumulator_push cs a) =
       fold add_item (cs_items cs) (fold add_turn (cs_turns cs) (fold add_removed (cs_removed cs) (accumulator_finish a)))"
proof -
  let ?r = "fold push_removed_turn_id (cs_removed cs) a"
  note r = removal_log.fold_follows [OF assms, of "cs_removed cs"]
  note i = item_log.fold_follows [OF conjunct1 [OF r], of "cs_items cs"]
  note t = turn_log.fold_follows [OF conjunct1 [OF i], of "cs_turns cs"]
  show "accumulator_ok (accumulator_push cs a)" using t by (simp add: accumulator_push_def)
  have "fold add_turn (cs_turns cs) \<circ> fold add_item (cs_items cs) = fold add_item (cs_items cs) \<circ> fold add_turn (cs_turns cs)"
    by (rule fold_commute, rule fold_commute [symmetric]) (simp add: fun_eq_iff add_turn_def add_item_def)
  then show "accumulator_finish (accumulator_push cs a) =
       fold add_item (cs_items cs) (fold add_turn (cs_turns cs) (fold add_removed (cs_removed cs) (accumulator_finish a)))"
    using r i t unfolding accumulator_push_def by (simp add: fun_eq_iff)
qed

lemma add_removed_fold:
  "coalesced cs v \<Longrightarrow> coalesced (fold add_removed is cs) v \<and>
     apply_change_set (fold add_removed is cs) v = view_removed is (apply_change_set cs v)"
proof (induction "is" arbitrary: cs)
  case (Cons i "is")
  have "view_removed is (view_removed [i] w) = view_removed (i # is) w" for w by (simp add: view_removed_def)
  with Cons add_removed_coalesced [OF Cons.prems, of i] show ?case by simp
qed (simp add: view_removed_def)

lemma add_turn_fold:
  "coalesced cs v \<Longrightarrow> coalesced (fold add_turn ts cs) v \<and>
     apply_change_set (fold add_turn ts cs) v = fold view_turn ts (apply_change_set cs v)"
  by (induction ts arbitrary: cs) (simp_all add: add_turn_coalesced)

lemma add_item_fold:
  "coalesced cs v \<Longrightarrow> \<forall>c\<in>set ics. ic_turn_id c \<in> set (map tt_id (apply_change_set cs v)) \<Longrightarrow>
     coalesced (fold add_item ics cs) v \<and> apply_change_set (fold add_item ics cs) v = fold view_item ics (apply_change_set cs v)"
proof (induction ics arbitrary: cs)
  case (Cons c ics)
  have c: "ic_turn_id c \<in> set (map tt_id (apply_change_set cs v))" using Cons.prems(2) by simp
  note a = add_item_coalesced [OF Cons.prems(1) c]
  have "\<forall>c'\<in>set ics. ic_turn_id c' \<in> set (map tt_id (apply_change_set (add_item c cs) v))"
    using Cons.prems(2) unfolding a(1) view_item_ids by simp
  from Cons.IH [OF a(2) this] show ?case by (simp add: a(1))
qed simp

text \<open>Accumulating a change set is applying it after the ones before.\<close>

lemma accumulator_push_applies:
  assumes a: "accumulator_ok a" "coalesced (accumulator_finish a) v"
    and cs: "\<forall>c\<in>set (cs_items cs). ic_turn_id c \<in> set (map tt_id (apply_change_set cs (apply_change_set (accumulator_finish a) v)))"
  shows "coalesced (accumulator_finish (accumulator_push cs a)) v"
    "apply_change_set (accumulator_finish (accumulator_push cs a)) v = apply_change_set cs (apply_change_set (accumulator_finish a) v)"
proof -
  let ?r = "fold add_removed (cs_removed cs) (accumulator_finish a)"
  let ?t = "fold add_turn (cs_turns cs) ?r"
  note r = add_removed_fold [OF a(2), of "cs_removed cs"]
  note t = add_turn_fold [OF conjunct1 [OF r], of "cs_turns cs"]
  have "\<forall>c\<in>set (cs_items cs). ic_turn_id c \<in> set (map tt_id (apply_change_set ?t v))"
    using cs r t unfolding apply_ids [of cs] by simp
  note i = add_item_fold [OF conjunct1 [OF t] this]
  show "coalesced (accumulator_finish (accumulator_push cs a)) v"
    "apply_change_set (accumulator_finish (accumulator_push cs a)) v = apply_change_set cs (apply_change_set (accumulator_finish a) v)"
    using i t r unfolding accumulator_push_abs(2) [OF a(1)] by (simp_all add: apply_change_set_def [of cs])
qed

lemma new_accumulator_ok: "accumulator_ok new_accumulator" "accumulator_finish new_accumulator = no_changes" "coalesced no_changes v"
  by (simp_all add: accumulator_ok_def indexed_def new_accumulator_def hm_contains_def accumulator_finish_def no_changes_def coalesced_def)

end
