(* ===== verification/Thread_Invariant.thy ===== *)
theory Thread_Invariant
  imports Thread_Coalesce
begin

text \<open>
  Every step of a replay keeps the ids in order (\<open>names_ok\<close>), keeps a turn that holds anything, and records what a reader of
  changes needs to follow it (\<open>history_step_done\<close>).
\<close>

subsection \<open>Steps keep the history and its reader in order\<close>

definition turn_kept :: "pending_turn \<Rightarrow> bool" where
  "turn_kept t = (pt_items t \<noteq> [] \<or> pt_opened_explicitly t \<or> pt_saw_compaction t)"

definition kept :: "thread_builder \<Rightarrow> bool" where
  "kept b = (case tb_current b of Some t \<Rightarrow> turn_kept t | None \<Rightarrow> True)"

definition base :: "string set \<times> string set \<Rightarrow> thread_turn list \<Rightarrow> nat \<Rightarrow> thread_builder \<Rightarrow> bool" where
  "base K v m b = (0 \<le> tb_next_item b \<and> names_ok K (nat (tb_next_item b)) m (shape_of (snapshot b)) \<and> synced v b)"

abbreviation name_count :: "thread_builder \<Rightarrow> nat" where
  "name_count b \<equiv> length (all_names (shape_of (snapshot b)))"

definition label_ok :: "string set \<times> string set \<Rightarrow> history_label \<Rightarrow> thread_builder \<Rightarrow> bool" where
  "label_ok K l b =
     (case l of
        Quiet \<Rightarrow> True
      | NamesItem i \<Rightarrow> \<not> generated_form i \<and> i \<in> fst K
      | HookItem i \<Rightarrow> \<not> generated_form i \<and> i \<in> fst K \<and> i \<notin> set (all_names (shape_of (snapshot b)))
      | StartsTurn i \<Rightarrow> \<not> rollout_form i \<and> i \<in> snd K \<and> i \<notin> set (map tt_id (snapshot b)))"

lemma baseD:
  "base K v m b \<Longrightarrow> 0 \<le> tb_next_item b" "base K v m b \<Longrightarrow> names_ok K (nat (tb_next_item b)) m (shape_of (snapshot b))"
  "base K v m b \<Longrightarrow> synced v b"
  by (simp_all add: base_def)

lemma base_later: "base K v m b \<Longrightarrow> m \<le> m' \<Longrightarrow> base K v m' b"
  by (auto simp: base_def intro: names_later)

lemma finish_simps [simp]:
  "tb_current (finish_current_turn b) = None" "tb_next_item (finish_current_turn b) = tb_next_item b"
  "tb_rollout (finish_current_turn b) = tb_rollout b" "tb_next_rollout (finish_current_turn b) = tb_next_rollout b"
  "tb_changes (finish_current_turn b) = tb_changes b"
  by (simp_all add: finish_current_turn_def split: option.splits)

lemma snapshot_finish: "kept b \<Longrightarrow> snapshot (finish_current_turn b) = snapshot b"
  by (auto simp: kept_def turn_kept_def finish_current_turn_def snapshot_def split: option.splits)

lemma base_finish: "kept b \<Longrightarrow> base K v m (finish_current_turn b) = base K v m b"
  unfolding base_def synced_def by (simp only: snapshot_finish finish_simps)

lemma quiet_finish: "all_quiet (finish_current_turn b) = all_quiet b" "items_quiet (finish_current_turn b) = items_quiet b"
  by (simp_all add: all_quiet_def items_quiet_def)

text \<open>Opening a turn.\<close>

lemma view_turn_new:
  assumes "pt_id t \<notin> set (map tt_id v)" "pt_items t = []"
  shows "view_turn (from_pending_turn t) v = v @ [turn_of_pending t]"
proof -
  have "\<not> list_ex (\<lambda>u. tt_id u = pt_id t) v" using assms(1) unfolding list_ex_iff set_map image_iff by fastforce
  then show ?thesis using assms(2) by (simp add: view_turn_def from_pending_turn_def turn_of_change_def turn_of_pending_def)
qed

lemma open_turn_base:
  assumes b: "base K v m b" "tb_current b = None" "items_quiet b"
    and t: "pt_id t \<notin> set (map tt_id (tb_turns b))" "pt_items t = []"
    and m: "rollout_form (pt_id t) \<longrightarrow> rollout_number (pt_id t) < m'" "m \<le> m'" "rollout_form (pt_id t) \<or> pt_id t \<in> snd K"
  shows "base K v m' ((record_changed_pending_turn t b)\<lparr>tb_current := Some t\<rparr>)"
    "items_quiet ((record_changed_pending_turn t b)\<lparr>tb_current := Some t\<rparr>)"
proof -
  let ?b = "b\<lparr>tb_current := Some t\<rparr>"
  have eq: "(record_changed_pending_turn t b)\<lparr>tb_current := Some t\<rparr> = record_changed_turn (from_pending_turn t) ?b"
    by (simp add: record_pending_turn record_changed_turn_def)
  have sn: "snapshot ?b = view_turn (from_pending_turn t) (snapshot b)" using b(2) t by (simp add: view_turn_new)
  note s = synced_record_turn [OF baseD(3) [OF b(1)] b(3) _ sn]
  have "names_ok K (nat (tb_next_item b)) m' (shape_of (tb_turns b) @ [(pt_id t, [])])"
    using baseD(2) [OF b(1)] b(2) t m by (intro names_new_turn [of K _ m]) simp_all
  with s b t show "base K v m' ((record_changed_pending_turn t b)\<lparr>tb_current := Some t\<rparr>)"
    unfolding eq by (simp add: base_def)
  show "items_quiet ((record_changed_pending_turn t b)\<lparr>tb_current := Some t\<rparr>)" unfolding eq using s(2) by simp
qed

lemma rollout_turn_id_fresh:
  assumes "base K v (tb_rollout b) b"
  shows "rollout_turn_id (tb_rollout b) \<notin> set (map tt_id (snapshot b))"
  using baseD(2) [OF assms] unfolding names_ok_def by (metis fst_shape_of less_irrefl rollout_turn_id_form)

lemma ensure_turn_base:
  assumes b: "base K v (tb_rollout b) b" "items_quiet b" "tb_next_rollout b = Suc (tb_rollout b)" and e: "ensure_turn uuid b = (t, c)"
  shows "base K v (Suc (tb_rollout b)) c" "items_quiet c" "tb_current c = Some t" "name_count c = name_count b"
    "set (map item_id (pt_items t)) \<subseteq> set (all_names (shape_of (snapshot b)))"
    "tb_next_item c = tb_next_item b" "tb_rollout c = tb_rollout b" "tb_next_rollout c = tb_next_rollout b"
proof -
  have "base K v (Suc (tb_rollout b)) c \<and> items_quiet c \<and> tb_current c = Some t \<and> name_count c = name_count b \<and>
    set (map item_id (pt_items t)) \<subseteq> set (all_names (shape_of (snapshot b))) \<and> tb_next_item c = tb_next_item b
    \<and> tb_rollout c = tb_rollout b \<and> tb_next_rollout c = tb_next_rollout b"
  proof (cases "tb_current b")
    case (Some u)
    then show ?thesis using e b by (auto simp: ensure_turn_def intro: base_later)
  next
    case None
    let ?t = "new_turn uuid None b"
    have t: "t = ?t" "c = (record_changed_pending_turn ?t b)\<lparr>tb_current := Some ?t\<rparr>"
      using e None by (auto simp: ensure_turn_def Let_def)
    have i: "pt_id ?t = rollout_turn_id (tb_rollout b)" "pt_items ?t = []" using b(3) by (simp_all add: new_turn_def)
    have "pt_id ?t \<notin> set (map tt_id (tb_turns b))" using rollout_turn_id_fresh [OF b(1)] None i by simp
    from open_turn_base [OF b(1) None b(2) this i(2), of "Suc (tb_rollout b)"] show ?thesis
      using None i unfolding t by (simp add: record_pending_turn)
  qed
  then show "base K v (Suc (tb_rollout b)) c" "items_quiet c" "tb_current c = Some t" "name_count c = name_count b"
    "set (map item_id (pt_items t)) \<subseteq> set (all_names (shape_of (snapshot b)))"
    "tb_next_item c = tb_next_item b" "tb_rollout c = tb_rollout b" "tb_next_rollout c = tb_next_rollout b" by auto
qed

text \<open>Adding to the current turn.\<close>

lemma current_turn_base:
  assumes b: "base K v m b" "tb_current b = Some t"
    and names: "names_ok K (nat n) m (shape_of (tb_turns b @ [turn_of_pending (t\<lparr>pt_items := upsert_turn_item (pt_items t) x\<rparr>)]))" "0 \<le> n"
  shows "base K v m (record_changed_item (pt_id t) x
     (b\<lparr>tb_next_item := n, tb_current := Some (t\<lparr>pt_items := upsert_turn_item (pt_items t) x\<rparr>)\<rparr>))"
proof -
  let ?b = "b\<lparr>tb_next_item := n, tb_current := Some (t\<lparr>pt_items := upsert_turn_item (pt_items t) x\<rparr>)\<rparr>"
  have "names_ok K (nat (tb_next_item b)) m (shape_of (tb_turns b @ [turn_of_pending t]))" using baseD(2) [OF b(1)] b(2) by simp
  from view_item_last [OF this, of x]
  have "snapshot ?b = view_item \<lparr>ic_turn_id = pt_id t, ic_item = x\<rparr> (snapshot b)" using b(2) by (simp add: turn_of_pending_items)
  from synced_record_item [OF baseD(3) [OF b(1)] _ this] names b(2) show ?thesis by (simp add: base_def)
qed

definition step_ready :: "string set \<times> string set \<Rightarrow> thread_turn list \<Rightarrow> thread_builder \<Rightarrow> bool" where
  "step_ready K v b =
     (kept b \<and> base K v (tb_rollout b) b \<and> all_quiet b \<and> tb_next_rollout b = Suc (tb_rollout b) \<and> name_count b \<le> tb_rollout b
      \<and> int (tb_rollout b) + 2 \<le> i64_max)"

definition step_done :: "string set \<times> string set \<Rightarrow> thread_turn list \<Rightarrow> thread_builder \<Rightarrow> bool" where
  "step_done K v b = (kept b \<and> base K v (tb_next_rollout b) b \<and> name_count b \<le> tb_next_rollout b)"

lemma ready_done: "step_ready K v b \<Longrightarrow> step_done K v b"
  by (auto simp: step_ready_def step_done_def intro: base_later)

lemma ready_finish: "step_ready K v b \<Longrightarrow> step_ready K v (finish_current_turn b)"
  unfolding step_ready_def
  by (auto simp del: snapshot_simps simp: base_finish quiet_finish snapshot_finish) (simp add: kept_def)

text \<open>Every way to add one item to the current turn.\<close>

lemma add_to_current:
  assumes r: "step_ready K v b" and e: "ensure_turn uuid b = (t, c)"
    and items: "pt_items t = xs" "upsert_turn_item xs x = ys" "length ys \<le> Suc (length xs)" "ys \<noteq> []" and n: "0 \<le> n"
    and names: "\<And>m sh i. names_ok K (nat (tb_next_item b)) m (sh @ [(i, map item_id xs)]) \<Longrightarrow>
                 names_ok K (nat n) m (sh @ [(i, map item_id ys)])"
  shows "step_done K v (record_changed_item (pt_id t) x (c\<lparr>tb_next_item := n, tb_current := Some (t\<lparr>pt_items := ys\<rparr>)\<rparr>))"
proof -
  from r have b: "base K v (tb_rollout b) b" "items_quiet b" "tb_next_rollout b = Suc (tb_rollout b)"
    by (auto simp: step_ready_def intro: all_quiet_items)
  note c = ensure_turn_base [OF b e]
  have "names_ok K (nat (tb_next_item b)) (Suc (tb_rollout b)) (shape_of (tb_turns c) @ [(pt_id t, map item_id xs)])"
    using baseD(2) [OF c(1)] c(3,6) items(1) by simp
  from names [OF this] items
  have "names_ok K (nat n) (Suc (tb_rollout b)) (shape_of (tb_turns c @ [turn_of_pending (t\<lparr>pt_items := upsert_turn_item (pt_items t) x\<rparr>)]))"
    by simp
  from current_turn_base [OF c(1,3) this n]
  have "base K v (Suc (tb_rollout b)) (record_changed_item (pt_id t) x (c\<lparr>tb_next_item := n, tb_current := Some (t\<lparr>pt_items := ys\<rparr>)\<rparr>))"
    using items by simp
  moreover have "length (all_names (shape_of (tb_turns c))) + length ys \<le> Suc (tb_rollout b)"
    using c(3,4) items r by (simp add: step_ready_def)
  ultimately show ?thesis using c(3,8) b(3) items(4)
    by (simp add: step_done_def kept_def turn_kept_def)
qed

lemma ensure_turn_next:
  "ensure_turn uuid (b\<lparr>tb_next_item := k\<rparr>) = (fst (ensure_turn uuid b), (snd (ensure_turn uuid b))\<lparr>tb_next_item := k\<rparr>)"
  by (auto simp: ensure_turn_def new_turn_def record_pending_turn record_changed_turn_def Let_def split: option.splits)

lemma i64_wrap_small: "0 \<le> i \<Longrightarrow> i \<le> i64_max \<Longrightarrow> i64_wrap i = i"
  by (simp add: i64_wrap_def i64_max_def)

lemma next_item_bound: "step_ready K v b \<Longrightarrow> 0 \<le> tb_next_item b \<and> tb_next_item b + 1 \<le> i64_max"
  unfolding step_ready_def base_def names_ok_def by auto

lemma fresh_name:
  assumes r: "step_ready K v b" and e: "ensure_turn uuid b = (t, c)"
  shows "item_name (tb_next_item b) \<notin> set (map item_id (pt_items t))"
proof -
  have b: "base K v (tb_rollout b) b" "items_quiet b" "tb_next_rollout b = Suc (tb_rollout b)"
    using r by (auto simp: step_ready_def intro: all_quiet_items)
  obtain n where n: "tb_next_item b = int n" using baseD(1) [OF b(1)] by (metis nat_0_le)
  have "item_name (int n) \<notin> set (all_names (shape_of (snapshot b)))"
    using baseD(2) [OF b(1)] n unfolding names_ok_def by (metis item_name_generated less_irrefl nat_int)
  with ensure_turn_base(5) [OF b e] n show ?thesis by auto
qed

lemma generated_done:
  assumes r: "step_ready K v b" and mk: "\<And>i. item_id (mk i) = i"
  shows "step_done K v (push_generated uuid mk b)"
proof -
  obtain t c where e: "ensure_turn uuid b = (t, c)" by fastforce
  let ?x = "mk (item_name (tb_next_item b))"
  have nx: "i64_wrap (tb_next_item b + 1) = tb_next_item b + 1" "0 \<le> tb_next_item b"
    using next_item_bound [OF r] by (simp_all add: i64_wrap_small)
  have "push_generated uuid mk b = record_changed_item (pt_id t) ?x
      (c\<lparr>tb_next_item := tb_next_item b + 1, tb_current := Some (t\<lparr>pt_items := pt_items t @ [?x]\<rparr>)\<rparr>)"
    using e nx by (simp add: push_generated_def next_item_id_def push_item_in_current_turn_def ensure_turn_next Let_def)
  moreover have "upsert_turn_item (pt_items t) ?x = pt_items t @ [?x]"
    using fresh_name [OF r e] mk by (simp add: upsert_turn_item_fresh)
  moreover have "names_ok K (nat (tb_next_item b + 1)) m (sh @ [(i, map item_id (pt_items t @ [?x]))])"
    if "names_ok K (nat (tb_next_item b)) m (sh @ [(i, map item_id (pt_items t))])" for m sh i
    using names_push [OF that] nx(2) mk by (simp add: nat_add_distrib)
  ultimately show ?thesis
    using add_to_current [OF r e, of "pt_items t" ?x "pt_items t @ [?x]" "tb_next_item b + 1"] nx(2) by simp
qed

text \<open>An item with an id from outside.\<close>

lemma outside_names:
  assumes "names_ok K nx m (sh @ [(i, map item_id xs)])" "\<not> generated_form (item_id x)" "item_id x \<in> fst K"
  shows "names_ok K nx m (sh @ [(i, map item_id (upsert_turn_item xs x))])"
  using assms names_add [of K nx m sh i "map item_id xs" "[]" "item_id x"] by (auto simp: upsert_turn_item_names)

lemma upsert_turn_item_length: "length (upsert_turn_item xs x) \<le> Suc (length xs)" "upsert_turn_item xs x \<noteq> []"
proof -
  have "length (map item_id (upsert_turn_item xs x)) \<le> Suc (length xs)" by (simp add: upsert_turn_item_names)
  moreover have "map item_id (upsert_turn_item xs x) \<noteq> []" by (auto simp: upsert_turn_item_names)
  ultimately show "length (upsert_turn_item xs x) \<le> Suc (length xs)" "upsert_turn_item xs x \<noteq> []" by auto
qed

lemma upsert_done:
  assumes r: "step_ready K v b" and x: "\<not> generated_form (item_id x)" "item_id x \<in> fst K"
  shows "step_done K v (upsert_item_in_current_turn uuid x b)"
proof -
  obtain t c where e: "ensure_turn uuid b = (t, c)" by fastforce
  have b: "base K v (tb_rollout b) b" "items_quiet b" "tb_next_rollout b = Suc (tb_rollout b)"
    using r by (auto simp: step_ready_def intro: all_quiet_items)
  have "c\<lparr>tb_next_item := tb_next_item b\<rparr> = c" using ensure_turn_base(6) [OF b e] by simp
  then have "upsert_item_in_current_turn uuid x b = record_changed_item (pt_id t) x
      (c\<lparr>tb_next_item := tb_next_item b, tb_current := Some (t\<lparr>pt_items := upsert_turn_item (pt_items t) x\<rparr>)\<rparr>)"
    using e by (simp add: upsert_item_in_current_turn_def)
  then show ?thesis
    using add_to_current [OF r e refl refl upsert_turn_item_length baseD(1) [OF b(1)] outside_names [OF _ x]] by simp
qed

lemma hook_done:
  assumes r: "step_ready K v b" and x: "\<not> generated_form (item_id x)" "item_id x \<in> fst K" "item_id x \<notin> set (all_names (shape_of (snapshot b)))"
  shows "step_done K v (push_item_in_current_turn uuid x b)"
proof -
  obtain t c where e: "ensure_turn uuid b = (t, c)" by fastforce
  have b: "base K v (tb_rollout b) b" "items_quiet b" "tb_next_rollout b = Suc (tb_rollout b)"
    using r by (auto simp: step_ready_def intro: all_quiet_items)
  have "item_id x \<notin> set (map item_id (pt_items t))" using x(3) ensure_turn_base(5) [OF b e] by blast
  then have "push_item_in_current_turn uuid x b = upsert_item_in_current_turn uuid x b"
    using e by (simp add: push_item_in_current_turn_def upsert_item_in_current_turn_def upsert_turn_item_fresh)
  then show ?thesis using upsert_done [OF r x(1,2)] by simp
qed

lemma finished_upsert_done:
  assumes r: "step_ready K v b" and x: "\<not> generated_form (item_id x)" "item_id x \<in> fst K" and cur: "\<forall>t. tb_current b = Some t \<longrightarrow> pt_id t \<noteq> i"
  shows "step_done K v (upsert_item_in_finished_turn i x b)"
proof (cases "list_ex (\<lambda>t. tt_id t = i) (tb_turns b)")
  case False
  then show ?thesis using ready_done [OF r] by (simp add: upsert_item_in_finished_turn_def)
next
  case True
  let ?c = "b\<lparr>tb_turns := update_first (\<lambda>t. tt_id t = i) (\<lambda>t. t\<lparr>tt_items := upsert_turn_item (tt_items t) x\<rparr>) (tb_turns b)\<rparr>"
  have sn: "snapshot ?c = view_item \<lparr>ic_turn_id = i, ic_item = x\<rparr> (snapshot b)"
    using True cur by (simp add: snapshot_def view_item_def update_first_append split: option.splits)
  from r have b: "base K v (tb_rollout b) b" "name_count b \<le> tb_rollout b" "kept b" by (auto simp: step_ready_def)
  have sn': "snapshot (record_changed_item i x ?c) = snapshot ?c" by (simp add: snapshot_def)
  have "synced v (record_changed_item i x ?c)" 
    by (rule synced_record_item [OF baseD(3) [OF b(1)] _ sn]) (use True in \<open>auto simp: snapshot_def list_ex_iff\<close>)
  with names_view_item [OF baseD(2) [OF b(1)] x, of i] b r show ?thesis
    using True unfolding upsert_item_in_finished_turn_def
    by (auto simp del: snapshot_simps simp: step_done_def base_def kept_def step_ready_def sn sn' intro: names_later)
qed

lemma upsert_in_done:
  assumes r: "step_ready K v b" and x: "\<not> generated_form (item_id x)" "item_id x \<in> fst K"
  shows "step_done K v (upsert_item_in_turn_id i x b)"
proof (cases "\<exists>t. tb_current b = Some t \<and> pt_id t = i")
  case True
  then obtain t where t: "tb_current b = Some t" "pt_id t = i" by blast
  then have "upsert_item_in_turn_id i x b = upsert_item_in_current_turn [] x b"
    by (simp add: upsert_item_in_turn_id_def upsert_item_in_current_turn_def ensure_turn_def)
  then show ?thesis using upsert_done [OF r x] by simp
next
  case False
  then have "upsert_item_in_turn_id i x b = upsert_item_in_finished_turn i x b"
    by (auto simp: upsert_item_in_turn_id_def split: option.splits)
  then show ?thesis using finished_upsert_done [OF r x] False by auto
qed

lemma reasoning_done:
  assumes r: "step_ready K v b" and t: "tb_current b = Some t" "pt_items t = xs @ [x]" and y: "item_id y = item_id x"
  shows "step_done K v (record_changed_item (pt_id t) y (b\<lparr>tb_current := Some (t\<lparr>pt_items := xs @ [y]\<rparr>)\<rparr>))"
proof -
  have e: "ensure_turn [] b = (t, b)" using t by (simp add: ensure_turn_def)
  from r have b: "base K v (tb_rollout b) b" by (simp add: step_ready_def)
  then have "distinct (map item_id (xs @ [x]))" using t unfolding base_def names_ok_def by simp
  then have "upsert_turn_item (xs @ [x]) y = xs @ [y]" by (rule upsert_turn_item_last [OF y])
  from add_to_current [OF r e t(2) this _ _ baseD(1) [OF b]] y
  have "step_done K v (record_changed_item (pt_id t) y
      (b\<lparr>tb_next_item := tb_next_item b, tb_current := Some (t\<lparr>pt_items := xs @ [y]\<rparr>)\<rparr>))" by simp
  then show ?thesis by simp
qed

text \<open>Changes of a turn's status.\<close>

lemma view_turn_last:
  assumes "names_ok K nx m (shape_of (ts @ [turn_of_pending t]))" "same_turn t u"
  shows "view_turn (from_pending_turn u) (ts @ [turn_of_pending t]) = ts @ [turn_of_pending u]"
  using names_current_id [OF assms(1)] assms(2)
  by (simp add: view_turn_def update_first_append from_pending_turn_def set_turn_metadata_def same_turn_def turn_of_pending_def)

lemma touched_done:
  assumes r: "step_ready K v b" and t: "tb_current b = Some t" "same_turn t u"
  shows "step_done K v (change_current_turn u b)"
proof -
  from r have b: "base K v (tb_rollout b) b" "items_quiet b" "name_count b \<le> tb_rollout b" "kept b" "tb_next_rollout b = Suc (tb_rollout b)"
    by (auto simp: step_ready_def intro: all_quiet_items)
  have names: "names_ok K (nat (tb_next_item b)) (tb_rollout b) (shape_of (tb_turns b @ [turn_of_pending t]))"
    using baseD(2) [OF b(1)] t by simp
  have sn: "snapshot (b\<lparr>tb_current := Some u\<rparr>) = view_turn (from_pending_turn u) (snapshot b)"
    using view_turn_last [OF names t(2)] t by simp
  have "synced v (change_current_turn u b)"
    unfolding change_current_turn_def by (rule synced_record_turn [OF baseD(3) [OF b(1)] b(2) _ sn]) simp
  moreover have "shape_of (snapshot (change_current_turn u b)) = shape_of (snapshot b)" "kept (change_current_turn u b)"
    using t b(4) by (simp_all add: change_current_turn_def same_turn_def kept_def turn_kept_def)
  ultimately show ?thesis using b
    by (auto simp del: snapshot_simps simp: step_done_def base_def change_current_turn_def intro: names_later)
qed

lemma done_finish: "step_done K v b \<Longrightarrow> step_done K v (finish_current_turn b)"
  unfolding step_done_def
  by (auto simp del: snapshot_simps simp: base_finish quiet_finish snapshot_finish) (simp add: kept_def)

lemma find_update_first:
  assumes "List.find p xs = Some x"
  shows "update_first p f xs = update_first p (\<lambda>_. f x) xs" "p x" "x \<in> set xs" "list_ex p xs"
proof -
  show "p x" "x \<in> set xs" using assms by (auto simp: find_Some_iff)
  then show "list_ex p xs" by (auto simp: list_ex_iff)
  show "update_first p f xs = update_first p (\<lambda>_. f x) xs" using assms by (induction xs) (auto split: if_splits)
qed

lemma finished_done:
  assumes r: "step_ready K v b"
    and f: "\<And>t. tt_id (f t) = tt_id t \<and> tt_items (f t) = tt_items t \<and> tt_view (f t) = tt_view t"
  shows "step_done K v (change_finished_turn i f b)"
proof (cases "List.find (\<lambda>t. tt_id t = i) (tb_turns b)")
  case None
  then show ?thesis using ready_done [OF r] by (simp add: change_finished_turn_def)
next
  case (Some t)
  note t = find_update_first [OF Some]
  let ?c = "b\<lparr>tb_turns := update_first (\<lambda>t. tt_id t = i) f (tb_turns b)\<rparr>"
  from r have b: "base K v (tb_rollout b) b" "items_quiet b" "name_count b \<le> tb_rollout b" "kept b" "tb_next_rollout b = Suc (tb_rollout b)"
    by (auto simp: step_ready_def intro: all_quiet_items)
  have ft: "set_turn_metadata (from_turn (f t)) t = f t"
    using f [of t] by (cases t, cases "f t") (simp add: set_turn_metadata_def from_turn_def)
  have "update_first (\<lambda>t. tt_id t = i) (set_turn_metadata (from_turn (f t))) (tb_turns b) = update_first (\<lambda>t. tt_id t = i) f (tb_turns b)"
    using t(1) find_update_first(1) [OF Some, of "set_turn_metadata (from_turn (f t))"] ft by simp
  then have sn: "snapshot ?c = view_turn (from_turn (f t)) (snapshot b)"
    using t f [of t] by (simp add: snapshot_def view_turn_def from_turn_def update_first_append list_ex_append)
  have "synced v (record_changed_turn (from_turn (f t)) ?c)"
    by (rule synced_record_turn [OF baseD(3) [OF b(1)] b(2) _ sn]) simp
  moreover have "shape_of (snapshot (record_changed_turn (from_turn (f t)) ?c)) = shape_of (snapshot b)"
    using f by (simp add: snapshot_def shape_update_first_same)
  ultimately show ?thesis using b Some
    by (auto simp del: snapshot_simps simp: step_done_def base_def change_finished_turn_def kept_def intro: names_later)
qed

text \<open>Opening, compacting and rolling back.\<close>

lemma started_done:
  assumes r: "step_ready K v b" and i: "\<not> rollout_form i" "i \<in> snd K" "i \<notin> set (map tt_id (snapshot b))"
  shows "step_done K v (handle_turn_started uuid i s b)"
proof -
  let ?b = "finish_current_turn b"
  let ?t = "(new_turn uuid (Some i) ?b)\<lparr>pt_status := TurnInProgress, pt_started_at := s, pt_opened_explicitly := True\<rparr>"
  from r have k: "kept b" by (simp add: step_ready_def)
  have rb: "step_ready K v ?b" by (rule ready_finish [OF r])
  then have b: "base K v (tb_rollout b) ?b" "items_quiet ?b" "tb_next_rollout ?b = Suc (tb_rollout b)"
    by (auto simp: step_ready_def intro: all_quiet_items)
  have t: "pt_id ?t = i" "pt_items ?t = []" by (simp_all add: new_turn_def)
  have "tb_turns ?b = snapshot b" using snapshot_finish [OF k] by simp
  then have fresh: "pt_id ?t \<notin> set (map tt_id (tb_turns ?b))" using i(3) t by simp
  have "base K v (Suc (tb_rollout b)) ((record_changed_pending_turn ?t ?b)\<lparr>tb_current := Some ?t\<rparr>)"
    by (rule open_turn_base(1) [OF b(1) _ b(2) fresh t(2)]) (use i t in simp_all)
  moreover have "name_count ((record_changed_pending_turn ?t ?b)\<lparr>tb_current := Some ?t\<rparr>) \<le> Suc (tb_rollout b)"
    using rb t by (simp add: step_ready_def record_pending_turn)
  ultimately show ?thesis using b(3) t
    by (simp add: handle_turn_started_def Let_def step_done_def kept_def turn_kept_def record_pending_turn)
qed

lemma compacted_done:
  assumes r: "step_ready K v b"
  shows "step_done K v (handle_compacted uuid b)"
proof -
  obtain t c where e: "ensure_turn uuid b = (t, c)" by fastforce
  from r have b: "base K v (tb_rollout b) b" "items_quiet b" "tb_next_rollout b = Suc (tb_rollout b)"
    by (auto simp: step_ready_def intro: all_quiet_items)
  note c = ensure_turn_base [OF b e]
  have sn: "snapshot (handle_compacted uuid b) = snapshot c"
    using e c(3) by (simp add: handle_compacted_def turn_of_pending_def)
  have "synced v (handle_compacted uuid b)"
    using baseD(3) [OF c(1)] sn e unfolding synced_def by (simp del: snapshot_simps add: handle_compacted_def split: option.splits)
  with c b r e sn show ?thesis
    by (auto simp del: snapshot_simps simp: step_done_def base_def step_ready_def handle_compacted_def kept_def turn_kept_def)
qed

lemma view_removed_suffix:
  assumes "distinct (map tt_id ts)"
  shows "view_removed (map tt_id (drop k ts)) ts = take k ts"
proof -
  have "set (map tt_id (take k ts)) \<inter> set (map tt_id (drop k ts)) = {}"
    using assms by (metis append_take_drop_id distinct_append map_append)
  then have "filter (\<lambda>t. tt_id t \<notin> set (map tt_id (drop k ts))) (take k ts) = take k ts" by (intro filter_True) auto
  moreover have "filter (\<lambda>t. tt_id t \<notin> set (map tt_id (drop k ts))) (drop k ts) = []" by (intro filter_False) auto
  ultimately have "filter (\<lambda>t. tt_id t \<notin> set (map tt_id (drop k ts))) (take k ts @ drop k ts) = take k ts"
    by (simp only: filter_append append_Nil2)
  then show ?thesis unfolding view_removed_def by simp
qed

lemma all_names_count: "length (all_names (shape_of ts)) = sum_list (map (\<lambda>t. length (tt_items t)) ts)"
  by (induction ts) simp_all

lemma rollback_eq:
  "handle_thread_rollback n b =
     (let c = finish_current_turn b; k = length (tb_turns c) - n
      in (record_removed_turn_ids (map tt_id (drop k (tb_turns c))) c)
           \<lparr>tb_turns := take k (tb_turns c),
            tb_next_item := (case i64_of_nat (u64_sat_succ (sum_list (map (\<lambda>t. length (tt_items t)) (take k (tb_turns c))))) of
                               Some i \<Rightarrow> i | None \<Rightarrow> i64_max)\<rparr>)"
  by (simp add: handle_thread_rollback_def Let_def)

lemma rolled_back_done:
  assumes r: "step_ready K v b"
  shows "step_done K v (handle_thread_rollback n b)"
proof -
  define c where "c = finish_current_turn b"
  define k where "k = length (tb_turns c) - n"
  have rc: "step_ready K v c" unfolding c_def by (rule ready_finish [OF r])
  then have b: "base K v (tb_rollout c) c" "all_quiet c" "tb_next_rollout c = Suc (tb_rollout c)" "name_count c \<le> tb_rollout c"
    "int (tb_rollout c) + 2 \<le> i64_max" by (auto simp: step_ready_def)
  have cur: "tb_current c = None" by (simp add: c_def)
  have ok: "names_ok K (nat (tb_next_item c)) (tb_rollout c) (shape_of (tb_turns c))" using baseD(2) [OF b(1)] cur by simp
  let ?m = "length (all_names (shape_of (take k (tb_turns c))))"
  have "all_names (shape_of (tb_turns c)) = all_names (shape_of (take k (tb_turns c))) @ all_names (shape_of (drop k (tb_turns c)))"
    by (metis all_names_simps(3) append_take_drop_id shape_of_simps(3))
  then have m: "?m \<le> tb_rollout c" using b(4) cur by simp
  then have nx: "(case i64_of_nat (u64_sat_succ ?m) of Some i \<Rightarrow> i | None \<Rightarrow> i64_max) = int ?m + 1"
    using b(5) by (simp add: u64_sat_succ_small i64_of_nat_def i64_max_def u64_max_def u64_modulus_def)
  have "names_ok K (?m + 1) (tb_rollout c) (shape_of (take k (tb_turns c)))"
    using names_take [OF ok, of k] by (simp add: shape_of_def take_map)
  moreover have "synced v (record_removed_turn_ids (map tt_id (drop k (tb_turns c)))
       (c\<lparr>tb_turns := take k (tb_turns c), tb_next_item := int ?m + 1\<rparr>))"
    by (rule synced_record_removed [OF baseD(3) [OF b(1)] b(2)])
      (use cur ok view_removed_suffix in \<open>simp_all add: names_ok_def\<close>)
  moreover have "handle_thread_rollback n b = record_removed_turn_ids (map tt_id (drop k (tb_turns c)))
       (c\<lparr>tb_turns := take k (tb_turns c), tb_next_item := int ?m + 1\<rparr>)"
    using nx unfolding rollback_eq Let_def c_def [symmetric] k_def [symmetric] all_names_count
    by (simp add: record_removed_turn_ids_def)
  ultimately show ?thesis using b(3) m cur
    by (auto simp: step_done_def base_def kept_def nat_add_distrib intro: names_later)
qed

lemma history_step_done:
  assumes "history_step l b b'" "step_ready K v b" "label_ok K l b"
  shows "step_done K v b'"
  using assms
proof (cases rule: history_step.cases)
  case (step_message mk uuid)
  then show ?thesis using generated_done [OF ready_finish [OF assms(2)]] by simp
next
  case (step_closed t u)
  then show ?thesis using done_finish [OF touched_done [OF assms(2)]] by simp
next
  case (step_reasoning t xs x y)
  then show ?thesis using reasoning_done [OF assms(2)] by simp
qed (auto simp: label_ok_def intro: ready_done generated_done upsert_done upsert_in_done hook_done touched_done finished_done
    started_done compacted_done rolled_back_done)

end
