(* ===== verification/Thread_Replay.thy ===== *)
theory Thread_Replay
  imports Thread_Invariant
begin

text \<open>
  Whole replays: every step keeps the ids in order and tells the reader of changes what it did, so that a client that applies the
  coalesced changes of any batches has the history that a replay of all the items builds.
\<close>

subsection \<open>Recording does not disturb the replay\<close>

definition untracked :: "thread_builder \<Rightarrow> thread_builder" where
  "untracked b = b\<lparr>tb_changes := None\<rparr>"

lemma untracked_sel [simp]:
  "tb_turns (untracked b) = tb_turns b" "tb_current (untracked b) = tb_current b" "tb_next_item (untracked b) = tb_next_item b"
  "tb_rollout (untracked b) = tb_rollout b" "tb_next_rollout (untracked b) = tb_next_rollout b" "tb_changes (untracked b) = None"
  "snapshot (untracked b) = snapshot b"
  by (simp_all add: untracked_def snapshot_def)

lemma untracked_upd [simp]:
  "untracked (b\<lparr>tb_current := c\<rparr>) = (untracked b)\<lparr>tb_current := c\<rparr>" "untracked (b\<lparr>tb_turns := ts\<rparr>) = (untracked b)\<lparr>tb_turns := ts\<rparr>"
  "untracked (b\<lparr>tb_next_item := n\<rparr>) = (untracked b)\<lparr>tb_next_item := n\<rparr>"
  "untracked (b\<lparr>tb_rollout := k\<rparr>) = (untracked b)\<lparr>tb_rollout := k\<rparr>"
  "untracked (b\<lparr>tb_next_rollout := k\<rparr>) = (untracked b)\<lparr>tb_next_rollout := k\<rparr>"
  "untracked (b\<lparr>tb_changes := x\<rparr>) = untracked b" "tb_changes b = None \<Longrightarrow> untracked b = b"
  by (simp_all add: untracked_def)

lemma untracked_record [simp]:
  "untracked (record_changed_item i x b) = untracked b" "untracked (record_changed_turn c b) = untracked b"
  "untracked (record_changed_pending_turn t b) = untracked b" "untracked (record_removed_turn_ids ids b) = untracked b"
  "record_changed_item i x (untracked b) = untracked b" "record_changed_turn c (untracked b) = untracked b"
  "record_changed_pending_turn t (untracked b) = untracked b" "record_removed_turn_ids ids (untracked b) = untracked b"
  by (simp_all add: record_pending_turn untracked_def record_changed_item_def record_changed_turn_def record_removed_turn_ids_def)

lemma record_after_upd [simp]:
  "record_changed_item i x ((untracked b)\<lparr>tb_current := c\<rparr>) = (untracked b)\<lparr>tb_current := c\<rparr>"
  "record_changed_turn ch ((untracked b)\<lparr>tb_current := c\<rparr>) = (untracked b)\<lparr>tb_current := c\<rparr>"
  "record_changed_item i x ((untracked b)\<lparr>tb_turns := ts\<rparr>) = (untracked b)\<lparr>tb_turns := ts\<rparr>"
  "record_changed_turn ch ((untracked b)\<lparr>tb_turns := ts\<rparr>) = (untracked b)\<lparr>tb_turns := ts\<rparr>"
  using untracked_record(5,6) untracked_upd(1,2) by metis+

lemma untracked_finish: "finish_current_turn (untracked b) = untracked (finish_current_turn b)"
  by (simp add: finish_current_turn_def split: option.splits)

lemma untracked_ensure: "ensure_turn uuid (untracked b) = (fst (ensure_turn uuid b), untracked (snd (ensure_turn uuid b)))"
  by (simp add: ensure_turn_def new_turn_def Let_def split: option.splits)

lemma untracked_current:
  "push_item_in_current_turn uuid x (untracked b) = untracked (push_item_in_current_turn uuid x b)"
  "upsert_item_in_current_turn uuid x (untracked b) = untracked (upsert_item_in_current_turn uuid x b)"
  by (simp_all add: push_item_in_current_turn_def upsert_item_in_current_turn_def untracked_ensure split_def Let_def)

lemma untracked_in_turn: "upsert_item_in_turn_id i x (untracked b) = untracked (upsert_item_in_turn_id i x b)"
  by (simp add: upsert_item_in_turn_id_def upsert_item_in_finished_turn_def split: option.splits)

lemma untracked_by_turn: "upsert_item_by_turn uuid i x (untracked b) = untracked (upsert_item_by_turn uuid i x b)"
  by (simp add: upsert_item_by_turn_def untracked_current untracked_in_turn)

lemma untracked_finished: "change_finished_turn i f (untracked b) = untracked (change_finished_turn i f b)"
  by (simp add: change_finished_turn_def split: option.splits)

lemma untracked_next: "next_item_id (untracked b) = (fst (next_item_id b), untracked (snd (next_item_id b)))"
  by (simp add: next_item_id_def)

lemmas untracked_prims = untracked_finish untracked_ensure untracked_current untracked_in_turn untracked_by_turn untracked_finished untracked_next

lemma untracked_messages:
  "handle_user_message uuid p (untracked b) = untracked (handle_user_message uuid p b)"
  "add_reasoning uuid f g (untracked b) = untracked (add_reasoning uuid f g b)"
  by (simp_all add: handle_user_message_def add_reasoning_def untracked_prims Let_def split_def split: option.splits)

lemma untracked_complete: "complete_current_turn c d t (untracked b) = untracked (complete_current_turn c d t b)"
  by (simp add: complete_current_turn_def Let_def untracked_finish [symmetric])

lemma untracked_turns:
  "handle_error m info (untracked b) = untracked (handle_error m info b)"
  "handle_turn_aborted i c d (untracked b) = untracked (handle_turn_aborted i c d b)"
  "handle_turn_complete j c d (untracked b) = untracked (handle_turn_complete j c d b)"
  "handle_turn_started uuid j s (untracked b) = untracked (handle_turn_started uuid j s b)"
  "handle_compacted uuid (untracked b) = untracked (handle_compacted uuid b)"
  by (simp_all add: handle_error_def handle_turn_aborted_def handle_turn_complete_def handle_turn_started_def handle_compacted_def
      abort_current_turn_def untracked_complete untracked_prims new_turn_def Let_def split_def split: option.splits)

lemma untracked_rollback: "handle_thread_rollback n (untracked b) = untracked (handle_thread_rollback n b)"
  by (simp add: rollback_eq Let_def untracked_finish)

lemma untracked_event: "handle_event lib uuid e (untracked b) = untracked (handle_event lib uuid e b)"
  by (cases e)
    (simp_all add: tool_handler_defs untracked_prims untracked_messages untracked_turns untracked_rollback handle_guardian_assessment_def
      handle_agent_message_def handle_context_compacted_def handle_entered_review_mode_def handle_exited_review_mode_def
      handle_agent_reasoning_def handle_agent_reasoning_raw_content_def handle_item_started_def handle_item_completed_def split_def Let_def
      split: option.splits turn_item.splits)

lemma untracked_rollout_item: "handle_rollout_item lib ui (untracked b) = untracked (handle_rollout_item lib ui b)"
  by (simp add: handle_rollout_item_def Let_def handle_response_item_def untracked_event [symmetric]
      untracked_turns(5) [symmetric] untracked_current(1) [symmetric]
      split: rollout_item.splits response_item.splits option.splits)

subsection \<open>Whole replays\<close>

text \<open>
  The ids that come from outside: an item's or a hook prompt's is not of the form of the builder's own names, a started turn's not
  of the form of an implicit turn's, and no hook prompt and no turn takes an id that was used before.
\<close>

fun well_named :: "string list \<Rightarrow> string list \<Rightarrow> history_label list \<Rightarrow> bool" where
  "well_named items turns [] = True"
| "well_named items turns (Quiet # ls) = well_named items turns ls"
| "well_named items turns (NamesItem i # ls) = (\<not> generated_form i \<and> well_named (i # items) turns ls)"
| "well_named items turns (HookItem i # ls) = (\<not> generated_form i \<and> i \<notin> set items \<and> well_named (i # items) turns ls)"
| "well_named items turns (StartsTurn i # ls) = (\<not> rollout_form i \<and> i \<notin> set turns \<and> well_named items (i # turns) ls)"

fun label_items :: "history_label \<Rightarrow> string list" where
  "label_items (NamesItem i) = [i]"
| "label_items (HookItem i) = [i]"
| "label_items _ = []"

fun label_turns :: "history_label \<Rightarrow> string list" where
  "label_turns (StartsTurn i) = [i]"
| "label_turns _ = []"

definition replay_ok :: "string list \<Rightarrow> string list \<Rightarrow> thread_builder \<Rightarrow> bool" where
  "replay_ok items turns b = (step_done (set items, set turns) [] b \<and> tb_changes b = None)"

lemma well_named_append:
  "well_named is ts (l # ls) \<Longrightarrow> well_named (label_items l @ is) (label_turns l @ ts) ls"
  by (cases l) simp_all

lemma base_mono: "base K v m b \<Longrightarrow> fst K \<subseteq> fst K' \<Longrightarrow> snd K \<subseteq> snd K' \<Longrightarrow> base K' v m b"
  by (auto simp: base_def intro: names_mono)

lemma label_ok_named:
  assumes "well_named is ts (l # ls)" "names_ok (set is, set ts) nx m (shape_of (snapshot b))"
  shows "label_ok (set (label_items l @ is), set (label_turns l @ ts)) l b"
proof -
  have "x \<in> set is" if "x \<in> set (all_names (shape_of (snapshot b)))" "\<not> generated_form x" for x
    using assms(2) that unfolding names_ok_def by auto
  moreover have "i \<in> set ts" if "i \<in> set (map tt_id (snapshot b))" "\<not> rollout_form i" for i
    using assms(2) that unfolding names_ok_def fst_shape_of by auto
  ultimately show ?thesis using assms(1) by (cases l) (auto simp: label_ok_def)
qed

lemma rollout_step_done:
  assumes ok: "replay_ok is ts b" and named: "well_named is ts (rollout_label lib ui # ls)"
    and small: "int (tb_next_rollout b) + 2 \<le> i64_max" and ch: "ch = None \<or> ch = Some no_changes"
  shows "step_done (set (label_items (rollout_label lib ui) @ is), set (label_turns (rollout_label lib ui) @ ts)) (snapshot b)
     (handle_rollout_item lib ui (b\<lparr>tb_changes := ch\<rparr>))"
proof -
  let ?l = "rollout_label lib ui"
  let ?K = "(set (label_items ?l @ is), set (label_turns ?l @ ts))"
  let ?b = "b\<lparr>tb_changes := ch\<rparr>"
  let ?c = "?b\<lparr>tb_rollout := tb_next_rollout ?b, tb_next_rollout := Suc (tb_next_rollout ?b)\<rparr>"
  have sn: "snapshot ?c = snapshot b" by (simp add: snapshot_def)
  from ok have b: "kept b" "base (set is, set ts) [] (tb_next_rollout b) b" "name_count b \<le> tb_next_rollout b"
    by (simp_all add: replay_ok_def step_done_def)
  have "synced (snapshot b) ?c" using ch sn by (auto simp: synced_def) (simp_all add: no_changes_def)
  moreover have "names_ok ?K (nat (tb_next_item b)) (tb_next_rollout b) (shape_of (snapshot b))"
    using baseD(2) [OF b(2)] by (rule names_mono) auto
  ultimately have "base ?K (snapshot b) (tb_rollout ?c) ?c" using baseD(1) [OF b(2)] sn by (simp add: base_def)
  then have "step_ready ?K (snapshot b) ?c"
    using b small ch sn by (auto simp: step_ready_def kept_def all_quiet_def)
  moreover have "label_ok ?K ?l ?c" using label_ok_named [OF named, of _ _ ?c] baseD(2) [OF b(2)] sn by simp
  ultimately show ?thesis using history_step_done handle_rollout_item_step by blast
qed

lemma rollout_item_ok:
  assumes "replay_ok is ts b" "well_named is ts (rollout_label lib ui # ls)" "int (tb_next_rollout b) + 2 \<le> i64_max"
  shows "replay_ok (label_items (rollout_label lib ui) @ is) (label_turns (rollout_label lib ui) @ ts) (handle_rollout_item lib ui b)"
    "tb_next_rollout (handle_rollout_item lib ui b) = Suc (tb_next_rollout b)"
proof -
  from assms(1) have n: "tb_changes b = None" by (simp add: replay_ok_def)
  let ?c = "handle_rollout_item lib ui b"
  have c: "tb_changes ?c = None" "tb_next_rollout ?c = Suc (tb_next_rollout b)"
    using history_step_counters [OF handle_rollout_item_step [of lib ui b]] n by simp_all
  have "b\<lparr>tb_changes := None\<rparr> = b" using n by simp
  with rollout_step_done [OF assms, of None] c(1)
  show "replay_ok (label_items (rollout_label lib ui) @ is) (label_turns (rollout_label lib ui) @ ts) ?c"
    by (simp add: replay_ok_def step_done_def base_def synced_def)
  show "tb_next_rollout ?c = Suc (tb_next_rollout b)" by (rule c(2))
qed

lemma rollout_item_changes:
  assumes ok: "replay_ok is ts b" and a: "well_named is ts (rollout_label lib ui # ls)" "int (tb_next_rollout b) + 2 \<le> i64_max"
    and h: "handle_rollout_item_with_changes lib ui b = (cs, c)"
  shows "c = handle_rollout_item lib ui b" "apply_change_set cs (snapshot b) = snapshot c"
    "\<forall>x\<in>set (cs_items cs). ic_turn_id x \<in> set (map tt_id (snapshot c))"
proof -
  let ?d = "handle_rollout_item lib ui (b\<lparr>tb_changes := Some no_changes\<rparr>)"
  have "tb_changes ?d \<noteq> None"
    using history_step_counters [OF handle_rollout_item_step [of lib ui "b\<lparr>tb_changes := Some no_changes\<rparr>"]] by simp
  then obtain cs' where cs': "tb_changes ?d = Some cs'" by blast
  then have c: "cs = cs'" "c = untracked ?d"
    using h by (simp_all add: handle_rollout_item_with_changes_def collect_changes_def Let_def untracked_def)
  have "untracked (b\<lparr>tb_changes := Some no_changes\<rparr>) = b" using ok by (simp add: replay_ok_def)
  then show "c = handle_rollout_item lib ui b" using c(2) untracked_rollout_item [of lib ui "b\<lparr>tb_changes := Some no_changes\<rparr>"] by simp
  have "synced (snapshot b) ?d"
    using rollout_step_done [OF ok a, of "Some no_changes"] by (simp add: step_done_def base_def)
  then show "apply_change_set cs (snapshot b) = snapshot c" "\<forall>x\<in>set (cs_items cs). ic_turn_id x \<in> set (map tt_id (snapshot c))"
    using cs' unfolding c synced_def by auto
qed

text \<open>A batch: its coalesced changes take a reader from the history before to the history after.\<close>

lemma push_rollout_items:
  assumes "replay_ok is ts b" "well_named is ts (map (rollout_label lib) items @ ls)" "int (tb_next_rollout b) + int (length items) + 1 \<le> i64_max"
    and "accumulator_ok a" "coalesced (accumulator_finish a) v" "apply_change_set (accumulator_finish a) v = snapshot b"
    and "fold (push_rollout_item lib) items (a, b) = (a', b')"
  shows "b' = fold (handle_rollout_item lib) items b \<and> apply_change_set (accumulator_finish a') v = snapshot b'
    \<and> (\<exists>is' ts'. replay_ok is' ts' b' \<and> well_named is' ts' ls) \<and> tb_next_rollout b' = tb_next_rollout b + length items"
  using assms
proof (induction items arbitrary: "is" ts b a)
  case Nil
  then show ?case by auto
next
  case (Cons ui items)
  obtain cs c where h: "handle_rollout_item_with_changes lib ui b = (cs, c)" by fastforce
  have named: "well_named is ts (rollout_label lib ui # map (rollout_label lib) items @ ls)" using Cons.prems(2) by simp
  have small: "int (tb_next_rollout b) + 2 \<le> i64_max" using Cons.prems(3) by simp
  note c = rollout_item_changes [OF Cons.prems(1) named small h]
  note ok = rollout_item_ok [OF Cons.prems(1) named small]
  have scoped: "\<forall>x\<in>set (cs_items cs). ic_turn_id x \<in> set (map tt_id (apply_change_set cs (apply_change_set (accumulator_finish a) v)))"
    using c Cons.prems(6) by simp
  note p = accumulator_push_applies [OF Cons.prems(4,5) scoped]
  have "fold (push_rollout_item lib) items (accumulator_push cs a, c) = (a', b')"
    using Cons.prems(7) h by (simp add: push_rollout_item_def [of lib ui])
  with Cons.IH [of _ _ c "accumulator_push cs a", OF ok(1) [folded c(1)] well_named_append [OF named]]
    accumulator_push_abs(1) [OF Cons.prems(4)] p c Cons.prems(3,6) ok(2) show ?case by auto
qed

lemma batch_changes:
  assumes "replay_ok is ts b" "well_named is ts (map (rollout_label lib) items @ ls)" "int (tb_next_rollout b) + int (length items) + 1 \<le> i64_max"
    and "handle_rollout_items_with_changes lib items b = (cs, c)"
  shows "c = fold (handle_rollout_item lib) items b" "apply_change_set cs (snapshot b) = snapshot c"
    "\<exists>is' ts'. replay_ok is' ts' c \<and> well_named is' ts' ls" "tb_next_rollout c = tb_next_rollout b + length items"
proof -
  obtain a where a: "fold (push_rollout_item lib) items (new_accumulator, b) = (a, c)" "cs = accumulator_finish a"
    using assms(4) by (auto simp: handle_rollout_items_with_changes_def split: prod.splits)
  have "c = fold (handle_rollout_item lib) items b \<and> apply_change_set cs (snapshot b) = snapshot c
    \<and> (\<exists>is' ts'. replay_ok is' ts' c \<and> well_named is' ts' ls) \<and> tb_next_rollout c = tb_next_rollout b + length items"
    unfolding a(2) by (rule push_rollout_items [OF assms(1-3) _ _ _ a(1)]) (simp_all add: new_accumulator_ok)
  then show "c = fold (handle_rollout_item lib) items b" "apply_change_set cs (snapshot b) = snapshot c"
    "\<exists>is' ts'. replay_ok is' ts' c \<and> well_named is' ts' ls" "tb_next_rollout c = tb_next_rollout b + length items" by auto
qed

text \<open>A reader of batches.\<close>

definition read_batch ::
    "item_lib \<Rightarrow> (string \<times> rollout_item) list \<Rightarrow> thread_turn list \<times> thread_builder \<Rightarrow> thread_turn list \<times> thread_builder" where
  "read_batch lib items vb = (let (cs, b) = handle_rollout_items_with_changes lib items (snd vb) in (apply_change_set cs (fst vb), b))"

definition read_batches :: "item_lib \<Rightarrow> (string \<times> rollout_item) list list \<Rightarrow> thread_turn list" where
  "read_batches lib batches = fst (fold (read_batch lib) batches ([], new_builder))"

lemma read_batch_fold:
  assumes "replay_ok is ts b" "well_named is ts (map (rollout_label lib) (concat batches))"
    "int (tb_next_rollout b) + int (length (concat batches)) + 1 \<le> i64_max"
  shows "fold (read_batch lib) batches (snapshot b, b) =
      (snapshot (fold (handle_rollout_item lib) (concat batches) b), fold (handle_rollout_item lib) (concat batches) b)
    \<and> (\<exists>is' ts'. replay_ok is' ts' (fold (handle_rollout_item lib) (concat batches) b))"
  using assms
proof (induction batches arbitrary: "is" ts b)
  case Nil
  then show ?case by auto
next
  case (Cons items batches)
  obtain cs c where h: "handle_rollout_items_with_changes lib items b = (cs, c)" by fastforce
  have named: "well_named is ts (map (rollout_label lib) items @ map (rollout_label lib) (concat batches))" using Cons.prems(2) by simp
  have small: "int (tb_next_rollout b) + int (length items) + 1 \<le> i64_max" using Cons.prems(3) by simp
  note c = batch_changes [OF Cons.prems(1) named small h]
  obtain is' ts' where ok: "replay_ok is' ts' c" "well_named is' ts' (map (rollout_label lib) (concat batches))" using c(3) by blast
  have "int (tb_next_rollout c) + int (length (concat batches)) + 1 \<le> i64_max" using c(4) Cons.prems(3) by simp
  from Cons.IH [OF ok this] h c(1,2) show ?case by (simp add: read_batch_def)
qed

lemma new_builder_ok: "replay_ok [] [] new_builder"
  by (simp add: replay_ok_def step_done_def kept_def base_def synced_def new_builder_def snapshot_def names_ok_def)

lemma finish_is_snapshot: "replay_ok is ts b \<Longrightarrow> finish_builder b = snapshot b"
  using snapshot_finish [of b] by (simp add: finish_builder_def replay_ok_def step_done_def)

text \<open>A thread with a search, a turn that is rolled back and a late end of the search, in two batches.\<close>

definition example_batches :: "(string \<times> rollout_item) list list" where
  "example_batches =
     [[(''u0'', RolloutEvent (TurnStartedEvent ''turn-a'' None)), (''u1'', RolloutEvent (AgentMessageEvent ''hello'' None None)),
       (''u2'', RolloutEvent (WebSearchBeginEvent ''call-1'')),
       (''u3'', RolloutResponseItem (ResponseMessage None ''user'' [ContentInputText ''retry'']))],
      [(''u4'', RolloutEvent (TurnStartedEvent ''turn-b'' None)), (''u5'', RolloutEvent (AgentReasoningEvent ''thinking'')),
       (''u6'', RolloutEvent (ThreadRolledBackEvent 1)), (''u7'', RolloutEvent (WebSearchEndEvent ''call-1'' ''query'' OtherAction))]]"

lemma example_named:
  "well_named [] [] (map (rollout_label example_lib) (concat example_batches))" "int (length (concat example_batches)) + 1 \<le> i64_max"
  by code_simp+

text \<open>
  C9. A client that starts empty and applies the coalesced change set of every batch has exactly the turns that a replay of all the
  items builds, whatever the cut into batches, with rollbacks, late results and repeated updates.
  The ids that items bring are assumed not to have the form of generated ones, and turns and hook prompts to begin under new ids.
\<close>

theorem batches_rebuild_history:
  assumes "well_named [] [] (map (rollout_label lib) (concat batches))" "int (length (concat batches)) + 1 \<le> i64_max"
  shows "read_batches lib batches = build_turns_from_rollout_items lib (concat batches)"
proof -
  have sn: "snapshot new_builder = []" "tb_next_rollout new_builder = 0" by (simp_all add: new_builder_def)
  note r = read_batch_fold [OF new_builder_ok assms(1)]
  show ?thesis using r assms(2) sn finish_is_snapshot unfolding read_batches_def build_turns_from_rollout_items_def by auto
qed

theorem batches_rebuild_history_witness:
  "well_named [] [] (map (rollout_label example_lib) (concat example_batches)) \<and>
   read_batches example_lib example_batches = build_turns_from_rollout_items example_lib (concat example_batches)"
  using batches_rebuild_history [OF example_named] example_named by simp

text \<open>
  C10. In the history that a replay builds, no two turns have the same id, no two items of a turn have the same id, and no two items
  of the whole history have the same generated id, though a rollback sets the counter of generated ids back.
  The ids that items bring are assumed not to have the form of generated ones, and turns and hook prompts to begin under new ids.
\<close>

theorem replayed_ids_are_unique:
  assumes "well_named [] [] (map (rollout_label lib) items)" "int (length items) + 1 \<le> i64_max"
  shows "distinct (map tt_id (build_turns_from_rollout_items lib items)) \<and>
    (\<forall>t\<in>set (build_turns_from_rollout_items lib items). distinct (map item_id (tt_items t))) \<and>
    distinct (filter generated_form (map item_id (concat (map tt_items (build_turns_from_rollout_items lib items)))))"
proof -
  let ?b = "fold (handle_rollout_item lib) items new_builder"
  have "\<exists>is ts. replay_ok is ts ?b"
    using read_batch_fold [OF new_builder_ok, of lib "[items]"] assms by (simp add: new_builder_def)
  then obtain "is" ts where ok: "replay_ok is ts ?b" by blast
  have eq: "build_turns_from_rollout_items lib items = snapshot ?b"
    using finish_is_snapshot [OF ok] by (simp add: build_turns_from_rollout_items_def)
  have "all_names (shape_of v) = map item_id (concat (map tt_items v))" for v by (induction v) simp_all
  moreover have "names_ok (set is, set ts) (nat (tb_next_item ?b)) (tb_next_rollout ?b) (shape_of (snapshot ?b))"
    using ok by (simp add: replay_ok_def step_done_def base_def)
  ultimately show ?thesis unfolding eq names_ok_def fst_shape_of by (auto simp: shape_of_def)
qed

theorem replayed_ids_are_unique_witness:
  "well_named [] [] (map (rollout_label example_lib) (concat example_batches)) \<and>
   distinct (filter generated_form (map item_id (concat (map tt_items (build_turns_from_rollout_items example_lib (concat example_batches))))))"
  using replayed_ids_are_unique [OF example_named] example_named by simp

subsection \<open>Late results\<close>

lemma map_other_ids: "i \<notin> set (map tt_id ts) \<Longrightarrow> map (\<lambda>t. if tt_id t = i then f t else t) ts = ts"
  by (induction ts) auto

lemma update_first_distinct:
  "distinct (map tt_id ts) \<Longrightarrow> update_first (\<lambda>t. tt_id t = i) f ts = map (\<lambda>t. if tt_id t = i then f t else t) ts"
proof (induction ts)
  case (Cons t ts)
  then show ?case using map_other_ids [of i ts f] by (cases "tt_id t = i") auto
qed simp

lemma upsert_in_snapshot:
  assumes "distinct (map tt_id (snapshot b))"
  shows "snapshot (upsert_item_in_turn_id i x b) =
    map (\<lambda>t. if tt_id t = i then t\<lparr>tt_items := upsert_turn_item (tt_items t) x\<rparr> else t) (snapshot b)"
proof (cases "\<exists>t. tb_current b = Some t \<and> pt_id t = i")
  case True
  then obtain t where t: "tb_current b = Some t" "pt_id t = i" by blast
  then have "map (\<lambda>t. if tt_id t = i then t\<lparr>tt_items := upsert_turn_item (tt_items t) x\<rparr> else t) (tb_turns b) = tb_turns b"
    using assms by (intro map_other_ids) simp
  with t show ?thesis by (simp add: upsert_item_in_turn_id_def turn_of_pending_items)
next
  case False
  then have eq: "upsert_item_in_turn_id i x b = upsert_item_in_finished_turn i x b"
    by (auto simp: upsert_item_in_turn_id_def split: option.splits)
  have d: "distinct (map tt_id (tb_turns b))" using assms by (simp add: snapshot_def)
  have "tb_turns (upsert_item_in_finished_turn i x b) = update_first (\<lambda>t. tt_id t = i) (\<lambda>t. t\<lparr>tt_items := upsert_turn_item (tt_items t) x\<rparr>) (tb_turns b)"
    by (simp add: upsert_item_in_finished_turn_def update_first_absent)
  moreover have "tb_current (upsert_item_in_finished_turn i x b) = tb_current b" by (simp add: upsert_item_in_finished_turn_def)
  ultimately show ?thesis
    using False d unfolding eq snapshot_def by (simp add: update_first_distinct split: option.splits)
qed

text \<open>
  A command that ends after newer turns have begun is shown in its own turn: the end of a command changes the item of that command in the
  turn the event names and nothing else, whichever turn is current; when the turn is unknown, nothing changes.
\<close>

theorem late_results_reach_their_turn:
  assumes "distinct (map tt_id (snapshot b))"
  shows "snapshot (handle_event lib uuid (ExecCommandEndEvent p) b) =
    map (\<lambda>t. if tt_id t = ee_turn_id p
             then t\<lparr>tt_items := upsert_turn_item (tt_items t) (build_command_execution_end_item lib p)\<rparr> else t) (snapshot b)"
  using upsert_in_snapshot [OF assms] by (simp add: handle_exec_command_end_def)

text \<open>
  A builder that goes on with live events after a replay gives every implicit turn the id of the last replayed item, so two user
  messages make two turns with one id.
\<close>

theorem live_turns_share_an_id:
  "map tt_id (finish_builder (fold (handle_event example_lib ''u'') [UserMessageEvent p, UserMessageEvent p]
     (handle_rollout_item example_lib (''u'', RolloutOther) new_builder))) = [''rollout-0'', ''rollout-0'']"
proof -
  have "rollout_turn_id 0 = ''rollout-0''" by code_simp
  then show ?thesis
    by (simp add: handle_rollout_item_def new_builder_def handle_user_message_def next_item_id_def push_item_in_current_turn_def
        ensure_turn_def new_turn_def record_changed_pending_turn_def is_tracking_changes_def record_changed_item_def
        finish_builder_def finish_current_turn_def turn_of_pending_def Let_def)
qed

end
