(* ===== verification/Thread_Legacy.thy ===== *)
theory Thread_Legacy
  imports Thread_Coalesce
begin

text \<open>
  Old threads are persisted as legacy events of their items. Replaying these gives back the items that were shown live.
\<close>

subsection \<open>Live items and their legacy events\<close>

text \<open>
  The items whose legacy events carry their id: a search, an image, a finished file change, and a tool call that has one of a result
  and an error, with the status that belongs to it.
\<close>

fun mcp_status_fits :: "mcp_item \<Rightarrow> bool" where
  "mcp_status_fits m =
     (case (mi_result m, mi_error m) of
        (Some r, None) \<Rightarrow> mi_status m = (if ctr_is_error r = Some True then McpFailed else McpCompleted)
      | (None, Some _) \<Rightarrow> mi_status m = McpFailed
      | _ \<Rightarrow> False)"

fun keyed_item :: "turn_item \<Rightarrow> bool" where
  "keyed_item (TurnWebSearch _ _ _) = True"
| "keyed_item (TurnImageView _ _) = True"
| "keyed_item (TurnImageGeneration _) = True"
| "keyed_item (TurnFileChange f) = (fi_status f \<noteq> None)"
| "keyed_item (TurnMcpToolCall m) = (mi_duration m \<noteq> None \<and> mcp_status_fits m)"
| "keyed_item _ = False"

lemma upsert_current_items:
  assumes "tb_current b = Some t"
  shows "tb_current (upsert_item_in_current_turn uuid x b) = Some (t\<lparr>pt_items := upsert_turn_item (pt_items t) x\<rparr>)"
    "upsert_item_by_turn uuid (pt_id t) x b = upsert_item_in_current_turn uuid x b"
  using assms by (simp_all add: upsert_item_in_current_turn_def upsert_item_by_turn_def upsert_item_in_turn_id_def ensure_turn_def)

lemma upsert_turn_item_again:
  "item_id y = item_id x \<Longrightarrow> upsert_turn_item (upsert_turn_item xs y) x = upsert_turn_item xs x"
  by (simp add: upsert_turn_item_by upsert_by_twice)

lemma or_null_some: "or_null (some_unless_null v) = v"
  by (simp add: or_null_def some_unless_null_def)

lemma mcp_end_rebuilds:
  assumes "mcp_legacy_end_event m = Some e" "mcp_status_fits m"
  shows "handle_mcp_tool_call_end uuid e = upsert_item_in_current_turn uuid (thread_item_of (TurnMcpToolCall m))"
  using assms
  by (auto simp: mcp_legacy_end_event_def handle_mcp_tool_call_end_def mcp_end_is_success_def or_null_some fun_eq_iff
      split: option.splits if_splits)

lemma mcp_end_some: "mi_duration m \<noteq> None \<Longrightarrow> mcp_status_fits m \<Longrightarrow> \<exists>e. mcp_legacy_end_event m = Some e"
  by (auto simp: mcp_legacy_end_event_def split: option.splits)

lemma completed_rebuilds:
  assumes "keyed_item it" "tb_current b = Some t"
  shows "fold (handle_event lib uuid) (completed_legacy_events raw (pt_id t) it) b = upsert_item_in_current_turn uuid (thread_item_of it) b"
proof (cases it)
  case (TurnMcpToolCall m)
  then obtain e where e: "mcp_legacy_end_event m = Some e" using assms mcp_end_some by auto
  with TurnMcpToolCall assms mcp_end_rebuilds [OF e, of uuid] show ?thesis by (simp add: completed_legacy_events_def)
next
  case (TurnFileChange f)
  with assms show ?thesis
    by (auto simp: completed_legacy_events_def file_change_legacy_end_event_def handle_patch_apply_end_def upsert_current_items
        build_file_change_end_item_def)
qed (use assms in \<open>auto simp: completed_legacy_events_def handle_web_search_end_def handle_view_image_tool_call_def handle_image_generation_end_def\<close>)

lemma upsert_some:
  "item_id x = i \<Longrightarrow> upsert_item_in_current_turn uuid x b = b \<or>
     (\<exists>y. item_id y = i \<and> upsert_item_in_current_turn uuid x b = upsert_item_in_current_turn uuid y b)"
  by blast

lemma started_upserts:
  assumes "keyed_item it" "tb_current b = Some t"
  shows "fold (handle_event lib uuid) (started_legacy_events (pt_id t) it) b = b \<or>
    (\<exists>y. item_id y = item_id (thread_item_of it) \<and>
      fold (handle_event lib uuid) (started_legacy_events (pt_id t) it) b = upsert_item_in_current_turn uuid y b)"
proof (cases it)
  case (TurnFileChange f)
  with assms(2) show ?thesis
    by (simp add: started_legacy_events_def file_change_legacy_begin_event_def handle_patch_apply_begin_def upsert_current_items
        build_file_change_begin_item_def upsert_some)
next
  case (TurnMcpToolCall m)
  then show ?thesis by (simp add: started_legacy_events_def handle_mcp_tool_call_begin_def mcp_legacy_begin_event_def upsert_some)
next
  case (TurnWebSearch i q a)
  then show ?thesis by (simp add: started_legacy_events_def handle_web_search_begin_def upsert_some)
next
  case (TurnImageGeneration g)
  then show ?thesis by (simp add: started_legacy_events_def handle_image_generation_begin_def upsert_some)
qed (use assms in \<open>auto simp: started_legacy_events_def\<close>)


definition example_turn :: pending_turn where
  "example_turn = new_turn ''u'' (Some ''turn-a'') new_builder"

definition example_file_change :: turn_item where
  "example_file_change = TurnFileChange \<lparr>fi_id = ''call-2'', fi_changes = [(''a.rs'', AddFile ''x'')], fi_status = Some CorePatchCompleted\<rparr>"


subsection \<open>User messages\<close>

fun is_image_input :: "user_input \<Rightarrow> bool" where
  "is_image_input (ImageInput _ _) = True"
| "is_image_input _ = False"

fun is_local_image_input :: "user_input \<Rightarrow> bool" where
  "is_local_image_input (LocalImageInput _ _) = True"
| "is_local_image_input _ = False"

text \<open>The text that an element marks, in its own input and in the whole message.\<close>

definition marked_texts :: "user_input list \<Rightarrow> string option list" where
  "marked_texts cs = concat (map (\<lambda>c. case c of TextInput t es \<Rightarrow> map (\<lambda>e. str_get t (te_start e) (te_end e)) es | _ \<Rightarrow> []) cs)"

definition starts_char :: "string \<Rightarrow> bool" where
  "starts_char s = (case s of [] \<Rightarrow> True | c # _ \<Rightarrow> \<not> (128 \<le> (of_char c :: nat) \<and> (of_char c :: nat) < 192))"

definition well_marked :: "user_input \<Rightarrow> bool" where
  "well_marked c =
     (case c of TextInput t es \<Rightarrow> starts_char t \<and> list_all (\<lambda>e. str_get t (te_start e) (te_end e) \<noteq> None) es | _ \<Rightarrow> True)"

lemma details_trimmed: "opt_flat (trim_trailing_default_image_details ds) i = opt_flat ds i"
proof (induction ds rule: rev_induct)
  case (snoc d ds)
  show ?case
  proof (cases d)
    case None
    then have "opt_flat (ds @ [d]) i = opt_flat ds i" by (auto simp: opt_flat_def nth_append less_Suc_eq)
    with None snoc show ?thesis by (simp add: trim_trailing_default_image_details_def)
  qed (simp add: trim_trailing_default_image_details_def)
qed (simp add: trim_trailing_default_image_details_def)

lemma enumerate_pairs:
  "length xs = length ds \<Longrightarrow> map (\<lambda>(i, x). f x (opt_flat (pre @ ds) i)) (enumerate (length pre) xs) = map2 f xs ds"
proof (induction xs ds arbitrary: pre rule: list_induct2)
  case (Cons x xs d ds)
  from Cons.IH [of "pre @ [d]"] show ?case by (simp add: opt_flat_def nth_append)
qed simp

lemma images_rebuilt:
  "map2 ImageInput (List.map_filter (\<lambda>c. case c of ImageInput url _ \<Rightarrow> Some url | _ \<Rightarrow> None) cs)
     (List.map_filter (\<lambda>c. case c of ImageInput _ d \<Rightarrow> Some d | _ \<Rightarrow> None) cs) = filter is_image_input cs"
  "map2 LocalImageInput (List.map_filter (\<lambda>c. case c of LocalImageInput p _ \<Rightarrow> Some p | _ \<Rightarrow> None) cs)
     (List.map_filter (\<lambda>c. case c of LocalImageInput _ d \<Rightarrow> Some d | _ \<Rightarrow> None) cs) = filter is_local_image_input cs"
  "length (List.map_filter (\<lambda>c. case c of ImageInput url _ \<Rightarrow> Some url | _ \<Rightarrow> None) cs) =
     length (List.map_filter (\<lambda>c. case c of ImageInput _ d \<Rightarrow> Some d | _ \<Rightarrow> None) cs)"
  "length (List.map_filter (\<lambda>c. case c of LocalImageInput p _ \<Rightarrow> Some p | _ \<Rightarrow> None) cs) =
     length (List.map_filter (\<lambda>c. case c of LocalImageInput _ d \<Rightarrow> Some d | _ \<Rightarrow> None) cs)"
  by (induction cs) (auto simp: map_filter_simps split: user_input.splits)

lemma str_get_inside:
  assumes t: "str_get t a b \<noteq> None" "starts_char t" "starts_char post"
  shows "str_get (pre @ t @ post) (length pre + a) (length pre + b) = str_get t a b"
proof -
  let ?s = "pre @ t @ post"
  have bound: "is_char_boundary ?s (length pre + k)" if k: "is_char_boundary t k" "k \<le> length t" for k
  proof (cases "k < length t")
    case True
    then have "\<not> (128 \<le> (of_char (t ! k) :: nat) \<and> (of_char (t ! k) :: nat) < 192)"
      using k(1) t(2) unfolding is_char_boundary_def starts_char_def by (cases t) auto
    moreover have "?s ! (length pre + k) = t ! k" using True by (simp add: nth_append)
    ultimately show ?thesis using True by (simp add: is_char_boundary_def)
  next
    case False
    then have "k = length t" using k(2) by simp
    then show ?thesis using t(3) by (cases post) (simp_all add: is_char_boundary_def starts_char_def nth_append)
  qed
  from t(1) have ab: "a \<le> b" "b \<le> length t" "is_char_boundary t a" "is_char_boundary t b"
    by (auto simp: str_get_def split: if_splits)
  then have "str_get (pre @ t @ post) (length pre + a) (length pre + b) = Some (take (b - a) (drop a (t @ post)))"
    using bound [of a] bound [of b] by (simp add: str_get_def)
  then show ?thesis using ab by (simp add: str_get_def)
qed

lemma starts_char_append: "starts_char s \<Longrightarrow> starts_char s' \<Longrightarrow> starts_char (s @ s')"
  by (cases s) (simp_all add: starts_char_def)

abbreviation input_text :: "user_input \<Rightarrow> string" where
  "input_text c \<equiv> (case c of TextInput t _ \<Rightarrow> t | _ \<Rightarrow> [])"

lemma texts_start: "list_all well_marked cs \<Longrightarrow> starts_char (concat (map input_text cs))"
  by (induction cs) (auto simp: well_marked_def starts_char_append starts_char_def [of "[]"] split: user_input.splits)

lemma marked_loop:
  "list_all well_marked cs \<Longrightarrow>
   map (\<lambda>e. str_get (pre @ concat (map input_text cs)) (te_start e) (te_end e)) (text_elements_loop (length pre) cs) = marked_texts cs"
proof (induction cs arbitrary: pre)
  case (Cons c cs)
  note start = texts_start [of cs]
  show ?case
  proof (cases c)
    case (TextInput t es)
    have "map (\<lambda>e. str_get (pre @ t @ concat (map input_text cs)) (te_start e) (te_end e)) (map (rebase_element (length pre) t) es) =
        map (\<lambda>e. str_get t (te_start e) (te_end e)) es"
      using Cons.prems TextInput start by (auto simp: rebase_element_def well_marked_def list_all_iff intro!: str_get_inside)
    with Cons.IH [of "pre @ t"] Cons.prems TextInput show ?thesis by (simp add: marked_texts_def)
  qed (use Cons in \<open>simp_all add: marked_texts_def\<close>)
qed (simp add: marked_texts_def)

lemma image_text: "is_image_input c \<Longrightarrow> input_text c = []" "is_local_image_input c \<Longrightarrow> input_text c = []"
  by (auto elim!: is_image_input.elims is_local_image_input.elims)

lemma no_text_in_images:
  "filter is_image_input (filter is_local_image_input cs) = []" "filter is_local_image_input (filter is_image_input cs) = []"
  "marked_texts (filter is_image_input cs) = []" "marked_texts (filter is_local_image_input cs) = []"
  by (induction cs) (auto simp: marked_texts_def elim!: is_image_input.elims is_local_image_input.elims)


definition example_message :: user_message_item where
  "example_message =
     \<lparr>ui_id = ''m'', ui_client_id = None,
      ui_content = [TextInput ''see img'' [\<lparr>te_start = 4, te_end = 7, te_placeholder = None\<rparr>], ImageInput ''u1'' (Some DetailLow), ImageInput ''u2'' None,
                    LocalImageInput ''f'' None, TextInput '' now'' [\<lparr>te_start = 1, te_end = 4, te_placeholder = None\<rparr>]]\<rparr>"


end
