(* ===== verification/Spec2Isabelle.thy ===== *)
theory Spec2Isabelle
  imports Process_Stdin Reconnect Remote_File_Stream Request_Handler Remote_Websocket Profile_Laws
    Connection_Processor Http_Body Client_Recovery Thread_Replay Thread_Legacy
begin

text \<open>
  A verification development of \<^emph>\<open>agentx\<close>, a remote executor of processes and file operations.

  \<^bold>\<open>The program.\<close> An executor (\<^verbatim>\<open>crates/exec-server\<close>) serves JSON-RPC connections. Each connection has a
  handler (\<^verbatim>\<open>server/handler.rs\<close>), which after a handshake attaches it to a session of the registry
  (\<^verbatim>\<open>server/session_registry.rs\<close>). A session owns a process table (\<^verbatim>\<open>local_process.rs\<close>) that outlives
  its connection: a client that lost its connection has thirty seconds to resume the session. A process's
  output, exit and close are events with sequence numbers; they are kept in bounded buffers, pushed as
  notifications and readable by \<^verbatim>\<open>process/read\<close>. The client (\<^verbatim>\<open>client.rs\<close>, \<^verbatim>\<open>client_recovery.rs\<close>) puts
  the notifications of each process in order and recovers what it missed after a reconnect. Files are read
  in blocks over handles (\<^verbatim>\<open>file_read.rs\<close>, \<^verbatim>\<open>remote_file_stream.rs\<close>). Another transport, remote control
  (\<^verbatim>\<open>crates/app-server-transport/src/transport/remote_control\<close>), multiplexes many clients over one websocket
  to a backend, with sequence numbers, acknowledgements, replay and the segmentation of large messages.
  What a process may touch is decided by a permission policy (\<^verbatim>\<open>crates/protocol/src/permissions.rs\<close>)
  over absolute paths (\<^verbatim>\<open>utils/absolute-path\<close>). Which commands run without asking the user, and how they are
  shown, is decided from their words (\<^verbatim>\<open>crates/shell-command\<close>). What a thread did is persisted as events and replayed into
  the turns and items a client is shown (\<^verbatim>\<open>crates/app-server-protocol/src/protocol/thread_history.rs\<close>).

  \<^bold>\<open>The theories.\<close>
  \<^item> \<open>Prelude\<close>: unsigned 64-bit counters, Rust's maps, association-list lemmas, and two locales: the eviction
    of a bounded queue from its front (\<open>front_eviction\<close>) and invariants of a transition system
    (\<open>transition_invariant\<close>), interpreted below on the model's own definitions.
  \<^item> \<open>Wire\<close>: messages of the executor protocol (\<^verbatim>\<open>protocol.rs\<close>, \<^verbatim>\<open>jsonrpc_lite.rs\<close>, \<^verbatim>\<open>rpc.rs\<close>).
  \<^item> \<open>Event_Log\<close>: the replay log of \<^verbatim>\<open>process.rs\<close>; its history is the longest tail of what was published that
    fits both bounds, and a subscriber sees it and then the live events without gap or repetition.
  \<^item> \<open>Shell_Environment\<close>, \<open>Sandbox_Denial\<close>: the environment of a child and the heuristics for a denied command.
  \<^item> \<open>Local_Process\<close>: every operation and every task of \<^verbatim>\<open>local_process.rs\<close>, one definition per section that runs
    under the table's lock. \<open>Process_Output\<close> has the laws of reading, \<open>Process_Stdin\<close> those of the idempotent
    writes, \<open>Process_Lifecycle\<close> the step relation that interleaves all the tasks and its invariant.
  \<^item> \<open>File_Read\<close>, \<open>Remote_File_Stream\<close>: block reads with short reads and interruptions, the table of at most
    128 open files, and the client's stream over them.
  \<^item> \<open>Session_Registry\<close>: attach, resume, detach and expiry, with the step relation of connections, timers and time.
  \<^item> \<open>Request_Handler\<close>: one connection's handler and the dispatch of its requests. \<open>Connection_Processor\<close>: the
    router of \<^verbatim>\<open>rpc.rs\<close> and the loop of \<^verbatim>\<open>server/processor.rs\<close> over a connection's events; requests are
    answered once and in order.
  \<^item> \<open>Rpc_Client\<close>: the client's end, \<^verbatim>\<open>RpcClient\<close> of \<^verbatim>\<open>rpc.rs\<close>, with the step relation of concurrent calls,
    the reader and the end of the connection; answers are never mixed up and no call waits for ever.
  \<^item> \<open>Http_Body\<close>: streamed HTTP bodies (\<^verbatim>\<open>client/http_response_body_stream.rs\<close>), from the executor's task through
    the client's routing table to the consumer; a clean end means a whole body.
  \<^item> \<open>Client_Session\<close>: the client's ordering and recovery of one process's events; \<open>Reconnect\<close> joins it with the
    executor's process table.
  \<^item> \<open>Client_Connection\<close>: the client's connection, its table of sessions and its recovery (\<^verbatim>\<open>client.rs\<close>,
    \<^verbatim>\<open>client_recovery.rs\<close>): one definition per section under a lock, and \<open>client_step\<close>, which interleaves the readers
    of events, the recovery and the process starts. It sees a JSON-RPC client through the locale \<open>rpc_link_laws\<close>, which is interpreted
    on \<open>Rpc_Client\<close>. \<open>Client_Recovery\<close>: a lost connection is always noticed, recoveries run one at a time and without
    process starts, make at most 251 attempts and end within 25 seconds, and a client that fails ends every session.
  \<^item> \<open>Remote_Segment\<close>, \<open>Client_Tracker\<close>, \<open>Remote_Websocket\<close>: the remote-control transport.
  \<^item> \<open>Absolute_Path\<close>, \<open>Permissions\<close>, \<open>Permission_Laws\<close>: paths, the permission policy, and what it guarantees.
    \<open>Permission_Profiles\<close>, \<open>Profile_Laws\<close>: the profiles of \<^verbatim>\<open>models.rs\<close> and their merging, intersection
    and application in \<^verbatim>\<open>crates/sandboxing/src/policy_transforms.rs\<close>.
  \<^item> \<open>Shell_Syntax\<close>, \<open>Command_Safety\<close>, \<open>Command_Summary\<close>: \<^verbatim>\<open>crates/shell-command\<close>, on Unix. Which shell a path names and
    the plain commands of a script, from the tree that tree-sitter gives; which commands run without asking and which are
    dangerous, never both; and how a command is summarised for the user, and what a summary may leave out.
  \<^item> \<open>Thread_Items\<close>, \<open>Thread_History\<close>: the events of a thread and the items they become (\<^verbatim>\<open>item_builders.rs\<close>,
    \<^verbatim>\<open>v2/item.rs\<close>, \<^verbatim>\<open>protocol/src/items.rs\<close>), and \<^verbatim>\<open>ThreadHistoryBuilder\<close>, one definition per handler, with the
    accumulator that coalesces the changes of a batch.
  \<^item> \<open>Thread_Steps\<close>, \<open>Thread_Names\<close>, \<open>Thread_Coalesce\<close>, \<open>Thread_Invariant\<close>, \<open>Thread_Replay\<close>: every persisted item is a
    sequence of steps of thirteen kinds (\<open>history_step\<close>); what the steps keep of the ids of turns and items (\<open>names_ok\<close>) and of the
    recorded changes; the accumulator as three ordered logs (the locale \<open>log_abstraction\<close>), which a reader applies to its copy of the
    turns (\<open>apply_change_set\<close>). Reading the change sets of all batches gives the history that a replay gives, and ids are unique.
  \<^item> \<open>Thread_Legacy\<close>: the legacy events of a turn item and of a user message, replayed, give back the item that was shown live.

  \<^bold>\<open>Modelling conventions.\<close> State that the code keeps behind a lock is a record, and a section that holds the
  lock is one definition from the record to the result and the new record; tasks interleave between such
  sections, in the step relations \<open>lp_step\<close>, \<open>registry_step\<close>, \<open>tracker_step\<close>, \<open>reassembler_step\<close>, \<open>link_step\<close>,
  \<open>rpc_step\<close>, \<open>http_step\<close> and \<open>client_step\<close>; the builder of a thread's history moves in \<open>history_step\<close>.
  Errors are values of sum types with the code's messages. Counters are natural numbers with the wrapping or
  saturating additions of the code written out; theorems that need it assume a counter below the last value.
  Instants are natural numbers of milliseconds. Code outside the repository is a parameter: the operating
  system (\<open>host_lib\<close>, \<open>path_env\<close>, the readers of files), base64 and JSON (\<open>base64_codec\<close>, \<open>wire_format\<close>,
  \<open>notification_decoder\<close>), tree-sitter and shlex (\<open>shell_lib\<close>), the paths of URIs and the XML of
  hook prompts (\<open>item_lib\<close>), and the glob compiler.

  \<^bold>\<open>Fuel.\<close> The block read retries after an interruption; \<open>read_block_at\<close> has fuel, and
  \<open>read_block_at_exact\<close> shows that the requested length plus the number of interruptions, plus one, is enough.
  A long poll loops until its deadline; \<open>exec_read_answers\<close> shows that it answers. All other recursion ends by
  a measure.

  \<^bold>\<open>Not modelled.\<close> Framing and sockets; spawning processes and pseudo-terminals; the platform sandboxes, whose
  policy texts are interpreted by tools outside the repository; login, identity and the model API clients; the
  declarations of the app-server protocol and the generation of schemas from them; the classification of commands that is
  compiled on Windows only.
\<close>

end
